(* ===== verification/Ladder_Prelude.thy ===== *)
theory Ladder_Prelude
  imports Main "HOL-Library.Word"
begin

text \<open>
  Shared vocabulary of the development: the machine types of the C++ sources, the results of
  system calls, the ways a C++ function can fail to return, the byte representation of a
  32-bit integer, and the generic lemmas on lists and words that the component theories use.

  A \<open>std::string\<close> and a \<open>std::vector<char>\<close> are lists of \<open>char\<close> (a byte each). A
  \<open>size_t\<close> is a \<open>nat\<close>: it is 64 bits wide on the supported targets, and the only operation
  on it whose width matters, the cast to \<open>uint32_t\<close>, is written out as \<open>word_of_nat\<close>.
\<close>

section \<open>Collections of rewrite rules\<close>

named_theorems bytes_simps \<open>byte images of machine integers\<close>
named_theorems buf_simps \<open>the content of a buffer after an operation\<close>
named_theorems step_simps \<open>inversion of the step relations\<close>

section \<open>Machine types\<close>

type_synonym u8 = "8 word"
type_synonym u16 = "16 word"
type_synonym u32 = "32 word"
type_synonym u64 = "64 word"
type_synonym fd = int
type_synonym addr = nat

abbreviation to_u32 :: "nat \<Rightarrow> u32" where
  "to_u32 n \<equiv> word_of_nat n"

abbreviation NUL :: char where
  "NUL \<equiv> CHR 0x00"

text \<open>A value converted to the 32-bit \<open>int\<close> of the targets.\<close>

definition to_i32 :: "int \<Rightarrow> int" where
  "to_i32 x = sint (word_of_int x :: u32)"

lemma to_i32_id: "- (2 ^ 31) \<le> x \<Longrightarrow> x < 2 ^ 31 \<Longrightarrow> to_i32 x = x"
  by (simp add: to_i32_def sint_sbintrunc' signed_take_bit_int_eq_self)

section \<open>Results of system calls and abnormal ends\<close>

text \<open>
  The \<open>errno\<close> values the sources name. On Linux \<open>EWOULDBLOCK\<close> and \<open>EAGAIN\<close> are one value,
  and the sources compile the second \<open>case\<close> label only where they differ.
\<close>

datatype errno =
    EAGAIN | ECONNRESET | EPIPE | EINTR | ENOENT | EEXIST | EINPROGRESS | EISCONN
  | EADDRINUSE | EADDRNOTAVAIL | ECONNREFUSED | ENETUNREACH | ENOTCONN | EBADF
  | EOTHER nat

datatype 'a sysres = Ret 'a | Err errno

text \<open>
  A C++ function ends abnormally by the macro \<open>EXIT\<close> (which prints its message and calls
  \<open>exit(EXIT_FAILURE)\<close>), by an exception, or by undefined behaviour.
\<close>

datatype fatal = EXIT string | Throw string | UB string

type_synonym 'a res = "fatal + 'a"

text \<open>
  Sequencing of calls that can end abnormally, and of calls that can also fail to return (\<open>None\<close>).
\<close>

definition sbind :: "'a res \<Rightarrow> ('a \<Rightarrow> 'b res) \<Rightarrow> 'b res" where
  "sbind m k = (case m of Inl x \<Rightarrow> Inl x | Inr v \<Rightarrow> k v)"

definition obind :: "'a res option \<Rightarrow> ('a \<Rightarrow> 'b res option) \<Rightarrow> 'b res option" where
  "obind m k = (case m of None \<Rightarrow> None | Some (Inl x) \<Rightarrow> Some (Inl x) | Some (Inr v) \<Rightarrow> k v)"

lemma sbind_simps [simp]: "sbind (Inl x) k = Inl x" "sbind (Inr v) k = k v"
  by (simp_all add: sbind_def)

lemma obind_simps [simp]:
  "obind None k = None" "obind (Some (Inl x)) k = Some (Inl x)" "obind (Some (Inr v)) k = k v"
  by (simp_all add: obind_def)

lemma sbind_Inr: "sbind m k = Inr y \<longleftrightarrow> (\<exists>v. m = Inr v \<and> k v = Inr y)"
  by (cases m) auto

lemma obind_return: "obind m (\<lambda>x. Some (Inr x)) = m"
  by (simp add: obind_def split: option.split sum.split)

lemma obind_Inr: "obind m k = Some (Inr y) \<longleftrightarrow> (\<exists>v. m = Some (Inr v) \<and> k v = Some (Inr y))"
  by (auto simp: obind_def split: option.splits sum.splits)

text \<open>
  A call that returns, and either ends the process through \<open>EXIT\<close> or gives a result with the property \<open>Q\<close>.
\<close>

definition exits_or :: "('a \<Rightarrow> bool) \<Rightarrow> 'a res option \<Rightarrow> bool" where
  "exits_or Q m \<longleftrightarrow> (\<exists>x. m = Some (Inl (EXIT x))) \<or> (\<exists>y. m = Some (Inr y) \<and> Q y)"

lemma exits_or_simps [simp]:
  "exits_or Q (Some (Inr y)) \<longleftrightarrow> Q y" "exits_or Q (Some (Inl (EXIT x)))" "\<not> exits_or Q None"
  by (simp_all add: exits_or_def)

lemma exits_or_bind:
  assumes "exits_or Q m" and "\<And>y. Q y \<Longrightarrow> exits_or R (k y)"
  shows "exits_or R (obind m k)"
  using assms unfolding exits_or_def [of Q] by (elim disjE exE conjE) simp_all

lemma exits_or_mono: "exits_or Q m \<Longrightarrow> (\<And>y. Q y \<Longrightarrow> R y) \<Longrightarrow> exits_or R m"
  by (auto simp: exits_or_def)

text \<open>A call whose result, if it returns one, has the property \<open>Q\<close>.\<close>

definition keeps :: "('a \<Rightarrow> bool) \<Rightarrow> 'a res option \<Rightarrow> bool" where
  "keeps Q m \<longleftrightarrow> (\<forall>y. m = Some (Inr y) \<longrightarrow> Q y)"

lemma keeps_simps [simp]:
  "keeps Q None" "keeps Q (Some (Inl x))" "keeps Q (Some (Inr y)) \<longleftrightarrow> Q y"
  by (simp_all add: keeps_def)

lemma keeps_bind:
  assumes "keeps Q m" and "\<And>y. m = Some (Inr y) \<Longrightarrow> Q y \<Longrightarrow> keeps R (k y)"
  shows "keeps R (obind m k)"
  using assms by (auto simp: keeps_def obind_Inr)

lemma keeps_get: "(\<And>y. m = Inr y \<Longrightarrow> keeps R (k y)) \<Longrightarrow> keeps R (obind (Some m) k)"
  by (auto simp: keeps_def obind_Inr)

lemma keeps_sbind:
  assumes "keeps Q (Some m)" and "\<And>y. m = Inr y \<Longrightarrow> Q y \<Longrightarrow> keeps R (Some (k y))"
  shows "keeps R (Some (sbind m k))"
  using assms by (auto simp: keeps_def sbind_Inr)

lemma keeps_sget: "(\<And>y. m = Inr y \<Longrightarrow> keeps R (Some (k y))) \<Longrightarrow> keeps R (Some (sbind m k))"
  by (auto simp: keeps_def sbind_Inr)

lemma keeps_mono: "keeps Q m \<Longrightarrow> (\<And>y. Q y \<Longrightarrow> R y) \<Longrightarrow> keeps R m"
  by (auto simp: keeps_def)

lemma keepsD: "keeps Q m \<Longrightarrow> m = Some (Inr y) \<Longrightarrow> Q y"
  by (simp add: keeps_def)

section \<open>Lists\<close>

lemma take_drop_append_le [simp]:
  "i + n \<le> length xs \<Longrightarrow> take n (drop i (xs @ ys)) = take n (drop i xs)"
  by simp

lemma nth_eq_take_Suc:
  "i < length xs \<Longrightarrow> take (Suc i) xs = take i xs @ [xs ! i]"
  by (simp add: take_Suc_conv_app_nth)

lemma drop_take_split:
  "r \<le> w \<Longrightarrow> n \<le> w - r \<Longrightarrow> drop (r + n) (take w xs) = drop n (drop r (take w xs))"
  by (simp add: add.commute)

section \<open>The bytes of a 32-bit integer\<close>

text \<open>
  \<open>memcpy\<close> between a \<open>uint32_t\<close> and a \<open>char\<close> array copies the integer's object
  representation, whose order is the host's. The development does not fix the host: the byte
  order is an argument, and the wire format is proved to be the same for both.
\<close>

datatype byte_order = Little_Endian | Big_Endian

definition u32_le_bytes :: "u32 \<Rightarrow> string" where
  "u32_le_bytes w = map (\<lambda>k. char_of (unat w div 256 ^ k)) [0..<4]"

definition u32_of_le_bytes :: "string \<Rightarrow> u32" where
  "u32_of_le_bytes bs = to_u32 (\<Sum>k\<leftarrow>[0..<4]. of_char (bs ! k) * 256 ^ k)"

definition memcpy_u32 :: "byte_order \<Rightarrow> u32 \<Rightarrow> string" where
  "memcpy_u32 e w = (case e of Little_Endian \<Rightarrow> u32_le_bytes w | Big_Endian \<Rightarrow> rev (u32_le_bytes w))"

text \<open>
  Reading four bytes of an array into an integer; reading past the array's end is undefined
  behaviour.
\<close>

definition u32_memcpy :: "byte_order \<Rightarrow> string \<Rightarrow> u32 res" where
  "u32_memcpy e bs =
     (if length bs < 4 then Inl (UB ''memcpy past the end'')
      else Inr (case e of Little_Endian \<Rightarrow> u32_of_le_bytes (take 4 bs)
                        | Big_Endian \<Rightarrow> u32_of_le_bytes (rev (take 4 bs))))"

text \<open>\<open>std::string::c_str()\<close>: the characters and the terminating zero.\<close>

definition c_str :: "string \<Rightarrow> string" where
  "c_str s = s @ [NUL]"

text \<open>\<open>std::string::substr(pos, count)\<close>, which throws when \<open>pos\<close> is past the end, and
  \<open>substr(pos)\<close>.\<close>

definition std_substr :: "string \<Rightarrow> nat \<Rightarrow> nat \<Rightarrow> string res" where
  "std_substr s pos cnt =
     (if length s < pos then Inl (Throw ''std::out_of_range'') else Inr (take cnt (drop pos s)))"

definition std_substr_from :: "string \<Rightarrow> nat \<Rightarrow> string res" where
  "std_substr_from s pos =
     (if length s < pos then Inl (Throw ''std::out_of_range'') else Inr (drop pos s))"

text \<open>\<open>htonl\<close> and \<open>ntohl\<close>: the byte swap on a little-endian host, the identity on the other.\<close>

definition bswap32 :: "u32 \<Rightarrow> u32" where
  "bswap32 w = u32_of_le_bytes (rev (u32_le_bytes w))"

definition htonl :: "byte_order \<Rightarrow> u32 \<Rightarrow> u32" where
  "htonl e w = (case e of Little_Endian \<Rightarrow> bswap32 w | Big_Endian \<Rightarrow> w)"

definition ntohl :: "byte_order \<Rightarrow> u32 \<Rightarrow> u32" where
  "ntohl e w = (case e of Little_Endian \<Rightarrow> bswap32 w | Big_Endian \<Rightarrow> w)"

text \<open>The representation in network order, which the wire carries.\<close>

definition u32_be_bytes :: "u32 \<Rightarrow> string" where
  "u32_be_bytes w = rev (u32_le_bytes w)"

lemma length_u32_le_bytes [simp]: "length (u32_le_bytes w) = 4"
  by (simp add: u32_le_bytes_def)

lemma length_u32_be_bytes [simp]: "length (u32_be_bytes w) = 4"
  by (simp add: u32_be_bytes_def)

lemma length_memcpy_u32 [simp]: "length (memcpy_u32 e w) = 4"
  by (simp add: memcpy_u32_def split: byte_order.split)

lemma length_c_str [simp]: "length (c_str s) = Suc (length s)"
  by (simp add: c_str_def)

lemma base256_digits:
  "n mod 256 + (n div 256 mod 256 * 256 + (n div 65536 mod 256 * 65536 + n div 16777216 * 16777216))
     = (n::nat)"
proof -
  define a b c where "a = n div 256" and "b = a div 256" and "c = b div 256"
  have ab: "n div 65536 = b" "n div 16777216 = c"
    by (simp_all add: a_def b_def c_def flip: div_mult2_eq)
  moreover have "n = a * 256 + n mod 256" "a = b * 256 + a mod 256" "b = c * 256 + b mod 256"
    by (simp_all add: a_def b_def c_def)
  ultimately show ?thesis
    unfolding ab a_def [symmetric] by simp
qed

lemma digits_base256:
  assumes "d0 < 256" and "d1 < 256" and "d2 < 256" and "d3 < (256::nat)"
  defines "n \<equiv> d0 + d1 * 256 + d2 * 65536 + d3 * 16777216"
  shows "n < 2 ^ 32" and "n mod 256 = d0" and "n div 256 mod 256 = d1"
    and "n div 65536 mod 256 = d2" and "n div 16777216 mod 256 = d3"
proof -
  have n256: "n = d0 + 256 * (d1 + 256 * (d2 + 256 * d3))"
    by (simp add: n_def)
  have q1: "n div 256 = d1 + 256 * (d2 + 256 * d3)"
    using assms(1) by (simp add: n256)
  have q2: "n div 65536 = d2 + 256 * d3"
    using div_mult2_eq [of n 256 256] q1 assms(2) by simp
  have q3: "n div 16777216 = d3"
    using div_mult2_eq [of n 65536 256] q2 assms(3) by simp
  show "n < 2 ^ 32" using assms(1-4) by (simp add: n_def)
  show "n mod 256 = d0" using assms(1) by (simp only: n256 mod_mult_self2 mod_less)
  show "n div 256 mod 256 = d1" using assms(2) by (simp only: q1 mod_mult_self2 mod_less)
  show "n div 65536 mod 256 = d2" using assms(3) by (simp only: q2 mod_mult_self2 mod_less)
  show "n div 16777216 mod 256 = d3" using assms(4) by (simp add: q3)
qed

lemma upt_4: "[0..<4] = [0, 1, 2, 3::nat]"
  by (simp add: upt_rec)

lemma char_of_cong_256: "m mod 256 = n mod 256 \<Longrightarrow> char_of m = char_of (n::nat)"
  using char_of_mod_256 [of m] char_of_mod_256 [of n] by simp

lemma unat_u32_less: "unat (w::u32) < 2 ^ 32"
  using unsigned_less [of w] by simp

lemma sum_list_bytes4:
  "(\<Sum>k\<leftarrow>[0..<4]. f k * 256 ^ k) = f 0 + f 1 * 256 + f 2 * 65536 + f 3 * (16777216::nat)"
  by (simp add: upt_4)

lemma u32_of_le_bytes_inverse [simp, bytes_simps]: "u32_of_le_bytes (u32_le_bytes w) = w"
proof -
  have "unat w div 16777216 mod 256 = unat w div 16777216"
    using unat_u32_less [of w] by (intro mod_less) (simp add: less_mult_imp_div_less)
  then have "(\<Sum>k\<leftarrow>[0..<4]. of_char (u32_le_bytes w ! k) * 256 ^ k) = unat w"
    unfolding sum_list_bytes4 u32_le_bytes_def upt_4
    using base256_digits [of "unat w"] by (simp add: add.assoc)
  then show ?thesis unfolding u32_of_le_bytes_def by (simp only:) simp
qed

lemma list_of_length_4: "length bs = 4 \<Longrightarrow> bs = [bs ! 0, bs ! 1, bs ! 2, bs ! 3]"
  by (rule nth_equalityI) (auto simp: less_Suc_eq numeral_eq_Suc)

lemma u32_le_bytes_inverse [bytes_simps]:
  assumes "length bs = 4"
  shows "u32_le_bytes (u32_of_le_bytes bs) = bs"
proof -
  note d = digits_base256 [of "of_char (bs ! 0)" "of_char (bs ! 1)" "of_char (bs ! 2)" "of_char (bs ! 3)"]
  define n where "n = (\<Sum>k\<leftarrow>[0..<4]. of_char (bs ! k) * (256::nat) ^ k)"
  have n: "n < 2 ^ 32" "n mod 256 = of_char (bs ! 0)" "n div 256 mod 256 = of_char (bs ! 1)"
    "n div 65536 mod 256 = of_char (bs ! 2)" "n div 16777216 mod 256 = of_char (bs ! 3)"
    unfolding n_def sum_list_bytes4 by (rule d; rule nat_of_char_less_256)+
  have c: "char_of n = bs ! 0" "char_of (n div 256) = bs ! 1"
    "char_of (n div 65536) = bs ! 2" "char_of (n div 16777216) = bs ! 3"
    using n(2-5) by (metis char_of_mod_256 char_of_char)+
  have "unat (u32_of_le_bytes bs) = n"
    using n(1) by (simp add: u32_of_le_bytes_def n_def [symmetric] unat_of_nat)
  then have "u32_le_bytes (u32_of_le_bytes bs) = [bs ! 0, bs ! 1, bs ! 2, bs ! 3]"
    by (simp add: u32_le_bytes_def upt_4 c)
  with list_of_length_4 [OF assms] show ?thesis by simp
qed

lemma ntohl_htonl [simp]: "ntohl e (htonl e w) = w"
  by (simp add: ntohl_def htonl_def bswap32_def u32_le_bytes_inverse split: byte_order.split)

text \<open>\<open>htons\<close> and \<open>ntohs\<close> swap the two bytes of a 16-bit integer on a little-endian host.\<close>

definition bswap16 :: "u16 \<Rightarrow> u16" where
  "bswap16 w = word_of_nat (unat w mod 256 * 256 + unat w div 256)"

definition htons :: "byte_order \<Rightarrow> u16 \<Rightarrow> u16" where
  "htons e w = (case e of Little_Endian \<Rightarrow> bswap16 w | Big_Endian \<Rightarrow> w)"

definition ntohs :: "byte_order \<Rightarrow> u16 \<Rightarrow> u16" where
  "ntohs e w = (case e of Little_Endian \<Rightarrow> bswap16 w | Big_Endian \<Rightarrow> w)"

lemma bswap16_bswap16 [simp]: "bswap16 (bswap16 w) = w"
proof -
  let ?n = "unat w"
  have n: "?n < 65536" using unsigned_less [of w] by simp
  then have d: "?n div 256 < 256" by (simp add: less_mult_imp_div_less)
  have "?n mod 256 < 256" by simp
  with d have "?n mod 256 * 256 + ?n div 256 < 65536" by linarith
  then have "unat (bswap16 w) = ?n mod 256 * 256 + ?n div 256"
    unfolding bswap16_def by (simp only: unat_of_nat) (simp add: take_bit_eq_mod)
  then show ?thesis
    using d by (simp only: bswap16_def [of "bswap16 w"]) (simp del: of_nat_add of_nat_mult)
qed

lemma ntohs_htons [simp]: "ntohs e (htons e w) = w"
  by (simp add: ntohs_def htons_def split: byte_order.split)

text \<open>On every host the bytes of \<open>htonl w\<close> are those of \<open>w\<close> in network order, and reading
  four bytes in network order through \<open>ntohl\<close> gives \<open>w\<close> back.\<close>

lemma memcpy_u32_htonl [simp, bytes_simps]: "memcpy_u32 e (htonl e w) = u32_be_bytes w"
  by (simp add: memcpy_u32_def htonl_def bswap32_def u32_be_bytes_def u32_le_bytes_inverse
      split: byte_order.split)

lemma u32_memcpy_be_bytes [simp, bytes_simps]:
  "u32_memcpy e (u32_be_bytes w @ rest) = Inr (htonl e w)"
  by (simp add: u32_memcpy_def htonl_def bswap32_def u32_be_bytes_def split: byte_order.split)

lemma u32_memcpy_memcpy [simp, bytes_simps]: "u32_memcpy e (memcpy_u32 e w @ rest) = Inr w"
  by (simp add: u32_memcpy_def memcpy_u32_def split: byte_order.split)

lemma u32_memcpy_ntohl_be:
  assumes "4 \<le> length bs"
  shows "map_sum id (ntohl e) (u32_memcpy e bs) = Inr (u32_of_le_bytes (rev (take 4 bs)))"
  using assms
  by (simp add: u32_memcpy_def ntohl_def bswap32_def u32_le_bytes_inverse split: byte_order.split)

lemma u32_be_bytes_inverse [bytes_simps]:
  "length bs = 4 \<Longrightarrow> u32_be_bytes (u32_of_le_bytes (rev bs)) = bs"
  by (simp add: u32_be_bytes_def u32_le_bytes_inverse)

end
