(* ===== verification/Posix_Interface.thy ===== *)
theory Posix_Interface
  imports Ladder_Prelude
begin

text \<open>
  The operating system as the sources use it. The kernel is not part of the repository, so its
  calls are parameters: a value of the record \<open>posix\<close> supplies one function per system call, over
  an arbitrary type \<open>'w\<close> of kernel states, and the models of the C++ functions take that value
  as an argument. What the manual pages promise is stated as the predicates below, which the
  theorems that need a promise take as a hypothesis.
\<close>

section \<open>The calls\<close>

text \<open>
  An \<open>epoll_event\<close> is a mask of events and the pointer the program stored with it.
\<close>

type_synonym epoll_event = "u32 \<times> addr"

datatype epoll_op = EPOLL_CTL_ADD | EPOLL_CTL_MOD | EPOLL_CTL_DEL

text \<open>
  A \<open>sockaddr_t\<close>: the family, the bytes of the address (\<open>None\<close> while they have never been set) and
  the port as it is stored, in network byte order.
\<close>

record sockaddr =
  sa_ipv6 :: bool
  sa_addr :: "string option"
  sa_port :: u16

record 'w posix =
  sys_read :: "fd \<Rightarrow> nat \<Rightarrow> 'w \<Rightarrow> string sysres \<times> 'w"
  sys_write :: "fd \<Rightarrow> string \<Rightarrow> 'w \<Rightarrow> nat sysres \<times> 'w"
  sys_open :: "string \<Rightarrow> 'w \<Rightarrow> fd sysres \<times> 'w"
  sys_fsize :: "fd \<Rightarrow> 'w \<Rightarrow> int"
  sys_sendfile :: "fd \<Rightarrow> fd \<Rightarrow> int \<Rightarrow> int \<Rightarrow> 'w \<Rightarrow> nat sysres \<times> 'w"
  sys_close :: "fd \<Rightarrow> 'w \<Rightarrow> unit sysres \<times> 'w"
  sys_shutdown_write :: "fd \<Rightarrow> 'w \<Rightarrow> 'w"
  sys_shutdown_read :: "fd \<Rightarrow> 'w \<Rightarrow> 'w"
  sys_pipe :: "'w \<Rightarrow> (fd \<times> fd) sysres \<times> 'w"
  sys_epoll_create :: "'w \<Rightarrow> fd sysres \<times> 'w"
  sys_epoll_ctl :: "fd \<Rightarrow> epoll_op \<Rightarrow> fd \<Rightarrow> epoll_event \<Rightarrow> 'w \<Rightarrow> unit sysres \<times> 'w"
  sys_epoll_wait :: "fd \<Rightarrow> nat \<Rightarrow> 'w \<Rightarrow> epoll_event list sysres \<times> 'w"
  sys_socket :: "bool \<Rightarrow> bool \<Rightarrow> 'w \<Rightarrow> fd sysres \<times> 'w"
  sys_reuseaddr :: "fd \<Rightarrow> 'w \<Rightarrow> unit sysres \<times> 'w"
  sys_bind :: "fd \<Rightarrow> sockaddr \<Rightarrow> 'w \<Rightarrow> unit sysres \<times> 'w"
  sys_listen :: "fd \<Rightarrow> nat \<Rightarrow> 'w \<Rightarrow> unit sysres \<times> 'w"
  sys_accept :: "fd \<Rightarrow> 'w \<Rightarrow> (fd \<times> sockaddr) sysres \<times> 'w"

section \<open>Documented behaviour\<close>

text \<open>
  \<open>read(2)\<close> returns at most the number of bytes asked for. \<open>recv\<close> reads off the kernel state the
  bytes delivered through the descriptor so far, and \<open>avail\<close> bounds the bytes it still delivers
  before it reports the end of the stream or an error: a call that returns bytes adds them to the
  first and takes their number from the second, and a call that fails adds nothing.
\<close>

definition read_delivers :: "'w posix \<Rightarrow> fd \<Rightarrow> ('w \<Rightarrow> string) \<Rightarrow> ('w \<Rightarrow> nat) \<Rightarrow> bool" where
  "read_delivers os f recv avail \<longleftrightarrow>
     (\<forall>n w bs w'. 0 < n \<longrightarrow> sys_read os f n w = (Ret bs, w') \<longrightarrow>
        length bs \<le> n \<and> recv w' = recv w @ bs \<and> length bs + avail w' \<le> avail w) \<and>
     (\<forall>n w e w'. sys_read os f n w = (Err e, w') \<longrightarrow> recv w' = recv w)"

text \<open>
  \<open>write(2)\<close> accepts a non-empty prefix of the bytes it is given or reports an error. \<open>sent\<close> reads
  off the kernel state the bytes the descriptor has accepted so far: a successful call appends
  the prefix it accepted, and a failed one appends nothing.
\<close>

definition write_accepts :: "'w posix \<Rightarrow> fd \<Rightarrow> ('w \<Rightarrow> string) \<Rightarrow> bool" where
  "write_accepts os f sent \<longleftrightarrow>
     (\<forall>bs w k w'. bs \<noteq> [] \<longrightarrow> sys_write os f bs w = (Ret k, w') \<longrightarrow>
        0 < k \<and> k \<le> length bs \<and> sent w' = sent w @ take k bs) \<and>
     (\<forall>bs w e w'. sys_write os f bs w = (Err e, w') \<longrightarrow> sent w' = sent w)"

lemma read_deliversD:
  assumes "read_delivers os f recv avail" and "sys_read os f n w = (Ret bs, w')" and "0 < n"
  shows "length bs \<le> n" and "recv w' = recv w @ bs" and "length bs + avail w' \<le> avail w"
  using assms unfolding read_delivers_def by blast+

lemma read_deliversD_err:
  assumes "read_delivers os f recv avail" and "sys_read os f n w = (Err e, w')"
  shows "recv w' = recv w"
  using assms unfolding read_delivers_def by blast

lemma write_acceptsD:
  assumes "write_accepts os f sent" and "sys_write os f bs w = (Ret k, w')" and "bs \<noteq> []"
  shows "0 < k" and "k \<le> length bs" and "sent w' = sent w @ take k bs"
  using assms by (auto simp: write_accepts_def)

lemma write_acceptsD_err:
  assumes "write_accepts os f sent" and "sys_write os f bs w = (Err e, w')"
  shows "sent w' = sent w"
  using assms by (auto simp: write_accepts_def)

text \<open>
  \<open>epoll_ctl(2)\<close> on the instance \<open>ep\<close> changes the event of a registered descriptor and reports
  \<open>ENOENT\<close> for one that is not registered; adding a registered descriptor reports \<open>EEXIST\<close>. \<open>iset\<close>
  reads the set of registered descriptors off the kernel state, and \<open>keep\<close> anything the call
  leaves alone, such as the bytes a socket has sent. A call may also fail for want of memory.
\<close>

definition epoll_tracks :: "'w posix \<Rightarrow> fd \<Rightarrow> ('w \<Rightarrow> fd \<rightharpoonup> epoll_event) \<Rightarrow> ('w \<Rightarrow> 'k) \<Rightarrow> bool" where
  "epoll_tracks os ep iset keep \<longleftrightarrow>
     (\<forall>op f ev w r w'. sys_epoll_ctl os ep op f ev w = (r, w') \<longrightarrow>
        keep w' = keep w \<and>
        (case r of
           Ret _ \<Rightarrow> (iset w f = None) = (op = EPOLL_CTL_ADD) \<and>
                     iset w' = (iset w)(f := if op = EPOLL_CTL_DEL then None else Some ev)
         | Err e \<Rightarrow> iset w' = iset w \<and> (e = EEXIST \<longrightarrow> op = EPOLL_CTL_ADD \<and> iset w f \<noteq> None) \<and>
                     (e = ENOENT \<longrightarrow> op \<noteq> EPOLL_CTL_ADD \<and> iset w f = None)))"

lemma epoll_tracksD:
  assumes "epoll_tracks os ep iset keep" and "sys_epoll_ctl os ep op f ev w = (r, w')"
  shows "keep w' = keep w"
    and "r = Ret u \<Longrightarrow> (iset w f = None) = (op = EPOLL_CTL_ADD) \<and>
      iset w' = (iset w)(f := if op = EPOLL_CTL_DEL then None else Some ev)"
    and "r = Err e \<Longrightarrow> iset w' = iset w \<and>
      (e = EEXIST \<longrightarrow> op = EPOLL_CTL_ADD \<and> iset w f \<noteq> None) \<and> (e = ENOENT \<longrightarrow> op \<noteq> EPOLL_CTL_ADD \<and> iset w f = None)"
proof -
  have "keep w' = keep w \<and>
    (case r of
       Ret _ \<Rightarrow> (iset w f = None) = (op = EPOLL_CTL_ADD) \<and>
                 iset w' = (iset w)(f := if op = EPOLL_CTL_DEL then None else Some ev)
     | Err e \<Rightarrow> iset w' = iset w \<and> (e = EEXIST \<longrightarrow> op = EPOLL_CTL_ADD \<and> iset w f \<noteq> None) \<and>
                 (e = ENOENT \<longrightarrow> op \<noteq> EPOLL_CTL_ADD \<and> iset w f = None))"
    using assms unfolding epoll_tracks_def by blast
  then show "keep w' = keep w"
    and "r = Ret u \<Longrightarrow> (iset w f = None) = (op = EPOLL_CTL_ADD) \<and>
      iset w' = (iset w)(f := if op = EPOLL_CTL_DEL then None else Some ev)"
    and "r = Err e \<Longrightarrow> iset w' = iset w \<and>
      (e = EEXIST \<longrightarrow> op = EPOLL_CTL_ADD \<and> iset w f \<noteq> None) \<and> (e = ENOENT \<longrightarrow> op \<noteq> EPOLL_CTL_ADD \<and> iset w f = None)"
    by simp_all
qed

text \<open>
  Transfers through the descriptor \<open>f\<close> leave other parts of the kernel state alone, such as the
  event it is registered for; \<open>keep\<close> reads such a part. \<open>open\<close> gives a descriptor that is not in
  use, and closing another descriptor than \<open>f\<close> leaves the part alone too.
\<close>

definition io_keeps :: "'w posix \<Rightarrow> fd \<Rightarrow> ('w \<Rightarrow> 'k) \<Rightarrow> bool" where
  "io_keeps os f keep \<longleftrightarrow>
     (\<forall>n w. keep (snd (sys_read os f n w)) = keep w) \<and>
     (\<forall>bs w. keep (snd (sys_write os f bs w)) = keep w) \<and>
     (\<forall>p w. keep (snd (sys_open os p w)) = keep w \<and> fst (sys_open os p w) \<noteq> Ret f) \<and>
     (\<forall>g i n w. keep (snd (sys_sendfile os f g i n w)) = keep w) \<and>
     (\<forall>g w. g \<noteq> f \<longrightarrow> keep (snd (sys_close os g w)) = keep w)"

lemma io_keepsD:
  assumes "io_keeps os f keep"
  shows "sys_read os f n w = (r1, w') \<Longrightarrow> keep w' = keep w"
    and "sys_write os f bs w = (r2, w') \<Longrightarrow> keep w' = keep w"
    and "sys_open os p w = (r3, w') \<Longrightarrow> keep w' = keep w \<and> r3 \<noteq> Ret f"
    and "sys_sendfile os f g i j w = (r4, w') \<Longrightarrow> keep w' = keep w"
    and "g \<noteq> f \<Longrightarrow> keep (snd (sys_close os g w)) = keep w"
  using assms unfolding io_keeps_def by (metis fst_conv snd_conv)+

section \<open>Concrete kernels\<close>

text \<open>A descriptor that is not in use.\<close>

definition fresh_fd :: "fd list \<Rightarrow> fd" where
  "fresh_fd fs = 1 + foldr max fs 2"

lemma fresh_fd_notin: "fresh_fd fs \<notin> set fs"
proof -
  have "\<forall>x\<in>set xs. x \<le> foldr max xs b" for xs and b :: int by (induction xs) (auto simp: le_max_iff_disj)
  from this [of fs 2] show ?thesis by (force simp: fresh_fd_def)
qed

text \<open>
  A small kernel that meets the promises, on which the theorems with a kernel hypothesis are
  applied to concrete data: a descriptor has bytes waiting to be read and room for some bytes to
  be written, and reports \<open>EAGAIN\<close> when it has none. A write accepts at most three bytes. There is
  one file, named \<open>f\<close>, of which \<open>sendfile\<close> transmits at most four bytes at a time.
\<close>

record sample_kernel =
  waiting :: string
  received :: string
  out_room :: nat
  accepted :: string
  epoll_set :: "fd \<rightharpoonup> epoll_event"
  ready :: "epoll_event list"

definition sample_read :: "fd \<Rightarrow> nat \<Rightarrow> sample_kernel \<Rightarrow> string sysres \<times> sample_kernel" where
  "sample_read f n w =
     (if waiting w = [] then (Err EAGAIN, w)
      else (Ret (take n (waiting w)),
            w\<lparr>waiting := drop n (waiting w), received := received w @ take n (waiting w)\<rparr>))"

definition sample_write :: "fd \<Rightarrow> string \<Rightarrow> sample_kernel \<Rightarrow> nat sysres \<times> sample_kernel" where
  "sample_write f bs w =
     (let k = min (length bs) (min 3 (out_room w)) in
      if k = 0 then (Err EAGAIN, w)
      else (Ret k, w\<lparr>out_room := out_room w - k, accepted := accepted w @ take k bs\<rparr>))"

definition sample_file :: string where
  "sample_file = ''abcdef''"

definition sample_sendfile ::
  "fd \<Rightarrow> fd \<Rightarrow> int \<Rightarrow> int \<Rightarrow> sample_kernel \<Rightarrow> nat sysres \<times> sample_kernel" where
  "sample_sendfile f g off cnt w =
     (let bs = take (nat cnt) (drop (nat off) sample_file);
          k = min (length bs) (min 4 (out_room w)) in
      if bs \<noteq> [] \<and> k = 0 then (Err EAGAIN, w)
      else (Ret k, w\<lparr>out_room := out_room w - k, accepted := accepted w @ take k bs\<rparr>))"

definition sample_epoll_ctl ::
  "fd \<Rightarrow> epoll_op \<Rightarrow> fd \<Rightarrow> epoll_event \<Rightarrow> sample_kernel \<Rightarrow> unit sysres \<times> sample_kernel" where
  "sample_epoll_ctl ep op f ev w =
     (if op = EPOLL_CTL_ADD \<and> epoll_set w f \<noteq> None then (Err EEXIST, w)
      else if op \<noteq> EPOLL_CTL_ADD \<and> epoll_set w f = None then (Err ENOENT, w)
      else (Ret (), w\<lparr>epoll_set := (epoll_set w)(f := if op = EPOLL_CTL_DEL then None else Some ev)\<rparr>))"

definition sample_posix :: "sample_kernel posix" where
  "sample_posix =
     \<lparr>sys_read = sample_read, sys_write = sample_write,
      sys_open = (\<lambda>p w. (if p = ''f'' then Ret 9 else Err ENOENT, w)),
      sys_fsize = (\<lambda>f w. int (length sample_file)),
      sys_sendfile = sample_sendfile,
      sys_close = (\<lambda>f w. (Ret (), w)),
      sys_shutdown_write = (\<lambda>f w. w),
      sys_shutdown_read = (\<lambda>f w. w),
      sys_pipe = (\<lambda>w. (Ret (20, 21), w)),
      sys_epoll_create = (\<lambda>w. (Ret 22, w)),
      sys_epoll_ctl = sample_epoll_ctl,
      sys_epoll_wait = (\<lambda>ep n w. (Ret (take n (ready w)), w\<lparr>ready := drop n (ready w)\<rparr>)),
      sys_socket = (\<lambda>tcp v6 w. (Ret 3, w)),
      sys_reuseaddr = (\<lambda>f w. (Ret (), w)),
      sys_bind = (\<lambda>f a w. (Ret (), w)),
      sys_listen = (\<lambda>f n w. (Ret (), w)),
      sys_accept = (\<lambda>f w. (Ret (4, \<lparr>sa_ipv6 = False, sa_addr = Some ''abcd'', sa_port = 0\<rparr>), w))\<rparr>"

definition sample_world :: "string \<Rightarrow> nat \<Rightarrow> sample_kernel" where
  "sample_world inp n = \<lparr>waiting = inp, received = [], out_room = n, accepted = [],
     epoll_set = Map.empty, ready = []\<rparr>"

lemma sample_read_delivers: "read_delivers sample_posix f received (\<lambda>w. length (waiting w))"
  by (auto simp: read_delivers_def sample_posix_def sample_read_def split: if_splits)

lemma sample_write_accepts: "write_accepts sample_posix f accepted"
  by (auto simp: write_accepts_def sample_posix_def sample_write_def Let_def split: if_splits)

lemma sample_epoll_tracks: "epoll_tracks sample_posix ep epoll_set accepted"
  by (auto simp: epoll_tracks_def sample_posix_def sample_epoll_ctl_def simp del: not_None_eq split_paired_Ex
      split: if_splits)

lemma sample_io_keeps: "f \<noteq> 9 \<Longrightarrow> io_keeps sample_posix f (\<lambda>w. epoll_set w f)"
  by (auto simp: io_keeps_def sample_posix_def sample_read_def sample_write_def sample_sendfile_def Let_def)

end
