(* ===== verification/Byte_Buffer.thy ===== *)
theory Byte_Buffer
  imports Posix_Interface
begin

text \<open>
  \<^verbatim>\<open>ladder/src/Buffer.cpp\<close>: the byte buffer every connection reads into and writes from. The state
  is the vector and two 32-bit indices; the bytes between the indices are the content. Every
  operation is modelled with its index arithmetic at 32 bits and with iterators out of range as
  undefined behaviour. The locale \<open>byte_queue\<close> is the contract of a first-in first-out byte
  queue, which the buffer is shown to satisfy; the codec and the connections rest on it.

  The mutex is taken around each mutation; a method call is one atomic step here.
\<close>

section \<open>The model\<close>

record buffer =
  read_index :: u32
  write_index :: u32
  vec :: string

definition kReadBufferSize :: nat where
  "kReadBufferSize = 1024"

definition kWriteBufferSize :: nat where
  "kWriteBufferSize = 1024"

definition Buffer_new :: buffer where
  "Buffer_new = \<lparr>read_index = 0, write_index = 0, vec = []\<rparr>"

definition ReadableBytes :: "buffer \<Rightarrow> u32" where
  "ReadableBytes b = write_index b - read_index b"

definition Buffer_Empty :: "buffer \<Rightarrow> bool" where
  "Buffer_Empty b \<longleftrightarrow> read_index b = write_index b"

text \<open>
  Both overloads of \<open>Peek\<close> read the same bytes: \<open>readable\<close> of them from \<open>read_index\<close> on. The
  result is the count and the bytes.
\<close>

definition Buffer_Peek :: "nat \<Rightarrow> buffer \<Rightarrow> (u32 \<times> string) res" where
  "Buffer_Peek n b =
     (let readable = min (to_u32 n) (ReadableBytes b) in
      if unat (read_index b) + unat readable \<le> length (vec b)
      then Inr (readable, take (unat readable) (drop (unat (read_index b)) (vec b)))
      else Inl (UB ''Buffer::Peek''))"

definition HaveRead :: "nat \<Rightarrow> buffer \<Rightarrow> buffer" where
  "HaveRead n b =
     (let r = read_index b + min (to_u32 n) (ReadableBytes b) in
      if write_index b = r then b\<lparr>read_index := 0, write_index := 0\<rparr>
      else b\<lparr>read_index := r\<rparr>)"

definition Buffer_Read :: "nat \<Rightarrow> buffer \<Rightarrow> (string \<times> buffer) res" where
  "Buffer_Read n b =
     (case Buffer_Peek n b of
        Inl e \<Rightarrow> Inl e
      | Inr (readable, result) \<Rightarrow> Inr (result, HaveRead (unat readable) b))"

definition Buffer_ReadAll :: "buffer \<Rightarrow> (string \<times> buffer) res" where
  "Buffer_ReadAll b = Buffer_Read (unat (write_index b - read_index b)) b"

text \<open>
  \<open>std::copy\<close> into \<open>std::inserter(buffer_, pos)\<close> inserts the characters one by one before the
  element at the insertion point and moves the point behind the inserted one.
\<close>

fun inserter_copy :: "string \<Rightarrow> string \<Rightarrow> nat \<Rightarrow> string" where
  "inserter_copy [] v i = v"
| "inserter_copy (c # cs) v i = inserter_copy cs (take i v @ c # drop i v) (Suc i)"

definition Buffer_Write :: "string \<Rightarrow> buffer \<Rightarrow> buffer res" where
  "Buffer_Write content b =
     (if unat (write_index b) \<le> length (vec b)
      then Inr (b\<lparr>vec := inserter_copy content (vec b) (unat (write_index b)),
                  write_index := write_index b + to_u32 (length content)\<rparr>)
      else Inl (UB ''Buffer::Write''))"

definition ReadUInt32 :: "byte_order \<Rightarrow> buffer \<Rightarrow> (u32 \<times> buffer) res" where
  "ReadUInt32 e b =
     (case Buffer_Read 4 b of
        Inl x \<Rightarrow> Inl x
      | Inr (buf, b') \<Rightarrow>
          (case u32_memcpy e (c_str buf) of Inl x \<Rightarrow> Inl x | Inr result \<Rightarrow> Inr (result, b')))"

definition PeekUInt32 :: "byte_order \<Rightarrow> buffer \<Rightarrow> u32 res" where
  "PeekUInt32 e b =
     (case Buffer_Peek 4 b of Inl x \<Rightarrow> Inl x | Inr (_, buf) \<Rightarrow> u32_memcpy e (c_str buf))"

definition WriteUInt32 :: "byte_order \<Rightarrow> u32 \<Rightarrow> buffer \<Rightarrow> buffer res" where
  "WriteUInt32 e number b = Buffer_Write (memcpy_u32 e number) b"

text \<open>
  The descriptor loops. A call that never returns is the value \<open>None\<close>. The C++ functions return
  the last system call's return value and leave its \<open>errno\<close> for the caller: \<open>Ret 0\<close> for 0,
  \<open>Err e\<close> for \<open>-1\<close> with \<open>errno = e\<close>.
\<close>

partial_function (option) ReadBufferFromFd ::
  "'w posix \<Rightarrow> fd \<Rightarrow> buffer \<Rightarrow> 'w \<Rightarrow> (nat sysres \<times> buffer \<times> 'w) res option" where
  "ReadBufferFromFd os f b w =
     (case sys_read os f kReadBufferSize w of (r, w') \<Rightarrow>
       (case r of
          Err e \<Rightarrow>
            (if e = EAGAIN \<or> e = ECONNRESET then Some (Inr (Err e, b, w'))
             else Some (Inl (EXIT ''[Buffer] read'')))
        | Ret buf \<Rightarrow>
            (case Buffer_Write buf b of
               Inl x \<Rightarrow> Some (Inl x)
             | Inr b' \<Rightarrow>
                 (if buf = [] then Some (Inr (Ret 0, b', w'))
                  else ReadBufferFromFd os f b' w'))))"

partial_function (option) WriteBufferToFd ::
  "'w posix \<Rightarrow> fd \<Rightarrow> buffer \<Rightarrow> 'w \<Rightarrow> (nat sysres \<times> buffer \<times> 'w) res option" where
  "WriteBufferToFd os f b w =
     (if ReadableBytes b = 0 then Some (Inr (Ret 0, b, w))
      else
       (case Buffer_Peek kWriteBufferSize b of
          Inl x \<Rightarrow> Some (Inl x)
        | Inr rb \<Rightarrow>
            (case sys_write os f (snd rb) w of (r, w') \<Rightarrow>
              (case r of
                 Err e \<Rightarrow>
                   (if e = EAGAIN \<or> e = ECONNRESET \<or> e = EPIPE then Some (Inr (Err e, b, w'))
                    else Some (Inl (EXIT ''[Buffer] write'')))
               | Ret k \<Rightarrow> WriteBufferToFd os f (HaveRead k b) w'))))"

section \<open>The contract of a byte queue\<close>

text \<open>
  What the users of a buffer rely on: writing appends to the content while there is room for the
  bytes, peeking shows a prefix and consuming drops one.
\<close>

locale byte_queue =
  fixes invar :: "'q \<Rightarrow> bool"
    and content :: "'q \<Rightarrow> string"
    and room :: "'q \<Rightarrow> nat \<Rightarrow> bool"
    and put :: "string \<Rightarrow> 'q \<Rightarrow> 'q res"
    and peek :: "nat \<Rightarrow> 'q \<Rightarrow> string res"
    and consume :: "nat \<Rightarrow> 'q \<Rightarrow> 'q"
  assumes put_ok: "invar q \<Longrightarrow> room q (length s) \<Longrightarrow>
      \<exists>q'. put s q = Inr q' \<and> invar q' \<and> content q' = content q @ s \<and>
           (\<forall>n. room q' n \<longleftrightarrow> room q (length s + n))"
    and room_mono: "room q n \<Longrightarrow> m \<le> n \<Longrightarrow> room q m"
    and peek_ok: "invar q \<Longrightarrow> n < 2 ^ 32 \<Longrightarrow> peek n q = Inr (take n (content q))"
    and consume_ok: "invar q \<Longrightarrow> n < 2 ^ 32 \<Longrightarrow>
      invar (consume n q) \<and> content (consume n q) = drop n (content q)"
begin

text \<open>Writing a message in several chunks leaves the same content as writing it at once.\<close>

fun put_chunks :: "string list \<Rightarrow> 'q \<Rightarrow> 'q res" where
  "put_chunks [] q = Inr q"
| "put_chunks (s # ss) q = (case put s q of Inl e \<Rightarrow> Inl e | Inr q' \<Rightarrow> put_chunks ss q')"

lemma put_chunks_content:
  assumes "invar q" and "room q (length (concat ss))"
  shows "\<exists>q'. put_chunks ss q = Inr q' \<and> invar q' \<and> content q' = content q @ concat ss"
  using assms
proof (induction ss arbitrary: q)
  case Nil
  then show ?case by simp
next
  case (Cons s ss)
  have "room q (length s)"
    using Cons.prems(2) by (rule room_mono) simp
  then obtain q1 where q1: "put s q = Inr q1" "invar q1" "content q1 = content q @ s"
    "\<And>n. room q1 n \<longleftrightarrow> room q (length s + n)"
    using put_ok [OF Cons.prems(1)] by blast
  have "room q1 (length (concat ss))"
    using Cons.prems(2) by (simp add: q1(4))
  from Cons.IH [OF q1(2) this] show ?case
    by (auto simp: q1)
qed

text \<open>Peeking a message that was written to an empty queue and consuming it empties the queue.\<close>

lemma put_peek_consume:
  assumes "invar q" and "content q = []" and "room q (length s)" and "length s < 2 ^ 32"
  shows "\<exists>q'. put s q = Inr q' \<and> peek (length s) q' = Inr s \<and> content (consume (length s) q') = []"
proof -
  obtain q' where q': "put s q = Inr q'" "invar q'" "content q' = s"
    using put_ok [OF assms(1,3)] assms(2) by auto
  then show ?thesis
    using peek_ok [OF q'(2) assms(4)] consume_ok [OF q'(2) assms(4)] by auto
qed

text \<open>Two consecutive reads see consecutive parts of the content.\<close>

lemma consume_consume:
  assumes "invar q" and "m < 2 ^ 32" and "n < 2 ^ 32"
  shows "content (consume n (consume m q)) = drop (m + n) (content q)"
proof -
  have "content (consume n (consume m q)) = drop n (drop m (content q))"
    using consume_ok [OF assms(1,2)] consume_ok [of "consume m q" n] assms(3) by simp
  then show ?thesis by (simp add: add.commute)
qed

end

section \<open>The buffer meets the contract\<close>

definition buffer_ok :: "buffer \<Rightarrow> bool" where
  "buffer_ok b \<longleftrightarrow> unat (read_index b) \<le> unat (write_index b) \<and> unat (write_index b) \<le> length (vec b)"

definition content :: "buffer \<Rightarrow> string" where
  "content b = drop (unat (read_index b)) (take (unat (write_index b)) (vec b))"

definition room :: "buffer \<Rightarrow> nat \<Rightarrow> bool" where
  "room b n \<longleftrightarrow> unat (write_index b) + n < 2 ^ 32"

lemma buffer_ok_new [simp]: "buffer_ok Buffer_new"
  by (simp add: buffer_ok_def Buffer_new_def)

lemma content_new [simp]: "content Buffer_new = []"
  by (simp add: content_def Buffer_new_def)

lemma vec_new [simp]: "vec Buffer_new = []"
  by (simp add: Buffer_new_def)

lemma room_new [simp]: "room Buffer_new n \<longleftrightarrow> n < 2 ^ 32"
  by (simp add: room_def Buffer_new_def)

lemma room_le: "room b n \<Longrightarrow> m \<le> n \<Longrightarrow> room b m"
  by (simp add: room_def)

lemma inserter_copy_eq:
  "i \<le> length v \<Longrightarrow> inserter_copy cs v i = take i v @ cs @ drop i v"
proof (induction cs arbitrary: v i)
  case Nil
  then show ?case by simp
next
  case (Cons c cs)
  have "inserter_copy (c # cs) v i
      = take (Suc i) (take i v @ c # drop i v) @ cs @ drop (Suc i) (take i v @ c # drop i v)"
    using Cons.prems by (simp add: Cons.IH del: take_append drop_append take_Suc_Cons drop_Suc_Cons)
  also have "\<dots> = take i v @ (c # cs) @ drop i v"
    using Cons.prems by (simp add: min_def)
  finally show ?case .
qed

lemma unat_to_u32: "unat (to_u32 n) = n mod 2 ^ 32"
  by (simp add: unat_of_nat)

lemma length_content: "buffer_ok b \<Longrightarrow> length (content b) = unat (ReadableBytes b)"
  by (simp add: buffer_ok_def content_def ReadableBytes_def unat_sub word_le_nat_alt)

lemma length_content_less: "length (content b) < 2 ^ 32"
  unfolding content_def using unat_u32_less [of "write_index b"] by simp

lemma Buffer_Empty_iff: "buffer_ok b \<Longrightarrow> Buffer_Empty b \<longleftrightarrow> content b = []"
  using word_unat_eq_iff [of "read_index b" "write_index b"]
  by (auto simp: buffer_ok_def Buffer_Empty_def content_def)

lemma ReadableBytes_0_iff: "buffer_ok b \<Longrightarrow> ReadableBytes b = 0 \<longleftrightarrow> content b = []"
  using length_content [of b] by (auto simp: unat_eq_0 [symmetric])

lemma unat_min_readable:
  "buffer_ok b \<Longrightarrow> unat (min (to_u32 n) (ReadableBytes b)) = min (n mod 2 ^ 32) (length (content b))"
  by (simp add: length_content min_def word_le_nat_alt unat_to_u32)

lemma Buffer_Peek_ok:
  assumes "buffer_ok b"
  shows "Buffer_Peek n b = Inr (min (to_u32 n) (ReadableBytes b), take (n mod 2 ^ 32) (content b))"
proof -
  let ?r = "unat (read_index b)" and ?w = "unat (write_index b)"
  let ?k = "min (n mod 2 ^ 32) (length (content b))"
  have le: "?r \<le> ?w" "?w \<le> length (vec b)"
    using assms by (auto simp: buffer_ok_def)
  have lc: "length (content b) = ?w - ?r"
    using le by (simp add: content_def)
  have "take ?k (drop ?r (vec b)) = take ?k (content b)"
    using le lc by (simp add: content_def drop_take)
  moreover have "take ?k (content b) = take (n mod 2 ^ 32) (content b)"
    by (simp add: min_def)
  moreover have "?r + ?k \<le> length (vec b)"
    using le lc by arith
  ultimately show ?thesis
    by (simp add: Buffer_Peek_def unat_min_readable [OF assms] Let_def)
qed

lemma HaveRead_ok:
  assumes "buffer_ok b"
  shows "buffer_ok (HaveRead n b)" and "content (HaveRead n b) = drop (n mod 2 ^ 32) (content b)"
    and "length (vec (HaveRead n b)) = length (vec b)"
proof -
  let ?m = "min (to_u32 n) (ReadableBytes b)"
  have le: "unat (read_index b) \<le> unat (write_index b)" "unat (write_index b) \<le> length (vec b)"
    using assms by (auto simp: buffer_ok_def)
  have lc: "length (content b) = unat (write_index b) - unat (read_index b)"
    using le by (simp add: content_def)
  have m: "unat ?m = min (n mod 2 ^ 32) (length (content b))"
    by (rule unat_min_readable [OF assms])
  have r: "unat (read_index b + ?m) = unat (read_index b) + unat ?m"
    using m lc le unat_u32_less [of "write_index b"] by (subst unat_add_lem [symmetric]) auto
  have dropc: "drop (unat (read_index b) + unat ?m) (take (unat (write_index b)) (vec b))
      = drop (n mod 2 ^ 32) (content b)"
    using m by (simp add: content_def min_def add.commute [of "unat (read_index b)"] del: drop_take)
  show "buffer_ok (HaveRead n b)"
    using le lc m r by (auto simp: HaveRead_def buffer_ok_def Let_def min_def split: if_splits)
  show "length (vec (HaveRead n b)) = length (vec b)"
    by (simp add: HaveRead_def Let_def)
  show "content (HaveRead n b) = drop (n mod 2 ^ 32) (content b)"
  proof (cases "write_index b = read_index b + ?m")
    case True
    then have "drop (n mod 2 ^ 32) (content b) = []"
      using r dropc by simp
    then show ?thesis
      using True by (simp add: HaveRead_def Let_def content_def)
  next
    case False
    then show ?thesis
      using dropc r by (simp add: HaveRead_def Let_def content_def)
  qed
qed

lemma Buffer_Write_ok:
  assumes "buffer_ok b" and "room b (length s)"
  obtains b' where "Buffer_Write s b = Inr b'" and "buffer_ok b'" and "content b' = content b @ s"
    and "length (vec b') = length (vec b) + length s" and "\<And>n. room b' n \<longleftrightarrow> room b (length s + n)"
proof -
  let ?w = "unat (write_index b)"
  let ?b' = "b\<lparr>vec := take ?w (vec b) @ s @ drop ?w (vec b),
      write_index := write_index b + to_u32 (length s)\<rparr>"
  have le: "unat (read_index b) \<le> ?w" "?w \<le> length (vec b)"
    using assms by (auto simp: buffer_ok_def)
  have w': "unat (write_index b + to_u32 (length s)) = ?w + length s"
    using assms(2) by (simp add: room_def unat_word_ariths unat_of_nat)
  have "Buffer_Write s b = Inr ?b'"
    using le by (simp add: Buffer_Write_def inserter_copy_eq)
  moreover have "buffer_ok ?b'" "content ?b' = content b @ s"
    "length (vec ?b') = length (vec b) + length s"
    using le w' by (simp_all add: buffer_ok_def content_def)
  moreover have "room ?b' n \<longleftrightarrow> room b (length s + n)" for n
    by (simp add: room_def w' add.assoc)
  ultimately show thesis by (rule that)
qed

interpretation buf: byte_queue buffer_ok content room Buffer_Write
  "\<lambda>n b. map_sum id snd (Buffer_Peek n b)" HaveRead
proof unfold_locales
  fix q and s :: string
  assume "buffer_ok q" "room q (length s)"
  then show "\<exists>q'. Buffer_Write s q = Inr q' \<and> buffer_ok q' \<and> content q' = content q @ s \<and>
      (\<forall>n. room q' n \<longleftrightarrow> room q (length s + n))"
    by (rule Buffer_Write_ok) blast
qed (simp_all add: Buffer_Peek_ok HaveRead_ok room_le)

lemmas buffer_rules = Buffer_Peek_ok HaveRead_ok length_content ReadableBytes_0_iff Buffer_Empty_iff

text \<open>The result of a read of \<open>n\<close> bytes, and of all of them.\<close>

lemma Buffer_Read_ok:
  assumes "buffer_ok b" and "n < 2 ^ 32"
  shows "Buffer_Read n b = Inr (take n (content b), HaveRead n b)"
proof -
  have "HaveRead (unat (min (to_u32 n) (ReadableBytes b))) b = HaveRead n b"
    by (simp add: HaveRead_def)
  then show ?thesis
    using assms by (simp add: Buffer_Read_def Buffer_Peek_ok)
qed

lemma Buffer_ReadAll_ok:
  assumes "buffer_ok b"
  shows "\<exists>b'. Buffer_ReadAll b = Inr (content b, b') \<and> buffer_ok b' \<and> content b' = []"
proof -
  have n: "unat (write_index b - read_index b) = length (content b)"
    using length_content [OF assms] by (simp add: ReadableBytes_def)
  show ?thesis
    using Buffer_Read_ok [OF assms length_content_less] HaveRead_ok [OF assms, of "length (content b)"]
      length_content_less [of b]
    by (simp add: Buffer_ReadAll_def n)
qed

section \<open>The descriptor loops\<close>

text \<open>What a transfer through the descriptor leaves alone, the loops over it leave alone.\<close>

lemma ReadBufferFromFd_keeps:
  assumes "\<forall>n w. keep (snd (sys_read os f n w)) = keep w" and "ReadBufferFromFd os f b w = Some (Inr (r, b', w'))"
  shows "keep w' = keep w"
proof -
  have "(\<forall>n w. keep (snd (sys_read os f n w)) = keep w) \<longrightarrow> (\<forall>r b' w'. y = Inr (r, b', w') \<longrightarrow> keep w' = keep w)"
    if "ReadBufferFromFd os f b w = Some y" for y
    using that
  proof (rule ReadBufferFromFd.raw_induct
      [of "\<lambda>os f b w y. (\<forall>n w. keep (snd (sys_read os f n w)) = keep w) \<longrightarrow> (\<forall>r b' w'. y = Inr (r, b', w') \<longrightarrow> keep w' = keep w)", rotated], goal_cases)
    case (1 F os f b w y)
    show ?case
    proof (intro impI allI)
      fix r b' w'
      assume k: "\<forall>n w. keep (snd (sys_read os f n w)) = keep w" and y: "y = Inr (r, b', w')"
      obtain r0 w0 where rd: "sys_read os f kReadBufferSize w = (r0, w0)" by fastforce
      then have w0: "keep w0 = keep w" using k by (metis snd_conv)
      have rec: "F os f b1 w0 = Some y \<Longrightarrow> keep w' = keep w" for b1
        using 1(1) [of os f b1 w0 y] k y w0 by simp
      show "keep w' = keep w"
        using 1(2) rd w0 y rec by (auto split: sysres.splits if_splits sum.splits)
    qed
  qed
  then show ?thesis using assms by blast
qed

lemma WriteBufferToFd_keeps:
  assumes "\<forall>bs w. keep (snd (sys_write os f bs w)) = keep w" and "WriteBufferToFd os f b w = Some (Inr (r, b', w'))"
  shows "keep w' = keep w"
proof -
  have "(\<forall>bs w. keep (snd (sys_write os f bs w)) = keep w) \<longrightarrow> (\<forall>r b' w'. y = Inr (r, b', w') \<longrightarrow> keep w' = keep w)"
    if "WriteBufferToFd os f b w = Some y" for y
    using that
  proof (rule WriteBufferToFd.raw_induct
      [of "\<lambda>os f b w y. (\<forall>bs w. keep (snd (sys_write os f bs w)) = keep w) \<longrightarrow> (\<forall>r b' w'. y = Inr (r, b', w') \<longrightarrow> keep w' = keep w)", rotated], goal_cases)
    case (1 F os f b w y)
    show ?case
    proof (intro impI allI)
      fix r b' w'
      assume k: "\<forall>bs w. keep (snd (sys_write os f bs w)) = keep w" and y: "y = Inr (r, b', w')"
      have w0: "sys_write os f bs w = (r0, w0) \<Longrightarrow> keep w0 = keep w" for bs r0 w0 using k by (metis snd_conv)
      have rec: "sys_write os f bs w = (r0, w0) \<Longrightarrow> F os f b1 w0 = Some y \<Longrightarrow> keep w' = keep w" for bs r0 w0 b1
        using 1(1) [of os f b1 w0 y] w0 k y by simp
      show "keep w' = keep w"
        using 1(2) w0 y rec by (auto split: sysres.splits if_splits sum.splits prod.splits)
    qed
  qed
  then show ?thesis using assms by blast
qed

lemma io_keeps_write: "io_keeps os f keep \<Longrightarrow> \<forall>bs w. keep (snd (sys_write os f bs w)) = keep w"
  by (simp add: io_keeps_def)

lemma ReadBufferFromFd_loop:
  assumes k: "read_delivers os f recv avail"
  shows "buffer_ok b \<Longrightarrow> room b (avail w) \<Longrightarrow>
     ReadBufferFromFd os f b w = Some (Inl (EXIT ''[Buffer] read'')) \<or>
     (\<exists>r b' w' s. ReadBufferFromFd os f b w = Some (Inr (r, b', w')) \<and>
        r \<in> {Ret 0, Err EAGAIN, Err ECONNRESET} \<and> recv w' = recv w @ s \<and>
        content b' = content b @ s \<and> buffer_ok b' \<and> length s \<le> avail w \<and>
        (\<forall>n. room b (length s + n) \<longrightarrow> room b' n))"
proof (induction "avail w" arbitrary: b w rule: less_induct)
  case less
  obtain r w1 where rd: "sys_read os f kReadBufferSize w = (r, w1)" by fastforce
  show ?case
  proof (cases r)
    case (Err e)
    then have "recv w1 = recv w"
      using read_deliversD_err [OF k] rd by simp
    then show ?thesis
      using rd Err less.prems by (subst (1 2) ReadBufferFromFd.simps) auto
  next
    case (Ret bs)
    note d = read_deliversD [OF k rd [unfolded Ret]]
    have le: "length bs \<le> avail w" and rw: "recv w1 = recv w @ bs"
      and av: "length bs + avail w1 \<le> avail w"
      using d by (simp_all add: kReadBufferSize_def)
    obtain b1 where b1: "Buffer_Write bs b = Inr b1" "buffer_ok b1" "content b1 = content b @ bs"
      "\<And>n. room b1 n \<longleftrightarrow> room b (length bs + n)"
      using Buffer_Write_ok [OF less.prems(1) room_le [OF less.prems(2) le]] by metis
    show ?thesis
    proof (cases "bs = []")
      case True
      then show ?thesis
        using rd Ret b1 rw by (subst (1 2) ReadBufferFromFd.simps) auto
    next
      case False
      have unf: "ReadBufferFromFd os f b w = ReadBufferFromFd os f b1 w1"
        using rd Ret b1 False by (subst ReadBufferFromFd.simps) simp
      have "room b1 (avail w1)"
        using room_le [OF less.prems(2) av] by (simp add: b1(4))
      moreover have "avail w1 < avail w"
        using av False by (cases bs) auto
      ultimately show ?thesis
        using less.hyps [OF _ b1(2), of w1] b1(3,4) rw av unfolding unf by (auto simp: add.assoc)
    qed
  qed
qed

lemma HaveRead_room: "room b n \<Longrightarrow> room (HaveRead m b) n"
  by (simp add: HaveRead_def room_def Let_def)

text \<open>A call also keeps the room in the buffer, and every part \<open>P\<close> of the world that a single
  write keeps.\<close>

lemma WriteBufferToFd_loop:
  assumes k: "write_accepts os f sent"
    and keep: "\<forall>bs w r w'. sys_write os f bs w = (r, w') \<longrightarrow> P w' = P w"
  shows "buffer_ok b \<Longrightarrow>
     WriteBufferToFd os f b w = Some (Inl (EXIT ''[Buffer] write'')) \<or>
     (\<exists>r b' w'. WriteBufferToFd os f b w = Some (Inr (r, b', w')) \<and>
        (r = Ret 0 \<and> content b' = [] \<or> r \<in> {Err EAGAIN, Err ECONNRESET, Err EPIPE}) \<and>
        sent w' @ content b' = sent w @ content b \<and> buffer_ok b' \<and>
        (\<forall>n. room b n \<longrightarrow> room b' n) \<and> P w' = P w)"
proof (induction "length (content b)" arbitrary: b w rule: less_induct)
  case less
  show ?case
  proof (cases "content b = []")
    case True
    then show ?thesis
      using less.prems ReadableBytes_0_iff [of b]
      by (subst (1 2) WriteBufferToFd.simps) auto
  next
    case False
    let ?out = "take kWriteBufferSize (content b)"
    have rb: "ReadableBytes b \<noteq> 0"
      using False less.prems ReadableBytes_0_iff by blast
    have ne: "?out \<noteq> []"
      using False by (simp add: kWriteBufferSize_def)
    obtain r w1 where wr: "sys_write os f ?out w = (r, w1)" by fastforce
    have pk: "Buffer_Peek kWriteBufferSize b = Inr (min (to_u32 kWriteBufferSize) (ReadableBytes b), ?out)"
      using Buffer_Peek_ok [OF less.prems] by (simp add: kWriteBufferSize_def)
    show ?thesis
    proof (cases r)
      case (Err e)
      then have "sent w1 = sent w"
        using write_acceptsD_err [OF k] wr by simp
      then show ?thesis
        using wr Err rb pk less.prems keep by (subst (1 2) WriteBufferToFd.simps) auto
    next
      case (Ret n)
      note d = write_acceptsD [OF k wr [unfolded Ret] ne]
      have n: "n \<le> 1024" "n \<le> length (content b)"
        using d(2) by (simp_all add: kWriteBufferSize_def)
      have h: "buffer_ok (HaveRead n b)" "content (HaveRead n b) = drop n (content b)"
        using HaveRead_ok [OF less.prems, of n] n by simp_all
      have s: "sent w1 = sent w @ take n (content b)"
        using d(3) n by (simp add: kWriteBufferSize_def)
      have unf: "WriteBufferToFd os f b w = WriteBufferToFd os f (HaveRead n b) w1"
        using wr Ret rb pk by (subst WriteBufferToFd.simps) simp
      have "length (content (HaveRead n b)) < length (content b)"
        using d(1) False by (simp add: h)
      from less.hyps [OF this h(1), of w1] show ?thesis
        unfolding unf h s using keep wr HaveRead_room by auto
    qed
  qed
qed

section \<open>Runs of operations\<close>

text \<open>
  A client's use of the buffer is a sequence of calls. Each call gives back bytes (none for a
  call that returns nothing). The specification runs the same calls on a plain list of bytes.
\<close>

datatype buffer_op = BWrite string | BRead nat | BReadAll | BPeek nat | BHaveRead nat

fun buffer_step :: "buffer_op \<Rightarrow> buffer \<Rightarrow> (string \<times> buffer) res" where
  "buffer_step (BWrite s) b = map_sum id (Pair []) (Buffer_Write s b)"
| "buffer_step (BRead n) b = Buffer_Read n b"
| "buffer_step BReadAll b = Buffer_ReadAll b"
| "buffer_step (BPeek n) b = map_sum id (\<lambda>r. (snd r, b)) (Buffer_Peek n b)"
| "buffer_step (BHaveRead n) b = Inr ([], HaveRead n b)"

fun buffer_run :: "buffer_op list \<Rightarrow> buffer \<Rightarrow> (string list \<times> buffer) res" where
  "buffer_run [] b = Inr ([], b)"
| "buffer_run (x # xs) b =
     (case buffer_step x b of
        Inl e \<Rightarrow> Inl e
      | Inr (out, b') \<Rightarrow> map_sum id (\<lambda>(outs, b''). (out # outs, b'')) (buffer_run xs b'))"

fun queue_step :: "buffer_op \<Rightarrow> string \<Rightarrow> string \<times> string" where
  "queue_step (BWrite s) q = ([], q @ s)"
| "queue_step (BRead n) q = (take n q, drop n q)"
| "queue_step BReadAll q = (q, [])"
| "queue_step (BPeek n) q = (take n q, q)"
| "queue_step (BHaveRead n) q = ([], drop n q)"

fun queue_run :: "buffer_op list \<Rightarrow> string \<Rightarrow> string list \<times> string" where
  "queue_run [] q = ([], q)"
| "queue_run (x # xs) q =
     (let (out, q') = queue_step x q; (outs, q'') = queue_run xs q' in (out # outs, q''))"

fun bytes_written :: "buffer_op list \<Rightarrow> nat" where
  "bytes_written [] = 0"
| "bytes_written (BWrite s # xs) = length s + bytes_written xs"
| "bytes_written (_ # xs) = bytes_written xs"

text \<open>A count passed to the buffer is a \<open>size_t\<close> that the code casts to 32 bits.\<close>

fun count_fits :: "buffer_op \<Rightarrow> bool" where
  "count_fits (BRead n) \<longleftrightarrow> n < 2 ^ 32"
| "count_fits (BPeek n) \<longleftrightarrow> n < 2 ^ 32"
| "count_fits (BHaveRead n) \<longleftrightarrow> n < 2 ^ 32"
| "count_fits _ \<longleftrightarrow> True"

lemma HaveRead_vec [simp]: "vec (HaveRead n b) = vec b"
  by (simp add: HaveRead_def Let_def)

lemma Buffer_ReadAll_eq:
  assumes "buffer_ok b"
  shows "Buffer_ReadAll b = Inr (content b, HaveRead (length (content b)) b)"
proof -
  have "unat (write_index b - read_index b) = length (content b)"
    using length_content [OF assms] by (simp add: ReadableBytes_def)
  then show ?thesis
    using Buffer_Read_ok [OF assms length_content_less] by (simp add: Buffer_ReadAll_def)
qed

text \<open>One call simulates one step of the list, keeps the invariant and uses up at most the room
  of the bytes it writes.\<close>

lemma buffer_step_simulates:
  assumes "buffer_ok b" and "count_fits x" and "room b (bytes_written (x # xs))"
  shows "\<exists>b'. buffer_step x b = Inr (fst (queue_step x (content b)), b') \<and> buffer_ok b' \<and>
     content b' = snd (queue_step x (content b)) \<and> room b' (bytes_written xs) \<and>
     length (vec b') + bytes_written xs = length (vec b) + bytes_written (x # xs)"
proof (cases x)
  case (BWrite s)
  have "room b (length s)"
    by (rule room_le [OF assms(3)]) (simp add: BWrite)
  from Buffer_Write_ok [OF assms(1) this] obtain b' where "Buffer_Write s b = Inr b'"
    "buffer_ok b'" "content b' = content b @ s" "length (vec b') = length (vec b) + length s"
    "\<And>n. room b' n \<longleftrightarrow> room b (length s + n)"
    by metis
  then show ?thesis
    using assms(3) by (auto simp: BWrite)
qed (use assms Buffer_Read_ok Buffer_ReadAll_eq Buffer_Peek_ok HaveRead_ok HaveRead_room
      length_content_less in auto)

lemma buffer_run_simulates:
  assumes "buffer_ok b" and "list_all count_fits xs" and "room b (bytes_written xs)"
  shows "\<exists>b'. buffer_run xs b = Inr (fst (queue_run xs (content b)), b') \<and> buffer_ok b' \<and>
     content b' = snd (queue_run xs (content b)) \<and>
     length (vec b') = length (vec b) + bytes_written xs"
  using assms
proof (induction xs arbitrary: b)
  case Nil
  then show ?case by simp
next
  case (Cons x xs)
  obtain b1 where b1: "buffer_step x b = Inr (fst (queue_step x (content b)), b1)" "buffer_ok b1"
    "content b1 = snd (queue_step x (content b))" "room b1 (bytes_written xs)"
    "length (vec b1) + bytes_written xs = length (vec b) + bytes_written (x # xs)"
    using buffer_step_simulates [OF Cons.prems(1) _ Cons.prems(3)] Cons.prems(2) by auto
  from Cons.IH [OF b1(2) _ b1(4)] Cons.prems(2)
  obtain b2 where "buffer_run xs b1 = Inr (fst (queue_run xs (content b1)), b2)" "buffer_ok b2"
    "content b2 = snd (queue_run xs (content b1))" "length (vec b2) = length (vec b1) + bytes_written xs"
    by auto
  then show ?case
    using b1 by (simp add: case_prod_unfold Let_def)
qed

section \<open>Properties\<close>

text \<open>
  Property C11. Every sequence of calls on a new buffer behaves as on a first-in first-out list of
  bytes: the calls return what the list returns, none is undefined, and the bytes left in the
  buffer are those left in the list. The run writes less than \<open>2 ^ 32\<close> bytes in all.
\<close>

theorem buffer_refines_byte_queue:
  assumes "list_all count_fits ops" and "bytes_written ops < 2 ^ 32"
  shows "\<exists>b. buffer_run ops Buffer_new = Inr (fst (queue_run ops []), b) \<and>
     buffer_ok b \<and> content b = snd (queue_run ops [])"
  using buffer_run_simulates [OF buffer_ok_new assms(1)] assms(2) by auto

theorem buffer_refines_byte_queue_witness:
  "\<exists>b. buffer_run [BWrite ''abcd'', BRead 3, BWrite ''ef'', BPeek 1, BReadAll] Buffer_new
     = Inr ([[], ''abc'', [], ''d'', ''def''], b) \<and> buffer_ok b \<and> content b = []"
  using buffer_refines_byte_queue [of "[BWrite ''abcd'', BRead 3, BWrite ''ef'', BPeek 1, BReadAll]"]
  by simp

text \<open>
  Property C20. The vector behind a buffer never gives memory back: after any run its length is the
  number of bytes ever written, however many of them were read. \<open>HaveRead\<close> resets the indices but
  leaves the old bytes in the vector, and \<open>Write\<close> inserts before them.
\<close>

theorem buffer_vector_never_shrinks:
  assumes "list_all count_fits ops" and "bytes_written ops < 2 ^ 32"
  shows "\<exists>outs b. buffer_run ops Buffer_new = Inr (outs, b) \<and> length (vec b) = bytes_written ops"
  using buffer_run_simulates [OF buffer_ok_new assms(1)] assms(2) by auto

theorem buffer_vector_never_shrinks_witness:
  "\<exists>outs b. buffer_run [BWrite ''abcd'', BReadAll, BWrite ''ef'', BReadAll] Buffer_new
     = Inr (outs, b) \<and> length (vec b) = 6"
proof -
  have "bytes_written [BWrite ''abcd'', BReadAll, BWrite ''ef'', BReadAll] = 6" by simp
  then show ?thesis
    using buffer_vector_never_shrinks [of "[BWrite ''abcd'', BReadAll, BWrite ''ef'', BReadAll]"]
    by (simp only: list.pred_inject count_fits.simps) simp
qed

text \<open>Sequences of integers through a buffer.\<close>

fun write_ints :: "byte_order \<Rightarrow> u32 list \<Rightarrow> buffer \<Rightarrow> buffer res" where
  "write_ints e [] b = Inr b"
| "write_ints e (n # ns) b = (case WriteUInt32 e n b of Inl x \<Rightarrow> Inl x | Inr b' \<Rightarrow> write_ints e ns b')"

fun read_ints :: "byte_order \<Rightarrow> nat \<Rightarrow> buffer \<Rightarrow> (u32 list \<times> buffer) res" where
  "read_ints e 0 b = Inr ([], b)"
| "read_ints e (Suc k) b =
     (case ReadUInt32 e b of
        Inl x \<Rightarrow> Inl x
      | Inr (n, b') \<Rightarrow> map_sum id (\<lambda>(ns, b''). (n # ns, b'')) (read_ints e k b'))"

lemma write_ints_ok:
  assumes "buffer_ok b" and "room b (4 * length ns)"
  shows "\<exists>b'. write_ints e ns b = Inr b' \<and> buffer_ok b' \<and>
     content b' = content b @ concat (map (memcpy_u32 e) ns)"
  using assms
proof (induction ns arbitrary: b)
  case Nil
  then show ?case by simp
next
  case (Cons n ns)
  have "room b (length (memcpy_u32 e n))"
    by (rule room_le [OF Cons.prems(2)]) simp
  then obtain b1 where b1: "WriteUInt32 e n b = Inr b1" "buffer_ok b1"
    "content b1 = content b @ memcpy_u32 e n" "\<And>m. room b1 m \<longleftrightarrow> room b (4 + m)"
    unfolding WriteUInt32_def by (rule Buffer_Write_ok [OF Cons.prems(1)]) simp
  from Cons.IH [OF b1(2)] Cons.prems(2) show ?case
    by (auto simp: b1)
qed

lemma ReadUInt32_ok:
  assumes "buffer_ok b" and "content b = memcpy_u32 e n @ rest"
  shows "\<exists>b'. ReadUInt32 e b = Inr (n, b') \<and> buffer_ok b' \<and> content b' = rest"
    and "PeekUInt32 e b = Inr n"
proof -
  have "u32_memcpy e (c_str (take 4 (content b))) = Inr n"
    using assms(2) by (simp add: c_str_def)
  then show "\<exists>b'. ReadUInt32 e b = Inr (n, b') \<and> buffer_ok b' \<and> content b' = rest"
    and "PeekUInt32 e b = Inr n"
    using assms HaveRead_ok [OF assms(1), of 4]
    by (simp_all add: ReadUInt32_def PeekUInt32_def Buffer_Read_ok Buffer_Peek_ok)
qed

lemma read_ints_ok:
  assumes "buffer_ok b" and "content b = concat (map (memcpy_u32 e) ns) @ rest"
  shows "\<exists>b'. read_ints e (length ns) b = Inr (ns, b') \<and> buffer_ok b' \<and> content b' = rest"
  using assms
proof (induction ns arbitrary: b)
  case Nil
  then show ?case by simp
next
  case (Cons n ns)
  obtain b1 where "ReadUInt32 e b = Inr (n, b1)" "buffer_ok b1"
    "content b1 = concat (map (memcpy_u32 e) ns) @ rest"
    using ReadUInt32_ok(1) [OF Cons.prems(1)] Cons.prems(2) by auto
  with Cons.IH [of b1] show ?case by auto
qed

text \<open>
  Integers written with \<open>WriteUInt32\<close> to an empty buffer come back from \<open>ReadUInt32\<close>
  in order, on hosts of either byte order, and the buffer is empty afterwards.
\<close>

theorem uint32_round_trip:
  assumes "buffer_ok b" and "content b = []" and "room b (4 * length ns)"
  shows "\<exists>b1 b2. write_ints e ns b = Inr b1 \<and> read_ints e (length ns) b1 = Inr (ns, b2) \<and>
     buffer_ok b2 \<and> content b2 = []"
proof -
  obtain b1 where "write_ints e ns b = Inr b1" "buffer_ok b1"
    "content b1 = concat (map (memcpy_u32 e) ns) @ []"
    using write_ints_ok [OF assms(1,3)] assms(2) by auto
  then show ?thesis using read_ints_ok [of b1 e ns "[]"] by auto
qed

theorem uint32_round_trip_witness:
  "\<exists>b1 b2. write_ints Big_Endian [53, 646] Buffer_new = Inr b1 \<and>
     read_ints Big_Endian 2 b1 = Inr ([53, 646], b2) \<and> buffer_ok b2 \<and> content b2 = []"
  using uint32_round_trip [of Buffer_new "[53, 646]" Big_Endian]
  by (simp flip: numeral_2_eq_2 del: write_ints.simps read_ints.simps)

text \<open>
  Property C16. \<open>ReadBufferFromFd\<close> returns, and what it appends to the buffer is what the descriptor
  delivered, in order and complete. It stops at the end of the stream (0), at \<open>EAGAIN\<close> or at
  \<open>ECONNRESET\<close> only, and ends the process at every other error.
\<close>

theorem ReadBufferFromFd_complete:
  assumes "read_delivers os f recv avail" and "buffer_ok b" and "room b (avail w)"
  shows "ReadBufferFromFd os f b w = Some (Inl (EXIT ''[Buffer] read'')) \<or>
     (\<exists>r b' w' s. ReadBufferFromFd os f b w = Some (Inr (r, b', w')) \<and>
        r \<in> {Ret 0, Err EAGAIN, Err ECONNRESET} \<and> recv w' = recv w @ s \<and>
        content b' = content b @ s \<and> buffer_ok b')"
  using ReadBufferFromFd_loop [OF assms] by blast

lemma sample_ReadBufferFromFd:
  "ReadBufferFromFd sample_posix 4 Buffer_new (sample_world ''hello'' 0)
     = Some (Inr (Err EAGAIN, \<lparr>read_index = 0, write_index = 5, vec = ''hello''\<rparr>,
         sample_world [] 0\<lparr>received := ''hello''\<rparr>))"
  by (simp add: ReadBufferFromFd.simps sample_posix_def sample_read_def sample_world_def
      Buffer_Write_def Buffer_new_def kReadBufferSize_def)

theorem ReadBufferFromFd_complete_witness:
  "\<exists>r b' w' s. ReadBufferFromFd sample_posix 4 Buffer_new (sample_world ''hello'' 0) = Some (Inr (r, b', w')) \<and>
     r \<in> {Ret 0, Err EAGAIN, Err ECONNRESET} \<and> received w' = s \<and> content b' = s \<and> s = ''hello''"
  using ReadBufferFromFd_complete [OF sample_read_delivers, of Buffer_new "sample_world ''hello'' 0" 4]
  by (auto simp: sample_ReadBufferFromFd, simp add: sample_world_def)

text \<open>
  Property C15. \<open>WriteBufferToFd\<close> returns, and at every return the bytes the descriptor accepted
  followed by the bytes left in the buffer are the bytes there were: nothing is lost, duplicated
  or reordered by partial writes. It returns 0 only with the buffer empty and fails with
  \<open>EAGAIN\<close>, \<open>ECONNRESET\<close> or \<open>EPIPE\<close>; every other error ends the process.
\<close>

theorem WriteBufferToFd_conserves:
  assumes "write_accepts os f sent" and "buffer_ok b"
  shows "WriteBufferToFd os f b w = Some (Inl (EXIT ''[Buffer] write'')) \<or>
     (\<exists>r b' w'. WriteBufferToFd os f b w = Some (Inr (r, b', w')) \<and>
        (r = Ret 0 \<and> content b' = [] \<or> r \<in> {Err EAGAIN, Err ECONNRESET, Err EPIPE}) \<and>
        sent w' @ content b' = sent w @ content b \<and> buffer_ok b')"
  using WriteBufferToFd_loop [of os f sent "\<lambda>_. ()" b w] assms by auto

definition sample_buffer :: buffer where
  "sample_buffer = \<lparr>read_index = 0, write_index = 5, vec = ''hello''\<rparr>"

lemma sample_buffer_ok: "buffer_ok sample_buffer" "content sample_buffer = ''hello''"
  by (simp_all add: sample_buffer_def buffer_ok_def content_def)

theorem WriteBufferToFd_conserves_witness:
  "\<exists>b' w'. WriteBufferToFd sample_posix 4 sample_buffer (sample_world [] 4) = Some (Inr (Err EAGAIN, b', w')) \<and>
     accepted w' @ content b' = ''hello''"
  using WriteBufferToFd_conserves [OF sample_write_accepts sample_buffer_ok(1), of 4 "sample_world [] 4"]
  by (simp add: WriteBufferToFd.simps sample_posix_def sample_write_def sample_world_def content_def
      sample_buffer_def Buffer_Peek_def HaveRead_def ReadableBytes_def kWriteBufferSize_def Let_def)

end
