(* ===== verification/Substring.thy ===== *)
theory Substring
  imports Ladder_Prelude
begin

text \<open>
  \<^verbatim>\<open>ladder/src/utils.cpp\<close>, \<open>FindSubstr\<close>: all positions at which a pattern occurs in a string, by the
  Knuth-Morris-Pratt search with the optimised failure table. The table is an array of
  \<open>int\<close> whose entries are uninitialised until they are assigned; reading one of those, or an
  index out of range, is undefined behaviour and is the value \<open>None\<close> here, as is a loop that does
  not end, and a table of a size that cannot be allocated. The lengths are narrowed to 32 bits as the code does it, and an
  expression of type \<open>int\<close> whose value does not fit into 32 bits is undefined too. The theorems show that the result is
  \<open>Some\<close> of the list of all occurrences as long as the lengths of string and pattern together stay below \<open>2 ^ 31 - 1\<close>.
\<close>

section \<open>The model\<close>

text \<open>\<open>operator[]\<close> of a \<open>std::string\<close> is defined up to and including \<open>size()\<close>, where it is zero.\<close>

definition str_at :: "string \<Rightarrow> int \<Rightarrow> char option" where
  "str_at s i =
     (if 0 \<le> i \<and> i < int (length s) then Some (s ! nat i)
      else if i = int (length s) then Some NUL else None)"

definition arr_get :: "int option list \<Rightarrow> int \<Rightarrow> int option" where
  "arr_get a i = (if 0 \<le> i \<and> i < int (length a) then a ! nat i else None)"

definition arr_set :: "int option list \<Rightarrow> int \<Rightarrow> int \<Rightarrow> int option list option" where
  "arr_set a i v = (if 0 \<le> i \<and> i < int (length a) then Some (a[nat i := Some v]) else None)"

text \<open>The value of an expression of type \<open>int\<close>, which must not overflow.\<close>

definition i32_val :: "int \<Rightarrow> int option" where
  "i32_val x = (if - (2 ^ 31) \<le> x \<and> x < 2 ^ 31 then Some x else None)"

lemma i32_val_id: "- (2 ^ 31) \<le> x \<Longrightarrow> x < 2 ^ 31 \<Longrightarrow> i32_val x = Some x"
  by (simp add: i32_val_def)

definition str_eq_at :: "string \<Rightarrow> int \<Rightarrow> string \<Rightarrow> int \<Rightarrow> bool option" where
  "str_eq_at s i p j = Option.bind (str_at s i) (\<lambda>c. map_option (\<lambda>d. c = d) (str_at p j))"

text \<open>The inner loop \<open>while (tmp >= 0 && pat[tmp] == pat[i]) tmp = next[tmp];\<close>\<close>

partial_function (option) next_fallback ::
  "string \<Rightarrow> int option list \<Rightarrow> int \<Rightarrow> int \<Rightarrow> int option" where
  "next_fallback pat nxt i tmp =
     (if tmp \<ge> 0 then
        Option.bind (str_eq_at pat tmp pat i) (\<lambda>same.
          if same then Option.bind (arr_get nxt tmp) (\<lambda>tmp'. next_fallback pat nxt i tmp')
          else Some tmp)
      else Some tmp)"

text \<open>The loop that fills the table.\<close>

partial_function (option) build_next ::
  "string \<Rightarrow> int \<Rightarrow> int option list \<Rightarrow> int \<Rightarrow> int \<Rightarrow> int option list option" where
  "build_next pat len2 nxt t i =
     (if i < len2 then
        Option.bind (if t < 0 then Some True else str_eq_at pat t pat i) (\<lambda>ext.
          if ext then
            Option.bind (i32_val (i + 1)) (\<lambda>i'.
            Option.bind (i32_val (t + 1)) (\<lambda>t'.
            Option.bind (next_fallback pat nxt i' t') (\<lambda>tmp.
            Option.bind (arr_set nxt i' tmp) (\<lambda>nxt'.
              build_next pat len2 nxt' t' i'))))
          else Option.bind (arr_get nxt t) (\<lambda>t'. build_next pat len2 nxt t' i))
      else Some nxt)"

text \<open>The search loop: \<open>i\<close> is the start of the window, \<open>j\<close> the number of characters matched.\<close>

partial_function (option) kmp_search ::
  "string \<Rightarrow> string \<Rightarrow> int \<Rightarrow> int \<Rightarrow> int option list \<Rightarrow> int \<Rightarrow> int \<Rightarrow> int list \<Rightarrow> int list option" where
  "kmp_search str pat len1 len2 nxt i j positions =
     Option.bind (i32_val (i + len2)) (\<lambda>end_pos.
       if end_pos \<le> len1 \<and> j \<le> len2 then
         Option.bind
           (if j < len2 then
              (if j < 0 then Some True else Option.bind (i32_val (i + j)) (\<lambda>k. str_eq_at str k pat j))
            else Some False) (\<lambda>ext.
           if ext then Option.bind (i32_val (j + 1)) (\<lambda>j'. kmp_search str pat len1 len2 nxt i j' positions)
           else
             Option.bind (arr_get nxt j) (\<lambda>n.
             Option.bind (i32_val (j - n)) (\<lambda>d.
             Option.bind (i32_val (i + d)) (\<lambda>i'.
               kmp_search str pat len1 len2 nxt i' n (if j = len2 then positions @ [i] else positions)))))
       else Some positions)"

definition FindSubstr :: "string \<Rightarrow> string \<Rightarrow> int list option" where
  "FindSubstr str pat =
     (let len1 = to_i32 (int (length str)); len2 = to_i32 (int (length pat)) in
      Option.bind (i32_val (1 + len2)) (\<lambda>size.
        if size < 0 then None
        else
          Option.bind (arr_set (replicate (nat size) None) 0 (- 1)) (\<lambda>nxt.
          Option.bind (build_next pat len2 nxt (- 1) 0) (\<lambda>nxt'. kmp_search str pat len1 len2 nxt' 0 0 []))))"

section \<open>Specification\<close>

definition occurs_at :: "string \<Rightarrow> string \<Rightarrow> nat \<Rightarrow> bool" where
  "occurs_at str pat k \<longleftrightarrow> k + length pat \<le> length str \<and> take (length pat) (drop k str) = pat"

definition occurrences :: "string \<Rightarrow> string \<Rightarrow> int list" where
  "occurrences str pat = map int (filter (occurs_at str pat) [0..<Suc (length str)])"

section \<open>Borders of the pattern\<close>

definition pch :: "string \<Rightarrow> int \<Rightarrow> char" where
  "pch p k = (if k < int (length p) then p ! nat k else NUL)"

definition border :: "string \<Rightarrow> int \<Rightarrow> int \<Rightarrow> bool" where
  "border p k n \<longleftrightarrow> 0 \<le> n \<and> n < k \<and> k \<le> int (length p) \<and> (\<forall>l. 0 \<le> l \<and> l < n \<longrightarrow> pch p l = pch p (k - n + l))"

text \<open>The entry of the optimised table: the longest border that is not followed by the same
  character as the whole, or \<open>-1\<close>.\<close>

definition is_next :: "string \<Rightarrow> int \<Rightarrow> int \<Rightarrow> bool" where
  "is_next p k n \<longleftrightarrow> - 1 \<le> n \<and> n < k \<and> (0 \<le> n \<longrightarrow> border p k n \<and> pch p n \<noteq> pch p k) \<and>
     (\<forall>n'. n < n' \<longrightarrow> border p k n' \<longrightarrow> pch p n' = pch p k)"

definition table_upto :: "string \<Rightarrow> int option list \<Rightarrow> int \<Rightarrow> bool" where
  "table_upto p nxt i \<longleftrightarrow> length nxt = Suc (length p) \<and>
     (\<forall>k. 0 \<le> k \<and> k \<le> i \<longrightarrow> (\<exists>n. arr_get nxt k = Some n \<and> is_next p k n))"

lemma borderD: "border p k n \<Longrightarrow> 0 \<le> l \<Longrightarrow> l < n \<Longrightarrow> pch p l = pch p (k - n + l)"
  by (simp add: border_def)

lemma border_bounds: "border p k n \<Longrightarrow> 0 \<le> n \<and> n < k \<and> k \<le> int (length p)"
  by (simp add: border_def)

lemma border_0: "0 < k \<Longrightarrow> k \<le> int (length p) \<Longrightarrow> border p k 0"
  by (auto simp: border_def)

lemma border_trans:
  assumes "border p k n" and "border p n n'"
  shows "border p k n'"
proof -
  have "pch p l = pch p (k - n' + l)" if "0 \<le> l" "l < n'" for l
    using borderD [OF assms(2) that] borderD [OF assms(1), of "n - n' + l"] that
      border_bounds [OF assms(2)] by (simp add: algebra_simps)
  then show ?thesis
    using border_bounds [OF assms(1)] border_bounds [OF assms(2)] by (simp add: border_def)
qed

lemma border_inner:
  assumes "border p k n" and "border p k n'" and "n' < n"
  shows "border p n n'"
proof -
  have "pch p l = pch p (n - n' + l)" if "0 \<le> l" "l < n'" for l
    using borderD [OF assms(2) that] borderD [OF assms(1), of "n - n' + l"] that assms(3)
    by (simp add: algebra_simps)
  then show ?thesis
    using border_bounds [OF assms(1)] border_bounds [OF assms(2)] assms(3) by (simp add: border_def)
qed

lemma border_Suc:
  assumes "0 \<le> n" and "k < int (length p)"
  shows "border p (k + 1) (n + 1) \<longleftrightarrow> border p k n \<and> pch p n = pch p k"
proof
  assume b: "border p (k + 1) (n + 1)"
  then show "border p k n \<and> pch p n = pch p k"
    using assms borderD [OF b] borderD [OF b, of n] by (auto simp: border_def)
next
  assume b: "border p k n \<and> pch p n = pch p k"
  have "pch p l = pch p (k - n + l)" if "0 \<le> l" "l < n + 1" for l
    using b that by (cases "l = n") (auto simp: border_def)
  then show "border p (k + 1) (n + 1)"
    using b assms by (auto simp: border_def)
qed

lemma str_eq_at_pch:
  "0 \<le> i \<Longrightarrow> i \<le> int (length p) \<Longrightarrow> 0 \<le> j \<Longrightarrow> j \<le> int (length p) \<Longrightarrow>
   str_eq_at p i p j = Some (pch p i = pch p j)"
  by (auto simp: str_eq_at_def str_at_def pch_def)

lemma table_uptoD:
  assumes "table_upto p nxt i" and "0 \<le> k" and "k \<le> i"
  obtains n where "arr_get nxt k = Some n" and "is_next p k n"
  using assms by (auto simp: table_upto_def)

section \<open>The table\<close>

text \<open>What is known of a candidate \<open>tmp\<close> for the entry of \<open>k\<close>: it is a border, and every longer
  border is followed by the same character as \<open>k\<close>.\<close>

definition candidate :: "string \<Rightarrow> int \<Rightarrow> int \<Rightarrow> bool" where
  "candidate p k tmp \<longleftrightarrow> - 1 \<le> tmp \<and> tmp < k \<and> (0 \<le> tmp \<longrightarrow> border p k tmp) \<and>
     (\<forall>n'. tmp < n' \<longrightarrow> border p k n' \<longrightarrow> pch p n' = pch p k)"

lemma candidate_next:
  assumes c: "candidate p k tmp" and "0 \<le> tmp" and same: "pch p tmp = pch p k"
    and n: "is_next p tmp n"
  shows "candidate p k n" and "n < tmp"
proof -
  have b: "border p k tmp"
    using c \<open>0 \<le> tmp\<close> by (simp add: candidate_def)
  show "n < tmp" using n by (simp add: is_next_def)
  have "pch p n' = pch p k" if "n < n'" "border p k n'" for n'
  proof (cases "n' < tmp")
    case True
    then show ?thesis
      using n that same border_inner [OF b that(2) True] by (auto simp: is_next_def)
  next
    case False
    then show ?thesis
      using c that same by (cases "n' = tmp") (auto simp: candidate_def)
  qed
  moreover have "0 \<le> n \<Longrightarrow> border p k n"
    using n border_trans [OF b] by (auto simp: is_next_def)
  ultimately show "candidate p k n"
    using n c by (auto simp: candidate_def is_next_def)
qed

lemma next_fallback_ok:
  assumes tab: "table_upto p nxt i" and "k \<le> i + 1" and "k \<le> int (length p)"
  shows "candidate p k tmp \<Longrightarrow> \<exists>n. next_fallback p nxt k tmp = Some n \<and> is_next p k n"
proof (induction "nat (tmp + 1)" arbitrary: tmp rule: less_induct)
  case less
  show ?case
  proof (cases "0 \<le> tmp \<and> pch p tmp = pch p k")
    case True
    have "tmp < k" using less.prems by (simp add: candidate_def)
    with True assms obtain n where n: "arr_get nxt tmp = Some n" "is_next p tmp n"
      using table_uptoD [OF tab, of tmp] by auto
    note c = candidate_next [OF less.prems _ _ n(2)]
    have "next_fallback p nxt k tmp = next_fallback p nxt k n"
      using True assms(3) \<open>tmp < k\<close> n(1)
      by (subst next_fallback.simps) (simp add: str_eq_at_pch)
    then show ?thesis
      using less.hyps [of n] c True by simp
  next
    case False
    have "next_fallback p nxt k tmp = Some tmp"
      using False less.prems assms(3)
      by (subst next_fallback.simps) (auto simp: str_eq_at_pch candidate_def)
    moreover have "is_next p k tmp"
      using False less.prems by (auto simp: is_next_def candidate_def)
    ultimately show ?thesis by blast
  qed
qed

text \<open>The invariant of the outer loop: \<open>t\<close> is a border of \<open>i\<close> and no longer border of \<open>i\<close> can be
  extended by the character at \<open>i\<close>.\<close>

definition extendable :: "string \<Rightarrow> int \<Rightarrow> int \<Rightarrow> bool" where
  "extendable p i t \<longleftrightarrow> - 1 \<le> t \<and> t < i \<and> (0 \<le> t \<longrightarrow> border p i t) \<and>
     (\<forall>n'. t < n' \<longrightarrow> border p i n' \<longrightarrow> pch p n' \<noteq> pch p i)"

lemma extendable_candidate:
  assumes e: "extendable p i t" and i: "0 \<le> i" "i < int (length p)"
    and ext: "t < 0 \<or> pch p t = pch p i"
  shows "candidate p (i + 1) (t + 1)" and "extendable p (i + 1) (t + 1)"
proof -
  have b: "border p (i + 1) (t + 1)"
  proof (cases "t = - 1")
    case True
    then show ?thesis using i border_0 by simp
  next
    case False
    then show ?thesis
      using e ext i border_Suc [of t i p] by (auto simp: extendable_def)
  qed
  have none: "\<not> border p (i + 1) n'" if "t + 1 < n'" for n'
  proof
    assume "border p (i + 1) n'"
    then have "border p i (n' - 1) \<and> pch p (n' - 1) = pch p i"
      using border_Suc [of "n' - 1" i p] that e i by (simp add: extendable_def)
    then show False
      using e that by (auto simp: extendable_def)
  qed
  show "candidate p (i + 1) (t + 1)" and "extendable p (i + 1) (t + 1)"
    using b none e by (auto simp: candidate_def extendable_def)
qed

lemma extendable_mismatch:
  assumes e: "extendable p i t" and "0 \<le> t" and ne: "pch p t \<noteq> pch p i" and n: "is_next p t n"
  shows "extendable p i n" and "n < t"
proof -
  have b: "border p i t" using e \<open>0 \<le> t\<close> by (simp add: extendable_def)
  show "n < t" using n by (simp add: is_next_def)
  have "pch p n' \<noteq> pch p i" if "n < n'" "border p i n'" for n'
  proof (cases "n' < t")
    case True
    then show ?thesis
      using n that ne border_inner [OF b that(2) True] by (auto simp: is_next_def)
  next
    case False
    then show ?thesis
      using e that ne by (cases "n' = t") (auto simp: extendable_def)
  qed
  moreover have "0 \<le> n \<Longrightarrow> border p i n"
    using n border_trans [OF b] by (auto simp: is_next_def)
  ultimately show "extendable p i n"
    using n e by (auto simp: extendable_def is_next_def)
qed

lemma table_upto_step:
  assumes "table_upto p nxt i" and "is_next p (i + 1) n" and "0 \<le> i" and "i < int (length p)"
  shows "\<exists>nxt'. arr_set nxt (i + 1) n = Some nxt' \<and> table_upto p nxt' (i + 1)"
proof -
  have len: "length nxt = Suc (length p)"
    using assms(1) by (simp add: table_upto_def)
  let ?nxt = "nxt[nat (i + 1) := Some n]"
  have "\<exists>m. arr_get ?nxt k = Some m \<and> is_next p k m" if "0 \<le> k" "k \<le> i + 1" for k
  proof (cases "k = i + 1")
    case True
    then show ?thesis using assms len by (auto simp: arr_get_def)
  next
    case False
    then have "arr_get ?nxt k = arr_get nxt k"
      using that assms len by (auto simp: arr_get_def nat_eq_iff)
    then show ?thesis using table_uptoD [OF assms(1), of k] that False by force
  qed
  then show ?thesis
    using assms len by (simp add: arr_set_def table_upto_def)
qed

lemma build_next_ok:
  assumes "int (length p) < 2 ^ 31"
  shows "table_upto p nxt i \<Longrightarrow> extendable p i t \<Longrightarrow> 0 \<le> i \<Longrightarrow> i \<le> int (length p) \<Longrightarrow>
     \<exists>nxt'. build_next p (int (length p)) nxt t i = Some nxt' \<and> table_upto p nxt' (int (length p))"
proof (induction "nat (2 * (int (length p) - i) + t + 1)" arbitrary: nxt t i rule: less_induct)
  case less
  have t: "- 1 \<le> t" "t < i" using less.prems by (auto simp: extendable_def)
  show ?case
  proof (cases "i < int (length p)")
    case False
    then show ?thesis
      using less.prems by (subst build_next.simps) auto
  next
    case i: True
    show ?thesis
    proof (cases "t < 0 \<or> pch p t = pch p i")
      case True
      note c = extendable_candidate [OF less.prems(2,3) i True]
      obtain n where n: "next_fallback p nxt (i + 1) (t + 1) = Some n" "is_next p (i + 1) n"
        using next_fallback_ok [OF less.prems(1) _ _ c(1)] i by auto
      obtain nxt' where s: "arr_set nxt (i + 1) n = Some nxt'" "table_upto p nxt' (i + 1)"
        using table_upto_step [OF less.prems(1) n(2) less.prems(3) i] by blast
      have "i32_val (i + 1) = Some (i + 1)" "i32_val (t + 1) = Some (t + 1)"
        using i t less.prems(3) assms by (auto intro!: i32_val_id)
      then have "build_next p (int (length p)) nxt t i = build_next p (int (length p)) nxt' (t + 1) (i + 1)"
        using i True t n s by (subst build_next.simps) (auto simp: str_eq_at_pch)
      then show ?thesis
        using less.hyps [OF _ s(2) c(2)] less.prems t i by simp
    next
      case False
      then obtain n where n: "arr_get nxt t = Some n" "is_next p t n"
        using table_uptoD [OF less.prems(1), of t] t by force
      have c: "extendable p i n" "n < t"
        using extendable_mismatch [OF less.prems(2) _ _ n(2)] False by auto
      have "build_next p (int (length p)) nxt t i = build_next p (int (length p)) nxt n i"
        using i False t n by (subst build_next.simps) (auto simp: str_eq_at_pch)
      then show ?thesis
        using less.hyps [OF _ less.prems(1) c(1)] less.prems c(2) t i by simp
    qed
  qed
qed

section \<open>The search\<close>

lemma occurs_at_iff:
  "occurs_at str pat k \<longleftrightarrow>
     k + length pat \<le> length str \<and> (\<forall>l < length pat. str ! (k + l) = pat ! l)"
  by (auto simp: occurs_at_def list_eq_iff_nth_eq)

lemma filter_upt_gap:
  assumes "a < b" and "\<And>k. a < k \<Longrightarrow> k < b \<Longrightarrow> \<not> P k"
  shows "filter P [0..<b] = filter P [0..<a] @ (if P a then [a] else [])"
proof -
  have "[0..<b] = [0..<a] @ a # [Suc a..<b]"
    using assms(1) by (metis less_imp_le_nat upt_add_eq_append upt_conv_Cons zero_le le_add_diff_inverse)
  moreover have "filter P [Suc a..<b] = []"
    using assms(2) by (auto simp: filter_empty_conv)
  ultimately show ?thesis by simp
qed

text \<open>The occurrences that start before \<open>i\<close>.\<close>

definition found :: "string \<Rightarrow> string \<Rightarrow> int \<Rightarrow> int list" where
  "found str pat i = map int (filter (occurs_at str pat) [0..<nat i])"

definition search_inv :: "string \<Rightarrow> string \<Rightarrow> int \<Rightarrow> int \<Rightarrow> int list \<Rightarrow> bool" where
  "search_inv str pat i j ps \<longleftrightarrow> 0 \<le> i \<and> - 1 \<le> j \<and> j \<le> int (length pat) \<and> ps = found str pat i \<and>
     (\<forall>l. 0 \<le> l \<and> l < j \<longrightarrow> str ! nat (i + l) = pat ! nat l)"

text \<open>Why the window may jump: an occurrence strictly inside would be a border of the matched
  part that the table has excluded.\<close>

lemma no_occurrence_between:
  assumes inv: "search_inv str pat i j ps" and fits: "i + int (length pat) \<le> int (length str)"
    and nul: "NUL \<notin> set pat" and j: "0 \<le> j"
    and stop: "j = int (length pat) \<or> str ! nat (i + j) \<noteq> pat ! nat j"
    and n: "is_next pat j n" and k: "i < k" "k < i + (j - n)"
  shows "\<not> occurs_at str pat (nat k)"
proof
  assume occ: "occurs_at str pat (nat k)"
  define n' where "n' = i + j - k"
  have n': "n < n'" "n' < j" "0 \<le> n'"
    using k n by (auto simp: n'_def is_next_def)
  have i: "0 \<le> i" and jm: "j \<le> int (length pat)"
    and eq: "\<And>l. 0 \<le> l \<Longrightarrow> l < j \<Longrightarrow> str ! nat (i + l) = pat ! nat l"
    using inv by (auto simp: search_inv_def)
  have oc: "str ! nat (k + l) = pat ! nat l" if "0 \<le> l" "l < int (length pat)" for l
  proof -
    have "nat k + nat l = nat (k + l)" using that i k by simp
    moreover have "nat l < length pat" using that by simp
    ultimately show ?thesis using occ by (metis occurs_at_iff)
  qed
  have "pch pat l = pch pat (j - n' + l)" if l: "0 \<le> l" "l < n'" for l
  proof -
    have "pat ! nat l = str ! nat (i + (j - n' + l))"
      using oc [of l] l n' jm by (simp add: n'_def algebra_simps)
    also have "\<dots> = pat ! nat (j - n' + l)"
      using eq [of "j - n' + l"] l n' by simp
    finally show ?thesis using l n' jm by (simp add: pch_def)
  qed
  then have "border pat j n'"
    using n' jm by (simp add: border_def)
  with n n'(1) have same: "pch pat n' = pch pat j"
    by (simp add: is_next_def)
  have pn: "pch pat n' = pat ! nat n'" "nat n' < length pat"
    using n' jm by (auto simp: pch_def)
  show False
  proof (cases "j = int (length pat)")
    case True
    then show ?thesis using same pn nul nth_mem [OF pn(2)] by (simp add: pch_def)
  next
    case False
    then have "pat ! nat n' = pat ! nat j"
      using same pn jm by (simp add: pch_def)
    moreover have "str ! nat (i + j) = pat ! nat n'"
      using oc [of n'] n' jm False by (simp add: n'_def)
    ultimately show ?thesis using stop False by simp
  qed
qed

lemma matched_occurs_iff:
  assumes inv: "search_inv str pat i j ps" and fits: "i + int (length pat) \<le> int (length str)"
    and j: "0 \<le> j" and stop: "j = int (length pat) \<or> str ! nat (i + j) \<noteq> pat ! nat j"
  shows "occurs_at str pat (nat i) \<longleftrightarrow> j = int (length pat)"
proof -
  have i: "0 \<le> i" and jm: "j \<le> int (length pat)"
    and eq: "\<And>l. 0 \<le> l \<Longrightarrow> l < j \<Longrightarrow> str ! nat (i + l) = pat ! nat l"
    using inv by (auto simp: search_inv_def)
  have eq': "str ! (nat i + l) = pat ! l" if "int l < j" for l
    using eq [of "int l"] that i by (simp add: nat_add_distrib)
  show ?thesis
  proof
    assume occ: "occurs_at str pat (nat i)"
    show "j = int (length pat)"
    proof (rule ccontr)
      assume ne: "j \<noteq> int (length pat)"
      then have "nat j < length pat" using jm j by simp
      then have "str ! (nat i + nat j) = pat ! nat j"
        using occ by (simp add: occurs_at_iff)
      then show False using stop ne i j by (simp add: nat_add_distrib)
    qed
  next
    assume "j = int (length pat)"
    then show "occurs_at str pat (nat i)"
      using eq' i fits by (simp add: occurs_at_iff)
  qed
qed

lemma search_inv_jump:
  assumes inv: "search_inv str pat i j ps" and fits: "i + int (length pat) \<le> int (length str)"
    and nul: "NUL \<notin> set pat" and j: "0 \<le> j"
    and stop: "j = int (length pat) \<or> str ! nat (i + j) \<noteq> pat ! nat j"
    and n: "is_next pat j n"
  shows "search_inv str pat (i + (j - n)) n (if j = int (length pat) then ps @ [i] else ps)"
proof -
  have i: "0 \<le> i" and jm: "j \<le> int (length pat)" and ps: "ps = found str pat i"
    and eq: "\<And>l. 0 \<le> l \<Longrightarrow> l < j \<Longrightarrow> str ! nat (i + l) = pat ! nat l"
    using inv by (auto simp: search_inv_def)
  have nj: "- 1 \<le> n" "n < j" using n by (auto simp: is_next_def)
  have "filter (occurs_at str pat) [0..<nat (i + (j - n))]
      = filter (occurs_at str pat) [0..<nat i] @ (if occurs_at str pat (nat i) then [nat i] else [])"
  proof (rule filter_upt_gap)
    show "nat i < nat (i + (j - n))" using nj i by simp
    show "\<not> occurs_at str pat k" if "nat i < k" "k < nat (i + (j - n))" for k
      using no_occurrence_between [OF inv fits nul j stop n, of "int k"] that i by simp
  qed
  then have f: "found str pat (i + (j - n)) = (if j = int (length pat) then ps @ [i] else ps)"
    using matched_occurs_iff [OF inv fits j stop] i by (simp add: found_def ps)
  have "str ! nat (i + (j - n) + l) = pat ! nat l" if l: "0 \<le> l" "l < n" for l
  proof -
    have "pch pat l = pch pat (j - n + l)"
      using n l by (auto simp: is_next_def border_def)
    then have "pat ! nat l = pat ! nat (j - n + l)"
      using l nj jm by (simp add: pch_def)
    then show ?thesis using eq [of "j - n + l"] l nj by (simp add: algebra_simps)
  qed
  then show ?thesis
    using f i nj jm by (auto simp: search_inv_def)
qed

lemma search_inv_extend:
  assumes "search_inv str pat i j ps" and "j < int (length pat)"
    and "j < 0 \<or> str ! nat (i + j) = pat ! nat j"
  shows "search_inv str pat i (j + 1) ps"
proof -
  have "str ! nat (i + l) = pat ! nat l" if "0 \<le> l" "l < j + 1" for l
    using assms that by (cases "l = j") (auto simp: search_inv_def)
  then show ?thesis using assms by (auto simp: search_inv_def)
qed

lemma found_all:
  assumes "0 \<le> i" and "int (length str) < i + int (length pat)"
  shows "found str pat i = occurrences str pat"
proof -
  have none: "\<not> occurs_at str pat k" if "nat i \<le> k" for k
    using that assms by (auto simp: occurs_at_def)
  have eq: "filter (occurs_at str pat) [0..<b] = filter (occurs_at str pat) [0..<nat i]"
    if "nat i \<le> b" for b
  proof -
    have "[0..<b] = [0..<nat i] @ [nat i..<b]"
      using that by (metis le_add_diff_inverse upt_add_eq_append zero_le)
    then show ?thesis using none by (simp add: filter_empty_conv)
  qed
  have above: "filter (occurs_at str pat) [0..<b] = filter (occurs_at str pat) [0..<Suc (length str)]"
    if "Suc (length str) \<le> b" for b
  proof -
    have "[0..<b] = [0..<Suc (length str)] @ [Suc (length str)..<b]"
      using that by (metis le_add_diff_inverse upt_add_eq_append zero_le)
    moreover have "filter (occurs_at str pat) [Suc (length str)..<b] = []"
      by (auto simp: filter_empty_conv occurs_at_def)
    ultimately show ?thesis by simp
  qed
  show ?thesis
    unfolding found_def occurrences_def
    using eq [of "Suc (length str)"] above [of "nat i"] by (cases "nat i \<le> Suc (length str)") auto
qed

lemma kmp_search_ok:
  assumes tab: "table_upto pat nxt (int (length pat))" and nul: "NUL \<notin> set pat" and len: "length str + length pat < 2 ^ 31 - 1"
  shows "search_inv str pat i j ps \<Longrightarrow> i + j \<le> int (length str) \<Longrightarrow>
     kmp_search str pat (int (length str)) (int (length pat)) nxt i j ps = Some (occurrences str pat)"
proof (induction "nat (2 * int (length str) + 1 - (i + j) - i)" arbitrary: i j ps rule: less_induct)
  case less
  have inv: "0 \<le> i" "- 1 \<le> j" "j \<le> int (length pat)" "ps = found str pat i"
    using less.prems by (auto simp: search_inv_def)
  have len': "int (length str) + int (length pat) < 2 ^ 31 - 1" using len by simp
  have ij: "i + j \<le> int (length str)" using less.prems by simp
  have top: "i32_val (i + int (length pat)) = Some (i + int (length pat))" using inv ij len' by (intro i32_val_id) auto
  show ?case
  proof (cases "i + int (length pat) \<le> int (length str)")
    case False
    then show ?thesis
      using inv found_all [of i str pat] top by (subst kmp_search.simps) auto
  next
    case fits: True
    have cmp: "str_eq_at str (i + j) pat j = Some (str ! nat (i + j) = pat ! nat j)"
      if "0 \<le> j" "j < int (length pat)"
      using that inv fits by (auto simp: str_eq_at_def str_at_def)
    show ?thesis
    proof (cases "j < int (length pat) \<and> (j < 0 \<or> str ! nat (i + j) = pat ! nat j)")
      case True
      have "i32_val (j + 1) = Some (j + 1)" "0 \<le> j \<Longrightarrow> i32_val (i + j) = Some (i + j)"
        using True inv ij len' by (auto intro!: i32_val_id)
      then have "kmp_search str pat (int (length str)) (int (length pat)) nxt i j ps =
          kmp_search str pat (int (length str)) (int (length pat)) nxt i (j + 1) ps"
        using True fits cmp top by (subst kmp_search.simps) auto
      then show ?thesis
        using less.hyps [of i "j + 1" ps] search_inv_extend [OF less.prems(1)] True fits inv by simp
    next
      case False
      then have j: "0 \<le> j" and stop: "j = int (length pat) \<or> str ! nat (i + j) \<noteq> pat ! nat j"
        using inv by auto
      obtain n where n: "arr_get nxt j = Some n" "is_next pat j n"
        using table_uptoD [OF tab j] inv by auto
      let ?ps = "if j = int (length pat) then ps @ [i] else ps"
      have nj: "n < j" "- 1 \<le> n" using n(2) by (simp_all add: is_next_def)
      have "i32_val (i + j) = Some (i + j)" "i32_val (j - n) = Some (j - n)" "i32_val (i + (j - n)) = Some (i + (j - n))"
        using nj inv ij j len' by (auto intro!: i32_val_id)
      then have "kmp_search str pat (int (length str)) (int (length pat)) nxt i j ps =
          kmp_search str pat (int (length str)) (int (length pat)) nxt (i + (j - n)) n ?ps"
        using False fits cmp j n inv top by (subst kmp_search.simps) auto
      moreover note nj(1)
      ultimately show ?thesis
        using less.hyps [OF _ search_inv_jump [OF less.prems(1) fits nul j stop n(2)]] less.prems(2) inv fits
        by simp
    qed
  qed
qed

lemma FindSubstr_table:
  assumes "length pat < 2 ^ 31 - 1"
  obtains nxt where "FindSubstr str pat = kmp_search str pat (to_i32 (int (length str))) (int (length pat)) nxt 0 0 []"
    and "table_upto pat nxt (int (length pat))"
proof -
  define nxt where "nxt = Some (- 1) # replicate (length pat) (None :: int option)"
  have set: "arr_set (replicate (1 + length pat) None) 0 (- 1) = Some nxt"
    by (simp add: arr_set_def nxt_def)
  have "is_next pat 0 (- 1)"
    by (simp add: is_next_def border_def)
  moreover have "arr_get nxt 0 = Some (- 1)"
    by (simp add: arr_get_def nxt_def)
  moreover have "k = 0" if "0 \<le> k" "k \<le> 0" for k :: int
    using that by simp
  ultimately have tab: "table_upto pat nxt 0"
    unfolding table_upto_def by (auto simp: nxt_def)
  have len: "to_i32 (int (length pat)) = int (length pat)"
    "i32_val (1 + int (length pat)) = Some (1 + int (length pat))" "int (length pat) < 2 ^ 31"
    using assms by (simp_all add: to_i32_id i32_val_id)
  obtain nxt' where nxt': "build_next pat (int (length pat)) nxt (- 1) 0 = Some nxt'" "table_upto pat nxt' (int (length pat))"
    using build_next_ok [OF len(3) tab, of "- 1"] by (auto simp: extendable_def border_def)
  have size: "nat (1 + int (length pat)) = 1 + length pat" by simp
  have "FindSubstr str pat = kmp_search str pat (to_i32 (int (length str))) (int (length pat)) nxt' 0 0 []"
    using set nxt'(1) unfolding FindSubstr_def len Let_def size [symmetric] by simp
  then show thesis using nxt'(2) that by blast
qed

lemma FindSubstr_eq:
  assumes "NUL \<notin> set pat" and "length str + length pat < 2 ^ 31 - 1"
  shows "FindSubstr str pat = Some (occurrences str pat)"
proof -
  have len: "length pat < 2 ^ 31 - 1" "to_i32 (int (length str)) = int (length str)" using assms(2) by (simp_all add: to_i32_id)
  obtain nxt where "FindSubstr str pat = kmp_search str pat (int (length str)) (int (length pat)) nxt 0 0 []" "table_upto pat nxt (int (length pat))"
    using FindSubstr_table [OF len(1), of str] unfolding len(2) by blast
  moreover have "search_inv str pat 0 0 []"
    by (auto simp: search_inv_def found_def)
  ultimately show ?thesis using kmp_search_ok [OF _ assms, of _ 0 0 "[]"] by simp
qed

section \<open>Properties\<close>

text \<open>
  Property C13. \<open>FindSubstr\<close> ends, reads no uninitialised or out-of-range entry of its table, and
  returns every position at which the pattern occurs, overlapping ones included, in increasing
  order. The pattern has no zero byte, and the lengths of string and pattern add up to less than \<open>2 ^ 31 - 1\<close>, so that the
  indices of type \<open>int\<close> do not overflow.
\<close>

theorem FindSubstr_finds_all:
  assumes "NUL \<notin> set pat" and "length str + length pat < 2 ^ 31 - 1"
  shows "FindSubstr str pat = Some (occurrences str pat)"
  using assms by (rule FindSubstr_eq)

theorem FindSubstr_finds_all_witness:
  "FindSubstr ''abababa'' ''aba'' = Some [0, 2, 4]"
  using FindSubstr_finds_all [of "''aba''" "''abababa''"]
  by (simp add: occurrences_def occurs_at_def)

lemmas FindSubstr_eval = FindSubstr_def build_next.simps next_fallback.simps kmp_search.simps
  str_eq_at_def str_at_def arr_get_def arr_set_def i32_val_def to_i32_id Let_def

text \<open>
  A pattern with a zero byte can lose occurrences: the table entry behind the last
  character is computed by comparing with the terminating zero of the string, so the search jumps
  too far after a match.
\<close>

theorem FindSubstr_misses_zero_byte:
  "FindSubstr [NUL, NUL] [NUL] = Some [0] \<and> occurrences [NUL, NUL] [NUL] = [0, 1]"
  by (simp add: FindSubstr_eval occurrences_def occurs_at_def)

text \<open>In a string of \<open>2 ^ 31\<close> bytes or more nothing is found, because its length is negative as an \<open>int\<close>.\<close>

theorem FindSubstr_long_string:
  assumes "2 ^ 31 \<le> length str" and "length str < 2 ^ 32" and "length pat < 2 ^ 31 - 1"
  shows "FindSubstr str pat = Some []"
proof -
  have wrap: "(4294967296 :: u32) = 0" by simp
  have "to_i32 (int (length str)) = to_i32 (int (length str) - 2 ^ 32)" by (simp add: to_i32_def wrap)
  also have "\<dots> = int (length str) - 2 ^ 32" using assms(1,2) by (intro to_i32_id) simp_all
  finally have neg: "to_i32 (int (length str)) < 0" using assms(2) by simp
  obtain nxt where "FindSubstr str pat = kmp_search str pat (to_i32 (int (length str))) (int (length pat)) nxt 0 0 []"
    using FindSubstr_table [OF assms(3), of str] by blast
  then show ?thesis using assms(3) neg by (simp add: kmp_search.simps i32_val_def)
qed

end
