(* ===== verification/Wire_Codec.thy ===== *)
theory Wire_Codec
  imports Byte_Buffer
begin

text \<open>
  \<^verbatim>\<open>ladder/src/codec/Codec.cpp\<close>: the length-and-checksum framing of messages. A packet is a header of
  eight bytes (the packet's length and the checksum of its payload, both in network order) and
  the payload. \<open>Encapsulate\<close> builds one, \<open>Decapsulate\<close> takes one off a buffer, and \<open>OnMessage\<close>
  handles packets until \<open>Decapsulate\<close> returns false.

  Parameters: zlib's \<open>crc32\<close> (called with \<open>Z_NULL\<close>, here \<open>None\<close>, for the initial value), and the
  virtual methods \<open>ComposeMessage\<close>, \<open>ParseMessage\<close> and \<open>HandleMessage\<close> a subclass overrides. The
  state that handlers change is a type variable.
\<close>

section \<open>The model\<close>

type_synonym crc_fn = "u32 \<Rightarrow> string option \<Rightarrow> u32"

definition kHeaderLength :: nat where
  "kHeaderLength = 4 + 4"

text \<open>The checksum both directions compute over the payload.\<close>

definition payload_checksum :: "crc_fn \<Rightarrow> string \<Rightarrow> u32" where
  "payload_checksum crc32 raw_data = crc32 (crc32 0 None) (Some raw_data)"

definition Encapsulate :: "crc_fn \<Rightarrow> byte_order \<Rightarrow> ('m \<Rightarrow> string res) \<Rightarrow> 'm \<Rightarrow> string res" where
  "Encapsulate crc32 e ComposeMessage message =
     (case ComposeMessage message of
        Inl x \<Rightarrow> Inl x
      | Inr raw_data \<Rightarrow>
         (let len = htonl e (to_u32 (kHeaderLength + length raw_data));
              checksum = htonl e (payload_checksum crc32 raw_data);
              header_str = memcpy_u32 e len @ memcpy_u32 e checksum
          in Inr (header_str @ raw_data)))"

text \<open>
  The result is the payload, or \<open>None\<close> for the return value false, and the buffer. A length field
  below the header's length makes \<open>buf.size() - kHeaderLength\<close> wrap around, and \<open>crc32\<close> then reads
  past the end of \<open>buf\<close>.
\<close>

definition Decapsulate ::
  "crc_fn \<Rightarrow> byte_order \<Rightarrow> buffer \<Rightarrow> (string option \<times> buffer) res" where
  "Decapsulate crc32 e b =
     (if unat (ReadableBytes b) < kHeaderLength then Inr (None, b)
      else
       (case PeekUInt32 e b of
          Inl x \<Rightarrow> Inl x
        | Inr v \<Rightarrow>
           (let len = ntohl e v in
            if ReadableBytes b < len then Inr (None, b)
            else
             (case Buffer_Peek (unat len) b of
                Inl x \<Rightarrow> Inl x
              | Inr (_, buf) \<Rightarrow>
                 (let b' = HaveRead (unat len) b in
                  if length buf < kHeaderLength then Inl (UB ''Codec::Decapsulate'')
                  else
                   (case u32_memcpy e (drop 4 (c_str buf)) of
                      Inl x \<Rightarrow> Inl x
                    | Inr checksum \<Rightarrow>
                       if ntohl e checksum \<noteq> payload_checksum crc32 (drop kHeaderLength buf)
                       then Inr (None, b')
                       else Inr (Some (drop kHeaderLength buf), b')))))))"

text \<open>\<open>ParseMessage\<close> gives \<open>None\<close> when it returns false or leaves a null pointer.\<close>

definition ParseAndHandleMessage ::
  "(string \<Rightarrow> 's \<Rightarrow> ('m option \<times> 's) res) \<Rightarrow> ('m \<Rightarrow> 's \<Rightarrow> 's res) \<Rightarrow> string \<Rightarrow> 's \<Rightarrow> 's res" where
  "ParseAndHandleMessage ParseMessage HandleMessage packet s =
     (case ParseMessage packet s of
        Inl x \<Rightarrow> Inl x
      | Inr (None, s') \<Rightarrow> Inr s'
      | Inr (Some message, s') \<Rightarrow> HandleMessage message s')"

partial_function (option) OnMessage ::
  "crc_fn \<Rightarrow> byte_order \<Rightarrow> (string \<Rightarrow> 's \<Rightarrow> 's res) \<Rightarrow> buffer \<Rightarrow> 's \<Rightarrow> ('s \<times> buffer) res option" where
  "OnMessage crc32 e handle b s =
     (case Decapsulate crc32 e b of
        Inl x \<Rightarrow> Some (Inl x)
      | Inr pb \<Rightarrow>
         (case fst pb of
            None \<Rightarrow> Some (Inr (s, snd pb))
          | Some packet \<Rightarrow>
             (case handle packet s of
                Inl x \<Rightarrow> Some (Inl x)
              | Inr s' \<Rightarrow> OnMessage crc32 e handle (snd pb) s')))"

section \<open>The contract of a framing\<close>

text \<open>
  A framing cuts the first message off a string of bytes, if the string holds one completely.
  What follows the message has no influence on it, and a message takes at least one byte.
\<close>

locale framing =
  fixes first_frame :: "string \<Rightarrow> (string \<times> string) option"
  assumes frame_stable: "first_frame s = Some (m, r) \<Longrightarrow> first_frame (s @ t) = Some (m, r @ t)"
    and frame_shorter: "first_frame s = Some (m, r) \<Longrightarrow> length r < length s"
begin

function frames :: "string \<Rightarrow> string list \<times> string" where
  "frames s = (case first_frame s of
      None \<Rightarrow> ([], s)
    | Some (m, r) \<Rightarrow> (m # fst (frames r), snd (frames r)))"
  by pat_completeness auto
termination
  by (relation "measure length") (auto dest: frame_shorter)

declare frames.simps [simp del]

lemma frames_None: "first_frame s = None \<Longrightarrow> frames s = ([], s)"
  by (subst frames.simps) simp

lemma frames_Some: "first_frame s = Some (m, r) \<Longrightarrow> frames s = (m # fst (frames r), snd (frames r))"
  by (subst frames.simps) simp

lemma frames_rest: "first_frame (snd (frames s)) = None"
proof (induction s rule: frames.induct)
  case (1 s)
  show ?case
  proof (cases "first_frame s")
    case None
    then show ?thesis by (simp add: frames_None)
  next
    case (Some mr)
    then show ?thesis using 1 by (cases mr) (simp add: frames_Some)
  qed
qed

text \<open>Cutting a stream in two places gives the same messages and the same rest as cutting it once.\<close>

lemma frames_append:
  "frames (s @ t) =
     (fst (frames s) @ fst (frames (snd (frames s) @ t)), snd (frames (snd (frames s) @ t)))"
proof (induction s rule: frames.induct)
  case (1 s)
  show ?case
  proof (cases "first_frame s")
    case None
    then show ?thesis by (simp add: frames_None)
  next
    case (Some mr)
    then obtain m r where mr: "first_frame s = Some (m, r)" by (cases mr) auto
    then show ?thesis
      using 1 frame_stable [OF mr, of t] by (simp add: frames_Some [OF mr] frames_Some)
  qed
qed

text \<open>Feeding the chunks of a stream one at a time, with the rest of one round carried into the
  next, gives the messages of the whole stream.\<close>

fun feed :: "string list \<Rightarrow> string \<Rightarrow> string list \<times> string" where
  "feed [] r = ([], r)"
| "feed (c # cs) r = (let (ms, r') = frames (r @ c); (ms', r'') = feed cs r' in (ms @ ms', r''))"

lemma feed_frames:
  assumes "first_frame r = None"
  shows "feed cs r = frames (r @ concat cs)"
  using assms
proof (induction cs arbitrary: r)
  case Nil
  then show ?case by (simp add: frames_None)
next
  case (Cons c cs)
  have "feed cs (snd (frames (r @ c))) = frames (snd (frames (r @ c)) @ concat cs)"
    by (rule Cons.IH [OF frames_rest])
  then show ?case
    using frames_append [of "r @ c" "concat cs"] by (simp add: case_prod_unfold Let_def)
qed

end

section \<open>The wire format\<close>

text \<open>
  The bytes of a packet, without reference to the host: the length and the checksum in network
  order, and the payload. \<open>wire_frame\<close> reads one packet off a string.
\<close>

definition wire_packet :: "crc_fn \<Rightarrow> string \<Rightarrow> string" where
  "wire_packet crc32 raw =
     u32_be_bytes (to_u32 (kHeaderLength + length raw)) @ u32_be_bytes (payload_checksum crc32 raw) @ raw"

definition u32_of_be :: "string \<Rightarrow> u32" where
  "u32_of_be s = u32_of_le_bytes (rev (take 4 s))"

abbreviation wire_length :: "string \<Rightarrow> nat" where
  "wire_length s \<equiv> unat (u32_of_be s)"

text \<open>More bytes have to arrive before the first packet of the string can be cut off.\<close>

definition incomplete :: "string \<Rightarrow> bool" where
  "incomplete s \<longleftrightarrow> length s < kHeaderLength \<or> length s < wire_length s"

definition checksum_ok :: "crc_fn \<Rightarrow> string \<Rightarrow> bool" where
  "checksum_ok crc32 s \<longleftrightarrow>
     u32_of_be (drop 4 s) = payload_checksum crc32 (drop kHeaderLength (take (wire_length s) s))"

definition wire_frame :: "crc_fn \<Rightarrow> string \<Rightarrow> (string \<times> string) option" where
  "wire_frame crc32 s =
     (if incomplete s \<or> wire_length s < kHeaderLength \<or> \<not> checksum_ok crc32 s then None
      else Some (drop kHeaderLength (take (wire_length s) s), drop (wire_length s) s))"

lemma length_wire_packet [simp]: "length (wire_packet crc32 raw) = 8 + length raw"
  by (simp add: wire_packet_def)

lemma u32_of_be_bytes [simp, bytes_simps]: "u32_of_be (u32_be_bytes w @ s) = w"
  by (simp add: u32_of_be_def u32_be_bytes_def)

lemma u32_of_be_append [simp]: "4 \<le> length s \<Longrightarrow> u32_of_be (s @ t) = u32_of_be s"
  by (simp add: u32_of_be_def)

lemma u32_memcpy_of_be:
  assumes "4 \<le> length s"
  shows "u32_memcpy e s = Inr (htonl e (u32_of_be s))"
proof -
  have "u32_memcpy e s = u32_memcpy e (u32_be_bytes (u32_of_be s) @ drop 4 s)"
    using assms by (simp add: u32_of_be_def u32_be_bytes_inverse)
  then show ?thesis by simp
qed

text \<open>On every host, \<open>Encapsulate\<close> gives the bytes of the wire format.\<close>

lemma Encapsulate_wire [simp]:
  "Encapsulate crc32 e ComposeMessage m = map_sum id (wire_packet crc32) (ComposeMessage m)"
  by (simp add: Encapsulate_def wire_packet_def Let_def split: sum.split)

lemma wire_length_packet:
  "length raw + 8 < 2 ^ 32 \<Longrightarrow> wire_length (wire_packet crc32 raw @ t) = 8 + length raw"
  by (simp add: wire_packet_def kHeaderLength_def unat_to_u32 del: of_nat_add of_nat_numeral)

lemma wire_frame_packet:
  assumes "length raw + 8 < 2 ^ 32"
  shows "wire_frame crc32 (wire_packet crc32 raw @ t) = Some (raw, t)"
  using wire_length_packet [OF assms, of crc32 t] length_wire_packet [of crc32 raw]
  by (simp add: wire_frame_def incomplete_def checksum_ok_def kHeaderLength_def)
    (simp add: wire_packet_def)

lemma wire_frame_SomeD:
  assumes "wire_frame crc32 s = Some (m, r)"
  shows "s = wire_packet crc32 m @ r" and "length m + 8 < 2 ^ 32"
proof -
  let ?n = "wire_length s"
  from assms have n: "8 \<le> ?n" "?n \<le> length s" and m: "m = drop 8 (take ?n s)" and r: "r = drop ?n s"
    and cs: "u32_of_be (drop 4 s) = payload_checksum crc32 m"
    by (auto simp: wire_frame_def incomplete_def checksum_ok_def kHeaderLength_def split: if_splits)
  have lm: "length m + 8 = ?n" using n m by simp
  then show "length m + 8 < 2 ^ 32" using unat_u32_less [of "u32_of_be s"] by simp
  have "u32_be_bytes (u32_of_be s) = take 4 s" "u32_be_bytes (u32_of_be (drop 4 s)) = take 4 (drop 4 s)"
    unfolding u32_of_be_def using n by (auto intro!: u32_be_bytes_inverse)
  moreover have "to_u32 (8 + length m) = u32_of_be s"
    using arg_cong [OF lm, of to_u32] by (simp add: add.commute)
  ultimately have "wire_packet crc32 m @ r = take 4 s @ take 4 (drop 4 s) @ m @ r"
    using cs by (simp add: wire_packet_def kHeaderLength_def del: of_nat_add)
  also have "\<dots> = take 4 s @ take 4 (drop 4 s) @ drop 8 s"
    using n m r by (metis append_take_drop_id drop_append diff_is_0_eq drop_0 length_take min.absorb2)
  also have "\<dots> = s"
    by (metis append_take_drop_id drop_drop numeral_Bit0)
  finally show "s = wire_packet crc32 m @ r" by simp
qed

lemma wire_frame_iff:
  "wire_frame crc32 s = Some (m, r) \<longleftrightarrow> s = wire_packet crc32 m @ r \<and> length m + 8 < 2 ^ 32"
  using wire_frame_SomeD [of crc32 s m r] wire_frame_packet [of m crc32 r] by auto

interpretation wire: framing "wire_frame crc32" for crc32 :: crc_fn
  by unfold_locales (auto simp: wire_frame_iff)

text \<open>A complete packet that is no frame stays one when more bytes arrive.\<close>

lemma corrupt_stable:
  assumes "wire_frame crc32 s = None" and "\<not> incomplete s"
  shows "wire_frame crc32 (s @ t) = None" and "\<not> incomplete (s @ t)"
proof -
  have n: "8 \<le> length s" "wire_length (s @ t) = wire_length s" "wire_length s \<le> length s"
    using assms(2) by (auto simp: incomplete_def kHeaderLength_def)
  then show "\<not> incomplete (s @ t)"
    by (simp add: incomplete_def kHeaderLength_def)
  show "wire_frame crc32 (s @ t) = None"
    using assms n by (auto simp: wire_frame_def checksum_ok_def split: if_splits)
qed

lemma frames_packets:
  assumes "\<forall>m\<in>set ms. length m + 8 < 2 ^ 32" and "wire_frame crc32 rest = None"
  shows "wire.frames crc32 (concat (map (wire_packet crc32) ms) @ rest) = (ms, rest)"
  using assms(1)
proof (induction ms)
  case Nil
  then show ?case by (simp add: wire.frames_None assms(2))
next
  case (Cons m ms)
  then show ?case
    by (simp add: wire.frames_Some [of _ _ m "concat (map (wire_packet crc32) ms) @ rest"] wire_frame_iff)
qed

section \<open>Taking packets off a buffer\<close>

text \<open>The behaviour of \<open>Decapsulate\<close> on every branch, over the content of the buffer.\<close>

lemma Decapsulate_spec:
  assumes "buffer_ok b"
  shows "Decapsulate crc32 e b =
     (if incomplete (content b) then Inr (None, b)
      else if wire_length (content b) < kHeaderLength then Inl (UB ''Codec::Decapsulate'')
      else Inr (map_option fst (wire_frame crc32 (content b)), HaveRead (wire_length (content b)) b))"
proof (cases "length (content b) < 8")
  case True
  then show ?thesis
    using length_content [OF assms] by (simp add: Decapsulate_def incomplete_def kHeaderLength_def)
next
  case False
  let ?c = "content b" and ?n = "wire_length (content b)"
  have "PeekUInt32 e b = Inr (htonl e (u32_of_be ?c))"
    using False by (simp add: PeekUInt32_def Buffer_Peek_ok [OF assms] u32_memcpy_of_be c_str_def)
      (simp add: u32_of_be_def)
  moreover have "ReadableBytes b < u32_of_be ?c \<longleftrightarrow> length ?c < ?n"
    by (simp add: word_less_nat_alt length_content [OF assms])
  moreover have "Buffer_Peek ?n b = Inr (min (u32_of_be ?c) (ReadableBytes b), take ?n ?c)"
    using Buffer_Peek_ok [OF assms, of ?n] unat_u32_less [of "u32_of_be ?c"] by simp
  moreover have "\<not> ?n < 8 \<Longrightarrow> ?n \<le> length ?c \<Longrightarrow>
      u32_memcpy e (drop 4 (c_str (take ?n ?c))) = Inr (htonl e (u32_of_be (drop 4 ?c)))"
    by (simp add: u32_memcpy_of_be c_str_def) (simp add: u32_of_be_def take_drop)
  ultimately show ?thesis
    using False length_content [OF assms]
    by (auto simp: Decapsulate_def incomplete_def kHeaderLength_def wire_frame_def checksum_ok_def
        Let_def split: sum.split)
qed

lemma HaveRead_wire_length:
  assumes "buffer_ok b"
  shows "content (HaveRead (wire_length s) b) = drop (wire_length s) (content b)"
  using HaveRead_ok(2) [OF assms, of "wire_length s"] unat_u32_less [of "u32_of_be s"] by simp

text \<open>One turn of the loop for each packet at the front of the buffer.\<close>

lemma OnMessage_frames:
  assumes "buffer_ok b" and "incomplete (snd (wire.frames crc32 (content b)))"
    and "\<forall>m\<in>set (fst (wire.frames crc32 (content b))). \<forall>s. handle m s = Inr (h m s)"
  shows "\<exists>b'. OnMessage crc32 e handle b s
        = Some (Inr (fold h (fst (wire.frames crc32 (content b))) s, b')) \<and>
     buffer_ok b' \<and> content b' = snd (wire.frames crc32 (content b)) \<and> (\<forall>n. room b n \<longrightarrow> room b' n)"
  using assms
proof (induction "length (content b)" arbitrary: b s rule: less_induct)
  case less
  show ?case
  proof (cases "wire_frame crc32 (content b)")
    case None
    then show ?thesis
      using less.prems
      by (simp add: OnMessage.simps [of crc32 e _ b] wire.frames_None Decapsulate_spec)
  next
    case (Some mr)
    then obtain m r where mr: "wire_frame crc32 (content b) = Some (m, r)" by (cases mr) auto
    let ?b = "HaveRead (wire_length (content b)) b"
    have nf: "\<not> incomplete (content b)" "\<not> wire_length (content b) < kHeaderLength"
      and r: "r = drop (wire_length (content b)) (content b)"
      using mr by (auto simp: wire_frame_def split: if_splits)
    have b: "buffer_ok ?b" "content ?b = r" "\<And>n. room b n \<Longrightarrow> room ?b n"
      using HaveRead_ok(1) HaveRead_wire_length HaveRead_room r less.prems(1) by auto
    have unf: "OnMessage crc32 e handle b s = OnMessage crc32 e handle ?b (h m s)"
      using nf mr less.prems(1,3)
      by (subst OnMessage.simps) (simp add: Decapsulate_spec wire.frames_Some [OF mr])
    have "length r < length (content b)"
      by (rule wire.frame_shorter [OF mr])
    moreover have "incomplete (snd (wire.frames crc32 r))"
      using less.prems(2) by (simp add: wire.frames_Some [OF mr])
    ultimately show ?thesis
      using less.hyps [of ?b "h m s"] less.prems(3) b unfolding unf by (auto simp: wire.frames_Some [OF mr])
  qed
qed

text \<open>
  A connection appends what arrives to its read buffer and calls \<open>OnMessage\<close>, once per chunk.
\<close>

fun deliver :: "crc_fn \<Rightarrow> byte_order \<Rightarrow> (string \<Rightarrow> 's \<Rightarrow> 's res) \<Rightarrow> string list \<Rightarrow> buffer \<Rightarrow> 's
    \<Rightarrow> ('s \<times> buffer) res option" where
  "deliver crc32 e handle [] b s = Some (Inr (s, b))"
| "deliver crc32 e handle (c # cs) b s =
     (case Buffer_Write c b of
        Inl x \<Rightarrow> Some (Inl x)
      | Inr b' \<Rightarrow>
         (case OnMessage crc32 e handle b' s of
            None \<Rightarrow> None
          | Some (Inl x) \<Rightarrow> Some (Inl x)
          | Some (Inr (s', b'')) \<Rightarrow> deliver crc32 e handle cs b'' s'))"

text \<open>No prefix of a stream that ends in an incomplete packet has a corrupt one in front.\<close>

lemma frames_prefix_incomplete:
  assumes "incomplete (snd (wire.frames crc32 (s @ t)))"
  shows "incomplete (snd (wire.frames crc32 s))"
proof (rule ccontr)
  let ?r = "snd (wire.frames crc32 s)"
  assume c: "\<not> incomplete ?r"
  have "wire.frames crc32 (?r @ t) = ([], ?r @ t)"
    by (rule wire.frames_None [OF corrupt_stable(1) [OF wire.frames_rest c]])
  then have "snd (wire.frames crc32 (s @ t)) = ?r @ t"
    using wire.frames_append [of crc32 s t] by simp
  then show False
    using assms corrupt_stable(2) [OF wire.frames_rest c] by simp
qed

lemma deliver_feed:
  assumes "buffer_ok b" and "room b (length (concat cs))"
    and "wire_frame crc32 (content b) = None"
    and "incomplete (snd (wire.frames crc32 (content b @ concat cs)))"
    and "\<forall>m\<in>set (fst (wire.frames crc32 (content b @ concat cs))). \<forall>s. handle m s = Inr (h m s)"
  shows "\<exists>b'. deliver crc32 e handle cs b s
       = Some (Inr (fold h (fst (wire.feed crc32 cs (content b))) s, b')) \<and>
     buffer_ok b' \<and> content b' = snd (wire.feed crc32 cs (content b))"
  using assms
proof (induction cs arbitrary: b s)
  case Nil
  then show ?case by simp
next
  case (Cons c cs)
  have "room b (length c)"
    by (rule room_le [OF Cons.prems(2)]) simp
  from Buffer_Write_ok [OF Cons.prems(1) this] obtain b1 where b1: "Buffer_Write c b = Inr b1"
    "buffer_ok b1" "content b1 = content b @ c" "\<And>n. room b1 n \<longleftrightarrow> room b (length c + n)"
    by metis
  let ?f = "wire.frames crc32 (content b @ c)"
  have inc: "incomplete (snd ?f)"
    using Cons.prems(4) frames_prefix_incomplete [of crc32 "content b @ c" "concat cs"] by simp
  have fa: "wire.frames crc32 (content b @ concat (c # cs))
      = (fst ?f @ fst (wire.frames crc32 (snd ?f @ concat cs)), snd (wire.frames crc32 (snd ?f @ concat cs)))"
    using wire.frames_append [of crc32 "content b @ c" "concat cs"] by simp
  have "\<forall>m\<in>set (fst ?f). \<forall>s. handle m s = Inr (h m s)"
    using Cons.prems(5) fa by simp
  from OnMessage_frames [OF b1(2), unfolded b1(3), OF inc this, of e s] obtain b2 where
    b2: "OnMessage crc32 e handle b1 s = Some (Inr (fold h (fst ?f) s, b2))"
    "buffer_ok b2" "content b2 = snd ?f" "\<And>n. room b1 n \<Longrightarrow> room b2 n"
    by metis
  have "room b2 (length (concat cs))"
    using Cons.prems(2) by (intro b2(4)) (simp add: b1(4))
  moreover have "wire_frame crc32 (content b2) = None"
    by (simp add: b2(3) wire.frames_rest)
  moreover have "incomplete (snd (wire.frames crc32 (content b2 @ concat cs)))"
    using Cons.prems(4) fa by (simp add: b2(3))
  moreover have "\<forall>m\<in>set (fst (wire.frames crc32 (content b2 @ concat cs))). \<forall>s. handle m s = Inr (h m s)"
    using Cons.prems(5) fa by (simp add: b2(3))
  ultimately show ?case
    using Cons.IH [OF b2(2), of "fold h (fst ?f) s"] b1(1) b2(1,3)
    by (auto simp: case_prod_unfold Let_def)
qed

text \<open>A stream of packets and an incomplete one, arriving in any chunks.\<close>

lemma deliver_packets:
  assumes "\<forall>m\<in>set raws. length m + 8 < 2 ^ 32" and "incomplete rest"
    and "concat chunks = concat (map (wire_packet crc32) raws) @ rest"
    and "length (concat chunks) < 2 ^ 32"
    and "\<forall>m\<in>set raws. \<forall>s. handle m s = Inr (h m s)"
  shows "\<exists>b. deliver crc32 e handle chunks Buffer_new s = Some (Inr (fold h raws s, b)) \<and>
     buffer_ok b \<and> content b = rest"
proof -
  have "wire_frame crc32 rest = None"
    using assms(2) by (simp add: wire_frame_def)
  then have f: "wire.frames crc32 (concat chunks) = (raws, rest)"
    using frames_packets [OF assms(1)] assms(3) by simp
  have "wire_frame crc32 [] = None"
    by (simp add: wire_frame_def incomplete_def kHeaderLength_def)
  then show ?thesis
    using deliver_feed [of Buffer_new chunks crc32 handle h e s] wire.feed_frames [of crc32 "[]" chunks]
      f assms(2,4,5)
    by simp
qed

lemma Encapsulate_all:
  assumes "\<forall>m\<in>set ms. ComposeMessage m = Inr (payload m)"
    and "map (Encapsulate crc32 e ComposeMessage) ms = map Inr packets"
  shows "packets = map (wire_packet crc32) (map payload ms)"
  using assms
proof (induction ms arbitrary: packets)
  case Nil
  then show ?case by simp
next
  case (Cons m ms)
  then show ?case by (cases packets) auto
qed

section \<open>Properties\<close>

text \<open>A checksum to evaluate the theorems with: the sum of the bytes.\<close>

definition sample_crc :: crc_fn where
  "sample_crc c d = (case d of None \<Rightarrow> 7 | Some s \<Rightarrow> c + to_u32 (\<Sum>x\<leftarrow>s. of_char x))"

text \<open>
  Property C12. Packets survive the way through the stream however the network cuts it: when the
  chunks that arrive make up the encapsulations of some messages and an incomplete packet, the
  calls of \<open>OnMessage\<close>, one per chunk, all return, hand the payloads to the handler once each and
  in order, and leave exactly the incomplete packet in the buffer. Sender and receiver may have
  different byte orders.
\<close>

theorem codec_reassembles_stream:
  assumes "\<forall>m\<in>set ms. ComposeMessage m = Inr (payload m) \<and> length (payload m) + 8 < 2 ^ 32"
    and "map (Encapsulate crc32 e ComposeMessage) ms = map Inr packets"
    and "concat chunks = concat packets @ rest" and "incomplete rest"
    and "length (concat chunks) < 2 ^ 32"
  shows "\<exists>b. deliver crc32 e' (\<lambda>p s. Inr (h p s)) chunks Buffer_new s
       = Some (Inr (fold h (map payload ms) s, b)) \<and> buffer_ok b \<and> content b = rest"
  using deliver_packets [of "map payload ms" rest chunks crc32 "\<lambda>p s. Inr (h p s)" h e' s]
    Encapsulate_all [of ms ComposeMessage payload crc32 e packets] assms
  by simp

theorem codec_reassembles_stream_witness:
  "\<exists>b. deliver sample_crc Little_Endian (\<lambda>p s. Inr (s @ [p]))
      [take 5 (wire_packet sample_crc ''abc''),
       drop 5 (wire_packet sample_crc ''abc'') @ wire_packet sample_crc ''xyz'', ''abc'']
      Buffer_new [] = Some (Inr ([''abc'', ''xyz''], b)) \<and> buffer_ok b \<and> content b = ''abc''"
  using codec_reassembles_stream [of "[''cba'', ''zyx'']" "\<lambda>m. Inr (rev m)" rev sample_crc Big_Endian
      "[wire_packet sample_crc ''abc'', wire_packet sample_crc ''xyz'']"
      "[take 5 (wire_packet sample_crc ''abc''),
       drop 5 (wire_packet sample_crc ''abc'') @ wire_packet sample_crc ''xyz'', ''abc'']"
      "''abc''" Little_Endian "\<lambda>p s. s @ [p]" "[]"]
  by (simp add: incomplete_def kHeaderLength_def del: deliver.simps)

text \<open>
  Property C17. \<open>Decapsulate\<close> accepts exactly the strings \<open>Encapsulate\<close> makes: it gives a payload if
  and only if the buffer starts with the packet of that payload, and it then leaves what follows
  the packet.
\<close>

theorem Decapsulate_inverts_Encapsulate:
  assumes "buffer_ok b"
  shows "(\<exists>b'. Decapsulate crc32 e b = Inr (Some raw, b') \<and> content b' = rest) \<longleftrightarrow>
     (\<exists>packet. Encapsulate crc32 e' Inr raw = Inr packet \<and> content b = packet @ rest) \<and>
     length raw + 8 < 2 ^ 32"
proof -
  have "(\<exists>b'. Decapsulate crc32 e b = Inr (Some raw, b') \<and> content b' = rest) \<longleftrightarrow>
      wire_frame crc32 (content b) = Some (raw, rest)"
    using HaveRead_wire_length [OF assms, of "content b"]
    by (auto simp: Decapsulate_spec [OF assms] wire_frame_def)
  then show ?thesis by (simp add: wire_frame_iff)
qed

definition packet_buffer :: buffer where
  "packet_buffer = \<lparr>read_index = 0, write_index = 11, vec = wire_packet sample_crc ''x'' @ ''yz''\<rparr>"

lemma packet_buffer_ok: "buffer_ok packet_buffer" "content packet_buffer = wire_packet sample_crc ''x'' @ ''yz''"
  by (simp_all add: packet_buffer_def buffer_ok_def content_def)

theorem Decapsulate_inverts_Encapsulate_witness:
  "\<exists>b'. Decapsulate sample_crc Little_Endian packet_buffer = Inr (Some ''x'', b') \<and> content b' = ''yz''"
  using Decapsulate_inverts_Encapsulate [OF packet_buffer_ok(1), of sample_crc Little_Endian "''x''" "''yz''" Big_Endian]
  by (simp add: packet_buffer_ok)

text \<open>
  A complete packet whose checksum does not match is dropped without being delivered,
  and \<open>OnMessage\<close> returns at once: complete packets behind it stay in the buffer and are not
  handled by this call, whatever they are.
\<close>

theorem OnMessage_stops_at_corrupt_packet:
  assumes "buffer_ok b" and "content b = u32_be_bytes (to_u32 (8 + length raw)) @ u32_be_bytes c @ raw @ rest"
    and "length raw + 8 < 2 ^ 32" and "c \<noteq> payload_checksum crc32 raw"
  shows "\<exists>b'. OnMessage crc32 e handle b s = Some (Inr (s, b')) \<and> buffer_ok b' \<and> content b' = rest"
proof -
  have n: "wire_length (content b) = 8 + length raw"
    using assms(3) by (simp add: assms(2) unat_to_u32 del: of_nat_add of_nat_numeral)
  have "\<not> incomplete (content b)" "wire_frame crc32 (content b) = None"
    using n assms(2,4) by (simp_all add: incomplete_def wire_frame_def checksum_ok_def kHeaderLength_def)
  then show ?thesis
    using HaveRead_ok(1) [OF assms(1)] HaveRead_wire_length [OF assms(1), of "content b"] n assms(2)
    by (subst OnMessage.simps) (simp add: Decapsulate_spec [OF assms(1)] kHeaderLength_def)
qed

definition corrupt_buffer :: buffer where
  "corrupt_buffer =
     (let s = u32_be_bytes 9 @ u32_be_bytes 0 @ ''a'' @ wire_packet sample_crc ''good''
      in \<lparr>read_index = 0, write_index = 21, vec = s\<rparr>)"

lemma corrupt_buffer_ok: "buffer_ok corrupt_buffer"
  "content corrupt_buffer = u32_be_bytes 9 @ u32_be_bytes 0 @ ''a'' @ wire_packet sample_crc ''good''"
  by (simp_all add: corrupt_buffer_def buffer_ok_def content_def Let_def)

theorem OnMessage_stops_at_corrupt_packet_witness:
  "\<exists>b'. OnMessage sample_crc Little_Endian (\<lambda>p n. Inr (Suc n)) corrupt_buffer 0 = Some (Inr (0, b')) \<and>
     buffer_ok b' \<and> content b' = wire_packet sample_crc ''good''"
  using OnMessage_stops_at_corrupt_packet [OF corrupt_buffer_ok(1), of "''a''" 0
      "wire_packet sample_crc ''good''" sample_crc Little_Endian "\<lambda>p n. Inr (Suc n)" 0]
  by (simp add: corrupt_buffer_ok payload_checksum_def sample_crc_def of_char_def)

text \<open>
  Property C19. A packet whose length field is below the length of the header makes \<open>Decapsulate\<close>
  read past the end of its string: no check keeps the subtraction \<open>buf.size() - kHeaderLength\<close>
  from wrapping around.
\<close>

theorem Decapsulate_short_length_field:
  assumes "buffer_ok b" and "8 \<le> length (content b)" and "wire_length (content b) < 8"
  shows "Decapsulate crc32 e b = Inl (UB ''Codec::Decapsulate'')"
  using assms by (simp add: Decapsulate_spec incomplete_def kHeaderLength_def)

definition short_packet_buffer :: buffer where
  "short_packet_buffer = \<lparr>read_index = 0, write_index = 8, vec = u32_be_bytes 3 @ u32_be_bytes 0\<rparr>"

theorem Decapsulate_short_length_field_witness:
  "Decapsulate sample_crc Little_Endian short_packet_buffer = Inl (UB ''Codec::Decapsulate'')"
  using Decapsulate_short_length_field [of short_packet_buffer sample_crc Little_Endian]
  by (simp add: short_packet_buffer_def buffer_ok_def content_def)

end
