(* ===== verification/Protobuf_Codec.thy ===== *)
theory Protobuf_Codec
  imports Wire_Codec
begin

text \<open>
  \<^verbatim>\<open>ladder/src/codec/ProtobufCodec.cpp\<close>: the payload of a packet is the length of the message type's
  name, the name, and the serialized message. Messages are created by name, and handled by the
  callback registered for their descriptor or by the default callback.

  The protobuf library is a parameter: a value of the record \<open>protobuf\<close> over arbitrary types of
  messages and descriptors. The state counts the message objects that are allocated, so that
  leaks can be stated; the rest of it is the application's.
\<close>

section \<open>The model\<close>

record ('m, 'd) protobuf =
  GetTypeName :: "'m \<Rightarrow> string"
  SerializeAsString :: "'m \<Rightarrow> string"
  FindMessageTypeByName :: "string \<Rightarrow> 'd option"
  GetPrototype :: "'d \<Rightarrow> 'm option"
  New :: "'m \<Rightarrow> 'm"
  ParseFromString :: "'m \<Rightarrow> string \<Rightarrow> 'm option"
  GetDescriptor :: "'m \<Rightarrow> 'd"

record 's pb_state =
  live_messages :: int
  app :: 's

text \<open>A \<open>std::function\<close> may be empty: \<open>None\<close>. Calling an empty one throws.\<close>

type_synonym ('m, 's) pb_callback = "('m \<Rightarrow> 's \<Rightarrow> 's) option"

record ('m, 'd, 's) protobuf_codec =
  callbacks :: "'d \<rightharpoonup> ('m, 's) pb_callback"
  default_callback :: "('m, 's) pb_callback"

definition ProtobufCodec_new :: "('m, 'd, 's) protobuf_codec" where
  "ProtobufCodec_new = \<lparr>callbacks = Map.empty, default_callback = None\<rparr>"

definition kMinMessageLength :: u32 where
  "kMinMessageLength = 4"

definition CreateMessage :: "('m, 'd) protobuf \<Rightarrow> string \<Rightarrow> 'm option" where
  "CreateMessage pb type_name =
     (case FindMessageTypeByName pb type_name of
        None \<Rightarrow> None
      | Some descriptor \<Rightarrow>
         (case GetPrototype pb descriptor of
            None \<Rightarrow> None
          | Some prototype \<Rightarrow> Some (New pb prototype)))"

definition ComposeMessage :: "('m, 'd) protobuf \<Rightarrow> byte_order \<Rightarrow> 'm \<Rightarrow> string res" where
  "ComposeMessage pb e message =
     (let message_type_name = GetTypeName pb message in
      case WriteUInt32 e (htonl e (to_u32 (length message_type_name))) Buffer_new of
        Inl x \<Rightarrow> Inl x
      | Inr b1 \<Rightarrow>
         (case Buffer_Write message_type_name b1 of
            Inl x \<Rightarrow> Inl x
          | Inr b2 \<Rightarrow>
             (case Buffer_Write (SerializeAsString pb message) b2 of
                Inl x \<Rightarrow> Inl x
              | Inr b3 \<Rightarrow> map_sum id fst (Buffer_ReadAll b3))))"

text \<open>
  The sum \<open>message_type_name_length + kMinMessageLength\<close> of two \<open>uint32_t\<close> wraps around; the
  position \<open>sizeof(...) + message_type_name_length\<close> is a \<open>size_t\<close> and does not. When
  \<open>ParseFromString\<close> fails the created object is not deleted.
\<close>

definition ParseMessage ::
  "('m, 'd) protobuf \<Rightarrow> byte_order \<Rightarrow> string \<Rightarrow> 's pb_state \<Rightarrow> ('m option \<times> 's pb_state) res" where
  "ParseMessage pb e packet s =
     (if length packet < unat kMinMessageLength then Inr (None, s)
      else
       (case u32_memcpy e (c_str packet) of
          Inl x \<Rightarrow> Inl x
        | Inr v \<Rightarrow>
           (let message_type_name_length = ntohl e v in
            if length packet < unat (message_type_name_length + kMinMessageLength) then Inr (None, s)
            else
             (case std_substr packet 4 (unat message_type_name_length) of
                Inl x \<Rightarrow> Inl x
              | Inr message_type_name \<Rightarrow>
                 (case CreateMessage pb message_type_name of
                    None \<Rightarrow> Inr (None, s)
                  | Some message_proto \<Rightarrow>
                     (let s' = s\<lparr>live_messages := live_messages s + 1\<rparr>;
                          message_buffer_len =
                            to_u32 (length packet) - kMinMessageLength - message_type_name_length in
                      case std_substr packet (4 + unat message_type_name_length) (unat message_buffer_len) of
                        Inl x \<Rightarrow> Inl x
                      | Inr message_buffer \<Rightarrow>
                         Inr (ParseFromString pb message_proto message_buffer, s')))))))"

definition HandleMessage ::
  "('m, 'd) protobuf \<Rightarrow> ('m, 'd, 's) protobuf_codec \<Rightarrow> 'm \<Rightarrow> 's pb_state \<Rightarrow> 's pb_state res" where
  "HandleMessage pb codec message s =
     (let deleted = (\<lambda>s. s\<lparr>live_messages := live_messages s - 1\<rparr>) in
      case callbacks codec (GetDescriptor pb message) of
        Some (Some callback) \<Rightarrow> Inr (deleted (s\<lparr>app := callback message (app s)\<rparr>))
      | Some None \<Rightarrow> Inr (deleted s)
      | None \<Rightarrow>
         (case default_callback codec of
            None \<Rightarrow> Inl (Throw ''std::bad_function_call'')
          | Some callback \<Rightarrow> Inr (deleted (s\<lparr>app := callback message (app s)\<rparr>))))"

definition RegisterDefaultMessageCallback ::
  "('m, 's) pb_callback \<Rightarrow> ('m, 'd, 's) protobuf_codec \<Rightarrow> ('m, 'd, 's) protobuf_codec" where
  "RegisterDefaultMessageCallback callback codec = codec\<lparr>default_callback := callback\<rparr>"

definition RegisterMessageCallback ::
  "'d \<Rightarrow> ('m, 's) pb_callback \<Rightarrow> ('m, 'd, 's) protobuf_codec \<Rightarrow> ('m, 'd, 's) protobuf_codec" where
  "RegisterMessageCallback descriptor callback codec =
     codec\<lparr>callbacks := (callbacks codec)(descriptor \<mapsto> callback)\<rparr>"

text \<open>The handler \<open>Codec::OnMessage\<close> calls for a packet.\<close>

definition pb_handle ::
  "('m, 'd) protobuf \<Rightarrow> byte_order \<Rightarrow> ('m, 'd, 's) protobuf_codec \<Rightarrow> string \<Rightarrow> 's pb_state \<Rightarrow> 's pb_state res" where
  "pb_handle pb e codec = ParseAndHandleMessage (ParseMessage pb e) (HandleMessage pb codec)"

section \<open>Documented behaviour of protobuf\<close>

text \<open>
  What the codec relies on for a message: its type is found by its name and has a prototype, and
  the bytes of \<open>SerializeAsString\<close> parse into a fresh object equal to it.
\<close>

definition pb_serializable :: "('m, 'd) protobuf \<Rightarrow> 'm \<Rightarrow> bool" where
  "pb_serializable pb m \<longleftrightarrow>
     (\<exists>proto. FindMessageTypeByName pb (GetTypeName pb m) = Some (GetDescriptor pb m) \<and>
        GetPrototype pb (GetDescriptor pb m) = Some proto \<and>
        ParseFromString pb (New pb proto) (SerializeAsString pb m) = Some m)"

definition pb_payload :: "('m, 'd) protobuf \<Rightarrow> 'm \<Rightarrow> string" where
  "pb_payload pb m = u32_be_bytes (to_u32 (length (GetTypeName pb m))) @ GetTypeName pb m @ SerializeAsString pb m"

lemma ComposeMessage_payload:
  assumes "length (pb_payload pb m) < 2 ^ 32"
  shows "ComposeMessage pb e m = Inr (pb_payload pb m)"
proof -
  let ?t = "GetTypeName pb m" and ?d = "SerializeAsString pb m"
  have le: "4 + (length ?t + length ?d) < 2 ^ 32"
    using assms by (simp add: pb_payload_def)
  have "room Buffer_new (length (memcpy_u32 e (htonl e (to_u32 (length ?t)))))" by simp
  from Buffer_Write_ok [OF buffer_ok_new this] obtain b1 where
    b1: "WriteUInt32 e (htonl e (to_u32 (length ?t))) Buffer_new = Inr b1" "buffer_ok b1"
    "content b1 = u32_be_bytes (to_u32 (length ?t))" "\<And>n. room b1 n \<longleftrightarrow> 4 + n < 2 ^ 32"
    unfolding WriteUInt32_def by (metis append_Nil content_new length_memcpy_u32 memcpy_u32_htonl room_new)
  from Buffer_Write_ok [OF b1(2), of ?t] obtain b2 where
    b2: "Buffer_Write ?t b1 = Inr b2" "buffer_ok b2" "content b2 = content b1 @ ?t"
    "\<And>n. room b2 n \<longleftrightarrow> room b1 (length ?t + n)"
    using le b1(4) by (metis add_lessD1 add.assoc)
  from Buffer_Write_ok [OF b2(2), of ?d] obtain b3 where
    b3: "Buffer_Write ?d b2 = Inr b3" "buffer_ok b3" "content b3 = content b2 @ ?d"
    using le b1(4) b2(4) by metis
  show ?thesis
    using b1(1,3) b2(1,3) b3(1,3) Buffer_ReadAll_eq [OF b3(2)]
    by (simp add: ComposeMessage_def pb_payload_def Let_def)
qed

text \<open>A packet whose name length does not exceed it: the name and the data behind it.\<close>

lemma ParseMessage_fields:
  assumes "length name < 2 ^ 32 - 4" and "4 + length name + length data < 2 ^ 32"
  shows "ParseMessage pb e (u32_be_bytes (to_u32 (length name)) @ name @ data) s =
     (case CreateMessage pb name of
        None \<Rightarrow> Inr (None, s)
      | Some m \<Rightarrow> Inr (ParseFromString pb m data, s\<lparr>live_messages := live_messages s + 1\<rparr>))"
proof -
  let ?p = "u32_be_bytes (to_u32 (length name)) @ name @ data"
  have n: "unat (to_u32 (length name)) = length name"
    using assms(1) by (simp add: unat_to_u32)
  have n4: "unat (to_u32 (length name) + 4) = length name + 4"
    using assms n by (simp add: unat_word_ariths)
  have "to_u32 (length ?p) - 4 - to_u32 (length name) = to_u32 (length data)"
    by simp
  then have d: "unat (to_u32 (length ?p) - 4 - to_u32 (length name)) = length data"
    using assms(2) by (simp only:) (simp add: unat_to_u32)
  have "u32_memcpy e (c_str ?p) = Inr (htonl e (to_u32 (length name)))"
    by (simp add: c_str_def)
  then show ?thesis
    using n n4 d
    by (simp add: ParseMessage_def kMinMessageLength_def std_substr_def Let_def split: option.split)
qed

text \<open>The callback that a message reaches: the one registered for its descriptor (nothing happens
  when that one is empty), else the default one.\<close>

definition pb_dispatch :: "('m, 'd) protobuf \<Rightarrow> ('m, 'd, 's) protobuf_codec \<Rightarrow> 'm \<Rightarrow> ('s \<Rightarrow> 's) option" where
  "pb_dispatch pb codec m =
     (case callbacks codec (GetDescriptor pb m) of
        Some cb \<Rightarrow> Some (case cb of None \<Rightarrow> id | Some f \<Rightarrow> f m)
      | None \<Rightarrow> map_option (\<lambda>f. f m) (default_callback codec))"

lemma HandleMessage_dispatch:
  "HandleMessage pb codec m s =
     (case pb_dispatch pb codec m of
        None \<Rightarrow> Inl (Throw ''std::bad_function_call'')
      | Some f \<Rightarrow> Inr (s\<lparr>live_messages := live_messages s - 1, app := f (app s)\<rparr>))"
  by (auto simp: HandleMessage_def pb_dispatch_def split: option.split)

definition pb_sendable :: "('m, 'd) protobuf \<Rightarrow> 'm \<Rightarrow> bool" where
  "pb_sendable pb m \<longleftrightarrow> pb_serializable pb m \<and> length (pb_payload pb m) + 8 < 2 ^ 32"

lemma ParseMessage_payload:
  assumes "pb_sendable pb m"
  shows "ParseMessage pb e (pb_payload pb m) s = Inr (Some m, s\<lparr>live_messages := live_messages s + 1\<rparr>)"
proof -
  have "4 + length (GetTypeName pb m) + length (SerializeAsString pb m) + 8 < 2 ^ 32"
    using assms by (simp add: pb_sendable_def pb_payload_def)
  then show ?thesis
    using assms ParseMessage_fields [of "GetTypeName pb m" "SerializeAsString pb m" pb e s]
    by (auto simp: pb_payload_def CreateMessage_def pb_sendable_def pb_serializable_def)
qed

lemma pb_handle_payload:
  assumes "pb_sendable pb m" and "pb_dispatch pb codec m = Some (f m)"
  shows "pb_handle pb e codec (pb_payload pb m) s = Inr (s\<lparr>app := f m (app s)\<rparr>)"
  using assms
  by (simp add: pb_handle_def ParseAndHandleMessage_def ParseMessage_payload HandleMessage_dispatch)

lemma fold_pb_handle:
  assumes "\<forall>m\<in>set ms. pb_sendable pb m \<and> pb_dispatch pb codec m = Some (f m)"
  shows "fold (\<lambda>p s. projr (pb_handle pb e codec p s)) (map (pb_payload pb) ms) s = s\<lparr>app := fold f ms (app s)\<rparr>"
  using assms by (induction ms arbitrary: s) (simp_all add: pb_handle_payload)

section \<open>Properties\<close>

text \<open>A message library to evaluate the theorems with: one message type, whose messages are their
  own serializations; the string \<open>!\<close> does not parse.\<close>

definition sample_pb :: "(string, unit) protobuf" where
  "sample_pb = \<lparr>GetTypeName = (\<lambda>_. ''T''), SerializeAsString = id,
     FindMessageTypeByName = (\<lambda>n. if n = ''T'' then Some () else None), GetPrototype = (\<lambda>_. Some []),
     New = id, ParseFromString = (\<lambda>_ d. if d = ''!'' then None else Some d), GetDescriptor = (\<lambda>_. ())\<rparr>"

definition sample_codec :: "(string, unit, string list) protobuf_codec" where
  "sample_codec = RegisterMessageCallback () (Some (\<lambda>m ms. ms @ [m])) ProtobufCodec_new"

text \<open>
  Property C14. Protobuf messages arrive: when the packets \<open>Encapsulate\<close> makes of some messages come
  in over a stream in any chunks, every message reaches the callback registered for its type (or
  the default callback) once, in the order they were sent, equal to what was sent, and every
  message object that was allocated on the way is deleted again.
\<close>

theorem protobuf_messages_arrive:
  assumes "\<forall>m\<in>set ms. pb_sendable pb m \<and> pb_dispatch pb codec m = Some (f m)"
    and "map (Encapsulate crc32 e (ComposeMessage pb e)) ms = map Inr packets"
    and "concat chunks = concat packets" and "length (concat chunks) < 2 ^ 32"
  shows "\<exists>b. deliver crc32 e' (pb_handle pb e' codec) chunks Buffer_new s
       = Some (Inr (s\<lparr>app := fold f ms (app s)\<rparr>, b)) \<and> buffer_ok b \<and> content b = []"
proof -
  have "\<forall>m\<in>set ms. ComposeMessage pb e m = Inr (pb_payload pb m)"
    using assms(1) by (auto intro!: ComposeMessage_payload simp: pb_sendable_def)
  from Encapsulate_all [OF this assms(2)]
  have c: "concat chunks = concat (map (wire_packet crc32) (map (pb_payload pb) ms)) @ []"
    using assms(3) by simp
  have "incomplete []"
    by (simp add: incomplete_def kHeaderLength_def)
  moreover have "\<forall>p\<in>set (map (pb_payload pb) ms). length p + 8 < 2 ^ 32"
    using assms(1) by (auto simp: pb_sendable_def)
  moreover have "\<forall>p\<in>set (map (pb_payload pb) ms). \<forall>s. pb_handle pb e' codec p s
      = Inr (projr (pb_handle pb e' codec p s))"
    using assms(1) by (auto simp: pb_handle_payload)
  ultimately show ?thesis
    unfolding fold_pb_handle [OF assms(1), of e' s, symmetric]
    by (intro deliver_packets [OF _ _ c assms(4)]) assumption+
qed

theorem protobuf_messages_arrive_witness:
  "\<exists>b. deliver sample_crc Big_Endian (pb_handle sample_pb Big_Endian sample_codec)
     [take 3 (wire_packet sample_crc (pb_payload sample_pb ''hi'')),
      drop 3 (wire_packet sample_crc (pb_payload sample_pb ''hi''))]
     Buffer_new \<lparr>live_messages = 0, app = []\<rparr>
     = Some (Inr (\<lparr>live_messages = 0, app = [''hi'']\<rparr>, b)) \<and> buffer_ok b \<and> content b = []"
proof -
  have "map (Encapsulate sample_crc Little_Endian (ComposeMessage sample_pb Little_Endian)) [''hi'']
      = map Inr [wire_packet sample_crc (pb_payload sample_pb ''hi'')]"
    by (simp add: ComposeMessage_payload pb_payload_def sample_pb_def)
  moreover have "pb_sendable sample_pb ''hi''" "pb_dispatch sample_pb sample_codec ''hi'' = Some (\<lambda>s. s @ [''hi''])"
    by (simp_all add: pb_sendable_def pb_serializable_def pb_payload_def pb_dispatch_def sample_pb_def
        sample_codec_def RegisterMessageCallback_def)
  ultimately show ?thesis
    using protobuf_messages_arrive [of "[''hi'']" sample_pb sample_codec "\<lambda>m s. s @ [m]" sample_crc Little_Endian
        "[wire_packet sample_crc (pb_payload sample_pb ''hi'')]"
        "[take 3 (wire_packet sample_crc (pb_payload sample_pb ''hi'')),
          drop 3 (wire_packet sample_crc (pb_payload sample_pb ''hi''))]"
        Big_Endian "\<lparr>live_messages = 0, app = []\<rparr>"]
    by (simp add: pb_payload_def sample_pb_def del: deliver.simps)
qed

text \<open>
  A packet whose name length field is within four of \<open>2 ^ 32\<close> passes the length check,
  because the sum in it wraps around; when the bytes after the field are the name of a known type,
  \<open>ParseMessage\<close> then throws \<open>std::out_of_range\<close>, which nothing on the way up catches.
\<close>

theorem ParseMessage_length_wraps:
  assumes "2 ^ 32 - 4 \<le> unat n" and "length name < 2 ^ 32 - 4" and "CreateMessage pb name = Some m"
  shows "ParseMessage pb e (u32_be_bytes n @ name) s = Inl (Throw ''std::out_of_range'')"
proof -
  have "unat (n + 4) = unat n + 4 - 2 ^ 32"
    using assms(1) unat_u32_less [of n] by (simp add: unat_word_ariths mod_if)
  then have "unat (n + 4) < 4"
    using unat_u32_less [of n] by simp
  moreover have "u32_memcpy e (c_str (u32_be_bytes n @ name)) = Inr (htonl e n)"
    by (simp add: c_str_def)
  moreover have "take (unat n) name = name"
    using assms(1,2) by simp
  ultimately show ?thesis
    using assms by (simp add: ParseMessage_def kMinMessageLength_def std_substr_def Let_def)
qed

theorem ParseMessage_length_wraps_witness:
  "ParseMessage sample_pb Little_Endian (u32_be_bytes 0xFFFFFFFD @ ''T'') \<lparr>live_messages = 0, app = ()\<rparr>
     = Inl (Throw ''std::out_of_range'')"
  using ParseMessage_length_wraps [of "0xFFFFFFFD" "''T''" sample_pb "[]" Little_Endian "\<lparr>live_messages = 0, app = ()\<rparr>"]
  by (simp add: CreateMessage_def sample_pb_def)

text \<open>
  A packet that names a known type but whose data does not parse leaves an allocated
  message object behind, which no one can delete any more.
\<close>

theorem ParseMessage_leaks_on_failure:
  assumes "CreateMessage pb name = Some m" and "ParseFromString pb m data = None"
    and "4 + length name + length data < 2 ^ 32"
  shows "pb_handle pb e codec (u32_be_bytes (to_u32 (length name)) @ name @ data) s
     = Inr (s\<lparr>live_messages := live_messages s + 1\<rparr>)"
  using assms ParseMessage_fields [of name data pb e s]
  by (simp add: pb_handle_def ParseAndHandleMessage_def)

theorem ParseMessage_leaks_on_failure_witness:
  "pb_handle sample_pb Little_Endian sample_codec (u32_be_bytes 1 @ ''T'' @ ''!'') \<lparr>live_messages = 0, app = []\<rparr>
     = Inr \<lparr>live_messages = 1, app = []\<rparr>"
  using ParseMessage_leaks_on_failure [of sample_pb "''T''" "[]" "''!''" Little_Endian sample_codec
      "\<lparr>live_messages = 0, app = []\<rparr>"]
  by (simp add: CreateMessage_def sample_pb_def)

end
