(* ===== verification/File_Buffer.thy ===== *)
theory File_Buffer
  imports Byte_Buffer
begin

text \<open>
  \<^verbatim>\<open>ladder/src/FileBuffer.cpp\<close>: the write buffer of a connection that sends files. It queues
  pairs of a header and a file name; \<open>WriteBufferToFd\<close> moves a header into an inner byte buffer,
  opens the file, flushes the inner buffer and transmits the file with \<open>sendfile\<close>, across as many
  calls as the socket needs. The descriptor 0 stands for no open file, as in the code.

  \<open>fdopen\<close>, \<open>fseek\<close> and \<open>ftell\<close> measure the file; their result is \<open>sys_fsize\<close>, converted to \<open>int\<close>.
\<close>

section \<open>The model\<close>

record FileInfo =
  header :: string
  filename :: string

record file_buffer =
  pending_files :: "FileInfo list"
  inner :: buffer
  bytes_sent :: int
  bytes_pending :: int
  file_fd :: fd

definition FileBuffer_new :: file_buffer where
  "FileBuffer_new = \<lparr>pending_files = [], inner = Buffer_new, bytes_sent = 0, bytes_pending = 0, file_fd = 0\<rparr>"

definition FileBuffer_destroy :: "'w posix \<Rightarrow> file_buffer \<Rightarrow> 'w \<Rightarrow> 'w" where
  "FileBuffer_destroy os fb w = (if file_fd fb \<noteq> 0 then snd (sys_close os (file_fd fb) w) else w)"

definition AddFile :: "string \<Rightarrow> string \<Rightarrow> file_buffer \<Rightarrow> file_buffer" where
  "AddFile h fn fb = fb\<lparr>pending_files := pending_files fb @ [\<lparr>header = h, filename = fn\<rparr>]\<rparr>"

definition FileBuffer_Write :: "string \<Rightarrow> file_buffer \<Rightarrow> file_buffer" where
  "FileBuffer_Write s fb = AddFile s [] fb"

definition FileBuffer_Peek :: "nat \<Rightarrow> file_buffer \<Rightarrow> (u32 \<times> string) res" where
  "FileBuffer_Peek n fb = Buffer_Peek n (inner fb)"

definition FileBuffer_Empty :: "file_buffer \<Rightarrow> bool" where
  "FileBuffer_Empty fb \<longleftrightarrow> pending_files fb = []"

definition FileBuffer_HaveRead :: "nat \<Rightarrow> file_buffer \<Rightarrow> file_buffer" where
  "FileBuffer_HaveRead n fb = fb"

text \<open>The part of the loop for a front entry that is not being sent yet.\<close>

definition fb_open_front :: "'w posix \<Rightarrow> file_buffer \<Rightarrow> 'w \<Rightarrow> (file_buffer \<times> 'w) res" where
  "fb_open_front os fb w =
     (let front = hd (pending_files fb) in
      case Buffer_Write (header front) (inner fb) of
        Inl x \<Rightarrow> Inl x
      | Inr b \<Rightarrow>
         (let (g, w') = (if filename front = [] then (0, w)
                         else (case sys_open os (filename front) w of
                                 (Ret g, w1) \<Rightarrow> (g, w1)
                               | (Err e, w1) \<Rightarrow> (0, w1))) in
          if g \<noteq> 0
          then Inr (fb\<lparr>inner := b, file_fd := g, bytes_pending := to_i32 (sys_fsize os g w'), bytes_sent := 0\<rparr>, w')
          else Inr (fb\<lparr>inner := b, pending_files := tl (pending_files fb)\<rparr>, w')))"

text \<open>The part of the loop that transmits the open file: an error to return, or the next state.\<close>

definition fb_sendfile :: "'w posix \<Rightarrow> fd \<Rightarrow> file_buffer \<Rightarrow> 'w \<Rightarrow> (errno option \<times> file_buffer \<times> 'w) res" where
  "fb_sendfile os f fb w =
     (if file_fd fb = 0 then Inr (None, fb, w)
      else
       (case sys_sendfile os f (file_fd fb) (bytes_sent fb) (bytes_pending fb) w of
          (Err e, w') \<Rightarrow>
            (if e = EAGAIN \<or> e = EPIPE then Inr (Some e, fb, w') else Inl (EXIT ''[FileBuffer] write''))
        | (Ret k, w') \<Rightarrow>
            (let fb' = fb\<lparr>bytes_sent := bytes_sent fb + int k, bytes_pending := bytes_pending fb - int k\<rparr> in
             if bytes_pending fb' = 0
             then Inr (None, fb'\<lparr>file_fd := 0, pending_files := tl (pending_files fb)\<rparr>,
                       snd (sys_close os (file_fd fb) w'))
             else Inr (None, fb', w'))))"

partial_function (option) fb_loop ::
  "'w posix \<Rightarrow> fd \<Rightarrow> file_buffer \<Rightarrow> 'w \<Rightarrow> (nat sysres \<times> file_buffer \<times> 'w) res option" where
  "fb_loop os f fb w =
     (if pending_files fb = [] then Some (Inr (Ret 0, fb, w))
      else
       (case (if file_fd fb = 0 then fb_open_front os fb w else Inr (fb, w)) of
          Inl x \<Rightarrow> Some (Inl x)
        | Inr p \<Rightarrow>
           Option.bind (WriteBufferToFd os f (inner (fst p)) (snd p))
             (\<lambda>r. case r of
                Inl x \<Rightarrow> Some (Inl x)
              | Inr q \<Rightarrow>
                 (case fst q of
                    Err e \<Rightarrow> Some (Inr (Err e, (fst p)\<lparr>inner := fst (snd q)\<rparr>, snd (snd q)))
                  | Ret n \<Rightarrow>
                     (case fb_sendfile os f ((fst p)\<lparr>inner := fst (snd q)\<rparr>) (snd (snd q)) of
                        Inl x \<Rightarrow> Some (Inl x)
                      | Inr t \<Rightarrow>
                         (case fst t of
                            Some e \<Rightarrow> Some (Inr (Err e, snd t))
                          | None \<Rightarrow> fb_loop os f (fst (snd t)) (snd (snd t))))))))"

definition FileBuffer_WriteBufferToFd ::
  "'w posix \<Rightarrow> fd \<Rightarrow> file_buffer \<Rightarrow> 'w \<Rightarrow> (nat sysres \<times> file_buffer \<times> 'w) res option" where
  "FileBuffer_WriteBufferToFd os f fb w =
     (case WriteBufferToFd os f (inner fb) w of
        None \<Rightarrow> None
      | Some (Inl x) \<Rightarrow> Some (Inl x)
      | Some (Inr (Err e, b, w')) \<Rightarrow> Some (Inr (Err e, fb\<lparr>inner := b\<rparr>, w'))
      | Some (Inr (Ret n, b, w')) \<Rightarrow> fb_loop os f (fb\<lparr>inner := b\<rparr>) w')"

section \<open>Documented behaviour of files\<close>

text \<open>
  \<open>data\<close> gives the content of the file with a name, \<open>fdata\<close> the content behind a descriptor, and
  \<open>sent\<close> the bytes the socket has accepted. Files do not change while they are sent. \<open>open(2)\<close>
  gives a descriptor other than 0 (standard input stays open), and fails only for files that
  cannot be read. \<open>sendfile(2)\<close> transmits a prefix of what it is asked to, which is not empty
  unless there is nothing to send.
\<close>

definition files_stable ::
  "'w posix \<Rightarrow> fd \<Rightarrow> ('w \<Rightarrow> string) \<Rightarrow> (fd \<Rightarrow> 'w \<Rightarrow> string) \<Rightarrow> (string \<Rightarrow> string option) \<Rightarrow> bool" where
  "files_stable os f sent fdata data \<longleftrightarrow>
     (\<forall>bs w r w'. sys_write os f bs w = (r, w') \<longrightarrow> (\<lambda>g. fdata g w') = (\<lambda>g. fdata g w)) \<and>
     (\<forall>p w g w'. sys_open os p w = (Ret g, w') \<longrightarrow>
        g \<noteq> 0 \<and> data p = Some (fdata g w') \<and> sent w' = sent w) \<and>
     (\<forall>p w e w'. sys_open os p w = (Err e, w') \<longrightarrow> data p = None \<and> sent w' = sent w) \<and>
     (\<forall>g w. sys_fsize os g w = int (length (fdata g w))) \<and>
     (\<forall>g w. sent (snd (sys_close os g w)) = sent w)"

definition sendfile_accepts ::
  "'w posix \<Rightarrow> fd \<Rightarrow> ('w \<Rightarrow> string) \<Rightarrow> (fd \<Rightarrow> 'w \<Rightarrow> string) \<Rightarrow> bool" where
  "sendfile_accepts os f sent fdata \<longleftrightarrow>
     (\<forall>g i n w k w'. i + n \<le> length (fdata g w) \<longrightarrow>
        sys_sendfile os f g (int i) (int n) w = (Ret k, w') \<longrightarrow>
        k \<le> n \<and> (0 < n \<longrightarrow> 0 < k) \<and> sent w' = sent w @ take k (drop i (fdata g w)) \<and> fdata g w' = fdata g w) \<and>
     (\<forall>g i n w e w'. sys_sendfile os f g i n w = (Err e, w') \<longrightarrow> sent w' = sent w \<and> fdata g w' = fdata g w)"

lemma files_stableD:
  assumes "files_stable os f sent fdata data"
  shows "sys_write os f bs w = (r, w') \<Longrightarrow> (\<lambda>g. fdata g w') = (\<lambda>g. fdata g w)"
    and "sys_open os p w = (Ret g, w') \<Longrightarrow> g \<noteq> 0 \<and> data p = Some (fdata g w') \<and> sent w' = sent w"
    and "sys_open os p w = (Err e, w') \<Longrightarrow> data p = None \<and> sent w' = sent w"
    and "sys_fsize os g w = int (length (fdata g w))"
    and "sent (snd (sys_close os g w)) = sent w"
  using assms unfolding files_stable_def by blast+

lemma sendfile_acceptsD:
  assumes "sendfile_accepts os f sent fdata" and "sys_sendfile os f g (int i) (int n) w = (Ret k, w')"
    and "i + n \<le> length (fdata g w)"
  shows "k \<le> n" and "0 < n \<Longrightarrow> 0 < k" and "sent w' = sent w @ take k (drop i (fdata g w))"
    and "fdata g w' = fdata g w"
  using assms unfolding sendfile_accepts_def by blast+

lemma sendfile_acceptsD_err:
  assumes "sendfile_accepts os f sent fdata" and "sys_sendfile os f g i n w = (Err e, w')"
  shows "sent w' = sent w" and "fdata g w' = fdata g w"
  using assms unfolding sendfile_accepts_def by blast+

section \<open>The bytes still to be sent\<close>

text \<open>An entry stands for its header and the content of its file; a file that cannot be opened is
  left out.\<close>

definition entry_bytes :: "(string \<Rightarrow> string option) \<Rightarrow> FileInfo \<Rightarrow> string" where
  "entry_bytes data fi =
     header fi @ (if filename fi = [] then [] else case data (filename fi) of None \<Rightarrow> [] | Some d \<Rightarrow> d)"

definition fb_stream :: "(string \<Rightarrow> string option) \<Rightarrow> (fd \<Rightarrow> string) \<Rightarrow> file_buffer \<Rightarrow> string" where
  "fb_stream data fdata fb =
     content (inner fb) @
     (if file_fd fb = 0 then concat (map (entry_bytes data) (pending_files fb))
      else drop (nat (bytes_sent fb)) (fdata (file_fd fb)) @
           concat (map (entry_bytes data) (tl (pending_files fb))))"

definition unsent_entries :: "file_buffer \<Rightarrow> FileInfo list" where
  "unsent_entries fb = (if file_fd fb = 0 then pending_files fb else tl (pending_files fb))"

definition header_bytes :: "FileInfo list \<Rightarrow> nat" where
  "header_bytes fis = (\<Sum>fi\<leftarrow>fis. length (header fi))"

definition fb_ok :: "nat \<Rightarrow> (string \<Rightarrow> string option) \<Rightarrow> (fd \<Rightarrow> string) \<Rightarrow> file_buffer \<Rightarrow> bool" where
  "fb_ok m data fdata fb \<longleftrightarrow>
     buffer_ok (inner fb) \<and> room (inner fb) (header_bytes (unsent_entries fb) + m) \<and>
     (file_fd fb \<noteq> 0 \<longrightarrow> pending_files fb \<noteq> [] \<and> 0 \<le> bytes_sent fb \<and> 0 \<le> bytes_pending fb \<and>
        bytes_sent fb + bytes_pending fb = int (length (fdata (file_fd fb)))) \<and>
     list_all (\<lambda>fi. \<forall>d. filename fi \<noteq> [] \<and> data (filename fi) = Some d \<longrightarrow> length d < 2 ^ 31) (pending_files fb)"

text \<open>Opening the front entry moves bytes between the parts of the stream and keeps it.\<close>

lemma fb_open_front_ok:
  assumes fs: "files_stable os f sent fdata data" and ok: "fb_ok m data (\<lambda>g. fdata g w) fb"
    and ne: "pending_files fb \<noteq> []" and z: "file_fd fb = 0"
  shows "\<exists>fb' w'. fb_open_front os fb w = Inr (fb', w') \<and> fb_ok m data (\<lambda>g. fdata g w') fb' \<and>
     fb_stream data (\<lambda>g. fdata g w') fb' = fb_stream data (\<lambda>g. fdata g w) fb \<and> sent w' = sent w \<and>
     (if file_fd fb' = 0 then pending_files fb' = tl (pending_files fb) else pending_files fb' = pending_files fb)"
proof -
  obtain fi rest where p: "pending_files fb = fi # rest" using ne by (cases "pending_files fb") auto
  have "room (inner fb) (length (header fi))"
    by (rule room_le [of _ "header_bytes (unsent_entries fb) + m"])
      (use ok z p in \<open>auto simp: fb_ok_def unsent_entries_def header_bytes_def\<close>)
  then obtain b where b: "Buffer_Write (header fi) (inner fb) = Inr b" "buffer_ok b"
    "content b = content (inner fb) @ header fi" "\<And>n. room b n \<longleftrightarrow> room (inner fb) (length (header fi) + n)"
    using Buffer_Write_ok [of "inner fb" "header fi"] ok unfolding fb_ok_def by metis
  have rm: "room b (header_bytes rest + m)" and small: "list_all (\<lambda>fi. \<forall>d. filename fi \<noteq> [] \<and> data (filename fi) = Some d \<longrightarrow> length d < 2 ^ 31) (fi # rest)"
    using ok z p by (simp_all add: b(4) fb_ok_def unsent_entries_def header_bytes_def add.assoc)
  show ?thesis
  proof (cases "filename fi = []")
    case True
    then show ?thesis
      using b z p rm small
      by (simp add: fb_open_front_def fb_ok_def fb_stream_def unsent_entries_def entry_bytes_def)
  next
    case False
    obtain r w1 where op: "sys_open os (filename fi) w = (r, w1)" by fastforce
    show ?thesis
    proof (cases r)
      case (Err e)
      then show ?thesis
        using files_stableD(3) [OF fs op [unfolded Err]] False op b z p rm small
        by (simp add: fb_open_front_def fb_ok_def fb_stream_def unsent_entries_def entry_bytes_def)
    next
      case (Ret g)
      note o = files_stableD(2) [OF fs op [unfolded Ret]]
      then have "to_i32 (sys_fsize os g w1) = int (length (fdata g w1))"
        using small False by (subst to_i32_id) (auto simp: files_stableD(4) [OF fs])
      then show ?thesis
        using Ret o False op b z p rm small
        by (simp add: fb_open_front_def fb_ok_def fb_stream_def unsent_entries_def entry_bytes_def)
    qed
  qed
qed

definition fb_progress :: "file_buffer \<Rightarrow> file_buffer \<Rightarrow> bool" where
  "fb_progress fb fb' \<longleftrightarrow>
     (if file_fd fb = 0 then fb' = fb
      else if file_fd fb' = 0 then pending_files fb' = tl (pending_files fb)
      else pending_files fb' = pending_files fb \<and> nat (bytes_pending fb') < nat (bytes_pending fb))"

lemma fb_sendfile_ok:
  assumes fs: "files_stable os f sent fdata data" and sf: "sendfile_accepts os f sent fdata"
    and ok: "fb_ok m data (\<lambda>g. fdata g w) fb" and flushed: "content (inner fb) = []"
  shows "fb_sendfile os f fb w = Inl (EXIT ''[FileBuffer] write'') \<or>
     (\<exists>eo fb' w'. fb_sendfile os f fb w = Inr (eo, fb', w') \<and> fb_ok m data (\<lambda>g. fdata g w') fb' \<and>
        sent w' @ fb_stream data (\<lambda>g. fdata g w') fb' = sent w @ fb_stream data (\<lambda>g. fdata g w) fb \<and>
        content (inner fb') = [] \<and> eo \<in> {None, Some EAGAIN, Some EPIPE} \<and>
        (eo = None \<longrightarrow> fb_progress fb fb'))"
proof (cases "file_fd fb = 0")
  case True
  then show ?thesis using ok flushed by (simp add: fb_sendfile_def fb_progress_def)
next
  case False
  let ?g = "file_fd fb"
  obtain i n where i: "bytes_sent fb = int i" and n: "bytes_pending fb = int n"
    and pn: "pending_files fb \<noteq> []"
    using ok False by (auto simp: fb_ok_def dest!: zero_le_imp_eq_int)
  then have l: "i + n = length (fdata ?g w)"
    using ok False by (simp add: fb_ok_def flip: of_nat_add)
  obtain r w1 where r: "sys_sendfile os f ?g (int i) (int n) w = (r, w1)" by fastforce
  show ?thesis
  proof (cases r)
    case (Err e)
    then show ?thesis
      using sendfile_acceptsD_err [OF sf r [unfolded Err]] False r i n ok flushed
      by (simp add: fb_sendfile_def fb_progress_def fb_ok_def fb_stream_def)
  next
    case (Ret k)
    note d = sendfile_acceptsD [OF sf r [unfolded Ret]]
    have k: "k \<le> n" "n \<noteq> 0 \<Longrightarrow> 0 < k" and sw: "sent w1 = sent w @ take k (drop i (fdata ?g w))"
      and fd: "fdata ?g w1 = fdata ?g w"
      using d l by auto
    obtain fi rest where p: "pending_files fb = fi # rest" using pn by (cases "pending_files fb") auto
    have cat: "sent w1 @ drop (i + k) (fdata ?g w1) = sent w @ drop i (fdata ?g w)"
      by (simp add: sw fd) (metis append_take_drop_id drop_drop add.commute)
    show ?thesis
    proof (cases "k = n")
      case True
      then show ?thesis
        using Ret r i n False ok flushed p l cat fd files_stableD(5) [OF fs]
        by (simp add: fb_sendfile_def fb_progress_def fb_ok_def fb_stream_def unsent_entries_def)
    next
      case F: False
      have "take k (drop i (fdata ?g w)) @ drop (i + k) (fdata ?g w) = drop i (fdata ?g w)"
        by (metis append_take_drop_id drop_drop add.commute)
      then show ?thesis
        using Ret r i n False ok flushed p l k F sw fd
        by (simp add: fb_sendfile_def fb_progress_def fb_ok_def fb_stream_def unsent_entries_def nat_add_distrib)
    qed
  qed
qed

text \<open>The loop returns: each turn finishes an entry or transmits bytes of one.\<close>

definition fb_measure :: "file_buffer \<Rightarrow> nat \<times> nat \<times> nat" where
  "fb_measure fb = (length (pending_files fb), if file_fd fb = 0 then 1 else 0, nat (bytes_pending fb))"

definition fb_done :: "nat \<Rightarrow> ('w \<Rightarrow> string) \<Rightarrow> (fd \<Rightarrow> 'w \<Rightarrow> string) \<Rightarrow> (string \<Rightarrow> string option) \<Rightarrow>
    string \<Rightarrow> (nat sysres \<times> file_buffer \<times> 'w) res option \<Rightarrow> bool" where
  "fb_done m sent fdata data stream result \<longleftrightarrow>
     result \<in> {Some (Inl (EXIT ''[Buffer] write'')), Some (Inl (EXIT ''[FileBuffer] write''))} \<or>
     (\<exists>r fb w. result = Some (Inr (r, fb, w)) \<and>
        (r = Ret 0 \<and> pending_files fb = [] \<and> content (inner fb) = [] \<or>
         r \<in> {Err EAGAIN, Err ECONNRESET, Err EPIPE}) \<and>
        sent w @ fb_stream data (\<lambda>g. fdata g w) fb = stream \<and> fb_ok m data (\<lambda>g. fdata g w) fb)"

lemma fb_ok_flush:
  assumes "fb_ok m data fdata fb" and "buffer_ok b" and "\<forall>n. room (inner fb) n \<longrightarrow> room b n"
  shows "fb_ok m data fdata (fb\<lparr>inner := b\<rparr>)"
  using assms by (auto simp: fb_ok_def unsent_entries_def)

text \<open>Flushing the inner buffer: an end of the call, or an empty inner buffer.\<close>

lemma fb_flush:
  assumes wa: "write_accepts os f sent" and fs: "files_stable os f sent fdata data"
    and ok: "fb_ok m data (\<lambda>g. fdata g w) fb"
  shows "WriteBufferToFd os f (inner fb) w = Some (Inl (EXIT ''[Buffer] write'')) \<or>
     (\<exists>r b w'. WriteBufferToFd os f (inner fb) w = Some (Inr (r, b, w')) \<and>
        (r = Ret 0 \<and> content b = [] \<or> r \<in> {Err EAGAIN, Err ECONNRESET, Err EPIPE}) \<and>
        fb_ok m data (\<lambda>g. fdata g w') (fb\<lparr>inner := b\<rparr>) \<and>
        sent w' @ fb_stream data (\<lambda>g. fdata g w') (fb\<lparr>inner := b\<rparr>) = sent w @ fb_stream data (\<lambda>g. fdata g w) fb)"
proof -
  have bok: "buffer_ok (inner fb)" using ok by (simp add: fb_ok_def)
  have keep: "\<forall>bs w r w'. sys_write os f bs w = (r, w') \<longrightarrow> (\<lambda>g. fdata g w') = (\<lambda>g. fdata g w)"
    using files_stableD(1) [OF fs] by blast
  from WriteBufferToFd_loop [where w = w and P = "\<lambda>w g. fdata g w", OF wa keep bok] show ?thesis
  proof (rule disjE)
    assume "\<exists>r b' w'. WriteBufferToFd os f (inner fb) w = Some (Inr (r, b', w')) \<and>
       (r = Ret 0 \<and> content b' = [] \<or> r \<in> {Err EAGAIN, Err ECONNRESET, Err EPIPE}) \<and>
       sent w' @ content b' = sent w @ content (inner fb) \<and> buffer_ok b' \<and>
       (\<forall>n. room (inner fb) n \<longrightarrow> room b' n) \<and> (\<lambda>g. fdata g w') = (\<lambda>g. fdata g w)"
    then obtain r b w' where a: "WriteBufferToFd os f (inner fb) w = Some (Inr (r, b, w'))"
      "sent w' @ content b = sent w @ content (inner fb)" "buffer_ok b"
      "\<forall>n. room (inner fb) n \<longrightarrow> room b n" "(\<lambda>g. fdata g w') = (\<lambda>g. fdata g w)"
      and r: "r = Ret 0 \<and> content b = [] \<or> r \<in> {Err EAGAIN, Err ECONNRESET, Err EPIPE}"
      by blast
    have "sent w' @ fb_stream data (\<lambda>g. fdata g w') (fb\<lparr>inner := b\<rparr>) = sent w @ fb_stream data (\<lambda>g. fdata g w) fb"
      unfolding a(5) fb_stream_def using a(2) by simp
    then show ?thesis
      using fb_ok_flush [OF ok a(3,4)] a(5) r by (simp only: a(1)) auto
  qed auto
qed

definition fb_smaller :: "file_buffer \<Rightarrow> file_buffer \<Rightarrow> bool" where
  "fb_smaller fb' fb \<longleftrightarrow> (fb_measure fb', fb_measure fb) \<in> less_than <*lex*> less_than <*lex*> less_than"

text \<open>The end of a turn, from the flushed inner buffer on.\<close>

lemma fb_turn_sendfile:
  assumes fs: "files_stable os f sent fdata data" and sf: "sendfile_accepts os f sent fdata"
    and ok: "fb_ok m data (\<lambda>g. fdata g w) fb" and "content (inner fb) = []"
    and result: "result = (case fb_sendfile os f fb w of Inl x \<Rightarrow> Some (Inl x)
      | Inr t \<Rightarrow> (case fst t of Some e \<Rightarrow> Some (Inr (Err e, snd t)) | None \<Rightarrow> loop (fst (snd t)) (snd (snd t))))"
  shows "fb_done m sent fdata data (sent w @ fb_stream data (\<lambda>g. fdata g w) fb) result \<or>
     (\<exists>fb' w'. result = loop fb' w' \<and> fb_ok m data (\<lambda>g. fdata g w') fb' \<and> content (inner fb') = [] \<and>
        sent w' @ fb_stream data (\<lambda>g. fdata g w') fb' = sent w @ fb_stream data (\<lambda>g. fdata g w) fb \<and>
        fb_progress fb fb')"
  using fb_sendfile_ok [OF fs sf assms(3,4)]
proof (rule disjE)
  assume "fb_sendfile os f fb w = Inl (EXIT ''[FileBuffer] write'')"
  then show ?thesis by (simp add: result fb_done_def)
next
  assume "\<exists>eo fb' w'. fb_sendfile os f fb w = Inr (eo, fb', w') \<and> fb_ok m data (\<lambda>g. fdata g w') fb' \<and>
        sent w' @ fb_stream data (\<lambda>g. fdata g w') fb' = sent w @ fb_stream data (\<lambda>g. fdata g w) fb \<and>
        content (inner fb') = [] \<and> eo \<in> {None, Some EAGAIN, Some EPIPE} \<and>
        (eo = None \<longrightarrow> fb_progress fb fb')"
  then obtain eo fb' w' where s: "fb_sendfile os f fb w = Inr (eo, fb', w')"
    "fb_ok m data (\<lambda>g. fdata g w') fb'" "content (inner fb') = []" "eo \<in> {None, Some EAGAIN, Some EPIPE}"
    "sent w' @ fb_stream data (\<lambda>g. fdata g w') fb' = sent w @ fb_stream data (\<lambda>g. fdata g w) fb"
    "eo = None \<longrightarrow> fb_progress fb fb'"
    by blast
  then show ?thesis
    by (cases eo) (fastforce simp: result fb_done_def)+
qed

text \<open>One turn: the loop ends, or goes on with less to do.\<close>

lemma fb_turn:
  assumes wa: "write_accepts os f sent" and fs: "files_stable os f sent fdata data"
    and sf: "sendfile_accepts os f sent fdata"
    and ok: "fb_ok m data (\<lambda>g. fdata g w) fb" and ne: "pending_files fb \<noteq> []"
  shows "fb_done m sent fdata data (sent w @ fb_stream data (\<lambda>g. fdata g w) fb) (fb_loop os f fb w) \<or>
     (\<exists>fb' w'. fb_loop os f fb w = fb_loop os f fb' w' \<and> fb_ok m data (\<lambda>g. fdata g w') fb' \<and>
        content (inner fb') = [] \<and> fb_smaller fb' fb \<and>
        sent w' @ fb_stream data (\<lambda>g. fdata g w') fb' = sent w @ fb_stream data (\<lambda>g. fdata g w) fb)"
proof -
  obtain fb1 w1 where o: "(if file_fd fb = 0 then fb_open_front os fb w else Inr (fb, w)) = Inr (fb1, w1)"
    and ok1: "fb_ok m data (\<lambda>g. fdata g w1) fb1"
    and st1: "sent w1 @ fb_stream data (\<lambda>g. fdata g w1) fb1 = sent w @ fb_stream data (\<lambda>g. fdata g w) fb"
    and m1: "if file_fd fb = 0 \<and> file_fd fb1 = 0 then pending_files fb1 = tl (pending_files fb)
             else pending_files fb1 = pending_files fb \<and> (file_fd fb \<noteq> 0 \<longrightarrow> fb1 = fb)"
    using fb_open_front_ok [OF fs ok ne] ok by (cases "file_fd fb = 0") (auto split: if_splits)
  from fb_flush [OF wa fs ok1] show ?thesis
  proof (elim disjE exE conjE)
    fix r b w2
    let ?fb2 = "fb1\<lparr>inner := b\<rparr>"
    assume wr: "WriteBufferToFd os f (inner fb1) w1 = Some (Inr (r, b, w2))" "r = Ret 0" "content b = []"
      and ok2: "fb_ok m data (\<lambda>g. fdata g w2) ?fb2"
      and st2: "sent w2 @ fb_stream data (\<lambda>g. fdata g w2) ?fb2 = sent w1 @ fb_stream data (\<lambda>g. fdata g w1) fb1"
    have "content (inner ?fb2) = []" using wr(3) by simp
    moreover have "fb_loop os f fb w = (case fb_sendfile os f ?fb2 w2 of Inl x \<Rightarrow> Some (Inl x)
        | Inr t \<Rightarrow> (case fst t of Some e \<Rightarrow> Some (Inr (Err e, snd t)) | None \<Rightarrow> fb_loop os f (fst (snd t)) (snd (snd t))))"
      using ne o wr by (subst fb_loop.simps) (simp split: sum.split option.split)
    moreover have "fb_progress ?fb2 fb3 \<Longrightarrow> fb_smaller fb3 fb" for fb3
      using ne m1 unfolding fb_progress_def
      by (cases "pending_files fb") (auto simp: fb_smaller_def fb_measure_def split: if_splits)
    ultimately show ?thesis
      using fb_turn_sendfile [OF fs sf ok2, of "fb_loop os f fb w" "fb_loop os f"]
      unfolding st2 st1 by blast
  qed (use ne o st1 in \<open>auto simp: fb_loop.simps [of os f fb w] fb_done_def\<close>)
qed

lemma wf_fb_smaller: "wf {(fb', fb). fb_smaller fb' fb}"
  by (rule wf_subset [OF wf_inv_image [of "less_than <*lex*> less_than <*lex*> less_than" fb_measure]])
    (auto simp: fb_smaller_def inv_image_def)

lemma fb_loop_done:
  assumes "write_accepts os f sent" and "files_stable os f sent fdata data"
    and "sendfile_accepts os f sent fdata"
  shows "fb_ok m data (\<lambda>g. fdata g w) fb \<Longrightarrow> content (inner fb) = [] \<Longrightarrow>
     fb_done m sent fdata data (sent w @ fb_stream data (\<lambda>g. fdata g w) fb) (fb_loop os f fb w)"
proof (induction fb arbitrary: w rule: wf_induct_rule [OF wf_fb_smaller])
  case (1 fb)
  show ?case
  proof (cases "pending_files fb = []")
    case True
    then show ?thesis
      using 1(2,3) by (subst fb_loop.simps) (simp add: fb_done_def)
  next
    case False
    then show ?thesis
      using fb_turn [OF assms 1(2)] 1(1) by (metis (no_types, lifting) case_prodI mem_Collect_eq)
  qed
qed

section \<open>Properties\<close>

text \<open>What transfers leave alone is left alone by the loop, which never closes the socket's own descriptor.\<close>

lemma fb_open_front_keeps:
  assumes "io_keeps os f keep" and "fb_open_front os fb w = Inr (fb', w')" and "f \<noteq> 0" and "file_fd fb \<noteq> f"
  shows "keep w' = keep w \<and> file_fd fb' \<noteq> f"
  using assms io_keepsD(3) [OF assms(1)]
  by (auto simp: fb_open_front_def Let_def split: sum.splits if_splits prod.splits sysres.splits) blast

lemma fb_sendfile_keeps:
  assumes "io_keeps os f keep" and "fb_sendfile os f fb w = Inr (eo, fb', w')" and "f \<noteq> 0" and "file_fd fb \<noteq> f"
  shows "keep w' = keep w \<and> file_fd fb' \<noteq> f"
  using assms io_keepsD(4) [OF assms(1)] io_keepsD(5) [OF assms(1), of "file_fd fb"]
  by (auto simp: fb_sendfile_def Let_def split: if_splits prod.splits sysres.splits)

lemma fb_loop_keeps:
  assumes "io_keeps os f keep" and "f \<noteq> 0" and "file_fd fb \<noteq> f" and "fb_loop os f fb w = Some (Inr (r, fb', w'))"
  shows "keep w' = keep w \<and> file_fd fb' \<noteq> f"
proof -
  let ?P = "\<lambda>os f fb w y. io_keeps os f keep \<and> f \<noteq> 0 \<and> file_fd fb \<noteq> f \<longrightarrow>
    (\<forall>r fb' w'. y = Inr (r, fb', w') \<longrightarrow> keep w' = keep w \<and> file_fd fb' \<noteq> f)"
  have "?P os f fb w y" if "fb_loop os f fb w = Some y" for y
    using that
  proof (rule fb_loop.raw_induct [of ?P, rotated], goal_cases)
    case (1 F os f fb w y)
    show ?case
    proof (intro impI allI)
      fix r fb' w'
      assume k: "io_keeps os f keep \<and> f \<noteq> 0 \<and> file_fd fb \<noteq> f" and y: "y = Inr (r, fb', w')"
      show "keep w' = keep w \<and> file_fd fb' \<noteq> f"
      proof (cases "pending_files fb = []")
        case True
        then show ?thesis using 1(2) k y by simp
      next
        case False
        obtain p where p: "(if file_fd fb = 0 then fb_open_front os fb w else Inr (fb, w)) = Inr p"
          using 1(2) False y by (cases "if file_fd fb = 0 then fb_open_front os fb w else Inr (fb, w)") simp_all
        obtain z where z: "WriteBufferToFd os f (inner (fst p)) (snd p) = Some z"
          using 1(2) False p by (cases "WriteBufferToFd os f (inner (fst p)) (snd p)") simp_all
        then obtain q where q: "WriteBufferToFd os f (inner (fst p)) (snd p) = Some (Inr q)"
          using 1(2) False p y by (cases z) simp_all
        note rest = 1(2) [unfolded if_not_P [OF False] p sum.case q bind.simps]
        have p': "keep (snd p) = keep w \<and> file_fd (fst p) \<noteq> f"
          using fb_open_front_keeps [of os f keep fb w "fst p" "snd p"] k p by (auto split: if_splits)
        moreover have "keep (snd (snd q)) = keep (snd p)"
          using WriteBufferToFd_keeps [of keep os f "inner (fst p)" "snd p" "fst q" "fst (snd q)" "snd (snd q)"] io_keeps_write [of os f keep] k q by simp
        moreover have "keep (snd (snd t)) = keep (snd (snd q)) \<and> file_fd (fst (snd t)) \<noteq> f"
          if "fb_sendfile os f ((fst p)\<lparr>inner := fst (snd q)\<rparr>) (snd (snd q)) = Inr t" for t
          using fb_sendfile_keeps [of os f keep "(fst p)\<lparr>inner := fst (snd q)\<rparr>" "snd (snd q)" "fst t" "fst (snd t)" "snd (snd t)"]
            that k p' by simp
        ultimately show ?thesis
          using rest k y 1(1) [of os f _ _ y] by (fastforce split: sysres.splits sum.splits option.splits)
      qed
    qed
  qed
  then show ?thesis using assms by blast
qed

lemma FileBuffer_WriteBufferToFd_keeps:
  assumes "io_keeps os f keep" and "f \<noteq> 0" and "file_fd fb \<noteq> f"
    and "FileBuffer_WriteBufferToFd os f fb w = Some (Inr (r, fb', w'))"
  shows "keep w' = keep w \<and> file_fd fb' \<noteq> f"
proof -
  obtain q where q: "WriteBufferToFd os f (inner fb) w = Some (Inr q)"
    using assms(4) by (auto simp: FileBuffer_WriteBufferToFd_def split: option.splits sum.splits)
  then have "keep (snd (snd q)) = keep w"
    using WriteBufferToFd_keeps [of keep os f "inner fb" w "fst q" "fst (snd q)" "snd (snd q)"] io_keeps_write [of os f keep] assms(1) by simp
  then show ?thesis
    using assms q fb_loop_keeps [of os f keep "fb\<lparr>inner := fst (snd q)\<rparr>" "snd (snd q)" r fb' w']
    by (cases q) (auto simp: FileBuffer_WriteBufferToFd_def split: sysres.splits)
qed

lemma fb_sends:
  assumes "write_accepts os f sent" and "files_stable os f sent fdata data"
    and "sendfile_accepts os f sent fdata" and "fb_ok m data (\<lambda>g. fdata g w) fb"
  shows "FileBuffer_WriteBufferToFd os f fb w
       \<in> {Some (Inl (EXIT ''[Buffer] write'')), Some (Inl (EXIT ''[FileBuffer] write''))} \<or>
     (\<exists>r fb' w'. FileBuffer_WriteBufferToFd os f fb w = Some (Inr (r, fb', w')) \<and>
        (r = Ret 0 \<and> pending_files fb' = [] \<and> content (inner fb') = [] \<or>
         r \<in> {Err EAGAIN, Err ECONNRESET, Err EPIPE}) \<and>
        sent w' @ fb_stream data (\<lambda>g. fdata g w') fb' = sent w @ fb_stream data (\<lambda>g. fdata g w) fb \<and>
        fb_ok m data (\<lambda>g. fdata g w') fb')"
  using fb_flush [OF assms(1,2,4)]
proof (elim disjE exE conjE)
  fix r b w'
  assume "WriteBufferToFd os f (inner fb) w = Some (Inr (r, b, w'))" "r = Ret 0" "content b = []"
    and ok: "fb_ok m data (\<lambda>g. fdata g w') (fb\<lparr>inner := b\<rparr>)"
    and st: "sent w' @ fb_stream data (\<lambda>g. fdata g w') (fb\<lparr>inner := b\<rparr>) = sent w @ fb_stream data (\<lambda>g. fdata g w) fb"
  then show ?thesis
    using fb_loop_done [OF assms(1-3) ok] unfolding st
    by (simp add: FileBuffer_WriteBufferToFd_def fb_done_def)
qed (auto simp: FileBuffer_WriteBufferToFd_def)

text \<open>
  Property C21. A file buffer sends what was queued: at every return of \<open>WriteBufferToFd\<close>, the bytes
  the socket has accepted followed by the bytes still queued (headers and file contents, in
  order, whether they sit in the inner buffer, behind the open descriptor or in the queue) are
  what they were at the call, and room for \<open>m\<close> further bytes is kept. The call returns; it returns 0 with everything sent, or an error
  that leaves the rest for the next call, or ends the process.
\<close>

theorem FileBuffer_sends_in_order:
  assumes "write_accepts os f sent" and "files_stable os f sent fdata data"
    and "sendfile_accepts os f sent fdata" and "fb_ok m data (\<lambda>g. fdata g w) fb"
  shows "FileBuffer_WriteBufferToFd os f fb w
       \<in> {Some (Inl (EXIT ''[Buffer] write'')), Some (Inl (EXIT ''[FileBuffer] write''))} \<or>
     (\<exists>r fb' w'. FileBuffer_WriteBufferToFd os f fb w = Some (Inr (r, fb', w')) \<and>
        (r = Ret 0 \<and> pending_files fb' = [] \<and> content (inner fb') = [] \<or>
         r \<in> {Err EAGAIN, Err ECONNRESET, Err EPIPE}) \<and>
        sent w' @ fb_stream data (\<lambda>g. fdata g w') fb' = sent w @ fb_stream data (\<lambda>g. fdata g w) fb \<and>
        fb_ok m data (\<lambda>g. fdata g w') fb')"
  by (rule fb_sends [OF assms])

definition sample_data :: "string \<Rightarrow> string option" where
  "sample_data p = (if p = ''f'' then Some sample_file else None)"

lemma sample_files:
  "files_stable sample_posix f accepted (\<lambda>g w. sample_file) sample_data"
  "sendfile_accepts sample_posix f accepted (\<lambda>g w. sample_file)"
  by (auto simp: files_stable_def sendfile_accepts_def sample_posix_def sample_data_def sample_write_def
      sample_sendfile_def Let_def split: if_splits)

definition sample_fb :: file_buffer where
  "sample_fb = AddFile ''H:'' ''f'' FileBuffer_new"

lemma sample_fb_ok:
  "fb_ok 7 sample_data (\<lambda>g. sample_file) sample_fb"
  "fb_stream sample_data (\<lambda>g. sample_file) sample_fb = ''H:abcdef''"
  by (simp_all add: fb_ok_def sample_fb_def AddFile_def FileBuffer_new_def unsent_entries_def header_bytes_def
      sample_data_def sample_file_def fb_stream_def entry_bytes_def)

lemma sample_fb_run:
  "\<exists>fb' w'. FileBuffer_WriteBufferToFd sample_posix 4 sample_fb (sample_world [] 5) = Some (Inr (Err EAGAIN, fb', w')) \<and>
     accepted w' = ''H:abc''"
  by (simp add: FileBuffer_WriteBufferToFd_def fb_loop.simps WriteBufferToFd.simps fb_open_front_def fb_sendfile_def
      sample_posix_def sample_write_def sample_sendfile_def sample_world_def sample_fb_def AddFile_def
      FileBuffer_new_def Buffer_new_def Buffer_Write_def Buffer_Peek_def HaveRead_def ReadableBytes_def
      kWriteBufferSize_def sample_file_def to_i32_def Let_def)

theorem FileBuffer_sends_in_order_witness:
  "\<exists>fb' w'. FileBuffer_WriteBufferToFd sample_posix 4 sample_fb (sample_world [] 5) = Some (Inr (Err EAGAIN, fb', w')) \<and>
     accepted w' = ''H:abc'' \<and> fb_stream sample_data (\<lambda>g. sample_file) fb' = ''def''"
  using FileBuffer_sends_in_order [OF sample_write_accepts sample_files, of 7 sample_fb 4 "sample_world [] 5"] sample_fb_run
  by (auto simp: sample_fb_ok) (simp add: sample_world_def)

text \<open>
  \<open>Empty\<close> of a file buffer looks at the queue only. When the socket takes no byte of a
  message written to an empty file buffer, \<open>WriteBufferToFd\<close> reports the error, the whole message
  is still in the inner buffer, and \<open>Empty\<close> returns true; a connection whose peer has closed its
  side is then closed without sending it.
\<close>

theorem FileBuffer_Empty_with_bytes_left:
  assumes "msg \<noteq> []" and "length msg < 2 ^ 32" and "sys_write os f (take kWriteBufferSize msg) w = (Err EAGAIN, w')"
  shows "\<exists>fb. FileBuffer_WriteBufferToFd os f (FileBuffer_Write msg FileBuffer_new) w = Some (Inr (Err EAGAIN, fb, w')) \<and>
     FileBuffer_Empty fb \<and> content (inner fb) = msg"
proof -
  have e: "WriteBufferToFd os f Buffer_new w = Some (Inr (Ret 0, Buffer_new, w))"
    by (subst WriteBufferToFd.simps) (simp add: ReadableBytes_def Buffer_new_def)
  have "room Buffer_new (length msg)" using assms(2) by simp
  from Buffer_Write_ok [OF buffer_ok_new this] obtain b where
    b: "Buffer_Write msg Buffer_new = Inr b" "buffer_ok b" "content b = msg"
    by (metis append_Nil content_new)
  have "WriteBufferToFd os f b w = Some (Inr (Err EAGAIN, b, w'))"
    using b assms ReadableBytes_0_iff [OF b(2)]
    by (subst WriteBufferToFd.simps) (simp add: Buffer_Peek_ok kWriteBufferSize_def)
  then show ?thesis
    using e b
    by (simp add: FileBuffer_WriteBufferToFd_def FileBuffer_Write_def AddFile_def FileBuffer_new_def
        fb_loop.simps fb_open_front_def FileBuffer_Empty_def)
qed

theorem FileBuffer_Empty_with_bytes_left_witness:
  "\<exists>fb. FileBuffer_WriteBufferToFd sample_posix 4 (FileBuffer_Write ''bye'' FileBuffer_new) (sample_world [] 0)
       = Some (Inr (Err EAGAIN, fb, sample_world [] 0)) \<and>
     FileBuffer_Empty fb \<and> content (inner fb) = ''bye''"
  using FileBuffer_Empty_with_bytes_left [of "''bye''" sample_posix 4 "sample_world [] 0" "sample_world [] 0"]
  by (simp add: sample_posix_def sample_write_def sample_world_def kWriteBufferSize_def)

definition fb_stuck :: "'w posix \<Rightarrow> fd \<Rightarrow> file_buffer \<Rightarrow> bool" where
  "fb_stuck os f fb \<longleftrightarrow> pending_files fb \<noteq> [] \<and> file_fd fb \<noteq> 0 \<and> bytes_pending fb \<noteq> 0 \<and>
     ReadableBytes (inner fb) = 0 \<and>
     (\<forall>w. \<exists>w'. sys_sendfile os f (file_fd fb) (bytes_sent fb) (bytes_pending fb) w = (Ret 0, w'))"

lemma WriteBufferToFd_nothing: "ReadableBytes b = 0 \<Longrightarrow> WriteBufferToFd os f b w = Some (Inr (Ret 0, b, w))"
  by (subst WriteBufferToFd.simps) simp

lemma fb_loop_stuck:
  assumes "fb_loop os f fb w = Some y"
  shows "\<not> fb_stuck os f fb"
  using assms
proof (rule fb_loop.raw_induct [of "\<lambda>os f fb w y. \<not> fb_stuck os f fb", rotated], goal_cases)
  case (1 F os f fb w y)
  show ?case
  proof
    assume s: "fb_stuck os f fb"
    then obtain w' where "sys_sendfile os f (file_fd fb) (bytes_sent fb) (bytes_pending fb) w = (Ret 0, w')"
      unfolding fb_stuck_def by blast
    with s have "fb_sendfile os f fb w = Inr (None, fb, w')"
      by (simp add: fb_stuck_def fb_sendfile_def)
    then have "F os f fb w' = Some y"
      using 1(2) s by (simp add: fb_stuck_def WriteBufferToFd_nothing)
    from 1(1) [OF this] s show False by simp
  qed
qed

text \<open>
  When a file has become shorter than it was when it was opened, \<open>sendfile\<close> returns 0 at
  its new end, and \<open>WriteBufferToFd\<close> calls it again for ever: the call never returns, and the event
  loop it runs in stops serving every other connection.
\<close>

theorem FileBuffer_spins_on_shrunk_file:
  assumes "pending_files fb \<noteq> []" and "file_fd fb \<noteq> 0" and "bytes_pending fb \<noteq> 0"
    and "ReadableBytes (inner fb) = 0"
    and "\<forall>w. \<exists>w'. sys_sendfile os f (file_fd fb) (bytes_sent fb) (bytes_pending fb) w = (Ret 0, w')"
  shows "FileBuffer_WriteBufferToFd os f fb w = None"
proof -
  have "fb_stuck os f fb" using assms by (simp add: fb_stuck_def)
  then have "fb_loop os f fb w = None"
    by (cases "fb_loop os f fb w") (auto dest: fb_loop_stuck)
  then show ?thesis
    by (simp add: FileBuffer_WriteBufferToFd_def WriteBufferToFd_nothing assms(4))
qed

theorem FileBuffer_spins_on_shrunk_file_witness:
  "FileBuffer_WriteBufferToFd sample_posix 4
     \<lparr>pending_files = [\<lparr>header = [], filename = ''f''\<rparr>], inner = Buffer_new, bytes_sent = 6, bytes_pending = 3, file_fd = 9\<rparr>
     (sample_world [] 5) = None"
  by (rule FileBuffer_spins_on_shrunk_file)
    (simp_all add: Buffer_new_def ReadableBytes_def sample_posix_def sample_sendfile_def sample_file_def)

end
