(* ===== verification/Memory_Pool.thy ===== *)
theory Memory_Pool
  imports Ladder_Prelude "HOL-Library.Multiset"
begin

text \<open>
  \<^verbatim>\<open>ladder/src/MemoryPool.cpp\<close> and \<^verbatim>\<open>ladder/include/MemoryPool.h\<close>: a pool of equally sized memory blocks
  behind a singly linked list of \<open>MemoryBlock\<close> nodes with a header node, and its singleton.

  The nodes, the memory areas and the pool objects live in an explicit heap, since what goes
  wrong here goes wrong through dangling pointers: reading, writing or deleting an object that is
  not allocated is undefined behaviour. \<open>new\<close> returns an address that was never used before, and
  0 is the null pointer. \<open>delete\<close> of an array made by \<open>new char[]\<close> frees it here, as the usual
  allocators do.
\<close>

section \<open>The heap\<close>


record MemoryBlock =
  memory :: addr
  next_block :: addr

record pool =
  blocks :: addr
  num_blocks :: nat
  block_size :: nat

record heap =
  nodes :: "addr \<rightharpoonup> MemoryBlock"
  areas :: "addr \<rightharpoonup> nat"
  pools :: "addr \<rightharpoonup> pool"
  brk :: addr
  instance_ptr :: addr
  static_instance :: "addr option"

definition start_heap :: heap where
  "start_heap = \<lparr>nodes = Map.empty, areas = Map.empty, pools = Map.empty, brk = 1,
     instance_ptr = 0, static_instance = None\<rparr>"

definition new_node :: "heap \<Rightarrow> addr \<times> heap" where
  "new_node h = (brk h, h\<lparr>nodes := (nodes h)(brk h \<mapsto> \<lparr>memory = 0, next_block = 0\<rparr>), brk := Suc (brk h)\<rparr>)"

definition new_area :: "nat \<Rightarrow> heap \<Rightarrow> addr \<times> heap" where
  "new_area n h = (brk h, h\<lparr>areas := (areas h)(brk h \<mapsto> n), brk := Suc (brk h)\<rparr>)"

definition new_pool :: "pool \<Rightarrow> heap \<Rightarrow> addr \<times> heap" where
  "new_pool p h = (brk h, h\<lparr>pools := (pools h)(brk h \<mapsto> p), brk := Suc (brk h)\<rparr>)"

definition delete_node :: "addr \<Rightarrow> heap \<Rightarrow> heap res" where
  "delete_node a h =
     (if a = 0 then Inr h
      else if nodes h a = None then Inl (UB ''delete'')
      else Inr (h\<lparr>nodes := (nodes h)(a := None)\<rparr>))"

definition delete_area :: "addr \<Rightarrow> heap \<Rightarrow> heap res" where
  "delete_area a h =
     (if a = 0 then Inr h
      else if areas h a = None then Inl (UB ''delete'')
      else Inr (h\<lparr>areas := (areas h)(a := None)\<rparr>))"

definition get_node :: "addr \<Rightarrow> heap \<Rightarrow> MemoryBlock res" where
  "get_node a h = (case nodes h a of None \<Rightarrow> Inl (UB ''dangling MemoryBlock'') | Some b \<Rightarrow> Inr b)"

definition set_node :: "addr \<Rightarrow> MemoryBlock \<Rightarrow> heap \<Rightarrow> heap res" where
  "set_node a b h =
     (if nodes h a = None then Inl (UB ''dangling MemoryBlock'')
      else Inr (h\<lparr>nodes := (nodes h)(a \<mapsto> b)\<rparr>))"

definition get_pool :: "addr \<Rightarrow> heap \<Rightarrow> pool res" where
  "get_pool a h = (case pools h a of None \<Rightarrow> Inl (UB ''dangling MemoryPoolImpl'') | Some p \<Rightarrow> Inr p)"

section \<open>The pool\<close>

text \<open>The loop of the constructor: \<open>k\<close> nodes behind \<open>block\<close>, each with its memory.\<close>

fun build_blocks :: "nat \<Rightarrow> nat \<Rightarrow> addr \<Rightarrow> heap \<Rightarrow> heap res" where
  "build_blocks 0 sz block h = Inr h"
| "build_blocks (Suc k) sz block h =
     (let (b, h1) = new_node h in
      case get_node block h1 of
        Inl x \<Rightarrow> Inl x
      | Inr prev \<Rightarrow>
         (case set_node block (prev\<lparr>next_block := b\<rparr>) h1 of
            Inl x \<Rightarrow> Inl x
          | Inr h2 \<Rightarrow>
             (let (m, h3) = new_area sz h2 in
              case get_node b h3 of
                Inl x \<Rightarrow> Inl x
              | Inr nb \<Rightarrow>
                 (case set_node b (nb\<lparr>memory := m\<rparr>) h3 of
                    Inl x \<Rightarrow> Inl x
                  | Inr h4 \<Rightarrow> build_blocks k sz b h4))))"

definition MemoryPoolImpl_new :: "nat \<Rightarrow> nat \<Rightarrow> heap \<Rightarrow> (addr \<times> heap) res" where
  "MemoryPoolImpl_new n sz h =
     (let (head, h1) = new_node h;
          (p, h2) = new_pool \<lparr>blocks = head, num_blocks = n, block_size = sz\<rparr> h1 in
      map_sum id (Pair p) (build_blocks n sz head h2))"

text \<open>The loop of the destructor.\<close>

partial_function (option) destroy_blocks :: "addr \<Rightarrow> heap \<Rightarrow> heap res option" where
  "destroy_blocks block h =
     (if block = 0 then Some (Inr h)
      else
       (case get_node block h of
          Inl x \<Rightarrow> Some (Inl x)
        | Inr b \<Rightarrow>
           (case delete_area (memory b) h of
              Inl x \<Rightarrow> Some (Inl x)
            | Inr h1 \<Rightarrow>
               (case delete_node block h1 of
                  Inl x \<Rightarrow> Some (Inl x)
                | Inr h2 \<Rightarrow> destroy_blocks (next_block b) h2))))"

definition MemoryPoolImpl_destroy :: "addr \<Rightarrow> heap \<Rightarrow> heap res option" where
  "MemoryPoolImpl_destroy p h =
     (case get_pool p h of
        Inl x \<Rightarrow> Some (Inl x)
      | Inr pl \<Rightarrow>
         (case get_node (blocks pl) h of
            Inl x \<Rightarrow> Some (Inl x)
          | Inr head \<Rightarrow>
             (case set_node (blocks pl) (head\<lparr>next_block := 0\<rparr>) h of
                Inl x \<Rightarrow> Some (Inl x)
              | Inr h1 \<Rightarrow>
                 (case destroy_blocks (next_block head) h1 of
                    None \<Rightarrow> None
                  | Some (Inl x) \<Rightarrow> Some (Inl x)
                  | Some (Inr h2) \<Rightarrow> Some (Inr (h2\<lparr>pools := (pools h2)(p := None)\<rparr>))))))"

definition pool_take :: "addr \<Rightarrow> heap \<Rightarrow> (addr \<times> heap) res" where
  "pool_take p h =
     (case get_pool p h of
        Inl x \<Rightarrow> Inl x
      | Inr pl \<Rightarrow>
         (case get_node (blocks pl) h of
            Inl x \<Rightarrow> Inl x
          | Inr head \<Rightarrow>
             (if next_block head = 0 then Inr (0, h)
              else
               (case get_node (next_block head) h of
                  Inl x \<Rightarrow> Inl x
                | Inr b \<Rightarrow>
                   (case set_node (blocks pl) (head\<lparr>next_block := next_block b\<rparr>) h of
                      Inl x \<Rightarrow> Inl x
                    | Inr h1 \<Rightarrow> map_sum id (Pair (memory b)) (delete_node (next_block head) h1))))))"

definition pool_allocate :: "addr \<Rightarrow> nat \<Rightarrow> heap \<Rightarrow> (addr \<times> heap) res" where
  "pool_allocate p n h =
     (case get_pool p h of
        Inl x \<Rightarrow> Inl x
      | Inr pl \<Rightarrow> if block_size pl < n then Inr (0, h) else pool_take p h)"

definition pool_free :: "addr \<Rightarrow> addr \<Rightarrow> heap \<Rightarrow> heap res" where
  "pool_free p m h =
     (let (b, h1) = new_node h in
      case get_pool p h1 of
        Inl x \<Rightarrow> Inl x
      | Inr pl \<Rightarrow>
         (case get_node (blocks pl) h1 of
            Inl x \<Rightarrow> Inl x
          | Inr head \<Rightarrow>
             (case set_node b \<lparr>memory = m, next_block = next_block head\<rparr> h1 of
                Inl x \<Rightarrow> Inl x
              | Inr h2 \<Rightarrow> set_node (blocks pl) (head\<lparr>next_block := b\<rparr>) h2)))"

section \<open>The singleton\<close>

text \<open>The variable \<open>static MemoryPoolImpl* instance\<close> is initialized by the first call only.\<close>

definition pool_create :: "nat \<Rightarrow> nat \<Rightarrow> heap \<Rightarrow> (addr \<times> heap) res" where
  "pool_create n sz h =
     (case static_instance h of
        Some p \<Rightarrow> Inr (p, h\<lparr>instance_ptr := p\<rparr>)
      | None \<Rightarrow>
         (case MemoryPoolImpl_new n sz h of
            Inl x \<Rightarrow> Inl x
          | Inr (p, h1) \<Rightarrow> Inr (p, h1\<lparr>static_instance := Some p, instance_ptr := p\<rparr>)))"

definition pool_instance :: "heap \<Rightarrow> (addr \<times> heap) res" where
  "pool_instance h = pool_create 256 1024 h"

definition pool_release :: "heap \<Rightarrow> heap res option" where
  "pool_release h =
     (if instance_ptr h = 0 then Some (Inr h)
      else
       (case MemoryPoolImpl_destroy (instance_ptr h) h of
          None \<Rightarrow> None
        | Some (Inl x) \<Rightarrow> Some (Inl x)
        | Some (Inr h1) \<Rightarrow> Some (Inr (h1\<lparr>instance_ptr := 0\<rparr>))))"

text \<open>\<open>MemoryPool<T>\<close> for a type of \<open>sz\<close> bytes. The product \<open>n * sizeof(T)\<close> is a \<open>size_t\<close>.\<close>

definition MemoryPool_allocate :: "nat \<Rightarrow> heap \<Rightarrow> (addr \<times> heap) res" where
  "MemoryPool_allocate sz h =
     (case pool_instance h of Inl x \<Rightarrow> Inl x | Inr (p, h1) \<Rightarrow> pool_allocate p sz h1)"

definition MemoryPool_allocate_n :: "nat \<Rightarrow> nat \<Rightarrow> heap \<Rightarrow> (addr \<times> heap) res" where
  "MemoryPool_allocate_n sz n h =
     (case pool_instance h of Inl x \<Rightarrow> Inl x | Inr (p, h1) \<Rightarrow> pool_allocate p (n * sz mod 2 ^ 64) h1)"

definition MemoryPool_free :: "addr \<Rightarrow> heap \<Rightarrow> heap res" where
  "MemoryPool_free m h =
     (case pool_instance h of Inl x \<Rightarrow> Inl x | Inr (p, h1) \<Rightarrow> pool_free p m h1)"

record memory_wrapper =
  ptr :: addr
  arr :: bool
  success :: bool

definition MemoryWrapper_n :: "nat \<Rightarrow> nat \<Rightarrow> heap \<Rightarrow> (memory_wrapper \<times> heap) res" where
  "MemoryWrapper_n sz n h =
     (case MemoryPool_allocate_n sz n h of
        Inl x \<Rightarrow> Inl x
      | Inr (m, h1) \<Rightarrow>
         if m = 0
         then (let (a, h2) = new_area (n * sz) h1 in Inr (\<lparr>ptr = a, arr = True, success = False\<rparr>, h2))
         else Inr (\<lparr>ptr = m, arr = True, success = True\<rparr>, h1))"

definition MemoryWrapper_one :: "nat \<Rightarrow> heap \<Rightarrow> (memory_wrapper \<times> heap) res" where
  "MemoryWrapper_one sz h =
     (case MemoryPool_allocate sz h of
        Inl x \<Rightarrow> Inl x
      | Inr (m, h1) \<Rightarrow>
         if m = 0
         then (let (a, h2) = new_area sz h1 in Inr (\<lparr>ptr = a, arr = False, success = False\<rparr>, h2))
         else Inr (\<lparr>ptr = m, arr = False, success = True\<rparr>, h1))"

definition MemoryWrapper_destroy :: "memory_wrapper \<Rightarrow> heap \<Rightarrow> heap res" where
  "MemoryWrapper_destroy w h = (if success w then MemoryPool_free (ptr w) h else delete_area (ptr w) h)"

section \<open>The contract of a free store\<close>

text \<open>
  A free store hands out the elements of a list, last returned first; \<open>null\<close> says that there is
  none. A client takes elements and gives back elements it holds.
\<close>

datatype store_op = Take | Give nat

fun store_run ::
  "('s \<Rightarrow> ('a \<times> 's) res) \<Rightarrow> ('a \<Rightarrow> 's \<Rightarrow> 's res) \<Rightarrow> 'a \<Rightarrow> store_op list \<Rightarrow> 'a list \<Rightarrow> 's \<Rightarrow> ('a list \<times> 's) res" where
  "store_run alloc dealloc null [] held s = Inr (held, s)"
| "store_run alloc dealloc null (Take # ops) held s =
     (case alloc s of
        Inl x \<Rightarrow> Inl x
      | Inr (a, s') \<Rightarrow> store_run alloc dealloc null ops (if a = null then held else a # held) s')"
| "store_run alloc dealloc null (Give i # ops) held s =
     (if i < length held
      then (case dealloc (held ! i) s of
              Inl x \<Rightarrow> Inl x
            | Inr s' \<Rightarrow> store_run alloc dealloc null ops (take i held @ drop (Suc i) held) s')
      else store_run alloc dealloc null ops held s)"

lemma mset_remove_nth:
  "i < length xs \<Longrightarrow> mset (take i xs @ drop (Suc i) xs) + {#xs ! i#} = mset xs"
  by (metis add.commute add_mset_add_single append.assoc id_take_nth_drop mset.simps(2) mset_append union_mset_add_mset_right)

locale free_store =
  fixes rep :: "'s \<Rightarrow> 'a list \<Rightarrow> bool"
    and alloc :: "'s \<Rightarrow> ('a \<times> 's) res"
    and dealloc :: "'a \<Rightarrow> 's \<Rightarrow> 's res"
    and null :: 'a
  assumes alloc_some: "rep s (a # free) \<Longrightarrow> \<exists>s'. alloc s = Inr (a, s') \<and> rep s' free"
    and alloc_none: "rep s [] \<Longrightarrow> alloc s = Inr (null, s)"
    and dealloc_ok: "rep s free \<Longrightarrow> \<exists>s'. dealloc a s = Inr s' \<and> rep s' (a # free)"
begin

lemma store_run_conserves:
  assumes "rep s free" and "null \<notin> set free"
    and "null \<notin> set held"
  shows "\<exists>held' s' free'. store_run alloc dealloc null ops held s = Inr (held', s') \<and> rep s' free' \<and>
     mset held' + mset free' = mset held + mset free"
  using assms
proof (induction ops arbitrary: held s free)
  case Nil
  then show ?case by auto
next
  case (Cons x ops)
  show ?case
  proof (cases x)
    case Take
    show ?thesis
    proof (cases free)
      case Nil
      then show ?thesis using Cons.IH [of s "[]" held] Cons.prems Take alloc_none by auto
    next
      case free: (Cons a rest)
      then obtain s' where s': "alloc s = Inr (a, s')" "rep s' rest"
        using alloc_some Cons.prems(1) by blast
      with free Take show ?thesis
        using Cons.IH [OF s'(2), of "a # held"] Cons.prems by auto
    qed
  next
    case (Give i)
    show ?thesis
    proof (cases "i < length held")
      case True
      obtain s' where s': "dealloc (held ! i) s = Inr s'" "rep s' (held ! i # free)"
        using dealloc_ok Cons.prems(1) by blast
      have "null \<notin> set (held ! i # free)" "null \<notin> set (take i held @ drop (Suc i) held)"
        using Cons.prems(2,3) True by (auto dest: in_set_takeD in_set_dropD)
      moreover have "mset held = add_mset (held ! i) (mset (take i held) + mset (drop (Suc i) held))"
        using mset_remove_nth [OF True] by simp
      ultimately show ?thesis
        using Cons.IH [OF s'(2)] Give True s'(1) by fastforce
    qed (use Cons Give in auto)
  qed
qed

end

section \<open>The pool is a free store\<close>

fun chain :: "(addr \<rightharpoonup> MemoryBlock) \<Rightarrow> addr \<Rightarrow> (addr \<times> addr) list \<Rightarrow> bool" where
  "chain m a [] \<longleftrightarrow> a = 0"
| "chain m a ((n, x) # ns) \<longleftrightarrow> a = n \<and> n \<noteq> 0 \<and> (\<exists>nx. m n = Some \<lparr>memory = x, next_block = nx\<rparr> \<and> chain m nx ns)"

definition pool_rep :: "addr \<Rightarrow> nat \<Rightarrow> (addr \<rightharpoonup> nat) \<Rightarrow> heap \<Rightarrow> addr list \<Rightarrow> bool" where
  "pool_rep p k ar h xs \<longleftrightarrow>
     (\<exists>pl head ns. pools h p = Some pl \<and> k \<le> block_size pl \<and> nodes h (blocks pl) = Some head \<and>
        chain (nodes h) (next_block head) ns \<and> map snd ns = xs \<and> distinct (blocks pl # map fst ns) \<and>
        areas h = ar \<and> 0 < brk h \<and> (\<forall>a. brk h \<le> a \<longrightarrow> nodes h a = None))"

lemma chain_upd [simp]: "b \<notin> fst ` set ns \<Longrightarrow> chain (m(b := v)) a ns \<longleftrightarrow> chain m a ns"
  by (induction m a ns rule: chain.induct) auto

lemma chain_allocated: "chain m a ns \<Longrightarrow> n \<in> fst ` set ns \<Longrightarrow> m n \<noteq> None"
  by (induction m a ns rule: chain.induct) auto

lemmas heap_ops = get_node_def set_node_def get_pool_def delete_node_def delete_area_def new_node_def
  new_area_def new_pool_def Let_def

lemma pool_allocate_take: "pool_rep p k ar h xs \<Longrightarrow> pool_allocate p k h = pool_take p h"
  by (auto simp: pool_rep_def pool_allocate_def get_pool_def)

lemma pool_take_none: "pool_rep p k ar h [] \<Longrightarrow> pool_take p h = Inr (0, h)"
  by (auto simp: pool_rep_def pool_take_def heap_ops)

lemma pool_take_some:
  assumes "pool_rep p k ar h (x # xs)"
  shows "\<exists>h'. pool_take p h = Inr (x, h') \<and> pool_rep p k ar h' xs"
proof -
  obtain pl head n nx ns where r: "pools h p = Some pl" "k \<le> block_size pl" "nodes h (blocks pl) = Some head"
    "next_block head = n" "n \<noteq> 0" "nodes h n = Some \<lparr>memory = x, next_block = nx\<rparr>" "chain (nodes h) nx ns"
    "map snd ns = xs" "distinct (blocks pl # n # map fst ns)" "areas h = ar" "0 < brk h"
    "\<forall>a. brk h \<le> a \<longrightarrow> nodes h a = None"
    using assms unfolding pool_rep_def by (auto simp: map_eq_Cons_conv)
  then show ?thesis
    by (auto simp: pool_take_def heap_ops pool_rep_def intro!: exI [of _ ns])
qed

lemma pool_free_ok:
  assumes "pool_rep p k ar h xs"
  shows "\<exists>h'. pool_free p m h = Inr h' \<and> pool_rep p k ar h' (m # xs)"
proof -
  obtain pl head ns where r: "pools h p = Some pl" "k \<le> block_size pl" "nodes h (blocks pl) = Some head"
    "chain (nodes h) (next_block head) ns" "map snd ns = xs" "distinct (blocks pl # map fst ns)" "areas h = ar"
    "0 < brk h" "\<forall>a. brk h \<le> a \<longrightarrow> nodes h a = None"
    using assms unfolding pool_rep_def by auto
  have "brk h \<noteq> blocks pl" "brk h \<notin> fst ` set ns"
    using r chain_allocated [OF r(4)] by force+
  then show ?thesis
    using r by (auto simp: pool_free_def heap_ops pool_rep_def intro!: exI [of _ "(brk h, m) # ns"])
qed

interpretation pool: free_store "pool_rep p k ar" "pool_allocate p k" "pool_free p" 0
  for p k :: nat and ar
  by unfold_locales (simp_all add: pool_allocate_take pool_take_none pool_take_some pool_free_ok)

text \<open>The addresses the constructor uses for nodes and memory, and the heap it leaves.\<close>

fun fresh_blocks :: "nat \<Rightarrow> addr \<Rightarrow> (addr \<times> addr) list" where
  "fresh_blocks 0 a = []"
| "fresh_blocks (Suc k) a = (a, Suc a) # fresh_blocks k (Suc (Suc a))"

lemma fresh_blocks_range: "(n, x) \<in> set (fresh_blocks k a) \<Longrightarrow> a \<le> n \<and> x = Suc n"
  by (induction k a rule: fresh_blocks.induct) auto

lemma length_fresh_blocks [simp]: "length (fresh_blocks k a) = k"
  by (induction k a rule: fresh_blocks.induct) auto

lemma distinct_fresh_blocks: "distinct (map fst (fresh_blocks k a) @ map snd (fresh_blocks k a))"
proof (induction k a rule: fresh_blocks.induct)
  case (2 k a)
  then show ?case by (auto dest!: fresh_blocks_range)
qed simp

lemma fresh_blocks_less: "n \<in> set (map fst (fresh_blocks k a) @ map snd (fresh_blocks k a)) \<Longrightarrow> n < a + 2 * k"
  by (induction k a rule: fresh_blocks.induct) auto

lemma build_blocks_ok:
  assumes "nodes h block = Some prev" and "next_block prev = 0" and "0 < brk h"
    and "\<forall>a. brk h \<le> a \<longrightarrow> nodes h a = None"
  shows "\<exists>h' nx. build_blocks k sz block h = Inr h' \<and>
     nodes h' block = Some (prev\<lparr>next_block := nx\<rparr>) \<and> chain (nodes h') nx (fresh_blocks k (brk h)) \<and>
     dom (nodes h') = dom (nodes h) \<union> fst ` set (fresh_blocks k (brk h)) \<and>
     areas h' = (\<lambda>a. if a \<in> snd ` set (fresh_blocks k (brk h)) then Some sz else areas h a) \<and>
     brk h' = brk h + 2 * k \<and> pools h' = pools h \<and> static_instance h' = static_instance h \<and>
     instance_ptr h' = instance_ptr h \<and> (\<forall>a < brk h. a \<noteq> block \<longrightarrow> nodes h' a = nodes h a)"
  using assms
proof (induction k arbitrary: block prev h)
  case 0
  then show ?case by (auto intro!: exI [of _ 0])
next
  case (Suc k)
  let ?b = "brk h"
  define h4 where "h4 = h\<lparr>areas := (areas h)(Suc ?b \<mapsto> sz), brk := Suc (Suc ?b),
      nodes := (nodes h)(block \<mapsto> prev\<lparr>next_block := ?b\<rparr>, ?b \<mapsto> \<lparr>memory = Suc ?b, next_block = 0\<rparr>)\<rparr>"
  have bb: "block < ?b" using Suc.prems(1,4) by (metis not_less option.distinct(1))
  have unf: "build_blocks (Suc k) sz block h = build_blocks k sz ?b h4"
    using Suc.prems bb by (simp add: heap_ops h4_def fun_upd_twist)
  have "nodes h4 ?b = Some \<lparr>memory = Suc ?b, next_block = 0\<rparr>" "0 < brk h4" "\<forall>a. brk h4 \<le> a \<longrightarrow> nodes h4 a = None"
    using Suc.prems bb by (simp_all add: h4_def)
  from Suc.IH [OF this(1) _ this(2,3)] obtain h' nx where
    h': "build_blocks k sz ?b h4 = Inr h'" "nodes h' ?b = Some \<lparr>memory = Suc ?b, next_block = nx\<rparr>"
    "chain (nodes h') nx (fresh_blocks k (brk h4))"
    "dom (nodes h') = dom (nodes h4) \<union> fst ` set (fresh_blocks k (brk h4))"
    "areas h' = (\<lambda>a. if a \<in> snd ` set (fresh_blocks k (brk h4)) then Some sz else areas h4 a)"
    "brk h' = brk h4 + 2 * k" "pools h' = pools h4" "static_instance h' = static_instance h4"
    "instance_ptr h' = instance_ptr h4" "\<forall>a < brk h4. a \<noteq> ?b \<longrightarrow> nodes h' a = nodes h4 a"
    by auto
  have "nodes h' block = Some (prev\<lparr>next_block := ?b\<rparr>)"
    using h'(10) bb by (simp add: h4_def)
  moreover have "chain (nodes h') ?b (fresh_blocks (Suc k) ?b)"
    using h'(2,3) Suc.prems(3) by (simp add: h4_def)
  moreover have "dom (nodes h') = dom (nodes h) \<union> fst ` set (fresh_blocks (Suc k) ?b)"
    using h'(4) Suc.prems(1) by (auto simp: h4_def)
  moreover have "areas h' = (\<lambda>a. if a \<in> snd ` set (fresh_blocks (Suc k) ?b) then Some sz else areas h a)"
    using h'(5) by (auto simp: h4_def)
  ultimately show ?case
    unfolding unf using h' bb by (auto simp: h4_def)
qed

lemma destroy_blocks_ok:
  assumes "chain (nodes h) a ns" and "distinct (map fst ns)" and "distinct (map snd ns)"
    and "\<forall>x\<in>snd ` set ns. x \<noteq> 0 \<and> areas h x \<noteq> None"
  shows "destroy_blocks a h
     = Some (Inr (h\<lparr>nodes := (nodes h) |` (- fst ` set ns), areas := (areas h) |` (- snd ` set ns)\<rparr>))"
  using assms
proof (induction ns arbitrary: a h)
  case Nil
  then show ?case by (subst destroy_blocks.simps) (simp add: restrict_map_def)
next
  case (Cons nx ns)
  obtain n x where nx: "nx = (n, x)" by (cases nx)
  from Cons.prems obtain nxt where c: "a = n" "n \<noteq> 0" "nodes h n = Some \<lparr>memory = x, next_block = nxt\<rparr>"
    "chain (nodes h) nxt ns" and x: "x \<noteq> 0" "\<exists>y. areas h x = Some y"
    by (auto simp: nx)
  let ?h = "h\<lparr>areas := (areas h)(x := None), nodes := (nodes h)(n := None)\<rparr>"
  have unf: "destroy_blocks a h = destroy_blocks nxt ?h"
    using c x by (subst destroy_blocks.simps) (auto simp: heap_ops)
  have "destroy_blocks nxt ?h = Some (Inr (?h\<lparr>nodes := nodes ?h |` (- fst ` set ns), areas := areas ?h |` (- snd ` set ns)\<rparr>))"
  proof (rule Cons.IH)
    show "chain (nodes ?h) nxt ns" using Cons.prems(2) c(4) by (simp add: nx)
  qed (use Cons.prems in \<open>auto simp: nx\<close>)
  moreover have "(nodes h)(n := None) |` (- fst ` set ns) = nodes h |` (- insert n (fst ` set ns))"
    "(areas h)(x := None) |` (- snd ` set ns) = areas h |` (- insert x (snd ` set ns))"
    by (auto simp: restrict_map_def fun_eq_iff)
  ultimately show ?case
    unfolding unf by (simp add: nx)
qed

lemma MemoryPoolImpl_new_ok:
  assumes "0 < brk h" and "\<forall>a. brk h \<le> a \<longrightarrow> nodes h a = None"
  shows "\<exists>h' nx. MemoryPoolImpl_new n sz h = Inr (Suc (brk h), h') \<and>
     pools h' = (pools h)(Suc (brk h) \<mapsto> \<lparr>blocks = brk h, num_blocks = n, block_size = sz\<rparr>) \<and>
     nodes h' (brk h) = Some \<lparr>memory = 0, next_block = nx\<rparr> \<and>
     chain (nodes h') nx (fresh_blocks n (Suc (Suc (brk h)))) \<and>
     dom (nodes h') = dom (nodes h) \<union> insert (brk h) (fst ` set (fresh_blocks n (Suc (Suc (brk h))))) \<and>
     areas h' = (\<lambda>a. if a \<in> snd ` set (fresh_blocks n (Suc (Suc (brk h)))) then Some sz else areas h a) \<and>
     brk h' = Suc (Suc (brk h)) + 2 * n \<and> static_instance h' = static_instance h \<and> instance_ptr h' = instance_ptr h"
proof -
  define h2 where "h2 = h\<lparr>nodes := (nodes h)(brk h \<mapsto> \<lparr>memory = 0, next_block = 0\<rparr>),
      pools := (pools h)(Suc (brk h) \<mapsto> \<lparr>blocks = brk h, num_blocks = n, block_size = sz\<rparr>), brk := Suc (Suc (brk h))\<rparr>"
  have "nodes h2 (brk h) = Some \<lparr>memory = 0, next_block = 0\<rparr>" "0 < brk h2" "\<forall>a. brk h2 \<le> a \<longrightarrow> nodes h2 a = None"
    using assms by (simp_all add: h2_def)
  moreover have "MemoryPoolImpl_new n sz h = map_sum id (Pair (Suc (brk h))) (build_blocks n sz (brk h) h2)"
    by (simp add: MemoryPoolImpl_new_def new_node_def new_pool_def h2_def)
  ultimately show ?thesis
    using build_blocks_ok [of h2 "brk h" "\<lparr>memory = 0, next_block = 0\<rparr>" n sz]
    by (auto simp: h2_def cong: if_cong)
qed

lemma fresh_blocks_snd: "0 \<notin> snd ` set (fresh_blocks n a)" "b \<le> a \<Longrightarrow> b \<notin> snd ` set (fresh_blocks n a)"
  "b < a \<Longrightarrow> b \<notin> fst ` set (fresh_blocks n a)"
  by (auto dest: fresh_blocks_range)

lemma MemoryPoolImpl_new_rep:
  assumes "0 < brk h" and "\<forall>a. brk h \<le> a \<longrightarrow> nodes h a = None"
  shows "\<exists>p h' free. MemoryPoolImpl_new n sz h = Inr (p, h') \<and> pool_rep p sz (areas h') h' free \<and>
     length free = n \<and> distinct free \<and> 0 \<notin> set free \<and> (\<forall>x\<in>set free. areas h' x = Some sz)"
proof -
  let ?ns = "fresh_blocks n (Suc (Suc (brk h)))"
  obtain h' nx where h': "MemoryPoolImpl_new n sz h = Inr (Suc (brk h), h')"
    "pools h' = (pools h)(Suc (brk h) \<mapsto> \<lparr>blocks = brk h, num_blocks = n, block_size = sz\<rparr>)"
    "nodes h' (brk h) = Some \<lparr>memory = 0, next_block = nx\<rparr>" "chain (nodes h') nx ?ns"
    "dom (nodes h') = dom (nodes h) \<union> insert (brk h) (fst ` set ?ns)"
    "areas h' = (\<lambda>a. if a \<in> snd ` set ?ns then Some sz else areas h a)" "brk h' = Suc (Suc (brk h)) + 2 * n"
    using MemoryPoolImpl_new_ok [OF assms, of n sz] by blast
  have d: "distinct (map fst ?ns)" "distinct (map snd ?ns)"
    using distinct_fresh_blocks [of n "Suc (Suc (brk h))"] by auto
  have "nodes h' a = None" if "brk h' \<le> a" for a
  proof -
    have "a \<notin> dom (nodes h) \<union> insert (brk h) (fst ` set ?ns)"
      using that assms(2) h'(7) fresh_blocks_less [of a n "Suc (Suc (brk h))"] by auto
    then show ?thesis unfolding h'(5) [symmetric] by (simp add: domIff)
  qed
  then have "pool_rep (Suc (brk h)) sz (areas h') h' (map snd ?ns)"
    unfolding pool_rep_def using h'(2-4,7) d fresh_blocks_snd(3) [of "brk h" "Suc (Suc (brk h))" n]
    by (intro exI [of _ "\<lparr>blocks = brk h, num_blocks = n, block_size = sz\<rparr>"]
        exI [of _ "\<lparr>memory = 0, next_block = nx\<rparr>"] exI [of _ ?ns]) auto
  then show ?thesis
    using h'(1,6) d(2) fresh_blocks_snd(1) [of n "Suc (Suc (brk h))"]
    by (intro exI [of _ "Suc (brk h)"] exI [of _ h'] exI [of _ "map snd ?ns"]) auto
qed

text \<open>The destructor of a new pool deletes its blocks and their memory, and not the header node.\<close>

lemma MemoryPoolImpl_destroy_ok:
  assumes "pools h p = Some pl" and "nodes h (blocks pl) = Some \<lparr>memory = 0, next_block = nx\<rparr>"
    and "chain (nodes h) nx ns" and "distinct (blocks pl # map fst ns)" and "distinct (map snd ns)"
    and "\<forall>x\<in>snd ` set ns. x \<noteq> 0 \<and> areas h x \<noteq> None"
  shows "\<exists>h'. MemoryPoolImpl_destroy p h = Some (Inr h') \<and> pools h' p = None \<and>
     static_instance h' = static_instance h \<and> dom (nodes h') = dom (nodes h) - fst ` set ns \<and>
     dom (areas h') = dom (areas h) - snd ` set ns"
proof -
  let ?h = "h\<lparr>nodes := (nodes h)(blocks pl \<mapsto> \<lparr>memory = 0, next_block = 0\<rparr>)\<rparr>"
  have "chain (nodes ?h) nx ns"
    using assms(3,4) by simp
  then have "destroy_blocks nx ?h
      = Some (Inr (?h\<lparr>nodes := nodes ?h |` (- fst ` set ns), areas := areas ?h |` (- snd ` set ns)\<rparr>))"
    using assms(4-6) by (intro destroy_blocks_ok) simp_all
  then show ?thesis
    using assms(1,2) by (auto simp: MemoryPoolImpl_destroy_def heap_ops)
qed

section \<open>Properties\<close>

text \<open>
  Property C31. The pool neither loses nor duplicates memory: after any sequence of allocations and
  frees of blocks the client holds, the blocks held and the blocks free are together the blocks
  the pool was made with, all different, none null and each of the pool's block size. Nothing on
  the way is undefined, and an allocation fails only when all blocks are held.
\<close>

theorem pool_conserves_blocks:
  assumes "0 < brk h" and "\<forall>a. brk h \<le> a \<longrightarrow> nodes h a = None"
  shows "\<exists>p h1 held h2 free. MemoryPoolImpl_new n sz h = Inr (p, h1) \<and>
     store_run (pool_allocate p sz) (pool_free p) 0 ops [] h1 = Inr (held, h2) \<and>
     length held + length free = n \<and> distinct (held @ free) \<and> 0 \<notin> set (held @ free) \<and>
     (\<forall>x\<in>set (held @ free). areas h2 x = Some sz) \<and>
     (\<exists>h3. pool_allocate p sz h2 = Inr (if free = [] then 0 else hd free, h3))"
proof -
  obtain p h1 all where n: "MemoryPoolImpl_new n sz h = Inr (p, h1)" "pool_rep p sz (areas h1) h1 all"
    "length all = n" "distinct all" "0 \<notin> set all" "\<forall>x\<in>set all. areas h1 x = Some sz"
    using MemoryPoolImpl_new_rep [OF assms, of n sz] by blast
  obtain held h2 free where r: "store_run (pool_allocate p sz) (pool_free p) 0 ops [] h1 = Inr (held, h2)"
    "pool_rep p sz (areas h1) h2 free" and m: "mset (held @ free) = mset all"
    using pool.store_run_conserves [OF n(2,5), of "[]" ops] by auto
  have "areas h2 = areas h1" using r(2) by (auto simp: pool_rep_def)
  then have "0 \<notin> set (held @ free)" "\<forall>x\<in>set (held @ free). areas h2 x = Some sz"
    using n(5,6) mset_eq_setD [OF m] by simp_all
  moreover have "length held + length free = n" "distinct (held @ free)"
    using mset_eq_length [OF m] mset_eq_imp_distinct_iff [OF m] n(3,4) by simp_all
  moreover have "\<exists>h3. pool_allocate p sz h2 = Inr (if free = [] then 0 else hd free, h3)"
    using r(2) pool.alloc_none [of p sz "areas h1" h2] pool.alloc_some [of p sz "areas h1" h2 "hd free" "tl free"]
    by (cases "free = []") auto
  ultimately show ?thesis
    using n(1) r(1) by blast
qed

theorem pool_conserves_blocks_witness:
  "\<exists>p h1 held h2 free. MemoryPoolImpl_new 2 16 start_heap = Inr (p, h1) \<and>
     store_run (pool_allocate p 16) (pool_free p) 0 [Take, Take, Give 0, Take] [] h1 = Inr (held, h2) \<and>
     length held + length free = 2 \<and> distinct (held @ free) \<and> 0 \<notin> set (held @ free) \<and>
     (\<forall>x\<in>set (held @ free). areas h2 x = Some 16) \<and>
     (\<exists>h3. pool_allocate p 16 h2 = Inr (if free = [] then 0 else hd free, h3))"
  by (rule pool_conserves_blocks) (simp_all add: start_heap_def)

text \<open>
  After \<open>release\<close>, the pool cannot be used again: \<open>instance\<close> still returns the address of
  the deleted object, because the function's static variable keeps it, and every allocation and
  every free through it is undefined behaviour. The header node of the list is never deleted.
\<close>

theorem pool_dangles_after_release:
  assumes "static_instance h = None" and "0 < brk h" and "\<forall>a. brk h \<le> a \<longrightarrow> nodes h a = None"
  shows "\<exists>p h1 h2 h3. pool_create n sz h = Inr (p, h1) \<and> pool_release h1 = Some (Inr h2) \<and>
     dom (nodes h2) = insert (brk h) (dom (nodes h)) \<and> pool_instance h2 = Inr (p, h3) \<and>
     (\<forall>k. pool_allocate p k h3 = Inl (UB ''dangling MemoryPoolImpl'')) \<and>
     (\<forall>m. pool_free p m h3 = Inl (UB ''dangling MemoryPoolImpl''))"
proof -
  let ?ns = "fresh_blocks n (Suc (Suc (brk h)))" and ?p = "Suc (brk h)"
  obtain h' nx where h': "MemoryPoolImpl_new n sz h = Inr (?p, h')"
    "pools h' = (pools h)(?p \<mapsto> \<lparr>blocks = brk h, num_blocks = n, block_size = sz\<rparr>)"
    "nodes h' (brk h) = Some \<lparr>memory = 0, next_block = nx\<rparr>" "chain (nodes h') nx ?ns"
    "dom (nodes h') = dom (nodes h) \<union> insert (brk h) (fst ` set ?ns)"
    "areas h' = (\<lambda>a. if a \<in> snd ` set ?ns then Some sz else areas h a)"
    using MemoryPoolImpl_new_ok [OF assms(2,3), of n sz] by blast
  let ?h1 = "h'\<lparr>static_instance := Some ?p, instance_ptr := ?p\<rparr>"
  have "distinct (brk h # map fst ?ns)" "distinct (map snd ?ns)"
    using distinct_fresh_blocks [of n "Suc (Suc (brk h))"] fresh_blocks_snd(3) [of "brk h" "Suc (Suc (brk h))" n] by auto
  moreover have "\<forall>x\<in>snd ` set ?ns. x \<noteq> 0 \<and> areas ?h1 x \<noteq> None"
    using h'(6) by (auto dest: fresh_blocks_range)
  ultimately obtain h2 where h2: "MemoryPoolImpl_destroy ?p ?h1 = Some (Inr h2)" "pools h2 ?p = None"
    "static_instance h2 = Some ?p" "dom (nodes h2) = dom (nodes h') - fst ` set ?ns"
    using MemoryPoolImpl_destroy_ok [of ?h1 ?p "\<lparr>blocks = brk h, num_blocks = n, block_size = sz\<rparr>" nx ?ns] h'(2-4)
    by (simp del: distinct.simps) blast
  have "fst ` set ?ns \<inter> dom (nodes h) = {}" "brk h \<notin> fst ` set ?ns"
    using assms(3) by (force dest: fresh_blocks_range)+
  then have "dom (nodes h2) = insert (brk h) (dom (nodes h))"
    using h2(4) h'(5) by auto
  then show ?thesis
    using h'(1) h2(1-3) assms(1)
    by (simp add: pool_create_def pool_release_def pool_instance_def pool_allocate_def pool_free_def get_pool_def
        new_node_def)
qed

theorem pool_dangles_after_release_witness:
  "\<exists>p h1 h2 h3. pool_create 3 8 start_heap = Inr (p, h1) \<and> pool_release h1 = Some (Inr h2) \<and>
     dom (nodes h2) = {1} \<and> pool_instance h2 = Inr (p, h3) \<and>
     (\<forall>k. pool_allocate p k h3 = Inl (UB ''dangling MemoryPoolImpl'')) \<and>
     (\<forall>m. pool_free p m h3 = Inl (UB ''dangling MemoryPoolImpl''))"
  using pool_dangles_after_release [of start_heap 3 8] by (simp add: start_heap_def)

end
