(* ===== verification/Argument_Parser.thy ===== *)
theory Argument_Parser
  imports Ladder_Prelude
begin

text \<open>
  \<^verbatim>\<open>ladder/src/ArgumentParser.cpp\<close>: command line options. A subclass declares the names of string
  options and of flags, each with a bit that says whether it is required (\<open>InitOptions\<close>, here the
  initial state); \<open>Init\<close> reads the command line. Messages to \<open>std::cerr\<close> are left out.

  The declared fields are association lists, since \<open>CheckRequired\<close> iterates over them; the values
  are maps. \<open>std::map::insert\<close> does not replace a value.
\<close>

section \<open>The model\<close>

record parser =
  options :: "string \<rightharpoonup> string"
  enabled :: "string \<rightharpoonup> bool"
  fields_options :: "(string \<times> bool) list"
  fields_enabled :: "(string \<times> bool) list"

definition map_insert :: "'k \<Rightarrow> 'v \<Rightarrow> ('k \<rightharpoonup> 'v) \<Rightarrow> ('k \<rightharpoonup> 'v)" where
  "map_insert k v m = (case m k of None \<Rightarrow> m(k \<mapsto> v) | Some _ \<Rightarrow> m)"

definition IsOption :: "string \<Rightarrow> bool" where
  "IsOption str \<longleftrightarrow> 2 < length str \<and> take 2 str = ''--''"

definition is_field :: "(string \<times> bool) list \<Rightarrow> string \<Rightarrow> bool" where
  "is_field fs k \<longleftrightarrow> map_of fs k \<noteq> None"

definition CheckRequired :: "parser \<Rightarrow> bool" where
  "CheckRequired p \<longleftrightarrow>
     list_all (\<lambda>(k, required). \<not> (required \<and> options p k = None)) (fields_options p) \<and>
     list_all (\<lambda>(k, required). \<not> (required \<and> enabled p k = None)) (fields_enabled p)"

text \<open>The loop over the arguments; the bit is false when \<open>Init\<close> returns false inside it.\<close>

fun parse_args :: "string list \<Rightarrow> parser \<Rightarrow> bool \<times> parser" where
  "parse_args [] p = (True, p)"
| "parse_args (a # as) p =
     (if IsOption a
      then
       (let key = drop 2 a in
        if is_field (fields_options p) key
        then (case as of
                [] \<Rightarrow> (False, p)
              | v # as' \<Rightarrow>
                  if IsOption v then (False, p)
                  else parse_args as' (p\<lparr>options := map_insert key v (options p)\<rparr>))
        else if is_field (fields_enabled p) key
        then parse_args as (p\<lparr>enabled := map_insert key True (enabled p)\<rparr>)
        else (False, p))
      else parse_args as p)"

definition ArgumentParser_Init :: "string list \<Rightarrow> parser \<Rightarrow> bool \<times> parser" where
  "ArgumentParser_Init argv p =
     (case parse_args argv p of (ok, p') \<Rightarrow> if ok then (CheckRequired p', p') else (False, p'))"

definition GetStringArg :: "string \<Rightarrow> parser \<Rightarrow> string option" where
  "GetStringArg key p = options p key"

definition GetBoolArg :: "string \<Rightarrow> parser \<Rightarrow> bool" where
  "GetBoolArg key p = (case enabled p key of None \<Rightarrow> False | Some b \<Rightarrow> b)"

section \<open>Command lines\<close>

text \<open>What a command line means: a list of options with their values, flags, and other words.\<close>

datatype item = Opt string string | Flag string | Word string

fun render :: "item \<Rightarrow> string list" where
  "render (Opt k v) = [''--'' @ k, v]"
| "render (Flag k) = [''--'' @ k]"
| "render (Word s) = [s]"

fun item_ok :: "parser \<Rightarrow> item \<Rightarrow> bool" where
  "item_ok p (Opt k v) \<longleftrightarrow> k \<noteq> [] \<and> is_field (fields_options p) k \<and> \<not> IsOption v"
| "item_ok p (Flag k) \<longleftrightarrow> k \<noteq> [] \<and> \<not> is_field (fields_options p) k \<and> is_field (fields_enabled p) k"
| "item_ok p (Word s) \<longleftrightarrow> \<not> IsOption s"

fun opt_values :: "item list \<Rightarrow> string \<rightharpoonup> string" where
  "opt_values [] = Map.empty"
| "opt_values (Opt k v # is) = (opt_values is)(k \<mapsto> v)"
| "opt_values (_ # is) = opt_values is"

definition flags :: "item list \<Rightarrow> string set" where
  "flags is = {k. Flag k \<in> set is}"

lemma IsOption_dashes [simp]: "IsOption (CHR ''-'' # CHR ''-'' # k) \<longleftrightarrow> k \<noteq> []"
  by (cases k) (auto simp: IsOption_def)

lemma item_ok_upd [simp]:
  "item_ok (p\<lparr>options := o1\<rparr>) i = item_ok p i" "item_ok (p\<lparr>enabled := e1\<rparr>) i = item_ok p i"
  by (cases i; simp)+

lemma IsOption_D: "IsOption a \<Longrightarrow> \<exists>k. k \<noteq> [] \<and> a = ''--'' @ k"
  unfolding IsOption_def
  by (metis append_take_drop_id drop_eq_Nil2 not_le)

lemma map_insert_apply: "map_insert k v m x = (if m x = None \<and> x = k then Some v else m x)"
  by (auto simp: map_insert_def split: option.split)

text \<open>The loop accepts exactly the rendered command lines, and collects their values in front.\<close>

lemma parse_args_render:
  assumes "\<forall>i\<in>set is. item_ok p i"
  shows "parse_args (concat (map render is)) p =
     (True, p\<lparr>options := opt_values is ++ options p,
       enabled := (\<lambda>k. if enabled p k = None \<and> k \<in> flags is then Some True else enabled p k)\<rparr>)"
  using assms
proof (induction "is" arbitrary: p)
  case Nil
  then show ?case by (simp add: flags_def)
next
  case (Cons i "is")
  show ?case
  proof (cases i)
    case (Opt k v)
    have "opt_values is ++ map_insert k v (options p) = opt_values (Opt k v # is) ++ options p"
      by (auto simp: map_insert_apply fun_eq_iff map_add_def split: option.split)
    then show ?thesis
      using Cons Opt by (simp add: flags_def cong: if_cong del: opt_values.simps(2))
  next
    case (Flag k)
    have "(\<lambda>x. if map_insert k True (enabled p) x = None \<and> x \<in> flags is then Some True else map_insert k True (enabled p) x)
        = (\<lambda>x. if enabled p x = None \<and> x \<in> flags (Flag k # is) then Some True else enabled p x)"
      by (auto simp: map_insert_apply fun_eq_iff flags_def)
    then show ?thesis
      using Cons Flag by (simp cong: if_cong)
  next
    case (Word s)
    then show ?thesis
      using Cons by (simp add: flags_def)
  qed
qed

lemma parse_args_accepts:
  assumes "parse_args as p = (True, p')"
  shows "\<exists>is. (\<forall>i\<in>set is. item_ok p i) \<and> as = concat (map render is)"
  using assms
proof (induction "length as" arbitrary: as p rule: less_induct)
  case less
  show ?case
  proof (cases as)
    case Nil
    then show ?thesis by (auto intro: exI [of _ "[]"])
  next
    case (Cons a as1)
    show ?thesis
    proof (cases "IsOption a")
      case True
      then obtain k where a: "a = CHR ''-'' # CHR ''-'' # k" "k \<noteq> []"
        using IsOption_D by auto
      show ?thesis
      proof (cases "is_field (fields_options p) k")
        case True
        then obtain v as2 where v: "as1 = v # as2" "\<not> IsOption v"
          "parse_args as2 (p\<lparr>options := map_insert k v (options p)\<rparr>) = (True, p')"
          using less.prems Cons a by (auto split: list.splits if_splits)
        obtain "is" where "\<forall>i\<in>set is. item_ok p i" "as2 = concat (map render is)"
          using less.hyps [OF _ v(3)] Cons v(1) by auto
        then show ?thesis
          using Cons a True v by (intro exI [of _ "Opt k v # is"]) simp
      next
        case False
        then have f: "is_field (fields_enabled p) k"
          and r: "parse_args as1 (p\<lparr>enabled := map_insert k True (enabled p)\<rparr>) = (True, p')"
          using less.prems Cons a by (auto split: if_splits)
        obtain "is" where "\<forall>i\<in>set is. item_ok p i" "as1 = concat (map render is)"
          using less.hyps [OF _ r] Cons by auto
        then show ?thesis
          using Cons a f False by (intro exI [of _ "Flag k # is"]) simp
      qed
    next
      case False
      then obtain "is" where "\<forall>i\<in>set is. item_ok p i" "as1 = concat (map render is)"
        using less.hyps [of as1 p] less.prems Cons by auto
      then show ?thesis
        using Cons False by (intro exI [of _ "Word a # is"]) simp
    qed
  qed
qed

section \<open>Properties\<close>

definition parser_declares :: "(string \<times> bool) list \<Rightarrow> (string \<times> bool) list \<Rightarrow> parser" where
  "parser_declares fo fe = \<lparr>options = Map.empty, enabled = Map.empty, fields_options = fo, fields_enabled = fe\<rparr>"

text \<open>
  Property C33. \<open>Init\<close> accepts exactly the command lines that are made of declared options followed by
  their value, declared flags and other words, in which every required option and flag occurs.
\<close>

theorem Init_accepts_iff:
  "fst (ArgumentParser_Init argv (parser_declares fo fe)) \<longleftrightarrow>
     (\<exists>items. (\<forall>i\<in>set items. item_ok (parser_declares fo fe) i) \<and> argv = concat (map render items) \<and>
        (\<forall>k. (k, True) \<in> set fo \<longrightarrow> opt_values items k \<noteq> None) \<and>
        (\<forall>k. (k, True) \<in> set fe \<longrightarrow> k \<in> flags items))"
  (is "?L \<longleftrightarrow> ?R")
proof
  assume ?L
  then obtain p' where pa: "parse_args argv (parser_declares fo fe) = (True, p')" and cr: "CheckRequired p'"
    by (auto simp: ArgumentParser_Init_def split: prod.splits if_splits)
  from parse_args_accepts [OF pa] obtain items where
    "\<forall>i\<in>set items. item_ok (parser_declares fo fe) i" "argv = concat (map render items)" by blast
  with parse_args_render [OF this(1)] pa cr show ?R
    by (auto simp: CheckRequired_def parser_declares_def list_all_iff split: if_splits
        intro!: exI [of _ items])
next
  assume ?R
  then obtain items where "\<forall>i\<in>set items. item_ok (parser_declares fo fe) i" "argv = concat (map render items)"
    "\<forall>k. (k, True) \<in> set fo \<longrightarrow> opt_values items k \<noteq> None" "\<forall>k. (k, True) \<in> set fe \<longrightarrow> k \<in> flags items"
    by blast
  with parse_args_render [OF this(1)] show ?L
    by (auto simp: ArgumentParser_Init_def CheckRequired_def parser_declares_def list_all_iff)
qed

text \<open>
  On an accepted command line, \<open>GetStringArg\<close> gives for every option the value of its
  first occurrence, and \<open>GetBoolArg\<close> says which flags occur.
\<close>

theorem Init_values:
  assumes "\<forall>i\<in>set items. item_ok (parser_declares fo fe) i"
  shows "\<forall>k. GetStringArg k (snd (ArgumentParser_Init (concat (map render items)) (parser_declares fo fe))) = opt_values items k \<and>
     (GetBoolArg k (snd (ArgumentParser_Init (concat (map render items)) (parser_declares fo fe))) \<longleftrightarrow> k \<in> flags items)"
  using parse_args_render [OF assms]
  by (auto simp: ArgumentParser_Init_def GetStringArg_def GetBoolArg_def parser_declares_def split: if_splits)

definition sample_items :: "item list" where
  "sample_items = [Word ''prog'', Opt ''port'' ''80'', Flag ''v'', Opt ''port'' ''81'']"

lemma sample_items_ok: "\<forall>i\<in>set sample_items. item_ok (parser_declares [(''port'', True)] [(''v'', False)]) i"
  by (simp add: sample_items_def parser_declares_def is_field_def IsOption_def)

theorem Init_values_witness:
  "GetStringArg ''port'' (snd (ArgumentParser_Init [''prog'', ''--port'', ''80'', ''--v'', ''--port'', ''81'']
       (parser_declares [(''port'', True)] [(''v'', False)]))) = Some ''80'' \<and>
   GetBoolArg ''v'' (snd (ArgumentParser_Init [''prog'', ''--port'', ''80'', ''--v'', ''--port'', ''81'']
       (parser_declares [(''port'', True)] [(''v'', False)])))"
  using Init_values [OF sample_items_ok] by (simp add: sample_items_def flags_def)

theorem Init_accepts_iff_witness:
  "fst (ArgumentParser_Init [''prog'', ''--port'', ''80'', ''--v'', ''--port'', ''81'']
       (parser_declares [(''port'', True)] [(''v'', False)]))"
  using sample_items_ok
  by (subst Init_accepts_iff, intro exI [of _ sample_items]) (simp add: sample_items_def)

end
