(* ===== verification/Decimal_Text.thy ===== *)
theory Decimal_Text
  imports Ladder_Prelude
begin

text \<open>Conversions of the C and C++ libraries between numbers and their decimal texts, and that they are inverse to each other.\<close>

definition isspace :: "char \<Rightarrow> bool" where
  "isspace c \<longleftrightarrow> c = CHR '' '' \<or> (9 \<le> (of_char c :: nat) \<and> of_char c \<le> (13 :: nat))"

definition isdigit :: "char \<Rightarrow> bool" where
  "isdigit c \<longleftrightarrow> 48 \<le> (of_char c :: nat) \<and> of_char c \<le> (57 :: nat)"

definition digits_value :: "string \<Rightarrow> int" where
  "digits_value ds = foldl (\<lambda>a c. 10 * a + (of_char c - 48)) 0 ds"

text \<open>\<open>std::atoi\<close>; a value that is no \<open>int\<close> is undefined behaviour.\<close>

definition atoi :: "string \<Rightarrow> int res" where
  "atoi s =
     (let t = dropWhile isspace s;
          (neg, u) = (case t of c # r \<Rightarrow> if c = CHR ''-'' then (True, r) else if c = CHR ''+'' then (False, r) else (False, t)
                      | [] \<Rightarrow> (False, []));
          n = digits_value (takeWhile isdigit u);
          v = (if neg then - n else n) in
      if - (2 ^ 31) \<le> v \<and> v < 2 ^ 31 then Inr v else Inl (UB ''atoi''))"

definition digit :: "nat \<Rightarrow> char" where
  "digit n = char_of (48 + n)"

fun nat_to_string :: "nat \<Rightarrow> string" where
  "nat_to_string n = (if n < 10 then [digit n] else nat_to_string (n div 10) @ [digit (n mod 10)])"

declare nat_to_string.simps [simp del]

definition to_string :: "int \<Rightarrow> string" where
  "to_string i = (if i < 0 then CHR ''-'' # nat_to_string (nat (- i)) else nat_to_string (nat i))"

text \<open>\<open>printf\<close> with a width that is filled with zeros.\<close>

definition zero_padded :: "nat \<Rightarrow> nat \<Rightarrow> string" where
  "zero_padded width n = (let t = nat_to_string n in replicate (width - length t) (CHR ''0'') @ t)"

section \<open>Digits\<close>

lemma of_char_digit: "n < 10 \<Longrightarrow> of_char (digit n) = (48 + n :: nat)"
  by (simp add: digit_def)

lemma isdigit_digit: "n < 10 \<Longrightarrow> isdigit (digit n)"
  by (simp add: isdigit_def of_char_digit)

lemma int_of_char_digit: "n < 10 \<Longrightarrow> of_char (digit n) = (48 + int n)"
  using of_char_digit [of n] by (metis of_char_of of_nat_add of_nat_numeral of_nat_of_char)

lemma digits_value_snoc: "digits_value (ds @ [c]) = 10 * digits_value ds + (of_char c - 48)"
  by (simp add: digits_value_def)

lemma digits_value_nat_to_string: "digits_value (nat_to_string n) = int n"
proof (induction n rule: nat_to_string.induct)
  case (1 n)
  show ?case
  proof (cases "n < 10")
    case True
    then show ?thesis by (simp add: nat_to_string.simps [of n] digits_value_def int_of_char_digit)
  next
    case False
    then have "digits_value (nat_to_string n) = 10 * int (n div 10) + int (n mod 10)"
      using 1 by (simp add: nat_to_string.simps [of n] digits_value_snoc int_of_char_digit)
    moreover have "n = 10 * (n div 10) + n mod 10" by simp
    ultimately show ?thesis by linarith
  qed
qed

lemma nat_to_string_digits: "list_all isdigit (nat_to_string n) \<and> nat_to_string n \<noteq> []"
  by (induction n rule: nat_to_string.induct) (subst (1 2) nat_to_string.simps, auto simp: isdigit_digit)

lemma length_nat_to_string: "n < 10 ^ Suc k \<Longrightarrow> length (nat_to_string n) \<le> Suc k"
proof (induction k arbitrary: n)
  case 0
  then show ?case by (simp add: nat_to_string.simps)
next
  case (Suc k)
  then have "n div 10 < 10 ^ Suc k" by (simp add: less_mult_imp_div_less mult.commute)
  then show ?case using Suc.IH [of "n div 10"] by (subst nat_to_string.simps) simp
qed

lemma digits_value_zeros: "digits_value (replicate k (CHR ''0'') @ ds) = digits_value ds"
  by (induction k) (simp_all add: digits_value_def of_char_def)

lemma zero_padded_ok:
  assumes "n < 10 ^ Suc k"
  shows "length (zero_padded (Suc k) n) = Suc k" and "list_all isdigit (zero_padded (Suc k) n)" and "digits_value (zero_padded (Suc k) n) = int n"
proof -
  have z: "isdigit (CHR ''0'')" by (simp add: isdigit_def of_char_def)
  show "length (zero_padded (Suc k) n) = Suc k" using length_nat_to_string [OF assms] by (simp add: zero_padded_def Let_def)
  show "list_all isdigit (zero_padded (Suc k) n)" using nat_to_string_digits [of n] z by (auto simp: zero_padded_def Let_def list_all_iff)
  show "digits_value (zero_padded (Suc k) n) = int n" by (simp add: zero_padded_def Let_def digits_value_zeros digits_value_nat_to_string)
qed

text \<open>A number that was printed is read back, whatever follows it that is no digit.\<close>

lemma takeWhile_digits:
  assumes "rest = [] \<or> \<not> isdigit (hd rest)"
  shows "takeWhile isdigit (nat_to_string n @ rest) = nat_to_string n"
  using nat_to_string_digits [of n] assms by (cases rest) (auto simp: list_all_iff takeWhile_append)

lemma atoi_to_string:
  assumes "- (2 ^ 31) \<le> i" and "i < 2 ^ 31" and "rest = [] \<or> \<not> isdigit (hd rest)"
  shows "atoi (to_string i @ rest) = Inr i"
proof (cases "i < 0")
  case True
  have "\<not> isspace (CHR ''-'')" by (simp add: isspace_def of_char_def)
  then show ?thesis using True assms(1,2)
    by (simp add: atoi_def to_string_def takeWhile_digits [OF assms(3)] digits_value_nat_to_string)
next
  case False
  obtain c ds where c: "nat_to_string (nat i) = c # ds" "isdigit c"
    using nat_to_string_digits [of "nat i"] by (cases "nat_to_string (nat i)") auto
  have nc: "\<not> isspace c" "c \<noteq> CHR ''-''" "c \<noteq> CHR ''+''" using c(2) by (auto simp: isdigit_def isspace_def of_char_def)
  have "takeWhile isdigit (c # ds @ rest) = c # ds" using takeWhile_digits [OF assms(3), of "nat i"] c(1) by simp
  then show ?thesis
    using False assms(1,2) c(1) nc digits_value_nat_to_string [of "nat i"] by (simp add: atoi_def to_string_def)
qed

end
