(* ===== verification/Http_Message.thy ===== *)
theory Http_Message
  imports Decimal_Text Substring
begin

text \<open>
  \<^verbatim>\<open>examples/http/http_defs.h\<close> and the message classes of \<^verbatim>\<open>examples/http/HttpCodec.cpp\<close>: the tables of
  methods, header fields, status codes and encodings, splitting of strings, parsing of a message
  into an \<open>HttpContext\<close> and composing its headers. The virtual methods \<open>HandleMessage\<close> and
  \<open>PrepareMessage\<close> of requests and responses are arguments of the functions that call them.

  The integer members of \<open>HttpContext\<close> have no initializer: they are \<open>None\<close> until they are
  assigned, and reading one before that is undefined behaviour. \<open>std::map<int, std::string>\<close> is a
  map; where it is iterated, the keys are visited in increasing order.
\<close>

section \<open>The tables\<close>

abbreviation CR :: char where "CR \<equiv> CHR 0x0D"
abbreviation LF :: char where "LF \<equiv> CHR 0x0A"

definition kHttpGet :: int where "kHttpGet = 0"

definition kContentType :: int where "kContentType = 1"
definition kContentLength :: int where "kContentLength = 3"
definition kContentEncoding :: int where "kContentEncoding = 4"
definition kAcceptEncoding :: int where "kAcceptEncoding = 5"
definition kConnection :: int where "kConnection = 7"

definition kOk :: int where "kOk = 200"
definition kBadRequest :: int where "kBadRequest = 400"
definition kNotFound :: int where "kNotFound = 404"
definition kMethodNotAllowed :: int where "kMethodNotAllowed = 405"
definition kNotAcceptable :: int where "kNotAcceptable = 406"
definition kNotImplemented :: int where "kNotImplemented = 501"

definition kGzip :: int where "kGzip = 0"
definition kIdentity :: int where "kIdentity = 4"

definition kHeaderBreak :: string where "kHeaderBreak = [CR, LF]"

definition kHttpStatus :: "int \<rightharpoonup> string" where
  "kHttpStatus = map_of
     [(200, ''200 OK''), (400, ''400 Bad Request''), (401, ''401 Unauthorized''), (403, ''403 Forbidden''),
      (404, ''404 Not Found''), (405, ''405 Method Not Allowed''), (406, ''406 Not Acceptable''),
      (413, ''413 Payload Too Large''), (414, ''414 URI Too Long''), (500, ''500 Internal Server Error''),
      (501, ''501 Not Implemented''), (505, ''505 HTTP Version Not Supported'')]"

definition kHttpRequestMethods :: "string \<rightharpoonup> int" where
  "kHttpRequestMethods = map_of
     [(''GET'', 0), (''HEAD'', 1), (''POST'', 2), (''PUT'', 3), (''DELETE'', 4), (''CONNECT'', 5),
      (''OPTIONS'', 6), (''TRACE'', 7), (''PATCH'', 8)]"

definition kHttpRequestMethodStrs :: "int \<rightharpoonup> string" where
  "kHttpRequestMethodStrs = map_of
     [(0, ''GET''), (1, ''HEAD''), (2, ''POST''), (3, ''PUT''), (4, ''DELETE''), (5, ''CONNECT''),
      (6, ''OPTIONS''), (7, ''TRACE''), (8, ''PATCH'')]"

definition kHeaderFields :: "string \<rightharpoonup> int" where
  "kHeaderFields = map_of
     [(''Accept'', 0), (''Content-Type'', 1), (''User-Agent'', 2), (''Content-Length'', 3),
      (''Content-Encoding'', 4), (''Accept-Encoding'', 5), (''Host'', 6), (''Connection'', 7)]"

definition kHeaderFieldStrs :: "int \<rightharpoonup> string" where
  "kHeaderFieldStrs = map_of
     [(0, ''Accept''), (1, ''Content-Type''), (2, ''User-Agent''), (3, ''Content-Length''),
      (4, ''Content-Encoding''), (5, ''Accept-Encoding''), (6, ''Host''), (7, ''Connection'')]"

definition kContentEncodings :: "string \<rightharpoonup> int" where
  "kContentEncodings = map_of
     [(''gzip'', 0), (''compress'', 1), (''deflate'', 2), (''br'', 3), (''identity'', 4), (''*'', 5)]"

section \<open>Splitting\<close>

definition find_substr :: "string \<Rightarrow> string \<Rightarrow> int list res" where
  "find_substr str pat = (case FindSubstr str pat of None \<Rightarrow> Inl (UB ''FindSubstr'') | Some ps \<Rightarrow> Inr ps)"

text \<open>A count computed as an \<open>int\<close> and passed as a \<open>size_t\<close>.\<close>

definition as_size :: "int \<Rightarrow> nat" where
  "as_size i = nat (i mod 2 ^ 64)"

fun split_at :: "string \<Rightarrow> nat \<Rightarrow> int list \<Rightarrow> int \<Rightarrow> string list res" where
  "split_at str blen [] cur_start =
     map_sum id (\<lambda>s. [s]) (std_substr str (as_size cur_start) (as_size (int (length str) - cur_start)))"
| "split_at str blen (bp # bps) cur_start =
     (case std_substr str (as_size cur_start) (as_size (bp - cur_start)) of
        Inl x \<Rightarrow> Inl x
      | Inr s \<Rightarrow> map_sum id (Cons s) (split_at str blen bps (bp + int blen)))"

definition SplitString :: "string \<Rightarrow> string \<Rightarrow> string list res" where
  "SplitString str breaking =
     (case find_substr str breaking of
        Inl x \<Rightarrow> Inl x
      | Inr breakpoints \<Rightarrow> split_at str (length breaking) breakpoints 0)"

section \<open>Messages\<close>

record http_context =
  http_method :: "int option"
  uri :: string
  version :: string
  start_line :: string
  headers :: "int \<rightharpoonup> string"
  payload :: string
  status_code :: "int option"
  content_encoding :: "int option"
  content_length :: "int option"

definition read_int :: "int option \<Rightarrow> int res" where
  "read_int i = (case i of None \<Rightarrow> Inl (UB ''uninitialized int'') | Some v \<Rightarrow> Inr v)"

definition HttpContext_new :: http_context where
  "HttpContext_new = \<lparr>http_method = None, uri = [], version = [], start_line = [], headers = Map.empty,
     payload = [], status_code = None, content_encoding = None, content_length = None\<rparr>"

definition HttpContext_clear :: "http_context \<Rightarrow> http_context" where
  "HttpContext_clear ctx = ctx\<lparr>uri := [], headers := Map.empty, start_line := [], payload := []\<rparr>"

definition EncodingSupported :: "int \<Rightarrow> bool" where
  "EncodingSupported encoding \<longleftrightarrow> encoding = kIdentity \<or> encoding = kGzip"

text \<open>The loop over the lines behind the first one; the bit is false for a line without a colon.\<close>

fun parse_header_lines :: "string list \<Rightarrow> http_context \<Rightarrow> (bool \<times> http_context) res" where
  "parse_header_lines [] ctx = Inr (True, ctx)"
| "parse_header_lines (line # lines) ctx =
     (let key = takeWhile (\<lambda>c. c \<noteq> CHR '':'') line; position_colon = length key in
      if position_colon = length line then Inr (False, ctx)
      else
       (case kHeaderFields key of
          None \<Rightarrow> parse_header_lines lines ctx
        | Some field \<Rightarrow>
           (case std_substr line (position_colon + 2) (as_size (int (length line) - int position_colon - 2)) of
              Inl x \<Rightarrow> Inl x
            | Inr val \<Rightarrow> parse_header_lines lines (ctx\<lparr>headers := (headers ctx)(field \<mapsto> val)\<rparr>))))"

text \<open>
  \<open>ParseMessage\<close>: the status (\<open>-1\<close> for an incomplete message), the length consumed, and the context.
\<close>

definition HttpMessage_ParseMessage ::
  "(http_context \<Rightarrow> (int \<times> http_context) res) \<Rightarrow> string \<Rightarrow> http_context \<Rightarrow> (int \<times> int \<times> http_context) res" where
  "HttpMessage_ParseMessage HandleMessage message ctx =
     (case find_substr message (kHeaderBreak @ kHeaderBreak) of
        Inl x \<Rightarrow> Inl x
      | Inr [] \<Rightarrow> Inr (-1, 0, ctx)
      | Inr (bp # _) \<Rightarrow>
         (case std_substr message 0 (as_size bp) of
            Inl x \<Rightarrow> Inl x
          | Inr head \<Rightarrow>
             (case SplitString head kHeaderBreak of
                Inl x \<Rightarrow> Inl x
              | Inr lines \<Rightarrow>
                 (case parse_header_lines (tl lines) ((HttpContext_clear ctx)\<lparr>start_line := hd lines\<rparr>) of
                    Inl x \<Rightarrow> Inl x
                  | Inr (False, ctx1) \<Rightarrow> Inr (kBadRequest, 0, ctx1)
                  | Inr (True, ctx1) \<Rightarrow>
                     (let body = bp + 2 * int (length kHeaderBreak);
                          payload_length = to_i32 (int (length message) - body) in
                      case (case headers ctx1 kContentLength of
                              None \<Rightarrow> Inr (Some 0)
                            | Some v \<Rightarrow> map_sum id (\<lambda>n. if n > payload_length then None else Some n) (atoi v)) of
                        Inl x \<Rightarrow> Inl x
                      | Inr None \<Rightarrow> Inr (-1, 0, ctx1)
                      | Inr (Some n) \<Rightarrow>
                         (case std_substr message (as_size body) (as_size n) of
                            Inl x \<Rightarrow> Inl x
                          | Inr pl \<Rightarrow>
                             map_sum id (\<lambda>(status, ctx2). (status, to_i32 (body + n), ctx2))
                               (HandleMessage (ctx1\<lparr>payload := pl\<rparr>))))))))"

text \<open>
  \<open>ComposeHeaders\<close>: the text appended, or \<open>None\<close> when \<open>PrepareMessage\<close> returns false.
\<close>

definition compose_field :: "http_context \<Rightarrow> int \<Rightarrow> string" where
  "compose_field ctx f =
     (case headers ctx f of
        None \<Rightarrow> []
      | Some v \<Rightarrow> (case kHeaderFieldStrs f of None \<Rightarrow> [] | Some name \<Rightarrow> name @ '': '' @ v @ kHeaderBreak))"

definition ComposeHeaders ::
  "(http_context \<Rightarrow> http_context option res) \<Rightarrow> http_context \<Rightarrow> (string option \<times> http_context) res" where
  "ComposeHeaders PrepareMessage ctx =
     (case PrepareMessage ctx of
        Inl x \<Rightarrow> Inl x
      | Inr None \<Rightarrow> Inr (None, ctx)
      | Inr (Some ctx1) \<Rightarrow>
         (case read_int (content_length ctx1) of
            Inl x \<Rightarrow> Inl x
          | Inr n \<Rightarrow>
             (let ctx2 = ctx1\<lparr>headers := (headers ctx1)(kContentLength \<mapsto> to_string n)\<rparr> in
              Inr (Some (start_line ctx2 @ kHeaderBreak @ concat (map (compose_field ctx2) [0..7]) @ kHeaderBreak), ctx2))))"

section \<open>Requests\<close>

definition HttpRequest_new :: http_context where
  "HttpRequest_new = HttpContext_new\<lparr>version := ''HTTP/1.1'', headers := [kConnection \<mapsto> ''close'']\<rparr>"

fun first_supported :: "string list \<Rightarrow> int option" where
  "first_supported [] = None"
| "first_supported (enc # encs) =
     (case kContentEncodings enc of
        Some e \<Rightarrow> if EncodingSupported e then Some e else first_supported encs
      | None \<Rightarrow> first_supported encs)"

definition HttpRequest_HandleMessage :: "http_context \<Rightarrow> (int \<times> http_context) res" where
  "HttpRequest_HandleMessage ctx =
     (case SplitString (start_line ctx) '' '' of
        Inl x \<Rightarrow> Inl x
      | Inr [m, u, v] \<Rightarrow>
         (case kHttpRequestMethods m of
            None \<Rightarrow> Inr (kMethodNotAllowed, ctx)
          | Some method' \<Rightarrow>
             (let ctx1 = ctx\<lparr>http_method := Some method'\<rparr> in
              if u = [] \<or> hd u \<noteq> CHR ''/'' then Inr (kBadRequest, ctx1)
              else
               (let ctx2 = ctx1\<lparr>uri := tl u, version := v, content_encoding := Some kIdentity\<rparr> in
                case headers ctx2 kAcceptEncoding of
                  None \<Rightarrow> Inr (kOk, ctx2)
                | Some encs \<Rightarrow>
                   map_sum id (\<lambda>es. (kOk, case first_supported es of
                                            None \<Rightarrow> ctx2
                                          | Some e \<Rightarrow> ctx2\<lparr>content_encoding := Some e\<rparr>))
                     (SplitString encs '', ''))))
      | Inr _ \<Rightarrow> Inr (kBadRequest, ctx))"

definition HttpRequest_PrepareMessage :: "http_context \<Rightarrow> http_context option res" where
  "HttpRequest_PrepareMessage ctx =
     map_sum id (\<lambda>m. map_option (\<lambda>s. ctx\<lparr>start_line := s @ '' '' @ uri ctx @ '' '' @ version ctx\<rparr>)
                       (kHttpRequestMethodStrs m))
       (read_int (http_method ctx))"

section \<open>Responses\<close>

definition HttpResponse_new :: http_context where
  "HttpResponse_new = HttpContext_new\<lparr>version := ''HTTP/1.1'', headers := [kConnection \<mapsto> ''close'']\<rparr>"

definition HttpResponse_HandleMessage :: "http_context \<Rightarrow> (int \<times> http_context) res" where
  "HttpResponse_HandleMessage ctx =
     (case SplitString (start_line ctx) '' '' of
        Inl x \<Rightarrow> Inl x
      | Inr [f0, f1, f2] \<Rightarrow>
         (case kHttpRequestMethods f0 of
            None \<Rightarrow> Inr (-1, ctx)
          | Some _ \<Rightarrow>
             (case atoi f1 of
                Inl x \<Rightarrow> Inl x
              | Inr n \<Rightarrow>
                 (let ctx1 = ctx\<lparr>version := f0, http_method := Some n, content_encoding := Some kIdentity\<rparr> in
                  case headers ctx1 kAcceptEncoding of
                    None \<Rightarrow> Inr (0, ctx1)
                  | Some encs \<Rightarrow>
                     map_sum id (\<lambda>es. case kContentEncodings (hd es) of
                           None \<Rightarrow> (kNotAcceptable, ctx1)
                         | Some e \<Rightarrow> if EncodingSupported e then (0, ctx1\<lparr>content_encoding := Some e\<rparr>)
                                     else (kNotAcceptable, ctx1))
                       (SplitString encs '', ''))))
      | Inr _ \<Rightarrow> Inr (-1, ctx))"

definition HttpResponse_PrepareMessage :: "http_context \<Rightarrow> http_context option res" where
  "HttpResponse_PrepareMessage ctx =
     map_sum id (\<lambda>c. map_option (\<lambda>s. ctx\<lparr>start_line := version ctx @ '' '' @ s\<rparr>) (kHttpStatus c))
       (read_int (status_code ctx))"

section \<open>Splitting undoes joining\<close>

fun join :: "string \<Rightarrow> string list \<Rightarrow> string" where
  "join br [] = []"
| "join br [p] = p"
| "join br (p # q # ps) = p @ br @ join br (q # ps)"

text \<open>A separator whose first character occurs nowhere else in it, nor in the pieces.\<close>

definition separates :: "string \<Rightarrow> string list \<Rightarrow> bool" where
  "separates br ps \<longleftrightarrow> br \<noteq> [] \<and> NUL \<notin> set br \<and> hd br \<notin> set (tl br) \<and> ps \<noteq> [] \<and>
     (\<forall>p\<in>set ps. hd br \<notin> set p)"

fun break_positions :: "nat \<Rightarrow> nat \<Rightarrow> string list \<Rightarrow> int list" where
  "break_positions off bl (p # q # ps) = int (off + length p) # break_positions (off + length p + bl) bl (q # ps)"
| "break_positions off bl _ = []"

lemma occurs_atD: "occurs_at s pat k \<Longrightarrow> pat \<noteq> [] \<Longrightarrow> k < length s \<and> s ! k = hd pat"
  unfolding occurs_at_def
  by (cases pat) (auto simp: hd_drop_conv_nth take_eq_Nil dest!: arg_cong [where f = hd])

lemma occurs_at_le: "occurs_at s pat k \<Longrightarrow> k \<le> length s"
  by (simp add: occurs_at_def)

lemma occurs_at_shift [simp]: "occurs_at (a @ s) pat (length a + k) \<longleftrightarrow> occurs_at s pat k"
  by (simp add: occurs_at_def)

lemma occurs_at_front: "occurs_at (pat @ s) pat 0"
  by (simp add: occurs_at_def)

lemma occurrences_sorted:
  "sorted_wrt (<) (filter (occurs_at str pat) [0..<Suc (length str)])"
  by (rule sorted_wrt_filter [OF sorted_wrt_upt])

lemma occurrences_eqI:
  assumes "sorted_wrt (<) ks" and "\<And>k. k \<in> set ks \<longleftrightarrow> occurs_at str pat k"
  shows "occurrences str pat = map int ks"
proof -
  have "filter (occurs_at str pat) [0..<Suc (length str)] = ks"
  proof (rule sorted_distinct_set_unique)
    show "sorted ks" "distinct ks"
      using assms(1) by (simp_all add: strict_sorted_iff)
    show "set (filter (occurs_at str pat) [0..<Suc (length str)]) = set ks"
      by (auto simp: assms(2) less_Suc_eq_le simp del: upt_Suc dest: occurs_at_le)
  qed (use occurrences_sorted [of str pat] in \<open>simp_all add: strict_sorted_iff del: upt_Suc\<close>)
  then show ?thesis by (simp add: occurrences_def)
qed

lemma occurs_at_piece:
  assumes "hd br \<notin> set p" and "br \<noteq> []" and "hd br \<notin> set (tl br)"
  shows "occurs_at (p @ br @ s) br k \<longleftrightarrow> k = length p \<or> (\<exists>i. k = length p + length br + i \<and> occurs_at s br i)"
proof (cases "k < length p + length br")
  case True
  note kl = True
  show ?thesis
  proof
    assume o: "occurs_at (p @ br @ s) br k"
    have "k = length p"
    proof (rule ccontr)
      assume ne: "k \<noteq> length p"
      have h: "(p @ br @ s) ! k = hd br" using occurs_atD [OF o assms(2)] by simp
      show False
      proof (cases "k < length p")
        case True
        then show False using h assms(1) by (auto simp: nth_append dest: nth_mem)
      next
        case False
        then have "0 < k - length p" "k - length p < length br" "br ! (k - length p) = hd br"
          using h ne kl by (auto simp: nth_append split: if_splits)
        then show False
          using assms(3) nth_mem [of "k - length p - 1" "tl br"] by (simp add: nth_tl Suc_diff_Suc) arith
      qed
    qed
    then show "k = length p \<or> (\<exists>i. k = length p + length br + i \<and> occurs_at s br i)" ..
  next
    assume "k = length p \<or> (\<exists>i. k = length p + length br + i \<and> occurs_at s br i)"
    then have "k = length p" using True by auto
    then show "occurs_at (p @ br @ s) br k"
      using occurs_at_shift [of p "br @ s" br 0] occurs_at_front by simp
  qed
next
  case False
  then obtain i where "k = length (p @ br) + i"
    by (metis le_Suc_ex length_append not_less)
  then show ?thesis
    using occurs_at_shift [of "p @ br" s br i] assms(2) by auto
qed

lemma occurrences_join:
  assumes "separates br ps"
  shows "occurrences (join br ps) br = break_positions 0 (length br) ps"
proof -
  have "\<exists>ks. sorted_wrt (<) ks \<and> (\<forall>k. k \<in> set ks \<longleftrightarrow> occurs_at (join br ps) br k) \<and>
      map (\<lambda>k. int (off + k)) ks = break_positions off (length br) ps" for off
    using assms
  proof (induction ps arbitrary: off rule: induct_list012)
    case (3 p q ps)
    have "separates br (q # ps)" using 3(3) by (simp add: separates_def)
    from 3(2) [OF this, of "off + length p + length br"] obtain ks where ks: "sorted_wrt (<) ks" "\<And>k. k \<in> set ks \<longleftrightarrow> occurs_at (join br (q # ps)) br k"
      "map (\<lambda>k. int (off + length p + length br + k)) ks = break_positions (off + length p + length br) (length br) (q # ps)"
      by blast
    let ?n = "length p + length br"
    have "sorted_wrt (<) (length p # map ((+) ?n) ks)"
      using ks(1) 3(3) by (auto simp: sorted_wrt_map separates_def)
    moreover have "k \<in> set (length p # map ((+) ?n) ks) \<longleftrightarrow> occurs_at (join br (p # q # ps)) br k" for k
      using occurs_at_piece [of br p "join br (q # ps)" k] 3(3) ks(2) by (auto simp: separates_def)
    moreover have "map (\<lambda>k. int (off + k)) (length p # map ((+) ?n) ks) = break_positions off (length br) (p # q # ps)"
      using ks(3) by (simp add: comp_def add.assoc)
    ultimately show ?case by blast
  next
    case (2 p)
    then have "\<not> occurs_at p br k" for k
      using occurs_atD [of p br k] by (metis list.set_intros(1) nth_mem separates_def join.simps(2))
    then show ?case by (intro exI [of _ "[]"]) simp
  qed (auto simp: separates_def)
  then obtain ks where "sorted_wrt (<) ks" "\<And>k. k \<in> set ks \<longleftrightarrow> occurs_at (join br ps) br k"
    "map (\<lambda>k. int (0 + k)) ks = break_positions 0 (length br) ps" by metis
  then show ?thesis
    using occurrences_eqI [of ks "join br ps" br] by simp
qed

lemma as_size_int [simp]: "n < 2 ^ 64 \<Longrightarrow> as_size (int n) = n"
  by (simp add: as_size_def flip: of_nat_mod)

lemma split_at_join:
  assumes "ps \<noteq> []" and "length (pre @ join br ps) < 2 ^ 64"
  shows "split_at (pre @ join br ps) (length br) (break_positions (length pre) (length br) ps) (int (length pre)) = Inr ps"
  using assms
proof (induction ps arbitrary: pre rule: induct_list012)
  case (3 p q ps)
  let ?str = "pre @ join br (p # q # ps)"
  have "split_at ?str (length br) (break_positions (length (pre @ p @ br)) (length br) (q # ps)) (int (length (pre @ p @ br)))
      = Inr (q # ps)"
    using 3(2) [of "pre @ p @ br"] 3(4) by simp
  moreover have "std_substr ?str (as_size (int (length pre))) (as_size (int (length pre + length p) - int (length pre))) = Inr p"
    using 3(4) by (simp add: std_substr_def)
  ultimately show ?case by (simp add: add.assoc)
qed (simp_all add: std_substr_def)

lemma SplitString_join:
  assumes "separates br ps" and "length (join br ps) + length br < 2 ^ 31 - 1"
  shows "SplitString (join br ps) br = Inr ps"
  using assms split_at_join [of ps "[]" br] FindSubstr_eq [of br "join br ps"] occurrences_join [OF assms(1)]
  by (simp add: SplitString_def find_substr_def separates_def)

section \<open>The text of a request\<close>

text \<open>The lines of the head, and the message: the head, an empty line, and the payload.\<close>

definition header_line :: "string \<times> string \<Rightarrow> string" where
  "header_line h = fst h @ '': '' @ snd h"

definition request_line :: "string \<Rightarrow> string \<Rightarrow> string \<Rightarrow> string" where
  "request_line m u v = join '' '' [m, CHR ''/'' # u, v]"

definition message_text :: "string list \<Rightarrow> string \<Rightarrow> string" where
  "message_text ls body = join kHeaderBreak ls @ kHeaderBreak @ kHeaderBreak @ body"

definition http_text :: "string \<Rightarrow> (string \<times> string) list \<Rightarrow> string \<Rightarrow> string" where
  "http_text first hs body = message_text (first # map header_line hs) body"

definition add_header :: "(int \<rightharpoonup> string) \<Rightarrow> string \<times> string \<Rightarrow> (int \<rightharpoonup> string)" where
  "add_header m h = (case kHeaderFields (fst h) of None \<Rightarrow> m | Some f \<Rightarrow> m(f \<mapsto> snd h))"

definition header_map :: "(string \<times> string) list \<Rightarrow> int \<rightharpoonup> string" where
  "header_map hs = foldl add_header Map.empty hs"

lemma occurrences_first:
  assumes "occurs_at s pat n" and "\<forall>k<n. \<not> occurs_at s pat k"
  shows "\<exists>rest. occurrences s pat = int n # rest"
proof -
  define ks where "ks = filter (occurs_at s pat) [0..<Suc (length s)]"
  have n: "n \<in> set ks" using assms(1) occurs_at_le [OF assms(1)] by (simp add: ks_def less_Suc_eq_le del: upt_Suc)
  then obtain a as where ks: "ks = a # as" by (cases ks) auto
  then have "a \<in> set ks" by simp
  then have "occurs_at s pat a" by (simp add: ks_def del: upt_Suc)
  then have "n \<le> a" using assms(2) by (metis not_less)
  moreover have "\<forall>x\<in>set as. a < x"
    using occurrences_sorted [of s pat] unfolding ks_def [symmetric] ks by simp
  ultimately have "a = n" using n ks by auto
  then show ?thesis using ks by (simp add: occurrences_def ks_def del: upt_Suc)
qed

lemma no_break_in_lines:
  assumes "\<forall>p\<in>set ps. CR \<notin> set p" and "\<forall>p\<in>set (tl ps). p \<noteq> []" and "k < length (join kHeaderBreak ps)"
  shows "\<not> occurs_at (join kHeaderBreak ps @ t) (kHeaderBreak @ kHeaderBreak) k"
  using assms
proof (induction ps arbitrary: k rule: induct_list012)
  case (2 p)
  show ?case
  proof
    assume "occurs_at (join kHeaderBreak [p] @ t) (kHeaderBreak @ kHeaderBreak) k"
    from occurs_atD [OF this] 2 show False
      by (auto simp: kHeaderBreak_def nth_append dest: nth_mem)
  qed
next
  case (3 p q ps)
  let ?bb = "kHeaderBreak @ kHeaderBreak" and ?s = "join kHeaderBreak (p # q # ps) @ t"
  show ?case
  proof (cases "k < length p + 2")
    case True
    show ?thesis
    proof
      assume o: "occurs_at ?s ?bb k"
      have "?s ! k = CR" using occurs_atD [OF o] by (simp add: kHeaderBreak_def)
      then have k: "k = length p"
        using True 3(3) by (auto simp: kHeaderBreak_def nth_append nth_Cons' dest: nth_mem split: if_splits)
      obtain c q' where q: "q = c # q'" using 3(4) by (cases q) auto
      have "take 4 (drop (length p) ?s) = [CR, LF, CR, LF]"
        using o k by (simp add: occurs_at_def kHeaderBreak_def flip: numeral_2_eq_2)
      then show False
        using 3(3) q by (cases ps) (auto simp: kHeaderBreak_def)
    qed
  next
    case False
    then obtain i where i: "k = length (p @ kHeaderBreak) + i"
      by (metis le_Suc_ex length_append not_less kHeaderBreak_def length_Cons list.size(3) numeral_2_eq_2)
    have "\<not> occurs_at (join kHeaderBreak (q # ps) @ t) ?bb i"
      by (rule 3(2)) (use 3(3-5) i in auto)
    then show ?thesis
      using occurs_at_shift [of "p @ kHeaderBreak" "join kHeaderBreak (q # ps) @ t" ?bb i] i by simp
  qed
qed simp

lemma parse_header_lines_ok:
  assumes "\<forall>h\<in>set hs. CHR '':'' \<notin> set (fst h) \<and> length (header_line h) < 2 ^ 64"
  shows "parse_header_lines (map header_line hs) ctx = Inr (True, ctx\<lparr>headers := foldl add_header (headers ctx) hs\<rparr>)"
  using assms
proof (induction hs arbitrary: ctx)
  case Nil
  then show ?case by simp
next
  case (Cons h hs)
  have tw: "takeWhile (\<lambda>c. c \<noteq> CHR '':'') (header_line h) = fst h"
    using Cons.prems by (auto simp: header_line_def takeWhile_append)
  have "int (length (header_line h)) - int (length (fst h)) - 2 = int (length (snd h))"
    by (simp add: header_line_def)
  then have "std_substr (header_line h) (length (fst h) + 2) (as_size (int (length (header_line h)) - int (length (fst h)) - 2)) = Inr (snd h)"
    using Cons.prems by (simp only:) (simp add: std_substr_def header_line_def)
  moreover have "length (fst h) \<noteq> length (header_line h)" by (simp add: header_line_def)
  ultimately show ?case
    using Cons by (simp add: tw add_header_def Let_def split: option.split)
qed

text \<open>The encodings a request accepts, in the order of the header.\<close>

definition accepts :: "(int \<rightharpoonup> string) \<Rightarrow> string list \<Rightarrow> bool" where
  "accepts m encs \<longleftrightarrow>
     (case m kAcceptEncoding of None \<Rightarrow> encs = [] | Some e \<Rightarrow> e = join '', '' encs \<and> separates '', '' encs)"

definition chosen_encoding :: "string list \<Rightarrow> int" where
  "chosen_encoding encs = (case first_supported encs of None \<Rightarrow> kIdentity | Some e \<Rightarrow> e)"

lemma HttpRequest_HandleMessage_ok:
  assumes "start_line ctx = request_line m u v" and "CHR '' '' \<notin> set (m @ u @ v)"
    and "kHttpRequestMethods m = Some code" and "accepts (headers ctx) encs"
    and "length (request_line m u v) < 2 ^ 31 - 5" and "length (join '', '' encs) < 2 ^ 31 - 5"
  shows "HttpRequest_HandleMessage ctx = Inr (kOk, ctx\<lparr>http_method := Some code, uri := u, version := v,
      content_encoding := Some (chosen_encoding encs)\<rparr>)"
proof -
  have "separates '' '' [m, CHR ''/'' # u, v]"
    using assms(2) by (auto simp: separates_def)
  then have "SplitString (start_line ctx) '' '' = Inr [m, CHR ''/'' # u, v]"
    using assms(1,5) SplitString_join [of "'' ''" "[m, CHR ''/'' # u, v]"] by (simp add: request_line_def)
  then show ?thesis
    using assms(3,4,6) SplitString_join [of "'', ''" encs]
    by (auto simp: HttpRequest_HandleMessage_def accepts_def chosen_encoding_def split: option.splits)
qed

lemma length_join_mem: "p \<in> set ps \<Longrightarrow> length p \<le> length (join br ps)"
  by (induction br ps rule: join.induct) auto

lemma header_map_mem: "foldl add_header m hs f = Some v \<Longrightarrow> m f = Some v \<or> (\<exists>h\<in>set hs. v = snd h)"
  by (induction hs arbitrary: m) (fastforce simp: add_header_def split: option.splits if_splits)+

text \<open>The conditions under which a text is taken apart the way it was put together.\<close>

definition request_ok :: "string \<Rightarrow> string \<Rightarrow> string \<Rightarrow> (string \<times> string) list \<Rightarrow> string \<Rightarrow> string list \<Rightarrow> bool" where
  "request_ok m u v hs body encs \<longleftrightarrow>
     CHR '' '' \<notin> set (m @ u @ v) \<and> CR \<notin> set (m @ u @ v) \<and>
     (\<forall>h\<in>set hs. CR \<notin> set (fst h @ snd h) \<and> CHR '':'' \<notin> set (fst h)) \<and>
     kHttpRequestMethods m \<noteq> None \<and> accepts (header_map hs) encs \<and>
     (case header_map hs kContentLength of None \<Rightarrow> body = [] | Some n \<Rightarrow> atoi n = Inr (int (length body)))"

text \<open>The head of a message is found and cut into its lines.\<close>

lemma message_text_lines:
  assumes "ls \<noteq> []" and "\<forall>p\<in>set ls. CR \<notin> set p" and "\<forall>p\<in>set (tl ls). p \<noteq> []"
    and "length (message_text ls body @ rest) < 2 ^ 31 - 5"
  shows "\<exists>ps. find_substr (message_text ls body @ rest) (kHeaderBreak @ kHeaderBreak)
       = Inr (int (length (join kHeaderBreak ls)) # ps)"
    and "std_substr (message_text ls body @ rest) 0 (as_size (int (length (join kHeaderBreak ls)))) = Inr (join kHeaderBreak ls)"
    and "SplitString (join kHeaderBreak ls) kHeaderBreak = Inr ls"
proof -
  let ?j = "join kHeaderBreak ls" and ?bb = "kHeaderBreak @ kHeaderBreak"
  have t: "message_text ls body @ rest = ?j @ ?bb @ body @ rest"
    by (simp add: message_text_def)
  have len: "length ?j + length kHeaderBreak < 2 ^ 31 - 1" "length ?j < 2 ^ 64" "length (?j @ ?bb @ body @ rest) + length ?bb < 2 ^ 31 - 1"
    using assms(4) unfolding t by (simp_all add: kHeaderBreak_def)
  have "\<not> occurs_at (?j @ ?bb @ body @ rest) ?bb k" if "k < length ?j" for k
    by (rule no_break_in_lines [OF assms(2,3) that])
  moreover have "occurs_at (?j @ ?bb @ body @ rest) ?bb (length ?j)"
    using occurs_at_shift [of ?j "?bb @ body @ rest" ?bb 0] occurs_at_front [of ?bb "body @ rest"] by simp
  ultimately obtain ps where "occurrences (?j @ ?bb @ body @ rest) ?bb = int (length ?j) # ps"
    using occurrences_first by blast
  then show "\<exists>ps. find_substr (message_text ls body @ rest) ?bb = Inr (int (length ?j) # ps)"
    using FindSubstr_eq [OF _ len(3)] unfolding t
    by (simp add: find_substr_def kHeaderBreak_def)
  show "std_substr (message_text ls body @ rest) 0 (as_size (int (length ?j))) = Inr ?j"
    using len(2) unfolding t by (simp add: std_substr_def)
  have "separates kHeaderBreak ls"
    using assms(1,2) by (auto simp: separates_def kHeaderBreak_def)
  then show "SplitString ?j kHeaderBreak = Inr ls"
    using len(1) by (rule SplitString_join)
qed

lemma accepts_length:
  assumes "accepts (header_map hs) encs" and "\<forall>h\<in>set hs. length (header_line h) < 2 ^ 31 - 5"
  shows "length (join '', '' encs) < 2 ^ 31 - 5"
proof (cases "header_map hs kAcceptEncoding")
  case (Some e)
  then obtain h where "h \<in> set hs" "e = snd h"
    using header_map_mem [of Map.empty hs kAcceptEncoding e] by (auto simp: header_map_def)
  then have "length e < 2 ^ 31 - 5" using assms(2) by (auto simp: header_line_def)
  then show ?thesis using assms(1) Some by (simp add: accepts_def)
qed (use assms in \<open>simp add: accepts_def\<close>)

lemma parse_request:
  assumes ok: "request_ok m u v hs body encs" and len: "length (http_text (request_line m u v) hs body @ rest) < 2 ^ 31 - 5"
  shows "HttpMessage_ParseMessage HttpRequest_HandleMessage (http_text (request_line m u v) hs body @ rest) ctx
     = Inr (kOk, int (length (http_text (request_line m u v) hs body)),
         ctx\<lparr>http_method := kHttpRequestMethods m, uri := u, version := v, start_line := request_line m u v,
             headers := header_map hs, payload := body, content_encoding := Some (chosen_encoding encs)\<rparr>)"
proof -
  let ?ls = "request_line m u v # map header_line hs"
  let ?j = "join kHeaderBreak ?ls" and ?t = "message_text (request_line m u v # map header_line hs) body"
  have cr: "\<forall>p\<in>set ?ls. CR \<notin> set p" "\<forall>p\<in>set (tl ?ls). p \<noteq> []"
    using ok by (auto simp: request_ok_def request_line_def header_line_def)
  have len': "length (?t @ rest) < 2 ^ 31 - 5" using len by (simp add: http_text_def)
  note lines = message_text_lines [OF _ cr len']
  have lj: "length ?j + 4 + length body + length rest < 2 ^ 31"
    using len' by (simp add: message_text_def kHeaderBreak_def)
  have small: "length p < 2 ^ 31 - 5" if "p \<in> set ?ls" for p
    using length_join_mem [OF that, of kHeaderBreak] len' by (simp add: message_text_def kHeaderBreak_def)
  have "length (header_line h) < 2 ^ 64" if "h \<in> set hs" for h
    using small [of "header_line h"] that by simp
  then have hl: "\<forall>h\<in>set hs. CHR '':'' \<notin> set (fst h) \<and> length (header_line h) < 2 ^ 64"
    using ok by (simp add: request_ok_def)
  have ph: "parse_header_lines (map header_line hs) ((HttpContext_clear ctx)\<lparr>start_line := request_line m u v\<rparr>)
      = Inr (True, (HttpContext_clear ctx)\<lparr>start_line := request_line m u v, headers := header_map hs\<rparr>)" (is "_ = Inr (True, ?c)")
    using parse_header_lines_ok [OF hl] by (simp add: header_map_def HttpContext_clear_def)
  have le: "length (join '', '' encs) < 2 ^ 31 - 5"
    using accepts_length [of hs encs] small ok by (simp add: request_ok_def)
  have hm: "HttpRequest_HandleMessage (?c\<lparr>payload := body\<rparr>) = Inr (kOk, ?c\<lparr>payload := body,
      http_method := kHttpRequestMethods m, uri := u, version := v, content_encoding := Some (chosen_encoding encs)\<rparr>)"
    using ok le small [of "request_line m u v"] HttpRequest_HandleMessage_ok [of "?c\<lparr>payload := body\<rparr>" m u v _ encs]
    by (auto simp: request_ok_def)
  have pl: "std_substr (?t @ rest) (as_size (int (length ?j) + 4)) (as_size (int (length body))) = Inr body"
    using lj as_size_int [of "length ?j + 4"] by (simp add: std_substr_def message_text_def kHeaderBreak_def)
  have n: "to_i32 (int (length (?t @ rest)) - (int (length ?j) + 4)) = int (length body) + int (length rest)"
    "to_i32 (int (length ?j) + 4 + int (length body)) = int (length ?t)"
    using lj by (simp_all add: to_i32_id message_text_def kHeaderBreak_def)
  obtain ps where "find_substr (?t @ rest) (kHeaderBreak @ kHeaderBreak) = Inr (int (length ?j) # ps)"
    using lines(1) by blast
  then show ?thesis
    using ok ph hm lines(2,3) pl n unfolding http_text_def
    by (simp add: HttpMessage_ParseMessage_def Let_def request_ok_def kHeaderBreak_def HttpContext_clear_def split: option.splits)
qed

section \<open>Properties\<close>

text \<open>
  Property C24. A well-formed request is read back: whatever follows it in the stream, \<open>ParseMessage\<close>
  of a request returns 200 and the exact length of the request, and the context holds the method,
  the path without its leading slash, the version, the known header fields, the payload of the
  announced length and the first supported encoding of those accepted.
\<close>

theorem request_round_trip:
  assumes "request_ok m u v hs body encs" and "length (http_text (request_line m u v) hs body @ rest) < 2 ^ 31 - 5"
  shows "HttpMessage_ParseMessage HttpRequest_HandleMessage (http_text (request_line m u v) hs body @ rest) ctx
     = Inr (kOk, int (length (http_text (request_line m u v) hs body)),
         ctx\<lparr>http_method := kHttpRequestMethods m, uri := u, version := v, start_line := request_line m u v,
             headers := header_map hs, payload := body, content_encoding := Some (chosen_encoding encs)\<rparr>)"
  using assms by (rule parse_request)

lemma sample_request_ok:
  "request_ok ''GET'' ''a.txt'' ''HTTP/1.1'' [(''Host'', ''h''), (''Content-Length'', ''3'')] ''xyz'' []"
  by (simp add: request_ok_def kHttpRequestMethods_def accepts_def header_map_def add_header_def kHeaderFields_def
      kAcceptEncoding_def kContentLength_def atoi_def isspace_def isdigit_def digits_value_def of_char_def)

theorem request_round_trip_witness:
  "\<exists>ctx. HttpMessage_ParseMessage HttpRequest_HandleMessage
       (''GET /a.txt HTTP/1.1'' @ [CR, LF] @ ''Host: h'' @ [CR, LF] @ ''Content-Length: 3'' @ [CR, LF, CR, LF] @ ''xyzGET'')
       HttpRequest_new = Inr (200, 54, ctx) \<and> uri ctx = ''a.txt'' \<and> payload ctx = ''xyz''"
  using request_round_trip [OF sample_request_ok, of "''GET''" HttpRequest_new]
  by (simp add: http_text_def message_text_def request_line_def header_line_def kHeaderBreak_def kOk_def)

text \<open>
  A header line that ends at the colon of a known field makes \<open>ParseMessage\<close> throw
  \<open>std::out_of_range\<close>: the value is taken from two characters behind the colon without a check.
  No function between it and the event loop catches the exception, so one such request ends the
  server.
\<close>

theorem empty_header_throws:
  assumes "kHeaderFields name = Some f" and "CR \<notin> set first" and "CR \<notin> set name" and "CHR '':'' \<notin> set name"
    and "length (message_text [first, name @ '':''] body) < 2 ^ 31 - 5"
  shows "HttpMessage_ParseMessage HandleMessage (message_text [first, name @ '':''] body) ctx
     = Inl (Throw ''std::out_of_range'')"
proof -
  have tw: "takeWhile (\<lambda>c. c \<noteq> CHR '':'') (name @ '':'') = name"
    using assms(4) by (auto simp: takeWhile_append)
  then have "parse_header_lines [name @ '':''] c = Inl (Throw ''std::out_of_range'')" for c
    using assms(1) by (simp add: tw std_substr_def Let_def)
  moreover obtain ps where "find_substr (message_text [first, name @ '':''] body) (kHeaderBreak @ kHeaderBreak)
      = Inr (int (length (join kHeaderBreak [first, name @ '':''])) # ps)"
    using message_text_lines(1) [of "[first, name @ '':'']" body "[]"] assms by auto
  ultimately show ?thesis
    using message_text_lines(2,3) [of "[first, name @ '':'']" body "[]"] assms
    by (simp add: HttpMessage_ParseMessage_def del: join.simps)
qed

theorem empty_header_throws_witness:
  "HttpMessage_ParseMessage HttpRequest_HandleMessage (message_text [''GET / HTTP/1.1'', ''Host:''] []) HttpRequest_new
     = Inl (Throw ''std::out_of_range'')"
  using empty_header_throws [of "''Host''" 6 "''GET / HTTP/1.1''" "[]" HttpRequest_HandleMessage HttpRequest_new]
  by (simp add: kHeaderFields_def message_text_def kHeaderBreak_def)

text \<open>
  A response cannot be parsed: the version at the front of a status line is looked up in
  the table of request methods, which has no version, so \<open>HandleMessage\<close> of a response reports
  every well-formed status line as an error.
\<close>

theorem responses_never_parse:
  assumes "CHR '' '' \<notin> set (ver @ code @ reason)" and "kHttpRequestMethods ver = None"
    and "start_line ctx = join '' '' [ver, code, reason]" and "length (start_line ctx) < 2 ^ 31 - 2"
  shows "HttpResponse_HandleMessage ctx = Inr (-1, ctx)"
proof -
  have "separates '' '' [ver, code, reason]"
    using assms(1) by (auto simp: separates_def)
  from SplitString_join [OF this] assms(2-4) show ?thesis
    by (simp add: HttpResponse_HandleMessage_def del: join.simps)
qed

theorem responses_never_parse_witness:
  "HttpResponse_HandleMessage (HttpResponse_new\<lparr>start_line := ''HTTP/1.1 200 OK''\<rparr>)
     = Inr (-1, HttpResponse_new\<lparr>start_line := ''HTTP/1.1 200 OK''\<rparr>)"
  using responses_never_parse [of "''HTTP/1.1''" "''200''" "''OK''" "HttpResponse_new\<lparr>start_line := ''HTTP/1.1 200 OK''\<rparr>"]
  by (simp add: kHttpRequestMethods_def)

end
