(* ===== verification/File_Utils.thy ===== *)
theory File_Utils
  imports Ladder_Prelude
begin

text \<open>
  The functions of \<^verbatim>\<open>ladder/src/utils.cpp\<close> that look at files. The files are an argument, their contents by name;
  \<open>None\<close> is a file that cannot be opened.
\<close>

type_synonym files = "string \<rightharpoonup> string"

definition CheckIfFileExists :: "files \<Rightarrow> string \<Rightarrow> bool" where
  "CheckIfFileExists fs path \<longleftrightarrow> fs path \<noteq> None"

definition GetFileSize :: "files \<Rightarrow> string \<Rightarrow> int" where
  "GetFileSize fs path = (case fs path of None \<Rightarrow> -1 | Some d \<Rightarrow> to_i32 (int (length d)))"

definition kFileBufferSize :: nat where
  "kFileBufferSize = 1024"

text \<open>
  The loop \<open>while (!feof(fp))\<close>: \<open>fread\<close> sets the end-of-file flag when it gets less than it asks for.
\<close>

function read_loop :: "string \<Rightarrow> string \<Rightarrow> string" where
  "read_loop d result =
     (let in_buf = take kFileBufferSize d; result' = result @ in_buf in
      if length in_buf < kFileBufferSize then result' else read_loop (drop kFileBufferSize d) result')"
  by pat_completeness auto
termination
  by (relation "measure (\<lambda>(d, r). length d)") (auto simp: kFileBufferSize_def)

declare read_loop.simps [simp del]

definition ReadFileAsString :: "files \<Rightarrow> string \<Rightarrow> string" where
  "ReadFileAsString fs path = (case fs path of None \<Rightarrow> [] | Some d \<Rightarrow> read_loop d [])"

lemma read_loop_all: "read_loop d result = result @ d"
proof (induction d result rule: read_loop.induct)
  case (1 d result)
  then show ?case
    by (subst read_loop.simps) (auto simp: Let_def)
qed

lemma ReadFileAsString_Some [simp]: "fs path = Some d \<Longrightarrow> ReadFileAsString fs path = d"
  by (simp add: ReadFileAsString_def read_loop_all)

lemma ReadFileAsString_None [simp]: "fs path = None \<Longrightarrow> ReadFileAsString fs path = []"
  by (simp add: ReadFileAsString_def)

end
