(* ===== verification/Http_Server.thy ===== *)
theory Http_Server
  imports Http_Message Byte_Buffer File_Utils
begin

text \<open>
  The server side of \<^verbatim>\<open>examples/http\<close>: \<open>HttpCodec::OnClientMessage\<close>, the dispatch of
  \<^verbatim>\<open>HttpServer.cpp\<close> and the \<open>GET\<close> handler of \<^verbatim>\<open>server.cpp\<close>.

  What the handler does to the connection is the list of calls it makes. The files are an argument
  (their contents by name; \<open>None\<close> is a file that cannot be opened), and so is the compressor. The
  two message objects a request allocates are counted, so that the ones left behind can be seen.
\<close>

section \<open>The GET handler\<close>

definition kUnknownFileMimeType :: string where
  "kUnknownFileMimeType = ''application/octet-stream''"

definition kCompressibleFileSizeThreshold :: int where
  "kCompressibleFileSizeThreshold = 2048"

definition kFileFormatCompressible :: int where
  "kFileFormatCompressible = 11"

definition kFileMimeTypeCodes :: "string \<rightharpoonup> int" where
  "kFileMimeTypeCodes = map_of
     [(''htm'', 12), (''html'', 12), (''ico'', 2), (''js'', 13), (''css'', 14), (''csv'', 19), (''txt'', 17),
      (''jpg'', 0), (''jpeg'', 0), (''json'', 18), (''png'', 1), (''tif'', 4), (''tiff'', 4), (''pdf'', 5),
      (''svg'', 15), (''bmp'', 20), (''avi'', 9), (''epub'', 6), (''gif'', 3), (''mp3'', 7), (''mp4'', 8),
      (''xml'', 16), (''zip'', 10)]"

definition kFileMimeTypes :: "int \<rightharpoonup> string" where
  "kFileMimeTypes = map_of
     [(12, ''text/html; charset=utf-8''), (2, ''image/vnd.microsoft.icon''), (13, ''text/javascript; charset=utf-8''),
      (14, ''text/css''), (19, ''text/csv; charset=utf-8''), (17, ''text/plain; charset=utf-8''), (0, ''image/jpeg''),
      (18, ''application/json; charset=utf-8''), (1, ''image/png''), (4, ''image/tiff''), (5, ''application/pdf''),
      (15, ''image/svg+xml; charset=utf-8''), (20, ''image/bmp''), (9, ''video/x-msvideo''), (6, ''application/epub+zip''),
      (3, ''image/gif''), (7, ''audio/mpeg''), (8, ''video''), (16, ''application/xml; charset=utf-8'')]"

text \<open>The characters behind the last dot; the whole loop finds no dot and leaves the suffix empty.\<close>

definition file_suffix :: "string \<Rightarrow> string" where
  "file_suffix filename =
     (if CHR ''.'' \<in> set filename then rev (takeWhile (\<lambda>c. c \<noteq> CHR ''.'') (rev filename)) else [])"

definition GetFileSuffix :: "string \<Rightarrow> int" where
  "GetFileSuffix filename = (case kFileMimeTypeCodes (file_suffix filename) of None \<Rightarrow> -1 | Some c \<Rightarrow> c)"

text \<open>\<open>ctx1\<close> is the request's context and \<open>ctx2\<close> the response's; both are changed.\<close>

definition HandleHttpGet ::
  "files \<Rightarrow> string \<Rightarrow> http_context \<Rightarrow> http_context \<Rightarrow> (http_context \<times> http_context) res" where
  "HandleHttpGet fs kResourceRoot ctx1 ctx2 =
     (case read_int (status_code ctx1) of
        Inl x \<Rightarrow> Inl x
      | Inr status \<Rightarrow>
         (if status = kOk
          then
           (let c1 = (if uri ctx1 = [] then ctx1\<lparr>uri := ''index.html''\<rparr> else ctx1);
                fmt = GetFileSuffix (uri c1);
                mime = (case kFileMimeTypes fmt of None \<Rightarrow> kUnknownFileMimeType | Some t \<Rightarrow> t);
                c2 = ctx2\<lparr>headers := (headers ctx2)(kContentType \<mapsto> mime)\<rparr>;
                c1' = (if fmt \<le> kFileFormatCompressible then c1\<lparr>content_encoding := Some kIdentity\<rparr> else c1);
                c2' = c2\<lparr>uri := kResourceRoot @ uri c1'\<rparr>;
                file_size = GetFileSize fs (uri c2');
                c1'' = (if file_size \<le> kCompressibleFileSizeThreshold
                        then c1'\<lparr>content_encoding := Some kIdentity\<rparr> else c1') in
            if file_size \<ge> 0
            then Inr (c1'', c2'\<lparr>status_code := Some kOk, content_length := Some file_size\<rparr>)
            else Inr (c1'', c2'\<lparr>content_length := Some 0, status_code := Some kNotFound\<rparr>))
          else Inr (ctx1, ctx2)))"

section \<open>Dispatch\<close>

type_synonym request_callback = "http_context \<Rightarrow> http_context \<Rightarrow> (http_context \<times> http_context) res"

definition RegisterCallback ::
  "int \<Rightarrow> request_callback \<Rightarrow> (int \<rightharpoonup> request_callback) \<Rightarrow> (int \<rightharpoonup> request_callback)" where
  "RegisterCallback m callback callbacks = callbacks(m \<mapsto> callback)"

definition HttpServer_OnMessage :: "(int \<rightharpoonup> request_callback) \<Rightarrow> request_callback" where
  "HttpServer_OnMessage callbacks ctx1 ctx2 =
     (let c2 = (HttpContext_clear ctx2)\<lparr>version := version ctx1\<rparr> in
      case read_int (http_method ctx1) of
        Inl x \<Rightarrow> Inl x
      | Inr m \<Rightarrow>
         (case callbacks m of
            None \<Rightarrow> Inr (ctx1, c2\<lparr>status_code := Some kNotImplemented\<rparr>)
          | Some f \<Rightarrow> f ctx1 c2))"

section \<open>The codec\<close>

datatype conn_call = CallSend string | CallSendFile string string | CallShutDownWrite

record http_codec =
  server_callback :: "request_callback option"
  send_file :: bool

record http_outcome =
  out_buffer :: buffer
  out_calls :: "conn_call list"
  out_leaked :: nat

text \<open>The text \<open>ComposeHeaders\<close> appends to the empty string \<open>headers\<close>.\<close>

definition composed :: "string option \<times> http_context \<Rightarrow> string" where
  "composed r = (case fst r of None \<Rightarrow> [] | Some s \<Rightarrow> s)"

text \<open>The branches behind the callback.\<close>

definition http_respond ::
  "files \<Rightarrow> (string \<Rightarrow> string) \<Rightarrow> bool \<Rightarrow> http_context \<Rightarrow> http_context \<Rightarrow> conn_call list res" where
  "http_respond fs DeflateFile snd_file request response =
     (case read_int (status_code response) of
        Inl x \<Rightarrow> Inl x
      | Inr status \<Rightarrow>
         (if status = kOk
          then
           (case (if snd_file then read_int (content_encoding request) else Inr 0) of
              Inl x \<Rightarrow> Inl x
            | Inr enc0 \<Rightarrow>
               (if \<not> snd_file \<or> enc0 = kGzip
                then
                 (case read_int (content_encoding request) of
                    Inl x \<Rightarrow> Inl x
                  | Inr enc \<Rightarrow>
                     (let filebuf = (if enc = kGzip then DeflateFile (uri response) else ReadFileAsString fs (uri response));
                          r1 = (if enc = kGzip
                                then response\<lparr>headers := (headers response)(kContentEncoding \<mapsto> ''gzip'')\<rparr>
                                else response);
                          r2 = r1\<lparr>content_length := Some (to_i32 (int (length filebuf)))\<rparr> in
                      map_sum id (\<lambda>r. [CallSend (composed r @ filebuf)]) (ComposeHeaders HttpResponse_PrepareMessage r2)))
                else
                 map_sum id (\<lambda>r. [CallSendFile (composed r) (uri response)])
                   (ComposeHeaders HttpResponse_PrepareMessage response)))
          else map_sum id (\<lambda>r. [CallSend (composed r)]) (ComposeHeaders HttpResponse_PrepareMessage response)))"

definition OnClientMessage ::
  "files \<Rightarrow> (string \<Rightarrow> string) \<Rightarrow> http_codec \<Rightarrow> buffer \<Rightarrow> http_outcome res" where
  "OnClientMessage fs DeflateFile codec b =
     (case Buffer_Peek (unat (ReadableBytes b)) b of
        Inl x \<Rightarrow> Inl x
      | Inr (_, message) \<Rightarrow>
         (case HttpMessage_ParseMessage HttpRequest_HandleMessage message HttpRequest_new of
            Inl x \<Rightarrow> Inl x
          | Inr (status, len, request) \<Rightarrow>
             (if status = -1 then Inr \<lparr>out_buffer = b, out_calls = [], out_leaked = 2\<rparr>
              else
               (let b' = HaveRead (as_size len) b;
                    request1 = request\<lparr>status_code := Some status\<rparr> in
                case (case server_callback codec of
                        None \<Rightarrow> Inr (request1, HttpResponse_new)
                      | Some callback \<Rightarrow> callback request1 HttpResponse_new) of
                  Inl x \<Rightarrow> Inl x
                | Inr (request2, response) \<Rightarrow>
                   (case http_respond fs DeflateFile (send_file codec) request2 response of
                      Inl x \<Rightarrow> Inl x
                    | Inr calls \<Rightarrow>
                       Inr \<lparr>out_buffer = b',
                            out_calls = calls @ (if version request2 = ''HTTP/1.0'' then [CallShutDownWrite] else []),
                            out_leaked = 0\<rparr>)))))"

text \<open>The constructor of \<open>HttpServer\<close> binds its dispatch as the codec's callback.\<close>

definition HttpServer_codec :: "bool \<Rightarrow> (int \<rightharpoonup> request_callback) \<Rightarrow> http_codec" where
  "HttpServer_codec no_tls callbacks = \<lparr>server_callback = Some (HttpServer_OnMessage callbacks), send_file = no_tls\<rparr>"

definition get_server :: "files \<Rightarrow> string \<Rightarrow> int \<rightharpoonup> request_callback" where
  "get_server fs root = RegisterCallback kHttpGet (HandleHttpGet fs root) Map.empty"

section \<open>Serving a request\<close>

lemma Buffer_Peek_content:
  assumes "buffer_ok b"
  shows "\<exists>n. Buffer_Peek (unat (ReadableBytes b)) b = Inr (n, content b)"
  using assms length_content [OF assms] unat_u32_less [of "ReadableBytes b"] by (simp add: Buffer_Peek_ok)

definition target :: "string \<Rightarrow> string" where
  "target u = (if u = [] then ''index.html'' else u)"

definition mime_type :: "string \<Rightarrow> string" where
  "mime_type u = (case kFileMimeTypes (GetFileSuffix u) of None \<Rightarrow> kUnknownFileMimeType | Some t \<Rightarrow> t)"

text \<open>Compression is used for files of a text format above the threshold.\<close>

definition served_encoding :: "string \<Rightarrow> nat \<Rightarrow> int \<Rightarrow> int" where
  "served_encoding u n enc =
     (if GetFileSuffix u \<le> kFileFormatCompressible \<or> int n \<le> kCompressibleFileSizeThreshold then kIdentity else enc)"

text \<open>The head of a response with the fields the handler sets.\<close>

definition response_head :: "string \<Rightarrow> string \<Rightarrow> string \<Rightarrow> nat \<Rightarrow> string" where
  "response_head v status mime n =
     v @ '' '' @ status @ kHeaderBreak @ ''Content-Type: '' @ mime @ kHeaderBreak @
     ''Content-Length: '' @ to_string (int n) @ kHeaderBreak @ kHeaderBreak"

lemma compose_response:
  assumes "kHttpStatus code = Some status" and "status_code ctx = Some code" and "content_length ctx = Some (int n)"
    and "headers ctx = [kContentType \<mapsto> mime]" and "version ctx = v"
  shows "\<exists>ctx'. ComposeHeaders HttpResponse_PrepareMessage ctx = Inr (Some (response_head v status mime n), ctx')"
proof -
  have "[0..7] = [0, 1, 2, 3, 4, 5, 6, 7::int]" by (simp add: upto.simps)
  then show ?thesis
    using assms
    by (simp add: ComposeHeaders_def HttpResponse_PrepareMessage_def read_int_def compose_field_def response_head_def
        kContentType_def kContentLength_def kHeaderFieldStrs_def Let_def)
qed

lemma kHttpStatus_used [simp]:
  "kHttpStatus kOk = Some ''200 OK''" "kHttpStatus kNotFound = Some ''404 Not Found''" "kNotFound \<noteq> kOk" "kOk \<noteq> kNotFound"
  by (simp_all add: kHttpStatus_def kOk_def kNotFound_def)

lemma HandleHttpGet_found:
  assumes "status_code c1 = Some kOk" and "content_encoding c1 = Some enc" and "headers c2 = Map.empty"
    and "fs (root @ target (uri c1)) = Some d" and "length d < 2 ^ 31"
  shows "\<exists>c1' c2'. HandleHttpGet fs root c1 c2 = Inr (c1', c2') \<and> version c1' = version c1 \<and>
     content_encoding c1' = Some (served_encoding (target (uri c1)) (length d) enc) \<and>
     uri c2' = root @ target (uri c1) \<and> version c2' = version c2 \<and> status_code c2' = Some kOk \<and>
     content_length c2' = Some (int (length d)) \<and> headers c2' = [kContentType \<mapsto> mime_type (target (uri c1))]"
  using assms
  by (auto simp: HandleHttpGet_def read_int_def target_def GetFileSize_def to_i32_id served_encoding_def mime_type_def
      Let_def split: if_splits)

lemma HandleHttpGet_missing:
  assumes "status_code c1 = Some kOk" and "headers c2 = Map.empty" and "fs (root @ target (uri c1)) = None"
  shows "\<exists>c1' c2'. HandleHttpGet fs root c1 c2 = Inr (c1', c2') \<and> version c1' = version c1 \<and>
     version c2' = version c2 \<and> status_code c2' = Some kNotFound \<and>
     content_length c2' = Some (int 0) \<and> headers c2' = [kContentType \<mapsto> mime_type (target (uri c1))]"
  using assms
  by (auto simp: HandleHttpGet_def read_int_def target_def GetFileSize_def mime_type_def Let_def
      split: if_splits)

text \<open>From the parsed request to the handler of the server.\<close>

lemma OnClientMessage_get:
  assumes "buffer_ok b" and "content b = http_text (request_line ''GET'' u v) hs body @ rest"
    and "request_ok ''GET'' u v hs body encs" and "length (content b) < 2 ^ 31 - 5"
  shows "\<exists>b' c1. buffer_ok b' \<and> content b' = rest \<and> uri c1 = u \<and> version c1 = v \<and> status_code c1 = Some kOk \<and>
     content_encoding c1 = Some (chosen_encoding encs) \<and>
     OnClientMessage fs z (HttpServer_codec no_tls (get_server fs root)) b =
       (case HandleHttpGet fs root c1 ((HttpContext_clear HttpResponse_new)\<lparr>version := v\<rparr>) of
          Inl x \<Rightarrow> Inl x
        | Inr (request2, response) \<Rightarrow>
           map_sum id (\<lambda>calls. \<lparr>out_buffer = b',
               out_calls = calls @ (if version request2 = ''HTTP/1.0'' then [CallShutDownWrite] else []), out_leaked = 0\<rparr>)
             (http_respond fs z no_tls request2 response))"
proof -
  let ?t = "http_text (request_line ''GET'' u v) hs body"
  define c1 where "c1 = HttpRequest_new\<lparr>http_method := Some kHttpGet, uri := u, version := v,
      start_line := request_line ''GET'' u v, headers := header_map hs, payload := body,
      content_encoding := Some (chosen_encoding encs), status_code := Some kOk\<rparr>"
  have "kHttpRequestMethods ''GET'' = Some kHttpGet" by (simp add: kHttpRequestMethods_def kHttpGet_def)
  then have p: "HttpMessage_ParseMessage HttpRequest_HandleMessage (content b) HttpRequest_new
      = Inr (kOk, int (length ?t), HttpRequest_new\<lparr>http_method := Some kHttpGet, uri := u, version := v,
          start_line := request_line ''GET'' u v, headers := header_map hs, payload := body,
          content_encoding := Some (chosen_encoding encs)\<rparr>)"
    using parse_request [OF assms(3), of rest HttpRequest_new] assms(2,4) by simp
  have lt: "length ?t < 2 ^ 31 - 5" using assms(2,4) by simp
  let ?b = "HaveRead (length ?t) b"
  have "buffer_ok ?b" "content ?b = rest"
    using HaveRead_ok [OF assms(1), of "length ?t"] assms(2) lt by simp_all
  moreover obtain n where "Buffer_Peek (unat (ReadableBytes b)) b = Inr (n, content b)"
    using Buffer_Peek_content [OF assms(1)] by blast
  ultimately show ?thesis
    using p lt
    by (intro exI [of _ ?b] exI [of _ c1])
      (auto simp: OnClientMessage_def HttpServer_codec_def HttpServer_OnMessage_def get_server_def RegisterCallback_def
        read_int_def c1_def kOk_def Let_def split: sum.split)
qed

lemma OnClientMessage_serves:
  assumes "buffer_ok b" and "content b = http_text (request_line ''GET'' u v) hs body @ rest"
    and "request_ok ''GET'' u v hs body encs" and "length (content b) < 2 ^ 31 - 5"
    and "fs (root @ target u) = Some d" and "length d < 2 ^ 31"
    and "served_encoding (target u) (length d) (chosen_encoding encs) \<noteq> kGzip"
  shows "\<exists>out. OnClientMessage fs z (HttpServer_codec no_tls (get_server fs root)) b = Inr out \<and>
     out_calls out =
       (if no_tls then CallSendFile (response_head v ''200 OK'' (mime_type (target u)) (length d)) (root @ target u)
        else CallSend (response_head v ''200 OK'' (mime_type (target u)) (length d) @ d)) #
       (if v = ''HTTP/1.0'' then [CallShutDownWrite] else []) \<and>
     content (out_buffer out) = rest \<and> out_leaked out = 0"
proof -
  let ?c2 = "(HttpContext_clear HttpResponse_new)\<lparr>version := v\<rparr>" and ?h = "response_head v ''200 OK'' (mime_type (target u)) (length d)"
  obtain b' c1 where o: "content b' = rest" "uri c1 = u" "version c1 = v" "status_code c1 = Some kOk"
    "content_encoding c1 = Some (chosen_encoding encs)"
    "OnClientMessage fs z (HttpServer_codec no_tls (get_server fs root)) b =
       (case HandleHttpGet fs root c1 ?c2 of
          Inl x \<Rightarrow> Inl x
        | Inr (request2, response) \<Rightarrow>
           map_sum id (\<lambda>calls. \<lparr>out_buffer = b',
               out_calls = calls @ (if version request2 = ''HTTP/1.0'' then [CallShutDownWrite] else []), out_leaked = 0\<rparr>)
             (http_respond fs z no_tls request2 response))"
    using OnClientMessage_get [OF assms(1-4), of fs z no_tls root] by blast
  have "headers ?c2 = Map.empty" by (simp add: HttpContext_clear_def)
  from HandleHttpGet_found [OF o(4,5) this, of fs root d] obtain q r where
    g: "HandleHttpGet fs root c1 ?c2 = Inr (q, r)" "version q = v"
    "content_encoding q = Some (served_encoding (target u) (length d) (chosen_encoding encs))"
    "uri r = root @ target u" "version r = v" "status_code r = Some kOk" "content_length r = Some (int (length d))"
    "headers r = [kContentType \<mapsto> mime_type (target u)]"
    using assms(5,6) o(2,3) by auto
  obtain r' where r': "ComposeHeaders HttpResponse_PrepareMessage r = Inr (Some ?h, r')"
    using compose_response [OF kHttpStatus_used(1) g(6,7,8,5)] by blast
  have rr: "r\<lparr>content_length := Some (to_i32 (int (length d)))\<rparr> = r"
    using g(7) assms(6) by (simp add: to_i32_id)
  have "http_respond fs z no_tls q r = Inr [if no_tls then CallSendFile ?h (root @ target u) else CallSend (?h @ d)]"
    using g(3,4,6) r' rr assms(5,7) by (simp add: http_respond_def read_int_def composed_def Let_def)
  then show ?thesis using o(1,6) g(1,2) by simp
qed

section \<open>Properties\<close>

text \<open>
  Property C25. A \<open>GET\<close> request for a file that exists is answered with it: the server sends, in one
  message, a status line 200, the type of the file by its suffix, its length and the file (with
  \<open>SendFile\<close> on a plain connection, with \<open>Send\<close> on an encrypted one), shuts down writing after an
  HTTP/1.0 request, and takes exactly the request off the buffer. The case is that of a file that
  is not sent compressed. Whatever follows the request, even a complete one, stays unanswered in
  the buffer until the next read event.
\<close>

theorem http_get_serves_file:
  assumes "buffer_ok b" and "content b = http_text (request_line ''GET'' u v) hs body @ rest"
    and "request_ok ''GET'' u v hs body encs" and "length (content b) < 2 ^ 31 - 5"
    and "fs (root @ target u) = Some d" and "length d < 2 ^ 31"
    and "served_encoding (target u) (length d) (chosen_encoding encs) \<noteq> kGzip"
  shows "\<exists>out. OnClientMessage fs z (HttpServer_codec no_tls (get_server fs root)) b = Inr out \<and>
     out_calls out =
       (if no_tls then CallSendFile (response_head v ''200 OK'' (mime_type (target u)) (length d)) (root @ target u)
        else CallSend (response_head v ''200 OK'' (mime_type (target u)) (length d) @ d)) #
       (if v = ''HTTP/1.0'' then [CallShutDownWrite] else []) \<and>
     content (out_buffer out) = rest \<and> out_leaked out = 0"
  by (rule OnClientMessage_serves [where fs = fs and root = root and u = u, OF assms])

definition get_buffer :: buffer where
  "get_buffer = \<lparr>read_index = 0, write_index = 26, vec = http_text (request_line ''GET'' ''a.txt'' ''HTTP/1.0'') [] [] @ ''GET''\<rparr>"

lemma get_buffer_ok:
  "buffer_ok get_buffer"
  "content get_buffer = http_text (request_line ''GET'' ''a.txt'' ''HTTP/1.0'') [] [] @ ''GET''"
  "request_ok ''GET'' ''a.txt'' ''HTTP/1.0'' [] [] []" "length (content get_buffer) < 2 ^ 31 - 5"
  by (simp_all add: get_buffer_def buffer_ok_def content_def http_text_def message_text_def request_line_def kHeaderBreak_def
      request_ok_def kHttpRequestMethods_def accepts_def header_map_def)

theorem http_get_serves_file_witness:
  "\<exists>out. OnClientMessage [''www/a.txt'' \<mapsto> ''hello''] id (HttpServer_codec False (get_server [''www/a.txt'' \<mapsto> ''hello''] ''www/'')) get_buffer
       = Inr out \<and>
     out_calls out = [CallSend (''HTTP/1.0 200 OK'' @ [CR, LF] @ ''Content-Type: text/plain; charset=utf-8'' @ [CR, LF] @
        ''Content-Length: 5'' @ [CR, LF, CR, LF] @ ''hello''), CallShutDownWrite] \<and>
     content (out_buffer out) = ''GET'' \<and> out_leaked out = 0"
proof -
  have suffix: "GetFileSuffix ''a.txt'' = 17"
    by (simp add: GetFileSuffix_def file_suffix_def kFileMimeTypeCodes_def)
  have five: "to_string 5 = ''5''" by code_simp
  have "served_encoding (target ''a.txt'') (length ''hello'') (chosen_encoding []) \<noteq> kGzip"
    by (simp add: served_encoding_def chosen_encoding_def kIdentity_def kGzip_def)
  from http_get_serves_file [OF get_buffer_ok _ _ this, of "[''www/a.txt'' \<mapsto> ''hello'']" "''www/''" id False]
  show ?thesis
    by (simp add: target_def response_head_def mime_type_def suffix kFileMimeTypes_def kHeaderBreak_def five)
qed

text \<open>
  A \<open>GET\<close> request for a file that cannot be opened is answered with the status 404 and an
  empty body.
\<close>

theorem http_get_missing_file:
  assumes "buffer_ok b" and "content b = http_text (request_line ''GET'' u v) hs body @ rest"
    and "request_ok ''GET'' u v hs body encs" and "length (content b) < 2 ^ 31 - 5"
    and "fs (root @ target u) = None"
  shows "\<exists>out. OnClientMessage fs z (HttpServer_codec no_tls (get_server fs root)) b = Inr out \<and>
     out_calls out = CallSend (response_head v ''404 Not Found'' (mime_type (target u)) 0) #
       (if v = ''HTTP/1.0'' then [CallShutDownWrite] else []) \<and>
     content (out_buffer out) = rest \<and> out_leaked out = 0"
proof -
  let ?c2 = "(HttpContext_clear HttpResponse_new)\<lparr>version := v\<rparr>"
  obtain b' c1 where o: "content b' = rest" "uri c1 = u" "version c1 = v" "status_code c1 = Some kOk"
    "OnClientMessage fs z (HttpServer_codec no_tls (get_server fs root)) b =
       (case HandleHttpGet fs root c1 ?c2 of
          Inl x \<Rightarrow> Inl x
        | Inr (request2, response) \<Rightarrow>
           map_sum id (\<lambda>calls. \<lparr>out_buffer = b',
               out_calls = calls @ (if version request2 = ''HTTP/1.0'' then [CallShutDownWrite] else []), out_leaked = 0\<rparr>)
             (http_respond fs z no_tls request2 response))"
    using OnClientMessage_get [OF assms(1-4), of fs z no_tls root] by blast
  have "headers ?c2 = Map.empty" by (simp add: HttpContext_clear_def)
  from HandleHttpGet_missing [OF o(4) this, of fs root] obtain q r where
    g: "HandleHttpGet fs root c1 ?c2 = Inr (q, r)" "version q = v" "version r = v" "status_code r = Some kNotFound"
    "content_length r = Some (int 0)" "headers r = [kContentType \<mapsto> mime_type (target u)]"
    using assms(5) o(2,3) by auto
  obtain r' where "ComposeHeaders HttpResponse_PrepareMessage r
      = Inr (Some (response_head v ''404 Not Found'' (mime_type (target u)) 0), r')"
    using compose_response [OF kHttpStatus_used(2) g(4,5,6,3)] by blast
  then show ?thesis
    using o(1,5) g(1,2,4) by (simp add: http_respond_def read_int_def composed_def)
qed

theorem http_get_missing_file_witness:
  "\<exists>out. OnClientMessage Map.empty id (HttpServer_codec True (get_server Map.empty ''www/'')) get_buffer = Inr out \<and>
     out_calls out = [CallSend (response_head ''HTTP/1.0'' ''404 Not Found'' (mime_type ''a.txt'') 0), CallShutDownWrite] \<and>
     content (out_buffer out) = ''GET'' \<and> out_leaked out = 0"
  using http_get_missing_file [OF get_buffer_ok, of Map.empty "''www/''" id True] by (simp add: target_def)

text \<open>
  The server answers no other request: when a complete message is anything but a \<open>GET\<close>
  that was parsed with status 200 (a header line without a colon, a bad request line, an unknown
  method, or a method without a callback), handling it reads an integer that was never
  initialized, of the request's or the response's context, and no response with a status of 400,
  405 or 501 is ever composed.
\<close>

theorem http_errors_read_uninitialized:
  assumes "buffer_ok b"
    and "HttpMessage_ParseMessage HttpRequest_HandleMessage (content b) HttpRequest_new = Inr (status, len, ctx)"
    and "status \<noteq> -1" and "status \<noteq> kOk \<or> http_method ctx \<noteq> Some kHttpGet"
  shows "OnClientMessage fs z (HttpServer_codec no_tls (get_server fs root)) b = Inl (UB ''uninitialized int'')"
proof -
  obtain n where pk: "Buffer_Peek (unat (ReadableBytes b)) b = Inr (n, content b)"
    using Buffer_Peek_content [OF assms(1)] by blast
  have fresh: "status_code HttpResponse_new = None" "content_length HttpResponse_new = None"
    by (simp_all add: HttpResponse_new_def HttpContext_new_def)
  have ni: "kHttpStatus kNotImplemented = Some ''501 Not Implemented''" "kNotImplemented \<noteq> kOk"
    by (simp_all add: kHttpStatus_def kNotImplemented_def kOk_def)
  show ?thesis
  proof (cases "http_method ctx")
    case None
    then show ?thesis
      using pk assms(2,3)
      by (simp add: OnClientMessage_def HttpServer_codec_def HttpServer_OnMessage_def read_int_def)
  next
    case (Some m)
    then show ?thesis
      using pk assms(2-4) fresh ni
      by (auto simp: OnClientMessage_def HttpServer_codec_def HttpServer_OnMessage_def read_int_def get_server_def
          RegisterCallback_def HandleHttpGet_def http_respond_def HttpContext_clear_def ComposeHeaders_def
          HttpResponse_PrepareMessage_def Let_def)
  qed
qed

text \<open>A message of one line without a colon behind the request line.\<close>

definition bad_buffer :: buffer where
  "bad_buffer = \<lparr>read_index = 0, write_index = 22, vec = message_text [''GET / HTTP/1.1'', ''oo''] []\<rparr>"

lemma bad_buffer_parse:
  "buffer_ok bad_buffer"
  "HttpMessage_ParseMessage HttpRequest_HandleMessage (content bad_buffer) HttpRequest_new
     = Inr (400, 0, HttpRequest_new\<lparr>start_line := ''GET / HTTP/1.1'', headers := Map.empty\<rparr>)"
proof -
  let ?ls = "[''GET / HTTP/1.1'', ''oo'']"
  have c: "content bad_buffer = message_text ?ls [] @ []"
    by (simp add: bad_buffer_def content_def message_text_def kHeaderBreak_def)
  show "buffer_ok bad_buffer"
    by (simp add: bad_buffer_def buffer_ok_def message_text_def kHeaderBreak_def)
  have l: "length (message_text ?ls [] @ []) < 2 ^ 31 - 5" by (simp add: message_text_def kHeaderBreak_def)
  note lines = message_text_lines [of ?ls "[]" "[]", OF _ _ _ l]
  obtain ps where "find_substr (message_text ?ls [] @ []) (kHeaderBreak @ kHeaderBreak) = Inr (int (length (join kHeaderBreak ?ls)) # ps)"
    using lines(1) by auto
  moreover have "(HttpContext_clear HttpRequest_new)\<lparr>start_line := x\<rparr> = HttpRequest_new\<lparr>start_line := x, headers := Map.empty\<rparr>" for x
    by (simp add: HttpContext_clear_def HttpRequest_new_def HttpContext_new_def)
  ultimately show "HttpMessage_ParseMessage HttpRequest_HandleMessage (content bad_buffer) HttpRequest_new
     = Inr (400, 0, HttpRequest_new\<lparr>start_line := ''GET / HTTP/1.1'', headers := Map.empty\<rparr>)"
    unfolding c using lines(2,3)
    by (simp add: HttpMessage_ParseMessage_def kBadRequest_def del: join.simps append_Nil2)
qed

theorem http_errors_read_uninitialized_witness:
  "OnClientMessage Map.empty id (HttpServer_codec True (get_server Map.empty ''www/'')) bad_buffer
     = Inl (UB ''uninitialized int'')"
  using http_errors_read_uninitialized [OF bad_buffer_parse, of Map.empty id True "''www/''"] by (simp add: kOk_def)

end
