(* ===== verification/Thread_Pool.thy ===== *)
theory Thread_Pool
  imports Ladder_Prelude
begin

text \<open>
  \<^verbatim>\<open>ladder/src/ThreadPool.cpp\<close>: worker threads that take tasks off a queue under a mutex and wait on
  a condition variable while it is empty. The states of the threads are explicit, and one step of
  the system is one critical section, one notification or the end of one task, so that every
  interleaving is a sequence of steps. \<open>wait(lock, predicate)\<close> evaluates its predicate under the
  mutex and goes to sleep in the same critical section; a sleeping thread wakes up by a
  notification, or spuriously, and evaluates the predicate again. The notification after a
  critical section is a step of its own.

  The histories of the tasks submitted and started are kept in the state for the statements.
\<close>

section \<open>A service that handles requests in order\<close>

text \<open>
  A service has a queue; a step submits a request, starts the request in front, or does neither.
  The thread pool and the logger are such services.
\<close>

locale fifo_service =
  fixes init :: "'s \<Rightarrow> bool"
    and step :: "'s \<Rightarrow> 's \<Rightarrow> bool"
    and queue :: "'s \<Rightarrow> 'a list"
    and submitted :: "'s \<Rightarrow> 'a list"
    and started :: "'s \<Rightarrow> 'a list"
  assumes init_empty: "init s \<Longrightarrow> queue s = [] \<and> submitted s = [] \<and> started s = []"
    and step_fifo: "step s s' \<Longrightarrow>
      (\<exists>x. queue s' = queue s @ [x] \<and> submitted s' = submitted s @ [x] \<and> started s' = started s) \<or>
      (\<exists>x. queue s = x # queue s' \<and> submitted s' = submitted s \<and> started s' = started s @ [x]) \<or>
      (queue s' = queue s \<and> submitted s' = submitted s \<and> started s' = started s)"
begin

lemma started_then_queue:
  assumes "step\<^sup>*\<^sup>* s0 s" and "init s0"
  shows "submitted s = started s @ queue s"
  using assms
proof (induction rule: rtranclp_induct)
  case base
  then show ?case using init_empty by simp
next
  case (step s s')
  then show ?case using step_fifo [OF step.hyps(2)] by auto
qed

lemma started_grows:
  assumes "step\<^sup>*\<^sup>* s s'"
  shows "\<exists>more. started s' = started s @ more"
  using assms
proof (induction rule: rtranclp_induct)
  case (step s' s'')
  then show ?case using step_fifo [OF step.hyps(2)] by auto
qed simp

end

section \<open>The model\<close>

datatype 'a worker = Checking | Sleeping | Busy 'a | Exited

record 'a thread_pool =
  tasks :: "'a list"
  stopped :: bool
  threads :: "'a worker list"
  notices :: nat
  stop_notice :: bool
  tp_submitted :: "'a list"
  tp_started :: "'a list"

text \<open>The constructor starts \<open>capacity\<close> threads, each about to evaluate the predicate.\<close>

definition ThreadPool_new :: "nat \<Rightarrow> 'a thread_pool" where
  "ThreadPool_new capacity = \<lparr>tasks = [], stopped = False, threads = replicate capacity Checking,
     notices = 0, stop_notice = False, tp_submitted = [], tp_started = []\<rparr>"

text \<open>\<open>emplace\<close> ignores an empty function. \<open>notify_one\<close> follows the critical section.\<close>

definition ThreadPool_emplace :: "'a option \<Rightarrow> 'a thread_pool \<Rightarrow> 'a thread_pool" where
  "ThreadPool_emplace f s =
     (case f of
        None \<Rightarrow> s
      | Some t \<Rightarrow> s\<lparr>tasks := tasks s @ [t], tp_submitted := tp_submitted s @ [t], notices := Suc (notices s)\<rparr>)"

text \<open>The critical section of the destructor; \<open>notify_all\<close> and the joins follow.\<close>

definition ThreadPool_stop :: "'a thread_pool \<Rightarrow> 'a thread_pool" where
  "ThreadPool_stop s = s\<lparr>stopped := True, stop_notice := True\<rparr>"

text \<open>The critical section of thread \<open>i\<close>.\<close>

definition worker_check :: "nat \<Rightarrow> 'a thread_pool \<Rightarrow> 'a thread_pool" where
  "worker_check i s =
     (if stopped s \<or> tasks s \<noteq> []
      then if stopped s \<and> tasks s = []
           then s\<lparr>threads := (threads s)[i := Exited]\<rparr>
           else s\<lparr>threads := (threads s)[i := Busy (hd (tasks s))], tasks := tl (tasks s),
                  tp_started := tp_started s @ [hd (tasks s)]\<rparr>
      else s\<lparr>threads := (threads s)[i := Sleeping]\<rparr>)"

definition set_worker :: "nat \<Rightarrow> 'a worker \<Rightarrow> 'a thread_pool \<Rightarrow> 'a thread_pool" where
  "set_worker i w s = s\<lparr>threads := (threads s)[i := w]\<rparr>"

definition wake :: "'a worker \<Rightarrow> 'a worker" where
  "wake w = (case w of Sleeping \<Rightarrow> Checking | _ \<Rightarrow> w)"

definition worker_in :: "nat \<Rightarrow> 'a worker \<Rightarrow> 'a thread_pool \<Rightarrow> bool" where
  "worker_in i w s \<longleftrightarrow> i < length (threads s) \<and> threads s ! i = w"

text \<open>The steps the pool takes by itself.\<close>

inductive tp_internal :: "'a thread_pool \<Rightarrow> 'a thread_pool \<Rightarrow> bool" where
  check: "worker_in i Checking s \<Longrightarrow> tp_internal s (worker_check i s)"
| task_ends: "worker_in i (Busy t) s \<Longrightarrow> tp_internal s (set_worker i Checking s)"
| notify_one: "notices s = Suc k \<Longrightarrow> worker_in i Sleeping s \<Longrightarrow>
    tp_internal s (set_worker i Checking (s\<lparr>notices := k\<rparr>))"
| notify_nobody: "notices s = Suc k \<Longrightarrow> Sleeping \<notin> set (threads s) \<Longrightarrow> tp_internal s (s\<lparr>notices := k\<rparr>)"
| notify_all: "stop_notice s \<Longrightarrow>
    tp_internal s (s\<lparr>stop_notice := False, threads := map wake (threads s)\<rparr>)"

text \<open>
  All steps: also the calls of the owner, and spurious wake-ups. Once the destructor runs, only a
  task that is being executed may still call \<open>emplace\<close>.
\<close>

inductive tp_step :: "'a thread_pool \<Rightarrow> 'a thread_pool \<Rightarrow> bool" where
  internal: "tp_internal s s' \<Longrightarrow> tp_step s s'"
| emplace: "\<not> stopped s \<or> worker_in i (Busy t) s \<Longrightarrow> tp_step s (ThreadPool_emplace f s)"
| stop: "\<not> stopped s \<Longrightarrow> tp_step s (ThreadPool_stop s)"
| spurious: "worker_in i Sleeping s \<Longrightarrow> tp_step s (set_worker i Checking s)"

inductive_cases tp_internalE: "tp_internal s s'"
inductive_cases tp_stepE: "tp_step s s'"

lemmas tp_defs = worker_check_def set_worker_def worker_in_def wake_def ThreadPool_emplace_def ThreadPool_stop_def

interpretation tp: fifo_service "\<lambda>s. \<exists>n. s = ThreadPool_new n" tp_step tasks tp_submitted tp_started
proof unfold_locales
  fix s s' :: "'a thread_pool"
  assume "tp_step s s'"
  then show "(\<exists>x. tasks s' = tasks s @ [x] \<and> tp_submitted s' = tp_submitted s @ [x] \<and> tp_started s' = tp_started s) \<or>
      (\<exists>x. tasks s = x # tasks s' \<and> tp_submitted s' = tp_submitted s \<and> tp_started s' = tp_started s @ [x]) \<or>
      (tasks s' = tasks s \<and> tp_submitted s' = tp_submitted s \<and> tp_started s' = tp_started s)"
    by (elim tp_stepE tp_internalE) (auto simp: tp_defs split: option.splits)
qed (auto simp: ThreadPool_new_def)

section \<open>No wake-up is lost\<close>

definition active :: "'a worker \<Rightarrow> bool" where
  "active w \<longleftrightarrow> (case w of Checking \<Rightarrow> True | Busy _ \<Rightarrow> True | _ \<Rightarrow> False)"

definition tp_inv :: "'a thread_pool \<Rightarrow> bool" where
  "tp_inv s \<longleftrightarrow>
     (tasks s \<noteq> [] \<and> Sleeping \<in> set (threads s) \<longrightarrow> list_ex active (threads s) \<or> 0 < notices s) \<and>
     (stopped s \<and> Sleeping \<in> set (threads s) \<longrightarrow> stop_notice s) \<and>
     (Exited \<in> set (threads s) \<longrightarrow> stopped s) \<and>
     (tasks s \<noteq> [] \<and> threads s \<noteq> [] \<longrightarrow> list_ex (\<lambda>w. w \<noteq> Exited) (threads s))"

lemma list_ex_update: "i < length ws \<Longrightarrow> P w \<Longrightarrow> list_ex P (ws[i := w])"
  by (auto simp: list_ex_iff set_update_memI)

lemma in_update: "w \<in> set (ws[i := v]) \<Longrightarrow> w = v \<or> w \<in> set ws"
  using set_update_subset_insert [of ws i v] by auto

text \<open>Replacing the state of one thread by an active one keeps the invariant.\<close>

lemma tp_inv_activate:
  assumes "tp_inv s" and "i < length (threads s)" and "active w"
  shows "tp_inv (s\<lparr>threads := (threads s)[i := w]\<rparr>)"
  using assms list_ex_update [OF assms(2), of active w] list_ex_update [OF assms(2), of "\<lambda>w. w \<noteq> Exited" w]
  by (auto simp: tp_inv_def active_def dest!: in_update split: worker.splits)

lemma tp_inv_new: "tp_inv (ThreadPool_new n)"
  by (auto simp: tp_inv_def ThreadPool_new_def list_ex_iff)

lemma tp_inv_check:
  assumes "tp_inv s" and "worker_in i Checking s"
  shows "tp_inv (worker_check i s)"
proof (cases "tasks s")
  case Nil
  then show ?thesis
    using assms by (auto simp: tp_inv_def worker_check_def dest!: in_update)
next
  case (Cons t ts)
  have "tp_inv (s\<lparr>threads := (threads s)[i := Busy t]\<rparr>)"
    by (rule tp_inv_activate) (use assms in \<open>auto simp: worker_in_def active_def\<close>)
  moreover have "list_ex active ((threads s)[i := Busy t])" "list_ex (\<lambda>w. w \<noteq> Exited) ((threads s)[i := Busy t])"
    using assms(2) by (auto simp: worker_in_def active_def intro!: list_ex_update)
  ultimately show ?thesis
    using Cons by (simp add: tp_inv_def worker_check_def)
qed

lemma wake_worker [simp]:
  "wake w = Exited \<longleftrightarrow> w = Exited" "Exited = wake w \<longleftrightarrow> w = Exited" "Sleeping \<noteq> wake w"
  by (auto simp: wake_def split: worker.splits)

lemma wake_set [simp]: "Exited \<in> wake ` set ws \<longleftrightarrow> Exited \<in> set ws" "Sleeping \<notin> wake ` set ws"
  by (auto simp: image_iff)

lemma tp_inv_internal:
  assumes "tp_internal s s'" and "tp_inv s"
  shows "tp_inv s'"
  using assms
proof (induction rule: tp_internal.induct)
  case (notify_one s k i)
  then show ?case
    using list_ex_update [of i "threads s" active Checking] list_ex_update [of i "threads s" "\<lambda>w. w \<noteq> Exited" Checking]
    by (auto simp: tp_inv_def worker_in_def set_worker_def active_def dest!: in_update)
next
  case (notify_all s)
  then show ?case
    by (simp add: tp_inv_def list_ex_iff)
qed (auto simp: tp_inv_check tp_inv_activate set_worker_def worker_in_def active_def, auto simp: tp_inv_def)

lemma tp_inv_step:
  assumes "tp_step s s'" and "tp_inv s"
  shows "tp_inv s'"
  using assms
proof (induction rule: tp_step.induct)
  case (emplace s i t f)
  have "threads s \<noteq> [] \<longrightarrow> list_ex (\<lambda>w. w \<noteq> Exited) (threads s)"
  proof (cases "stopped s")
    case True
    then show ?thesis
      using emplace(1) nth_mem [of i "threads s"] by (auto simp: worker_in_def list_ex_iff)
  next
    case False
    then have "Exited \<notin> set (threads s)" using emplace(2) by (simp add: tp_inv_def)
    then show ?thesis by (cases "threads s") (auto simp: list_ex_iff)
  qed
  then show ?case
    using emplace by (auto simp: tp_inv_def ThreadPool_emplace_def split: option.splits)
qed (auto simp: tp_inv_internal tp_inv_activate set_worker_def worker_in_def active_def,
     auto simp: tp_inv_def ThreadPool_stop_def)

lemma tp_reachable_inv: "tp_step\<^sup>*\<^sup>* (ThreadPool_new n) s \<Longrightarrow> tp_inv s"
  by (induction rule: rtranclp_induct) (auto simp: tp_inv_new intro: tp_inv_step)

lemma tp_step_threads: "tp_step s s' \<Longrightarrow> length (threads s') = length (threads s)"
  by (elim tp_stepE tp_internalE) (auto simp: tp_defs split: option.splits)

lemma tp_reachable_threads: "tp_step\<^sup>*\<^sup>* (ThreadPool_new n) s \<Longrightarrow> length (threads s) = n"
  by (induction rule: rtranclp_induct) (auto simp: ThreadPool_new_def tp_step_threads)

section \<open>The pool comes to rest\<close>

definition worker_weight :: "'a worker \<Rightarrow> nat" where
  "worker_weight w = (case w of Busy _ \<Rightarrow> 2 | Checking \<Rightarrow> 1 | _ \<Rightarrow> 0)"

definition tp_measure :: "'a thread_pool \<Rightarrow> nat" where
  "tp_measure s = 2 * length (tasks s) + sum_list (map worker_weight (threads s)) + 2 * notices s +
     (if stop_notice s then Suc (length (threads s)) else 0)"

lemma sum_weight_update:
  "i < length ws \<Longrightarrow> sum_list (map worker_weight (ws[i := w])) + worker_weight (ws ! i)
     = sum_list (map worker_weight ws) + worker_weight w"
proof (induction ws arbitrary: i)
  case (Cons v ws)
  then show ?case by (cases i) auto
qed simp

lemma sum_weight_wake: "sum_list (map worker_weight (map wake ws)) \<le> sum_list (map worker_weight ws) + length ws"
  by (induction ws) (auto simp: worker_weight_def wake_def split: worker.splits)

lemma tp_measure_decreases: "tp_internal s s' \<Longrightarrow> tp_measure s' < tp_measure s"
proof (induction rule: tp_internal.induct)
  case (check i s)
  then show ?case
    using sum_weight_update [of i "threads s" "Busy (hd (tasks s))"] sum_weight_update [of i "threads s" Exited]
      sum_weight_update [of i "threads s" Sleeping]
    by (cases "tasks s") (auto simp: worker_check_def worker_in_def tp_measure_def worker_weight_def)
next
  case (task_ends i t s)
  then show ?case
    using sum_weight_update [of i "threads s" Checking]
    by (auto simp: set_worker_def worker_in_def tp_measure_def worker_weight_def)
next
  case (notify_one s k i)
  then show ?case
    using sum_weight_update [of i "threads s" Checking]
    by (auto simp: set_worker_def worker_in_def tp_measure_def worker_weight_def)
next
  case (notify_all s)
  then show ?case
    using sum_weight_wake [of "threads s"] by (auto simp: tp_measure_def)
qed (auto simp: tp_measure_def)

definition tp_quiet :: "'a thread_pool \<Rightarrow> bool" where
  "tp_quiet s \<longleftrightarrow> \<not> (\<exists>s'. tp_internal s s')"

lemma tp_comes_to_rest: "\<exists>s'. tp_internal\<^sup>*\<^sup>* s s' \<and> tp_quiet s'"
proof (induction "tp_measure s" arbitrary: s rule: less_induct)
  case less
  show ?case
  proof (cases "tp_quiet s")
    case False
    then obtain s1 where s1: "tp_internal s s1" by (auto simp: tp_quiet_def)
    obtain s' where "tp_internal\<^sup>*\<^sup>* s1 s'" "tp_quiet s'"
      using less [OF tp_measure_decreases [OF s1]] by blast
    then show ?thesis using s1 by (meson converse_rtranclp_into_rtranclp)
  qed blast
qed

lemma tp_quiet_workers:
  assumes "tp_quiet s"
  shows "w \<in> set (threads s) \<Longrightarrow> w = Sleeping \<or> w = Exited" and "notices s = 0" and "\<not> stop_notice s"
proof -
  show "w = Sleeping \<or> w = Exited" if w: "w \<in> set (threads s)"
  proof -
    obtain i where i: "worker_in i w s"
      using w by (auto simp: worker_in_def in_set_conv_nth)
    show ?thesis
      using assms i tp_internal.check [of i s] tp_internal.task_ends [of i _ s] by (cases w) (auto simp: tp_quiet_def)
  qed
  show "notices s = 0"
  proof (rule ccontr)
    assume "notices s \<noteq> 0"
    then obtain k where k: "notices s = Suc k" by (cases "notices s") auto
    then show False
      using assms notify_nobody [OF k] notify_one [OF k]
      by (auto simp: tp_quiet_def worker_in_def in_set_conv_nth)
  qed
  show "\<not> stop_notice s" using assms notify_all by (auto simp: tp_quiet_def)
qed

lemma tp_internal_reachable: "tp_internal\<^sup>*\<^sup>* s s' \<Longrightarrow> tp_step\<^sup>*\<^sup>* s s'"
  by (induction rule: rtranclp_induct) (auto intro: rtranclp.rtrancl_into_rtrancl tp_step.internal)

lemma tp_internal_stopped: "tp_internal\<^sup>*\<^sup>* s s' \<Longrightarrow> stopped s' = stopped s"
  by (induction rule: rtranclp_induct) (auto elim!: tp_internalE simp: tp_defs split: if_splits)

section \<open>Properties\<close>

text \<open>
  Property C22. Tasks are started in the order they were submitted, each at most once, and none is
  lost: in every reachable state of the pool, under every interleaving of its threads, the tasks
  submitted are the tasks started followed by the tasks in the queue.
\<close>

theorem thread_pool_fifo:
  assumes "tp_step\<^sup>*\<^sup>* (ThreadPool_new n) s"
  shows "tp_submitted s = tp_started s @ tasks s"
  using tp.started_then_queue [OF assms] by blast

theorem thread_pool_fifo_witness:
  "\<exists>s. tp_step\<^sup>*\<^sup>* (ThreadPool_new 1) s \<and> tp_started s = [7] \<and> tasks s = [8::nat] \<and> tp_submitted s = [7, 8]"
proof -
  let ?s0 = "ThreadPool_new 1 :: nat thread_pool"
  let ?s2 = "ThreadPool_emplace (Some 8) (ThreadPool_emplace (Some 7) ?s0)"
  have "tp_step ?s0 (ThreadPool_emplace (Some 7) ?s0)"
    by (rule tp_step.emplace) (simp add: ThreadPool_new_def)
  moreover have "tp_step (ThreadPool_emplace (Some 7) ?s0) ?s2"
    by (rule tp_step.emplace) (simp add: ThreadPool_new_def ThreadPool_emplace_def)
  moreover have "tp_step ?s2 (worker_check 0 ?s2)"
    by (intro tp_step.internal tp_internal.check)
      (simp add: ThreadPool_new_def ThreadPool_emplace_def worker_in_def)
  ultimately have r: "tp_step\<^sup>*\<^sup>* ?s0 (worker_check 0 ?s2)" by auto
  from thread_pool_fifo [OF this] show ?thesis
    by (intro exI [of _ "worker_check 0 ?s2"] conjI r)
      (simp_all add: ThreadPool_new_def ThreadPool_emplace_def worker_check_def)
qed

text \<open>
  Property C23. The destructor's joins return: from every reachable state in which the destructor has
  set the stop flag, the pool comes to rest (its own steps cannot go on for ever, tasks ending
  after finitely many), and when it is at rest every thread has left its loop and every task ever
  submitted has been run. No wake-up is lost and no task is dropped at shutdown.
\<close>

theorem thread_pool_shutdown:
  assumes "tp_step\<^sup>*\<^sup>* (ThreadPool_new n) s" and "stopped s" and "0 < n"
  shows "(\<exists>s'. tp_internal\<^sup>*\<^sup>* s s' \<and> tp_quiet s') \<and>
     (\<forall>s'. tp_internal\<^sup>*\<^sup>* s s' \<and> tp_quiet s' \<longrightarrow>
        set (threads s') = {Exited} \<and> tp_started s' = tp_submitted s')"
proof (intro conjI allI impI)
  fix s' assume s': "tp_internal\<^sup>*\<^sup>* s s' \<and> tp_quiet s'"
  have r: "tp_step\<^sup>*\<^sup>* (ThreadPool_new n) s'"
    using assms(1) tp_internal_reachable s' by (meson rtranclp_trans)
  have inv: "tp_inv s'" and "length (threads s') = n" and "stopped s'"
    using tp_reachable_inv [OF r] tp_reachable_threads [OF r] tp_internal_stopped s' assms(2) by auto
  have "threads s' \<noteq> []" using \<open>length (threads s') = n\<close> assms(3) by auto
  have "Sleeping \<notin> set (threads s')"
    using inv \<open>stopped s'\<close> tp_quiet_workers(3) s' by (auto simp: tp_inv_def)
  then have all: "\<forall>w\<in>set (threads s'). w = Exited"
    using tp_quiet_workers(1) s' by blast
  then show "set (threads s') = {Exited}"
    using \<open>threads s' \<noteq> []\<close> by (cases "threads s'") auto
  have "tasks s' = []"
    using inv all \<open>threads s' \<noteq> []\<close> by (auto simp: tp_inv_def list_ex_iff)
  then show "tp_started s' = tp_submitted s'"
    using tp.started_then_queue [OF r] by (metis append_Nil2)
qed (rule tp_comes_to_rest)

theorem thread_pool_shutdown_witness:
  "\<exists>s :: nat thread_pool. tp_step\<^sup>*\<^sup>* (ThreadPool_new 2) s \<and> tasks s = [5] \<and> stopped s \<and>
     (\<exists>s'. tp_internal\<^sup>*\<^sup>* s s' \<and> set (threads s') = {Exited} \<and> tp_started s' = [5])"
proof -
  let ?s0 = "ThreadPool_new 2 :: nat thread_pool"
  let ?s1 = "ThreadPool_emplace (Some 5) ?s0"
  let ?s2 = "ThreadPool_stop ?s1"
  have "tp_step ?s0 ?s1" by (rule tp_step.emplace) (simp add: ThreadPool_new_def)
  moreover have "tp_step ?s1 ?s2" by (rule tp_step.stop) (simp add: ThreadPool_new_def ThreadPool_emplace_def)
  ultimately have r: "tp_step\<^sup>*\<^sup>* ?s0 ?s2" by auto
  have st: "tasks ?s2 = [5]" "stopped ?s2" "tp_submitted ?s2 = [5]"
    by (simp_all add: ThreadPool_new_def ThreadPool_emplace_def ThreadPool_stop_def)
  obtain s' where s': "tp_internal\<^sup>*\<^sup>* ?s2 s'" "set (threads s') = {Exited}" "tp_started s' = tp_submitted s'"
    using thread_pool_shutdown [OF r st(2)] by auto
  have "tp_internal\<^sup>*\<^sup>* a b \<Longrightarrow> tp_submitted b = tp_submitted a" for a b :: "nat thread_pool"
    by (induction rule: rtranclp_induct) (auto elim!: tp_internalE simp: tp_defs)
  then show ?thesis using r st s' by metis
qed

end
