(* ===== verification/Logger_Service.thy ===== *)
theory Logger_Service
  imports Thread_Pool
begin

text \<open>
  \<^verbatim>\<open>ladder/src/Logging.cpp\<close> and \<^verbatim>\<open>ladder/include/Logging.h\<close>: a logger with a queue of lines and one thread
  that writes them to a file. The queue, the condition variable and the thread work as in a thread
  pool of one thread, which the logger is shown to refine; what it adds is the filter by severity,
  the format of a line, the output file and the singleton.

  The current time is an argument of the operations that print it.
\<close>

section \<open>Lines\<close>

definition kLogLevels :: "string list" where
  "kLogLevels = [''TRACE'', ''DEBUG'', ''INFO'', ''WARNING'', ''ERROR'', ''FATAL'']"

definition kMaxMessageLength :: nat where
  "kMaxMessageLength = 1024"

definition log_line :: "string \<Rightarrow> nat \<Rightarrow> string \<Rightarrow> string" where
  "log_line now severity message = ''['' @ now @ '']['' @ kLogLevels ! severity @ ''] '' @ message @ [CHR 0x0A]"

text \<open>
  The \<open>char\<close> array after \<open>vsnprintf(msg, sizeof(msg), fmt, args)\<close> of a text, read from \<open>msg\<close> to
  \<open>msg + ret\<close> where \<open>ret\<close> is the length of the whole text: reading past the array is undefined.
\<close>

definition formatted_message :: "string \<Rightarrow> string res" where
  "formatted_message txt =
     (if length txt < kMaxMessageLength then Inr txt
      else if length txt = kMaxMessageLength then Inr (take (kMaxMessageLength - 1) txt @ [NUL])
      else Inl (UB ''WriteLogFmt''))"

text \<open>
  \<open>fprintf(fp_, msg.c_str())\<close>: the line is used as a format. What it prints when it has no
  conversion specification but \<open>%%\<close>; \<open>None\<close> for one that asks for an argument there is none of.
\<close>

fun printf_text :: "string \<Rightarrow> string option" where
  "printf_text [] = Some []"
| "printf_text (c # cs) =
     (if c = NUL then Some []
      else if c \<noteq> CHR ''%'' then map_option (Cons c) (printf_text cs)
      else case cs of
             d # ds \<Rightarrow> if d = CHR ''%'' then map_option (Cons CHR ''%'') (printf_text ds) else None
           | [] \<Rightarrow> None)"

section \<open>The logger\<close>

record logger =
  message_queue :: "string list"
  running :: bool
  level :: nat
  log_thread :: "string worker"
  log_notices :: nat
  log_stop_notice :: bool
  log_file :: string
  log_undefined :: bool
  log_submitted :: "string list"
  log_started :: "string list"

definition Logger_new :: "nat \<Rightarrow> logger" where
  "Logger_new lev = \<lparr>message_queue = [], running = True, level = lev, log_thread = Checking, log_notices = 0,
     log_stop_notice = False, log_file = [], log_undefined = False, log_submitted = [], log_started = []\<rparr>"

definition log_enqueue :: "string \<Rightarrow> logger \<Rightarrow> logger" where
  "log_enqueue line l = l\<lparr>message_queue := message_queue l @ [line], log_submitted := log_submitted l @ [line],
     log_notices := Suc (log_notices l)\<rparr>"

definition WriteLog :: "string \<Rightarrow> string \<Rightarrow> nat \<Rightarrow> logger \<Rightarrow> logger" where
  "WriteLog now message severity l =
     (if severity < level l then l else log_enqueue (log_line now severity message) l)"

definition WriteLogFmt :: "string \<Rightarrow> nat \<Rightarrow> string \<Rightarrow> logger \<Rightarrow> logger res" where
  "WriteLogFmt now severity txt l =
     (if severity < level l then Inr l
      else map_sum id (\<lambda>message. log_enqueue (log_line now severity message) l) (formatted_message txt))"

text \<open>The critical section of the destructor; \<open>notify_one\<close> and the join follow.\<close>

definition Logger_stop :: "logger \<Rightarrow> logger" where
  "Logger_stop l = l\<lparr>running := False, log_stop_notice := True\<rparr>"

text \<open>The critical section of \<open>ThreadFunc\<close>.\<close>

definition log_check :: "logger \<Rightarrow> logger" where
  "log_check l =
     (if \<not> running l \<or> message_queue l \<noteq> []
      then if \<not> running l \<and> message_queue l = []
           then l\<lparr>log_thread := Exited\<rparr>
           else l\<lparr>log_thread := Busy (hd (message_queue l)), message_queue := tl (message_queue l),
                  log_started := log_started l @ [hd (message_queue l)]\<rparr>
      else l\<lparr>log_thread := Sleeping\<rparr>)"

text \<open>The write behind it.\<close>

definition log_write :: "string \<Rightarrow> logger \<Rightarrow> logger" where
  "log_write msg l =
     (case printf_text msg of
        None \<Rightarrow> l\<lparr>log_undefined := True, log_thread := Checking\<rparr>
      | Some txt \<Rightarrow> l\<lparr>log_file := log_file l @ txt, log_thread := Checking\<rparr>)"

inductive log_internal :: "logger \<Rightarrow> logger \<Rightarrow> bool" where
  log_checks: "log_thread l = Checking \<Longrightarrow> log_internal l (log_check l)"
| log_writes: "log_thread l = Busy msg \<Longrightarrow> log_internal l (log_write msg l)"
| log_notify: "log_notices l = Suc k \<Longrightarrow> log_internal l (l\<lparr>log_notices := k, log_thread := wake (log_thread l)\<rparr>)"
| log_notify_stop: "log_stop_notice l \<Longrightarrow>
    log_internal l (l\<lparr>log_stop_notice := False, log_thread := wake (log_thread l)\<rparr>)"

inductive log_step :: "logger \<Rightarrow> logger \<Rightarrow> bool" where
  log_inner: "log_internal l l' \<Longrightarrow> log_step l l'"
| log_submit: "running l \<Longrightarrow> log_step l (log_enqueue line l)"
| log_stop: "running l \<Longrightarrow> log_step l (Logger_stop l)"
| log_spurious: "log_thread l = Sleeping \<Longrightarrow> log_step l (l\<lparr>log_thread := Checking\<rparr>)"

inductive_cases log_internalE: "log_internal l l'"
inductive_cases log_stepE: "log_step l l'"

lemmas log_defs = log_check_def log_write_def log_enqueue_def Logger_stop_def

interpretation logger: fifo_service "\<lambda>l. \<exists>lev. l = Logger_new lev" log_step message_queue log_submitted log_started
proof unfold_locales
  fix l l' :: logger
  assume "log_step l l'"
  then show "(\<exists>x. message_queue l' = message_queue l @ [x] \<and> log_submitted l' = log_submitted l @ [x] \<and> log_started l' = log_started l) \<or>
      (\<exists>x. message_queue l = x # message_queue l' \<and> log_submitted l' = log_submitted l \<and> log_started l' = log_started l @ [x]) \<or>
      (message_queue l' = message_queue l \<and> log_submitted l' = log_submitted l \<and> log_started l' = log_started l)"
    by (elim log_stepE log_internalE) (auto simp: log_defs split: option.splits)
qed (auto simp: Logger_new_def)

section \<open>The singleton\<close>

text \<open>
  The pointer \<open>instance_\<close>, the static variable of \<open>create\<close> and the set of loggers that exist. \<open>release\<close>
  deletes the logger and leaves the pointer as it is.
\<close>

record log_globals =
  log_instance_ptr :: nat
  log_static :: "nat option"
  log_alive :: "nat list"

definition Logger_create :: "log_globals \<Rightarrow> nat \<times> log_globals" where
  "Logger_create g =
     (case log_static g of
        Some p \<Rightarrow> (p, g\<lparr>log_instance_ptr := p\<rparr>)
      | None \<Rightarrow> (let p = Suc (length (log_alive g)) in
          (p, g\<lparr>log_static := Some p, log_instance_ptr := p, log_alive := p # log_alive g\<rparr>)))"

definition Logger_instance :: "log_globals \<Rightarrow> nat \<times> log_globals" where
  "Logger_instance g = (if log_instance_ptr g \<noteq> 0 then (log_instance_ptr g, g) else Logger_create g)"

definition Logger_release :: "log_globals \<Rightarrow> log_globals res" where
  "Logger_release g =
     (if log_instance_ptr g = 0 then Inr g
      else if log_instance_ptr g \<in> set (log_alive g)
      then Inr (g\<lparr>log_alive := removeAll (log_instance_ptr g) (log_alive g)\<rparr>)
      else Inl (UB ''delete''))"

section \<open>The logger refines a thread pool of one thread\<close>

definition as_pool :: "logger \<Rightarrow> string thread_pool" where
  "as_pool l = \<lparr>tasks = message_queue l, stopped = \<not> running l, threads = [log_thread l], notices = log_notices l,
     stop_notice = log_stop_notice l, tp_submitted = log_submitted l, tp_started = log_started l\<rparr>"

lemma as_pool_new: "as_pool (Logger_new lev) = ThreadPool_new 1"
  by (simp add: as_pool_def Logger_new_def ThreadPool_new_def)

lemma worker_in_as_pool [simp]: "worker_in i w (as_pool l) \<longleftrightarrow> i = 0 \<and> log_thread l = w"
  by (auto simp: worker_in_def as_pool_def)

lemma log_internal_simulates:
  assumes "log_internal l l'"
  shows "tp_internal (as_pool l) (as_pool l')"
  using assms
proof (induction rule: log_internal.induct)
  case (log_checks l)
  have "as_pool (log_check l) = worker_check 0 (as_pool l)"
    by (auto simp: as_pool_def log_check_def worker_check_def)
  then show ?case using log_checks by (auto intro: tp_internal.check)
next
  case (log_writes l msg)
  have "as_pool (log_write msg l) = set_worker 0 Checking (as_pool l)"
    by (auto simp: as_pool_def log_write_def set_worker_def split: option.split)
  then show ?case using log_writes by (auto intro: tp_internal.task_ends)
next
  case (log_notify l k)
  show ?case
  proof (cases "log_thread l = Sleeping")
    case True
    have "as_pool (l\<lparr>log_notices := k, log_thread := wake (log_thread l)\<rparr>)
        = set_worker 0 Checking ((as_pool l)\<lparr>notices := k\<rparr>)"
      using True by (auto simp: as_pool_def set_worker_def wake_def)
    then show ?thesis
      using log_notify True tp_internal.notify_one [of "as_pool l" k 0] by (simp add: as_pool_def worker_in_def)
  next
    case False
    then have "wake (log_thread l) = log_thread l" by (simp add: wake_def split: worker.splits)
    then show ?thesis
      using log_notify False tp_internal.notify_nobody [of "as_pool l" k] by (simp add: as_pool_def)
  qed
next
  case (log_notify_stop l)
  then show ?case
    using tp_internal.notify_all [of "as_pool l"] by (simp add: as_pool_def)
qed

lemma log_step_simulates:
  assumes "log_step l l'"
  shows "tp_step (as_pool l) (as_pool l')"
  using assms
proof (induction rule: log_step.induct)
  case (log_submit l line)
  have "as_pool (log_enqueue line l) = ThreadPool_emplace (Some line) (as_pool l)"
    by (simp add: as_pool_def log_enqueue_def ThreadPool_emplace_def)
  then show ?case using log_submit tp_step.emplace [of "as_pool l"] by (simp add: as_pool_def)
next
  case (log_stop l)
  have "as_pool (Logger_stop l) = ThreadPool_stop (as_pool l)"
    by (simp add: as_pool_def Logger_stop_def ThreadPool_stop_def)
  then show ?case using log_stop tp_step.stop [of "as_pool l"] by (simp add: as_pool_def)
next
  case (log_spurious l)
  have "as_pool (l\<lparr>log_thread := Checking\<rparr>) = set_worker 0 Checking (as_pool l)"
    by (simp add: as_pool_def set_worker_def)
  then show ?case using log_spurious by (auto intro: tp_step.spurious)
qed (auto intro: tp_step.internal log_internal_simulates)

lemma log_reachable_pool: "log_step\<^sup>*\<^sup>* (Logger_new lev) l \<Longrightarrow> tp_step\<^sup>*\<^sup>* (ThreadPool_new 1) (as_pool l)"
  by (induction rule: rtranclp_induct)
    (auto simp: as_pool_new intro: rtranclp.rtrancl_into_rtrancl log_step_simulates)

lemma log_internal_reachable: "log_internal\<^sup>*\<^sup>* l l' \<Longrightarrow> log_step\<^sup>*\<^sup>* l l'"
  by (induction rule: rtranclp_induct) (auto intro: rtranclp.rtrancl_into_rtrancl log_step.log_inner)

definition log_quiet :: "logger \<Rightarrow> bool" where
  "log_quiet l \<longleftrightarrow> \<not> (\<exists>l'. log_internal l l')"

lemma log_comes_to_rest: "\<exists>l'. log_internal\<^sup>*\<^sup>* l l' \<and> log_quiet l'"
proof (induction "tp_measure (as_pool l)" arbitrary: l rule: less_induct)
  case less
  show ?case
  proof (cases "log_quiet l")
    case False
    then obtain l1 where l1: "log_internal l l1" by (auto simp: log_quiet_def)
    obtain l' where "log_internal\<^sup>*\<^sup>* l1 l'" "log_quiet l'"
      using less [OF tp_measure_decreases [OF log_internal_simulates [OF l1]]] by blast
    then show ?thesis using l1 by (meson converse_rtranclp_into_rtranclp)
  qed blast
qed

lemma log_quiet_thread:
  assumes "log_quiet l"
  shows "log_thread l = Sleeping \<or> log_thread l = Exited" and "\<not> log_stop_notice l"
  using assms log_internal.intros [of l] by (cases "log_thread l"; fastforce simp: log_quiet_def)+

section \<open>The file\<close>

text \<open>The lines written: those started, without the one the thread is working on.\<close>

definition written :: "logger \<Rightarrow> string list" where
  "written l = (case log_thread l of Busy _ \<Rightarrow> butlast (log_started l) | _ \<Rightarrow> log_started l)"

definition printed :: "string list \<Rightarrow> string" where
  "printed ms = concat (map (\<lambda>m. the (printf_text m)) ms)"

definition log_file_inv :: "logger \<Rightarrow> bool" where
  "log_file_inv l \<longleftrightarrow>
     (\<forall>m. log_thread l = Busy m \<longrightarrow> (\<exists>ms. log_started l = ms @ [m])) \<and>
     (log_undefined l \<longrightarrow> list_ex (\<lambda>m. printf_text m = None) (log_submitted l)) \<and>
     (\<not> log_undefined l \<longrightarrow> log_file l = printed (written l)) \<and>
     log_submitted l = log_started l @ message_queue l"

lemma log_file_inv_step:
  assumes "log_step l l'" and "log_file_inv l"
  shows "log_file_inv l'"
  using assms
proof (induction rule: log_step.induct)
  case (log_inner l l')
  from log_inner.hyps log_inner.prems show ?case
  proof (induction rule: log_internal.induct)
    case (log_checks l)
    show ?case
    proof (cases "message_queue l")
      case Nil
      then show ?thesis using log_checks by (auto simp: log_file_inv_def log_check_def written_def)
    next
      case (Cons a rest)
      then have "log_check l = l\<lparr>log_thread := Busy a, message_queue := rest, log_started := log_started l @ [a]\<rparr>"
        by (simp add: log_check_def)
      then show ?thesis using log_checks Cons by (auto simp: log_file_inv_def written_def)
    qed
  next
    case (log_writes l msg)
    then obtain ms where "log_started l = ms @ [msg]" by (auto simp: log_file_inv_def)
    then show ?case
      using log_writes
      by (auto simp: log_file_inv_def log_write_def written_def printed_def split: option.splits)
  qed (auto simp: log_file_inv_def written_def wake_def split: worker.splits)
qed (auto simp: log_file_inv_def written_def log_enqueue_def Logger_stop_def split: worker.splits)

lemma log_file_reachable: "log_step\<^sup>*\<^sup>* (Logger_new lev) l \<Longrightarrow> log_file_inv l"
proof (induction rule: rtranclp_induct)
  case base
  then show ?case by (simp add: log_file_inv_def Logger_new_def written_def printed_def)
qed (rule log_file_inv_step)

section \<open>Properties\<close>

text \<open>
  Property C32. Releasing the logger writes everything: when the destructor has been entered, the
  thread comes to rest, and at rest it has left its loop and the file holds every line that was
  submitted, once each and in order. The lines have no conversion specification, since each is
  used as a format.
\<close>

theorem logger_flushes_on_release:
  assumes "log_step\<^sup>*\<^sup>* (Logger_new lev) l" and "\<not> running l"
    and "\<forall>m\<in>set (log_submitted l). printf_text m \<noteq> None"
  shows "(\<exists>l'. log_internal\<^sup>*\<^sup>* l l' \<and> log_quiet l') \<and>
     (\<forall>l'. log_internal\<^sup>*\<^sup>* l l' \<and> log_quiet l' \<longrightarrow>
        log_thread l' = Exited \<and> \<not> log_undefined l' \<and> log_file l' = printed (log_submitted l))"
proof (intro conjI allI impI)
  fix l' assume l': "log_internal\<^sup>*\<^sup>* l l' \<and> log_quiet l'"
  have r: "log_step\<^sup>*\<^sup>* (Logger_new lev) l'"
    using assms(1) log_internal_reachable l' by (meson rtranclp_trans)
  have keep: "log_internal\<^sup>*\<^sup>* a b \<Longrightarrow> running b = running a \<and> log_submitted b = log_submitted a" for a b
    by (induction rule: rtranclp_induct) (auto elim!: log_internalE simp: log_defs split: option.splits if_splits)
  have inv: "tp_inv (as_pool l')" using tp_reachable_inv [OF log_reachable_pool [OF r]] .
  have run: "\<not> running l'" "log_submitted l' = log_submitted l" using keep l' assms(2) by auto
  then show ex: "log_thread l' = Exited"
    using inv log_quiet_thread [of l'] l' by (auto simp: tp_inv_def as_pool_def)
  have "message_queue l' = []"
    using inv ex by (auto simp: tp_inv_def as_pool_def)
  then show "\<not> log_undefined l'" "log_file l' = printed (log_submitted l)"
    using log_file_reachable [OF r] run(2) ex assms(3) by (auto simp: log_file_inv_def written_def list_ex_iff)
qed (rule log_comes_to_rest)

theorem logger_flushes_on_release_witness:
  "\<exists>l l'. log_step\<^sup>*\<^sup>* (Logger_new 0) l \<and> \<not> running l \<and> log_internal\<^sup>*\<^sup>* l l' \<and>
     log_thread l' = Exited \<and> log_file l' = ''[now][INFO] ab'' @ [CHR 0x0A]"
proof -
  let ?l1 = "WriteLog ''now'' ''ab'' 2 (Logger_new 0)"
  let ?l2 = "Logger_stop ?l1"
  have e: "?l1 = log_enqueue (log_line ''now'' 2 ''ab'') (Logger_new 0)"
    by (simp add: WriteLog_def Logger_new_def)
  have "log_step (Logger_new 0) ?l1" unfolding e by (rule log_submit) (simp add: Logger_new_def)
  moreover have "log_step ?l1 ?l2" unfolding e by (rule log_stop) (simp add: log_enqueue_def Logger_new_def)
  ultimately have r: "log_step\<^sup>*\<^sup>* (Logger_new 0) ?l2" by auto
  have s: "\<not> running ?l2" "log_submitted ?l2 = [''[now][INFO] ab'' @ [CHR 0x0A]]"
    unfolding e by (simp_all add: Logger_stop_def log_enqueue_def Logger_new_def log_line_def kLogLevels_def)
  have p: "printf_text (''[now][INFO] ab'' @ [CHR 0x0A]) = Some (''[now][INFO] ab'' @ [CHR 0x0A])" by simp
  obtain l' where "log_internal\<^sup>*\<^sup>* ?l2 l'" "log_thread l' = Exited" "log_file l' = printed (log_submitted ?l2)"
    using logger_flushes_on_release [OF r s(1)] p by (auto simp: s(2))
  then show ?thesis using r s(1) p by (auto simp: s(2) printed_def)
qed

text \<open>
  A text with a conversion specification in it cannot be logged: whatever precedes it,
  the line made of it, used as a format without arguments, asks \<open>fprintf\<close> for an argument that
  does not exist.
\<close>

theorem log_line_is_a_format:
  assumes "CHR ''%'' \<notin> set now" and "NUL \<notin> set now" and "severity < 6"
    and "CHR ''%'' \<notin> set pre" and "NUL \<notin> set pre" and "c \<noteq> CHR ''%''"
  shows "printf_text (log_line now severity (pre @ [CHR ''%'', c] @ post)) = None"
proof -
  have plain: "printf_text (a @ b) = map_option (\<lambda>t. a @ t) (printf_text b)" if "CHR ''%'' \<notin> set a" "NUL \<notin> set a" for a b
    using that by (cases "printf_text b"; induction a; auto)
  have "severity \<in> {0, 1, 2, 3, 4, 5}" using assms(3) by auto
  then have lv: "CHR ''%'' \<notin> set (kLogLevels ! severity) \<and> NUL \<notin> set (kLogLevels ! severity)"
    by (auto simp: kLogLevels_def)
  define a where "a = ''['' @ now @ ''][''  @ kLogLevels ! severity @ ''] '' @ pre"
  have "CHR ''%'' \<notin> set a" "NUL \<notin> set a" using assms lv by (auto simp: a_def)
  moreover have "log_line now severity (pre @ [CHR ''%'', c] @ post) = a @ CHR ''%'' # c # post @ [CHR 0x0A]"
    by (simp add: log_line_def a_def)
  ultimately show ?thesis using assms(6) by (simp add: plain)
qed

theorem log_line_is_a_format_witness:
  "printf_text (log_line ''10:00'' 2 ''100% sure'') = None"
  using log_line_is_a_format [of "''10:00''" 2 "''100''" "CHR '' ''" "''sure''"] by simp

end
