(* ===== verification/Socket_Calls.thy ===== *)
theory Socket_Calls
  imports Posix_Interface
begin

text \<open>
  \<^verbatim>\<open>ladder/src/Socket.cpp\<close> as it is built on Linux: the class \<open>SocketAddr\<close> and the wrappers of
  namespace \<open>socket\<close>. \<open>inet_pton\<close> and \<open>inet_ntop\<close> belong to the C library's resolver and are
  arguments: \<open>pton ipv6 text\<close> is \<open>None\<close> when the call returns 0 for a text that is no address (it
  returns a negative number only for an unknown address family, which the code never passes), and
  \<open>ntop ipv6 bytes\<close> is \<open>None\<close> when the call returns a null pointer.
\<close>

section \<open>Addresses\<close>

record SocketAddr =
  ip :: string
  port :: u16
  sa :: sockaddr
  ipv6 :: bool

text \<open>Without an initialiser the members of \<open>sa_\<close> are indeterminate; of the address this is the value \<open>None\<close>.\<close>

definition SocketAddr_of_text :: "(bool \<Rightarrow> string \<Rightarrow> string option) \<Rightarrow> byte_order \<Rightarrow> string \<Rightarrow> u16 \<Rightarrow> bool \<Rightarrow> SocketAddr" where
  "SocketAddr_of_text pton e text p v6 =
     \<lparr>ip = text, port = p, sa = \<lparr>sa_ipv6 = v6, sa_addr = pton v6 text, sa_port = htons e p\<rparr>, ipv6 = v6\<rparr>"

definition SocketAddr_of_sockaddr ::
  "(bool \<Rightarrow> string \<Rightarrow> string option) \<Rightarrow> byte_order \<Rightarrow> sockaddr \<Rightarrow> bool \<Rightarrow> SocketAddr res" where
  "SocketAddr_of_sockaddr ntop e a v6 =
     (case sa_addr a of
        None \<Rightarrow> Inl (UB ''indeterminate address'')
      | Some bytes \<Rightarrow>
         (case ntop v6 bytes of
            None \<Rightarrow> Inl (EXIT ''inet_pton'')
          | Some text \<Rightarrow> Inr \<lparr>ip = text, port = ntohs e (sa_port a), sa = a, ipv6 = v6\<rparr>))"

definition SocketAddr_Bind :: "'w posix \<Rightarrow> fd \<Rightarrow> SocketAddr \<Rightarrow> 'w \<Rightarrow> 'w res" where
  "SocketAddr_Bind os f a w =
     (case sys_bind os f (sa a) w of (Ret _, w') \<Rightarrow> Inr w' | (Err _, w') \<Rightarrow> Inl (EXIT ''bind''))"

section \<open>Wrappers\<close>

definition socket_socket :: "'w posix \<Rightarrow> bool \<Rightarrow> bool \<Rightarrow> 'w \<Rightarrow> (fd \<times> 'w) res" where
  "socket_socket os tcp v6 w =
     (case sys_socket os tcp v6 w of
        (Err _, w1) \<Rightarrow> Inl (EXIT ''socket'')
      | (Ret f, w1) \<Rightarrow>
         (case sys_reuseaddr os f w1 of
            (Err _, w2) \<Rightarrow> Inl (EXIT ''setsockopt'')
          | (Ret _, w2) \<Rightarrow> Inr (f, w2)))"

text \<open>The backlog is 0, not the Windows branch's \<open>SOMAXCONN\<close>.\<close>

definition socket_listen :: "'w posix \<Rightarrow> fd \<Rightarrow> 'w \<Rightarrow> 'w res" where
  "socket_listen os f w =
     (case sys_listen os f 0 w of (Ret _, w') \<Rightarrow> Inr w' | (Err _, w') \<Rightarrow> Inl (EXIT ''listen''))"

text \<open>Every failure of \<open>accept4\<close>, \<open>EAGAIN\<close> and \<open>ECONNABORTED\<close> included, ends the process.\<close>

definition socket_accept :: "'w posix \<Rightarrow> fd \<Rightarrow> 'w \<Rightarrow> (fd \<times> sockaddr \<times> 'w) res" where
  "socket_accept os f w =
     (case sys_accept os f w of (Ret (g, a), w') \<Rightarrow> Inr (g, a, w') | (Err _, w') \<Rightarrow> Inl (EXIT ''accept''))"

definition socket_close :: "'w posix \<Rightarrow> fd \<Rightarrow> 'w \<Rightarrow> 'w res" where
  "socket_close os f w =
     (case sys_close os f w of (Ret _, w') \<Rightarrow> Inr w' | (Err _, w') \<Rightarrow> Inl (EXIT ''close fd''))"

definition socket_shutdown_write :: "'w posix \<Rightarrow> fd \<Rightarrow> 'w \<Rightarrow> 'w" where
  "socket_shutdown_write os f w = sys_shutdown_write os f w"

definition socket_shutdown_read :: "'w posix \<Rightarrow> fd \<Rightarrow> 'w \<Rightarrow> 'w" where
  "socket_shutdown_read os f w = sys_shutdown_read os f w"

section \<open>Addresses survive the way through the kernel\<close>

text \<open>
  An address made from a text, handed to the kernel and read back has the same text, port and
  family, where \<open>inet_ntop\<close> prints what \<open>inet_pton\<close> read.
\<close>

lemma SocketAddr_text_back:
  assumes "pton v6 t = Some b" and "ntop v6 b = Some t"
  shows "SocketAddr_of_sockaddr ntop e (sa (SocketAddr_of_text pton e t p v6)) v6 = Inr (SocketAddr_of_text pton e t p v6)"
  using assms by (simp add: SocketAddr_of_sockaddr_def SocketAddr_of_text_def)

lemma SocketAddr_bad_text:
  assumes "pton v6 t = None"
  shows "sa_addr (sa (SocketAddr_of_text pton e t p v6)) = None"
  using assms by (simp add: SocketAddr_of_text_def)

end
