(* ===== verification/Event_Channel.thy ===== *)
theory Event_Channel
  imports Socket_Calls
begin

text \<open>
  The reactor: \<^verbatim>\<open>Channel.cpp\<close>, \<^verbatim>\<open>EventPoller.cpp\<close> with its \<open>Pipe\<close>, and \<^verbatim>\<open>EventLoop.cpp\<close>, as they are built on
  Linux.

  Channels and loops are objects at addresses. A channel that has been destroyed is not in the map
  any more, and a call through a pointer to it is undefined behaviour; the pointers that \<open>epoll\<close>
  hands back are such addresses. A \<open>std::function\<close> member is \<open>None\<close> or a closure: the pipe's own
  read callback, or a client's closure of the type \<open>'c\<close>, whose call is the argument \<open>run\<close>. A
  callback takes the whole state and may create or destroy channels. A call that does not return
  is the value \<open>None\<close>.
\<close>

unbundle bit_operations_syntax

section \<open>Channels\<close>

definition kPollIn :: u32 where "kPollIn = 0x001"
definition kPollPri :: u32 where "kPollPri = 0x002"
definition kPollOut :: u32 where "kPollOut = 0x004"
definition kPollErr :: u32 where "kPollErr = 0x008"
definition kPollHup :: u32 where "kPollHup = 0x010"
definition kPollRdHup :: u32 where "kPollRdHup = 0x2000"
definition kPollEt :: u32 where "kPollEt = 0x80000000"

lemmas poll_bits = kPollIn_def kPollPri_def kPollOut_def kPollErr_def kPollHup_def kPollRdHup_def kPollEt_def

datatype 'c closure = PipeRead addr | Client 'c

record 'c channel =
  ch_loop :: "addr option"
  revents :: u32
  events :: u32
  read_callback :: "'c closure option"
  write_callback :: "'c closure option"
  close_callback :: "'c closure option"
  error_callback :: "'c closure option"
  ch_fd :: fd

definition Channel_new :: "addr option \<Rightarrow> fd \<Rightarrow> 'c channel" where
  "Channel_new lp f =
     \<lparr>ch_loop = lp, revents = 0, events = kPollIn OR kPollRdHup OR kPollOut,
      read_callback = None, write_callback = None, close_callback = None, error_callback = None, ch_fd = f\<rparr>"

definition SetRevents :: "u32 \<Rightarrow> 'c channel \<Rightarrow> 'c channel" where
  "SetRevents evts ch = ch\<lparr>revents := revents ch OR evts\<rparr>"

definition IsWriting :: "'c channel \<Rightarrow> bool" where
  "IsWriting ch \<longleftrightarrow> events ch AND kPollOut \<noteq> 0"

definition IsReading :: "'c channel \<Rightarrow> bool" where
  "IsReading ch \<longleftrightarrow> events ch AND (kPollIn OR kPollPri) \<noteq> 0"

definition SetEpollEdgeTriggered :: "bool \<Rightarrow> 'c channel \<Rightarrow> 'c channel" where
  "SetEpollEdgeTriggered edge ch =
     ch\<lparr>events := if edge then events ch OR kPollEt else events ch AND NOT kPollEt\<rparr>"

section \<open>Loops and pollers\<close>

text \<open>
  A loop with its poller and the poller's pipe. \<open>pending_tasks_\<close> is filled by \<open>QueueInLoop\<close> and read
  nowhere.
\<close>

record 'c event_loop =
  poll_fd :: fd
  cur_poll_size :: int
  pipe_fds :: "fd \<times> fd"
  pipe_channel :: addr
  wakeup_callback :: "'c option"
  loop_running :: bool
  pending_tasks :: "'c list"

record ('c, 'w) reactor =
  chans :: "addr \<rightharpoonup> 'c channel"
  loops :: "addr \<rightharpoonup> 'c event_loop"
  world :: 'w

definition kPollLimit :: nat where
  "kPollLimit = 64"

text \<open>Access to an object through a pointer.\<close>

definition get_chan :: "addr \<Rightarrow> ('c, 'w, 'z) reactor_scheme \<Rightarrow> 'c channel res" where
  "get_chan a s = (case chans s a of None \<Rightarrow> Inl (UB ''destroyed channel'') | Some ch \<Rightarrow> Inr ch)"

definition set_chan :: "addr \<Rightarrow> 'c channel \<Rightarrow> ('c, 'w, 'z) reactor_scheme \<Rightarrow> ('c, 'w, 'z) reactor_scheme" where
  "set_chan a ch s = s\<lparr>chans := (chans s)(a \<mapsto> ch)\<rparr>"

definition get_loop :: "addr \<Rightarrow> ('c, 'w, 'z) reactor_scheme \<Rightarrow> 'c event_loop res" where
  "get_loop lp s = (case loops s lp of None \<Rightarrow> Inl (UB ''destroyed loop'') | Some l \<Rightarrow> Inr l)"

definition set_loop :: "addr \<Rightarrow> 'c event_loop \<Rightarrow> ('c, 'w, 'z) reactor_scheme \<Rightarrow> ('c, 'w, 'z) reactor_scheme" where
  "set_loop lp l s = s\<lparr>loops := (loops s)(lp \<mapsto> l)\<rparr>"

definition set_world :: "'w \<Rightarrow> ('c, 'w, 'z) reactor_scheme \<Rightarrow> ('c, 'w, 'z) reactor_scheme" where
  "set_world w s = s\<lparr>world := w\<rparr>"

definition UpdateChannel ::
  "'w posix \<Rightarrow> addr \<Rightarrow> addr \<Rightarrow> epoll_op \<Rightarrow> ('c, 'w, 'z) reactor_scheme \<Rightarrow> ('c, 'w, 'z) reactor_scheme res" where
  "UpdateChannel os lp a op s =
     sbind (get_chan a s) (\<lambda>ch.
     sbind (get_loop lp s) (\<lambda>l.
       case sys_epoll_ctl os (poll_fd l) op (ch_fd ch) (events ch, a) (world s) of
         (Ret _, w) \<Rightarrow> Inr (set_world w (set_loop lp (l\<lparr>cur_poll_size := cur_poll_size l + 1\<rparr>) s))
       | (Err e, w) \<Rightarrow> (if e = EEXIST then Inr (set_world w s) else Inl (EXIT ''[EventPoller] epoll_ctl op''))))"

definition RemoveChannel ::
  "'w posix \<Rightarrow> addr \<Rightarrow> fd \<Rightarrow> ('c, 'w, 'z) reactor_scheme \<Rightarrow> ('c, 'w, 'z) reactor_scheme res" where
  "RemoveChannel os lp f s =
     sbind (get_loop lp s) (\<lambda>l.
       case sys_epoll_ctl os (poll_fd l) EPOLL_CTL_DEL f (0, 0) (world s) of
         (Ret _, w) \<Rightarrow> Inr (set_world w (set_loop lp (l\<lparr>cur_poll_size := cur_poll_size l - 1\<rparr>) s))
       | (Err e, w) \<Rightarrow> (if e = ENOENT then Inr (set_world w s) else Inl (EXIT ''[EventPoller] epoll_ctl del'')))"

text \<open>Channels call their loop through \<open>loop_\<close>; only \<open>RemoveFromLoop\<close> checks it for a null pointer.\<close>

definition UpdateToLoop ::
  "'w posix \<Rightarrow> addr \<Rightarrow> epoll_op \<Rightarrow> ('c, 'w, 'z) reactor_scheme \<Rightarrow> ('c, 'w, 'z) reactor_scheme res" where
  "UpdateToLoop os a op s =
     sbind (get_chan a s) (\<lambda>ch.
       case ch_loop ch of None \<Rightarrow> Inl (UB ''null loop'') | Some lp \<Rightarrow> UpdateChannel os lp a op s)"

definition RemoveFromLoop ::
  "'w posix \<Rightarrow> addr \<Rightarrow> ('c, 'w, 'z) reactor_scheme \<Rightarrow> ('c, 'w, 'z) reactor_scheme res" where
  "RemoveFromLoop os a s =
     sbind (get_chan a s) (\<lambda>ch.
       case ch_loop ch of None \<Rightarrow> Inr s | Some lp \<Rightarrow> RemoveChannel os lp (ch_fd ch) s)"

definition Channel_EnableWrite ::
  "'w posix \<Rightarrow> addr \<Rightarrow> bool \<Rightarrow> ('c, 'w, 'z) reactor_scheme \<Rightarrow> ('c, 'w, 'z) reactor_scheme res" where
  "Channel_EnableWrite os a enable s =
     sbind (get_chan a s) (\<lambda>ch.
       UpdateToLoop os a EPOLL_CTL_MOD
         (set_chan a (ch\<lparr>events := if enable then events ch OR kPollOut else events ch AND NOT kPollOut\<rparr>) s))"

definition Channel_ShutDownWrite ::
  "'w posix \<Rightarrow> addr \<Rightarrow> ('c, 'w, 'z) reactor_scheme \<Rightarrow> ('c, 'w, 'z) reactor_scheme res" where
  "Channel_ShutDownWrite os a s =
     sbind (get_chan a s) (\<lambda>ch. Inr (set_world (socket_shutdown_write os (ch_fd ch) (world s)) s))"

definition Channel_ShutDownRead ::
  "'w posix \<Rightarrow> addr \<Rightarrow> ('c, 'w, 'z) reactor_scheme \<Rightarrow> ('c, 'w, 'z) reactor_scheme res" where
  "Channel_ShutDownRead os a s =
     sbind (get_chan a s) (\<lambda>ch. Inr (set_world (socket_shutdown_read os (ch_fd ch) (world s)) s))"

section \<open>Handling events\<close>

type_synonym ('c, 'w, 'z) runner = "'c \<Rightarrow> ('c, 'w, 'z) reactor_scheme \<Rightarrow> ('c, 'w, 'z) reactor_scheme res option"

text \<open>\<open>Pipe::ReadCallback\<close> takes one byte off the pipe, whatever the result, and calls the wakeup callback.\<close>

definition Pipe_ReadCallback ::
  "'w posix \<Rightarrow> ('c, 'w, 'z) runner \<Rightarrow> addr \<Rightarrow> ('c, 'w, 'z) reactor_scheme \<Rightarrow> ('c, 'w, 'z) reactor_scheme res option" where
  "Pipe_ReadCallback os run lp s =
     obind (Some (get_loop lp s)) (\<lambda>l.
       let s' = set_world (snd (sys_read os (fst (pipe_fds l)) 1 (world s))) s in
       case wakeup_callback l of None \<Rightarrow> Some (Inr s') | Some k \<Rightarrow> run k s')"

definition call ::
  "'w posix \<Rightarrow> ('c, 'w, 'z) runner \<Rightarrow> 'c closure option \<Rightarrow> ('c, 'w, 'z) reactor_scheme \<Rightarrow> ('c, 'w, 'z) reactor_scheme res option" where
  "call os run c s =
     (case c of None \<Rightarrow> Some (Inr s) | Some (PipeRead lp) \<Rightarrow> Pipe_ReadCallback os run lp s | Some (Client k) \<Rightarrow> run k s)"

text \<open>
  The members \<open>write_callback_\<close> and \<open>read_callback_\<close> are read when they are tested, so the channel has
  to be there after the write callback if a read event is to be handled.
\<close>

definition HandleEvents ::
  "'w posix \<Rightarrow> ('c, 'w, 'z) runner \<Rightarrow> addr \<Rightarrow> ('c, 'w, 'z) reactor_scheme \<Rightarrow> ('c, 'w, 'z) reactor_scheme res option" where
  "HandleEvents os run a s =
     obind (Some (get_chan a s)) (\<lambda>ch.
       let evts = revents ch; s1 = set_chan a (ch\<lparr>revents := 0\<rparr>) s in
       if evts AND kPollHup \<noteq> 0 then call os run (close_callback ch) s1
       else if evts AND kPollErr \<noteq> 0 then call os run (error_callback ch) s1
       else
         obind (if evts AND kPollOut \<noteq> 0 then call os run (write_callback ch) s1 else Some (Inr s1)) (\<lambda>s2.
         if evts AND (kPollIn OR kPollRdHup) \<noteq> 0
         then obind (Some (get_chan a s2)) (\<lambda>ch2. call os run (read_callback ch2) s2)
         else Some (Inr s2)))"

text \<open>\<open>Poll\<close> records the events in the channels and lists the channels in the kernel's order.\<close>

fun mark_ready :: "epoll_event list \<Rightarrow> ('c, 'w, 'z) reactor_scheme \<Rightarrow> ('c, 'w, 'z) reactor_scheme res" where
  "mark_ready [] s = Inr s"
| "mark_ready ((evt, a) # rest) s =
     sbind (get_chan a s) (\<lambda>ch. mark_ready rest (set_chan a (SetRevents evt ch) s))"

definition Poll ::
  "'w posix \<Rightarrow> addr \<Rightarrow> ('c, 'w, 'z) reactor_scheme \<Rightarrow> (addr list \<times> ('c, 'w, 'z) reactor_scheme) res" where
  "Poll os lp s =
     sbind (get_loop lp s) (\<lambda>l.
       case sys_epoll_wait os (poll_fd l) kPollLimit (world s) of
         (Err e, w) \<Rightarrow> (if e = EINTR then Inr ([], set_world w s) else Inl (EXIT ''[EventPoller] epoll_wait''))
       | (Ret evs, w) \<Rightarrow> sbind (mark_ready evs (set_world w s)) (\<lambda>s'. Inr (map snd evs, s')))"

fun handle_all ::
  "'w posix \<Rightarrow> ('c, 'w, 'z) runner \<Rightarrow> addr list \<Rightarrow> ('c, 'w, 'z) reactor_scheme \<Rightarrow> ('c, 'w, 'z) reactor_scheme res option" where
  "handle_all os run [] s = Some (Inr s)"
| "handle_all os run (a # as) s = obind (HandleEvents os run a s) (handle_all os run as)"

text \<open>One pass of the loop in \<open>StartLoop\<close>, and \<open>StartLoop\<close> itself.\<close>

definition loop_pass ::
  "'w posix \<Rightarrow> ('c, 'w, 'z) runner \<Rightarrow> addr \<Rightarrow> ('c, 'w, 'z) reactor_scheme \<Rightarrow> ('c, 'w, 'z) reactor_scheme res option" where
  "loop_pass os run lp s = obind (Some (Poll os lp s)) (\<lambda>(active, s'). handle_all os run active s')"

partial_function (option) run_loop ::
  "'w posix \<Rightarrow> ('c, 'w, 'z) runner \<Rightarrow> addr \<Rightarrow> ('c, 'w, 'z) reactor_scheme \<Rightarrow> ('c, 'w, 'z) reactor_scheme res option" where
  "run_loop os run lp s =
     (case get_loop lp s of
        Inl x \<Rightarrow> Some (Inl x)
      | Inr l \<Rightarrow>
         (if loop_running l
          then Option.bind (loop_pass os run lp s) (\<lambda>r. case r of Inl x \<Rightarrow> Some (Inl x) | Inr s' \<Rightarrow> run_loop os run lp s')
          else Some (Inr s)))"

definition StartLoop ::
  "'w posix \<Rightarrow> ('c, 'w, 'z) runner \<Rightarrow> addr \<Rightarrow> ('c, 'w, 'z) reactor_scheme \<Rightarrow> ('c, 'w, 'z) reactor_scheme res option" where
  "StartLoop os run lp s =
     obind (Some (get_loop lp s)) (\<lambda>l.
       if loop_running l then Some (Inr s) else run_loop os run lp (set_loop lp (l\<lparr>loop_running := True\<rparr>) s))"

definition Wakeup :: "'w posix \<Rightarrow> addr \<Rightarrow> ('c, 'w, 'z) reactor_scheme \<Rightarrow> ('c, 'w, 'z) reactor_scheme res" where
  "Wakeup os lp s =
     sbind (get_loop lp s) (\<lambda>l. Inr (set_world (snd (sys_write os (snd (pipe_fds l)) [NUL] (world s))) s))"

definition StopLoop :: "'w posix \<Rightarrow> addr \<Rightarrow> ('c, 'w, 'z) reactor_scheme \<Rightarrow> ('c, 'w, 'z) reactor_scheme res" where
  "StopLoop os lp s =
     sbind (get_loop lp s) (\<lambda>l. Wakeup os lp (set_loop lp (l\<lparr>loop_running := False\<rparr>) s))"

definition QueueInLoop :: "addr \<Rightarrow> 'c \<Rightarrow> ('c, 'w, 'z) reactor_scheme \<Rightarrow> ('c, 'w, 'z) reactor_scheme res" where
  "QueueInLoop lp task s =
     sbind (get_loop lp s) (\<lambda>l. Inr (set_loop lp (l\<lparr>pending_tasks := pending_tasks l @ [task]\<rparr>) s))"

definition SetWakeupCallback :: "addr \<Rightarrow> 'c \<Rightarrow> ('c, 'w, 'z) reactor_scheme \<Rightarrow> ('c, 'w, 'z) reactor_scheme res" where
  "SetWakeupCallback lp c s =
     sbind (get_loop lp s) (\<lambda>l. Inr (set_loop lp (l\<lparr>wakeup_callback := Some c\<rparr>) s))"

text \<open>
  The constructor of a loop, at the address \<open>lp\<close>, with the pipe's channel at the address \<open>a\<close>. The
  pipe's channel has no loop; it is registered by the poller itself, and counted twice.
\<close>

definition EventLoop_new ::
  "'w posix \<Rightarrow> addr \<Rightarrow> addr \<Rightarrow> ('c, 'w, 'z) reactor_scheme \<Rightarrow> ('c, 'w, 'z) reactor_scheme res" where
  "EventLoop_new os lp a s =
     (case sys_pipe os (world s) of
        (Err _, w) \<Rightarrow> Inl (EXIT ''pipe2'')
      | (Ret (rd, wr), w) \<Rightarrow>
         (case sys_epoll_create os w of
            (Err _, w1) \<Rightarrow> Inl (EXIT ''[EventPoller] epoll_create1'')
          | (Ret ep, w1) \<Rightarrow>
             (let ch = (Channel_new None rd)\<lparr>read_callback := Some (PipeRead lp)\<rparr>;
                  l = \<lparr>poll_fd = ep, cur_poll_size = 0, pipe_fds = (rd, wr), pipe_channel = a,
                       wakeup_callback = None, loop_running = False, pending_tasks = []\<rparr> in
              sbind (UpdateChannel os lp a EPOLL_CTL_ADD (set_world w1 (set_loop lp l (set_chan a ch s)))) (\<lambda>s'.
              sbind (get_loop lp s') (\<lambda>l'. Inr (set_loop lp (l'\<lparr>cur_poll_size := cur_poll_size l' + 1\<rparr>) s'))))))"

text \<open>The destructors of the poller and of its pipe.\<close>

definition EventLoop_destroy :: "'w posix \<Rightarrow> addr \<Rightarrow> ('c, 'w, 'z) reactor_scheme \<Rightarrow> ('c, 'w, 'z) reactor_scheme res" where
  "EventLoop_destroy os lp s =
     sbind (get_loop lp s) (\<lambda>l.
     sbind (socket_close os (fst (pipe_fds l)) (snd (sys_close os (poll_fd l) (world s)))) (\<lambda>w1.
     sbind (socket_close os (snd (pipe_fds l)) w1) (\<lambda>w2.
       Inr (set_world w2 (s\<lparr>chans := (chans s)(pipe_channel l := None), loops := (loops s)(lp := None)\<rparr>)))))"

section \<open>Bits and accesses\<close>

lemma or_mask_and [simp]: "(x OR y) AND y = (y::'a::len word)"
  by (simp add: bit_eq_iff bit_simps)

lemma and_not_mask_and [simp]: "(x AND NOT y) AND y = (0::'a::len word)"
  by (simp add: bit_eq_iff bit_simps)

lemma kPollOut_neq_0 [simp]: "kPollOut \<noteq> 0"
  by (simp add: kPollOut_def)

lemma IsWriting_enable [simp]:
  "IsWriting (ch\<lparr>events := events ch OR kPollOut\<rparr>)" "\<not> IsWriting (ch\<lparr>events := events ch AND NOT kPollOut\<rparr>)"
  by (simp_all add: IsWriting_def)

lemma get_chan_simps [simp]:
  "chans s a = Some ch \<Longrightarrow> get_chan a s = Inr ch"
  "get_chan a (set_chan a' ch s) = (if a = a' then Inr ch else get_chan a s)"
  "get_chan a (set_loop lp l s) = get_chan a s" "get_chan a (set_world w s) = get_chan a s"
  by (simp_all add: get_chan_def set_chan_def set_loop_def set_world_def)

lemma get_loop_simps [simp]:
  "loops s lp = Some l \<Longrightarrow> get_loop lp s = Inr l"
  "get_loop lp (set_loop lp' l s) = (if lp = lp' then Inr l else get_loop lp s)"
  "get_loop lp (set_chan a ch s) = get_loop lp s" "get_loop lp (set_world w s) = get_loop lp s"
  by (simp_all add: get_loop_def set_chan_def set_loop_def set_world_def)

lemma reactor_selectors [simp]:
  "chans (set_chan a ch s) = (chans s)(a \<mapsto> ch)" "loops (set_chan a ch s) = loops s" "world (set_chan a ch s) = world s"
  "chans (set_loop lp l s) = chans s" "loops (set_loop lp l s) = (loops s)(lp \<mapsto> l)" "world (set_loop lp l s) = world s"
  "chans (set_world w s) = chans s" "loops (set_world w s) = loops s" "world (set_world w s) = w"
  by (simp_all add: set_chan_def set_loop_def set_world_def)

section \<open>What the poller's calls change\<close>

text \<open>
  A call of the poller that returns has changed nothing but the kernel's state and the loop's count of
  registered descriptors; a channel that is armed has also changed its mask.
\<close>

lemma get_chan_Inr: "get_chan a s = Inr ch \<longleftrightarrow> chans s a = Some ch"
  by (simp add: get_chan_def split: option.splits)

lemma get_loop_Inr: "get_loop lp s = Inr l \<longleftrightarrow> loops s lp = Some l"
  by (simp add: get_loop_def split: option.splits)

lemma set_loop_idem: "loops s lp = Some l \<Longrightarrow> set_loop lp l s = s"
  by (simp add: set_loop_def fun_upd_idem)

definition poller_called :: "'w posix \<Rightarrow> addr \<Rightarrow> ('c, 'w, 'z) reactor_scheme \<Rightarrow> ('c, 'w, 'z) reactor_scheme \<Rightarrow> bool" where
  "poller_called os lp s s' \<longleftrightarrow>
     (\<exists>l n op f ev. loops s lp = Some l \<and>
        s' = set_world (snd (sys_epoll_ctl os (poll_fd l) op f ev (world s))) (set_loop lp (l\<lparr>cur_poll_size := n\<rparr>) s))"

lemma poller_calledI:
  assumes "loops s lp = Some l" and "k = sys_epoll_ctl os (poll_fd l) op f ev (world s)"
    and "(case k of (Ret _, w) \<Rightarrow> Inr (set_world w (set_loop lp (l\<lparr>cur_poll_size := m\<rparr>) s))
          | (Err e, w) \<Rightarrow> (if e = e0 then Inr (set_world w s) else Inl (EXIT x))) = Inr s'"
  shows "poller_called os lp s s'"
proof -
  have "set_loop lp (l\<lparr>cur_poll_size := cur_poll_size l\<rparr>) s = s" using set_loop_idem [OF assms(1)] by simp
  then have "\<exists>n. set_world w s = set_world w (set_loop lp (l\<lparr>cur_poll_size := n\<rparr>) s)" for w by metis
  then have "\<exists>n. s' = set_world (snd k) (set_loop lp (l\<lparr>cur_poll_size := n\<rparr>) s)"
    using assms(3) by (fastforce split: prod.splits sysres.splits if_splits)
  then show ?thesis using assms(1,2) unfolding poller_called_def by blast
qed

lemma UpdateChannel_called: "UpdateChannel os lp a op s = Inr s' \<Longrightarrow> poller_called os lp s s'"
  by (auto simp: UpdateChannel_def sbind_Inr get_chan_Inr get_loop_Inr intro: poller_calledI)

lemma RemoveChannel_called: "RemoveChannel os lp f s = Inr s' \<Longrightarrow> poller_called os lp s s'"
  by (auto simp: RemoveChannel_def sbind_Inr get_loop_Inr intro: poller_calledI)

lemma UpdateToLoop_called: "UpdateToLoop os a op s = Inr s' \<Longrightarrow> \<exists>lp. poller_called os lp s s'"
  by (auto simp: UpdateToLoop_def sbind_Inr split: option.splits dest: UpdateChannel_called)

lemma RemoveFromLoop_called: "RemoveFromLoop os a s = Inr s' \<Longrightarrow> s' = s \<or> (\<exists>lp. poller_called os lp s s')"
  by (auto simp: RemoveFromLoop_def sbind_Inr split: option.splits dest: RemoveChannel_called)

lemma Channel_EnableWrite_called:
  assumes "Channel_EnableWrite os a enable s = Inr s'"
  shows "\<exists>ch evts lp. chans s a = Some ch \<and> poller_called os lp (set_chan a (ch\<lparr>events := evts\<rparr>) s) s'"
  using assms by (auto simp: Channel_EnableWrite_def sbind_Inr get_chan_Inr dest!: UpdateToLoop_called)

section \<open>Registration\<close>

text \<open>
  Where the kernel tracks the registered descriptors of the loop's \<open>epoll\<close> instance, an update of a
  channel registers exactly the channel's event mask and address, and touches nothing else; it
  can only end the process.
\<close>

lemma UpdateChannel_registers:
  assumes "chans s a = Some ch" and "loops s lp = Some l" and "epoll_tracks os (poll_fd l) iset keep"
  shows "UpdateChannel os lp a op s = Inl (EXIT ''[EventPoller] epoll_ctl op'') \<or>
     (\<exists>w n. UpdateChannel os lp a op s = Inr (set_world w (set_loop lp (l\<lparr>cur_poll_size := n\<rparr>) s)) \<and> keep w = keep (world s) \<and>
        (op = EPOLL_CTL_MOD \<longrightarrow> iset w = (iset (world s))(ch_fd ch \<mapsto> (events ch, a))) \<and>
        (op = EPOLL_CTL_ADD \<and> iset (world s) (ch_fd ch) = None \<longrightarrow> iset w = (iset (world s))(ch_fd ch \<mapsto> (events ch, a))))"
proof -
  obtain r w where k: "sys_epoll_ctl os (poll_fd l) op (ch_fd ch) (events ch, a) (world s) = (r, w)" by fastforce
  note tr = epoll_tracksD [OF assms(3) k]
  show ?thesis
  proof (cases r)
    case (Ret u)
    then show ?thesis
      using assms(1,2) k tr(1) tr(2) [OF Ret] by (auto simp: UpdateChannel_def)
  next
    case (Err e)
    have "set_loop lp (l\<lparr>cur_poll_size := cur_poll_size l\<rparr>) s = s"
      using assms(2) by (simp add: set_loop_def fun_upd_idem)
    show ?thesis
    proof (cases "e = EEXIST")
      case True
      then have "UpdateChannel os lp a op s = Inr (set_world w (set_loop lp (l\<lparr>cur_poll_size := cur_poll_size l\<rparr>) s))"
        using assms(1,2) k Err \<open>set_loop lp _ s = s\<close> by (simp add: UpdateChannel_def)
      then show ?thesis using tr(1) tr(3) [OF Err] True by fastforce
    qed (use assms(1,2) k Err in \<open>simp add: UpdateChannel_def\<close>)
  qed
qed

end
