(* ===== verification/Tcp_Connection.thy ===== *)
theory Tcp_Connection
  imports Event_Channel File_Buffer
begin

text \<open>
  \<^verbatim>\<open>ladder/src/Connection.cpp\<close> as it is built on Linux: a connection owns a channel, a read buffer and
  an output buffer of one of the two classes behind the interface \<open>IBuffer\<close>.

  Connections are objects at addresses, like channels. The closures that channels hold are the
  connection's member functions bound to it, or a closure of another client of the reactor, of the
  type \<open>'u\<close>. The callbacks that users set on a connection are closures of that type too. What
  they do is the argument \<open>user\<close>, which takes the connection and the whole state: it may send, close
  or destroy connections.
\<close>

section \<open>Output buffers\<close>

datatype out_buffer = Plain buffer | Files file_buffer

definition IBuffer_Write :: "string \<Rightarrow> out_buffer \<Rightarrow> out_buffer res" where
  "IBuffer_Write bs ob =
     (case ob of Plain b \<Rightarrow> sbind (Buffer_Write bs b) (\<lambda>b'. Inr (Plain b')) | Files fb \<Rightarrow> Inr (Files (FileBuffer_Write bs fb)))"

definition IBuffer_WriteBufferToFd ::
  "'w posix \<Rightarrow> fd \<Rightarrow> out_buffer \<Rightarrow> 'w \<Rightarrow> (nat sysres \<times> out_buffer \<times> 'w) res option" where
  "IBuffer_WriteBufferToFd os f ob w =
     (case ob of
        Plain b \<Rightarrow> obind (WriteBufferToFd os f b w) (\<lambda>(r, b', w'). Some (Inr (r, Plain b', w')))
      | Files fb \<Rightarrow> obind (FileBuffer_WriteBufferToFd os f fb w) (\<lambda>(r, fb', w'). Some (Inr (r, Files fb', w'))))"

definition IBuffer_Empty :: "out_buffer \<Rightarrow> bool" where
  "IBuffer_Empty ob = (case ob of Plain b \<Rightarrow> Buffer_Empty b | Files fb \<Rightarrow> FileBuffer_Empty fb)"

section \<open>Connections\<close>

datatype 'u net_cb = ConnRead addr | ConnWrite addr | ConnClose addr | Other 'u

record 'u connection =
  conn_channel :: addr
  on_read :: "'u option"
  on_write :: "'u option"
  on_close :: "'u option"
  read_buffer :: buffer
  write_buffer :: out_buffer
  shut_down :: bool
  conn_send_file :: bool

record ('u, 'w) net = "('u net_cb, 'w) reactor" +
  conns :: "addr \<rightharpoonup> 'u connection"

type_synonym ('u, 'w, 'z) user_code = "'u \<Rightarrow> addr \<Rightarrow> ('u, 'w, 'z) net_scheme \<Rightarrow> ('u, 'w, 'z) net_scheme res option"

definition get_conn :: "addr \<Rightarrow> ('u, 'w, 'z) net_scheme \<Rightarrow> 'u connection res" where
  "get_conn c s = (case conns s c of None \<Rightarrow> Inl (UB ''destroyed connection'') | Some cn \<Rightarrow> Inr cn)"

definition set_conn :: "addr \<Rightarrow> 'u connection \<Rightarrow> ('u, 'w, 'z) net_scheme \<Rightarrow> ('u, 'w, 'z) net_scheme" where
  "set_conn c cn s = s\<lparr>conns := (conns s)(c \<mapsto> cn)\<rparr>"

text \<open>The constructor, for a connection at the address \<open>c\<close> whose channel is at \<open>a\<close>.\<close>

definition Connection_new :: "addr \<Rightarrow> fd \<Rightarrow> bool \<Rightarrow> addr \<Rightarrow> addr \<Rightarrow> ('u, 'w, 'z) net_scheme \<Rightarrow> ('u, 'w, 'z) net_scheme" where
  "Connection_new lp f send_file c a s =
     set_conn c \<lparr>conn_channel = a, on_read = None, on_write = None, on_close = None, read_buffer = Buffer_new,
                 write_buffer = (if send_file then Files FileBuffer_new else Plain Buffer_new),
                 shut_down = False, conn_send_file = send_file\<rparr>
       (set_chan a (Channel_new (Some lp) f) s)"

definition Connection_destroy :: "'w posix \<Rightarrow> addr \<Rightarrow> ('u, 'w, 'z) net_scheme \<Rightarrow> ('u, 'w, 'z) net_scheme res" where
  "Connection_destroy os c s =
     sbind (get_conn c s) (\<lambda>cn.
     sbind (get_chan (conn_channel cn) s) (\<lambda>ch.
     sbind (socket_close os (ch_fd ch) (world s)) (\<lambda>w.
       let w' = (case write_buffer cn of Plain b \<Rightarrow> w | Files fb \<Rightarrow> FileBuffer_destroy os fb w) in
       Inr (set_world w' (s\<lparr>chans := (chans s)(conn_channel cn := None), conns := (conns s)(c := None)\<rparr>)))))"

definition SetChannelCallbacks :: "addr \<Rightarrow> ('u, 'w, 'z) net_scheme \<Rightarrow> ('u, 'w, 'z) net_scheme res" where
  "SetChannelCallbacks c s =
     sbind (get_conn c s) (\<lambda>cn.
     sbind (get_chan (conn_channel cn) s) (\<lambda>ch.
       Inr (set_chan (conn_channel cn)
         (ch\<lparr>read_callback := Some (Client (ConnRead c)), write_callback := Some (Client (ConnWrite c)),
             close_callback := Some (Client (ConnClose c)), error_callback := Some (Client (ConnClose c))\<rparr>) s)))"

text \<open>\<open>Init\<close> registers the channel before it sets the channel's callbacks.\<close>

definition Connection_Init :: "'w posix \<Rightarrow> addr \<Rightarrow> ('u, 'w, 'z) net_scheme \<Rightarrow> ('u, 'w, 'z) net_scheme res" where
  "Connection_Init os c s =
     sbind (get_conn c s) (\<lambda>cn.
     sbind (get_chan (conn_channel cn) s) (\<lambda>ch.
     sbind (UpdateToLoop os (conn_channel cn) EPOLL_CTL_ADD
              (set_chan (conn_channel cn) (SetEpollEdgeTriggered True ch) s)) (\<lambda>s'.
       SetChannelCallbacks c s')))"

definition Connection_SetReadCallback :: "addr \<Rightarrow> 'u option \<Rightarrow> ('u, 'w, 'z) net_scheme \<Rightarrow> ('u, 'w, 'z) net_scheme res" where
  "Connection_SetReadCallback c u s = sbind (get_conn c s) (\<lambda>cn. Inr (set_conn c (cn\<lparr>on_read := u\<rparr>) s))"

definition Connection_SetWriteCallback :: "addr \<Rightarrow> 'u option \<Rightarrow> ('u, 'w, 'z) net_scheme \<Rightarrow> ('u, 'w, 'z) net_scheme res" where
  "Connection_SetWriteCallback c u s = sbind (get_conn c s) (\<lambda>cn. Inr (set_conn c (cn\<lparr>on_write := u\<rparr>) s))"

definition Connection_SetCloseCallback :: "addr \<Rightarrow> 'u option \<Rightarrow> ('u, 'w, 'z) net_scheme \<Rightarrow> ('u, 'w, 'z) net_scheme res" where
  "Connection_SetCloseCallback c u s = sbind (get_conn c s) (\<lambda>cn. Inr (set_conn c (cn\<lparr>on_close := u\<rparr>) s))"

section \<open>Output\<close>

definition Connection_WriteBuffer ::
  "'w posix \<Rightarrow> addr \<Rightarrow> ('u, 'w, 'z) net_scheme \<Rightarrow> (nat sysres \<times> ('u, 'w, 'z) net_scheme) res option" where
  "Connection_WriteBuffer os c s =
     obind (Some (get_conn c s)) (\<lambda>cn.
     obind (Some (get_chan (conn_channel cn) s)) (\<lambda>ch.
     obind (IBuffer_WriteBufferToFd os (ch_fd ch) (write_buffer cn) (world s)) (\<lambda>(r, wb, w).
       Some (Inr (r, set_world w (set_conn c (cn\<lparr>write_buffer := wb\<rparr>) s))))))"

definition Connection_EnableWrite ::
  "'w posix \<Rightarrow> addr \<Rightarrow> nat sysres \<Rightarrow> ('u, 'w, 'z) net_scheme \<Rightarrow> ('u, 'w, 'z) net_scheme res" where
  "Connection_EnableWrite os c ret s =
     sbind (get_conn c s) (\<lambda>cn.
       Channel_EnableWrite os (conn_channel cn) (case ret of Err _ \<Rightarrow> True | Ret _ \<Rightarrow> False) s)"

definition Connection_Send ::
  "'w posix \<Rightarrow> addr \<Rightarrow> string \<Rightarrow> ('u, 'w, 'z) net_scheme \<Rightarrow> ('u, 'w, 'z) net_scheme res option" where
  "Connection_Send os c buf s =
     obind (Some (get_conn c s)) (\<lambda>cn.
       if shut_down cn then Some (Inr s)
       else
         obind (Some (IBuffer_Write buf (write_buffer cn))) (\<lambda>wb.
         obind (Connection_WriteBuffer os c (set_conn c (cn\<lparr>write_buffer := wb\<rparr>) s)) (\<lambda>(r, s').
           Some (Connection_EnableWrite os c r s'))))"

definition SendFile ::
  "'w posix \<Rightarrow> addr \<Rightarrow> string \<Rightarrow> string \<Rightarrow> ('u, 'w, 'z) net_scheme \<Rightarrow> ('u, 'w, 'z) net_scheme res option" where
  "SendFile os c head fname s =
     obind (Some (get_conn c s)) (\<lambda>cn.
       if shut_down cn \<or> \<not> conn_send_file cn then Some (Inr s)
       else
         (case write_buffer cn of
            Plain _ \<Rightarrow> Some (Inl (UB ''null file buffer''))
          | Files fb \<Rightarrow>
             obind (Connection_WriteBuffer os c (set_conn c (cn\<lparr>write_buffer := Files (AddFile head fname fb)\<rparr>) s)) (\<lambda>(r, s').
               Some (Connection_EnableWrite os c r s'))))"

section \<open>Closing\<close>

definition Connection_ShutDownWrite :: "'w posix \<Rightarrow> addr \<Rightarrow> ('u, 'w, 'z) net_scheme \<Rightarrow> ('u, 'w, 'z) net_scheme res" where
  "Connection_ShutDownWrite os c s = sbind (get_conn c s) (\<lambda>cn. Channel_ShutDownWrite os (conn_channel cn) s)"

definition Connection_Close :: "'w posix \<Rightarrow> addr \<Rightarrow> ('u, 'w, 'z) net_scheme \<Rightarrow> ('u, 'w, 'z) net_scheme res" where
  "Connection_Close os c s =
     sbind (get_conn c s) (\<lambda>cn.
     sbind (Channel_ShutDownRead os (conn_channel cn) s) (\<lambda>s'. Channel_ShutDownWrite os (conn_channel cn) s'))"

definition user_call ::
  "('u, 'w, 'z) user_code \<Rightarrow> 'u option \<Rightarrow> addr \<Rightarrow> ('u, 'w, 'z) net_scheme \<Rightarrow> ('u, 'w, 'z) net_scheme res option" where
  "user_call user u c s = (case u of None \<Rightarrow> Some (Inr s) | Some k \<Rightarrow> user k c s)"

definition OnCloseCallback ::
  "'w posix \<Rightarrow> ('u, 'w, 'z) user_code \<Rightarrow> addr \<Rightarrow> ('u, 'w, 'z) net_scheme \<Rightarrow> ('u, 'w, 'z) net_scheme res option" where
  "OnCloseCallback os user c s =
     obind (Some (get_conn c s)) (\<lambda>cn.
     obind (Some (Channel_ShutDownWrite os (conn_channel cn) s)) (\<lambda>s1.
     obind (Some (RemoveFromLoop os (conn_channel cn) s1)) (\<lambda>s2.
       user_call user (on_close cn) c s2)))"

section \<open>Events\<close>

definition Connection_ReadBuffer ::
  "'w posix \<Rightarrow> addr \<Rightarrow> ('u, 'w, 'z) net_scheme \<Rightarrow> (nat sysres \<times> ('u, 'w, 'z) net_scheme) res option" where
  "Connection_ReadBuffer os c s =
     obind (Some (get_conn c s)) (\<lambda>cn.
     obind (Some (get_chan (conn_channel cn) s)) (\<lambda>ch.
     obind (ReadBufferFromFd os (ch_fd ch) (read_buffer cn) (world s)) (\<lambda>(r, rb, w).
       Some (Inr (r, set_world w (set_conn c (cn\<lparr>read_buffer := rb\<rparr>) s))))))"

text \<open>
  What \<open>OnReadCallback\<close> does once the descriptor has been read: the user's callback if there are bytes
  in the buffer, then \<open>Close\<close> if the peer has finished and nothing is left to send.
\<close>

definition after_read ::
  "'w posix \<Rightarrow> ('u, 'w, 'z) user_code \<Rightarrow> addr \<Rightarrow> ('u, 'w, 'z) net_scheme \<Rightarrow> ('u, 'w, 'z) net_scheme res option" where
  "after_read os user c s =
     obind (Some (get_conn c s)) (\<lambda>cn.
     obind (if Buffer_Empty (read_buffer cn) then Some (Inr s) else user_call user (on_read cn) c s) (\<lambda>s1.
     obind (Some (get_conn c s1)) (\<lambda>cn1.
       if shut_down cn1 \<and> IBuffer_Empty (write_buffer cn1) then Some (Connection_Close os c s1) else Some (Inr s1))))"

definition set_shut_down :: "addr \<Rightarrow> ('u, 'w, 'z) net_scheme \<Rightarrow> ('u, 'w, 'z) net_scheme res" where
  "set_shut_down c s = sbind (get_conn c s) (\<lambda>cn. Inr (set_conn c (cn\<lparr>shut_down := True\<rparr>) s))"

text \<open>
  \<open>ReadBuffer\<close> and \<open>WriteBuffer\<close> are virtual, so the event handlers take them as arguments. What \<open>ReadBuffer\<close>
  returns is a number of bytes, \<open>-1\<close> with \<open>errno\<close>, or \<open>-2\<close>, which only encrypted connections return.
\<close>

datatype read_ret = ReadRet nat | ReadErr errno | ReadFail

definition OnReadCallback_via ::
  "'w posix \<Rightarrow> (addr \<Rightarrow> ('u, 'w, 'z) net_scheme \<Rightarrow> (read_ret \<times> ('u, 'w, 'z) net_scheme) res option) \<Rightarrow>
     ('u, 'w, 'z) user_code \<Rightarrow> addr \<Rightarrow> ('u, 'w, 'z) net_scheme \<Rightarrow> ('u, 'w, 'z) net_scheme res option" where
  "OnReadCallback_via os ReadBuffer user c s =
     obind (Some (get_conn c s)) (\<lambda>cn.
       if shut_down cn then Some (Inr s)
       else
         obind (ReadBuffer c s) (\<lambda>(r, s1).
           case r of
             ReadRet n \<Rightarrow> (if n = 0 then obind (Some (set_shut_down c s1)) (after_read os user c) else after_read os user c s1)
           | ReadErr e \<Rightarrow>
              (if e = ECONNRESET then obind (Some (set_shut_down c s1)) (OnCloseCallback os user c)
               else after_read os user c s1)
           | ReadFail \<Rightarrow> obind (Some (set_shut_down c s1)) (after_read os user c)))"

definition OnWriteCallback_via ::
  "'w posix \<Rightarrow> (addr \<Rightarrow> ('u, 'w, 'z) net_scheme \<Rightarrow> (nat sysres \<times> ('u, 'w, 'z) net_scheme) res option) \<Rightarrow>
     ('u, 'w, 'z) user_code \<Rightarrow> addr \<Rightarrow> ('u, 'w, 'z) net_scheme \<Rightarrow> ('u, 'w, 'z) net_scheme res option" where
  "OnWriteCallback_via os WriteBuffer user c s =
     obind (WriteBuffer c s) (\<lambda>(ret, s1).
     obind (Some (get_conn c s1)) (\<lambda>cn1.
     obind (user_call user (on_write cn1) c s1) (\<lambda>s2.
     obind (Some (get_conn c s2)) (\<lambda>cn2.
       if shut_down cn2 \<and> IBuffer_Empty (write_buffer cn2) then OnCloseCallback os user c s2
       else Some (Connection_EnableWrite os c ret s2)))))"

text \<open>The handlers of the base class.\<close>

definition read_code :: "nat sysres \<Rightarrow> read_ret" where
  "read_code r = (case r of Ret n \<Rightarrow> ReadRet n | Err e \<Rightarrow> ReadErr e)"

definition plain_ReadBuffer ::
  "'w posix \<Rightarrow> addr \<Rightarrow> ('u, 'w, 'z) net_scheme \<Rightarrow> (read_ret \<times> ('u, 'w, 'z) net_scheme) res option" where
  "plain_ReadBuffer os c s = obind (Connection_ReadBuffer os c s) (\<lambda>(r, s'). Some (Inr (read_code r, s')))"

definition OnReadCallback ::
  "'w posix \<Rightarrow> ('u, 'w, 'z) user_code \<Rightarrow> addr \<Rightarrow> ('u, 'w, 'z) net_scheme \<Rightarrow> ('u, 'w, 'z) net_scheme res option" where
  "OnReadCallback os user c s = OnReadCallback_via os (plain_ReadBuffer os) user c s"

definition OnWriteCallback ::
  "'w posix \<Rightarrow> ('u, 'w, 'z) user_code \<Rightarrow> addr \<Rightarrow> ('u, 'w, 'z) net_scheme \<Rightarrow> ('u, 'w, 'z) net_scheme res option" where
  "OnWriteCallback os user c s = OnWriteCallback_via os (Connection_WriteBuffer os) user c s"

lemma OnReadCallback_plain:
  "OnReadCallback os user c s =
     obind (Some (get_conn c s)) (\<lambda>cn.
       if shut_down cn then Some (Inr s)
       else
         obind (Connection_ReadBuffer os c s) (\<lambda>(r, s1).
           case r of
             Ret n \<Rightarrow> (if n = 0 then obind (Some (set_shut_down c s1)) (after_read os user c) else after_read os user c s1)
           | Err e \<Rightarrow>
              (if e = ECONNRESET then obind (Some (set_shut_down c s1)) (OnCloseCallback os user c)
               else after_read os user c s1)))"
  by (auto simp: OnReadCallback_def OnReadCallback_via_def plain_ReadBuffer_def read_code_def obind_def
      split: option.split sum.split sysres.split)

lemmas OnWriteCallback_plain = OnWriteCallback_def [unfolded OnWriteCallback_via_def]

text \<open>The closures that channels of connections hold; \<open>0\<close> stands for the connection a closure of another client does not have.\<close>

definition net_run :: "'w posix \<Rightarrow> ('u, 'w, 'z) user_code \<Rightarrow> 'u net_cb \<Rightarrow> ('u, 'w, 'z) net_scheme \<Rightarrow> ('u, 'w, 'z) net_scheme res option" where
  "net_run os user k s =
     (case k of
        ConnRead c \<Rightarrow> OnReadCallback os user c s
      | ConnWrite c \<Rightarrow> OnWriteCallback os user c s
      | ConnClose c \<Rightarrow> OnCloseCallback os user c s
      | Other u \<Rightarrow> user u 0 s)"

section \<open>The contract of an output buffer\<close>

text \<open>
  What a connection relies on of a class behind \<open>IBuffer\<close>: writing appends to the stream of bytes the
  buffer stands for, as long as there is room; flushing moves a prefix of the stream to the bytes the
  descriptor has sent, reports 0 only when the stream is used up, leaves the parts \<open>keep\<close> of the
  kernel state alone, and can otherwise only end the process.
\<close>

locale stream_buffer =
  fixes put :: "string \<Rightarrow> 'b \<Rightarrow> 'b res"
    and flush :: "'b \<Rightarrow> 'w \<Rightarrow> (nat sysres \<times> 'b \<times> 'w) res option"
    and stream :: "'w \<Rightarrow> 'b \<Rightarrow> string"
    and ok :: "nat \<Rightarrow> 'w \<Rightarrow> 'b \<Rightarrow> bool"
    and sent :: "'w \<Rightarrow> string"
    and keep :: "'w \<Rightarrow> 'k"
  assumes put_ok: "ok (length bs + m) w b \<Longrightarrow> \<exists>b'. put bs b = Inr b' \<and> ok m w b' \<and> stream w b' = stream w b @ bs"
    and flush_ok: "ok m w b \<Longrightarrow> (\<exists>x. flush b w = Some (Inl (EXIT x))) \<or>
      (\<exists>r b' w'. flush b w = Some (Inr (r, b', w')) \<and> ok m w' b' \<and> sent w' @ stream w' b' = sent w @ stream w b \<and>
         (\<forall>n. r = Ret n \<longrightarrow> stream w' b' = []) \<and> keep w' = keep w)"
begin

text \<open>Writing and flushing at once, as \<open>Connection::Send\<close> does.\<close>

lemma put_flush:
  assumes "ok (length bs + m) w b"
  shows "\<exists>b1. put bs b = Inr b1 \<and> ((\<exists>x. flush b1 w = Some (Inl (EXIT x))) \<or>
      (\<exists>r b' w'. flush b1 w = Some (Inr (r, b', w')) \<and> ok m w' b' \<and> sent w' @ stream w' b' = sent w @ stream w b @ bs \<and>
         (\<forall>n. r = Ret n \<longrightarrow> stream w' b' = []) \<and> keep w' = keep w))"
proof -
  obtain b1 where b1: "put bs b = Inr b1" "ok m w b1" "stream w b1 = stream w b @ bs"
    using put_ok [OF assms] by blast
  then show ?thesis using flush_ok [OF b1(2)] by simp
qed

end

definition socket_kernel ::
  "'w posix \<Rightarrow> fd \<Rightarrow> ('w \<Rightarrow> string) \<Rightarrow> (fd \<Rightarrow> 'w \<Rightarrow> string) \<Rightarrow> (string \<Rightarrow> string option) \<Rightarrow> ('w \<Rightarrow> 'k) \<Rightarrow> bool" where
  "socket_kernel os f sent fdata data keep \<longleftrightarrow>
     write_accepts os f sent \<and> files_stable os f sent fdata data \<and> sendfile_accepts os f sent fdata \<and>
     io_keeps os f keep \<and> f \<noteq> 0"

definition plain_ok :: "'w posix \<Rightarrow> fd \<Rightarrow> ('w \<Rightarrow> string) \<Rightarrow> ('w \<Rightarrow> 'k) \<Rightarrow> nat \<Rightarrow> 'w \<Rightarrow> buffer \<Rightarrow> bool" where
  "plain_ok os f sent keep m w b \<longleftrightarrow> write_accepts os f sent \<and> io_keeps os f keep \<and> buffer_ok b \<and> room b m"

interpretation plain: stream_buffer Buffer_Write "WriteBufferToFd os f" "\<lambda>w b. content b" "plain_ok os f sent keep" sent keep
  for os f sent keep
proof unfold_locales
  fix bs :: string and m w b
  assume "plain_ok os f sent keep (length bs + m) w b"
  then have "write_accepts os f sent" "io_keeps os f keep" "buffer_ok b" "room b (length bs)" "room b (length bs + m)"
    using room_le [of b "length bs + m" "length bs"] by (simp_all add: plain_ok_def)
  then show "\<exists>b'. Buffer_Write bs b = Inr b' \<and> plain_ok os f sent keep m w b' \<and> content b' = content b @ bs"
    using Buffer_Write_ok [of b bs] by (auto simp: plain_ok_def)
next
  fix m w b
  assume "plain_ok os f sent keep m w b"
  then have k: "write_accepts os f sent" "io_keeps os f keep" "buffer_ok b" "room b m" by (simp_all add: plain_ok_def)
  show "(\<exists>x. WriteBufferToFd os f b w = Some (Inl (EXIT x))) \<or>
      (\<exists>r b' w'. WriteBufferToFd os f b w = Some (Inr (r, b', w')) \<and> plain_ok os f sent keep m w' b' \<and>
         sent w' @ content b' = sent w @ content b \<and> (\<forall>n. r = Ret n \<longrightarrow> content b' = []) \<and> keep w' = keep w)"
    using WriteBufferToFd_loop [OF k(1) _ k(3), of "\<lambda>_. ()" w] k
    by (auto simp: plain_ok_def WriteBufferToFd_keeps [OF io_keeps_write [OF k(2)]])
qed

definition files_ok ::
  "'w posix \<Rightarrow> fd \<Rightarrow> ('w \<Rightarrow> string) \<Rightarrow> (fd \<Rightarrow> 'w \<Rightarrow> string) \<Rightarrow> (string \<Rightarrow> string option) \<Rightarrow> ('w \<Rightarrow> 'k) \<Rightarrow>
     nat \<Rightarrow> 'w \<Rightarrow> file_buffer \<Rightarrow> bool" where
  "files_ok os f sent fdata data keep m w fb \<longleftrightarrow>
     socket_kernel os f sent fdata data keep \<and> fb_ok m data (\<lambda>g. fdata g w) fb \<and> file_fd fb \<noteq> f"

text \<open>Queuing an entry, with or without a file, appends what the entry stands for.\<close>

lemma AddFile_stream:
  assumes "fb_ok (length h + m) data fdata fb" and "\<forall>d. fname \<noteq> [] \<and> data fname = Some d \<longrightarrow> length d < 2 ^ 31"
  shows "fb_ok m data fdata (AddFile h fname fb)"
    and "fb_stream data fdata (AddFile h fname fb) = fb_stream data fdata fb @ entry_bytes data \<lparr>header = h, filename = fname\<rparr>"
    and "file_fd (AddFile h fname fb) = file_fd fb"
  using assms
  by (auto simp: fb_ok_def fb_stream_def AddFile_def unsent_entries_def header_bytes_def add.assoc split: if_splits)

interpretation files: stream_buffer "\<lambda>bs fb. Inr (FileBuffer_Write bs fb)" "FileBuffer_WriteBufferToFd os f"
    "\<lambda>w. fb_stream data (\<lambda>g. fdata g w)" "files_ok os f sent fdata data keep" sent keep
  for os f sent fdata data keep
proof unfold_locales
  fix bs :: string and m w fb
  assume "files_ok os f sent fdata data keep (length bs + m) w fb"
  then show "\<exists>b'. Inr (FileBuffer_Write bs fb) = (Inr b' :: file_buffer res) \<and> files_ok os f sent fdata data keep m w b' \<and>
      fb_stream data (\<lambda>g. fdata g w) b' = fb_stream data (\<lambda>g. fdata g w) fb @ bs"
    using AddFile_stream [of bs m data "\<lambda>g. fdata g w" fb "[]"]
    by (simp add: files_ok_def FileBuffer_Write_def entry_bytes_def)
next
  fix m w fb
  assume "files_ok os f sent fdata data keep m w fb"
  then have k: "write_accepts os f sent" "files_stable os f sent fdata data" "sendfile_accepts os f sent fdata"
      "fb_ok m data (\<lambda>g. fdata g w) fb" "io_keeps os f keep" "f \<noteq> 0" "file_fd fb \<noteq> f"
    by (simp_all add: files_ok_def socket_kernel_def)
  have keeps: "FileBuffer_WriteBufferToFd os f fb w = Some (Inr (r, fb', w')) \<Longrightarrow> keep w' = keep w \<and> file_fd fb' \<noteq> f" for r fb' w'
    by (rule FileBuffer_WriteBufferToFd_keeps [OF k(5-7)])
  show "(\<exists>x. FileBuffer_WriteBufferToFd os f fb w = Some (Inl (EXIT x))) \<or>
      (\<exists>r fb' w'. FileBuffer_WriteBufferToFd os f fb w = Some (Inr (r, fb', w')) \<and> files_ok os f sent fdata data keep m w' fb' \<and>
         sent w' @ fb_stream data (\<lambda>g. fdata g w') fb' = sent w @ fb_stream data (\<lambda>g. fdata g w) fb \<and>
         (\<forall>n. r = Ret n \<longrightarrow> fb_stream data (\<lambda>g. fdata g w') fb' = []) \<and> keep w' = keep w)"
  proof (cases "\<exists>x. FileBuffer_WriteBufferToFd os f fb w = Some (Inl (EXIT x))")
    case False
    then obtain r fb' w' where r: "FileBuffer_WriteBufferToFd os f fb w = Some (Inr (r, fb', w'))"
      "r = Ret 0 \<and> pending_files fb' = [] \<and> content (inner fb') = [] \<or> r \<in> {Err EAGAIN, Err ECONNRESET, Err EPIPE}"
      "sent w' @ fb_stream data (\<lambda>g. fdata g w') fb' = sent w @ fb_stream data (\<lambda>g. fdata g w) fb"
      "fb_ok m data (\<lambda>g. fdata g w') fb'"
      using fb_sends [OF k(1-4)] by blast
    have "fb_stream data (\<lambda>g. fdata g w') fb' = []" if "r = Ret n" for n
      using r(2,4) that by (auto simp: fb_stream_def fb_ok_def)
    then show ?thesis
      using r keeps [OF r(1)] k by (auto simp: files_ok_def socket_kernel_def)
  qed simp
qed

text \<open>The two classes behind the dispatch of \<open>IBuffer\<close>.\<close>

definition out_stream :: "(string \<Rightarrow> string option) \<Rightarrow> (fd \<Rightarrow> 'w \<Rightarrow> string) \<Rightarrow> 'w \<Rightarrow> out_buffer \<Rightarrow> string" where
  "out_stream data fdata w ob = (case ob of Plain b \<Rightarrow> content b | Files fb \<Rightarrow> fb_stream data (\<lambda>g. fdata g w) fb)"

definition out_ok ::
  "'w posix \<Rightarrow> fd \<Rightarrow> ('w \<Rightarrow> string) \<Rightarrow> (fd \<Rightarrow> 'w \<Rightarrow> string) \<Rightarrow> (string \<Rightarrow> string option) \<Rightarrow> ('w \<Rightarrow> 'k) \<Rightarrow>
     nat \<Rightarrow> 'w \<Rightarrow> out_buffer \<Rightarrow> bool" where
  "out_ok os f sent fdata data keep m w ob \<longleftrightarrow>
     (case ob of Plain b \<Rightarrow> plain_ok os f sent keep m w b | Files fb \<Rightarrow> files_ok os f sent fdata data keep m w fb)"

lemmas output_defs = IBuffer_Write_def IBuffer_WriteBufferToFd_def out_stream_def out_ok_def

interpretation outbuf: stream_buffer IBuffer_Write "IBuffer_WriteBufferToFd os f" "out_stream data fdata"
    "out_ok os f sent fdata data keep" sent keep
  for os f sent fdata data keep
proof unfold_locales
  fix bs :: string and m w ob
  assume ok: "out_ok os f sent fdata data keep (length bs + m) w ob"
  show "\<exists>b'. IBuffer_Write bs ob = Inr b' \<and> out_ok os f sent fdata data keep m w b' \<and>
      out_stream data fdata w b' = out_stream data fdata w ob @ bs"
  proof (cases ob)
    case (Plain b)
    then have "plain_ok os f sent keep (length bs + m) w b" using ok by (simp add: output_defs)
    from plain.put_ok [OF this] show ?thesis by (auto simp: output_defs Plain)
  next
    case (Files fb)
    then show ?thesis using ok files.put_ok [of os f sent fdata data keep bs m w fb] by (simp add: output_defs)
  qed
next
  fix m w ob
  assume ok: "out_ok os f sent fdata data keep m w ob"
  show "(\<exists>x. IBuffer_WriteBufferToFd os f ob w = Some (Inl (EXIT x))) \<or>
      (\<exists>r b' w'. IBuffer_WriteBufferToFd os f ob w = Some (Inr (r, b', w')) \<and> out_ok os f sent fdata data keep m w' b' \<and>
         sent w' @ out_stream data fdata w' b' = sent w @ out_stream data fdata w ob \<and>
         (\<forall>n. r = Ret n \<longrightarrow> out_stream data fdata w' b' = []) \<and> keep w' = keep w)"
  proof (cases ob)
    case (Plain b)
    then have "plain_ok os f sent keep m w b" using ok by (simp add: output_defs)
    from plain.flush_ok [OF this] show ?thesis by (auto simp: output_defs Plain)
  next
    case (Files fb)
    then have "files_ok os f sent fdata data keep m w fb" using ok by (simp add: output_defs)
    from files.flush_ok [OF this] show ?thesis by (auto simp: output_defs Files)
  qed
qed

section \<open>A connection that sends\<close>

lemma get_conn_simps [simp]:
  "conns s c = Some cn \<Longrightarrow> get_conn c s = Inr cn"
  "get_conn c (set_conn c' cn s) = (if c = c' then Inr cn else get_conn c s)"
  "get_conn c (set_chan a ch s) = get_conn c s" "get_conn c (set_loop lp l s) = get_conn c s"
  "get_conn c (set_world w s) = get_conn c s"
  by (simp_all add: get_conn_def set_conn_def set_chan_def set_loop_def set_world_def)

lemma net_selectors [simp]:
  "conns (set_conn c cn s) = (conns s)(c \<mapsto> cn)" "conns (set_chan a ch s) = conns s"
  "conns (set_loop lp l s) = conns s" "conns (set_world w s) = conns s"
  "chans (set_conn c cn s) = chans s" "loops (set_conn c cn s) = loops s" "world (set_conn c cn s) = world s"
  "get_chan a (set_conn c cn s) = get_chan a s" "get_loop lp (set_conn c cn s) = get_loop lp s"
  by (simp_all add: set_conn_def set_chan_def set_loop_def set_world_def get_chan_def get_loop_def)

text \<open>
  The kernel's part: the connection's descriptor \<open>f\<close> is a stream socket, files do not change, and the
  \<open>epoll\<close> instance \<open>ep\<close> of the connection's loop tracks the registered descriptors.
\<close>

record 'w kernel_view =
  kv_sent :: "'w \<Rightarrow> string"
  kv_fdata :: "fd \<Rightarrow> 'w \<Rightarrow> string"
  kv_data :: "string \<Rightarrow> string option"
  kv_iset :: "'w \<Rightarrow> fd \<rightharpoonup> epoll_event"

definition conn_kernel :: "'w posix \<Rightarrow> 'w kernel_view \<Rightarrow> fd \<Rightarrow> fd \<Rightarrow> bool" where
  "conn_kernel os v f ep \<longleftrightarrow>
     socket_kernel os f (kv_sent v) (kv_fdata v) (kv_data v) (\<lambda>w. kv_iset v w f) \<and>
     epoll_tracks os ep (kv_iset v) (\<lambda>w. (kv_sent v w, \<lambda>g. kv_fdata v g w))"

text \<open>
  A connection at \<open>c\<close> that is set up: its channel at \<open>a\<close> is registered, its output buffer has room for \<open>m\<close> bytes more, and it has not been shut down.
\<close>

definition conn_ready ::
  "'w posix \<Rightarrow> 'w kernel_view \<Rightarrow> addr \<Rightarrow> addr \<Rightarrow> fd \<Rightarrow> bool \<Rightarrow> nat \<Rightarrow> ('u, 'w, 'z) net_scheme \<Rightarrow> bool" where
  "conn_ready os v c a f sf m s \<longleftrightarrow>
     (\<exists>cn ch lp l. conns s c = Some cn \<and> conn_channel cn = a \<and> chans s a = Some ch \<and> ch_fd ch = f \<and> ch_loop ch = Some lp \<and>
        loops s lp = Some l \<and> conn_kernel os v f (poll_fd l) \<and> \<not> shut_down cn \<and> on_write cn = None \<and>
        conn_send_file cn = sf \<and> (sf \<longleftrightarrow> (\<exists>fb. write_buffer cn = Files fb)) \<and>
        out_ok os f (kv_sent v) (kv_fdata v) (kv_data v) (\<lambda>w. kv_iset v w f) m (world s) (write_buffer cn) \<and>
        (\<exists>evts. kv_iset v (world s) f = Some (evts, a)))"

definition conn_stream :: "'w kernel_view \<Rightarrow> addr \<Rightarrow> ('u, 'w, 'z) net_scheme \<Rightarrow> string" where
  "conn_stream v c s = out_stream (kv_data v) (kv_fdata v) (world s) (write_buffer (the (conns s c)))"

text \<open>While bytes are waiting to be sent, the kernel is asked to report that the socket is writable.\<close>

definition write_armed :: "'w kernel_view \<Rightarrow> addr \<Rightarrow> fd \<Rightarrow> ('u, 'w, 'z) net_scheme \<Rightarrow> bool" where
  "write_armed v c f s \<longleftrightarrow>
     (conn_stream v c s \<noteq> [] \<longrightarrow> (\<exists>evts a. kv_iset v (world s) f = Some (evts, a) \<and> evts AND kPollOut \<noteq> 0))"

lemma out_ok_world:
  assumes "out_ok os f sent fdata data keep m w ob" and "(\<lambda>g. fdata g w') = (\<lambda>g. fdata g w)"
  shows "out_ok os f sent fdata data keep m w' ob" and "out_stream data fdata w' ob = out_stream data fdata w ob"
  using assms by (auto simp: out_ok_def out_stream_def plain_ok_def files_ok_def split: out_buffer.splits)

lemma Connection_EnableWrite_arms:
  assumes "conn_ready os v c a f sf m s" and "\<forall>n. r = Ret n \<longrightarrow> conn_stream v c s = []"
  shows "(\<exists>x. Connection_EnableWrite os c r s = Inl (EXIT x)) \<or>
     (\<exists>s'. Connection_EnableWrite os c r s = Inr s' \<and> conn_ready os v c a f sf m s' \<and> write_armed v c f s' \<and>
        kv_sent v (world s') = kv_sent v (world s) \<and> conn_stream v c s' = conn_stream v c s)"
proof -
  from assms(1) obtain cn ch lp l where st: "conns s c = Some cn" "conn_channel cn = a" "chans s a = Some ch"
    "ch_fd ch = f" "ch_loop ch = Some lp" "loops s lp = Some l" "conn_kernel os v f (poll_fd l)"
    and ok: "out_ok os f (kv_sent v) (kv_fdata v) (kv_data v) (\<lambda>w. kv_iset v w f) m (world s) (write_buffer cn)"
    unfolding conn_ready_def by blast
  define enable where "enable = (case r of Err _ \<Rightarrow> True | Ret _ \<Rightarrow> False)"
  define ch' where "ch' = ch\<lparr>events := if enable then events ch OR kPollOut else events ch AND NOT kPollOut\<rparr>"
  have tr: "epoll_tracks os (poll_fd l) (kv_iset v) (\<lambda>w. (kv_sent v w, \<lambda>g. kv_fdata v g w))"
    using st(7) by (simp add: conn_kernel_def)
  have eq: "Connection_EnableWrite os c r s = UpdateChannel os lp a EPOLL_CTL_MOD (set_chan a ch' s)"
    using st by (simp add: Connection_EnableWrite_def Channel_EnableWrite_def UpdateToLoop_def ch'_def enable_def)
  have "chans (set_chan a ch' s) a = Some ch'" "loops (set_chan a ch' s) lp = Some l" using st by simp_all
  from UpdateChannel_registers [OF this tr, of EPOLL_CTL_MOD] show ?thesis
  proof (elim disjE exE conjE)
    fix w n
    let ?s = "set_world w (set_loop lp (l\<lparr>cur_poll_size := n\<rparr>) (set_chan a ch' s))"
    assume u: "UpdateChannel os lp a EPOLL_CTL_MOD (set_chan a ch' s) = Inr ?s"
      and k: "(kv_sent v w, \<lambda>g. kv_fdata v g w) = (kv_sent v (world (set_chan a ch' s)), \<lambda>g. kv_fdata v g (world (set_chan a ch' s)))"
      and i: "EPOLL_CTL_MOD = EPOLL_CTL_MOD \<longrightarrow> kv_iset v w = (kv_iset v (world (set_chan a ch' s)))(ch_fd ch' \<mapsto> (events ch', a))"
    have fd: "(\<lambda>g. kv_fdata v g w) = (\<lambda>g. kv_fdata v g (world s))" using k by simp
    have stream: "conn_stream v c ?s = conn_stream v c s"
      using out_ok_world [OF ok fd] st(1) by (simp add: conn_stream_def)
    have "conn_ready os v c a f sf m ?s"
      using assms(1) st out_ok_world [OF ok fd] i by (auto simp: conn_ready_def ch'_def)
    moreover have "write_armed v c f ?s"
      using i assms(2) st(4) stream by (cases r) (auto simp: write_armed_def ch'_def enable_def)
    ultimately show ?thesis using eq u k stream by auto
  qed (simp add: eq)
qed

text \<open>Flushing a connection's output buffer.\<close>

lemma Connection_WriteBuffer_ready:
  assumes "conn_ready os v c a f sf m s"
  shows "(\<exists>x. Connection_WriteBuffer os c s = Some (Inl (EXIT x))) \<or>
     (\<exists>r s'. Connection_WriteBuffer os c s = Some (Inr (r, s')) \<and> conn_ready os v c a f sf m s' \<and>
        kv_sent v (world s') @ conn_stream v c s' = kv_sent v (world s) @ conn_stream v c s \<and>
        (\<forall>n. r = Ret n \<longrightarrow> conn_stream v c s' = []))"
proof -
  from assms obtain cn ch where st: "conns s c = Some cn" "conn_channel cn = a" "chans s a = Some ch" "ch_fd ch = f"
    and ok: "out_ok os f (kv_sent v) (kv_fdata v) (kv_data v) (\<lambda>w. kv_iset v w f) m (world s) (write_buffer cn)"
    unfolding conn_ready_def by blast
  from outbuf.flush_ok [OF ok] show ?thesis
  proof (elim disjE exE conjE)
    fix x assume "IBuffer_WriteBufferToFd os f (write_buffer cn) (world s) = Some (Inl (EXIT x))"
    then show ?thesis using st by (simp add: Connection_WriteBuffer_def)
  next
    fix r ob w
    let ?s = "set_world w (set_conn c (cn\<lparr>write_buffer := ob\<rparr>) s)"
    assume fl: "IBuffer_WriteBufferToFd os f (write_buffer cn) (world s) = Some (Inr (r, ob, w))"
      and ok': "out_ok os f (kv_sent v) (kv_fdata v) (kv_data v) (\<lambda>w. kv_iset v w f) m w ob"
      and "kv_sent v w @ out_stream (kv_data v) (kv_fdata v) w ob =
        kv_sent v (world s) @ out_stream (kv_data v) (kv_fdata v) (world s) (write_buffer cn)"
      and "\<forall>n. r = Ret n \<longrightarrow> out_stream (kv_data v) (kv_fdata v) w ob = []"
      and i: "kv_iset v w f = kv_iset v (world s) f"
    moreover have "(\<exists>fb. ob = Files fb) \<longleftrightarrow> (\<exists>fb. write_buffer cn = Files fb)"
      using fl by (auto simp: IBuffer_WriteBufferToFd_def obind_Inr split: out_buffer.splits)
    ultimately show ?thesis
      using assms st by (auto simp: Connection_WriteBuffer_def conn_stream_def conn_ready_def)
  qed
qed

text \<open>
  The end of \<open>Send\<close>, \<open>SendFile\<close> and \<open>OnWriteCallback\<close>: flush, then ask for the event if bytes are left.
\<close>

lemma flush_and_arm:
  assumes "conn_ready os v c a f sf m s"
  shows "(\<exists>x. obind (Connection_WriteBuffer os c s) (\<lambda>(r, s'). Some (Connection_EnableWrite os c r s')) = Some (Inl (EXIT x))) \<or>
     (\<exists>s'. obind (Connection_WriteBuffer os c s) (\<lambda>(r, s'). Some (Connection_EnableWrite os c r s')) = Some (Inr s') \<and>
        conn_ready os v c a f sf m s' \<and> write_armed v c f s' \<and>
        kv_sent v (world s') @ conn_stream v c s' = kv_sent v (world s) @ conn_stream v c s)"
  using Connection_WriteBuffer_ready [OF assms]
proof (elim disjE exE conjE)
  fix r s1
  assume w: "Connection_WriteBuffer os c s = Some (Inr (r, s1))" and s1: "conn_ready os v c a f sf m s1"
    and n: "\<forall>n. r = Ret n \<longrightarrow> conn_stream v c s1 = []"
    and k: "kv_sent v (world s1) @ conn_stream v c s1 = kv_sent v (world s) @ conn_stream v c s"
  from Connection_EnableWrite_arms [OF s1 n] show ?thesis
    by (elim disjE exE conjE) (simp_all add: w k)
qed simp

datatype conn_op = SendOp string | SendFileOp string string | WritableOp

fun conn_do :: "'w posix \<Rightarrow> ('u, 'w, 'z) user_code \<Rightarrow> addr \<Rightarrow> conn_op \<Rightarrow> ('u, 'w, 'z) net_scheme \<Rightarrow> ('u, 'w, 'z) net_scheme res option" where
  "conn_do os user c (SendOp bs) s = Connection_Send os c bs s"
| "conn_do os user c (SendFileOp h fname) s = SendFile os c h fname s"
| "conn_do os user c WritableOp s = OnWriteCallback os user c s"

fun conn_run :: "'w posix \<Rightarrow> ('u, 'w, 'z) user_code \<Rightarrow> addr \<Rightarrow> conn_op list \<Rightarrow> ('u, 'w, 'z) net_scheme \<Rightarrow> ('u, 'w, 'z) net_scheme res option" where
  "conn_run os user c [] s = Some (Inr s)"
| "conn_run os user c (op # ops) s = obind (conn_do os user c op s) (conn_run os user c ops)"

text \<open>The bytes an operation adds to the stream; a connection without files ignores \<open>SendFile\<close>.\<close>

fun op_bytes :: "(string \<Rightarrow> string option) \<Rightarrow> bool \<Rightarrow> conn_op \<Rightarrow> string" where
  "op_bytes data sf (SendOp bs) = bs"
| "op_bytes data sf (SendFileOp h fname) = (if sf then entry_bytes data \<lparr>header = h, filename = fname\<rparr> else [])"
| "op_bytes data sf WritableOp = []"

fun op_room :: "conn_op \<Rightarrow> nat" where
  "op_room (SendOp bs) = length bs"
| "op_room (SendFileOp h fname) = length h"
| "op_room WritableOp = 0"

fun op_small :: "(string \<Rightarrow> string option) \<Rightarrow> conn_op \<Rightarrow> bool" where
  "op_small data (SendFileOp h fname) = (case data fname of None \<Rightarrow> True | Some d \<Rightarrow> length d < 2 ^ 31)"
| "op_small data _ = True"

lemma conn_ready_put:
  assumes "conn_ready os v c a f sf (n + m) s" and "conns s c = Some cn"
    and "out_ok os f (kv_sent v) (kv_fdata v) (kv_data v) (\<lambda>w. kv_iset v w f) (n + m) (world s) (write_buffer cn) \<Longrightarrow>
      out_ok os f (kv_sent v) (kv_fdata v) (kv_data v) (\<lambda>w. kv_iset v w f) m (world s) ob"
    and "(\<exists>fb. ob = Files fb) \<longleftrightarrow> (\<exists>fb. write_buffer cn = Files fb)"
  shows "conn_ready os v c a f sf m (set_conn c (cn\<lparr>write_buffer := ob\<rparr>) s)"
  using assms by (auto simp: conn_ready_def)

lemma conn_ready_less:
  assumes "conn_ready os v c a f sf (n + m) s"
  shows "conn_ready os v c a f sf m s"
proof -
  have "out_ok os f (kv_sent v) (kv_fdata v) (kv_data v) (\<lambda>w. kv_iset v w f) m w ob"
    if "out_ok os f (kv_sent v) (kv_fdata v) (kv_data v) (\<lambda>w. kv_iset v w f) (n + m) w ob" for w ob
    using that room_le [of _ "n + m" m] room_le [of _ "_ + (n + m)" "_ + m"]
    by (auto simp: out_ok_def plain_ok_def files_ok_def fb_ok_def split: out_buffer.splits)
  then show ?thesis using assms unfolding conn_ready_def by blast
qed

definition op_done ::
  "'w posix \<Rightarrow> 'w kernel_view \<Rightarrow> addr \<Rightarrow> addr \<Rightarrow> fd \<Rightarrow> bool \<Rightarrow> nat \<Rightarrow> string \<Rightarrow> ('u, 'w, 'z) net_scheme res option \<Rightarrow> bool" where
  "op_done os v c a f sf m bytes result \<longleftrightarrow>
     (\<exists>x. result = Some (Inl (EXIT x))) \<or>
     (\<exists>s'. result = Some (Inr s') \<and> conn_ready os v c a f sf m s' \<and> write_armed v c f s' \<and>
        kv_sent v (world s') @ conn_stream v c s' = bytes)"

lemma Connection_Send_done:
  assumes "conn_ready os v c a f sf (length bs + m) s"
  shows "op_done os v c a f sf m (kv_sent v (world s) @ conn_stream v c s @ bs) (Connection_Send os c bs s)"
proof -
  from assms obtain cn where st: "conns s c = Some cn" "\<not> shut_down cn"
    and ok: "out_ok os f (kv_sent v) (kv_fdata v) (kv_data v) (\<lambda>w. kv_iset v w f) (length bs + m) (world s) (write_buffer cn)"
    unfolding conn_ready_def by blast
  obtain ob where ob: "IBuffer_Write bs (write_buffer cn) = Inr ob"
    "out_ok os f (kv_sent v) (kv_fdata v) (kv_data v) (\<lambda>w. kv_iset v w f) m (world s) ob"
    "out_stream (kv_data v) (kv_fdata v) (world s) ob = out_stream (kv_data v) (kv_fdata v) (world s) (write_buffer cn) @ bs"
    using outbuf.put_ok [OF ok] by blast
  have "(\<exists>fb. ob = Files fb) \<longleftrightarrow> (\<exists>fb. write_buffer cn = Files fb)"
    using ob(1) by (auto simp: IBuffer_Write_def sbind_Inr split: out_buffer.splits)
  from conn_ready_put [OF assms st(1) ob(2) this] flush_and_arm
  show ?thesis
    using st ob by (fastforce simp: op_done_def Connection_Send_def conn_stream_def)
qed

lemma SendFile_done:
  assumes "conn_ready os v c a f sf (length h + m) s" and "write_armed v c f s" and "op_small (kv_data v) (SendFileOp h fname)"
  shows "op_done os v c a f sf m (kv_sent v (world s) @ conn_stream v c s @ op_bytes (kv_data v) sf (SendFileOp h fname))
     (SendFile os c h fname s)"
proof -
  from assms(1) obtain cn where st: "conns s c = Some cn" "\<not> shut_down cn" "conn_send_file cn = sf"
    "sf \<longleftrightarrow> (\<exists>fb. write_buffer cn = Files fb)"
    and ok: "out_ok os f (kv_sent v) (kv_fdata v) (kv_data v) (\<lambda>w. kv_iset v w f) (length h + m) (world s) (write_buffer cn)"
    unfolding conn_ready_def by blast
  show ?thesis
  proof (cases sf)
    case False
    then show ?thesis
      using st assms conn_ready_less [OF assms(1)] by (simp add: op_done_def SendFile_def)
  next
    case True
    then obtain fb where fb: "write_buffer cn = Files fb" using st(4) by blast
    let ?fb = "Files (AddFile h fname fb)"
    have "\<forall>d. fname \<noteq> [] \<and> kv_data v fname = Some d \<longrightarrow> length d < 2 ^ 31" using assms(3) by auto
    note af = AddFile_stream [of h m "kv_data v" _ _ fname, OF _ this]
    have new: "out_ok os f (kv_sent v) (kv_fdata v) (kv_data v) (\<lambda>w. kv_iset v w f) m (world s) ?fb"
      "out_stream (kv_data v) (kv_fdata v) (world s) ?fb = out_stream (kv_data v) (kv_fdata v) (world s) (Files fb) @
         entry_bytes (kv_data v) \<lparr>header = h, filename = fname\<rparr>"
      using ok af [of "\<lambda>g. kv_fdata v g (world s)" fb] by (simp_all add: fb out_ok_def out_stream_def files_ok_def)
    from conn_ready_put [OF assms(1) st(1) new(1)] flush_and_arm
    show ?thesis
      using st True fb new(2) by (fastforce simp: op_done_def SendFile_def conn_stream_def)
  qed
qed

lemma OnWriteCallback_done:
  assumes "conn_ready os v c a f sf m s"
  shows "op_done os v c a f sf m (kv_sent v (world s) @ conn_stream v c s) (OnWriteCallback os user c s)"
proof -
  have "OnWriteCallback os user c s = obind (Connection_WriteBuffer os c s) (\<lambda>(r, s'). Some (Connection_EnableWrite os c r s'))"
    using Connection_WriteBuffer_ready [OF assms]
    by (auto simp: OnWriteCallback_plain user_call_def conn_ready_def)
  then show ?thesis using flush_and_arm [OF assms] by (simp add: op_done_def)
qed

lemma conn_do_done:
  assumes "conn_ready os v c a f sf (op_room op + m) s" and "write_armed v c f s" and "op_small (kv_data v) op"
  shows "op_done os v c a f sf m (kv_sent v (world s) @ conn_stream v c s @ op_bytes (kv_data v) sf op) (conn_do os user c op s)"
proof (cases op)
  case (SendFileOp h fname)
  then show ?thesis using SendFile_done [of os v c a f sf h m s fname] assms by simp
qed (use assms Connection_Send_done OnWriteCallback_done [of os v c a f sf m s user] in simp_all)

lemma conn_run_done:
  assumes "conn_ready os v c a f sf (sum_list (map op_room ops) + m) s" and "write_armed v c f s"
    and "\<forall>op\<in>set ops. op_small (kv_data v) op"
  shows "op_done os v c a f sf m
     (kv_sent v (world s) @ conn_stream v c s @ concat (map (op_bytes (kv_data v) sf) ops)) (conn_run os user c ops s)"
  using assms
proof (induction ops arbitrary: s)
  case Nil
  then show ?case by (simp add: op_done_def)
next
  case (Cons op ops)
  have "op_done os v c a f sf (sum_list (map op_room ops) + m)
      (kv_sent v (world s) @ conn_stream v c s @ op_bytes (kv_data v) sf op) (conn_do os user c op s)"
    using Cons.prems by (intro conn_do_done) (simp_all add: add.assoc)
  then show ?case
    unfolding op_done_def [of _ _ _ _ _ _ "_ + m"]
  proof (elim disjE exE conjE)
    fix s1
    assume s1: "conn_do os user c op s = Some (Inr s1)"
      "conn_ready os v c a f sf (sum_list (map op_room ops) + m) s1" "write_armed v c f s1"
      and k: "kv_sent v (world s1) @ conn_stream v c s1 = kv_sent v (world s) @ conn_stream v c s @ op_bytes (kv_data v) sf op"
    have e: "kv_sent v (world s1) @ conn_stream v c s1 @ concat (map (op_bytes (kv_data v) sf) ops) =
        kv_sent v (world s) @ conn_stream v c s @ concat (map (op_bytes (kv_data v) sf) (op # ops))"
      using arg_cong [OF k, of "\<lambda>x. x @ concat (map (op_bytes (kv_data v) sf) ops)"] by simp
    then show ?thesis
      using Cons.IH [OF s1(2,3), unfolded e] Cons.prems(3) s1(1) by simp
  qed (simp add: op_done_def)
qed

text \<open>A new connection is ready once \<open>Init\<close> has returned.\<close>

lemma Connection_Init_ready:
  fixes s :: "('u, 'w, 'z) net_scheme"
  assumes "conn_kernel os v f (poll_fd l)" and "loops s lp = Some l" and "kv_iset v (world s) f = None"
    and "Connection_Init os c (Connection_new lp f sf c a s) = Inr s1" and "m < 2 ^ 32"
  shows "conn_ready os v c a f sf m s1" and "write_armed v c f s1" and "conn_stream v c s1 = []"
    and "kv_sent v (world s1) = kv_sent v (world s)"
proof -
  define cn :: "'u connection" where "cn = \<lparr>conn_channel = a, on_read = None, on_write = None, on_close = None, read_buffer = Buffer_new,
    write_buffer = (if sf then Files FileBuffer_new else Plain Buffer_new), shut_down = False, conn_send_file = sf\<rparr>"
  define ch :: "'u net_cb channel" where "ch = SetEpollEdgeTriggered True (Channel_new (Some lp) f)"
  define s0 where "s0 = set_chan a ch (Connection_new lp f sf c a s)"
  have s0: "chans s0 a = Some ch" "loops s0 lp = Some l" "conns s0 c = Some cn" "world s0 = world s"
    "ch_fd ch = f" "ch_loop ch = Some lp" "IsWriting ch"
    using assms(2) by (simp_all add: s0_def ch_def cn_def Connection_new_def SetEpollEdgeTriggered_def Channel_new_def IsWriting_def poll_bits)
  have tr: "epoll_tracks os (poll_fd l) (kv_iset v) (\<lambda>w. (kv_sent v w, \<lambda>g. kv_fdata v g w))"
    using assms(1) by (simp add: conn_kernel_def)
  have cn0: "conns (Connection_new lp f sf c a s) c = Some cn" "chans (Connection_new lp f sf c a s) a = Some (Channel_new (Some lp) f)"
    by (simp_all add: Connection_new_def cn_def)
  have "sbind (UpdateChannel os lp a EPOLL_CTL_ADD s0) (SetChannelCallbacks c) = Inr s1"
    using assms(4) s0 cn0
    by (simp add: Connection_Init_def UpdateToLoop_def s0_def ch_def cn_def)
  moreover obtain w n where u: "UpdateChannel os lp a EPOLL_CTL_ADD s0 = Inr (set_world w (set_loop lp (l\<lparr>cur_poll_size := n\<rparr>) s0))"
    "(kv_sent v w, \<lambda>g. kv_fdata v g w) = (kv_sent v (world s), \<lambda>g. kv_fdata v g (world s))"
    "kv_iset v w = (kv_iset v (world s))(f \<mapsto> (events ch, a))"
    using calculation UpdateChannel_registers [OF s0(1,2) tr, of EPOLL_CTL_ADD] assms(3) s0 by (auto simp: sbind_Inr)
  ultimately have s1: "s1 = set_chan a (ch\<lparr>read_callback := Some (Client (ConnRead c)), write_callback := Some (Client (ConnWrite c)),
             close_callback := Some (Client (ConnClose c)), error_callback := Some (Client (ConnClose c))\<rparr>)
             (set_world w (set_loop lp (l\<lparr>cur_poll_size := n\<rparr>) s0))"
    using s0 by (simp add: SetChannelCallbacks_def cn_def)
  have "out_ok os f (kv_sent v) (kv_fdata v) (kv_data v) (\<lambda>w. kv_iset v w f) m w (write_buffer cn)"
    using assms(1,5)
    by (auto simp: cn_def out_ok_def plain_ok_def files_ok_def conn_kernel_def socket_kernel_def fb_ok_def
        FileBuffer_new_def unsent_entries_def header_bytes_def)
  then show "conn_ready os v c a f sf m s1"
    using s0 s1 u(3) assms(1,2) by (auto simp: conn_ready_def cn_def)
  show str: "conn_stream v c s1 = []"
    using s0 s1 by (simp add: conn_stream_def cn_def out_stream_def fb_stream_def FileBuffer_new_def)
  then show "write_armed v c f s1" by (simp add: write_armed_def)
  show "kv_sent v (world s1) = kv_sent v (world s)" using s1 u(2) by simp
qed

text \<open>
  Property C2. A connection that has been set up by \<open>Init\<close> sends what it is given: after any sequence of
  \<open>Send\<close>, \<open>SendFile\<close> and write events (with either class of output buffer, and no write callback
  set), the bytes the socket has taken followed by the bytes still buffered are the messages,
  headers and file contents in the order of the calls. As long as bytes are buffered, the kernel's
  entry for the descriptor asks for write events and carries the connection's channel, so that the
  rest is not left behind. A call returns or ends the process.
\<close>

theorem connection_sends_in_order:
  assumes "conn_kernel os v f (poll_fd l)" and "loops s lp = Some l" and "kv_iset v (world s) f = None"
    and "Connection_Init os c (Connection_new lp f sf c a s) = Inr s1"
    and "sum_list (map op_room ops) < 2 ^ 32" and "\<forall>op\<in>set ops. op_small (kv_data v) op"
  shows "(\<exists>x. conn_run os user c ops s1 = Some (Inl (EXIT x))) \<or>
     (\<exists>s2. conn_run os user c ops s1 = Some (Inr s2) \<and>
        kv_sent v (world s2) @ conn_stream v c s2 = kv_sent v (world s) @ concat (map (op_bytes (kv_data v) sf) ops) \<and>
        (conn_stream v c s2 \<noteq> [] \<longrightarrow>
           (\<exists>evts. kv_iset v (world s2) f = Some (evts, a) \<and> evts AND kPollOut \<noteq> 0)))"
proof -
  note i = Connection_Init_ready [OF assms(1-4), of "sum_list (map op_room ops) + 0"]
  have "op_done os v c a f sf 0 (kv_sent v (world s) @ concat (map (op_bytes (kv_data v) sf) ops)) (conn_run os user c ops s1)"
    using conn_run_done [OF i(1,2) assms(6), of user] i(3,4) assms(5) by simp
  then show ?thesis
    unfolding op_done_def
    by (elim disjE exE conjE) (auto simp: write_armed_def conn_ready_def)
qed

definition sample_loop :: "'c event_loop" where
  "sample_loop = \<lparr>poll_fd = 22, cur_poll_size = 2, pipe_fds = (20, 21), pipe_channel = 0, wakeup_callback = None,
     loop_running = True, pending_tasks = []\<rparr>"

definition sample_net :: "string \<Rightarrow> nat \<Rightarrow> (nat, sample_kernel) net" where
  "sample_net inp n = \<lparr>chans = Map.empty, loops = [1 \<mapsto> sample_loop], world = sample_world inp n, conns = Map.empty\<rparr>"

definition sample_view :: "sample_kernel kernel_view" where
  "sample_view = \<lparr>kv_sent = accepted, kv_fdata = (\<lambda>g w. sample_file), kv_data = sample_data, kv_iset = epoll_set\<rparr>"

lemma sample_conn_kernel: "f \<noteq> 0 \<Longrightarrow> f \<noteq> 9 \<Longrightarrow> conn_kernel sample_posix sample_view f ep"
  using sample_epoll_tracks [of ep]
  by (auto simp: conn_kernel_def socket_kernel_def sample_view_def sample_write_accepts sample_files sample_io_keeps epoll_tracks_def)

lemmas sample_eval = sample_posix_def sample_write_def sample_read_def sample_epoll_ctl_def sample_world_def sample_net_def
  sample_loop_def set_conn_def set_chan_def set_loop_def set_world_def get_conn_def get_chan_def get_loop_def

definition sample_init :: "bool \<Rightarrow> string \<Rightarrow> nat \<Rightarrow> (nat, sample_kernel) net res" where
  "sample_init sf inp n = Connection_Init sample_posix 2 (Connection_new 1 4 sf 2 3 (sample_net inp n))"

lemmas sample_init_eval = sample_init_def Connection_Init_def Connection_new_def UpdateToLoop_def UpdateChannel_def
  SetChannelCallbacks_def SetEpollEdgeTriggered_def Channel_new_def sample_eval

lemma sample_init_returns: "\<exists>s1. sample_init False inp n = Inr s1"
  by (simp add: sample_init_eval)

lemma sample_conn_run:
  assumes "sample_init False [] 4 = Inr s1"
  shows "\<exists>s2. conn_run sample_posix user 2 [SendOp ''hello'', WritableOp] s1 = Some (Inr s2) \<and> accepted (world s2) = ''hell''"
  using assms
  by (auto simp: sample_init_eval Connection_Send_def Connection_WriteBuffer_def Connection_EnableWrite_def Channel_EnableWrite_def
      IBuffer_Write_def IBuffer_WriteBufferToFd_def WriteBufferToFd.simps Buffer_Write_def Buffer_new_def Buffer_Peek_def
      HaveRead_def ReadableBytes_def kWriteBufferSize_def OnWriteCallback_plain user_call_def Let_def)

theorem connection_sends_in_order_witness:
  "\<exists>s1 s2. sample_init False [] 4 = Inr s1 \<and> conn_run sample_posix (\<lambda>_ _ s. Some (Inr s)) 2 [SendOp ''hello'', WritableOp] s1 = Some (Inr s2) \<and>
     accepted (world s2) = ''hell'' \<and> conn_stream sample_view 2 s2 = ''o'' \<and>
     (\<exists>evts. epoll_set (world s2) 4 = Some (evts, 3) \<and> evts AND kPollOut \<noteq> 0)"
proof -
  obtain s1 where s1: "sample_init False [] 4 = Inr s1" using sample_init_returns by blast
  obtain s2 where s2: "conn_run sample_posix (\<lambda>_ _ s. Some (Inr s)) 2 [SendOp ''hello'', WritableOp] s1 = Some (Inr s2)"
    "accepted (world s2) = ''hell''"
    using sample_conn_run [OF s1] by blast
  have "conn_kernel sample_posix sample_view 4 (poll_fd (sample_loop :: nat net_cb event_loop))" by (rule sample_conn_kernel) simp_all
  moreover have "loops (sample_net [] 4) 1 = Some sample_loop" "kv_iset sample_view (world (sample_net [] 4)) 4 = None"
    "kv_sent sample_view (world (sample_net [] 4)) = []"
    by (simp_all add: sample_net_def sample_view_def sample_world_def)
  ultimately have "''hell'' @ conn_stream sample_view 2 s2 = ''hell'' @ ''o'' \<and>
      (conn_stream sample_view 2 s2 \<noteq> [] \<longrightarrow> (\<exists>evts. epoll_set (world s2) 4 = Some (evts, 3) \<and> evts AND kPollOut \<noteq> 0))"
    using connection_sends_in_order [of sample_posix sample_view 4 sample_loop "sample_net [] 4" 1 2 False 3 s1
        "[SendOp ''hello'', WritableOp]" "\<lambda>_ _ s. Some (Inr s)"] s1 s2
    by (simp add: sample_init_def) (simp add: sample_view_def)
  then have "conn_stream sample_view 2 s2 = ''o'' \<and> (\<exists>evts. epoll_set (world s2) 4 = Some (evts, 3) \<and> evts AND kPollOut \<noteq> 0)"
    unfolding same_append_eq by (metis list.distinct(1))
  then show ?thesis using s1 s2 by blast
qed

end
