(* ===== verification/Codec_Connection.thy ===== *)
theory Codec_Connection
  imports Tcp_Connection Wire_Codec
begin

text \<open>
  A codec on a connection, as the sample programs use it: messages go out through \<open>Codec::Send\<close>, and
  \<open>Codec::OnMessage\<close> is the connection's read callback, working on the connection's read buffer. The
  state is extended by what the message handler has made of the messages so far.
\<close>

record ('u, 'w, 'h) app = "('u, 'w) net" +
  handled :: 'h

definition Codec_Send ::
  "'w posix \<Rightarrow> crc_fn \<Rightarrow> byte_order \<Rightarrow> ('m \<Rightarrow> string res) \<Rightarrow> addr \<Rightarrow> 'm \<Rightarrow> ('u, 'w, 'z) net_scheme \<Rightarrow> ('u, 'w, 'z) net_scheme res option" where
  "Codec_Send os crc32 e ComposeMessage c m s =
     obind (Some (Encapsulate crc32 e ComposeMessage m)) (\<lambda>packet. Connection_Send os c packet s)"

definition codec_callback ::
  "crc_fn \<Rightarrow> byte_order \<Rightarrow> (string \<Rightarrow> 'h \<Rightarrow> 'h res) \<Rightarrow> addr \<Rightarrow> ('u, 'w, 'h) app \<Rightarrow> ('u, 'w, 'h) app res option" where
  "codec_callback crc32 e handle c s =
     obind (Some (get_conn c s)) (\<lambda>cn.
     obind (OnMessage crc32 e handle (read_buffer cn) (handled s)) (\<lambda>(h, b).
       Some (Inr (set_conn c (cn\<lparr>read_buffer := b\<rparr>) (s\<lparr>handled := h\<rparr>)))))"

text \<open>
  Read events of a connection. Before each of them the network may have changed the kernel's state;
  the list holds these changes.
\<close>

fun read_events ::
  "'w posix \<Rightarrow> ('u, 'w, 'z) user_code \<Rightarrow> addr \<Rightarrow> ('w \<Rightarrow> 'w) list \<Rightarrow> ('u, 'w, 'z) net_scheme \<Rightarrow> ('u, 'w, 'z) net_scheme res option" where
  "read_events os user c [] s = Some (Inr s)"
| "read_events os user c (g # gs) s =
     obind (OnReadCallback os user c (set_world (g (world s)) s)) (read_events os user c gs)"

section \<open>Receiving\<close>

text \<open>
  The network delivers a prefix of \<open>wire\<close> at the descriptor, and the calls on sockets other than
  reading do not change what has been delivered.
\<close>

definition carries :: "'w posix \<Rightarrow> fd \<Rightarrow> ('w \<Rightarrow> string) \<Rightarrow> ('w \<Rightarrow> nat) \<Rightarrow> string \<Rightarrow> bool" where
  "carries os f recv avail wire \<longleftrightarrow>
     read_delivers os f recv avail \<and>
     (\<forall>w. (\<exists>t. wire = recv w @ t) \<and> length (recv w) + avail w \<le> length wire) \<and>
     (\<forall>w. recv (sys_shutdown_write os f w) = recv w \<and> recv (sys_shutdown_read os f w) = recv w) \<and>
     (\<forall>ep op g ev w. recv (snd (sys_epoll_ctl os ep op g ev w)) = recv w)"

lemma carriesD:
  assumes "carries os f recv avail wire"
  shows "read_delivers os f recv avail" and "\<exists>t. wire = recv w @ t" and "length (recv w) + avail w \<le> length wire"
    and "recv (socket_shutdown_write os f w) = recv w" and "recv (socket_shutdown_read os f w) = recv w"
    and "recv (snd (sys_epoll_ctl os ep op g ev w)) = recv w"
  using assms unfolding carries_def by (simp_all add: socket_shutdown_write_def socket_shutdown_read_def del: split_paired_All)

text \<open>
  The state of a receiving connection: what its handler has done is the effect of the packets in a
  prefix \<open>p\<close> of the bytes delivered; until it is shut down the prefix is everything that was
  delivered, and its read buffer holds the incomplete packet at the end.
\<close>

definition receiving ::
  "'w posix \<Rightarrow> fd \<Rightarrow> ('w \<Rightarrow> string) \<Rightarrow> ('w \<Rightarrow> nat) \<Rightarrow> string \<Rightarrow> crc_fn \<Rightarrow> (string \<Rightarrow> 'h \<Rightarrow> 'h) \<Rightarrow> 'h \<Rightarrow> 'u \<Rightarrow> addr \<Rightarrow>
     ('u, 'w, 'h) app \<Rightarrow> bool" where
  "receiving os f recv avail wire crc32 h h0 u c s \<longleftrightarrow>
     (\<exists>cn ch lp l p. conns s c = Some cn \<and> chans s (conn_channel cn) = Some ch \<and> ch_fd ch = f \<and> ch_loop ch = Some lp \<and>
        loops s lp = Some l \<and> on_read cn = Some u \<and> on_close cn = None \<and>
        (\<exists>t. recv (world s) = p @ t) \<and> handled s = fold h (fst (wire.frames crc32 p)) h0 \<and>
        (\<not> shut_down cn \<longrightarrow> p = recv (world s) \<and> content (read_buffer cn) = snd (wire.frames crc32 p) \<and>
           buffer_ok (read_buffer cn) \<and> (\<forall>n. length p + n < 2 ^ 32 \<longrightarrow> room (read_buffer cn) n)))"

lemma net_updates:
  "set_conn c cn (set_world w s) = set_world w (set_conn c cn s)" "set_conn c cn (set_conn c cn' s) = set_conn c cn s"
  "set_world w (set_world w' s) = set_world w s"
  by (cases s; simp add: set_conn_def set_world_def)+

lemma app_selectors [simp]:
  "handled (set_conn c cn s) = handled s" "handled (set_chan a ch s) = handled s"
  "handled (set_loop lp l s) = handled s" "handled (set_world w s) = handled s"
  by (simp_all add: set_conn_def set_chan_def set_loop_def set_world_def)

text \<open>
  The read callback takes the packets off the buffer: where the buffer holds what \<open>frames\<close> left of the
  bytes \<open>p\<close> and the new bytes \<open>bs\<close>, it holds afterwards what is left of \<open>p @ bs\<close>.
\<close>

lemma after_read_codec:
  assumes user: "\<forall>s. user u c s = codec_callback crc32 e (\<lambda>q x. Inr (h q x)) c s"
    and s: "conns s c = Some cn" "on_read cn = Some u" "handled s = fold h (fst (wire.frames crc32 p)) h0"
    and b: "buffer_ok (read_buffer cn)" "content (read_buffer cn) = snd (wire.frames crc32 p) @ bs"
    and inc: "incomplete (snd (wire.frames crc32 (p @ bs)))"
  shows "\<exists>rb. buffer_ok rb \<and> content rb = snd (wire.frames crc32 (p @ bs)) \<and> (\<forall>n. room (read_buffer cn) n \<longrightarrow> room rb n) \<and>
     after_read os user c s =
       (let s' = set_conn c (cn\<lparr>read_buffer := rb\<rparr>) (s\<lparr>handled := fold h (fst (wire.frames crc32 (p @ bs))) h0\<rparr>) in
        if shut_down cn \<and> IBuffer_Empty (write_buffer cn) then Some (Connection_Close os c s') else Some (Inr s'))"
proof (cases "content (read_buffer cn) = []")
  case True
  then have bs: "bs = []" and e: "Buffer_Empty (read_buffer cn)"
    using b Buffer_Empty_iff [of "read_buffer cn"] by simp_all
  then have "set_conn c (cn\<lparr>read_buffer := read_buffer cn\<rparr>) (s\<lparr>handled := fold h (fst (wire.frames crc32 (p @ bs))) h0\<rparr>) = s"
    using s by (simp add: set_conn_def fun_upd_idem flip: s(3))
  then show ?thesis
    using b bs e s by (intro exI [of _ "read_buffer cn"]) (simp add: after_read_def Let_def)
next
  case False
  have "wire.frames crc32 (p @ bs) =
      (fst (wire.frames crc32 p) @ fst (wire.frames crc32 (content (read_buffer cn))), snd (wire.frames crc32 (content (read_buffer cn))))"
    using wire.frames_append [of crc32 p bs] b(2) by simp
  then have f: "fst (wire.frames crc32 (p @ bs)) = fst (wire.frames crc32 p) @ fst (wire.frames crc32 (content (read_buffer cn)))"
    "snd (wire.frames crc32 (p @ bs)) = snd (wire.frames crc32 (content (read_buffer cn)))" by simp_all
  obtain rb where rb: "OnMessage crc32 e (\<lambda>q x. Inr (h q x)) (read_buffer cn) (handled s)
      = Some (Inr (fold h (fst (wire.frames crc32 (content (read_buffer cn)))) (handled s), rb))"
    "buffer_ok rb" "content rb = snd (wire.frames crc32 (content (read_buffer cn)))" "\<forall>n. room (read_buffer cn) n \<longrightarrow> room rb n"
    using OnMessage_frames [OF b(1) inc [unfolded f(2)], of "\<lambda>q x. Inr (h q x)" h e "handled s"] by blast
  have "\<not> Buffer_Empty (read_buffer cn)" using False b(1) Buffer_Empty_iff by blast
  then have "after_read os user c s =
       (let s' = set_conn c (cn\<lparr>read_buffer := rb\<rparr>) (s\<lparr>handled := fold h (fst (wire.frames crc32 (p @ bs))) h0\<rparr>) in
        if shut_down cn \<and> IBuffer_Empty (write_buffer cn) then Some (Connection_Close os c s') else Some (Inr s'))"
    using s rb(1) user by (simp add: after_read_def user_call_def codec_callback_def Let_def f(1))
  then show ?thesis using rb f by auto
qed

text \<open>What the connection's own calls do to the state when it closes: only the kernel's part and the poller's count change.\<close>

lemma Connection_Close_world:
  assumes "conns s c = Some cn" and "chans s (conn_channel cn) = Some ch"
  shows "Connection_Close os c s =
     Inr (set_world (socket_shutdown_write os (ch_fd ch) (socket_shutdown_read os (ch_fd ch) (world s))) s)"
  using assms by (simp add: Connection_Close_def Channel_ShutDownRead_def Channel_ShutDownWrite_def) (simp add: set_world_def)

lemma OnCloseCallback_world:
  assumes "conns s c = Some cn" and "chans s (conn_channel cn) = Some ch" and "ch_loop ch = Some lp" and "loops s lp = Some l"
    and "on_close cn = None"
  shows "(\<exists>x. OnCloseCallback os user c s = Some (Inl (EXIT x))) \<or>
     (\<exists>n w r. OnCloseCallback os user c s = Some (Inr (set_world w (set_loop lp (l\<lparr>cur_poll_size := n\<rparr>) s))) \<and>
        sys_epoll_ctl os (poll_fd l) EPOLL_CTL_DEL (ch_fd ch) (0, 0) (socket_shutdown_write os (ch_fd ch) (world s)) = (r, w))"
proof -
  let ?w = "socket_shutdown_write os (ch_fd ch) (world s)"
  obtain r w where k: "sys_epoll_ctl os (poll_fd l) EPOLL_CTL_DEL (ch_fd ch) (0, 0) ?w = (r, w)" by fastforce
  have id: "set_loop lp l s = s"
    using assms(4) by (simp add: set_loop_def fun_upd_idem)
  have w2: "set_world w (set_loop lp l' (set_world ?w s)) = set_world w (set_loop lp l' s)" "set_world w (set_world ?w s) = set_world w s" for l'
    by (simp_all add: set_world_def set_loop_def)
  have on: "OnCloseCallback os user c s = Some (RemoveChannel os lp (ch_fd ch) (set_world ?w s))"
    using assms by (simp add: OnCloseCallback_def Channel_ShutDownWrite_def RemoveFromLoop_def user_call_def)
      (cases "RemoveChannel os lp (ch_fd ch) (set_world ?w s)"; simp)
  show ?thesis
  proof (cases r)
    case (Ret u)
    then show ?thesis using k w2 assms(4) by (auto simp: on RemoveChannel_def)
  next
    case (Err e)
    then show ?thesis
    proof (cases "e = ENOENT")
      case True
      then have "OnCloseCallback os user c s = Some (Inr (set_world w (set_loop lp (l\<lparr>cur_poll_size := cur_poll_size l\<rparr>) s)))"
        using k w2 assms(4) Err by (simp add: on RemoveChannel_def id)
      then show ?thesis using k by blast
    qed (use k assms(4) Err in \<open>simp add: on RemoveChannel_def\<close>)
  qed
qed

lemma receiving_world:
  assumes "receiving os f recv avail wire crc32 h h0 u c s" and "recv w = recv (world s)"
  shows "receiving os f recv avail wire crc32 h h0 u c (set_world w s)"
  using assms unfolding receiving_def by (auto simp: set_world_def)

lemma read_event_receiving:
  assumes car: "carries os f recv avail wire" and inc: "incomplete (snd (wire.frames crc32 wire))" and len: "length wire < 2 ^ 32"
    and user: "\<forall>s. user u c s = codec_callback crc32 e (\<lambda>q x. Inr (h q x)) c s"
    and s: "receiving os f recv avail wire crc32 h h0 u c s"
  shows "(\<exists>x. OnReadCallback os user c s = Some (Inl (EXIT x))) \<or>
     (\<exists>s'. OnReadCallback os user c s = Some (Inr s') \<and> receiving os f recv avail wire crc32 h h0 u c s')"
proof -
  from s obtain cn ch lp l p where st: "conns s c = Some cn" "chans s (conn_channel cn) = Some ch" "ch_fd ch = f" "ch_loop ch = Some lp"
    "loops s lp = Some l" "on_read cn = Some u" "on_close cn = None" "handled s = fold h (fst (wire.frames crc32 p)) h0"
    and live: "\<not> shut_down cn \<longrightarrow> p = recv (world s) \<and> content (read_buffer cn) = snd (wire.frames crc32 p) \<and>
           buffer_ok (read_buffer cn) \<and> (\<forall>n. length p + n < 2 ^ 32 \<longrightarrow> room (read_buffer cn) n)"
    unfolding receiving_def by blast
  show ?thesis
  proof (cases "shut_down cn")
    case True
    then show ?thesis using st s by (simp add: OnReadCallback_plain)
  next
    case False
    with live have p: "p = recv (world s)" and b: "content (read_buffer cn) = snd (wire.frames crc32 p)" "buffer_ok (read_buffer cn)"
      and rm: "\<And>n. length p + n < 2 ^ 32 \<Longrightarrow> room (read_buffer cn) n" by blast+
    have "room (read_buffer cn) (avail (world s))"
      using carriesD(3) [OF car, of "world s"] len p by (intro rm) simp
    from ReadBufferFromFd_loop [OF carriesD(1) [OF car] b(2) this] show ?thesis
    proof (elim disjE exE conjE)
      assume "ReadBufferFromFd os f (read_buffer cn) (world s) = Some (Inl (EXIT ''[Buffer] read''))"
      then show ?thesis using st False by (simp add: OnReadCallback_plain Connection_ReadBuffer_def)
    next
      fix r rb w bs
      assume rd: "ReadBufferFromFd os f (read_buffer cn) (world s) = Some (Inr (r, rb, w))"
        and r: "r \<in> {Ret 0, Err EAGAIN, Err ECONNRESET}" and w: "recv w = recv (world s) @ bs"
        and rb: "content rb = content (read_buffer cn) @ bs" "buffer_ok rb" "\<forall>n. room (read_buffer cn) (length bs + n) \<longrightarrow> room rb n"
      have pbs: "recv w = p @ bs" using w p by simp
      have inc': "incomplete (snd (wire.frames crc32 (p @ bs)))"
        using carriesD(2) [OF car, of w] frames_prefix_incomplete [of crc32 "p @ bs"] inc pbs by metis
      have rm': "room rb n" if "length (p @ bs) + n < 2 ^ 32" for n
        using that rm [of "length bs + n"] rb(3) by (simp add: add.assoc)
      let ?cn = "\<lambda>fin. cn\<lparr>read_buffer := rb, shut_down := fin\<rparr>"
      let ?s1 = "\<lambda>fin. set_world w (set_conn c (?cn fin) s)"
      have ar: "(\<exists>s'. after_read os user c (?s1 fin) = Some (Inr s') \<and> receiving os f recv avail wire crc32 h h0 u c s')" for fin
      proof -
        obtain rb' where rb': "buffer_ok rb'" "content rb' = snd (wire.frames crc32 (p @ bs))" "\<forall>n. room rb n \<longrightarrow> room rb' n"
          "after_read os user c (?s1 fin) =
             (let s' = set_conn c (?cn fin\<lparr>read_buffer := rb'\<rparr>) (?s1 fin\<lparr>handled := fold h (fst (wire.frames crc32 (p @ bs))) h0\<rparr>) in
              if fin \<and> IBuffer_Empty (write_buffer cn) then Some (Connection_Close os c s') else Some (Inr s'))"
          using after_read_codec [of user u c crc32 e h "?s1 fin" "?cn fin" p h0 bs os, OF user] st rb b inc' by auto
        let ?s2 = "set_conn c (?cn fin\<lparr>read_buffer := rb'\<rparr>) (?s1 fin\<lparr>handled := fold h (fst (wire.frames crc32 (p @ bs))) h0\<rparr>)"
        have rec: "receiving os f recv avail wire crc32 h h0 u c ?s2"
          using st rb' rm' pbs unfolding receiving_def
          by (intro exI [of _ "?cn fin\<lparr>read_buffer := rb'\<rparr>"] exI [of _ ch] exI [of _ lp] exI [of _ l] exI [of _ "p @ bs"])
            (auto simp: set_conn_def set_world_def)
        show ?thesis
        proof (cases "fin \<and> IBuffer_Empty (write_buffer cn)")
          case True
          have "Connection_Close os c ?s2 =
              Inr (set_world (socket_shutdown_write os (ch_fd ch) (socket_shutdown_read os (ch_fd ch) (world ?s2))) ?s2)"
            using st by (intro Connection_Close_world [of _ c "?cn fin\<lparr>read_buffer := rb'\<rparr>"]) (simp_all add: set_conn_def set_world_def)
          then show ?thesis
            using rb'(4) True receiving_world [OF rec] carriesD(4,5) [OF car] st(3) by (auto simp: Let_def)
        qed (use rb'(4) rec in \<open>auto simp: Let_def\<close>)
      qed
      show ?thesis
      proof (cases "r = Err ECONNRESET")
        case True
        have "recv (socket_shutdown_write os (ch_fd ch) w) = p @ bs"
          using carriesD(4) [OF car] st(3) pbs by simp
        then have "recv w' = p @ bs" if "sys_epoll_ctl os ep op g ev (socket_shutdown_write os (ch_fd ch) w) = (r', w')" for ep op g ev r' w'
          using carriesD(6) [OF car, of ep op g ev "socket_shutdown_write os (ch_fd ch) w"] that by simp
        moreover have "OnReadCallback os user c s = OnCloseCallback os user c (?s1 True)"
          using st False rd True
          by (simp add: OnReadCallback_plain Connection_ReadBuffer_def set_shut_down_def net_updates)
        moreover have "(\<exists>x. OnCloseCallback os user c (?s1 True) = Some (Inl (EXIT x))) \<or>
            (\<exists>n w' r'. OnCloseCallback os user c (?s1 True) = Some (Inr (set_world w' (set_loop lp (l\<lparr>cur_poll_size := n\<rparr>) (?s1 True)))) \<and>
              sys_epoll_ctl os (poll_fd l) EPOLL_CTL_DEL (ch_fd ch) (0, 0) (socket_shutdown_write os (ch_fd ch) w) = (r', w'))"
          using OnCloseCallback_world [of "?s1 True" c "?cn True" ch lp l os user] st by simp
        moreover have "receiving os f recv avail wire crc32 h h0 u c (set_world w' (set_loop lp (l\<lparr>cur_poll_size := n\<rparr>) (?s1 True)))"
          if "recv w' = p @ bs" for n w'
          using st that unfolding receiving_def by auto
        ultimately show ?thesis by metis
      next
        case False
        have same: "?cn False = cn\<lparr>read_buffer := rb\<rparr>" using \<open>\<not> shut_down cn\<close> by (cases cn) simp
        have "OnReadCallback os user c s = after_read os user c (?s1 (r = Ret 0))"
          using st \<open>\<not> shut_down cn\<close> rd r False
          by (auto simp: OnReadCallback_plain Connection_ReadBuffer_def set_shut_down_def net_updates same)
        then show ?thesis using ar by simp
      qed
    qed
  qed
qed

lemma read_events_receiving:
  assumes "carries os f recv avail wire" and "incomplete (snd (wire.frames crc32 wire))" and "length wire < 2 ^ 32"
    and "\<forall>s. user u c s = codec_callback crc32 e (\<lambda>q x. Inr (h q x)) c s"
    and "\<forall>g\<in>set gs. \<forall>w. recv (g w) = recv w"
  shows "receiving os f recv avail wire crc32 h h0 u c s \<Longrightarrow>
     (\<exists>x. read_events os user c gs s = Some (Inl (EXIT x))) \<or>
     (\<exists>s'. read_events os user c gs s = Some (Inr s') \<and> receiving os f recv avail wire crc32 h h0 u c s')"
  using assms(5)
proof (induction gs arbitrary: s)
  case (Cons g gs)
  have "receiving os f recv avail wire crc32 h h0 u c (set_world (g (world s)) s)"
    using receiving_world Cons.prems by fastforce
  from read_event_receiving [of os f recv avail wire crc32 user u c e h h0 "set_world (g (world s)) s", OF assms(1-4) this] show ?case
    using Cons.IH Cons.prems(2) by (elim disjE exE conjE) auto
qed simp

text \<open>
  The messages of a sender, cut at any byte: the packets in a prefix of the encapsulated messages are
  a prefix of the messages, and no packet is missing once all bytes are there.
\<close>

lemma frames_of_prefix:
  assumes "\<forall>m\<in>set raws. length m + 8 < 2 ^ 32" and "concat (map (wire_packet crc32) raws) = p @ t"
  shows "\<exists>k \<le> length raws. fst (wire.frames crc32 p) = take k raws" and "incomplete (snd (wire.frames crc32 p))"
    and "t = [] \<Longrightarrow> fst (wire.frames crc32 p) = raws"
proof -
  have nil: "wire_frame crc32 [] = None" by (simp add: wire_frame_def incomplete_def kHeaderLength_def)
  have all: "wire.frames crc32 (p @ t) = (raws, [])"
    using frames_packets [OF assms(1) nil] assms(2) by simp
  then have "raws = fst (wire.frames crc32 p) @ fst (wire.frames crc32 (snd (wire.frames crc32 p) @ t))"
    using wire.frames_append [of crc32 p t] by simp
  then have "fst (wire.frames crc32 p) = take (length (fst (wire.frames crc32 p))) raws \<and> length (fst (wire.frames crc32 p)) \<le> length raws"
    by (metis append_eq_conv_conj length_append le_add1)
  then show "\<exists>k \<le> length raws. fst (wire.frames crc32 p) = take k raws" by blast
  show "incomplete (snd (wire.frames crc32 p))"
    using frames_prefix_incomplete [of crc32 p t] all by (simp add: incomplete_def kHeaderLength_def)
  show "t = [] \<Longrightarrow> fst (wire.frames crc32 p) = raws" using all by simp
qed

section \<open>From one host to the other\<close>

datatype 'm codec_op = CodecSend 'm | CodecWritable

fun codec_run ::
  "'w posix \<Rightarrow> ('u, 'w, 'z) user_code \<Rightarrow> crc_fn \<Rightarrow> byte_order \<Rightarrow> ('m \<Rightarrow> string res) \<Rightarrow> addr \<Rightarrow> 'm codec_op list \<Rightarrow>
     ('u, 'w, 'z) net_scheme \<Rightarrow> ('u, 'w, 'z) net_scheme res option" where
  "codec_run os user crc32 e ComposeMessage c [] s = Some (Inr s)"
| "codec_run os user crc32 e ComposeMessage c (CodecSend m # ops) s =
     obind (Codec_Send os crc32 e ComposeMessage c m s) (codec_run os user crc32 e ComposeMessage c ops)"
| "codec_run os user crc32 e ComposeMessage c (CodecWritable # ops) s =
     obind (OnWriteCallback os user c s) (codec_run os user crc32 e ComposeMessage c ops)"

fun messages :: "'m codec_op list \<Rightarrow> 'm list" where
  "messages [] = []"
| "messages (CodecSend m # ops) = m # messages ops"
| "messages (CodecWritable # ops) = messages ops"

fun plain_op :: "crc_fn \<Rightarrow> ('m \<Rightarrow> string) \<Rightarrow> 'm codec_op \<Rightarrow> conn_op" where
  "plain_op crc32 payload (CodecSend m) = SendOp (wire_packet crc32 (payload m))"
| "plain_op crc32 payload CodecWritable = WritableOp"

text \<open>Sending messages through the codec is sending their packets through the connection.\<close>

lemma codec_run_conn_run:
  assumes "\<forall>m\<in>set (messages ops). ComposeMessage m = Inr (payload m)"
  shows "codec_run os user crc32 e ComposeMessage c ops = conn_run os user c (map (plain_op crc32 payload) ops)"
  using assms
  by (induction ops rule: messages.induct) (auto simp: Codec_Send_def intro!: ext)

lemma plain_op_bytes:
  "concat (map (op_bytes data sf \<circ> plain_op crc32 payload) ops) = concat (map (wire_packet crc32) (map payload (messages ops)))"
  "sum_list (map (op_room \<circ> plain_op crc32 payload) ops) = (\<Sum>m\<leftarrow>messages ops. 8 + length (payload m))"
  by (induction ops rule: messages.induct) simp_all

text \<open>The receiver after \<open>Init\<close> and with the codec as its read callback.\<close>

lemma receiver_ready:
  fixes r :: "('u, 'w, 'h) app"
  assumes "Connection_Init os c (Connection_new lp f sf c a r) = Inr r1" and "Connection_SetReadCallback c (Some u) r1 = Inr r2"
    and "loops r lp = Some l" and "carries os f recv avail wire" and "recv (world r) = []" and "handled r = h0"
  shows "receiving os f recv avail wire crc32 h h0 u c r2 \<and> recv (world r2) = []"
proof -
  define cn :: "'u connection" where "cn = \<lparr>conn_channel = a, on_read = None, on_write = None, on_close = None, read_buffer = Buffer_new,
    write_buffer = (if sf then Files FileBuffer_new else Plain Buffer_new), shut_down = False, conn_send_file = sf\<rparr>"
  define ch :: "'u net_cb channel" where "ch = SetEpollEdgeTriggered True (Channel_new (Some lp) f)"
  define s0 where "s0 = set_chan a ch (Connection_new lp f sf c a r)"
  have s0: "chans s0 a = Some ch" "loops s0 lp = Some l" "conns s0 c = Some cn" "world s0 = world r" "handled s0 = h0"
    "ch_fd ch = f" "ch_loop ch = Some lp"
    using assms(3,6) by (simp_all add: s0_def ch_def cn_def Connection_new_def SetEpollEdgeTriggered_def Channel_new_def)
  have cn0: "conns (Connection_new lp f sf c a r) c = Some cn" "chans (Connection_new lp f sf c a r) a = Some (Channel_new (Some lp) f)"
    by (simp_all add: Connection_new_def cn_def)
  have init: "sbind (UpdateChannel os lp a EPOLL_CTL_ADD s0) (SetChannelCallbacks c) = Inr r1"
    using assms(1) s0 cn0 by (simp add: Connection_Init_def UpdateToLoop_def s0_def ch_def cn_def)
  obtain res w where k: "sys_epoll_ctl os (poll_fd l) EPOLL_CTL_ADD f (events ch, a) (world r) = (res, w)" by fastforce
  then have rw: "recv w = []" using carriesD(6) [OF assms(4), of "poll_fd l" EPOLL_CTL_ADD f "(events ch, a)" "world r"] assms(5) by simp
  obtain l' where l': "UpdateChannel os lp a EPOLL_CTL_ADD s0 = Inr (set_world w (set_loop lp l' s0))"
  proof (cases res)
    case (Ret x)
    then show ?thesis using that k s0 by (simp add: UpdateChannel_def)
  next
    case (Err x)
    have "set_loop lp l s0 = s0" using s0(2) by (simp add: set_loop_def fun_upd_idem)
    then show ?thesis using that [of l] k s0 Err init by (auto simp: UpdateChannel_def split: if_splits)
  qed
  have nil: "wire.frames crc32 [] = ([], [])"
    by (intro wire.frames_None) (simp add: wire_frame_def incomplete_def kHeaderLength_def)
  let ?cn = "cn\<lparr>on_read := Some u\<rparr>"
  let ?ch = "ch\<lparr>read_callback := Some (Client (ConnRead c)), write_callback := Some (Client (ConnWrite c)),
             close_callback := Some (Client (ConnClose c)), error_callback := Some (Client (ConnClose c))\<rparr>"
  have "r2 = set_conn c ?cn (set_chan a ?ch (set_world w (set_loop lp l' s0)))"
    using init l' s0 assms(2) by (auto simp: SetChannelCallbacks_def Connection_SetReadCallback_def cn_def)
  then have "conns r2 c = Some ?cn" "chans r2 a = Some ?ch" "loops r2 lp = Some l'" "recv (world r2) = []" "handled r2 = h0"
    using s0 rw by simp_all
  moreover have "conn_channel ?cn = a" "on_read ?cn = Some u" "on_close ?cn = None" "read_buffer ?cn = Buffer_new"
    by (simp_all add: cn_def)
  ultimately show ?thesis
    unfolding receiving_def using s0(6,7) nil
    by (intro conjI exI [of _ ?cn] exI [of _ ?ch] exI [of _ lp] exI [of _ l'] exI [of _ "[]"]) auto
qed

text \<open>
  Property C1. Messages reach the other host. One host sets up a connection and sends messages through its
  codec, in any sequence of \<open>Codec::Send\<close> and write events; the other sets up a connection with the
  codec's \<open>OnMessage\<close> as its read callback and handles any number of read events, while the network
  delivers a prefix of the bytes the sender's socket has taken, cut in any way. Then the receiver's
  handler has been called with the first \<open>k\<close> payloads, once each and in the order of sending, for
  some \<open>k\<close>; and \<open>k\<close> is the number of all messages once the sender has nothing buffered, everything
  has been delivered and the receiver has not been shut down. The hosts may differ in byte order.
  The receiver's calls return or end the process.
\<close>

theorem codec_end_to_end:
  fixes s s1 s2 :: "('u, 'w, 'z) net_scheme" and r r1 r2 :: "('v, 'x, 'h) app"
  assumes "conn_kernel os v f (poll_fd l)" and "loops s lp = Some l" and "kv_iset v (world s) f = None" and "kv_sent v (world s) = []"
    and "Connection_Init os c (Connection_new lp f sf c a s) = Inr s1"
    and "\<forall>m\<in>set (messages ops). ComposeMessage m = Inr (payload m) \<and> length (payload m) + 8 < 2 ^ 32"
    and "(\<Sum>m\<leftarrow>messages ops. 8 + length (payload m)) < 2 ^ 32"
    and "codec_run os user crc32 e ComposeMessage c ops s1 = Some (Inr s2)"
    and "carries os' f' recv avail (kv_sent v (world s2))"
    and "Connection_Init os' c' (Connection_new lp' f' sf' c' a' r) = Inr r1" and "Connection_SetReadCallback c' (Some u) r1 = Inr r2"
    and "loops r lp' = Some l'" and "recv (world r) = []"
    and "\<forall>x. user' u c' x = codec_callback crc32 e' (\<lambda>q y. Inr (h q y)) c' x" and "\<forall>g\<in>set gs. \<forall>w. recv (g w) = recv w"
  shows "(\<exists>x. read_events os' user' c' gs r2 = Some (Inl (EXIT x))) \<or>
     (\<exists>r3 k. read_events os' user' c' gs r2 = Some (Inr r3) \<and> k \<le> length (messages ops) \<and>
        handled r3 = fold h (map payload (take k (messages ops))) (handled r) \<and>
        (conn_stream v c s2 = [] \<and> recv (world r3) = kv_sent v (world s2) \<and> \<not> shut_down (the (conns r3 c')) \<longrightarrow>
           k = length (messages ops)))"
proof -
  let ?wire = "kv_sent v (world s2)" and ?raws = "map payload (messages ops)"
  have run: "conn_run os user c (map (plain_op crc32 payload) ops) s1 = Some (Inr s2)"
    using codec_run_conn_run [of ops ComposeMessage payload os user crc32 e c] assms(6,8) by simp
  note i = Connection_Init_ready [OF assms(1-3,5), of "sum_list (map op_room (map (plain_op crc32 payload) ops)) + 0"]
  have "op_small (kv_data v) (plain_op crc32 payload x)" for x by (cases x) simp_all
  then have "op_done os v c a f sf 0 (concat (map (wire_packet crc32) ?raws)) (Some (Inr s2))"
    using conn_run_done [OF i(1,2), of user] i(3,4) assms(4,7) run by (simp add: plain_op_bytes)
  then have all: "concat (map (wire_packet crc32) ?raws) = ?wire @ conn_stream v c s2"
    by (simp add: op_done_def)
  have raws: "\<forall>m\<in>set ?raws. length m + 8 < 2 ^ 32" using assms(6) by auto
  have "length (concat (map (wire_packet crc32) ?raws)) = (\<Sum>m\<leftarrow>messages ops. 8 + length (payload m))"
    by (simp add: length_concat comp_def)
  then have len: "length ?wire < 2 ^ 32" using assms(7) all by simp
  have ready: "receiving os' f' recv avail ?wire crc32 h (handled r) u c' r2"
    using receiver_ready [OF assms(10-12,9,13) refl] by blast
  from read_events_receiving [of os' f' recv avail ?wire crc32 user' u c' e' h gs "handled r" r2,
      OF assms(9) frames_of_prefix(2) [OF raws all] len assms(14,15) ready]
  show ?thesis
  proof (elim disjE exE conjE)
    fix r3
    assume r3: "read_events os' user' c' gs r2 = Some (Inr r3)" and "receiving os' f' recv avail ?wire crc32 h (handled r) u c' r3"
    then obtain cn p t where p: "conns r3 c' = Some cn" "recv (world r3) = p @ t" "handled r3 = fold h (fst (wire.frames crc32 p)) (handled r)"
      "\<not> shut_down cn \<longrightarrow> p = recv (world r3)"
      unfolding receiving_def by blast
    obtain t' where t': "?wire = p @ t @ t'" using carriesD(2) [OF assms(9), of "world r3"] p(2) by auto
    have pre: "concat (map (wire_packet crc32) ?raws) = p @ (t @ t' @ conn_stream v c s2)" using all t' by simp
    obtain k where k: "k \<le> length ?raws" "fst (wire.frames crc32 p) = take k ?raws"
      using frames_of_prefix(1) [OF raws pre] by blast
    have "k = length ?raws" if "conn_stream v c s2 = []" "recv (world r3) = ?wire" "\<not> shut_down cn"
    proof -
      have "p = ?wire" using that p(4) by simp
      then have "t @ t' @ conn_stream v c s2 = []" using that(1) t' by simp
      then have "take k ?raws = ?raws" using frames_of_prefix(3) [OF raws pre] k(2) by simp
      then show ?thesis using k(1) by simp
    qed
    then show ?thesis using r3 p(1,3) k by (auto simp: take_map)
  qed auto
qed

text \<open>
  A receiving host to apply the theorem to: its kernel's state is the number of bytes of \<open>wire\<close> that have
  been delivered.
\<close>

definition wire_posix :: "string \<Rightarrow> nat posix" where
  "wire_posix wire =
     \<lparr>sys_read = (\<lambda>f n w. if w < length wire then (Ret (take n (drop w wire)), w + min n (length wire - w)) else (Err EAGAIN, w)),
      sys_write = (\<lambda>f bs w. (Err EAGAIN, w)), sys_open = (\<lambda>p w. (Err ENOENT, w)), sys_fsize = (\<lambda>f w. 0),
      sys_sendfile = (\<lambda>f g i n w. (Err EAGAIN, w)), sys_close = (\<lambda>f w. (Ret (), w)),
      sys_shutdown_write = (\<lambda>f w. w), sys_shutdown_read = (\<lambda>f w. w), sys_pipe = (\<lambda>w. (Ret (20, 21), w)),
      sys_epoll_create = (\<lambda>w. (Ret 22, w)), sys_epoll_ctl = (\<lambda>ep op f ev w. (Ret (), w)),
      sys_epoll_wait = (\<lambda>ep n w. (Ret [], w)), sys_socket = (\<lambda>tcp v6 w. (Ret 3, w)), sys_reuseaddr = (\<lambda>f w. (Ret (), w)),
      sys_bind = (\<lambda>f a w. (Ret (), w)), sys_listen = (\<lambda>f n w. (Ret (), w)),
      sys_accept = (\<lambda>f w. (Err EAGAIN, w))\<rparr>"

lemma wire_posix_carries: "carries (wire_posix wire) f (\<lambda>w. take w wire) (\<lambda>w. length wire - w) wire"
proof -
  have "\<exists>t. wire = take w wire @ t" for w by (metis append_take_drop_id)
  then show ?thesis
    by (auto simp: carries_def read_delivers_def wire_posix_def take_add min_def split: if_splits)
qed

definition ab_packet :: string where
  "ab_packet = [CHR 0x00, CHR 0x00, CHR 0x00, CHR 0x0A, CHR 0x00, CHR 0x00, CHR 0x00, CHR 0xCA, CHR ''a'', CHR ''b'']"

lemma ab_packet: "wire_packet sample_crc ''ab'' = ab_packet"
  by (simp add: ab_packet_def wire_packet_def u32_be_bytes_def u32_le_bytes_def upt_4 payload_checksum_def sample_crc_def
      kHeaderLength_def char_of_def bit_Suc_0_iff)

text \<open>The sender's run, with room for all bytes of the packet.\<close>

lemma ab_sent:
  assumes "sample_init False [] 20 = Inr s1"
  shows "\<exists>s2. codec_run sample_posix user sample_crc Big_Endian (\<lambda>m. Inr (rev m)) 2 [CodecSend ''ba'', CodecWritable] s1 = Some (Inr s2) \<and>
     accepted (world s2) = ab_packet \<and> conn_stream sample_view 2 s2 = []"
  using assms ab_packet
  by (auto simp: sample_init_eval Codec_Send_def Connection_Send_def Connection_WriteBuffer_def Connection_EnableWrite_def
      Channel_EnableWrite_def IBuffer_Write_def IBuffer_WriteBufferToFd_def WriteBufferToFd.simps Buffer_Write_def Buffer_new_def
      Buffer_Peek_def HaveRead_def ReadableBytes_def kWriteBufferSize_def OnWriteCallback_plain user_call_def Let_def ab_packet_def
      conn_stream_def out_stream_def content_def)

definition wire_net :: "(nat, nat, string list) app" where
  "wire_net = \<lparr>chans = Map.empty, loops = [1 \<mapsto> sample_loop], world = 0, conns = Map.empty, handled = []\<rparr>"

definition wire_user :: "(nat, nat, (string list, unit) app_ext) user_code" where
  "wire_user u c s = codec_callback sample_crc Little_Endian (\<lambda>q y. Inr (y @ [q])) c s"

lemmas wire_eval = Connection_Init_def Connection_new_def UpdateToLoop_def UpdateChannel_def SetChannelCallbacks_def wire_net_def
  Connection_SetReadCallback_def wire_posix_def sample_loop_def set_conn_def set_chan_def set_loop_def set_world_def
  get_conn_def get_chan_def get_loop_def SetEpollEdgeTriggered_def Channel_new_def

lemma wire_read:
  "ReadBufferFromFd (wire_posix ab_packet) 4 Buffer_new 0 =
     Some (Inr (Err EAGAIN, \<lparr>read_index = 0, write_index = 10, vec = ab_packet\<rparr>, 10))"
  by (simp add: ReadBufferFromFd.simps wire_posix_def ab_packet_def Buffer_Write_def Buffer_new_def kReadBufferSize_def)

lemma wire_event:
  assumes "Connection_Init (wire_posix ab_packet) 2 (Connection_new 1 4 False 2 3 wire_net) = Inr r1"
    and "Connection_SetReadCallback 2 (Some 7) r1 = Inr r2"
  shows "\<exists>r3. read_events (wire_posix ab_packet) wire_user 2 [\<lambda>w. w] r2 = Some (Inr r3) \<and> world r3 = 10 \<and> \<not> shut_down (the (conns r3 2))"
proof -
  define rb where "rb = \<lparr>read_index = 0, write_index = 10, vec = ab_packet\<rparr>"
  obtain cn ch where st: "conns r2 2 = Some cn" "chans r2 3 = Some ch" "conn_channel cn = 3" "ch_fd ch = 4" "read_buffer cn = Buffer_new"
    "\<not> shut_down cn" "on_read cn = Some 7" "world r2 = 0" "handled r2 = []"
    using assms
    by (auto simp: wire_eval)
  let ?cn = "cn\<lparr>read_buffer := rb\<rparr>" and ?s = "set_world 10 (set_conn 2 (cn\<lparr>read_buffer := rb\<rparr>) r2)"
  have nil: "wire.frames sample_crc [] = ([], [])"
    by (intro wire.frames_None) (simp add: wire_frame_def incomplete_def kHeaderLength_def)
  have rb: "buffer_ok rb" "content rb = ab_packet"
    by (simp_all add: rb_def buffer_ok_def content_def ab_packet_def)
  have "incomplete (snd (wire.frames sample_crc ([] @ ab_packet)))"
    using frames_of_prefix(2) [of "[''ab'']" sample_crc ab_packet "[]"] ab_packet by simp
  then obtain rb' where "after_read (wire_posix ab_packet) wire_user 2 ?s =
      Some (Inr (set_conn 2 (?cn\<lparr>read_buffer := rb'\<rparr>) (?s\<lparr>handled := fold (\<lambda>q y. y @ [q]) (fst (wire.frames sample_crc ([] @ ab_packet))) []\<rparr>)))"
    using after_read_codec [of wire_user 7 2 sample_crc Little_Endian "\<lambda>q y. y @ [q]" ?s ?cn "[]" "[]" ab_packet "wire_posix ab_packet"]
      st rb nil by (auto simp: wire_user_def Let_def)
  moreover have "read_events (wire_posix ab_packet) wire_user 2 [\<lambda>w. w] r2 = after_read (wire_posix ab_packet) wire_user 2 ?s"
    using st wire_read
    by (simp add: OnReadCallback_plain Connection_ReadBuffer_def rb_def net_updates)
      (cases "after_read (wire_posix ab_packet) wire_user 2 ?s"; simp add: rb_def obind_def split: sum.splits)
  ultimately show ?thesis using st(6) by (auto simp: set_conn_def set_world_def)
qed

theorem codec_end_to_end_witness:
  "\<exists>s1 s2 r1 r2 r3.
     sample_init False [] 20 = Inr s1 \<and>
     codec_run sample_posix (\<lambda>_ _ s. Some (Inr s)) sample_crc Big_Endian (\<lambda>m. Inr (rev m)) 2 [CodecSend ''ba'', CodecWritable] s1 = Some (Inr s2) \<and>
     Connection_Init (wire_posix (accepted (world s2))) 2 (Connection_new 1 4 False 2 3 wire_net) = Inr r1 \<and>
     Connection_SetReadCallback 2 (Some 7) r1 = Inr r2 \<and>
     read_events (wire_posix (accepted (world s2))) wire_user 2 [\<lambda>w. w] r2 = Some (Inr r3) \<and> handled r3 = [''ab'']"
proof -
  obtain s1 where s1: "sample_init False [] 20 = Inr s1" using sample_init_returns by blast
  obtain s2 where s2: "codec_run sample_posix (\<lambda>_ _ s. Some (Inr s)) sample_crc Big_Endian (\<lambda>m. Inr (rev m)) 2 [CodecSend ''ba'', CodecWritable] s1 = Some (Inr s2)"
    "accepted (world s2) = ab_packet" "conn_stream sample_view 2 s2 = []"
    using ab_sent [OF s1] by blast
  obtain r1 where r1: "Connection_Init (wire_posix ab_packet) 2 (Connection_new 1 4 False 2 3 wire_net) = Inr r1"
    by (simp add: wire_eval)
  then obtain r2 where r2: "Connection_SetReadCallback 2 (Some 7) r1 = Inr r2"
    by (auto simp: wire_eval)
  obtain r3 where r3: "read_events (wire_posix ab_packet) wire_user 2 [\<lambda>w. w] r2 = Some (Inr r3)" "world r3 = 10" "\<not> shut_down (the (conns r3 2))"
    using wire_event [OF r1 r2] by blast
  have "conn_kernel sample_posix sample_view 4 (poll_fd (sample_loop :: nat net_cb event_loop))" by (rule sample_conn_kernel) simp_all
  moreover have "loops (sample_net [] 20) 1 = Some sample_loop" "kv_iset sample_view (world (sample_net [] 20)) 4 = None"
    "kv_sent sample_view (world (sample_net [] 20)) = []" "loops wire_net 1 = Some sample_loop" "world wire_net = 0" "handled wire_net = []"
    by (simp_all add: sample_net_def sample_view_def sample_world_def wire_net_def)
  moreover have "kv_sent sample_view (world s2) = ab_packet" "length ab_packet = 10" using s2(2) by (simp_all add: sample_view_def ab_packet_def)
  ultimately have "\<exists>k \<le> 1. handled r3 = fold (\<lambda>q y. y @ [q]) (map rev (take k [''ba''])) [] \<and> (conn_stream sample_view 2 s2 = [] \<longrightarrow> k = 1)"
    using codec_end_to_end [of sample_posix sample_view 4 sample_loop "sample_net [] 20" 1 2 False 3 s1 "[CodecSend ''ba'', CodecWritable]"
        "\<lambda>m. Inr (rev m)" rev "\<lambda>_ _ s. Some (Inr s)" sample_crc Big_Endian s2 "wire_posix ab_packet" 4 "\<lambda>w. take w ab_packet"
        "\<lambda>w. length ab_packet - w" 2 1 False 3 wire_net r1 7 r2 sample_loop wire_user Little_Endian "\<lambda>q y. y @ [q]" "[\<lambda>w. w]"]
      s1 s2(1) r1 r2 r3 wire_posix_carries [of ab_packet 4]
    by (simp add: sample_init_def wire_user_def)
  then have "handled r3 = [''ab'']" using s2(3) by auto
  then show ?thesis using s1 s2 r1 r2 r3 by auto
qed

end
