(* ===== verification/GZip_Stream.thy ===== *)
theory GZip_Stream
  imports Ladder_Prelude
begin

text \<open>
  \<^verbatim>\<open>ladder/src/GZip.cpp\<close>: compression and decompression of strings and files through \<open>zlib\<close>, which is
  not part of the repository. A value of the record \<open>zlib\<close> supplies its calls over an arbitrary type
  \<open>'z\<close> of stream states. A call of \<open>deflate\<close> or \<open>inflate\<close> gets the flush mode, the room in the output
  buffer and the unread input, and gives the input it left, the output it produced and the new
  state; the code ignores its return code. A loop that does not end is the value \<open>None\<close>.
\<close>

section \<open>The model\<close>

datatype z_flush = Z_NO_FLUSH | Z_FINISH

type_synonym 'z z_call = "z_flush \<Rightarrow> nat \<Rightarrow> string \<Rightarrow> 'z \<Rightarrow> string \<times> string \<times> 'z"

record 'z zlib =
  deflateInit2 :: "'z option"
  z_deflate :: "'z z_call"
  inflateInit2 :: "'z option"
  z_inflate :: "'z z_call"

definition kGZipBufferSize :: int where "kGZipBufferSize = 128"
definition kGZipFileBufferSize :: int where "kGZipFileBufferSize = 128 * 1024"

text \<open>The inner loop: calls with an empty output buffer of \<open>n\<close> bytes until a call leaves room in it.\<close>

partial_function (option) drain :: "'z z_call \<Rightarrow> nat \<Rightarrow> z_flush \<Rightarrow> string \<Rightarrow> 'z \<Rightarrow> string \<Rightarrow> (string \<times> 'z) option" where
  "drain zc n flush inp z result =
     (case zc flush n inp z of
        (rest, out, z') \<Rightarrow> (if length out \<noteq> n then Some (result @ out, z') else drain zc n flush rest z' (result @ out)))"

text \<open>The loop over the chunks of a string, which \<open>Deflate\<close> and \<open>Inflate\<close> share but for the call.\<close>

function chunk_loop :: "'z z_call \<Rightarrow> string \<Rightarrow> int \<Rightarrow> int \<Rightarrow> 'z \<Rightarrow> string \<Rightarrow> string option" where
  "chunk_loop zc buf bytes_finished bytes_total z result =
     (if bytes_finished < bytes_total
      then let avail_in = min (bytes_total - bytes_finished) kGZipBufferSize;
               inp = take (nat avail_in) (drop (nat bytes_finished) buf);
               fin = bytes_finished + avail_in;
               flush = (if bytes_total \<le> fin then Z_FINISH else Z_NO_FLUSH) in
           Option.bind (drain zc (nat kGZipBufferSize) flush inp z result) (\<lambda>(result', z').
             chunk_loop zc buf fin bytes_total z' result')
      else Some result)"
  by pat_completeness auto
termination
  by (relation "measure (\<lambda>(_, _, fin, n, _). nat (n - fin))") (auto simp: kGZipBufferSize_def)

declare chunk_loop.simps [simp del]

definition Deflate :: "'z zlib \<Rightarrow> string \<Rightarrow> string option" where
  "Deflate zl buf =
     (if buf = [] then Some []
      else case deflateInit2 zl of None \<Rightarrow> Some [] | Some z \<Rightarrow> chunk_loop (z_deflate zl) buf 0 (to_i32 (int (length buf))) z [])"

definition Inflate :: "'z zlib \<Rightarrow> string \<Rightarrow> string option" where
  "Inflate zl buf =
     (if buf = [] then Some []
      else case inflateInit2 zl of None \<Rightarrow> Some [] | Some z \<Rightarrow> chunk_loop (z_inflate zl) buf 0 (to_i32 (int (length buf))) z [])"

text \<open>
  A stream of the C library open for reading: the bytes it still delivers, and whether it ends in a
  read error rather than at the end of the file. A short read sets \<open>feof\<close> or \<open>ferror\<close>.
\<close>

record c_file =
  unread :: string
  ends_in_error :: bool

definition c_fread :: "nat \<Rightarrow> c_file \<Rightarrow> string \<times> bool \<times> bool \<times> c_file" where
  "c_fread n fp =
     (let short = length (unread fp) < n in
      (take n (unread fp), short \<and> ends_in_error fp, short \<and> \<not> ends_in_error fp, fp\<lparr>unread := drop n (unread fp)\<rparr>))"

lemma c_fread_shrinks: "0 < n \<Longrightarrow> (bs, False, False, fp') = c_fread n fp \<Longrightarrow> length (unread fp') < length (unread fp)"
  by (auto simp: c_fread_def Let_def)

function file_loop :: "'z z_call \<Rightarrow> c_file \<Rightarrow> 'z \<Rightarrow> string \<Rightarrow> string option" where
  "file_loop zc fp z result =
     (case c_fread (nat kGZipFileBufferSize) fp of
        (inp, ferror, feof, fp') \<Rightarrow>
          (if ferror then Some []
           else if feof then map_option fst (drain zc (nat kGZipFileBufferSize) Z_FINISH inp z result)
           else Option.bind (drain zc (nat kGZipFileBufferSize) Z_NO_FLUSH inp z result) (\<lambda>(result', z').
             file_loop zc fp' z' result')))"
  by pat_completeness auto
termination
  by (relation "measure (\<lambda>(_, fp, _). length (unread fp))")
    (auto simp: kGZipFileBufferSize_def intro: c_fread_shrinks [rotated])

declare file_loop.simps [simp del]

definition DeflateFile :: "'z zlib \<Rightarrow> (string \<Rightarrow> c_file option) \<Rightarrow> string \<Rightarrow> string option" where
  "DeflateFile zl fopen filename =
     (case fopen filename of
        None \<Rightarrow> Some []
      | Some fp \<Rightarrow> (case deflateInit2 zl of None \<Rightarrow> Some [] | Some z \<Rightarrow> file_loop (z_deflate zl) fp z []))"


section \<open>What the library promises\<close>

text \<open>
  A call stops when it has used up its input or filled its output buffer. Of a stream's state, \<open>zv_fed\<close>
  reads the input used so far, \<open>zv_made\<close> the output produced so far, and \<open>zv_todo\<close> bounds the output
  still to come for the input at hand; \<open>zv_valid\<close> holds of the states the library's calls lead to. The promise holds while the input so far is \<open>good\<close>. When a call
  leaves room in the output buffer, all output for the input so far has been produced, which is
  what \<open>settled\<close> says for the flush mode.
\<close>

record 'z z_view =
  zv_fed :: "'z \<Rightarrow> string"
  zv_made :: "'z \<Rightarrow> string"
  zv_todo :: "z_flush \<Rightarrow> string \<Rightarrow> 'z \<Rightarrow> nat"
  zv_valid :: "'z \<Rightarrow> bool"

definition z_progress :: "'z z_call \<Rightarrow> 'z z_view \<Rightarrow> (string \<Rightarrow> bool) \<Rightarrow> (z_flush \<Rightarrow> 'z \<Rightarrow> bool) \<Rightarrow> bool" where
  "z_progress zc v good settled \<longleftrightarrow>
     (\<forall>flush n inp z rest out z'. 0 < n \<longrightarrow> zv_valid v z \<longrightarrow> good (zv_fed v z @ inp) \<longrightarrow> zc flush n inp z = (rest, out, z') \<longrightarrow>
        zv_valid v z' \<and> (\<exists>used. inp = used @ rest \<and> zv_fed v z' = zv_fed v z @ used) \<and> zv_made v z' = zv_made v z @ out \<and>
        length out \<le> n \<and> zv_todo v flush rest z' + length out \<le> zv_todo v flush inp z \<and>
        (length out < n \<longrightarrow> rest = [] \<and> settled flush z'))"

text \<open>
  \<open>gz plain packed\<close> says that \<open>packed\<close> is a complete gzip stream that holds \<open>plain\<close>. Finishing a
  compression completes such a stream, and a decompression gives back what the stream holds.
\<close>

definition deflate_promise :: "'z zlib \<Rightarrow> 'z z_view \<Rightarrow> (string \<Rightarrow> string \<Rightarrow> bool) \<Rightarrow> bool" where
  "deflate_promise zl v gz \<longleftrightarrow>
     (\<exists>z. deflateInit2 zl = Some z \<and> zv_valid v z \<and> zv_fed v z = [] \<and> zv_made v z = []) \<and>
     z_progress (z_deflate zl) v (\<lambda>_. True) (\<lambda>flush z. flush = Z_FINISH \<longrightarrow> gz (zv_fed v z) (zv_made v z))"

definition inflate_promise :: "'z zlib \<Rightarrow> 'z z_view \<Rightarrow> (string \<Rightarrow> string \<Rightarrow> bool) \<Rightarrow> bool" where
  "inflate_promise zl v gz \<longleftrightarrow>
     (\<exists>z. inflateInit2 zl = Some z \<and> zv_valid v z \<and> zv_fed v z = [] \<and> zv_made v z = []) \<and>
     z_progress (z_inflate zl) v (\<lambda>s. \<exists>plain more. gz plain (s @ more))
       (\<lambda>flush z. \<forall>plain. gz plain (zv_fed v z) \<longrightarrow> zv_made v z = plain)"

section \<open>The loops\<close>

lemma drain_returns:
  assumes "z_progress zc v good settled" and "good (zv_fed v z @ inp)" and "0 < n" and "zv_valid v z"
  shows "\<exists>out z'. drain zc n flush inp z result = Some (result @ out, z') \<and> zv_valid v z' \<and> zv_fed v z' = zv_fed v z @ inp \<and>
     zv_made v z' = zv_made v z @ out \<and> settled flush z'"
  using assms(2,4)
proof (induction "zv_todo v flush inp z" arbitrary: inp z result rule: less_induct)
  case less
  obtain rest out z' where c: "zc flush n inp z = (rest, out, z')" by (metis prod_cases3)
  have law: "0 < n \<longrightarrow> zv_valid v z \<longrightarrow> good (zv_fed v z @ inp) \<longrightarrow> zc flush n inp z = (rest, out, z') \<longrightarrow>
        zv_valid v z' \<and> (\<exists>used. inp = used @ rest \<and> zv_fed v z' = zv_fed v z @ used) \<and> zv_made v z' = zv_made v z @ out \<and>
        length out \<le> n \<and> zv_todo v flush rest z' + length out \<le> zv_todo v flush inp z \<and>
        (length out < n \<longrightarrow> rest = [] \<and> settled flush z')"
    using assms(1) unfolding z_progress_def by blast
  then obtain used where l: "zv_valid v z'" "inp = used @ rest" "zv_fed v z' = zv_fed v z @ used" "zv_made v z' = zv_made v z @ out"
    "length out \<le> n" "zv_todo v flush rest z' + length out \<le> zv_todo v flush inp z"
    "length out < n \<longrightarrow> rest = [] \<and> settled flush z'"
    using assms(3) less.prems c by blast
  show ?case
  proof (cases "length out = n")
    case False
    then show ?thesis using l c by (subst drain.simps) auto
  next
    case True
    have "good (zv_fed v z' @ rest)" "zv_todo v flush rest z' < zv_todo v flush inp z"
      using less.prems l True assms(3) by auto
    from less.hyps [OF this(2,1) l(1), of "result @ out"] show ?thesis
      using l c True by (subst drain.simps) auto
  qed
qed

lemma chunk_loop_returns:
  assumes "z_progress zc v good settled" and "\<And>k. good (take k buf)" and "m \<le> length buf"
    and "zv_fed v z = take m buf" and "m < length buf \<or> settled Z_FINISH z" and "zv_valid v z"
  shows "\<exists>out z'. chunk_loop zc buf (int m) (int (length buf)) z result = Some (result @ out) \<and> zv_fed v z' = buf \<and>
     zv_made v z' = zv_made v z @ out \<and> settled Z_FINISH z'"
  using assms(3-6)
proof (induction "length buf - m" arbitrary: m z result rule: less_induct)
  case less
  show ?case
  proof (cases "m < length buf")
    case False
    then show ?thesis using less.prems by (subst chunk_loop.simps) auto
  next
    case True
    define a where "a = min (length buf - m) 128"
    define fl where "fl = (if length buf \<le> m + a then Z_FINISH else Z_NO_FLUSH)"
    have a: "min (int (length buf) - int m) kGZipBufferSize = int a" "m + a \<le> length buf" "0 < a"
      using True by (auto simp: a_def kGZipBufferSize_def)
    have "good (zv_fed v z @ take a (drop m buf))" "zv_fed v z @ take a (drop m buf) = take (m + a) buf"
      using less.prems(2) assms(2) by (simp_all add: take_add [symmetric])
    from drain_returns [OF assms(1) this(1) _ less.prems(4), of 128 fl result, unfolded this(2)]
    obtain out z' where d: "drain zc 128 fl (take a (drop m buf)) z result = Some (result @ out, z')"
      "zv_fed v z' = take (m + a) buf" "zv_made v z' = zv_made v z @ out" "settled fl z'" "zv_valid v z'"
      by auto
    have fin: "(if int (length buf) \<le> int m + int a then Z_FINISH else Z_NO_FLUSH) = fl" by (simp add: fl_def)
    have step: "chunk_loop zc buf (int m) (int (length buf)) z result =
        chunk_loop zc buf (int (m + a)) (int (length buf)) z' (result @ out)"
      using True d(1) unfolding chunk_loop.simps [of zc buf "int m" _ z] Let_def a(1) fin
      by (simp add: kGZipBufferSize_def)
    have "m + a < length buf \<or> settled Z_FINISH z'" using d(4) by (auto simp: fl_def split: if_splits)
    from less.hyps [OF _ a(2) d(2) this d(5), of "result @ out"] obtain out' z'' where
      "chunk_loop zc buf (int (m + a)) (int (length buf)) z' (result @ out) = Some ((result @ out) @ out')"
      "zv_fed v z'' = buf" "zv_made v z'' = zv_made v z' @ out'" "settled Z_FINISH z''"
      using True a(3) by fastforce
    then show ?thesis
      unfolding step using d(3) by (intro exI [of _ "out @ out'"] exI [of _ z'']) simp
  qed
qed

lemma file_loop_returns:
  assumes "z_progress zc v (\<lambda>_. True) settled" and "\<not> ends_in_error fp" and "zv_valid v z"
  shows "\<exists>out z'. file_loop zc fp z result = Some (result @ out) \<and> zv_fed v z' = zv_fed v z @ unread fp \<and>
     zv_made v z' = zv_made v z @ out \<and> settled Z_FINISH z'"
  using assms(2,3)
proof (induction "length (unread fp)" arbitrary: fp z result rule: less_induct)
  case less
  let ?n = "nat kGZipFileBufferSize"
  have n: "0 < ?n" by (simp add: kGZipFileBufferSize_def)
  note drained = drain_returns [OF assms(1) TrueI n less.prems(2), where inp = "take ?n (unread fp)" and result = result]
  show ?case
  proof (cases "length (unread fp) < ?n")
    case True
    then show ?thesis
      using drained [where flush = Z_FINISH] less.prems by (subst file_loop.simps) (auto simp: c_fread_def)
  next
    case False
    obtain out z' where d: "drain zc ?n Z_NO_FLUSH (take ?n (unread fp)) z result = Some (result @ out, z')"
      "zv_fed v z' = zv_fed v z @ take ?n (unread fp)" "zv_made v z' = zv_made v z @ out" "zv_valid v z'"
      using drained [where flush = Z_NO_FLUSH] by auto
    let ?fp = "fp\<lparr>unread := drop ?n (unread fp)\<rparr>"
    have "length (unread ?fp) < length (unread fp)" using False n by simp
    from less.hyps [OF this, of z' "result @ out"] obtain out' z'' where
      "file_loop zc ?fp z' (result @ out) = Some ((result @ out) @ out')" "zv_fed v z'' = zv_fed v z' @ unread ?fp"
      "zv_made v z'' = zv_made v z' @ out'" "settled Z_FINISH z''"
      using less.prems d(4) by auto
    then show ?thesis
      using False d by (subst file_loop.simps) (intro exI [of _ "out @ out'"] exI [of _ z''], simp add: c_fread_def)
  qed
qed

section \<open>Compression\<close>

lemma Deflate_packs:
  assumes "deflate_promise zl v gz" and "buf \<noteq> []" and "length buf < 2 ^ 31"
  shows "\<exists>packed. Deflate zl buf = Some packed \<and> gz buf packed"
proof -
  obtain z where z: "deflateInit2 zl = Some z" "zv_fed v z = []" "zv_made v z = []" "zv_valid v z"
    and pr: "z_progress (z_deflate zl) v (\<lambda>_. True) (\<lambda>flush z. flush = Z_FINISH \<longrightarrow> gz (zv_fed v z) (zv_made v z))"
    using assms(1) unfolding deflate_promise_def by blast
  from chunk_loop_returns [OF pr TrueI, of 0 buf z "[]"] show ?thesis
    using z assms(2,3) by (auto simp: Deflate_def to_i32_id)
qed

lemma Inflate_unpacks:
  assumes "inflate_promise zl v gz" and "gz plain packed" and "packed \<noteq> []" and "length packed < 2 ^ 31"
  shows "Inflate zl packed = Some plain"
proof -
  obtain z where z: "inflateInit2 zl = Some z" "zv_fed v z = []" "zv_made v z = []" "zv_valid v z"
    and pr: "z_progress (z_inflate zl) v (\<lambda>s. \<exists>plain more. gz plain (s @ more))
       (\<lambda>flush z. \<forall>plain. gz plain (zv_fed v z) \<longrightarrow> zv_made v z = plain)"
    using assms(1) unfolding inflate_promise_def by blast
  have "\<exists>plain more. gz plain (take k packed @ more)" for k
    using assms(2) by (metis append_take_drop_id)
  from chunk_loop_returns [OF pr this, of 0 z "[]"] show ?thesis
    using z assms(2-4) by (auto simp: Inflate_def to_i32_id)
qed

lemma DeflateFile_packs:
  assumes "deflate_promise zl v gz" and "fopen filename = Some fp" and "\<not> ends_in_error fp"
  shows "\<exists>packed. DeflateFile zl fopen filename = Some packed \<and> gz (unread fp) packed"
proof -
  obtain z where z: "deflateInit2 zl = Some z" "zv_fed v z = []" "zv_made v z = []" "zv_valid v z"
    and pr: "z_progress (z_deflate zl) v (\<lambda>_. True) (\<lambda>flush z. flush = Z_FINISH \<longrightarrow> gz (zv_fed v z) (zv_made v z))"
    using assms(1) unfolding deflate_promise_def by blast
  from file_loop_returns [OF pr assms(3) z(4), of "[]"] show ?thesis
    using z assms(2) by (auto simp: DeflateFile_def)
qed

section \<open>Properties\<close>

text \<open>
  Property C28. Decompression undoes compression: where \<open>zlib\<close> keeps its promises, \<open>Deflate\<close> returns and \<open>Inflate\<close>
  of what it returned gives the string back, whatever the sizes are modulo the buffers of 128
  bytes. Both strings have to be shorter than \<open>2 ^ 31\<close> bytes, since their sizes are kept in an \<open>int\<close>.
\<close>

theorem inflate_deflate:
  assumes "deflate_promise zl vd gz" and "inflate_promise zl vi gz" and "\<forall>plain packed. gz plain packed \<longrightarrow> packed \<noteq> []"
    and "length buf < 2 ^ 31" and "\<forall>packed. Deflate zl buf = Some packed \<longrightarrow> length packed < 2 ^ 31"
  shows "\<exists>packed. Deflate zl buf = Some packed \<and> Inflate zl packed = Some buf"
proof (cases "buf = []")
  case True
  then show ?thesis by (simp add: Deflate_def Inflate_def)
next
  case False
  from Deflate_packs [OF assms(1) this assms(4)] obtain packed where
    p: "Deflate zl buf = Some packed" "gz buf packed" by blast
  then show ?thesis
    using Inflate_unpacks [OF assms(2) p(2)] assms(3,5) by blast
qed

text \<open>
  A library that keeps the promises: compression puts one byte in front, and decompression takes it
  off. A stream's state is the input used and the output produced.
\<close>

definition sample_call :: "(string \<Rightarrow> string) \<Rightarrow> (string \<times> string) z_call" where
  "sample_call f flush n inp z =
     (let fed = fst z @ inp; out = take n (drop (length (snd z)) (f fed)) in ([], out, (fed, snd z @ out)))"

definition sample_zlib :: "(string \<times> string) zlib" where
  "sample_zlib = \<lparr>deflateInit2 = Some ([], []), z_deflate = sample_call (\<lambda>s. CHR ''G'' # s),
     inflateInit2 = Some ([], []), z_inflate = sample_call tl\<rparr>"

definition sample_zview :: "(string \<Rightarrow> string) \<Rightarrow> (string \<times> string) z_view" where
  "sample_zview f = \<lparr>zv_fed = fst, zv_made = snd, zv_todo = (\<lambda>flush inp z. length (f (fst z @ inp)) - length (snd z)),
     zv_valid = (\<lambda>z. \<exists>more. f (fst z) = snd z @ more)\<rparr>"

definition sample_gz :: "string \<Rightarrow> string \<Rightarrow> bool" where
  "sample_gz plain packed \<longleftrightarrow> packed = CHR ''G'' # plain"

lemma sample_progress:
  assumes "\<And>s t. \<exists>u. f (s @ t) = f s @ u" and "\<And>flush s. settled flush (s, f s)"
  shows "z_progress (sample_call f) (sample_zview f) good settled"
  unfolding z_progress_def
proof (intro allI impI)
  fix flush n inp z rest out z'
  assume v: "zv_valid (sample_zview f) z" and c: "sample_call f flush n inp z = (rest, out, z')"
  then obtain more where m: "f (fst z) = snd z @ more" by (auto simp: sample_zview_def)
  obtain u where u: "f (fst z @ inp) = f (fst z) @ u" using assms(1) by blast
  have z': "rest = []" "out = take n (more @ u)" "z' = (fst z @ inp, snd z @ out)"
    using c m u by (auto simp: sample_call_def Let_def)
  have "f (fst z') = snd z' @ drop n (more @ u)" using z' m u by (simp del: take_append drop_append)
  moreover have "settled flush z'" if "length out < n"
  proof -
    have "out = more @ u" using that z'(2) by (simp del: take_append)
    then show ?thesis using assms(2) [of flush "fst z @ inp"] z'(3) m u by simp
  qed
  moreover have lens: "length (f (fst z @ inp)) = length (snd z) + length (more @ u)" "length out \<le> n"
    "length out \<le> length (more @ u)"
    using m u z'(2) by simp_all
  ultimately show "zv_valid (sample_zview f) z' \<and>
      (\<exists>used. inp = used @ rest \<and> zv_fed (sample_zview f) z' = zv_fed (sample_zview f) z @ used) \<and>
      zv_made (sample_zview f) z' = zv_made (sample_zview f) z @ out \<and> length out \<le> n \<and>
      zv_todo (sample_zview f) flush rest z' + length out \<le> zv_todo (sample_zview f) flush inp z \<and>
      (length out < n \<longrightarrow> rest = [] \<and> settled flush z')"
    using z'(1,3) lens by (simp add: sample_zview_def)
qed

lemma sample_promises:
  "deflate_promise sample_zlib (sample_zview (\<lambda>s. CHR ''G'' # s)) sample_gz"
  "inflate_promise sample_zlib (sample_zview tl) sample_gz"
proof -
  have "\<exists>u. tl (s @ t) = tl s @ u" for s t :: string by (cases s) auto
  moreover have "zv_fed (sample_zview f) = fst" "zv_made (sample_zview f) = snd" "zv_valid (sample_zview f) ([], []) \<longleftrightarrow> True" for f
    by (simp_all add: sample_zview_def)
  ultimately show "deflate_promise sample_zlib (sample_zview (\<lambda>s. CHR ''G'' # s)) sample_gz"
    "inflate_promise sample_zlib (sample_zview tl) sample_gz"
    by (simp_all add: deflate_promise_def inflate_promise_def sample_zlib_def sample_gz_def sample_progress)
qed

lemma sample_Deflate: "Deflate sample_zlib ''data'' = Some ''Gdata''"
proof -
  have "drain (z_deflate sample_zlib) 128 Z_FINISH ''data'' ([], []) [] = Some (''Gdata'', (''data'', ''Gdata''))"
    by (subst drain.simps) (simp add: sample_zlib_def sample_call_def Let_def)
  then have "chunk_loop (z_deflate sample_zlib) ''data'' 0 4 ([], []) [] = chunk_loop (z_deflate sample_zlib) ''data'' 4 4 (''data'', ''Gdata'') ''Gdata''"
    by (subst chunk_loop.simps) (simp add: kGZipBufferSize_def)
  also have "\<dots> = Some ''Gdata''" by (subst chunk_loop.simps) simp
  moreover have "to_i32 4 = 4" by (simp add: to_i32_id)
  ultimately show ?thesis by (simp add: Deflate_def) (simp add: sample_zlib_def)
qed

theorem inflate_deflate_witness:
  "\<exists>packed. Deflate sample_zlib ''data'' = Some packed \<and> Inflate sample_zlib packed = Some ''data'' \<and> packed = ''Gdata''"
  using inflate_deflate [OF sample_promises, of "''data''"] by (simp add: sample_Deflate sample_gz_def)

end
