(* ===== verification/Http_GZip.thy ===== *)
theory Http_GZip
  imports Http_Server GZip_Stream
begin

text \<open>
  The server of \<^verbatim>\<open>examples/http\<close> with the compressor of \<^verbatim>\<open>ladder/src/GZip.cpp\<close>: \<open>OnClientMessage\<close> calls
  \<open>GZipper::DeflateFile\<close> for a file of a text format above the threshold when the client accepts gzip.
\<close>

section \<open>Compressed responses\<close>











end
