(* ===== verification/Loop_Threads.thy ===== *)
theory Loop_Threads
  imports Event_Channel Thread_Pool
begin

text \<open>
  Threads that run loops: \<^verbatim>\<open>ladder/src/EventLoopThreadPool.cpp\<close>, \<^verbatim>\<open>ladder_client/src/EventLoopThread.cpp\<close>, and the
  interplay of \<open>EventLoop::StartLoop\<close> in one thread with \<open>EventLoop::StopLoop\<close> in another.
\<close>

section \<open>A pool of loops\<close>

definition kMinEventLoopThreadNum :: nat where
  "kMinEventLoopThreadNum = 4"

text \<open>The tasks of the inner thread pool are calls of \<open>StartLoop\<close>, each named by its loop.\<close>

record loop_pool =
  capacity :: nat
  pool_threads :: "addr thread_pool"
  pool_loops :: "addr list"
  cur_idx :: nat

definition EventLoopThreadPool_Init :: "loop_pool \<Rightarrow> loop_pool" where
  "EventLoopThreadPool_Init p =
     p\<lparr>pool_threads := fold (\<lambda>i. ThreadPool_emplace (Some (pool_loops p ! i))) [0..<capacity p] (pool_threads p)\<rparr>"

fun new_loops :: "'w posix \<Rightarrow> (addr \<times> addr) list \<Rightarrow> ('c, 'w, 'z) reactor_scheme \<Rightarrow> ('c, 'w, 'z) reactor_scheme res" where
  "new_loops os [] s = Inr s"
| "new_loops os ((lp, a) # rest) s = sbind (EventLoop_new os lp a s) (new_loops os rest)"

text \<open>\<open>place i\<close> is where the allocator puts the loop \<open>i\<close> and the channel of its pipe.\<close>

definition EventLoopThreadPool_new ::
  "'w posix \<Rightarrow> nat \<Rightarrow> (nat \<Rightarrow> addr \<times> addr) \<Rightarrow> ('c, 'w, 'z) reactor_scheme \<Rightarrow> (loop_pool \<times> ('c, 'w, 'z) reactor_scheme) res" where
  "EventLoopThreadPool_new os cap place s =
     (let n = max cap kMinEventLoopThreadNum in
      sbind (new_loops os (map place [0..<n]) s) (\<lambda>s'.
        Inr (EventLoopThreadPool_Init
               \<lparr>capacity = n, pool_threads = ThreadPool_new n, pool_loops = map (fst \<circ> place) [0..<n], cur_idx = 0\<rparr>, s')))"

fun stop_loops :: "'w posix \<Rightarrow> addr list \<Rightarrow> ('c, 'w, 'z) reactor_scheme \<Rightarrow> ('c, 'w, 'z) reactor_scheme res" where
  "stop_loops os [] s = Inr s"
| "stop_loops os (lp # lps) s = sbind (StopLoop os lp s) (stop_loops os lps)"

definition EventLoopThreadPool_Stop :: "'w posix \<Rightarrow> loop_pool \<Rightarrow> ('c, 'w, 'z) reactor_scheme \<Rightarrow> ('c, 'w, 'z) reactor_scheme res" where
  "EventLoopThreadPool_Stop os p s = stop_loops os (pool_loops p) s"

text \<open>The destructor stops the loops and the inner pool, whose threads it joins.\<close>

definition EventLoopThreadPool_destroy ::
  "'w posix \<Rightarrow> loop_pool \<Rightarrow> ('c, 'w, 'z) reactor_scheme \<Rightarrow> (loop_pool \<times> ('c, 'w, 'z) reactor_scheme) res" where
  "EventLoopThreadPool_destroy os p s =
     sbind (EventLoopThreadPool_Stop os p s) (\<lambda>s'. Inr (p\<lparr>pool_threads := ThreadPool_stop (pool_threads p)\<rparr>, s'))"

definition GetNextLoop :: "loop_pool \<Rightarrow> (addr \<times> loop_pool) res" where
  "GetNextLoop p =
     (let i = (if cur_idx p = capacity p then 0 else cur_idx p) in
      if i < length (pool_loops p) then Inr (pool_loops p ! i, p\<lparr>cur_idx := Suc i\<rparr>) else Inl (UB ''loop index''))"

section \<open>Round robin\<close>

definition pool_ok :: "loop_pool \<Rightarrow> bool" where
  "pool_ok p \<longleftrightarrow> length (pool_loops p) = capacity p \<and> 0 < capacity p \<and> cur_idx p \<le> capacity p"

lemma EventLoopThreadPool_new_ok:
  assumes "EventLoopThreadPool_new os cap place s = Inr (p, s')"
  shows "pool_ok p" and "cur_idx p = 0" and "capacity p = max cap 4" and "pool_loops p = map (fst \<circ> place) [0..<max cap 4]"
  using assms
  by (auto simp: EventLoopThreadPool_new_def EventLoopThreadPool_Init_def Let_def sbind_Inr pool_ok_def kMinEventLoopThreadNum_def)

text \<open>Every loop is handed to the inner pool as a task, in order.\<close>

lemma emplace_all:
  "tp_submitted (fold (\<lambda>i. ThreadPool_emplace (Some (f i))) is tp) = tp_submitted tp @ map f is"
  by (induction "is" arbitrary: tp) (simp_all add: ThreadPool_emplace_def)

lemma EventLoopThreadPool_starts_all:
  assumes "EventLoopThreadPool_new os cap place s = Inr (p, s')"
  shows "tp_submitted (pool_threads p) = pool_loops p"
  using assms
  by (auto simp: EventLoopThreadPool_new_def EventLoopThreadPool_Init_def Let_def sbind_Inr emplace_all ThreadPool_new_def
      kMinEventLoopThreadNum_def intro: map_nth)

lemma GetNextLoop_ok:
  assumes "pool_ok p"
  shows "GetNextLoop p = Inr (pool_loops p ! (cur_idx p mod capacity p), p\<lparr>cur_idx := Suc (cur_idx p mod capacity p)\<rparr>)"
  using assms by (auto simp: GetNextLoop_def pool_ok_def Let_def)

fun next_loops :: "nat \<Rightarrow> loop_pool \<Rightarrow> addr list res" where
  "next_loops 0 p = Inr []"
| "next_loops (Suc k) p = sbind (GetNextLoop p) (\<lambda>(lp, p'). sbind (next_loops k p') (\<lambda>lps. Inr (lp # lps)))"

lemma next_loops_from:
  assumes "pool_ok p"
  shows "next_loops k p = Inr (map (\<lambda>i. pool_loops p ! ((cur_idx p + i) mod capacity p)) [0..<k])"
  using assms
proof (induction k arbitrary: p)
  case (Suc k)
  let ?p = "p\<lparr>cur_idx := Suc (cur_idx p mod capacity p)\<rparr>"
  have "pool_ok ?p" using Suc.prems by (simp add: pool_ok_def Suc_leI)
  moreover have "Suc (cur_idx p mod capacity p + i) mod capacity p = Suc (cur_idx p + i) mod capacity p" for i
    by (metis mod_Suc_eq mod_add_left_eq)
  ultimately have "next_loops k ?p =
      Inr (map (\<lambda>i. pool_loops p ! ((cur_idx p + Suc i) mod capacity p)) [0..<k])"
    using Suc.IH [of ?p] by simp
  then show ?case
    using GetNextLoop_ok [OF Suc.prems] by (simp add: upt_conv_Cons map_Suc_upt [symmetric] del: upt_Suc)
qed simp

text \<open>How often a residue occurs among the first numbers.\<close>

lemma count_residue:
  assumes "j < n"
  shows "count_list (map (\<lambda>i. i mod n) [0..<k]) j = (k + (n - 1 - j)) div n"
proof (induction k)
  case 0
  then show ?case using assms by simp
next
  case (Suc k)
  have "Suc (k + (n - 1 - j)) mod n = 0 \<longleftrightarrow> k mod n = j"
  proof -
    have "Suc (k + (n - 1 - j)) mod n = (k mod n + (n - j)) mod n"
      using assms by (metis Suc_diff_Suc add_Suc_right diff_Suc_1 diff_commute diff_diff_left mod_add_left_eq plus_1_eq_Suc)
    also have "\<dots> = 0 \<longleftrightarrow> k mod n = j"
    proof (cases "k mod n < j")
      case False
      then obtain d where d: "k mod n = j + d" using le_Suc_ex [of j "k mod n"] by auto
      then have "k mod n + (n - j) = n + d" "d < n" using assms mod_less_divisor [of n k] by auto
      then show ?thesis using d by simp
    qed (use assms in simp)
    finally show ?thesis .
  qed
  then show ?case using Suc by (simp add: div_Suc)
qed

section \<open>Starting and stopping a loop from two threads\<close>

text \<open>
  The thread that calls \<open>StartLoop\<close>, step by step: before the critical section, at the test of the
  loop, in \<open>Poll\<close>, and handling what \<open>Poll\<close> returned, which may include the pipe. A call of
  \<open>StopLoop\<close> is a critical section and then a byte written to the pipe; \<open>lc_stopping\<close> counts the calls
  between the two.
\<close>

datatype runner = Unstarted | Testing | Polling | Handling bool | Ended

record loop_ctl =
  lc_running :: bool
  lc_pipe :: nat
  lc_runner :: runner
  lc_stopping :: nat
  lc_stops :: nat

definition EventLoopThread_new :: loop_ctl where
  "EventLoopThread_new = \<lparr>lc_running = False, lc_pipe = 0, lc_runner = Unstarted, lc_stopping = 0, lc_stops = 0\<rparr>"

definition StartLoop_enter :: "loop_ctl \<Rightarrow> loop_ctl" where
  "StartLoop_enter s = (if lc_running s then s\<lparr>lc_runner := Ended\<rparr> else s\<lparr>lc_running := True, lc_runner := Testing\<rparr>)"

definition StartLoop_test :: "loop_ctl \<Rightarrow> loop_ctl" where
  "StartLoop_test s = s\<lparr>lc_runner := if lc_running s then Polling else Ended\<rparr>"

definition StartLoop_handle :: "bool \<Rightarrow> loop_ctl \<Rightarrow> loop_ctl" where
  "StartLoop_handle pipe s = s\<lparr>lc_runner := Testing, lc_pipe := lc_pipe s - (if pipe then 1 else 0)\<rparr>"

definition StopLoop_flag :: "loop_ctl \<Rightarrow> loop_ctl" where
  "StopLoop_flag s = s\<lparr>lc_running := False, lc_stopping := Suc (lc_stopping s), lc_stops := Suc (lc_stops s)\<rparr>"

definition StopLoop_wakeup :: "loop_ctl \<Rightarrow> loop_ctl" where
  "StopLoop_wakeup s = s\<lparr>lc_stopping := lc_stopping s - 1, lc_pipe := Suc (lc_pipe s)\<rparr>"

text \<open>The steps the running thread takes without the help of other channels: \<open>Poll\<close> returns when the pipe has a byte.\<close>

inductive runner_step :: "loop_ctl \<Rightarrow> loop_ctl \<Rightarrow> bool" where
  enter: "lc_runner s = Unstarted \<Longrightarrow> runner_step s (StartLoop_enter s)"
| test: "lc_runner s = Testing \<Longrightarrow> runner_step s (StartLoop_test s)"
| poll_pipe: "lc_runner s = Polling \<Longrightarrow> 0 < lc_pipe s \<Longrightarrow> runner_step s (s\<lparr>lc_runner := Handling True\<rparr>)"
| handle: "lc_runner s = Handling pipe \<Longrightarrow> runner_step s (StartLoop_handle pipe s)"

text \<open>\<open>Poll\<close> may also return for other channels, or for a signal, at any time.\<close>

inductive loop_step :: "loop_ctl \<Rightarrow> loop_ctl \<Rightarrow> bool" where
  runner: "runner_step s s' \<Longrightarrow> loop_step s s'"
| poll_other: "lc_runner s = Polling \<Longrightarrow> loop_step s (s\<lparr>lc_runner := Handling False\<rparr>)"

inductive lc_step :: "loop_ctl \<Rightarrow> loop_ctl \<Rightarrow> bool" where
  loop: "loop_step s s' \<Longrightarrow> lc_step s s'"
| stop_flag: "lc_step s (StopLoop_flag s)"
| stop_wakeup: "0 < lc_stopping s \<Longrightarrow> lc_step s (StopLoop_wakeup s)"

inductive_cases runner_stepE: "runner_step s s'"
inductive_cases loop_stepE: "loop_step s s'"
inductive_cases lc_stepE: "lc_step s s'"

lemmas lc_defs = StartLoop_enter_def StartLoop_test_def StartLoop_handle_def StopLoop_flag_def StopLoop_wakeup_def

text \<open>A thread that waits in \<open>Poll\<close> after the flag was cleared has been or will be woken up.\<close>

definition wakeup_sent :: "loop_ctl \<Rightarrow> bool" where
  "wakeup_sent s \<longleftrightarrow> (lc_runner s = Polling \<and> \<not> lc_running s \<longrightarrow> 0 < lc_pipe s \<or> 0 < lc_stopping s)"

lemma wakeup_sent_step: "lc_step s s' \<Longrightarrow> wakeup_sent s \<Longrightarrow> wakeup_sent s'"
  by (elim lc_stepE loop_stepE runner_stepE) (auto simp: wakeup_sent_def lc_defs split: if_splits)

lemma wakeup_sent_reachable: "lc_step\<^sup>*\<^sup>* EventLoopThread_new s \<Longrightarrow> wakeup_sent s"
  by (induction rule: rtranclp_induct) (auto simp: wakeup_sent_def EventLoopThread_new_def dest: wakeup_sent_step)

definition runner_weight :: "runner \<Rightarrow> nat" where
  "runner_weight r = (case r of Ended \<Rightarrow> 0 | Testing \<Rightarrow> 1 | Handling _ \<Rightarrow> 2 | Polling \<Rightarrow> 3 | Unstarted \<Rightarrow> 4)"

lemma stopped_loop_step:
  assumes "loop_step s s'" and "\<not> lc_running s" and "lc_runner s \<noteq> Unstarted"
  shows "runner_weight (lc_runner s') < runner_weight (lc_runner s)" and "\<not> lc_running s'" and "lc_runner s' \<noteq> Unstarted"
  using assms by (auto elim!: loop_stepE runner_stepE simp: lc_defs runner_weight_def)

lemma loop_steps_reachable: "loop_step\<^sup>*\<^sup>* s s' \<Longrightarrow> lc_step\<^sup>*\<^sup>* s s'"
  by (induction rule: rtranclp_induct) (auto intro: rtranclp.rtrancl_into_rtrancl lc_step.loop)

lemma stopped_loop_steps:
  assumes "loop_step\<^sup>*\<^sup>* s s'" and "\<not> lc_running s" and "lc_runner s \<noteq> Unstarted" and "lc_stopping s = 0"
  shows "\<not> lc_running s' \<and> lc_runner s' \<noteq> Unstarted \<and> lc_stopping s' = 0"
  using assms
proof (induction rule: rtranclp_induct)
  case (step s' s'')
  then show ?case
    using stopped_loop_step [OF step.hyps(2)] by (auto elim!: loop_stepE runner_stepE simp: lc_defs)
qed simp

section \<open>Properties\<close>

text \<open>
  Property C29. Connections are spread evenly over the loops: the pool has at least four loops, all of which
  are handed to the pool's threads; the calls of \<open>GetNextLoop\<close> give the loops in turn, and after
  any number of calls no loop has been given out more than once more than another.
\<close>

theorem loops_in_turn:
  assumes "EventLoopThreadPool_new os cap place s = Inr (p, s')" and "inj_on (fst \<circ> place) {..<max cap 4}"
  shows "tp_submitted (pool_threads p) = map (fst \<circ> place) [0..<max cap 4] \<and>
     (\<exists>lps. next_loops k p = Inr lps \<and> lps = map (\<lambda>i. fst (place (i mod max cap 4))) [0..<k] \<and>
        (\<forall>j<max cap 4. k div max cap 4 \<le> count_list lps (fst (place j)) \<and> count_list lps (fst (place j)) \<le> Suc (k div max cap 4)))"
proof -
  note n = EventLoopThreadPool_new_ok [OF assms(1)]
  let ?n = "max cap 4" and ?f = "fst \<circ> place"
  have f: "map (\<lambda>i. pool_loops p ! (i mod ?n)) [0..<k] = map ?f (map (\<lambda>i. i mod ?n) [0..<k])"
    unfolding n(4) by simp
  have even: "k div ?n \<le> count_list (map ?f (map (\<lambda>i. i mod ?n) [0..<k])) (?f j) \<and>
      count_list (map ?f (map (\<lambda>i. i mod ?n) [0..<k])) (?f j) \<le> Suc (k div ?n)" if "j < ?n" for j
  proof -
    have "count_list (map ?f (map (\<lambda>i. i mod ?n) [0..<k])) (?f j) = count_list (map (\<lambda>i. i mod ?n) [0..<k]) j"
      using assms(2) that by (induction k) (auto simp: inj_on_def)
    also have "\<dots> = (k + (?n - 1 - j)) div ?n" by (rule count_residue [OF that])
    finally have c: "count_list (map ?f (map (\<lambda>i. i mod ?n) [0..<k])) (?f j) = (k + (?n - 1 - j)) div ?n" .
    have "(k + (?n - 1 - j)) div ?n \<le> (k + ?n) div ?n" by (intro div_le_mono) linarith
    also have "(k + ?n) div ?n = Suc (k div ?n)" by (rule div_add_self2 [THEN trans]) simp_all
    finally show ?thesis unfolding c by (simp add: div_le_mono)
  qed
  have lps: "next_loops k p = Inr (map ?f (map (\<lambda>i. i mod ?n) [0..<k]))"
    using next_loops_from [OF n(1), of k] n(2,3) f by simp
  show ?thesis
    unfolding lps EventLoopThreadPool_starts_all [OF assms(1)] n(4)
    using even by (intro conjI exI [of _ "map ?f (map (\<lambda>i. i mod ?n) [0..<k])"]) auto
qed

definition sample_reactor :: "(nat, sample_kernel) reactor" where
  "sample_reactor = \<lparr>chans = Map.empty, loops = Map.empty, world = sample_world [] 0\<rparr>"

definition sample_place :: "nat \<Rightarrow> addr \<times> addr" where
  "sample_place i = (i, i + 100)"

lemma sample_loop_pool: "\<exists>p s'. EventLoopThreadPool_new sample_posix 0 sample_place sample_reactor = Inr (p, s')"
proof -
  have new: "\<exists>s'. EventLoop_new sample_posix lp a s = Inr s'" for lp a and s :: "(nat, sample_kernel) reactor"
    by (auto simp: EventLoop_new_def UpdateChannel_def sample_posix_def sample_epoll_ctl_def Channel_new_def Let_def)
  have "\<exists>s'. new_loops sample_posix lps s = Inr s'" for lps and s :: "(nat, sample_kernel) reactor"
  proof (induction lps arbitrary: s)
    case (Cons l lps)
    then show ?case using new [of "fst l" "snd l" s] by (cases l) (fastforce simp: sbind_Inr)
  qed simp
  then show ?thesis by (auto simp: EventLoopThreadPool_new_def Let_def sbind_Inr)
qed

theorem loops_in_turn_witness:
  "\<exists>p s'. EventLoopThreadPool_new sample_posix 0 sample_place sample_reactor = Inr (p, s') \<and>
     tp_submitted (pool_threads p) = [0, 1, 2, 3] \<and> next_loops 6 p = Inr [0, 1, 2, 3, 0, 1]"
proof -
  obtain p s' where p: "EventLoopThreadPool_new sample_posix 0 sample_place sample_reactor = Inr (p, s')"
    using sample_loop_pool by blast
  have "inj_on (fst \<circ> sample_place) {..<max 0 4}" by (simp add: inj_on_def sample_place_def)
  moreover have "[0..<4] = [0, 1, 2, 3::nat]" "[0..<6] = [0, 1, 2, 3, 4, 5::nat]" by (simp_all add: upt_rec)
  ultimately show ?thesis
    using loops_in_turn [OF p, of 6] p by (simp add: sample_place_def)
qed

text \<open>
  Property C30. A loop that is stopped after it was started ends: once \<open>StopLoop\<close> has returned, with any interleaving
  before that, the thread in \<open>StartLoop\<close> never waits for ever (until it has returned, it can go on
  without the help of another channel) and it returns after at most three steps of its own.
\<close>

theorem stopped_loop_ends:
  assumes "lc_step\<^sup>*\<^sup>* EventLoopThread_new s" and "lc_runner s \<noteq> Unstarted" and "\<not> lc_running s" and "lc_stopping s = 0"
  shows "(\<forall>s'. loop_step\<^sup>*\<^sup>* s s' \<and> lc_runner s' \<noteq> Ended \<longrightarrow> (\<exists>s''. runner_step s' s'')) \<and>
     (\<forall>k s'. (loop_step ^^ k) s s' \<longrightarrow> k \<le> 3)"
proof (intro conjI allI impI)
  fix s' assume s': "loop_step\<^sup>*\<^sup>* s s' \<and> lc_runner s' \<noteq> Ended"
  then have "lc_step\<^sup>*\<^sup>* EventLoopThread_new s'"
    using assms(1) loop_steps_reachable by (meson rtranclp_trans)
  then have "lc_runner s' = Polling \<longrightarrow> 0 < lc_pipe s'"
    using wakeup_sent_reachable [of s'] stopped_loop_steps [OF conjunct1 [OF s'] assms(3,2,4)] by (auto simp: wakeup_sent_def)
  then show "\<exists>s''. runner_step s' s''"
    using s' by (cases "lc_runner s'") (auto intro: runner_step.intros)
next
  fix k s' assume "(loop_step ^^ k) s s'"
  then have "k + runner_weight (lc_runner s') \<le> runner_weight (lc_runner s) \<and> \<not> lc_running s' \<and> lc_runner s' \<noteq> Unstarted"
  proof (induction k arbitrary: s')
    case (Suc k)
    then obtain s1 where "(loop_step ^^ k) s s1" "loop_step s1 s'" by auto
    then show ?case using Suc.IH [of s1] stopped_loop_step [of s1 s'] by auto
  qed (use assms in simp)
  then show "k \<le> 3"
    using assms(2) by (auto simp: runner_weight_def split: runner.splits)
qed

definition sample_polling :: loop_ctl where
  "sample_polling = StopLoop_wakeup (StopLoop_flag (StartLoop_test (StartLoop_enter EventLoopThread_new)))"

lemma sample_polling_reachable: "lc_step\<^sup>*\<^sup>* EventLoopThread_new sample_polling"
proof -
  let ?s1 = "StartLoop_enter EventLoopThread_new"
  have "lc_step EventLoopThread_new ?s1"
    by (intro lc_step.loop loop_step.runner runner_step.enter) (simp add: EventLoopThread_new_def)
  moreover have "lc_step ?s1 (StartLoop_test ?s1)"
    by (intro lc_step.loop loop_step.runner runner_step.test) (simp add: EventLoopThread_new_def StartLoop_enter_def)
  moreover have "lc_step (StartLoop_test ?s1) (StopLoop_flag (StartLoop_test ?s1))" by (rule lc_step.stop_flag)
  moreover have "lc_step (StopLoop_flag (StartLoop_test ?s1)) sample_polling"
    unfolding sample_polling_def by (rule lc_step.stop_wakeup) (simp add: StopLoop_flag_def)
  ultimately show ?thesis by auto
qed

theorem stopped_loop_ends_witness:
  "lc_step\<^sup>*\<^sup>* EventLoopThread_new sample_polling \<and> lc_runner sample_polling = Polling \<and> (\<exists>s''. runner_step sample_polling s'')"
proof -
  have "lc_runner sample_polling = Polling" "\<not> lc_running sample_polling" "lc_stopping sample_polling = 0"
    by (simp_all add: sample_polling_def lc_defs EventLoopThread_new_def)
  then show ?thesis
    using stopped_loop_ends [OF sample_polling_reachable] sample_polling_reachable by auto
qed

text \<open>
  A loop that is stopped before its thread has entered \<open>StartLoop\<close> runs on: \<open>StartLoop\<close> sets the
  flag that \<open>StopLoop\<close> cleared, so there is a schedule after whose only, completed call of
  \<open>StopLoop\<close> the thread never returns, and the \<open>join\<close> that follows in \<open>EventLoopThread::Stop\<close> and in the
  destructor of \<open>EventLoopThreadPool\<close> waits for ever.
\<close>

theorem early_stop_is_lost:
  "\<exists>s. lc_step\<^sup>*\<^sup>* EventLoopThread_new s \<and> lc_stops s = 1 \<and> lc_stopping s = 0 \<and>
     \<not> (\<exists>s'. loop_step\<^sup>*\<^sup>* s s' \<and> lc_runner s' = Ended)"
proof -
  let ?s1 = "StopLoop_flag EventLoopThread_new"
  let ?s3 = "StartLoop_enter (StopLoop_wakeup ?s1)"
  have "lc_step EventLoopThread_new ?s1" by (rule lc_step.stop_flag)
  moreover have "lc_step ?s1 (StopLoop_wakeup ?s1)" by (rule lc_step.stop_wakeup) (simp add: StopLoop_flag_def)
  moreover have "lc_step (StopLoop_wakeup ?s1) ?s3"
    by (intro lc_step.loop loop_step.runner runner_step.enter) (simp add: lc_defs EventLoopThread_new_def)
  ultimately have r: "lc_step\<^sup>*\<^sup>* EventLoopThread_new ?s3" by auto
  have "lc_running s' \<and> lc_runner s' \<noteq> Ended \<and> lc_runner s' \<noteq> Unstarted" if "loop_step\<^sup>*\<^sup>* ?s3 s'" for s'
    using that
  proof (induction rule: rtranclp_induct)
    case (step s1 s2)
    then show ?case by (auto elim!: loop_stepE runner_stepE simp: lc_defs)
  qed (simp add: lc_defs EventLoopThread_new_def)
  moreover have "lc_stops ?s3 = 1" "lc_stopping ?s3 = 0" by (simp_all add: lc_defs EventLoopThread_new_def)
  ultimately show ?thesis using r by blast
qed

end
