(* ===== verification/Tls_Connection.thy ===== *)
theory Tls_Connection
  imports Tcp_Connection
begin

text \<open>
  \<^verbatim>\<open>ladder/src/TlsConnection.cpp\<close> as it is built on Linux: a connection whose bytes go through \<open>OpenSSL\<close>, with a
  memory \<open>BIO\<close> on each side. \<open>OpenSSL\<close> is not part of the repository: a value of the record \<open>openssl\<close>
  supplies its calls over an arbitrary type \<open>'e\<close>, the state of an \<open>SSL\<close> object with its two \<open>BIO\<close>s.

  The part of an encrypted connection that the base class does not have is kept beside the
  connection, at the same address; a connection without such a part is a plain one, and a call of
  a virtual function is a case distinction on that.
\<close>

section \<open>OpenSSL\<close>

datatype ssl_error = SSL_ERROR_NONE | SSL_ERROR_WANT_READ | SSL_ERROR_WANT_WRITE | SSL_ERROR_OTHER

text \<open>
  The result of a call is its return value, the bytes it put into the caller's buffer, if it has one,
  and the new state. \<open>BIO_write_in\<close> is \<open>BIO_write\<close> on \<open>rbio_\<close>, and \<open>BIO_read_out\<close> is \<open>BIO_read\<close> on \<open>wbio_\<close>.
\<close>

record 'e openssl =
  SSL_new :: "bool \<Rightarrow> 'e"
  SSL_is_init_finished :: "'e \<Rightarrow> bool"
  SSL_do_handshake :: "'e \<Rightarrow> int \<times> 'e"
  SSL_write :: "string \<Rightarrow> 'e \<Rightarrow> int \<times> 'e"
  SSL_read :: "nat \<Rightarrow> 'e \<Rightarrow> int \<times> string \<times> 'e"
  SSL_get_error :: "int \<Rightarrow> 'e \<Rightarrow> ssl_error"
  BIO_write_in :: "string \<Rightarrow> 'e \<Rightarrow> int \<times> 'e"
  BIO_read_out :: "nat \<Rightarrow> 'e \<Rightarrow> int \<times> string \<times> 'e"

definition kMaxBufferSize :: nat where
  "kMaxBufferSize = 1024"

section \<open>State\<close>

record 'e tls_part =
  ssl_engine :: 'e
  tls_accepted :: bool
  is_server :: bool
  pre_write_buffer :: buffer

record ('u, 'w, 'e) tls_net = "('u, 'w) net" +
  tls_parts :: "addr \<rightharpoonup> 'e tls_part"

definition get_tls :: "addr \<Rightarrow> ('u, 'w, 'e, 'z) tls_net_scheme \<Rightarrow> 'e tls_part res" where
  "get_tls c s = (case tls_parts s c of None \<Rightarrow> Inl (UB ''not a TlsConnection'') | Some p \<Rightarrow> Inr p)"

definition set_tls :: "addr \<Rightarrow> 'e tls_part \<Rightarrow> ('u, 'w, 'e, 'z) tls_net_scheme \<Rightarrow> ('u, 'w, 'e, 'z) tls_net_scheme" where
  "set_tls c p s = s\<lparr>tls_parts := (tls_parts s)(c \<mapsto> p)\<rparr>"

definition TlsConnection_new ::
  "'e openssl \<Rightarrow> addr \<Rightarrow> fd \<Rightarrow> bool \<Rightarrow> addr \<Rightarrow> addr \<Rightarrow> ('u, 'w, 'e, 'z) tls_net_scheme \<Rightarrow> ('u, 'w, 'e, 'z) tls_net_scheme" where
  "TlsConnection_new ssl lp f server c a s =
     set_tls c \<lparr>ssl_engine = SSL_new ssl server, tls_accepted = False, is_server = server, pre_write_buffer = Buffer_new\<rparr>
       (Connection_new lp f False c a s)"

definition TlsConnection_destroy :: "'w posix \<Rightarrow> addr \<Rightarrow> ('u, 'w, 'e, 'z) tls_net_scheme \<Rightarrow> ('u, 'w, 'e, 'z) tls_net_scheme res" where
  "TlsConnection_destroy os c s =
     sbind (get_tls c s) (\<lambda>p. Connection_destroy os c (s\<lparr>tls_parts := (tls_parts s)(c := None)\<rparr>))"

text \<open>\<open>Init\<close> of a client clears the edge-triggered bit of the channel, without telling the poller.\<close>

definition TlsConnection_Init :: "'w posix \<Rightarrow> addr \<Rightarrow> ('u, 'w, 'e, 'z) tls_net_scheme \<Rightarrow> ('u, 'w, 'e, 'z) tls_net_scheme res" where
  "TlsConnection_Init os c s =
     sbind (Connection_Init os c s) (\<lambda>s1.
     sbind (get_tls c s1) (\<lambda>p.
       if is_server p then Inr s1
       else
         sbind (get_conn c s1) (\<lambda>cn.
         sbind (get_chan (conn_channel cn) s1) (\<lambda>ch.
           Inr (set_chan (conn_channel cn) (SetEpollEdgeTriggered False ch) s1)))))"

section \<open>The loops around the engine\<close>

partial_function (option) Encrypt :: "'e openssl \<Rightarrow> 'e \<Rightarrow> out_buffer \<Rightarrow> ('e \<times> out_buffer) res option" where
  "Encrypt ssl e wb =
     (case BIO_read_out ssl kMaxBufferSize e of
        (n_ssl_read, ssl_buffer, e') \<Rightarrow>
          (if 0 < n_ssl_read
           then case IBuffer_Write (take (nat n_ssl_read) ssl_buffer) wb of
                  Inl x \<Rightarrow> Some (Inl x)
                | Inr wb' \<Rightarrow> Encrypt ssl e' wb'
           else Some (Inr (e', wb))))"

partial_function (option) Decrypt :: "'e openssl \<Rightarrow> 'e \<Rightarrow> buffer \<Rightarrow> (int \<times> 'e \<times> buffer) res option" where
  "Decrypt ssl e rb =
     (case SSL_read ssl kMaxBufferSize e of
        (n_read, ssl_buffer, e') \<Rightarrow>
          (if n_read \<le> 0 then Some (Inr (n_read, e', rb))
           else case Buffer_Write (take (nat n_read) ssl_buffer) rb of
                  Inl x \<Rightarrow> Some (Inl x)
                | Inr rb' \<Rightarrow> Decrypt ssl e' rb'))"

text \<open>The loop of \<open>Send\<close>; it gives up on the rest of the string when \<open>SSL_write\<close> fails.\<close>

partial_function (option) write_loop :: "'e openssl \<Rightarrow> string \<Rightarrow> int \<Rightarrow> int \<Rightarrow> 'e \<Rightarrow> out_buffer \<Rightarrow> ('e \<times> out_buffer) res option" where
  "write_loop ssl buf n_written len e wb =
     (if n_written < len
      then case SSL_write ssl (take (nat (len - n_written)) (drop (nat n_written) buf)) e of
             (n, e') \<Rightarrow>
               (if 0 < n
                then Option.bind (Encrypt ssl e' wb) (\<lambda>r. case r of
                       Inl x \<Rightarrow> Some (Inl x)
                     | Inr (e'', wb') \<Rightarrow> write_loop ssl buf (n_written + n) len e'' wb')
                else Some (Inr (e', wb)))
      else Some (Inr (e, wb)))"

section \<open>Operations\<close>

text \<open>
  \<open>Connection::WriteBuffer\<close> sets \<open>errno\<close> when it fails, which \<open>OnReadCallback\<close> reads after \<open>ReadBuffer\<close> has
  returned \<open>-1\<close>; the operations that may change it in between give the last value, if there is one.
\<close>

definition flush_write ::
  "'w posix \<Rightarrow> addr \<Rightarrow> ('u, 'w, 'z) net_scheme \<Rightarrow> (errno option \<times> ('u, 'w, 'z) net_scheme) res option" where
  "flush_write os c s =
     obind (Connection_WriteBuffer os c s) (\<lambda>(r, s1).
     obind (Some (Connection_EnableWrite os c r s1)) (\<lambda>s2.
       Some (Inr (case r of Ret _ \<Rightarrow> None | Err e \<Rightarrow> Some e, s2))))"

definition TlsConnection_Send ::
  "'w posix \<Rightarrow> 'e openssl \<Rightarrow> addr \<Rightarrow> string \<Rightarrow> ('u, 'w, 'e, 'z) tls_net_scheme \<Rightarrow> (errno option \<times> ('u, 'w, 'e, 'z) tls_net_scheme) res option" where
  "TlsConnection_Send os ssl c buf s =
     obind (Some (get_conn c s)) (\<lambda>cn.
     obind (Some (get_tls c s)) (\<lambda>p.
       if shut_down cn then Some (Inr (None, s))
       else if \<not> SSL_is_init_finished ssl (ssl_engine p)
       then obind (Some (Buffer_Write buf (pre_write_buffer p))) (\<lambda>b. Some (Inr (None, set_tls c (p\<lparr>pre_write_buffer := b\<rparr>) s)))
       else
         obind (write_loop ssl buf 0 (to_i32 (int (length buf))) (ssl_engine p) (write_buffer cn)) (\<lambda>(e, wb).
           flush_write os c (set_conn c (cn\<lparr>write_buffer := wb\<rparr>) (set_tls c (p\<lparr>ssl_engine := e\<rparr>) s)))))"

definition HandleSslError ::
  "'w posix \<Rightarrow> 'e openssl \<Rightarrow> addr \<Rightarrow> int \<Rightarrow> ('u, 'w, 'e, 'z) tls_net_scheme \<Rightarrow>
     (int \<times> errno option \<times> ('u, 'w, 'e, 'z) tls_net_scheme) res option" where
  "HandleSslError os ssl c n s =
     (if 0 < n then Some (Inr (1, None, s))
      else
        obind (Some (get_conn c s)) (\<lambda>cn.
        obind (Some (get_tls c s)) (\<lambda>p.
          case SSL_get_error ssl n (ssl_engine p) of
            SSL_ERROR_NONE \<Rightarrow> Some (Inr (0, None, s))
          | SSL_ERROR_OTHER \<Rightarrow> Some (Inr (-1, None, s))
          | _ \<Rightarrow>
             obind (Encrypt ssl (ssl_engine p) (write_buffer cn)) (\<lambda>(e, wb).
             obind (flush_write os c (set_conn c (cn\<lparr>write_buffer := wb\<rparr>) (set_tls c (p\<lparr>ssl_engine := e\<rparr>) s))) (\<lambda>(err, s').
               Some (Inr (0, err, s')))))))"

definition OnSslHandshakeFinished ::
  "'w posix \<Rightarrow> 'e openssl \<Rightarrow> addr \<Rightarrow> ('u, 'w, 'e, 'z) tls_net_scheme \<Rightarrow> (errno option \<times> ('u, 'w, 'e, 'z) tls_net_scheme) res option" where
  "OnSslHandshakeFinished os ssl c s =
     obind (Some (get_tls c s)) (\<lambda>p.
     obind (Some (Buffer_ReadAll (pre_write_buffer p))) (\<lambda>(buf, b).
       TlsConnection_Send os ssl c buf (set_tls c (p\<lparr>pre_write_buffer := b\<rparr>) s)))"

text \<open>The later of two values of \<open>errno\<close>.\<close>

definition later :: "errno option \<Rightarrow> errno option \<Rightarrow> errno option" where
  "later e1 e2 = (case e2 of None \<Rightarrow> e1 | Some _ \<Rightarrow> e2)"

text \<open>One handshake step, with the data that waited for it.\<close>

definition do_handshake ::
  "'w posix \<Rightarrow> 'e openssl \<Rightarrow> addr \<Rightarrow> ('u, 'w, 'e, 'z) tls_net_scheme \<Rightarrow>
     (int \<times> errno option \<times> ('u, 'w, 'e, 'z) tls_net_scheme) res option" where
  "do_handshake os ssl c s =
     obind (Some (get_tls c s)) (\<lambda>p.
       let (n, e) = SSL_do_handshake ssl (ssl_engine p); s1 = set_tls c (p\<lparr>ssl_engine := e\<rparr>) s in
       if 0 < n then obind (OnSslHandshakeFinished os ssl c s1) (\<lambda>(err, s2). Some (Inr (n, err, s2)))
       else Some (Inr (n, None, s1)))"

text \<open>The body of \<open>ReadFromBuffer\<close> after \<open>BIO_write\<close>; the result says whether the function returns \<open>-1\<close>.\<close>

definition read_decrypted ::
  "'w posix \<Rightarrow> 'e openssl \<Rightarrow> addr \<Rightarrow> ('u, 'w, 'e, 'z) tls_net_scheme \<Rightarrow>
     (bool \<times> errno option \<times> ('u, 'w, 'e, 'z) tls_net_scheme) res option" where
  "read_decrypted os ssl c s =
     obind (Some (get_conn c s)) (\<lambda>cn.
     obind (Some (get_tls c s)) (\<lambda>p.
     obind (Decrypt ssl (ssl_engine p) (read_buffer cn)) (\<lambda>(n_read, e, rb).
     obind (HandleSslError os ssl c n_read (set_conn c (cn\<lparr>read_buffer := rb\<rparr>) (set_tls c (p\<lparr>ssl_engine := e\<rparr>) s))) (\<lambda>(r, err, s1).
       Some (Inr (r < 0, err, s1))))))"

definition read_step ::
  "'w posix \<Rightarrow> 'e openssl \<Rightarrow> addr \<Rightarrow> ('u, 'w, 'e, 'z) tls_net_scheme \<Rightarrow>
     (bool \<times> errno option \<times> ('u, 'w, 'e, 'z) tls_net_scheme) res option" where
  "read_step os ssl c s =
     obind (Some (get_tls c s)) (\<lambda>p.
       if SSL_is_init_finished ssl (ssl_engine p) then read_decrypted os ssl c s
       else
         obind (do_handshake os ssl c s) (\<lambda>(n_accepted, err1, s1).
         obind (HandleSslError os ssl c n_accepted s1) (\<lambda>(r, err2, s2).
           if r < 0 then Some (Inr (True, later err1 err2, s2))
           else
             obind (Some (get_tls c s2)) (\<lambda>p2.
               if SSL_is_init_finished ssl (ssl_engine p2)
               then obind (read_decrypted os ssl c s2) (\<lambda>(fail, err3, s3). Some (Inr (fail, later (later err1 err2) err3, s3)))
               else Some (Inr (False, later err1 err2, s2))))))"

partial_function (option) read_from_loop ::
  "'w posix \<Rightarrow> 'e openssl \<Rightarrow> addr \<Rightarrow> string \<Rightarrow> errno option \<Rightarrow> ('u, 'w, 'e, 'z) tls_net_scheme \<Rightarrow>
     (bool \<times> errno option \<times> ('u, 'w, 'e, 'z) tls_net_scheme) res option" where
  "read_from_loop os ssl c src err s =
     (if src = [] then Some (Inr (False, err, s))
      else
        case get_tls c s of
          Inl x \<Rightarrow> Some (Inl x)
        | Inr p \<Rightarrow>
           (case BIO_write_in ssl src (ssl_engine p) of
              (n, e) \<Rightarrow>
                (if n \<le> 0 then Some (Inl (EXIT ''BIO_write.''))
                 else
                   Option.bind (read_step os ssl c (set_tls c (p\<lparr>ssl_engine := e\<rparr>) s)) (\<lambda>r. case r of
                     Inl x \<Rightarrow> Some (Inl x)
                   | Inr (fail, err', s') \<Rightarrow>
                      (if fail then Some (Inr (True, later err err', s'))
                       else read_from_loop os ssl c (drop (nat n) src) (later err err') s')))))"

definition ReadFromBuffer ::
  "'w posix \<Rightarrow> 'e openssl \<Rightarrow> addr \<Rightarrow> string \<Rightarrow> ('u, 'w, 'e, 'z) tls_net_scheme \<Rightarrow>
     (bool \<times> errno option \<times> ('u, 'w, 'e, 'z) tls_net_scheme) res option" where
  "ReadFromBuffer os ssl c src s =
     (let len = to_i32 (int (length src)) in
      if len \<le> 0 then Some (Inr (False, None, s)) else read_from_loop os ssl c (take (nat len) src) None s)"

definition TlsConnection_ReadBuffer ::
  "'w posix \<Rightarrow> 'e openssl \<Rightarrow> addr \<Rightarrow> ('u, 'w, 'e, 'z) tls_net_scheme \<Rightarrow> (read_ret \<times> ('u, 'w, 'e, 'z) tls_net_scheme) res option" where
  "TlsConnection_ReadBuffer os ssl c s =
     obind (Some (get_conn c s)) (\<lambda>cn.
     obind (Some (get_chan (conn_channel cn) s)) (\<lambda>ch.
     obind (ReadBufferFromFd os (ch_fd ch) Buffer_new (world s)) (\<lambda>(ret, b, w).
     obind (Some (Buffer_ReadAll b)) (\<lambda>(str, b').
     obind (ReadFromBuffer os ssl c str (set_world w s)) (\<lambda>(fail, err, s').
       Some (Inr (if fail then ReadFail
                  else case ret of Ret n \<Rightarrow> ReadRet n | Err e \<Rightarrow> ReadErr (case err of None \<Rightarrow> e | Some e' \<Rightarrow> e'), s')))))))"

definition TlsConnection_WriteBuffer ::
  "'w posix \<Rightarrow> 'e openssl \<Rightarrow> addr \<Rightarrow> ('u, 'w, 'e, 'z) tls_net_scheme \<Rightarrow> (nat sysres \<times> ('u, 'w, 'e, 'z) tls_net_scheme) res option" where
  "TlsConnection_WriteBuffer os ssl c s =
     obind (Some (get_tls c s)) (\<lambda>p.
       if is_server p \<or> SSL_is_init_finished ssl (ssl_engine p) then Connection_WriteBuffer os c s
       else
         obind (do_handshake os ssl c s) (\<lambda>(n_ssl_connect, _, s1).
         obind (if 0 < n_ssl_connect then Some (Inr (0, None, s1)) else HandleSslError os ssl c n_ssl_connect s1) (\<lambda>(_, _, s2).
           Connection_WriteBuffer os c s2)))"

section \<open>Virtual calls\<close>

definition virtual_Init :: "'w posix \<Rightarrow> addr \<Rightarrow> ('u, 'w, 'e, 'z) tls_net_scheme \<Rightarrow> ('u, 'w, 'e, 'z) tls_net_scheme res" where
  "virtual_Init os c s = (case tls_parts s c of None \<Rightarrow> Connection_Init os c s | Some _ \<Rightarrow> TlsConnection_Init os c s)"

definition virtual_Send ::
  "'w posix \<Rightarrow> 'e openssl \<Rightarrow> addr \<Rightarrow> string \<Rightarrow> ('u, 'w, 'e, 'z) tls_net_scheme \<Rightarrow> ('u, 'w, 'e, 'z) tls_net_scheme res option" where
  "virtual_Send os ssl c buf s =
     (case tls_parts s c of
        None \<Rightarrow> Connection_Send os c buf s
      | Some _ \<Rightarrow> obind (TlsConnection_Send os ssl c buf s) (\<lambda>(_, s'). Some (Inr s')))"

definition virtual_ReadBuffer ::
  "'w posix \<Rightarrow> 'e openssl \<Rightarrow> addr \<Rightarrow> ('u, 'w, 'e, 'z) tls_net_scheme \<Rightarrow> (read_ret \<times> ('u, 'w, 'e, 'z) tls_net_scheme) res option" where
  "virtual_ReadBuffer os ssl c s =
     (case tls_parts s c of None \<Rightarrow> plain_ReadBuffer os c s | Some _ \<Rightarrow> TlsConnection_ReadBuffer os ssl c s)"

definition virtual_WriteBuffer ::
  "'w posix \<Rightarrow> 'e openssl \<Rightarrow> addr \<Rightarrow> ('u, 'w, 'e, 'z) tls_net_scheme \<Rightarrow> (nat sysres \<times> ('u, 'w, 'e, 'z) tls_net_scheme) res option" where
  "virtual_WriteBuffer os ssl c s =
     (case tls_parts s c of None \<Rightarrow> Connection_WriteBuffer os c s | Some _ \<Rightarrow> TlsConnection_WriteBuffer os ssl c s)"

definition virtual_destroy :: "'w posix \<Rightarrow> addr \<Rightarrow> ('u, 'w, 'e, 'z) tls_net_scheme \<Rightarrow> ('u, 'w, 'e, 'z) tls_net_scheme res" where
  "virtual_destroy os c s =
     (case tls_parts s c of None \<Rightarrow> Connection_destroy os c s | Some _ \<Rightarrow> TlsConnection_destroy os c s)"

text \<open>The closures of channels, where a connection may be of either class.\<close>

definition virtual_run ::
  "'w posix \<Rightarrow> 'e openssl \<Rightarrow> ('u, 'w, ('e, 'z) tls_net_ext) user_code \<Rightarrow> 'u net_cb \<Rightarrow>
     ('u, 'w, 'e, 'z) tls_net_scheme \<Rightarrow> ('u, 'w, 'e, 'z) tls_net_scheme res option" where
  "virtual_run os ssl user k s =
     (case k of
        ConnRead c \<Rightarrow> OnReadCallback_via os (virtual_ReadBuffer os ssl) user c s
      | ConnWrite c \<Rightarrow> OnWriteCallback_via os (virtual_WriteBuffer os ssl) user c s
      | ConnClose c \<Rightarrow> OnCloseCallback os user c s
      | Other u \<Rightarrow> user u 0 s)"

end
