(* ===== verification/Tls_Stream.thy ===== *)
theory Tls_Stream
  imports Tls_Connection "HOL-Library.Sublist"
begin

text \<open>
  What an encrypted connection does with its data: the strings given to \<open>Send\<close> before and after the
  handshake reach the engine in order, everything the engine writes goes out to the socket in
  order, and everything it decrypts is put into the read buffer in order.
\<close>

section \<open>What OpenSSL promises\<close>

text \<open>
  Of an engine's state, \<open>tv_plain\<close> reads the plain text it has taken from \<open>SSL_write\<close>, \<open>tv_fed\<close> everything that was put into its
  input \<open>BIO\<close>, \<open>tv_made\<close> everything it has written to its output \<open>BIO\<close>, \<open>tv_out\<close> the part of that which \<open>BIO_read\<close> has not taken yet,
  \<open>tv_got\<close> the plain text \<open>SSL_read\<close> has delivered, \<open>tv_left\<close> bounds the number of deliveries still to
  come before more input is needed, and \<open>tv_failed\<close> tells whether an \<open>SSL_write\<close> has failed; \<open>tv_valid\<close> holds of the states the calls
  lead to. \<open>tv_cap\<close> bounds what an engine writes and delivers, given the amount of plain text and of input it
  has been given.
\<close>

record 'e tls_view =
  tv_plain :: "'e \<Rightarrow> string"
  tv_fed :: "'e \<Rightarrow> string"
  tv_made :: "'e \<Rightarrow> string"
  tv_out :: "'e \<Rightarrow> string"
  tv_got :: "'e \<Rightarrow> string"
  tv_left :: "'e \<Rightarrow> nat"
  tv_failed :: "'e \<Rightarrow> bool"
  tv_valid :: "'e \<Rightarrow> bool"
  tv_cap :: "nat \<Rightarrow> nat \<Rightarrow> nat"

text \<open>
  A call that takes the plain text \<open>p\<close>, delivers the plain text \<open>g\<close>, and is given the input \<open>d\<close>; it may write to
  the output \<open>BIO\<close>.
\<close>

definition moves :: "'e tls_view \<Rightarrow> 'e \<Rightarrow> 'e \<Rightarrow> string \<Rightarrow> string \<Rightarrow> string \<Rightarrow> bool" where
  "moves sv e e' p g d \<longleftrightarrow> tv_valid sv e' \<and> tv_plain sv e' = tv_plain sv e @ p \<and> tv_got sv e' = tv_got sv e @ g \<and> tv_fed sv e' = tv_fed sv e @ d \<and>
     (\<exists>x. tv_made sv e' = tv_made sv e @ x \<and> tv_out sv e' = tv_out sv e @ x)"

text \<open>
  The manual pages, for memory \<open>BIO\<close>s: \<open>BIO_read\<close> takes bytes off the
  front as long as there are any; \<open>SSL_do_handshake\<close> returns a positive number exactly when the
  handshake is finished; after that, \<open>SSL_write\<close> takes a non-empty prefix of what it is given, or fails and takes nothing, and
  \<open>SSL_read\<close> delivers what has been decrypted or returns a number that is not positive. What the engine writes
  and delivers is bounded by what it was given: a record has a bounded overhead.
\<close>

definition BIO_read_promise :: "'e openssl \<Rightarrow> 'e tls_view \<Rightarrow> bool" where
  "BIO_read_promise ssl sv \<longleftrightarrow>
     (\<forall>m e k bs e'. tv_valid sv e \<longrightarrow> 0 < m \<longrightarrow> BIO_read_out ssl m e = (k, bs, e') \<longrightarrow>
        tv_valid sv e' \<and> tv_plain sv e' = tv_plain sv e \<and> tv_got sv e' = tv_got sv e \<and> tv_made sv e' = tv_made sv e \<and>
        tv_fed sv e' = tv_fed sv e \<and> tv_failed sv e' = tv_failed sv e \<and> SSL_is_init_finished ssl e' = SSL_is_init_finished ssl e \<and>
        (tv_out sv e = [] \<longrightarrow> k \<le> 0 \<and> tv_out sv e' = []) \<and>
        (tv_out sv e \<noteq> [] \<longrightarrow> 0 < k \<and> k \<le> int (length bs) \<and> tv_out sv e = take (nat k) bs @ tv_out sv e'))"

definition handshake_promise :: "'e openssl \<Rightarrow> 'e tls_view \<Rightarrow> bool" where
  "handshake_promise ssl sv \<longleftrightarrow>
     (\<forall>e k e'. tv_valid sv e \<longrightarrow> \<not> SSL_is_init_finished ssl e \<longrightarrow> SSL_do_handshake ssl e = (k, e') \<longrightarrow>
        moves sv e e' [] [] [] \<and> tv_failed sv e' = tv_failed sv e \<and> (0 < k \<longleftrightarrow> SSL_is_init_finished ssl e'))"

definition SSL_write_promise :: "'e openssl \<Rightarrow> 'e tls_view \<Rightarrow> bool" where
  "SSL_write_promise ssl sv \<longleftrightarrow>
     (\<forall>buf e k e'. tv_valid sv e \<longrightarrow> SSL_is_init_finished ssl e \<longrightarrow> buf \<noteq> [] \<longrightarrow> SSL_write ssl buf e = (k, e') \<longrightarrow>
        (if 0 < k then k \<le> int (length buf) \<and> moves sv e e' (take (nat k) buf) [] [] \<and> tv_failed sv e' = tv_failed sv e \<and> SSL_is_init_finished ssl e'
         else moves sv e e' [] [] [] \<and> tv_failed sv e'))"

definition SSL_read_promise :: "'e openssl \<Rightarrow> 'e tls_view \<Rightarrow> bool" where
  "SSL_read_promise ssl sv \<longleftrightarrow>
     (\<forall>m e k bs e'. tv_valid sv e \<longrightarrow> SSL_is_init_finished ssl e \<longrightarrow> 0 < m \<longrightarrow> SSL_read ssl m e = (k, bs, e') \<longrightarrow>
        tv_failed sv e' = tv_failed sv e \<and> (k \<le> 0 \<longrightarrow> moves sv e e' [] [] []) \<and>
        (0 < k \<longrightarrow> k \<le> int (length bs) \<and> moves sv e e' [] (take (nat k) bs) [] \<and> tv_left sv e' < tv_left sv e \<and> SSL_is_init_finished ssl e'))"

definition BIO_write_promise :: "'e openssl \<Rightarrow> 'e tls_view \<Rightarrow> bool" where
  "BIO_write_promise ssl sv \<longleftrightarrow>
     (\<forall>src e k e'. tv_valid sv e \<longrightarrow> src \<noteq> [] \<longrightarrow> BIO_write_in ssl src e = (k, e') \<longrightarrow>
        k \<le> int (length src) \<and> moves sv e e' [] [] (take (nat k) src) \<and> tv_failed sv e' = tv_failed sv e \<and>
        SSL_is_init_finished ssl e' = SSL_is_init_finished ssl e)"

definition ssl_promise :: "'e openssl \<Rightarrow> 'e tls_view \<Rightarrow> bool" where
  "ssl_promise ssl sv \<longleftrightarrow>
     (\<forall>e. tv_valid sv e \<longrightarrow> length (tv_made sv e) \<le> tv_cap sv (length (tv_plain sv e)) (length (tv_fed sv e)) \<and>
        length (tv_got sv e) \<le> tv_cap sv (length (tv_plain sv e)) (length (tv_fed sv e))) \<and>
     (\<forall>p p' d d'. p \<le> p' \<longrightarrow> d \<le> d' \<longrightarrow> tv_cap sv p d \<le> tv_cap sv p' d') \<and>
     BIO_read_promise ssl sv \<and> handshake_promise ssl sv \<and> SSL_write_promise ssl sv \<and> SSL_read_promise ssl sv \<and> BIO_write_promise ssl sv"

text \<open>
  Of an engine that is given at most \<open>S\<close> bytes of plain text and \<open>r\<close> bytes of input, the output and the deliveries
  have at most \<open>n\<close> bytes.
\<close>

definition ssl_within :: "'e openssl \<Rightarrow> 'e tls_view \<Rightarrow> nat \<Rightarrow> nat \<Rightarrow> nat \<Rightarrow> bool" where
  "ssl_within ssl sv S r n \<longleftrightarrow> ssl_promise ssl sv \<and> tv_cap sv S r \<le> n \<and> S < 2 ^ 31"

lemma ssl_within_le:
  assumes "ssl_within ssl sv S r n" and "r' \<le> r"
  shows "ssl_within ssl sv S r' n"
  using assms unfolding ssl_within_def ssl_promise_def by (meson le_trans order_refl)

lemma ssl_promiseD:
  assumes "ssl_within ssl sv S r n" and "tv_valid sv e"
  shows "length (tv_plain sv e) \<le> S \<Longrightarrow> length (tv_fed sv e) \<le> r \<Longrightarrow> length (tv_made sv e) \<le> n \<and> length (tv_got sv e) \<le> n"
    and "\<not> SSL_is_init_finished ssl e \<Longrightarrow> SSL_do_handshake ssl e = (k, e') \<Longrightarrow>
        moves sv e e' [] [] [] \<and> tv_failed sv e' = tv_failed sv e \<and> (0 < k \<longleftrightarrow> SSL_is_init_finished ssl e')"
    and "SSL_is_init_finished ssl e \<Longrightarrow> buf \<noteq> [] \<Longrightarrow> SSL_write ssl buf e = (k, e') \<Longrightarrow>
        if 0 < k then k \<le> int (length buf) \<and> moves sv e e' (take (nat k) buf) [] [] \<and> tv_failed sv e' = tv_failed sv e \<and> SSL_is_init_finished ssl e'
        else moves sv e e' [] [] [] \<and> tv_failed sv e'"
    and "src \<noteq> [] \<Longrightarrow> BIO_write_in ssl src e = (k, e') \<Longrightarrow>
        k \<le> int (length src) \<and> moves sv e e' [] [] (take (nat k) src) \<and> tv_failed sv e' = tv_failed sv e \<and>
        SSL_is_init_finished ssl e' = SSL_is_init_finished ssl e"
proof -
  have c: "tv_cap sv S r \<le> n" and p: "handshake_promise ssl sv" "SSL_write_promise ssl sv" "BIO_write_promise ssl sv"
    and b: "length (tv_made sv e) \<le> tv_cap sv (length (tv_plain sv e)) (length (tv_fed sv e))"
      "length (tv_got sv e) \<le> tv_cap sv (length (tv_plain sv e)) (length (tv_fed sv e))"
    and m: "\<And>p p' d d'. p \<le> p' \<Longrightarrow> d \<le> d' \<Longrightarrow> tv_cap sv p d \<le> tv_cap sv p' d'"
    using assms unfolding ssl_within_def ssl_promise_def by blast+
  show "length (tv_made sv e) \<le> n \<and> length (tv_got sv e) \<le> n" if "length (tv_plain sv e) \<le> S" "length (tv_fed sv e) \<le> r"
    using m [OF that] b c by linarith
  show "moves sv e e' [] [] [] \<and> tv_failed sv e' = tv_failed sv e \<and> (0 < k \<longleftrightarrow> SSL_is_init_finished ssl e')"
    if "\<not> SSL_is_init_finished ssl e" "SSL_do_handshake ssl e = (k, e')"
    using p(1) assms(2) that unfolding handshake_promise_def by blast
  show "if 0 < k then k \<le> int (length buf) \<and> moves sv e e' (take (nat k) buf) [] [] \<and> tv_failed sv e' = tv_failed sv e \<and> SSL_is_init_finished ssl e'
      else moves sv e e' [] [] [] \<and> tv_failed sv e'"
    if "SSL_is_init_finished ssl e" "buf \<noteq> []" "SSL_write ssl buf e = (k, e')"
    using p(2) assms(2) that unfolding SSL_write_promise_def by blast
  show "k \<le> int (length src) \<and> moves sv e e' [] [] (take (nat k) src) \<and> tv_failed sv e' = tv_failed sv e \<and>
      SSL_is_init_finished ssl e' = SSL_is_init_finished ssl e"
    if "src \<noteq> []" "BIO_write_in ssl src e = (k, e')"
    using p(3) assms(2) that unfolding BIO_write_promise_def by blast
qed

lemma BIO_read_promiseD:
  assumes "ssl_within ssl sv S r n" and "tv_valid sv e" and "0 < m" and "BIO_read_out ssl m e = (k, bs, e')"
  shows "tv_valid sv e' \<and> tv_plain sv e' = tv_plain sv e \<and> tv_got sv e' = tv_got sv e \<and> tv_made sv e' = tv_made sv e \<and>
        tv_fed sv e' = tv_fed sv e \<and> tv_failed sv e' = tv_failed sv e \<and> SSL_is_init_finished ssl e' = SSL_is_init_finished ssl e"
    and "tv_out sv e = [] \<Longrightarrow> k \<le> 0 \<and> tv_out sv e' = []"
    and "tv_out sv e \<noteq> [] \<Longrightarrow> 0 < k \<and> k \<le> int (length bs) \<and> tv_out sv e = take (nat k) bs @ tv_out sv e'"
  using assms(2-4) assms(1) unfolding ssl_within_def ssl_promise_def BIO_read_promise_def by blast+

lemma SSL_read_promiseD:
  assumes "ssl_within ssl sv S r n" and "tv_valid sv e" and "SSL_is_init_finished ssl e" and "0 < m" and "SSL_read ssl m e = (k, bs, e')"
  shows "tv_failed sv e' = tv_failed sv e" and "k \<le> 0 \<Longrightarrow> moves sv e e' [] [] []"
    and "0 < k \<Longrightarrow> k \<le> int (length bs) \<and> moves sv e e' [] (take (nat k) bs) [] \<and> tv_left sv e' < tv_left sv e \<and> SSL_is_init_finished ssl e'"
  using assms(2-5) assms(1) unfolding ssl_within_def ssl_promise_def SSL_read_promise_def by blast+

section \<open>The loops around the engine\<close>

text \<open>
  The engine's output and the output buffer \<open>wb\<close> behind which \<open>P\<close> has been sent: together they are what
  the engine has written, after the bytes \<open>pre\<close> sent before, and the buffer has room for the rest.
\<close>

definition cipher_ok ::
  "'w posix \<Rightarrow> 'w kernel_view \<Rightarrow> 'e tls_view \<Rightarrow> fd \<Rightarrow> nat \<Rightarrow> string \<Rightarrow> 'w \<Rightarrow> string \<Rightarrow> 'e \<Rightarrow> out_buffer \<Rightarrow> bool" where
  "cipher_ok os v sv f n pre w P e wb \<longleftrightarrow>
     tv_valid sv e \<and> pre @ tv_made sv e = P @ out_stream (kv_data v) (kv_fdata v) w wb @ tv_out sv e \<and>
     out_ok os f (kv_sent v) (kv_fdata v) (kv_data v) (\<lambda>w. kv_iset v w f)
       (n + length pre - length (P @ out_stream (kv_data v) (kv_fdata v) w wb)) w wb \<and>
     (\<exists>b. wb = Plain b)"

lemma cipher_ok_moves:
  assumes "cipher_ok os v sv f n pre w P e wb" and "moves sv e e' p g d"
  shows "cipher_ok os v sv f n pre w P e' wb"
proof -
  obtain x where "tv_made sv e' = tv_made sv e @ x" "tv_out sv e' = tv_out sv e @ x" "tv_valid sv e'"
    using assms(2) unfolding moves_def by blast
  moreover have "pre @ tv_made sv e @ x = P @ out_stream (kv_data v) (kv_fdata v) w wb @ tv_out sv e @ x"
    using assms(1) unfolding cipher_ok_def by (metis append.assoc)
  ultimately show ?thesis using assms(1) by (simp add: cipher_ok_def)
qed

lemma Encrypt_ok:
  assumes "ssl_within ssl sv S r n"
  shows "cipher_ok os v sv f n pre w P e wb \<Longrightarrow> length (tv_plain sv e) \<le> S \<Longrightarrow> length (tv_fed sv e) \<le> r \<Longrightarrow>
     \<exists>e' wb'. Encrypt ssl e wb = Some (Inr (e', wb')) \<and> cipher_ok os v sv f n pre w P e' wb' \<and> tv_plain sv e' = tv_plain sv e \<and>
       tv_got sv e' = tv_got sv e \<and> tv_fed sv e' = tv_fed sv e \<and> tv_failed sv e' = tv_failed sv e \<and>
       SSL_is_init_finished ssl e' = SSL_is_init_finished ssl e"
proof (induction "length (tv_out sv e)" arbitrary: e wb rule: less_induct)
  case less
  let ?st = "out_stream (kv_data v) (kv_fdata v) w"
  obtain k bs e1 where r: "BIO_read_out ssl kMaxBufferSize e = (k, bs, e1)" by (metis prod_cases3)
  have c: "tv_valid sv e" "pre @ tv_made sv e = P @ ?st wb @ tv_out sv e"
    "out_ok os f (kv_sent v) (kv_fdata v) (kv_data v) (\<lambda>w. kv_iset v w f) (n + length pre - length (P @ ?st wb)) w wb"
    and pl: "\<exists>b. wb = Plain b"
    using less.prems(1) by (auto simp: cipher_ok_def)
  have "0 < kMaxBufferSize" by (simp add: kMaxBufferSize_def)
  note p = BIO_read_promiseD [OF assms c(1) this r]
  show ?case
  proof (cases "tv_out sv e = []")
    case True
    then show ?thesis
      using p c pl r by (subst Encrypt.simps) (auto simp: cipher_ok_def)
  next
    case False
    let ?bs = "take (nat k) bs"
    have e1: "tv_valid sv e1" "tv_plain sv e1 = tv_plain sv e" "tv_got sv e1 = tv_got sv e" "tv_made sv e1 = tv_made sv e"
      "SSL_is_init_finished ssl e1 = SSL_is_init_finished ssl e" "0 < k" "tv_out sv e = ?bs @ tv_out sv e1" "?bs \<noteq> []"
      "tv_fed sv e1 = tv_fed sv e" "tv_failed sv e1 = tv_failed sv e"
      using p(1) p(3) [OF False] by auto
    have "length (pre @ tv_made sv e) = length (P @ ?st wb @ tv_out sv e)" using c(2) by simp
    then have fits: "n + length pre - length (P @ ?st wb) = length ?bs + (n + length pre - length (P @ ?st wb @ ?bs))"
      using ssl_promiseD(1) [OF assms c(1) less.prems(2,3)] e1(7) by simp
    obtain wb1 where wb1: "IBuffer_Write ?bs wb = Inr wb1"
      "out_ok os f (kv_sent v) (kv_fdata v) (kv_data v) (\<lambda>w. kv_iset v w f) (n + length pre - length (P @ ?st wb @ ?bs)) w wb1"
      "?st wb1 = ?st wb @ ?bs"
      using outbuf.put_ok [OF c(3) [unfolded fits]] by blast
    have "\<exists>b. wb1 = Plain b" using wb1(1) pl by (auto simp: IBuffer_Write_def sbind_Inr)
    then have "cipher_ok os v sv f n pre w P e1 wb1"
      using c(2) e1 wb1 by (simp add: cipher_ok_def)
    moreover have "length (tv_out sv e1) < length (tv_out sv e)" using e1(7,8) by (metis length_append length_greater_0_conv less_add_same_cancel2)
    ultimately show ?thesis
      using less.hyps [of e1 wb1] less.prems(2,3) e1 r wb1(1) by (subst Encrypt.simps) simp
  qed
qed

lemma moves_trans: "moves sv e e1 p g d \<Longrightarrow> moves sv e1 e2 p' g' d' \<Longrightarrow> moves sv e e2 (p @ p') (g @ g') (d @ d')"
  by (auto simp: moves_def)

text \<open>The read buffer holds what was there before and what the engine has delivered.\<close>

definition reads_ok :: "'e tls_view \<Rightarrow> nat \<Rightarrow> string \<Rightarrow> 'e \<Rightarrow> buffer \<Rightarrow> bool" where
  "reads_ok sv n rpre e rb \<longleftrightarrow> buffer_ok rb \<and> content rb = rpre @ tv_got sv e \<and> room rb (n - length (tv_got sv e))"

lemma Decrypt_ok:
  assumes "ssl_within ssl sv S r n"
  shows "tv_valid sv e \<Longrightarrow> SSL_is_init_finished ssl e \<Longrightarrow> reads_ok sv n rpre e rb \<Longrightarrow> length (tv_plain sv e) \<le> S \<Longrightarrow> length (tv_fed sv e) \<le> r \<Longrightarrow>
     \<exists>k e' rb' g. Decrypt ssl e rb = Some (Inr (k, e', rb')) \<and> k \<le> 0 \<and> moves sv e e' [] g [] \<and> tv_failed sv e' = tv_failed sv e \<and>
       reads_ok sv n rpre e' rb'"
proof (induction "tv_left sv e" arbitrary: e rb rule: less_induct)
  case less
  obtain k bs e1 where r: "SSL_read ssl kMaxBufferSize e = (k, bs, e1)" by (metis prod_cases3)
  have "0 < kMaxBufferSize" by (simp add: kMaxBufferSize_def)
  note p = SSL_read_promiseD [OF assms less.prems(1,2) this r]
  show ?case
  proof (cases "k \<le> 0")
    case True
    have "tv_got sv e1 = tv_got sv e" using p(2) [OF True] by (simp add: moves_def)
    then show ?thesis
      using True p(1) p(2) [OF True] less.prems(3) r by (subst Decrypt.simps) (auto simp: reads_ok_def)
  next
    case False
    let ?bs = "take (nat k) bs"
    have m: "moves sv e e1 [] ?bs []" "tv_left sv e1 < tv_left sv e" "SSL_is_init_finished ssl e1" using p(3) False by auto
    then have e1: "tv_valid sv e1" "tv_got sv e1 = tv_got sv e @ ?bs" "length (tv_plain sv e1) \<le> S" "length (tv_fed sv e1) \<le> r"
      using less.prems(4,5) by (auto simp: moves_def)
    have rm: "n - length (tv_got sv e) = length ?bs + (n - length (tv_got sv e1))"
      using ssl_promiseD(1) [OF assms e1(1,3,4)] e1(2) by simp
    have rb: "buffer_ok rb" "content rb = rpre @ tv_got sv e" "room rb (length ?bs + (n - length (tv_got sv e1)))"
      using less.prems(3) unfolding reads_ok_def rm by auto
    then obtain rb1 where rb1: "Buffer_Write ?bs rb = Inr rb1" "buffer_ok rb1" "content rb1 = content rb @ ?bs"
      "\<And>n. room rb1 n \<longleftrightarrow> room rb (length ?bs + n)"
      using Buffer_Write_ok [of rb ?bs] room_le [OF rb(3), of "length ?bs"] by auto
    then have "reads_ok sv n rpre e1 rb1" using rb e1(2) by (simp add: reads_ok_def)
    from less.hyps [OF m(2) e1(1) m(3) this e1(3,4)] show ?thesis
      using False r rb1(1) p(1) moves_trans [OF m(1)] by (subst Decrypt.simps) fastforce
  qed
qed

text \<open>The loop of \<open>Send\<close> gives the engine a prefix of the string, and all of it unless a call fails.\<close>

lemma write_loop_ok:
  assumes "ssl_within ssl sv S r n"
  shows "cipher_ok os v sv f n pre w P e wb \<Longrightarrow> SSL_is_init_finished ssl e \<Longrightarrow> k \<le> length buf \<Longrightarrow> length (tv_plain sv e @ drop k buf) \<le> S \<Longrightarrow>
     length (tv_fed sv e) \<le> r \<Longrightarrow>
     \<exists>e' wb' j. write_loop ssl buf (int k) (int (length buf)) e wb = Some (Inr (e', wb')) \<and> cipher_ok os v sv f n pre w P e' wb' \<and>
       tv_plain sv e' = tv_plain sv e @ take j (drop k buf) \<and> tv_got sv e' = tv_got sv e \<and> tv_fed sv e' = tv_fed sv e \<and>
       (tv_failed sv e \<longrightarrow> tv_failed sv e') \<and> (\<not> tv_failed sv e' \<longrightarrow> tv_plain sv e' = tv_plain sv e @ drop k buf)"
proof (induction "length buf - k" arbitrary: k e wb rule: less_induct)
  case less
  show ?case
  proof (cases "k < length buf")
    case False
    then show ?thesis using less.prems by (subst write_loop.simps) auto
  next
    case True
    obtain m e1 where w: "SSL_write ssl (drop k buf) e = (m, e1)" by fastforce
    have "tv_valid sv e" using less.prems(1) by (simp add: cipher_ok_def)
    note p = ssl_promiseD(3) [OF assms this less.prems(2) _ w]
    show ?thesis
    proof (cases "0 < m")
      case False
      then have m: "moves sv e e1 [] [] []" "tv_failed sv e1" using p True by auto
      have "write_loop ssl buf (int k) (int (length buf)) e wb = Some (Inr (e1, wb))"
        using True w False by (subst write_loop.simps) (simp add: nat_diff_distrib)
      then show ?thesis
        using m cipher_ok_moves [OF less.prems(1) m(1)] by (intro exI [of _ e1] exI [of _ wb] exI [of _ 0]) (simp add: moves_def)
    next
      case pos: True
      then have m: "nat m \<le> length buf - k" "moves sv e e1 (take (nat m) (drop k buf)) [] []" "tv_failed sv e1 = tv_failed sv e" "SSL_is_init_finished ssl e1"
        using p True by auto
      have sp: "take (nat m) (drop k buf) @ drop (k + nat m) buf = drop k buf" by (metis add.commute append_take_drop_id drop_drop)
      then have len: "length (tv_plain sv e1 @ drop (k + nat m) buf) \<le> S" "length (tv_plain sv e1) \<le> S" "length (tv_fed sv e1) \<le> r"
        using less.prems(4,5) m(1,2) by (auto simp: moves_def)
      obtain e2 wb2 where e2: "Encrypt ssl e1 wb = Some (Inr (e2, wb2))" "cipher_ok os v sv f n pre w P e2 wb2"
        "tv_plain sv e2 = tv_plain sv e1" "tv_got sv e2 = tv_got sv e1" "tv_fed sv e2 = tv_fed sv e1" "tv_failed sv e2 = tv_failed sv e1" "SSL_is_init_finished ssl e2"
        using Encrypt_ok [OF assms cipher_ok_moves [OF less.prems(1) m(2)] len(2,3)] m(4) by blast
      have step: "write_loop ssl buf (int k) (int (length buf)) e wb = write_loop ssl buf (int (k + nat m)) (int (length buf)) e2 wb2"
        using True w pos e2(1) by (subst write_loop.simps) (simp add: nat_diff_distrib)
      have l: "length buf - (k + nat m) < length buf - k" "k + nat m \<le> length buf" using m(1) pos True by auto
      have len2: "length (tv_plain sv e2 @ drop (k + nat m) buf) \<le> S" "length (tv_fed sv e2) \<le> r" using len(1,3) unfolding e2(3,5) .
      obtain e' wb' j where ih: "write_loop ssl buf (int (k + nat m)) (int (length buf)) e2 wb2 = Some (Inr (e', wb'))" "cipher_ok os v sv f n pre w P e' wb'"
        "tv_plain sv e' = tv_plain sv e2 @ take j (drop (k + nat m) buf)" "tv_got sv e' = tv_got sv e2" "tv_fed sv e' = tv_fed sv e2"
        "tv_failed sv e2 \<longrightarrow> tv_failed sv e'" "\<not> tv_failed sv e' \<longrightarrow> tv_plain sv e' = tv_plain sv e2 @ drop (k + nat m) buf"
        using less.hyps [OF l(1) e2(2,7) l(2) len2] by blast
      have "take (nat m) (drop k buf) @ take j (drop (k + nat m) buf) = take (nat m + j) (drop k buf)"
        by (simp only: take_add drop_drop add.commute [of k])
      then show ?thesis
        using ih m(2,3) e2 sp unfolding step by (intro exI [of _ e'] exI [of _ wb'] exI [of _ "nat m + j"]) (auto simp: moves_def)
    qed
  qed
qed

section \<open>Connections\<close>

lemma get_tls_simps [simp]:
  "tls_parts s c = Some p \<Longrightarrow> get_tls c s = Inr p"
  "get_tls c (set_tls c' p s) = (if c = c' then Inr p else get_tls c s)"
  "get_tls c (set_conn c' cn s) = get_tls c s" "get_tls c (set_world w s) = get_tls c s"
  by (simp_all add: get_tls_def set_tls_def set_conn_def set_world_def)

lemma tls_selectors [simp]:
  "tls_parts (set_tls c p s) = (tls_parts s)(c \<mapsto> p)" "tls_parts (set_conn c cn s) = tls_parts s"
  "tls_parts (set_chan a ch s) = tls_parts s" "tls_parts (set_loop lp l s) = tls_parts s" "tls_parts (set_world w s) = tls_parts s"
  "conns (set_tls c p s) = conns s" "chans (set_tls c p s) = chans s" "loops (set_tls c p s) = loops s" "world (set_tls c p s) = world s"
  "get_conn c (set_tls c' p s) = get_conn c s" "get_chan a (set_tls c' p s) = get_chan a s"
  by (simp_all add: set_tls_def set_conn_def set_chan_def set_loop_def set_world_def get_conn_def get_chan_def)

text \<open>
  An encrypted connection at \<open>c\<close> that was set up when \<open>pre\<close> had been sent through its descriptor and its
  read buffer held \<open>rpre\<close>, and has been given the plain text \<open>sends\<close> since, at most \<open>S\<close> bytes, and at most \<open>r\<close> bytes of
  input. Unless an \<open>SSL_write\<close> has failed, all of the plain text has been taken by the engine or waits for the handshake.
\<close>

definition tls_core ::
  "'w posix \<Rightarrow> 'w kernel_view \<Rightarrow> 'e tls_view \<Rightarrow> nat \<Rightarrow> nat \<Rightarrow> nat \<Rightarrow> string \<Rightarrow> string \<Rightarrow> string \<Rightarrow> addr \<Rightarrow> addr \<Rightarrow> fd \<Rightarrow>
     ('u, 'w, 'e, 'z) tls_net_scheme \<Rightarrow> bool" where
  "tls_core os v sv S r n pre rpre sends c a f s \<longleftrightarrow>
     (\<exists>cn p. conns s c = Some cn \<and> tls_parts s c = Some p \<and>
        conn_ready os v c a f False (n + length pre - length (kv_sent v (world s) @ conn_stream v c s)) s \<and>
        cipher_ok os v sv f n pre (world s) (kv_sent v (world s)) (ssl_engine p) (write_buffer cn) \<and>
        reads_ok sv n rpre (ssl_engine p) (read_buffer cn) \<and>
        subseq (tv_plain sv (ssl_engine p) @ content (pre_write_buffer p)) sends \<and>
        (\<not> tv_failed sv (ssl_engine p) \<longrightarrow> tv_plain sv (ssl_engine p) @ content (pre_write_buffer p) = sends) \<and>
        length (tv_fed sv (ssl_engine p)) \<le> r \<and> buffer_ok (pre_write_buffer p) \<and>
        room (pre_write_buffer p) (2 ^ 31 - length sends) \<and> length sends \<le> S)"

lemma tls_core_plain:
  assumes "tls_core os v sv S r n pre rpre sends c a f s" and "tls_parts s c = Some p"
  shows "length (tv_plain sv (ssl_engine p)) \<le> S" and "length (tv_fed sv (ssl_engine p)) \<le> r"
proof -
  have "subseq (tv_plain sv (ssl_engine p) @ content (pre_write_buffer p)) sends" "length sends \<le> S" "length (tv_fed sv (ssl_engine p)) \<le> r"
    using assms by (auto simp: tls_core_def)
  then show "length (tv_plain sv (ssl_engine p)) \<le> S" "length (tv_fed sv (ssl_engine p)) \<le> r" by (auto dest: list_emb_length)
qed

definition engine_finished :: "'e openssl \<Rightarrow> addr \<Rightarrow> ('u, 'w, 'e, 'z) tls_net_scheme \<Rightarrow> bool" where
  "engine_finished ssl c s \<longleftrightarrow> (case tls_parts s c of None \<Rightarrow> False | Some p \<Rightarrow> SSL_is_init_finished ssl (ssl_engine p))"

lemma conn_ready_tls [simp]: "conn_ready os v c a f sf m (set_tls c' p s) = conn_ready os v c a f sf m s"
  by (simp add: conn_ready_def)

lemma conn_ready_read_buffer:
  assumes "conn_ready os v c a f sf m s" and "conns s c = Some cn"
  shows "conn_ready os v c a f sf m (set_conn c (cn\<lparr>read_buffer := rb\<rparr>) s)"
  using assms by (auto simp: conn_ready_def)

lemma conn_ready_write_buffer:
  assumes "conn_ready os v c a f False m s" and "conns s c = Some cn"
    and "out_ok os f (kv_sent v) (kv_fdata v) (kv_data v) (\<lambda>w. kv_iset v w f) m' (world s) wb" and "\<exists>b. wb = Plain b"
  shows "conn_ready os v c a f False m' (set_conn c (cn\<lparr>write_buffer := wb\<rparr>) s)"
  using assms by (auto simp: conn_ready_def)

text \<open>Moving bytes from the output buffer to the socket keeps what is known of the connection.\<close>

lemma tls_core_same_stream:
  assumes "tls_core os v sv S r n pre rpre sends c a f s" and "conns s c = Some cn"
    and "conn_ready os v c a f False (n + length pre - length (kv_sent v (world s) @ conn_stream v c s)) s'"
    and "kv_sent v (world s') @ conn_stream v c s' = kv_sent v (world s) @ conn_stream v c s"
    and "tls_parts s' = tls_parts s" and "conns s' c = Some (cn\<lparr>write_buffer := wb\<rparr>)"
  shows "tls_core os v sv S r n pre rpre sends c a f s'"
proof -
  obtain p where p: "tls_parts s c = Some p"
    and ci: "cipher_ok os v sv f n pre (world s) (kv_sent v (world s)) (ssl_engine p) (write_buffer cn)"
    using assms(1,2) unfolding tls_core_def by auto
  have strm: "conn_stream v c s' = out_stream (kv_data v) (kv_fdata v) (world s') wb"
    "conn_stream v c s = out_stream (kv_data v) (kv_fdata v) (world s) (write_buffer cn)"
    using assms(2,6) by (simp_all add: conn_stream_def)
  have "out_ok os f (kv_sent v) (kv_fdata v) (kv_data v) (\<lambda>w. kv_iset v w f)
      (n + length pre - length (kv_sent v (world s) @ conn_stream v c s)) (world s') wb" "\<exists>b. wb = Plain b"
    using assms(3,6) unfolding conn_ready_def by (auto, cases wb, auto)
  moreover have "pre @ tv_made sv (ssl_engine p) = kv_sent v (world s') @ conn_stream v c s' @ tv_out sv (ssl_engine p)"
    using ci assms(4) unfolding cipher_ok_def strm(2) by (metis append.assoc)
  ultimately have "cipher_ok os v sv f n pre (world s') (kv_sent v (world s')) (ssl_engine p) wb"
    using ci assms(4) by (simp add: cipher_ok_def strm)
  then show ?thesis
    using assms p by (auto simp: tls_core_def)
qed

lemma tls_core_WriteBuffer:
  assumes "tls_core os v sv S r n pre rpre sends c a f s"
  shows "exits_or (\<lambda>(ret, s'). tls_core os v sv S r n pre rpre sends c a f s' \<and> tls_parts s' = tls_parts s \<and>
     (\<forall>n. ret = Ret n \<longrightarrow> conn_stream v c s' = [])) (Connection_WriteBuffer os c s)"
proof -
  from assms obtain cn where st: "conns s c = Some cn"
    and cr: "conn_ready os v c a f False (n + length pre - length (kv_sent v (world s) @ conn_stream v c s)) s"
    unfolding tls_core_def by blast
  from Connection_WriteBuffer_ready [OF cr] show ?thesis
  proof (elim disjE exE conjE)
    fix ret s1
    assume w: "Connection_WriteBuffer os c s = Some (Inr (ret, s1))"
      and s1: "conn_ready os v c a f False (n + length pre - length (kv_sent v (world s) @ conn_stream v c s)) s1"
      and k: "kv_sent v (world s1) @ conn_stream v c s1 = kv_sent v (world s) @ conn_stream v c s"
      and ret: "\<forall>n. ret = Ret n \<longrightarrow> conn_stream v c s1 = []"
    obtain wb where "tls_parts s1 = tls_parts s" "conns s1 c = Some (cn\<lparr>write_buffer := wb\<rparr>)"
      using w st by (auto simp: Connection_WriteBuffer_def obind_Inr)
    then show ?thesis using tls_core_same_stream [OF assms st s1 k] w ret by simp
  qed simp
qed

lemma tls_core_EnableWrite:
  assumes "tls_core os v sv S r n pre rpre sends c a f s" and "\<forall>n. ret = Ret n \<longrightarrow> conn_stream v c s = []"
  shows "exits_or (\<lambda>s'. tls_core os v sv S r n pre rpre sends c a f s' \<and> tls_parts s' = tls_parts s) (Some (Connection_EnableWrite os c ret s))"
proof -
  from assms(1) obtain cn where st: "conns s c = Some cn"
    and cr: "conn_ready os v c a f False (n + length pre - length (kv_sent v (world s) @ conn_stream v c s)) s"
    unfolding tls_core_def by blast
  from Connection_EnableWrite_arms [OF cr assms(2)] show ?thesis
  proof (elim disjE exE conjE)
    fix s2
    assume e: "Connection_EnableWrite os c ret s = Inr s2"
      and s2: "conn_ready os v c a f False (n + length pre - length (kv_sent v (world s) @ conn_stream v c s)) s2"
      and k: "kv_sent v (world s2) = kv_sent v (world s)" "conn_stream v c s2 = conn_stream v c s"
    have "Channel_EnableWrite os (conn_channel cn) (case ret of Err _ \<Rightarrow> True | Ret _ \<Rightarrow> False) s = Inr s2"
      using e st by (simp add: Connection_EnableWrite_def)
    from Channel_EnableWrite_called [OF this]
    have "tls_parts s2 = tls_parts s" "conns s2 c = Some (cn\<lparr>write_buffer := write_buffer cn\<rparr>)" using st by (auto simp: poller_called_def)
    from tls_core_same_stream [OF assms(1) st s2 _ this] this(1) show ?thesis using k e by simp
  qed simp
qed

lemma tls_core_flush:
  assumes "tls_core os v sv S r n pre rpre sends c a f s"
  shows "exits_or (\<lambda>(err, s'). tls_core os v sv S r n pre rpre sends c a f s' \<and> tls_parts s' = tls_parts s) (flush_write os c s)"
  unfolding flush_write_def
  by (auto intro!: exits_or_bind [OF tls_core_WriteBuffer [OF assms]] exits_or_bind [OF tls_core_EnableWrite])

lemma tls_core_engine:
  assumes "tls_core os v sv S r n pre rpre sends c a f s" and "tls_parts s c = Some p" and "moves sv (ssl_engine p) e [] [] d"
    and "tv_failed sv e = tv_failed sv (ssl_engine p)"
  shows "tls_core os v sv S (r + length d) n pre rpre sends c a f (set_tls c (p\<lparr>ssl_engine := e\<rparr>) s)"
proof -
  have st: "conn_stream v c (set_tls c (p\<lparr>ssl_engine := e\<rparr>) s) = conn_stream v c s" by (simp add: conn_stream_def)
  have "tv_plain sv e = tv_plain sv (ssl_engine p)" "tv_got sv e = tv_got sv (ssl_engine p)" "tv_fed sv e = tv_fed sv (ssl_engine p) @ d"
    using assms(3) by (simp_all add: moves_def)
  then show ?thesis
    using assms(1,2,4) cipher_ok_moves [OF _ assms(3), of os v f n pre "world s" "kv_sent v (world s)"] unfolding tls_core_def st
    by (auto simp: reads_ok_def)
qed

lemma tls_core_put:
  assumes "tls_core os v sv S r n pre rpre sends c a f s" and "conns s c = Some cn" and "tls_parts s c = Some p"
    and "cipher_ok os v sv f n pre (world s) (kv_sent v (world s)) e wb" and "tv_got sv e = tv_got sv (ssl_engine p)"
    and "tv_fed sv e = tv_fed sv (ssl_engine p)" and "subseq (tv_plain sv e @ content (pre_write_buffer p)) (sends @ new)"
    and "\<not> tv_failed sv e \<longrightarrow> tv_plain sv e @ content (pre_write_buffer p) = sends @ new" and "length (sends @ new) \<le> S"
  shows "tls_core os v sv S r n pre rpre (sends @ new) c a f (set_conn c (cn\<lparr>write_buffer := wb\<rparr>) (set_tls c (p\<lparr>ssl_engine := e\<rparr>) s))"
proof -
  let ?s = "set_conn c (cn\<lparr>write_buffer := wb\<rparr>) (set_tls c (p\<lparr>ssl_engine := e\<rparr>) s)"
  have cr: "conn_ready os v c a f False (n + length pre - length (kv_sent v (world s) @ conn_stream v c s)) s"
    and rest: "reads_ok sv n rpre (ssl_engine p) (read_buffer cn)" "buffer_ok (pre_write_buffer p)"
      "room (pre_write_buffer p) (2 ^ 31 - length sends)" "length (tv_fed sv (ssl_engine p)) \<le> r"
    using assms(1-3) by (auto simp: tls_core_def)
  have st: "conn_stream v c ?s = out_stream (kv_data v) (kv_fdata v) (world s) wb" by (simp add: conn_stream_def)
  have ob: "out_ok os f (kv_sent v) (kv_fdata v) (kv_data v) (\<lambda>w. kv_iset v w f)
      (n + length pre - length (kv_sent v (world s) @ conn_stream v c ?s)) (world s) wb" "\<exists>b. wb = Plain b"
    using assms(4) by (simp_all add: cipher_ok_def st)
  have "conn_ready os v c a f False (n + length pre - length (kv_sent v (world s) @ conn_stream v c ?s)) ?s"
    using conn_ready_write_buffer [of os v c a f _ "set_tls c (p\<lparr>ssl_engine := e\<rparr>) s" cn _ wb] cr assms(2) ob by simp
  then show ?thesis
    using assms(4-9) rest room_le [OF rest(3), of "2 ^ 31 - length (sends @ new)"] by (auto simp: tls_core_def reads_ok_def)
qed

lemma HandleSslError_core:
  assumes "ssl_within ssl sv S r n" and "tls_core os v sv S r n pre rpre sends c a f s" and "tls_parts s c = Some p"
  shows "(\<exists>x. HandleSslError os ssl c k s = Some (Inl (EXIT x))) \<or>
     (\<exists>ret err s' e. HandleSslError os ssl c k s = Some (Inr (ret, err, s')) \<and> tls_core os v sv S r n pre rpre sends c a f s' \<and>
        tls_parts s' c = Some (p\<lparr>ssl_engine := e\<rparr>) \<and> SSL_is_init_finished ssl e = SSL_is_init_finished ssl (ssl_engine p))"
proof -
  note bd = tls_core_plain [OF assms(2,3)]
  obtain cn where st: "conns s c = Some cn" and ci: "cipher_ok os v sv f n pre (world s) (kv_sent v (world s)) (ssl_engine p) (write_buffer cn)"
    and pl: "subseq (tv_plain sv (ssl_engine p) @ content (pre_write_buffer p)) sends" "length sends \<le> S"
      "\<not> tv_failed sv (ssl_engine p) \<longrightarrow> tv_plain sv (ssl_engine p) @ content (pre_write_buffer p) = sends"
    using assms(2,3) unfolding tls_core_def by auto
  have same: "p\<lparr>ssl_engine := ssl_engine p\<rparr> = p" by simp
  show ?thesis
  proof (cases "0 < k \<or> SSL_get_error ssl k (ssl_engine p) = SSL_ERROR_NONE \<or> SSL_get_error ssl k (ssl_engine p) = SSL_ERROR_OTHER")
    case True
    then show ?thesis
      using assms(2,3) st same by (intro disjI2) (auto simp: HandleSslError_def intro!: exI [of _ "ssl_engine p"])
  next
    case False
    obtain e wb where e: "Encrypt ssl (ssl_engine p) (write_buffer cn) = Some (Inr (e, wb))"
      "cipher_ok os v sv f n pre (world s) (kv_sent v (world s)) e wb" "tv_plain sv e = tv_plain sv (ssl_engine p)"
      "tv_got sv e = tv_got sv (ssl_engine p)" "SSL_is_init_finished ssl e = SSL_is_init_finished ssl (ssl_engine p)"
      "tv_fed sv e = tv_fed sv (ssl_engine p)" "tv_failed sv e = tv_failed sv (ssl_engine p)"
      using Encrypt_ok [OF assms(1) ci bd] by blast
    let ?s = "set_conn c (cn\<lparr>write_buffer := wb\<rparr>) (set_tls c (p\<lparr>ssl_engine := e\<rparr>) s)"
    have "tls_core os v sv S r n pre rpre sends c a f ?s"
      using tls_core_put [OF assms(2) st assms(3) e(2,4,6), of "[]"] e(3,7) pl by simp
    moreover have "HandleSslError os ssl c k s = obind (flush_write os c ?s) (\<lambda>(err, s'). Some (Inr (0, err, s')))"
      using False st assms(3) e(1) by (cases "SSL_get_error ssl k (ssl_engine p)") (auto simp: HandleSslError_def)
    ultimately show ?thesis
      using tls_core_flush [of os v sv S r n pre rpre sends c a f ?s] e(5) by (fastforce simp: exits_or_def)
  qed
qed

text \<open>Nothing waits for the handshake once it is finished.\<close>

definition tls_inv ::
  "'w posix \<Rightarrow> 'e openssl \<Rightarrow> 'w kernel_view \<Rightarrow> 'e tls_view \<Rightarrow> nat \<Rightarrow> nat \<Rightarrow> nat \<Rightarrow> string \<Rightarrow> string \<Rightarrow> string \<Rightarrow> addr \<Rightarrow> addr \<Rightarrow> fd \<Rightarrow>
     ('u, 'w, 'e, 'z) tls_net_scheme \<Rightarrow> bool" where
  "tls_inv os ssl v sv S r n pre rpre sends c a f s \<longleftrightarrow>
     tls_core os v sv S r n pre rpre sends c a f s \<and>
     (\<forall>p. tls_parts s c = Some p \<longrightarrow> SSL_is_init_finished ssl (ssl_engine p) \<longrightarrow> content (pre_write_buffer p) = [])"

lemma tls_inv_part: "tls_inv os ssl v sv S r n pre rpre sends c a f s \<Longrightarrow> \<exists>p cn. tls_parts s c = Some p \<and> conns s c = Some cn"
  by (auto simp: tls_inv_def tls_core_def)

lemma Send_inv:
  assumes "ssl_within ssl sv S r n" and "tls_inv os ssl v sv S r n pre rpre sends c a f s" and "tls_parts s c = Some p"
    and "length (sends @ buf) \<le> S"
  shows "exits_or (\<lambda>(err, s'). tls_inv os ssl v sv S r n pre rpre (sends @ buf) c a f s' \<and>
      (\<forall>p'. tls_parts s' c = Some p' \<longrightarrow> tv_failed sv (ssl_engine p) \<longrightarrow> tv_failed sv (ssl_engine p'))) (TlsConnection_Send os ssl c buf s)"
proof -
  have core: "tls_core os v sv S r n pre rpre sends c a f s" using assms(2) by (simp add: tls_inv_def)
  note bd = tls_core_plain [OF core assms(3)]
  from core obtain cn where st: "conns s c = Some cn" "\<not> shut_down cn"
    and ci: "cipher_ok os v sv f n pre (world s) (kv_sent v (world s)) (ssl_engine p) (write_buffer cn)"
    and pl: "subseq (tv_plain sv (ssl_engine p) @ content (pre_write_buffer p)) sends"
      "\<not> tv_failed sv (ssl_engine p) \<longrightarrow> tv_plain sv (ssl_engine p) @ content (pre_write_buffer p) = sends"
    and pb: "buffer_ok (pre_write_buffer p)" "room (pre_write_buffer p) (2 ^ 31 - length sends)"
    using assms(3) unfolding tls_core_def conn_ready_def by auto
  have S: "S < 2 ^ 31" using assms(1) by (simp add: ssl_within_def)
  show ?thesis
  proof (cases "SSL_is_init_finished ssl (ssl_engine p)")
    case True
    then have pre0: "content (pre_write_buffer p) = []" using assms(2,3) by (simp add: tls_inv_def)
    then have sub: "subseq (tv_plain sv (ssl_engine p)) sends" using pl(1) by simp
    then have "length (tv_plain sv (ssl_engine p) @ drop 0 buf) \<le> S" using list_emb_length [OF sub] assms(4) by simp
    from write_loop_ok [OF assms(1) ci True le0 this bd(2)] obtain e wb j where
      e: "write_loop ssl buf 0 (int (length buf)) (ssl_engine p) (write_buffer cn) = Some (Inr (e, wb))"
      "cipher_ok os v sv f n pre (world s) (kv_sent v (world s)) e wb" "tv_plain sv e = tv_plain sv (ssl_engine p) @ take j buf"
      "tv_got sv e = tv_got sv (ssl_engine p)" "tv_fed sv e = tv_fed sv (ssl_engine p)" "tv_failed sv (ssl_engine p) \<longrightarrow> tv_failed sv e"
      "\<not> tv_failed sv e \<longrightarrow> tv_plain sv e = tv_plain sv (ssl_engine p) @ buf"
      unfolding drop0 semiring_1_class.of_nat_simps(1) by blast
    let ?s = "set_conn c (cn\<lparr>write_buffer := wb\<rparr>) (set_tls c (p\<lparr>ssl_engine := e\<rparr>) s)"
    have "subseq (tv_plain sv e @ content (pre_write_buffer p)) (sends @ buf)"
      unfolding pre0 e(3) using list_emb_append_mono [OF sub prefix_imp_subseq [OF take_is_prefix]] by simp
    then have c1: "tls_core os v sv S r n pre rpre (sends @ buf) c a f ?s"
      using e(6,7) pl(2) pre0 assms(4) by (intro tls_core_put [OF core st(1) assms(3) e(2,4,5)]) auto
    have "TlsConnection_Send os ssl c buf s = flush_write os c ?s"
      using st assms(3,4) True e(1) S by (simp add: TlsConnection_Send_def to_i32_id)
    then show ?thesis
      using tls_core_flush [OF c1] e(6) pre0 by (auto simp: tls_inv_def elim!: exits_or_mono)
  next
    case False
    have "room (pre_write_buffer p) (length buf + (2 ^ 31 - length (sends @ buf)))" using pb(2) assms(4) S by (simp add: room_def)
    then obtain b where b: "Buffer_Write buf (pre_write_buffer p) = Inr b" "buffer_ok b" "content b = content (pre_write_buffer p) @ buf"
      "room b (2 ^ 31 - length (sends @ buf))"
      using Buffer_Write_ok [OF pb(1), of buf] room_le by (metis le_add1)
    let ?s = "set_tls c (p\<lparr>pre_write_buffer := b\<rparr>) s"
    have "conn_stream v c ?s = conn_stream v c s" by (simp add: conn_stream_def)
    moreover have "subseq (tv_plain sv (ssl_engine p) @ content b) (sends @ buf)"
      unfolding b(3) using list_emb_append_mono [OF pl(1) subseq_order.order_refl] by simp
    ultimately have "tls_core os v sv S r n pre rpre (sends @ buf) c a f ?s"
      using core st(1) assms(3,4) b pl(2) by (auto simp: tls_core_def)
    then show ?thesis
      using st assms(3) False b(1) by (auto simp: TlsConnection_Send_def tls_inv_def)
  qed
qed

lemma Buffer_ReadAll_reset:
  assumes "buffer_ok b"
  shows "\<exists>b'. Buffer_ReadAll b = Inr (content b, b') \<and> buffer_ok b' \<and> content b' = [] \<and> (\<forall>n<2 ^ 32. room b' n)"
proof -
  have "to_u32 (length (content b)) = ReadableBytes b"
    using length_content [OF assms] by simp
  then have "write_index (HaveRead (length (content b)) b) = 0"
    by (simp add: HaveRead_def Let_def ReadableBytes_def)
  then show ?thesis
    using Buffer_ReadAll_eq [OF assms] HaveRead_ok [OF assms, of "length (content b)"] length_content_less [of b]
    by (simp add: room_def)
qed

text \<open>What a connection has been given may be more than what is left of it once an \<open>SSL_write\<close> has failed.\<close>

lemma tls_inv_widen:
  assumes "tls_inv os ssl v sv S r n pre rpre sends' c a f s" and "tls_parts s c = Some p" and "subseq sends' sends" and "length sends \<le> S"
    and "\<not> tv_failed sv (ssl_engine p) \<longrightarrow> sends' = sends"
  shows "tls_inv os ssl v sv S r n pre rpre sends c a f s"
proof -
  have core: "tls_core os v sv S r n pre rpre sends' c a f s" using assms(1) by (simp add: tls_inv_def)
  then have "subseq (tv_plain sv (ssl_engine p) @ content (pre_write_buffer p)) sends" "room (pre_write_buffer p) (2 ^ 31 - length sends)"
    using assms(2,3) list_emb_length [OF assms(3)] room_le [of "pre_write_buffer p" "2 ^ 31 - length sends'"]
    by (auto simp: tls_core_def intro: subseq_order.order_trans)
  then show ?thesis using assms core by (auto simp: tls_inv_def tls_core_def)
qed

lemma OnSslHandshakeFinished_inv:
  assumes "ssl_within ssl sv S r n" and "tls_core os v sv S r n pre rpre sends c a f s"
  shows "exits_or (\<lambda>(err, s'). tls_inv os ssl v sv S r n pre rpre sends c a f s') (OnSslHandshakeFinished os ssl c s)"
proof -
  obtain p where p: "tls_parts s c = Some p" using assms(2) by (auto simp: tls_core_def)
  have pl: "subseq (tv_plain sv (ssl_engine p) @ content (pre_write_buffer p)) sends" "length sends \<le> S" "buffer_ok (pre_write_buffer p)"
    "\<not> tv_failed sv (ssl_engine p) \<longrightarrow> tv_plain sv (ssl_engine p) @ content (pre_write_buffer p) = sends"
    using assms(2) p by (auto simp: tls_core_def)
  obtain b where b: "Buffer_ReadAll (pre_write_buffer p) = Inr (content (pre_write_buffer p), b)" "buffer_ok b" "content b = []"
    "\<forall>n<2 ^ 32. room b n"
    using Buffer_ReadAll_reset [OF pl(3)] by blast
  let ?p = "p\<lparr>pre_write_buffer := b\<rparr>" and ?plain = "tv_plain sv (ssl_engine p)" and ?buf = "content (pre_write_buffer p)"
  let ?s = "set_tls c ?p s"
  have "conn_stream v c ?s = conn_stream v c s" by (simp add: conn_stream_def)
  moreover have len: "length (?plain @ ?buf) \<le> S" using list_emb_length [OF pl(1)] pl(2) by simp
  moreover have "room b (2 ^ 31 - length ?plain)" using b(4) by simp
  ultimately have "tls_core os v sv S r n pre rpre ?plain c a f ?s"
    using assms(2) p b(2,3) by (auto simp: tls_core_def)
  then have "tls_inv os ssl v sv S r n pre rpre ?plain c a f ?s" using b(3) by (simp add: tls_inv_def)
  from Send_inv [OF assms(1) this _ len, of ?p]
  have "exits_or (\<lambda>(err, s'). tls_inv os ssl v sv S r n pre rpre sends c a f s') (TlsConnection_Send os ssl c ?buf ?s)"
    using pl by (auto elim!: exits_or_mono intro: tls_inv_widen dest: tls_inv_part)
  then show ?thesis using p b(1) by (simp add: OnSslHandshakeFinished_def)
qed

lemma tls_inv_engine:
  assumes "tls_inv os ssl v sv S r n pre rpre sends c a f s" and "tls_parts s c = Some p" and "moves sv (ssl_engine p) e [] [] d"
    and "tv_failed sv e = tv_failed sv (ssl_engine p)" and "SSL_is_init_finished ssl e \<longrightarrow> SSL_is_init_finished ssl (ssl_engine p)"
  shows "tls_inv os ssl v sv S (r + length d) n pre rpre sends c a f (set_tls c (p\<lparr>ssl_engine := e\<rparr>) s)"
  using assms tls_core_engine [OF _ assms(2,3,4)] by (auto simp: tls_inv_def)

lemma HandleSslError_inv:
  assumes "ssl_within ssl sv S r n" and "tls_inv os ssl v sv S r n pre rpre sends c a f s"
  shows "exits_or (\<lambda>(ret, err, s'). tls_inv os ssl v sv S r n pre rpre sends c a f s') (HandleSslError os ssl c k s)"
proof -
  obtain p where p: "tls_parts s c = Some p" using tls_inv_part [OF assms(2)] by blast
  have "tls_core os v sv S r n pre rpre sends c a f s" using assms(2) by (simp add: tls_inv_def)
  from HandleSslError_core [OF assms(1) this p, of k] show ?thesis
    using assms(2) p by (fastforce simp: exits_or_def tls_inv_def)
qed

lemma do_handshake_inv:
  assumes "ssl_within ssl sv S r n" and "tls_inv os ssl v sv S r n pre rpre sends c a f s"
    and "tls_parts s c = Some p" and "\<not> SSL_is_init_finished ssl (ssl_engine p)"
  shows "exits_or (\<lambda>(k, err, s'). tls_inv os ssl v sv S r n pre rpre sends c a f s') (do_handshake os ssl c s)"
proof -
  obtain k e where h: "SSL_do_handshake ssl (ssl_engine p) = (k, e)" by fastforce
  have core: "tls_core os v sv S r n pre rpre sends c a f s" and "tv_valid sv (ssl_engine p)"
    using assms(2,3) by (auto simp: tls_inv_def tls_core_def cipher_ok_def)
  from ssl_promiseD(2) [OF assms(1) this(2) assms(4) h]
  have m: "moves sv (ssl_engine p) e [] [] []" "0 < k \<longleftrightarrow> SSL_is_init_finished ssl e" "tv_failed sv e = tv_failed sv (ssl_engine p)" by simp_all
  let ?p = "p\<lparr>ssl_engine := e\<rparr>"
  have c1: "tls_core os v sv S r n pre rpre sends c a f (set_tls c ?p s)"
    using tls_core_engine [OF core assms(3) m(1,3)] by simp
  show ?thesis
  proof (cases "0 < k")
    case True
    then show ?thesis
      using h assms(3) by (auto simp: do_handshake_def intro!: exits_or_bind [OF OnSslHandshakeFinished_inv [OF assms(1) c1]])
  next
    case False
    then show ?thesis
      using c1 m(2) h assms(3) by (simp add: do_handshake_def tls_inv_def)
  qed
qed

lemma read_decrypted_inv:
  assumes "ssl_within ssl sv S r n" and "tls_inv os ssl v sv S r n pre rpre sends c a f s"
    and "tls_parts s c = Some p" and "SSL_is_init_finished ssl (ssl_engine p)"
  shows "exits_or (\<lambda>(fail, err, s'). tls_inv os ssl v sv S r n pre rpre sends c a f s') (read_decrypted os ssl c s)"
proof -
  obtain cn where cn: "conns s c = Some cn" and core: "tls_core os v sv S r n pre rpre sends c a f s"
    and "tv_valid sv (ssl_engine p)" "reads_ok sv n rpre (ssl_engine p) (read_buffer cn)"
    and ci: "cipher_ok os v sv f n pre (world s) (kv_sent v (world s)) (ssl_engine p) (write_buffer cn)"
    and cr: "conn_ready os v c a f False (n + length pre - length (kv_sent v (world s) @ conn_stream v c s)) s"
    using assms(2,3) by (auto simp: tls_inv_def tls_core_def cipher_ok_def)
  then obtain k e rb g where d: "Decrypt ssl (ssl_engine p) (read_buffer cn) = Some (Inr (k, e, rb))"
    "moves sv (ssl_engine p) e [] g []" "tv_failed sv e = tv_failed sv (ssl_engine p)" "reads_ok sv n rpre e rb"
    using Decrypt_ok [OF assms(1) _ assms(4)] tls_core_plain [OF core assms(3)] by blast
  let ?s = "set_conn c (cn\<lparr>read_buffer := rb\<rparr>) (set_tls c (p\<lparr>ssl_engine := e\<rparr>) s)"
  have st: "conn_stream v c ?s = conn_stream v c s" using cn by (simp add: conn_stream_def)
  have "conn_ready os v c a f False (n + length pre - length (kv_sent v (world s) @ conn_stream v c s)) ?s"
    using conn_ready_read_buffer [of os v c a f False _ "set_tls c (p\<lparr>ssl_engine := e\<rparr>) s" cn rb] cr cn by simp
  then have "tls_inv os ssl v sv S r n pre rpre sends c a f ?s"
    using assms(2,3,4) cn cipher_ok_moves [OF ci d(2)] d(2,3,4) st by (auto simp: tls_inv_def tls_core_def moves_def)
  then have "exits_or (\<lambda>(ret, err, s'). tls_inv os ssl v sv S r n pre rpre sends c a f s') (HandleSslError os ssl c k ?s)"
    by (rule HandleSslError_inv [OF assms(1)])
  then show ?thesis
    using cn assms(3) d(1) by (auto simp: read_decrypted_def exits_or_def)
qed

lemma read_step_inv:
  assumes "ssl_within ssl sv S r n" and "tls_inv os ssl v sv S r n pre rpre sends c a f s"
  shows "exits_or (\<lambda>(fail, err, s'). tls_inv os ssl v sv S r n pre rpre sends c a f s') (read_step os ssl c s)"
proof -
  let ?I = "tls_inv os ssl v sv S r n pre rpre sends c a f"
  obtain p where p: "tls_parts s c = Some p" using tls_inv_part [OF assms(2)] by blast
  show ?thesis
  proof (cases "SSL_is_init_finished ssl (ssl_engine p)")
    case True
    then show ?thesis using read_decrypted_inv [OF assms p True] p by (simp add: read_step_def)
  next
    case False
    have last: "exits_or (\<lambda>(fail, err, s'). ?I s')
        (if ret < 0 then Some (Inr (True, later err1 err2, s2))
         else obind (Some (get_tls c s2)) (\<lambda>p2.
           if SSL_is_init_finished ssl (ssl_engine p2)
           then obind (read_decrypted os ssl c s2) (\<lambda>(fail, err3, s3). Some (Inr (fail, later (later err1 err2) err3, s3)))
           else Some (Inr (False, later err1 err2, s2))))" if s2: "?I s2" for ret err1 err2 s2
    proof -
      obtain p2 where p2: "tls_parts s2 c = Some p2" using tls_inv_part [OF s2] by blast
      show ?thesis
        using s2 p2 by (auto intro!: exits_or_bind [OF read_decrypted_inv [OF assms(1) s2 p2]])
    qed
    show ?thesis
      unfolding read_step_def using False p
      by (auto split: prod.splits
          intro!: exits_or_bind [OF do_handshake_inv [OF assms p False]] exits_or_bind [OF HandleSslError_inv [OF assms(1)]] last [simplified])
  qed
qed

lemma tls_inv_more: "tls_inv os ssl v sv S r n pre rpre sends c a f s \<Longrightarrow> r \<le> r' \<Longrightarrow> tls_inv os ssl v sv S r' n pre rpre sends c a f s"
  unfolding tls_inv_def tls_core_def by (elim conjE exE, intro conjI) (fastforce, assumption)

lemma read_from_loop_inv:
  assumes "ssl_within ssl sv S R n"
  shows "tls_inv os ssl v sv S r n pre rpre sends c a f s \<Longrightarrow> r + length src \<le> R \<Longrightarrow>
     exits_or (\<lambda>(fail, err, s'). tls_inv os ssl v sv S (r + length src) n pre rpre sends c a f s') (read_from_loop os ssl c src err s)"
proof (induction "length src" arbitrary: src r err s rule: less_induct)
  case less
  let ?I = "\<lambda>r. tls_inv os ssl v sv S r n pre rpre sends c a f"
  show ?case
  proof (cases "src = []")
    case True
    then show ?thesis using less.prems by (subst read_from_loop.simps) simp
  next
    case False
    obtain p where p: "tls_parts s c = Some p" using tls_inv_part [OF less.prems(1)] by blast
    obtain k e where w: "BIO_write_in ssl src (ssl_engine p) = (k, e)" by fastforce
    have "tv_valid sv (ssl_engine p)" using less.prems(1) p by (auto simp: tls_inv_def tls_core_def cipher_ok_def)
    note b = ssl_promiseD(4) [OF assms this False w]
    show ?thesis
    proof (cases "k \<le> 0")
      case True
      then show ?thesis using False p w by (subst read_from_loop.simps) simp
    next
      case pos: False
      then have k: "length (take (nat k) src) = nat k" "0 < nat k" "nat k \<le> length src" using b by auto
      have s1: "?I (r + nat k) (set_tls c (p\<lparr>ssl_engine := e\<rparr>) s)"
        using tls_inv_engine [OF less.prems(1) p, of e "take (nat k) src"] b k(1) by simp
      have wi: "ssl_within ssl sv S (r + nat k) n" using k(3) less.prems(2) by (intro ssl_within_le [OF assms]) simp
      have "length (drop (nat k) src) < length src" using k(2,3) by simp
      note IH = less.hyps [OF this, of "r + nat k"]
      have unf: "read_from_loop os ssl c src err s = obind (read_step os ssl c (set_tls c (p\<lparr>ssl_engine := e\<rparr>) s)) (\<lambda>(fail, err', s').
          if fail then Some (Inr (True, later err err', s')) else read_from_loop os ssl c (drop (nat k) src) (later err err') s')"
        using False pos p w by (subst read_from_loop.simps) (simp add: obind_def Option.bind_eq_None_conv split: option.split sum.split)
      have sum: "r + nat k + length (drop (nat k) src) = r + length src" using k(3) by simp
      have more: "?I (r + nat k) s' \<Longrightarrow> ?I (r + length src) s'" for s' using k(3) by (elim tls_inv_more) simp
      show ?thesis
        unfolding unf using IH less.prems(2) unfolding sum
        by (auto intro!: exits_or_bind [OF read_step_inv [OF wi s1]] more)
    qed
  qed
qed

lemma ReadFromBuffer_inv:
  assumes "ssl_within ssl sv S R n" and "tls_inv os ssl v sv S r n pre rpre sends c a f s" and "r + length src \<le> R"
  shows "exits_or (\<lambda>(fail, err, s'). tls_inv os ssl v sv S (r + length src) n pre rpre sends c a f s') (ReadFromBuffer os ssl c src s)"
proof -
  let ?len = "nat (to_i32 (int (length src)))"
  have "exits_or (\<lambda>(fail, err, s'). tls_inv os ssl v sv S (r + length (take ?len src)) n pre rpre sends c a f s') (read_from_loop os ssl c (take ?len src) None s)"
    by (rule read_from_loop_inv [OF assms(1,2)]) (use assms(3) in auto)
  then have "exits_or (\<lambda>(fail, err, s'). tls_inv os ssl v sv S (r + length src) n pre rpre sends c a f s') (read_from_loop os ssl c (take ?len src) None s)"
    by (rule exits_or_mono) (auto elim: tls_inv_more)
  then show ?thesis using tls_inv_more [OF assms(2)] by (simp add: ReadFromBuffer_def Let_def)
qed

lemma tls_inv_world:
  assumes "tls_inv os ssl v sv S r n pre rpre sends c a f s" and "kv_sent v w = kv_sent v (world s)"
    and "(\<lambda>g. kv_fdata v g w) = (\<lambda>g. kv_fdata v g (world s))" and "kv_iset v w f = kv_iset v (world s) f"
  shows "tls_inv os ssl v sv S r n pre rpre sends c a f (set_world w s)"
proof -
  have st: "conn_stream v c (set_world w s) = conn_stream v c s"
    using assms(1,3) by (auto simp: tls_inv_def tls_core_def conn_stream_def out_stream_def split: out_buffer.splits)
  have "conn_ready os v c a f False m s \<Longrightarrow> conn_ready os v c a f False m (set_world w s)" for m
    unfolding conn_ready_def using out_ok_world [OF _ assms(3)] assms(4) by auto
  moreover have "cipher_ok os v sv f n pre (world s) P e wb \<Longrightarrow> cipher_ok os v sv f n pre w P e wb" for P e wb
    using out_ok_world(1) [OF _ assms(3)] by (auto simp: cipher_ok_def out_stream_def)
  ultimately show ?thesis
    using assms(1,2) unfolding tls_inv_def tls_core_def st by (simp add: set_world_def) blast
qed

text \<open>
  What reading from the descriptor promises, that at most \<open>m\<close> bytes wait at any time, and that reading leaves what was sent
  and the registration alone.
\<close>

definition read_kernel :: "'w posix \<Rightarrow> 'w kernel_view \<Rightarrow> fd \<Rightarrow> ('w \<Rightarrow> string) \<Rightarrow> ('w \<Rightarrow> nat) \<Rightarrow> nat \<Rightarrow> bool" where
  "read_kernel os v f recv avail m \<longleftrightarrow>
     read_delivers os f recv avail \<and> (\<forall>w. avail w \<le> m) \<and>
     (\<forall>n w. (kv_sent v (snd (sys_read os f n w)), \<lambda>g. kv_fdata v g (snd (sys_read os f n w)), kv_iset v (snd (sys_read os f n w)) f)
        = (kv_sent v w, \<lambda>g. kv_fdata v g w, kv_iset v w f))"

lemma ReadBuffer_inv:
  assumes "ssl_within ssl sv S R n" and "read_kernel os v f recv avail m" and "m < 2 ^ 32" and "tls_inv os ssl v sv S r n pre rpre sends c a f s"
    and "r + m \<le> R"
  shows "exits_or (\<lambda>(ret, s'). tls_inv os ssl v sv S (r + m) n pre rpre sends c a f s') (TlsConnection_ReadBuffer os ssl c s)"
proof -
  let ?I = "\<lambda>r. tls_inv os ssl v sv S r n pre rpre sends c a f" and ?keep = "\<lambda>w. (kv_sent v w, \<lambda>g. kv_fdata v g w, kv_iset v w f)"
  have rd: "read_delivers os f recv avail" "avail (world s) \<le> m" and k: "\<forall>n w. ?keep (snd (sys_read os f n w)) = ?keep w"
    using assms(2) by (simp_all add: read_kernel_def)
  obtain cn ch where st: "conns s c = Some cn" "chans s (conn_channel cn) = Some ch" "ch_fd ch = f"
    using assms(4) by (auto simp: tls_inv_def tls_core_def conn_ready_def)
  have "room Buffer_new (avail (world s))" using rd(2) assms(3) by simp
  from ReadBufferFromFd_loop [OF rd(1) buffer_ok_new this] show ?thesis
  proof (elim disjE exE conjE)
    fix ret b w bs
    assume r: "ReadBufferFromFd os f Buffer_new (world s) = Some (Inr (ret, b, w))" and b: "buffer_ok b"
      and bs: "content b = content Buffer_new @ bs" "length bs \<le> avail (world s)"
    obtain b' where ra: "Buffer_ReadAll b = Inr (content b, b')" using Buffer_ReadAll_ok [OF b] by blast
    have len: "length (content b) \<le> m" using bs rd(2) by simp
    have "?I r (set_world w s)"
      using ReadBufferFromFd_keeps [of ?keep, OF k r] by (intro tls_inv_world [OF assms(4)]) auto
    from ReadFromBuffer_inv [OF assms(1) this, of "content b"]
    have "exits_or (\<lambda>(fail, err, s'). ?I (r + m) s') (ReadFromBuffer os ssl c (content b) (set_world w s))"
      using len assms(5) by (auto elim!: exits_or_mono tls_inv_more)
    then show ?thesis
      using st r ra by (auto simp: TlsConnection_ReadBuffer_def intro!: exits_or_bind)
  qed (use st in \<open>simp add: TlsConnection_ReadBuffer_def\<close>)
qed

lemma Connection_WriteBuffer_inv:
  fixes s :: "('u, 'w, 'e, 'z) tls_net_scheme"
  assumes "tls_inv os ssl v sv S r n pre rpre sends c a f s"
  shows "exits_or (\<lambda>(ret, s'). tls_inv os ssl v sv S r n pre rpre sends c a f s' \<and> (\<forall>n. ret = Ret n \<longrightarrow> conn_stream v c s' = []))
     (Connection_WriteBuffer os c s)"
  using tls_core_WriteBuffer [of os v sv S r n pre rpre sends c a f s] assms
  by (auto simp: tls_inv_def elim!: exits_or_mono)

lemma WriteBuffer_inv:
  assumes "ssl_within ssl sv S r n" and "tls_inv os ssl v sv S r n pre rpre sends c a f s"
  shows "exits_or (\<lambda>(ret, s'). tls_inv os ssl v sv S r n pre rpre sends c a f s' \<and> (\<forall>n. ret = Ret n \<longrightarrow> conn_stream v c s' = []))
     (TlsConnection_WriteBuffer os ssl c s)"
proof -
  obtain p where p: "tls_parts s c = Some p" using tls_inv_part [OF assms(2)] by blast
  show ?thesis
  proof (cases "is_server p \<or> SSL_is_init_finished ssl (ssl_engine p)")
    case True
    then show ?thesis using p Connection_WriteBuffer_inv [OF assms(2)] by (simp add: TlsConnection_WriteBuffer_def)
  next
    case False
    show ?thesis
      unfolding TlsConnection_WriteBuffer_def using False p
      by (auto intro!: exits_or_bind [OF do_handshake_inv [OF assms p]] exits_or_bind [OF HandleSslError_inv [OF assms(1)]]
          Connection_WriteBuffer_inv [simplified])
  qed
qed

section \<open>Runs\<close>

datatype tls_op = TlsSend string | TlsReadable | TlsWritable

fun tls_do ::
  "'w posix \<Rightarrow> 'e openssl \<Rightarrow> ('u, 'w, ('e, 'z) tls_net_ext) user_code \<Rightarrow> addr \<Rightarrow> tls_op \<Rightarrow> ('u, 'w, 'e, 'z) tls_net_scheme \<Rightarrow>
     ('u, 'w, 'e, 'z) tls_net_scheme res option" where
  "tls_do os ssl user c (TlsSend bs) s = virtual_Send os ssl c bs s"
| "tls_do os ssl user c TlsReadable s = obind (virtual_ReadBuffer os ssl c s) (\<lambda>(_, s'). Some (Inr s'))"
| "tls_do os ssl user c TlsWritable s = OnWriteCallback_via os (virtual_WriteBuffer os ssl) user c s"

fun tls_run ::
  "'w posix \<Rightarrow> 'e openssl \<Rightarrow> ('u, 'w, ('e, 'z) tls_net_ext) user_code \<Rightarrow> addr \<Rightarrow> tls_op list \<Rightarrow> ('u, 'w, 'e, 'z) tls_net_scheme \<Rightarrow>
     ('u, 'w, 'e, 'z) tls_net_scheme res option" where
  "tls_run os ssl user c [] s = Some (Inr s)"
| "tls_run os ssl user c (op # ops) s = obind (tls_do os ssl user c op s) (tls_run os ssl user c ops)"

fun tls_bytes :: "tls_op \<Rightarrow> string" where
  "tls_bytes (TlsSend bs) = bs"
| "tls_bytes _ = []"

text \<open>Every read event feeds the engine at most \<open>m\<close> bytes.\<close>

fun tls_input :: "nat \<Rightarrow> tls_op \<Rightarrow> nat" where
  "tls_input m TlsReadable = m"
| "tls_input m _ = 0"

lemma tls_do_inv:
  assumes "ssl_within ssl sv S R n" and "read_kernel os v f recv avail m" and "m < 2 ^ 32" and "tls_inv os ssl v sv S r n pre rpre sends c a f s"
    and "length (sends @ tls_bytes op) \<le> S" and "r + tls_input m op \<le> R"
  shows "exits_or (tls_inv os ssl v sv S (r + tls_input m op) n pre rpre (sends @ tls_bytes op) c a f) (tls_do os ssl user c op s)"
proof -
  obtain p where p: "tls_parts s c = Some p" using tls_inv_part [OF assms(4)] by blast
  have wi: "ssl_within ssl sv S r n" using assms(6) by (intro ssl_within_le [OF assms(1)]) simp
  show ?thesis
  proof (cases op)
    case (TlsSend bs)
    then have "length (sends @ bs) \<le> S" using assms(5) by simp
    then show ?thesis using TlsSend p
      by (auto simp: virtual_Send_def intro!: exits_or_bind [OF Send_inv [OF wi assms(4) p \<open>length (sends @ bs) \<le> S\<close>]])
  next
    case TlsReadable
    then have "r + m \<le> R" using assms(6) by simp
    from ReadBuffer_inv [OF assms(1-4) this] show ?thesis
      using p TlsReadable by (auto simp: virtual_ReadBuffer_def intro!: exits_or_bind)
  next
    case TlsWritable
    have w: "exits_or (tls_inv os ssl v sv S r n pre rpre sends c a f)
        (obind (Some (get_conn c s1)) (\<lambda>cn1. obind (user_call user (on_write cn1) c s1) (\<lambda>s2. obind (Some (get_conn c s2)) (\<lambda>cn2.
           if shut_down cn2 \<and> IBuffer_Empty (write_buffer cn2) then OnCloseCallback os user c s2
           else Some (Connection_EnableWrite os c ret s2)))))"
      if s1: "tls_inv os ssl v sv S r n pre rpre sends c a f s1" "\<forall>n. ret = Ret n \<longrightarrow> conn_stream v c s1 = []" for ret s1
    proof -
      have core: "tls_core os v sv S r n pre rpre sends c a f s1" using s1(1) by (simp add: tls_inv_def)
      then obtain cn where "conns s1 c = Some cn" "on_write cn = None" "\<not> shut_down cn"
        unfolding tls_core_def conn_ready_def by blast
      then show ?thesis
        using tls_core_EnableWrite [OF core s1(2)] s1(1) by (auto simp: user_call_def tls_inv_def elim!: exits_or_mono)
    qed
    show ?thesis
      using p TlsWritable
      by (auto simp: OnWriteCallback_via_def virtual_WriteBuffer_def intro!: exits_or_bind [OF WriteBuffer_inv [OF wi assms(4)]] w)
  qed
qed

lemma tls_run_inv:
  assumes "ssl_within ssl sv S R n" and "read_kernel os v f recv avail m" and "m < 2 ^ 32"
  shows "tls_inv os ssl v sv S r n pre rpre sends c a f s \<Longrightarrow> length (sends @ concat (map tls_bytes ops)) \<le> S \<Longrightarrow>
     r + sum_list (map (tls_input m) ops) \<le> R \<Longrightarrow>
     exits_or (tls_inv os ssl v sv S (r + sum_list (map (tls_input m) ops)) n pre rpre (sends @ concat (map tls_bytes ops)) c a f) (tls_run os ssl user c ops s)"
proof (induction ops arbitrary: sends r s)
  case (Cons op ops)
  have "length (sends @ tls_bytes op) \<le> S" "r + tls_input m op \<le> R" using Cons.prems(2,3) by simp_all
  note step = tls_do_inv [OF assms Cons.prems(1) this]
  show ?case
    using Cons.IH [of "r + tls_input m op" "sends @ tls_bytes op"] Cons.prems(2,3)
    by (simp, intro exits_or_bind [OF step]) (simp add: add.assoc)
qed simp

definition fresh_engine :: "'e tls_view \<Rightarrow> 'e \<Rightarrow> bool" where
  "fresh_engine sv e \<longleftrightarrow> tv_valid sv e \<and> tv_plain sv e = [] \<and> tv_made sv e = [] \<and> tv_out sv e = [] \<and> tv_got sv e = [] \<and> tv_fed sv e = [] \<and>
     \<not> tv_failed sv e"

lemma TlsConnection_new_swap:
  "TlsConnection_new ssl lp f server c a s =
     Connection_new lp f False c a
       (set_tls c \<lparr>ssl_engine = SSL_new ssl server, tls_accepted = False, is_server = server, pre_write_buffer = Buffer_new\<rparr> s)"
  by (cases s) (simp add: TlsConnection_new_def Connection_new_def set_tls_def set_conn_def set_chan_def)

lemma Connection_Init_frame:
  fixes s :: "('u, 'w, 'e, 'z) tls_net_scheme"
  assumes "Connection_Init os c s = Inr s1"
  shows "tls_parts s1 = tls_parts s" and "conns s1 = conns s"
proof -
  obtain cn ch s2 where u: "conns s c = Some cn"
    "UpdateToLoop os (conn_channel cn) EPOLL_CTL_ADD (set_chan (conn_channel cn) (SetEpollEdgeTriggered True ch) s) = Inr s2"
    "SetChannelCallbacks c s2 = Inr s1"
    using assms by (auto simp: Connection_Init_def sbind_Inr get_conn_def get_chan_def split: option.splits)
  from UpdateToLoop_called [OF u(2)] have "tls_parts s2 = tls_parts s" "conns s2 = conns s" by (auto simp: poller_called_def)
  then show "tls_parts s1 = tls_parts s" "conns s1 = conns s"
    using u(3) by (auto simp: SetChannelCallbacks_def sbind_Inr)
qed

lemma TlsConnection_Init_inv:
  assumes "conn_kernel os v f (poll_fd l)" and "loops s lp = Some l" and "kv_iset v (world s) f = None" and "n < 2 ^ 32"
    and "TlsConnection_Init os c (TlsConnection_new ssl lp f server c a s) = Inr s1"
    and "fresh_engine sv (SSL_new ssl server)"
  shows "tls_inv os ssl v sv S 0 n (kv_sent v (world s)) [] [] c a f s1"
proof -
  define part where "part = \<lparr>ssl_engine = SSL_new ssl server, tls_accepted = False, is_server = server, pre_write_buffer = Buffer_new\<rparr>"
  let ?s0 = "Connection_new lp f False c a (set_tls c part s)"
  obtain s2 where s2: "Connection_Init os c ?s0 = Inr s2"
    and s1: "s1 = s2 \<or> (\<exists>cn ch. conns s2 c = Some cn \<and> chans s2 (conn_channel cn) = Some ch \<and>
      s1 = set_chan (conn_channel cn) (SetEpollEdgeTriggered False ch) s2)"
    using assms(5) unfolding TlsConnection_new_swap part_def [symmetric]
    by (auto simp: TlsConnection_Init_def sbind_Inr get_conn_def get_chan_def split: if_splits option.splits)
  have l: "loops (set_tls c part s) lp = Some l" "kv_iset v (world (set_tls c part s)) f = None" using assms(2,3) by simp_all
  note i = Connection_Init_ready [OF assms(1) l s2 assms(4)]
  have fr: "tls_parts s2 c = Some part" "conns s2 = conns ?s0"
    using Connection_Init_frame [OF s2] by (simp_all add: Connection_new_def)
  have same: "world s1 = world s2" "conns s1 = conns s2" "tls_parts s1 = tls_parts s2" using s1 by auto
  have cr: "conn_ready os v c a f False n s1"
    using i(1) s1 by (auto simp: conn_ready_def SetEpollEdgeTriggered_def)
  have str: "conn_stream v c s1 = []" using i(3) same by (simp add: conn_stream_def)
  have sent: "kv_sent v (world s1) = kv_sent v (world s)" using i(4) same by simp
  obtain cn where cn: "conns s1 c = Some cn" "read_buffer cn = Buffer_new" "write_buffer cn = Plain Buffer_new"
    using same fr(2) by (simp add: Connection_new_def)
  have "out_ok os f (kv_sent v) (kv_fdata v) (kv_data v) (\<lambda>w. kv_iset v w f) n (world s1) (Plain Buffer_new)"
    using cr cn unfolding conn_ready_def by auto
  then have "cipher_ok os v sv f n (kv_sent v (world s)) (world s1) (kv_sent v (world s1)) (ssl_engine part) (write_buffer cn)"
    using assms(6) cn(3) sent by (simp add: cipher_ok_def part_def out_stream_def fresh_engine_def)
  then show ?thesis
    using cr str sent cn same fr(1) assms(4,6)
    by (auto simp: tls_inv_def tls_core_def reads_ok_def part_def fresh_engine_def)
qed

text \<open>
  Property C6. An encrypted connection sends what it is given, in order, before and after the handshake: after any
  sequence of \<open>Send\<close>, reads and write events, the plain text the engine has taken, followed by the plain
  text that waits for the handshake, is the concatenation of the strings given to \<open>Send\<close>, unless a call of \<open>SSL_write\<close> has
  failed, and then something may be missing, but nothing is moved or repeated. Nothing
  waits any more once the handshake is finished. What the engine has written is what the socket has
  taken, then the output buffer, then the engine's own \<open>BIO\<close>; and the read buffer holds what the
  engine has delivered. A call returns or ends the process. The amount of plain text and of input is such that what
  the engine makes of it is less than the 4 gigabytes that a buffer can hold.
\<close>

theorem tls_keeps_order:
  assumes "conn_kernel os v f (poll_fd l)" and "loops s lp = Some l" and "kv_iset v (world s) f = None"
    and "read_kernel os v f recv avail m" and "m < 2 ^ 32" and "ssl_promise ssl sv" and "fresh_engine sv (SSL_new ssl server)"
    and "TlsConnection_Init os c (TlsConnection_new ssl lp f server c a s) = Inr s1"
    and "length (concat (map tls_bytes ops)) < 2 ^ 31"
    and "tv_cap sv (length (concat (map tls_bytes ops))) (sum_list (map (tls_input m) ops)) < 2 ^ 32"
  shows "exits_or (\<lambda>s2. \<exists>cn p. conns s2 c = Some cn \<and> tls_parts s2 c = Some p \<and>
       subseq (tv_plain sv (ssl_engine p) @ content (pre_write_buffer p)) (concat (map tls_bytes ops)) \<and>
       (\<not> tv_failed sv (ssl_engine p) \<longrightarrow> tv_plain sv (ssl_engine p) @ content (pre_write_buffer p) = concat (map tls_bytes ops)) \<and>
       (SSL_is_init_finished ssl (ssl_engine p) \<longrightarrow> content (pre_write_buffer p) = []) \<and>
       kv_sent v (world s) @ tv_made sv (ssl_engine p) = kv_sent v (world s2) @ conn_stream v c s2 @ tv_out sv (ssl_engine p) \<and>
       content (read_buffer cn) = tv_got sv (ssl_engine p)) (tls_run os ssl user c ops s1)"
proof -
  let ?S = "length (concat (map tls_bytes ops))" and ?R = "sum_list (map (tls_input m) ops)"
  have "ssl_within ssl sv ?S ?R (tv_cap sv ?S ?R)" using assms(6,9) by (simp add: ssl_within_def)
  from tls_run_inv [OF this assms(4,5) TlsConnection_Init_inv [OF assms(1-3,10,8,7)], of ops user] show ?thesis
    by (auto simp: tls_inv_def tls_core_def cipher_ok_def reads_ok_def conn_stream_def elim!: exits_or_mono)
qed

text \<open>
  An engine that keeps the promises: the handshake is finished by the first byte that arrives, and the cipher
  is the identity.
\<close>

record toy_engine =
  te_fin :: bool
  te_plain :: string
  te_fed :: string
  te_made :: string
  te_out :: string
  te_got :: string
  te_in :: string

definition toy_ssl :: "toy_engine openssl" where
  "toy_ssl =
     \<lparr>SSL_new = (\<lambda>server. \<lparr>te_fin = False, te_plain = [], te_fed = [], te_made = [], te_out = [], te_got = [], te_in = []\<rparr>),
      SSL_is_init_finished = te_fin,
      SSL_do_handshake = (\<lambda>e. if te_in e = [] then (-1, e) else (1, e\<lparr>te_fin := True, te_in := tl (te_in e)\<rparr>)),
      SSL_write = (\<lambda>buf e. (int (length buf), e\<lparr>te_plain := te_plain e @ buf, te_made := te_made e @ buf, te_out := te_out e @ buf\<rparr>)),
      SSL_read = (\<lambda>m e. let g = take m (te_in e) in
        (int (length g), g, e\<lparr>te_got := te_got e @ g, te_in := drop (length g) (te_in e)\<rparr>)),
      SSL_get_error = (\<lambda>n e. SSL_ERROR_WANT_READ),
      BIO_write_in = (\<lambda>src e. (int (length src), e\<lparr>te_in := te_in e @ src, te_fed := te_fed e @ src\<rparr>)),
      BIO_read_out = (\<lambda>m e. let x = take m (te_out e) in (int (length x), x, e\<lparr>te_out := drop m (te_out e)\<rparr>))\<rparr>"

definition toy_view :: "toy_engine tls_view" where
  "toy_view = \<lparr>tv_plain = te_plain, tv_fed = te_fed, tv_made = te_made, tv_out = te_out, tv_got = te_got, tv_left = (\<lambda>e. length (te_in e)),
     tv_failed = (\<lambda>e. False),
     tv_valid = (\<lambda>e. te_made e = te_plain e \<and> length (te_got e) + length (te_in e) \<le> length (te_fed e)), tv_cap = (+)\<rparr>"

lemma toy_promise: "ssl_promise toy_ssl toy_view" "fresh_engine toy_view (SSL_new toy_ssl server)"
proof -
  have "BIO_read_promise toy_ssl toy_view"
    by (auto simp: BIO_read_promise_def toy_ssl_def toy_view_def Let_def min_def)
  moreover have "handshake_promise toy_ssl toy_view"
    by (auto simp: handshake_promise_def toy_ssl_def toy_view_def moves_def split: if_splits)
  moreover have "SSL_write_promise toy_ssl toy_view"
    by (auto simp: SSL_write_promise_def toy_ssl_def toy_view_def moves_def Let_def)
  moreover have "SSL_read_promise toy_ssl toy_view"
    by (auto simp: SSL_read_promise_def toy_ssl_def toy_view_def moves_def Let_def) (simp_all add: min_def split: if_splits)
  moreover have "BIO_write_promise toy_ssl toy_view"
    by (auto simp: BIO_write_promise_def toy_ssl_def toy_view_def moves_def)
  ultimately show "ssl_promise toy_ssl toy_view" by (simp add: ssl_promise_def) (simp add: toy_view_def)
  show "fresh_engine toy_view (SSL_new toy_ssl server)" by (simp add: fresh_engine_def toy_ssl_def toy_view_def)
qed

text \<open>A kernel that delivers one byte.\<close>

definition byte_posix :: "sample_kernel posix" where
  "byte_posix = sample_posix\<lparr>sys_read := \<lambda>f n w.
     if received w = [] \<and> 0 < n then (Ret ''!'', w\<lparr>received := ''!''\<rparr>) else (Err EAGAIN, w)\<rparr>"

lemma byte_kernel:
  "read_kernel byte_posix sample_view f received (\<lambda>w. if received w = [] then 1 else 0) 1"
  "f \<noteq> 0 \<Longrightarrow> f \<noteq> 9 \<Longrightarrow> conn_kernel byte_posix sample_view f ep"
proof -
  show "read_kernel byte_posix sample_view f received (\<lambda>w. if received w = [] then 1 else 0) 1"
    by (auto simp: read_kernel_def read_delivers_def byte_posix_def sample_view_def split: if_splits)
  have eqs: "sys_write byte_posix = sys_write sample_posix" "sys_open byte_posix = sys_open sample_posix"
    "sys_fsize byte_posix = sys_fsize sample_posix" "sys_sendfile byte_posix = sys_sendfile sample_posix"
    "sys_close byte_posix = sys_close sample_posix" "sys_epoll_ctl byte_posix = sys_epoll_ctl sample_posix"
    by (simp_all add: byte_posix_def)
  have rd: "\<forall>n w. epoll_set (snd (sys_read byte_posix f n w)) f = epoll_set w f" by (simp add: byte_posix_def)
  assume "f \<noteq> 0" "f \<noteq> 9"
  from sample_conn_kernel [OF this, of ep] rd show "conn_kernel byte_posix sample_view f ep"
    unfolding conn_kernel_def socket_kernel_def write_accepts_def files_stable_def sendfile_accepts_def io_keeps_def epoll_tracks_def eqs
      sample_view_def kernel_view.simps
    by (elim conjE, intro conjI) assumption+
qed

definition byte_net :: "(nat, sample_kernel, toy_engine) tls_net" where
  "byte_net = \<lparr>chans = Map.empty, loops = [1 \<mapsto> sample_loop], world = sample_world [] 20, conns = Map.empty, tls_parts = Map.empty\<rparr>"

definition byte_init :: "(nat, sample_kernel, toy_engine) tls_net res" where
  "byte_init = TlsConnection_Init byte_posix 2 (TlsConnection_new toy_ssl 1 4 True 2 3 byte_net)"

lemmas byte_eval = byte_init_def byte_net_def byte_posix_def TlsConnection_Init_def TlsConnection_new_def set_tls_def get_tls_def
  sample_init_eval

definition byte_ready :: "(nat, sample_kernel, toy_engine) tls_net" where
  "byte_ready =
     (let evts = kPollIn OR kPollRdHup OR kPollOut OR kPollEt in
      \<lparr>chans = [3 \<mapsto> \<lparr>ch_loop = Some 1, revents = 0, events = evts, read_callback = Some (Client (ConnRead 2)),
          write_callback = Some (Client (ConnWrite 2)), close_callback = Some (Client (ConnClose 2)),
          error_callback = Some (Client (ConnClose 2)), ch_fd = 4\<rparr>],
       loops = [1 \<mapsto> sample_loop\<lparr>cur_poll_size := 3\<rparr>],
       world = (sample_world [] 20)\<lparr>epoll_set := [4 \<mapsto> (evts, 3)]\<rparr>,
       conns = [2 \<mapsto> \<lparr>conn_channel = 3, on_read = None, on_write = None, on_close = None, read_buffer = Buffer_new,
          write_buffer = Plain Buffer_new, shut_down = False, conn_send_file = False\<rparr>],
       tls_parts = [2 \<mapsto> \<lparr>ssl_engine = SSL_new toy_ssl True, tls_accepted = False, is_server = True, pre_write_buffer = Buffer_new\<rparr>]\<rparr>)"

lemma byte_init_ready: "byte_init = Inr byte_ready"
  by (simp add: byte_eval byte_ready_def or.assoc Let_def)

lemma toy_calls:
  "SSL_new toy_ssl server = \<lparr>te_fin = False, te_plain = [], te_fed = [], te_made = [], te_out = [], te_got = [], te_in = []\<rparr>"
  "SSL_is_init_finished toy_ssl e = te_fin e" "SSL_get_error toy_ssl n e = SSL_ERROR_WANT_READ"
  "SSL_do_handshake toy_ssl e = (if te_in e = [] then (-1, e) else (1, e\<lparr>te_fin := True, te_in := tl (te_in e)\<rparr>))"
  "BIO_write_in toy_ssl src e = (int (length src), e\<lparr>te_in := te_in e @ src, te_fed := te_fed e @ src\<rparr>)"
  by (simp_all add: toy_ssl_def)

definition toy_sent :: toy_engine where
  "toy_sent = \<lparr>te_fin = True, te_plain = ''hi'', te_fed = ''!'', te_made = ''hi'', te_out = [], te_got = [], te_in = []\<rparr>"

lemma toy_loops:
  "Encrypt toy_ssl toy_sent wb = Some (Inr (toy_sent, wb))"
  "Decrypt toy_ssl toy_sent rb = Some (Inr (0, toy_sent, rb))"
  "write_loop toy_ssl ''hi'' 0 2 (toy_sent\<lparr>te_plain := [], te_made := []\<rparr>) (Plain Buffer_new) =
     Some (Inr (toy_sent, Plain \<lparr>read_index = 0, write_index = 2, vec = ''hi''\<rparr>))"
proof -
  show e: "Encrypt toy_ssl toy_sent wb = Some (Inr (toy_sent, wb))" for wb
    by (subst Encrypt.simps) (simp add: toy_ssl_def toy_sent_def kMaxBufferSize_def)
  show "Decrypt toy_ssl toy_sent rb = Some (Inr (0, toy_sent, rb))"
    by (subst Decrypt.simps) (simp add: toy_ssl_def toy_sent_def kMaxBufferSize_def)
  have w: "IBuffer_Write ''hi'' (Plain Buffer_new) = Inr (Plain \<lparr>read_index = 0, write_index = 2, vec = ''hi''\<rparr>)"
    by (simp add: IBuffer_Write_def Buffer_Write_def Buffer_new_def)
  have "Encrypt toy_ssl (toy_sent\<lparr>te_out := ''hi''\<rparr>) (Plain Buffer_new) = Encrypt toy_ssl toy_sent (Plain \<lparr>read_index = 0, write_index = 2, vec = ''hi''\<rparr>)"
    by (subst Encrypt.simps) (simp add: toy_ssl_def toy_sent_def kMaxBufferSize_def w)
  moreover have "SSL_write toy_ssl ''hi'' (toy_sent\<lparr>te_plain := [], te_made := []\<rparr>) = (2, toy_sent\<lparr>te_out := ''hi''\<rparr>)"
    by (simp add: toy_ssl_def toy_sent_def Let_def)
  ultimately have "write_loop toy_ssl ''hi'' 0 2 (toy_sent\<lparr>te_plain := [], te_made := []\<rparr>) (Plain Buffer_new) =
      write_loop toy_ssl ''hi'' 2 2 toy_sent (Plain \<lparr>read_index = 0, write_index = 2, vec = ''hi''\<rparr>)"
    using e by (subst write_loop.simps) simp
  also have "\<dots> = Some (Inr (toy_sent, Plain \<lparr>read_index = 0, write_index = 2, vec = ''hi''\<rparr>))" by (subst write_loop.simps) simp
  finally show "write_loop toy_ssl ''hi'' 0 2 (toy_sent\<lparr>te_plain := [], te_made := []\<rparr>) (Plain Buffer_new) =
     Some (Inr (toy_sent, Plain \<lparr>read_index = 0, write_index = 2, vec = ''hi''\<rparr>))" .
qed

lemma byte_calls:
  "sys_epoll_ctl byte_posix = sample_epoll_ctl" "sys_write byte_posix = sample_write"
  by (simp_all add: byte_posix_def sample_posix_def)

text \<open>A string is given to \<open>Send\<close> before the handshake, and a byte arrives that finishes it.\<close>

lemma byte_run:
  "\<exists>s2. tls_run byte_posix toy_ssl user 2 [TlsSend ''hi'', TlsReadable] byte_ready = Some (Inr s2) \<and> accepted (world s2) = ''hi''"
proof -
  let ?hi = "\<lparr>read_index = 0, write_index = 2, vec = ''hi''\<rparr>"
  let ?part = "\<lambda>e b. \<lparr>ssl_engine = e, tls_accepted = False, is_server = True, pre_write_buffer = b\<rparr>"
  have rd: "ReadBufferFromFd byte_posix 4 Buffer_new w = Some (Inr (Err EAGAIN, \<lparr>read_index = 0, write_index = 1, vec = ''!''\<rparr>, w\<lparr>received := ''!''\<rparr>))"
    if "received w = []" for w
    using that by (simp add: ReadBufferFromFd.simps byte_posix_def Buffer_Write_def Buffer_new_def kReadBufferSize_def)
  define s1 where "s1 = set_tls 2 (?part (SSL_new toy_ssl True) ?hi) byte_ready"
  have send: "virtual_Send byte_posix toy_ssl 2 ''hi'' byte_ready = Some (Inr s1)"
    by (simp add: s1_def byte_ready_def virtual_Send_def TlsConnection_Send_def get_tls_def get_conn_def toy_calls Buffer_Write_def Buffer_new_def Let_def)
  have nil: "read_from_loop byte_posix toy_ssl 2 [] err s = Some (Inr (False, err, s))" for err s
    by (subst read_from_loop.simps) simp
  have rf: "read_from_loop byte_posix toy_ssl 2 ''!'' None s =
      obind (read_step byte_posix toy_ssl 2 (set_tls 2 (p\<lparr>ssl_engine := (ssl_engine p)\<lparr>te_in := te_in (ssl_engine p) @ ''!'', te_fed := te_fed (ssl_engine p) @ ''!''\<rparr>\<rparr>) s))
        (\<lambda>(fail, err, s'). Some (Inr (fail, later None err, s')))" if "tls_parts s 2 = Some p"
    for s :: "(nat, sample_kernel, toy_engine) tls_net" and p
    using that by (subst read_from_loop.simps)
      (auto simp: toy_calls nil obind_def split: option.split sum.split)
  have ra: "Buffer_ReadAll \<lparr>read_index = 0, write_index = 1, vec = ''!''\<rparr> = Inr (''!'', \<lparr>read_index = 0, write_index = 0, vec = ''!''\<rparr>)"
    "Buffer_ReadAll ?hi = Inr (''hi'', \<lparr>read_index = 0, write_index = 0, vec = ''hi''\<rparr>)"
    by (simp_all add: Buffer_ReadAll_def Buffer_Read_def Buffer_Peek_def HaveRead_def ReadableBytes_def)
  have i32: "to_i32 1 = 1" "to_i32 2 = 2" by (simp_all add: to_i32_id)
  have "\<exists>r s2. virtual_ReadBuffer byte_posix toy_ssl 2 s1 = Some (Inr (r, s2)) \<and> accepted (world s2) = ''hi''"
    by (simp add: s1_def byte_ready_def virtual_ReadBuffer_def TlsConnection_ReadBuffer_def ReadFromBuffer_def rd ra i32 rf
        sample_world_def Let_def read_step_def do_handshake_def OnSslHandshakeFinished_def TlsConnection_Send_def toy_calls
        toy_loops [unfolded toy_sent_def, simplified] flush_write_def Connection_WriteBuffer_def Connection_EnableWrite_def
        Channel_EnableWrite_def UpdateToLoop_def UpdateChannel_def IBuffer_WriteBufferToFd_def WriteBufferToFd.simps byte_calls
        sample_write_def sample_epoll_ctl_def read_decrypted_def HandleSslError_def get_tls_def set_tls_def Buffer_Peek_def HaveRead_def
        ReadableBytes_def kWriteBufferSize_def sample_eval)
  then show ?thesis using send by auto
qed

theorem tls_keeps_order_witness:
  "\<exists>s2 cn p. byte_init = Inr byte_ready \<and>
     tls_run byte_posix toy_ssl (\<lambda>_ _ s. Some (Inr s)) 2 [TlsSend ''hi'', TlsReadable] byte_ready = Some (Inr s2) \<and>
     conns s2 2 = Some cn \<and> tls_parts s2 2 = Some p \<and> te_plain (ssl_engine p) @ content (pre_write_buffer p) = ''hi'' \<and>
     te_made (ssl_engine p) = ''hi'' @ conn_stream sample_view 2 s2 @ te_out (ssl_engine p) \<and> content (read_buffer cn) = te_got (ssl_engine p)"
proof -
  obtain s2 where s2: "tls_run byte_posix toy_ssl (\<lambda>_ _ s. Some (Inr s)) 2 [TlsSend ''hi'', TlsReadable] byte_ready = Some (Inr s2)"
    "accepted (world s2) = ''hi''"
    using byte_run by blast
  have l: "loops byte_net 1 = Some sample_loop" "kv_iset sample_view (world byte_net) 4 = None" "kv_sent sample_view (world byte_net) = []"
    by (simp_all add: byte_net_def sample_view_def sample_world_def)
  have k: "conn_kernel byte_posix sample_view 4 (poll_fd (sample_loop :: nat net_cb event_loop))" by (rule byte_kernel(2)) simp_all
  have v: "tv_plain toy_view = te_plain" "tv_made toy_view = te_made" "tv_out toy_view = te_out" "tv_got toy_view = te_got"
    "tv_failed toy_view = (\<lambda>e. False)" "tv_cap toy_view = (+)" "kv_sent sample_view = accepted"
    by (simp_all add: toy_view_def sample_view_def fun_eq_iff)
  from tls_keeps_order [OF k l(1,2) byte_kernel(1) _ toy_promise(1,2) byte_init_ready [unfolded byte_init_def],
      of "[TlsSend ''hi'', TlsReadable]" "\<lambda>_ _ s. Some (Inr s)"]
  show ?thesis
    using s2 byte_init_ready l(3) unfolding exits_or_def v by auto
qed

end
