(* ===== verification/Tcp_Server.thy ===== *)
theory Tcp_Server
  imports Tls_Connection Loop_Threads
begin

text \<open>
  \<^verbatim>\<open>ladder/src/TcpServer.cpp\<close> and \<^verbatim>\<open>ladder/src/Acceptor.cpp\<close> as they are built on Linux: a server accepts connections
  in its own loop, sets them up in a pool of worker threads, and hands their read events to the
  same workers.

  The server's part is added to the state of the network. A \<open>shared_ptr\<close> to a connection is the
  connection's address together with a count of the pointers to it; the one that drops the last
  pointer destroys the connection. The pointers are those in \<open>connections_\<close>, those in queued tasks, and
  the one that \<open>OnNewConnection\<close> holds while it runs. New objects are placed at the address \<open>next_addr\<close>.
\<close>

section \<open>State\<close>

text \<open>The closures of the server: its bound member functions, and the callbacks of its user.\<close>

datatype 'u srv_cb = SrvAccept | SrvRead | SrvClose fd | SrvUser 'u

datatype srv_task = NewConnTask fd SocketAddr | ReadTask addr | WriteTask addr

record ('u, 'w, 'e) server = "('u srv_cb, 'w, 'e) tls_net" +
  srv_addr :: SocketAddr
  srv_send_file :: bool
  loop_thread_num :: nat
  working_thread_num :: nat
  srv_running :: bool
  ssl_ctx :: bool
  srv_channel :: "addr option"
  srv_loop :: "addr option"
  srv_acceptor :: "addr option"
  loop_threads :: "loop_pool option"
  working_threads :: "srv_task thread_pool option"
  connections :: "(fd \<times> addr) list"
  refs :: "addr \<Rightarrow> nat"
  next_addr :: addr
  srv_on_read :: "'u option"
  srv_on_write :: "'u option"
  srv_on_connection :: "'u option"

text \<open>
  \<open>CreateSslContext\<close> and \<open>ConfigureSslContext\<close> of \<^verbatim>\<open>utils.cpp\<close>; whether \<open>OpenSSL\<close> gives a context, and whether it
  takes the certificate and the key, are arguments.
\<close>

definition CreateSslContext :: "bool \<Rightarrow> unit res" where
  "CreateSslContext ctx_new = (if ctx_new then Inr () else Inl (EXIT ''SSL_CTX_new''))"

definition ConfigureSslContext :: "(string \<Rightarrow> bool) \<Rightarrow> (string \<Rightarrow> bool) \<Rightarrow> string \<Rightarrow> string \<Rightarrow> unit res" where
  "ConfigureSslContext use_cert use_key cert_path key_path =
     (if \<not> use_cert cert_path then Inl (EXIT ''SSL_CTX_use_certificate_file'')
      else if \<not> use_key key_path then Inl (EXIT ''SSL_CTX_use_PrivateKey_file'') else Inr ())"

definition TcpServer_new ::
  "bool \<Rightarrow> (string \<Rightarrow> bool) \<Rightarrow> (string \<Rightarrow> bool) \<Rightarrow> 'w \<Rightarrow> SocketAddr \<Rightarrow> bool \<Rightarrow> (string \<times> string) option \<Rightarrow> nat \<Rightarrow> nat \<Rightarrow>
     ('u, 'w, 'e) server res" where
  "TcpServer_new ctx_new use_cert use_key w addr send_file cert_key loop_num work_num =
     (let s = \<lparr>chans = Map.empty, loops = Map.empty, world = w, conns = Map.empty, tls_parts = Map.empty,
               srv_addr = addr, srv_send_file = send_file, loop_thread_num = loop_num, working_thread_num = work_num,
               srv_running = True, ssl_ctx = False, srv_channel = None, srv_loop = None, srv_acceptor = None,
               loop_threads = None, working_threads = None, connections = [], refs = (\<lambda>_. 0), next_addr = 1,
               srv_on_read = None, srv_on_write = None, srv_on_connection = None\<rparr> in
      case cert_key of
        None \<Rightarrow> Inr s
      | Some (cert, key) \<Rightarrow>
         sbind (CreateSslContext ctx_new) (\<lambda>_.
         sbind (ConfigureSslContext use_cert use_key cert key) (\<lambda>_. Inr (s\<lparr>ssl_ctx := True, srv_send_file := False\<rparr>))))"

definition TcpServer_SetReadCallback :: "'u \<Rightarrow> ('u, 'w, 'e) server \<Rightarrow> ('u, 'w, 'e) server" where
  "TcpServer_SetReadCallback u s = s\<lparr>srv_on_read := Some u\<rparr>"

definition TcpServer_SetWriteCallback :: "'u \<Rightarrow> ('u, 'w, 'e) server \<Rightarrow> ('u, 'w, 'e) server" where
  "TcpServer_SetWriteCallback u s = s\<lparr>srv_on_write := Some u\<rparr>"

definition TcpServer_SetConnectionCallback :: "'u \<Rightarrow> ('u, 'w, 'e) server \<Rightarrow> ('u, 'w, 'e) server" where
  "TcpServer_SetConnectionCallback u s = s\<lparr>srv_on_connection := Some u\<rparr>"

section \<open>Pointers to connections\<close>

definition retain :: "addr \<Rightarrow> ('u, 'w, 'e) server \<Rightarrow> ('u, 'w, 'e) server" where
  "retain c s = s\<lparr>refs := (refs s)(c := Suc (refs s c))\<rparr>"

definition release :: "'w posix \<Rightarrow> addr \<Rightarrow> ('u, 'w, 'e) server \<Rightarrow> ('u, 'w, 'e) server res" where
  "release os c s =
     (let s' = s\<lparr>refs := (refs s)(c := refs s c - 1)\<rparr> in
      if refs s c = 1 then virtual_destroy os c s' else Inr s')"

definition emplace_task :: "srv_task \<Rightarrow> ('u, 'w, 'e) server \<Rightarrow> ('u, 'w, 'e) server res" where
  "emplace_task t s =
     (case working_threads s of
        None \<Rightarrow> Inl (UB ''null thread pool'')
      | Some tp \<Rightarrow> Inr (s\<lparr>working_threads := Some (ThreadPool_emplace (Some t) tp)\<rparr>))"

section \<open>Accepting\<close>

text \<open>
  \<open>Acceptor::HandleAcceptCallback\<close> and the server's \<open>OnNewConnectionCallback\<close>; \<open>ntop\<close> is \<open>inet_ntop\<close>.
\<close>

definition OnNewConnectionCallback :: "fd \<Rightarrow> SocketAddr \<Rightarrow> ('u, 'w, 'e) server \<Rightarrow> ('u, 'w, 'e) server res" where
  "OnNewConnectionCallback f addr s = emplace_task (NewConnTask f addr) s"

definition HandleAcceptCallback ::
  "'w posix \<Rightarrow> (bool \<Rightarrow> string \<Rightarrow> string option) \<Rightarrow> byte_order \<Rightarrow> ('u, 'w, 'e) server \<Rightarrow> ('u, 'w, 'e) server res" where
  "HandleAcceptCallback os ntop e s =
     (case srv_acceptor s of
        None \<Rightarrow> Inl (UB ''destroyed acceptor'')
      | Some a \<Rightarrow>
         sbind (get_chan a s) (\<lambda>ch.
         sbind (socket_accept os (ch_fd ch) (world s)) (\<lambda>(f, peer, w).
         sbind (SocketAddr_of_sockaddr ntop e peer (ipv6 (srv_addr s))) (\<lambda>sock_addr.
           OnNewConnectionCallback f sock_addr (set_world w s)))))"

text \<open>
  The two halves of \<open>OnNewConnection\<close>: the connection is set up and registered with a loop, and then put
  into \<open>connections_\<close> (\<open>std::map::insert\<close> keeps an entry that is there already) and given to the user.
\<close>

definition new_connection_setup ::
  "'w posix \<Rightarrow> 'e openssl \<Rightarrow> fd \<Rightarrow> ('u, 'w, 'e) server \<Rightarrow> (addr \<times> ('u, 'w, 'e) server) res" where
  "new_connection_setup os ssl f s =
     (case loop_threads s of
        None \<Rightarrow> Inl (UB ''null loop pool'')
      | Some pool \<Rightarrow>
         sbind (GetNextLoop pool) (\<lambda>(lp, pool').
           let c = next_addr s; a = next_addr s + 1;
               s1 = retain c (s\<lparr>loop_threads := Some pool', next_addr := next_addr s + 2\<rparr>);
               s2 = (if ssl_ctx s then TlsConnection_new ssl lp f True c a s1 else Connection_new lp f (srv_send_file s) c a s1) in
           sbind (Connection_SetReadCallback c (Some SrvRead) s2) (\<lambda>s3.
           sbind (Connection_SetWriteCallback c (map_option SrvUser (srv_on_write s)) s3) (\<lambda>s4.
           sbind (Connection_SetCloseCallback c (Some (SrvClose f)) s4) (\<lambda>s5.
           sbind (virtual_Init os c s5) (\<lambda>s6. Inr (c, s6)))))))"

definition insert_connection :: "fd \<Rightarrow> addr \<Rightarrow> ('u, 'w, 'e) server \<Rightarrow> ('u, 'w, 'e) server" where
  "insert_connection f c s =
     (if f \<in> set (map fst (connections s)) then s
      else retain c (s\<lparr>connections := insort_key fst (f, c) (connections s)\<rparr>))"

type_synonym ('u, 'w, 'e) srv_app = "'u \<Rightarrow> addr \<Rightarrow> ('u, 'w, 'e) server \<Rightarrow> ('u, 'w, 'e) server res option"

definition new_connection_register ::
  "'w posix \<Rightarrow> ('u, 'w, 'e) srv_app \<Rightarrow> fd \<Rightarrow> addr \<Rightarrow> ('u, 'w, 'e) server \<Rightarrow> ('u, 'w, 'e) server res option" where
  "new_connection_register os app f c s =
     obind (case srv_on_connection s of None \<Rightarrow> Some (Inr (insert_connection f c s)) | Some u \<Rightarrow> app u c (insert_connection f c s)) (\<lambda>s'.
       Some (release os c s'))"

definition OnNewConnection ::
  "'w posix \<Rightarrow> 'e openssl \<Rightarrow> ('u, 'w, 'e) srv_app \<Rightarrow> fd \<Rightarrow> SocketAddr \<Rightarrow> ('u, 'w, 'e) server \<Rightarrow> ('u, 'w, 'e) server res option" where
  "OnNewConnection os ssl app f addr s =
     (if \<not> srv_running s then Some (Inr s)
      else obind (Some (new_connection_setup os ssl f s)) (\<lambda>(c, s'). new_connection_register os app f c s'))"

section \<open>Events\<close>

definition OnReadCallback_server :: "addr \<Rightarrow> ('u, 'w, 'e) server \<Rightarrow> ('u, 'w, 'e) server res" where
  "OnReadCallback_server c s =
     (case srv_on_read s of None \<Rightarrow> Inr s | Some _ \<Rightarrow> emplace_task (ReadTask c) (retain c s))"

text \<open>The server's \<open>OnWriteCallback\<close>, which no connection is given; its task holds the buffer, not the connection.\<close>

definition OnWriteCallback_server :: "addr \<Rightarrow> ('u, 'w, 'e) server \<Rightarrow> ('u, 'w, 'e) server res" where
  "OnWriteCallback_server c s = (case srv_on_write s of None \<Rightarrow> Inr s | Some _ \<Rightarrow> emplace_task (WriteTask c) s)"

definition OnCloseConnectionCallback :: "'w posix \<Rightarrow> fd \<Rightarrow> ('u, 'w, 'e) server \<Rightarrow> ('u, 'w, 'e) server res" where
  "OnCloseConnectionCallback os f s =
     (case map_of (connections s) f of
        None \<Rightarrow> Inr s
      | Some c \<Rightarrow> release os c (s\<lparr>connections := filter (\<lambda>p. fst p \<noteq> f) (connections s)\<rparr>))"

definition srv_user ::
  "'w posix \<Rightarrow> (bool \<Rightarrow> string \<Rightarrow> string option) \<Rightarrow> byte_order \<Rightarrow> ('u, 'w, 'e) srv_app \<Rightarrow> 'u srv_cb \<Rightarrow> addr \<Rightarrow>
     ('u, 'w, 'e) server \<Rightarrow> ('u, 'w, 'e) server res option" where
  "srv_user os ntop e app u c s =
     (case u of
        SrvAccept \<Rightarrow> Some (HandleAcceptCallback os ntop e s)
      | SrvRead \<Rightarrow> Some (OnReadCallback_server c s)
      | SrvClose f \<Rightarrow> Some (OnCloseConnectionCallback os f s)
      | SrvUser k \<Rightarrow> app k c s)"

text \<open>A worker runs a task; the task's own pointer to the connection goes with the task.\<close>

definition run_task ::
  "'w posix \<Rightarrow> 'e openssl \<Rightarrow> ('u, 'w, 'e) srv_app \<Rightarrow> srv_task \<Rightarrow> ('u, 'w, 'e) server \<Rightarrow> ('u, 'w, 'e) server res option" where
  "run_task os ssl app t s =
     (case t of
        NewConnTask f addr \<Rightarrow> OnNewConnection os ssl app f addr s
      | ReadTask c \<Rightarrow>
         (case srv_on_read s of
            None \<Rightarrow> Some (Inl (Throw ''std::bad_function_call''))
          | Some u \<Rightarrow> obind (app u c s) (\<lambda>s'. Some (release os c s')))
      | WriteTask c \<Rightarrow>
         (case srv_on_write s of None \<Rightarrow> Some (Inl (Throw ''std::bad_function_call'')) | Some u \<Rightarrow> app u c s))"

section \<open>Starting and stopping\<close>

definition server_setup :: "'w posix \<Rightarrow> ('u, 'w, 'e) server \<Rightarrow> ('u, 'w, 'e) server res" where
  "server_setup os s =
     sbind (socket_socket os True (ipv6 (srv_addr s)) (world s)) (\<lambda>(f, w1).
     sbind (SocketAddr_Bind os f (srv_addr s) w1) (\<lambda>w2.
     sbind (socket_listen os f w2) (\<lambda>w3.
       let lp = next_addr s; a = next_addr s + 2; n = next_addr s + 3 in
       sbind (EventLoop_new os lp (next_addr s + 1) (set_world w3 s)) (\<lambda>s1.
       sbind (UpdateToLoop os a EPOLL_CTL_ADD (set_chan a (Channel_new (Some lp) f) s1)) (\<lambda>s2.
       sbind (get_chan a s2) (\<lambda>ch.
       sbind (EventLoopThreadPool_new os (loop_thread_num s) (\<lambda>i. (n + 2 * i, n + 2 * i + 1))
                (set_chan a (ch\<lparr>read_callback := Some (Client (Other SrvAccept))\<rparr>) s2)) (\<lambda>(pool, s3).
         Inr (s3\<lparr>srv_loop := Some lp, srv_channel := Some a, srv_acceptor := Some a, loop_threads := Some pool,
                 working_threads := Some (ThreadPool_new (working_thread_num s)), next_addr := n + 2 * capacity pool\<rparr>))))))))"

definition TcpServer_Start ::
  "'w posix \<Rightarrow> 'e openssl \<Rightarrow> (bool \<Rightarrow> string \<Rightarrow> string option) \<Rightarrow> byte_order \<Rightarrow> ('u, 'w, 'e) srv_app \<Rightarrow>
     ('u, 'w, 'e) server \<Rightarrow> ('u, 'w, 'e) server res option" where
  "TcpServer_Start os ssl ntop e app s =
     obind (Some (server_setup os s)) (\<lambda>s1.
       case srv_loop s1 of
         None \<Rightarrow> Some (Inl (UB ''null loop''))
       | Some lp \<Rightarrow> StartLoop os (virtual_run os ssl (srv_user os ntop e app)) lp s1)"

text \<open>
  \<open>Stop\<close> waits for \<open>Start\<close> to return before it drops the loop, so the loop is idle here. The connections
  are closed without their callback, in the order of their descriptors, and then dropped.
\<close>

fun close_all :: "'w posix \<Rightarrow> (fd \<times> addr) list \<Rightarrow> ('u, 'w, 'e) server \<Rightarrow> ('u, 'w, 'e) server res" where
  "close_all os [] s = Inr s"
| "close_all os ((f, c) # rest) s =
     sbind (Connection_SetCloseCallback c None s) (\<lambda>s1. sbind (Connection_Close os c s1) (close_all os rest))"

fun release_all :: "'w posix \<Rightarrow> (fd \<times> addr) list \<Rightarrow> ('u, 'w, 'e) server \<Rightarrow> ('u, 'w, 'e) server res" where
  "release_all os [] s = Inr s"
| "release_all os ((f, c) # rest) s = sbind (release os c s) (release_all os rest)"

definition stop_accepting :: "'w posix \<Rightarrow> ('u, 'w, 'e) server \<Rightarrow> ('u, 'w, 'e) server res" where
  "stop_accepting os s =
     (let s1 = s\<lparr>srv_running := False, srv_acceptor := None\<rparr> in
      case srv_channel s of
        None \<Rightarrow> Inr s1
      | Some a \<Rightarrow>
         sbind (get_chan a s) (\<lambda>ch.
         sbind (socket_close os (ch_fd ch) (world s)) (\<lambda>w.
           Inr (set_world w (s1\<lparr>chans := (chans s)(a := None), srv_channel := None\<rparr>)))))"

definition stop_own_loop :: "'w posix \<Rightarrow> ('u, 'w, 'e) server \<Rightarrow> ('u, 'w, 'e) server res" where
  "stop_own_loop os s =
     (case srv_loop s of
        None \<Rightarrow> Inr s
      | Some lp \<Rightarrow>
         sbind (StopLoop os lp s) (\<lambda>s1.
         sbind (EventLoop_destroy os lp s1) (\<lambda>s2. Inr (s2\<lparr>srv_loop := None\<rparr>))))"

definition TcpServer_Stop :: "'w posix \<Rightarrow> ('u, 'w, 'e) server \<Rightarrow> ('u, 'w, 'e) server res" where
  "TcpServer_Stop os s =
     sbind (stop_accepting os s) (\<lambda>s1.
     sbind (stop_own_loop os s1) (\<lambda>s2.
       case loop_threads s2 of
         None \<Rightarrow> Inl (UB ''null loop pool'')
       | Some pool \<Rightarrow>
          sbind (EventLoopThreadPool_Stop os pool s2) (\<lambda>s3.
          sbind (close_all os (connections s3) s3) (\<lambda>s4.
            release_all os (connections s3) (s4\<lparr>connections := []\<rparr>)))))"

text \<open>The destructor also stops the workers, which finish the tasks that are queued.\<close>

definition TcpServer_destroy :: "'w posix \<Rightarrow> ('u, 'w, 'e) server \<Rightarrow> ('u, 'w, 'e) server res" where
  "TcpServer_destroy os s =
     sbind (TcpServer_Stop os s) (\<lambda>s'. Inr (s'\<lparr>working_threads := map_option ThreadPool_stop (working_threads s'), ssl_ctx := False\<rparr>))"

text \<open>\<open>Stop\<close> reads the pool of loops without looking whether there is one: a server that was never started cannot be destroyed.\<close>

lemma unstarted_server_destroy:
  assumes "TcpServer_new ctx_new use_cert use_key w addr send_file cert_key loop_num work_num = Inr s"
  shows "TcpServer_destroy os s = Inl (UB ''null loop pool'')"
proof -
  have "srv_channel s = None \<and> srv_loop s = None \<and> loop_threads s = None"
    using assms by (auto simp: TcpServer_new_def sbind_Inr Let_def split: option.splits)
  then show ?thesis
    by (simp add: TcpServer_destroy_def TcpServer_Stop_def stop_accepting_def stop_own_loop_def)
qed

end
