(* ===== verification/Net_Shape.thy ===== *)
theory Net_Shape
  imports Tls_Connection
begin

text \<open>
  What sending, reading and arming a connection leave alone: which connections there are and their
  callbacks, the descriptors and callbacks of the channels, the open sockets, and all that a server or
  a client has beside its connections. Invariants stated on these are kept by all these operations at
  once, and the locale \<open>handler_invariant\<close> lifts an invariant from callbacks to the handling of events.
\<close>

section \<open>The kernel's table of sockets\<close>

text \<open>
  The open sockets, which only \<open>accept\<close> and \<open>close\<close> change: \<open>accept\<close> gives a descriptor that is not in use.
\<close>

definition socks_stable :: "'w posix \<Rightarrow> ('w \<Rightarrow> fd set) \<Rightarrow> bool" where
  "socks_stable os socks \<longleftrightarrow>
     (\<forall>f n w. socks (snd (sys_read os f n w)) = socks w) \<and> (\<forall>f bs w. socks (snd (sys_write os f bs w)) = socks w) \<and>
     (\<forall>f w. socks (sys_shutdown_write os f w) = socks w) \<and> (\<forall>f w. socks (sys_shutdown_read os f w) = socks w) \<and>
     (\<forall>ep op f ev w. socks (snd (sys_epoll_ctl os ep op f ev w)) = socks w) \<and>
     (\<forall>ep n w. socks (snd (sys_epoll_wait os ep n w)) = socks w) \<and>
     (\<forall>f w g a w'. sys_accept os f w = (Ret (g, a), w') \<longrightarrow> g \<notin> socks w \<and> socks w' = insert g (socks w)) \<and>
     (\<forall>f w u w'. sys_close os f w = (Ret u, w') \<longrightarrow> socks w' = socks w - {f})"

lemma socks_stableD:
  assumes "socks_stable os socks"
  shows "\<forall>n w. socks (snd (sys_read os f n w)) = socks w" and "\<forall>bs w. socks (snd (sys_write os f bs w)) = socks w"
    and "socks (socket_shutdown_write os f w) = socks w" and "socks (socket_shutdown_read os f w) = socks w"
    and "socks (snd (sys_epoll_ctl os ep op f ev w)) = socks w" and "socks (snd (sys_epoll_wait os ep n w)) = socks w"
    and "socket_accept os f w = Inr (g, a, w') \<Longrightarrow> g \<notin> socks w \<and> socks w' = insert g (socks w)"
    and "socket_close os f w = Inr w' \<Longrightarrow> socks w' = socks w - {f}"
  using assms
  by (auto simp: socks_stable_def socket_shutdown_write_def socket_shutdown_read_def socket_accept_def socket_close_def
      simp del: split_paired_All split: prod.splits sysres.splits)

section \<open>Shapes\<close>

definition conn_shape :: "'u connection \<Rightarrow> addr \<times> 'u option \<times> 'u option \<times> 'u option \<times> bool" where
  "conn_shape cn =
     (conn_channel cn, on_read cn, on_write cn, on_close cn, case write_buffer cn of Plain _ \<Rightarrow> True | Files _ \<Rightarrow> False)"

definition chan_shape :: "'c channel \<Rightarrow> fd \<times> 'c closure option list" where
  "chan_shape ch = (ch_fd ch, [read_callback ch, write_callback ch, close_callback ch, error_callback ch])"

definition same_shape :: "('w \<Rightarrow> fd set) \<Rightarrow> ('u, 'w, 'e, 'z) tls_net_scheme \<Rightarrow> ('u, 'w, 'e, 'z) tls_net_scheme \<Rightarrow> bool" where
  "same_shape socks s s' \<longleftrightarrow>
     (\<forall>c. map_option conn_shape (conns s' c) = map_option conn_shape (conns s c)) \<and>
     (\<forall>a. map_option chan_shape (chans s' a) = map_option chan_shape (chans s a)) \<and>
     (\<forall>lp. map_option wakeup_callback (loops s' lp) = map_option wakeup_callback (loops s lp)) \<and>
     socks (world s') = socks (world s) \<and> tls_net.more s' = tls_net.more s"

definition all_plain :: "('u, 'w, 'e, 'z) tls_net_scheme \<Rightarrow> bool" where
  "all_plain s \<longleftrightarrow> (\<forall>c cn. conns s c = Some cn \<longrightarrow> (\<exists>b. write_buffer cn = Plain b))"

text \<open>A state that an operation reaches from \<open>s0\<close>, where no connection sends files.\<close>

definition kept :: "('w \<Rightarrow> fd set) \<Rightarrow> ('u, 'w, 'e, 'z) tls_net_scheme \<Rightarrow> ('u, 'w, 'e, 'z) tls_net_scheme \<Rightarrow> bool" where
  "kept socks s0 s \<longleftrightarrow> all_plain s0 \<and> same_shape socks s0 s"

abbreviation kept1 :: "('w \<Rightarrow> fd set) \<Rightarrow> ('u, 'w, 'e, 'z) tls_net_scheme \<Rightarrow> 'r \<times> ('u, 'w, 'e, 'z) tls_net_scheme \<Rightarrow> bool" where
  "kept1 socks s0 p \<equiv> kept socks s0 (snd p)"

abbreviation kept2 :: "('w \<Rightarrow> fd set) \<Rightarrow> ('u, 'w, 'e, 'z) tls_net_scheme \<Rightarrow> 'r \<times> 't \<times> ('u, 'w, 'e, 'z) tls_net_scheme \<Rightarrow> bool" where
  "kept2 socks s0 p \<equiv> kept socks s0 (snd (snd p))"

lemma same_shape_refl [simp]: "same_shape socks s s"
  by (simp add: same_shape_def)

lemma same_shape_trans: "same_shape socks s s1 \<Longrightarrow> same_shape socks s1 s2 \<Longrightarrow> same_shape socks s s2"
  by (simp add: same_shape_def)

lemma kept_trans: "kept socks s0 s \<Longrightarrow> same_shape socks s s' \<Longrightarrow> kept socks s0 s'"
  by (auto simp: kept_def intro: same_shape_trans)

lemma same_shapeD:
  assumes "same_shape socks s s'"
  shows "conns s' c = Some cn' \<Longrightarrow> \<exists>cn. conns s c = Some cn \<and> conn_shape cn' = conn_shape cn"
    and "chans s' a = Some ch' \<Longrightarrow> \<exists>ch. chans s a = Some ch \<and> chan_shape ch' = chan_shape ch"
    and "loops s' lp = Some l' \<Longrightarrow> \<exists>l. loops s lp = Some l \<and> wakeup_callback l' = wakeup_callback l"
    and "conns s' c = None \<longleftrightarrow> conns s c = None" and "chans s' a = None \<longleftrightarrow> chans s a = None"
proof -
  have m: "map_option conn_shape (conns s' c) = map_option conn_shape (conns s c)"
    "map_option chan_shape (chans s' a) = map_option chan_shape (chans s a)"
    "map_option wakeup_callback (loops s' lp) = map_option wakeup_callback (loops s lp)"
    using assms unfolding same_shape_def by blast+
  show "conns s' c = Some cn' \<Longrightarrow> \<exists>cn. conns s c = Some cn \<and> conn_shape cn' = conn_shape cn" using m(1) by (cases "conns s c") auto
  show "chans s' a = Some ch' \<Longrightarrow> \<exists>ch. chans s a = Some ch \<and> chan_shape ch' = chan_shape ch" using m(2) by (cases "chans s a") auto
  show "loops s' lp = Some l' \<Longrightarrow> \<exists>l. loops s lp = Some l \<and> wakeup_callback l' = wakeup_callback l" using m(3) by (cases "loops s lp") auto
  show "conns s' c = None \<longleftrightarrow> conns s c = None" "chans s' a = None \<longleftrightarrow> chans s a = None"
    using m by (metis map_option_is_None)+
qed

lemma set_tls_selectors [simp]:
  "conns (set_tls c p s) = conns s" "chans (set_tls c p s) = chans s" "loops (set_tls c p s) = loops s" "world (set_tls c p s) = world s"
  "tls_parts (set_conn c cn s) = tls_parts s"
  by (simp_all add: set_tls_def set_conn_def)

lemma more_selectors [simp]:
  "tls_net.more (set_conn c cn s) = tls_net.more s" "tls_net.more (set_chan a ch s) = tls_net.more s" "tls_net.more (set_loop lp l s) = tls_net.more s"
  "tls_net.more (set_world w s) = tls_net.more s" "tls_net.more (set_tls c p s) = tls_net.more s"
  by (simp_all add: set_conn_def set_chan_def set_loop_def set_world_def set_tls_def)

lemma same_shape_sets:
  "socks w = socks (world s) \<Longrightarrow> same_shape socks s (set_world w s)"
  "chans s a = Some ch \<Longrightarrow> chan_shape ch' = chan_shape ch \<Longrightarrow> same_shape socks s (set_chan a ch' s)"
  "loops s lp = Some l \<Longrightarrow> wakeup_callback l' = wakeup_callback l \<Longrightarrow> same_shape socks s (set_loop lp l' s)"
  "conns s c = Some cn \<Longrightarrow> conn_shape cn' = conn_shape cn \<Longrightarrow> same_shape socks s (set_conn c cn' s)"
  "same_shape socks s (set_tls c p s)"
  by (simp_all add: same_shape_def)

lemma conn_shape_simps [simp]:
  "conn_shape (cn\<lparr>read_buffer := rb\<rparr>) = conn_shape cn" "conn_shape (cn\<lparr>shut_down := sd\<rparr>) = conn_shape cn"
  "write_buffer cn = Plain b \<Longrightarrow> conn_shape (cn\<lparr>write_buffer := Plain b'\<rparr>) = conn_shape cn"
  "chan_shape (ch\<lparr>events := ev\<rparr>) = chan_shape ch" "chan_shape (ch\<lparr>revents := ev\<rparr>) = chan_shape ch"
  by (simp_all add: conn_shape_def chan_shape_def)

lemma get_conn_Inr: "get_conn c s = Inr cn \<longleftrightarrow> conns s c = Some cn"
  by (simp add: get_conn_def split: option.splits)

lemma get_tls_Inr: "get_tls c s = Inr p \<longleftrightarrow> tls_parts s c = Some p"
  by (simp add: get_tls_def split: option.splits)

lemma kept_plain:
  assumes "kept socks s0 s" and "conns s c = Some cn"
  shows "\<exists>b. write_buffer cn = Plain b"
proof -
  have "map_option conn_shape (conns s c) = map_option conn_shape (conns s0 c)"
    using assms(1) unfolding kept_def same_shape_def by blast
  then obtain cn0 where "conns s0 c = Some cn0" "conn_shape cn = conn_shape cn0" using assms(2) by (cases "conns s0 c") simp_all
  moreover from this(1) obtain b where "write_buffer cn0 = Plain b" using assms(1) unfolding kept_def all_plain_def by blast
  ultimately show ?thesis by (cases "write_buffer cn") (simp_all add: conn_shape_def)
qed

section \<open>Calls of the poller\<close>

lemma poller_called_shape:
  assumes "socks_stable os socks" and "poller_called os lp s s'"
  shows "same_shape socks s s'"
  using assms(2) socks_stableD(5) [OF assms(1)] by (auto simp: poller_called_def same_shape_def)

lemma UpdateToLoop_shape:
  assumes "socks_stable os socks" and "UpdateToLoop os a op s = Inr s'"
  shows "same_shape socks s s'"
  using UpdateToLoop_called [OF assms(2)] poller_called_shape [OF assms(1)] by blast

lemma EnableWrite_kept:
  assumes "socks_stable os socks" and "kept socks s0 s"
  shows "keeps (kept socks s0) (Some (Connection_EnableWrite os c r s))"
  unfolding keeps_def
proof (intro allI impI)
  fix s' assume "Some (Connection_EnableWrite os c r s) = Some (Inr s')"
  then obtain a e where "Channel_EnableWrite os a e s = Inr s'" unfolding Connection_EnableWrite_def by (simp add: sbind_Inr) blast
  from Channel_EnableWrite_called [OF this] obtain ch evts lp where
    ch: "chans s a = Some ch" "poller_called os lp (set_chan a (ch\<lparr>events := evts\<rparr>) s) s'" by blast
  then have "kept socks s0 (set_chan a (ch\<lparr>events := evts\<rparr>) s)"
    by (intro kept_trans [OF assms(2)] same_shape_sets(2)) simp_all
  then show "kept socks s0 s'" by (rule kept_trans) (rule poller_called_shape [OF assms(1) ch(2)])
qed

lemma RemoveFromLoop_kept:
  assumes "socks_stable os socks" and "kept socks s0 s"
  shows "keeps (kept socks s0) (Some (RemoveFromLoop os a s))"
  using assms RemoveFromLoop_called [of os a s] poller_called_shape [OF assms(1), of _ s]
  by (auto simp: keeps_def intro: kept_trans)

lemma ShutDown_kept:
  assumes "socks_stable os socks" and "kept socks s0 s"
  shows "keeps (kept socks s0) (Some (Channel_ShutDownWrite os a s))" and "keeps (kept socks s0) (Some (Channel_ShutDownRead os a s))"
  using socks_stableD(3,4) [OF assms(1)]
  by (auto simp: Channel_ShutDownWrite_def Channel_ShutDownRead_def sbind_Inr keeps_def
      intro!: kept_trans [OF assms(2)] same_shape_sets(1))

lemma Connection_Close_kept:
  assumes "socks_stable os socks" and "kept socks s0 s"
  shows "keeps (kept socks s0) (Some (Connection_Close os c s))"
  unfolding Connection_Close_def
  by (rule keeps_sget, rule keeps_sbind [OF ShutDown_kept(2) [OF assms]], rule ShutDown_kept(1) [OF assms(1)])

lemma set_shut_down_kept:
  assumes "kept socks s0 s"
  shows "keeps (kept socks s0) (Some (set_shut_down c s))"
  by (auto simp: set_shut_down_def sbind_Inr keeps_def get_conn_Inr intro!: kept_trans [OF assms] same_shape_sets(4))

section \<open>Sending and reading\<close>

lemma WriteBuffer_kept:
  assumes "socks_stable os socks" and "kept socks s0 s"
  shows "keeps (kept1 socks s0) (Connection_WriteBuffer os c s)"
  unfolding Connection_WriteBuffer_def
proof (intro keeps_get)
  fix cn ch assume cn: "get_conn c s = Inr cn"
  obtain b where b: "write_buffer cn = Plain b" using kept_plain [OF assms(2)] cn unfolding get_conn_Inr by blast
  have "keeps (\<lambda>(r, ob, w). (\<exists>b'. ob = Plain b') \<and> socks w = socks (world s)) (IBuffer_WriteBufferToFd os (ch_fd ch) (write_buffer cn) (world s))"
    using WriteBufferToFd_keeps [OF socks_stableD(2) [OF assms(1)]] by (auto simp: IBuffer_WriteBufferToFd_def b keeps_def obind_Inr)
  then show "keeps (kept1 socks s0)
      (obind (IBuffer_WriteBufferToFd os (ch_fd ch) (write_buffer cn) (world s)) (\<lambda>(r, wb, w). Some (Inr (r, set_world w (set_conn c (cn\<lparr>write_buffer := wb\<rparr>) s)))))"
  proof (rule keeps_bind, clarsimp)
    fix w b' assume w: "socks w = socks (world s)"
    have "kept socks s0 (set_conn c (cn\<lparr>write_buffer := Plain b'\<rparr>) s)"
      using cn b by (intro kept_trans [OF assms(2)] same_shape_sets(4)) (simp_all add: get_conn_Inr)
    then show "kept socks s0 (set_world w (set_conn c (cn\<lparr>write_buffer := Plain b'\<rparr>) s))"
      by (rule kept_trans) (simp add: same_shape_sets(1) w)
  qed
qed

lemma flush_write_kept:
  assumes "socks_stable os socks" and "kept socks s0 s"
  shows "keeps (kept1 socks s0) (flush_write os c s)"
  unfolding flush_write_def
  by (intro keeps_bind [OF WriteBuffer_kept [OF assms]])
    (auto intro!: keeps_bind [OF EnableWrite_kept [OF assms(1)]] simp del: obind_simps)

lemma set_buffer_kept:
  assumes "kept socks s0 s" and "conns s c = Some cn" and "write_buffer cn = Plain b"
  shows "kept socks s0 (set_conn c (cn\<lparr>write_buffer := Plain b'\<rparr>) s)"
    and "kept socks s0 (set_conn c (cn\<lparr>write_buffer := Plain b'\<rparr>) (set_tls c p s))"
proof -
  have "kept socks s0 (set_tls c p s)" by (rule kept_trans [OF assms(1) same_shape_sets(5)])
  then show "kept socks s0 (set_conn c (cn\<lparr>write_buffer := Plain b'\<rparr>) (set_tls c p s))"
    using assms by (elim kept_trans) (simp add: same_shape_sets(4))
  show "kept socks s0 (set_conn c (cn\<lparr>write_buffer := Plain b'\<rparr>) s)"
    using assms by (intro kept_trans [OF assms(1)] same_shape_sets(4)) simp_all
qed

lemma IBuffer_Write_plain: "IBuffer_Write bs (Plain b) = Inr ob \<Longrightarrow> \<exists>b'. ob = Plain b'"
  by (auto simp: IBuffer_Write_def sbind_Inr)

lemma Connection_Send_kept:
  assumes "socks_stable os socks" and "kept socks s0 s"
  shows "keeps (kept socks s0) (Connection_Send os c buf s)"
  unfolding Connection_Send_def
proof (rule keeps_get)
  fix cn assume cn: "get_conn c s = Inr cn"
  obtain b where b: "write_buffer cn = Plain b" using kept_plain [OF assms(2)] cn unfolding get_conn_Inr by blast
  show "keeps (kept socks s0) (if shut_down cn then Some (Inr s)
      else obind (Some (IBuffer_Write buf (write_buffer cn))) (\<lambda>wb.
           obind (Connection_WriteBuffer os c (set_conn c (cn\<lparr>write_buffer := wb\<rparr>) s)) (\<lambda>(r, s'). Some (Connection_EnableWrite os c r s'))))"
  proof (cases "shut_down cn")
    case False
    have "keeps (kept socks s0) (obind (Connection_WriteBuffer os c (set_conn c (cn\<lparr>write_buffer := Plain b'\<rparr>) s))
        (\<lambda>(r, s'). Some (Connection_EnableWrite os c r s')))" for b'
      using EnableWrite_kept [OF assms(1)] set_buffer_kept(1) [OF assms(2) _ b] cn
      by (intro keeps_bind [OF WriteBuffer_kept [OF assms(1)]]) (auto simp: get_conn_Inr)
    then show ?thesis using False b by (auto intro!: keeps_get dest: IBuffer_Write_plain)
  qed (simp add: assms(2))
qed

lemma plain_ReadBuffer_kept:
  assumes "socks_stable os socks" and "kept socks s0 s"
  shows "keeps (kept1 socks s0) (plain_ReadBuffer os c s)"
proof -
  have "keeps (kept1 socks s0) (Connection_ReadBuffer os c s)"
    unfolding Connection_ReadBuffer_def
  proof (intro keeps_get)
    fix cn ch assume cn: "get_conn c s = Inr cn"
    have "keeps (\<lambda>(r, b, w). socks w = socks (world s)) (ReadBufferFromFd os (ch_fd ch) (read_buffer cn) (world s))"
      using ReadBufferFromFd_keeps [OF socks_stableD(1) [OF assms(1)]] by (auto simp: keeps_def)
    then show "keeps (kept1 socks s0)
      (obind (ReadBufferFromFd os (ch_fd ch) (read_buffer cn) (world s)) (\<lambda>(r, rb, w). Some (Inr (r, set_world w (set_conn c (cn\<lparr>read_buffer := rb\<rparr>) s)))))"
    proof (rule keeps_bind, clarsimp)
      fix rb w assume w: "socks w = socks (world s)"
      have "kept socks s0 (set_conn c (cn\<lparr>read_buffer := rb\<rparr>) s)"
        using cn by (intro kept_trans [OF assms(2)] same_shape_sets(4)) (simp_all add: get_conn_Inr)
      then show "kept socks s0 (set_world w (set_conn c (cn\<lparr>read_buffer := rb\<rparr>) s))"
        by (rule kept_trans) (simp add: same_shape_sets(1) w)
    qed
  qed
  then show ?thesis unfolding plain_ReadBuffer_def by (auto intro: keeps_bind)
qed

section \<open>Encrypted connections\<close>

lemma Encrypt_plain: "keeps (\<lambda>(e, ob). \<exists>b'. ob = Plain b') (Encrypt ssl e (Plain b))"
proof -
  have "(\<exists>b. wb = Plain b) \<longrightarrow> (\<forall>e' ob. y = Inr (e', ob) \<longrightarrow> (\<exists>b'. ob = Plain b'))" if "Encrypt ssl e wb = Some y" for wb y
    using that
  proof (rule Encrypt.raw_induct [of "\<lambda>ssl e wb y. (\<exists>b. wb = Plain b) \<longrightarrow> (\<forall>e' ob. y = Inr (e', ob) \<longrightarrow> (\<exists>b'. ob = Plain b'))", rotated], goal_cases)
    case (1 enc ssl e wb y)
    then show ?case
      by (auto split: prod.splits if_splits sum.splits dest: IBuffer_Write_plain)
  qed
  then show ?thesis by (fastforce simp: keeps_def)
qed

lemma write_loop_plain: "keeps (\<lambda>(e, ob). \<exists>b'. ob = Plain b') (write_loop ssl buf n len e (Plain b))"
proof -
  have "(\<exists>b. wb = Plain b) \<longrightarrow> (\<forall>e' ob. y = Inr (e', ob) \<longrightarrow> (\<exists>b'. ob = Plain b'))" if "write_loop ssl buf n len e wb = Some y" for wb y
    using that
  proof (rule write_loop.raw_induct [of "\<lambda>ssl buf n len e wb y. (\<exists>b. wb = Plain b) \<longrightarrow> (\<forall>e' ob. y = Inr (e', ob) \<longrightarrow> (\<exists>b'. ob = Plain b'))", rotated], goal_cases)
    case (1 loop ssl buf n len e wb y)
    show ?case
    proof (intro impI allI)
      fix e2 ob assume "\<exists>b. wb = Plain b" and y: "y = Inr (e2, ob)"
      then obtain b where b: "wb = Plain b" by blast
      obtain m e' where m: "SSL_write ssl (take (nat (len - n)) (drop (nat n) buf)) e = (m, e')" by fastforce
      show "\<exists>b'. ob = Plain b'"
      proof (cases "n < len \<and> 0 < m")
        case True
        then obtain e1 b1 where "Encrypt ssl e' (Plain b) = Some (Inr (e1, b1))" "loop ssl buf (n + m) len e1 b1 = Some (Inr (e2, ob))"
          using 1(2) m b y by (cases "Encrypt ssl e' (Plain b)") (auto split: sum.splits)
        note st = this
        have "\<exists>b'. b1 = Plain b'" using keepsD [OF Encrypt_plain st(1)] by simp
        then show ?thesis using 1(1) [OF st(2)] by blast
      qed (use 1(2) m b y in \<open>auto split: if_splits\<close>)
    qed
  qed
  then show ?thesis by (fastforce simp: keeps_def)
qed

lemma TlsConnection_Send_kept:
  assumes "socks_stable os socks" and "kept socks s0 s"
  shows "keeps (kept1 socks s0) (TlsConnection_Send os ssl c buf s)"
  unfolding TlsConnection_Send_def
proof (intro keeps_get)
  fix cn p assume cn: "get_conn c s = Inr cn" and p: "get_tls c s = Inr p"
  obtain b where b: "write_buffer cn = Plain b" using kept_plain [OF assms(2)] cn unfolding get_conn_Inr by blast
  have "kept socks s0 (set_tls c (p\<lparr>pre_write_buffer := b'\<rparr>) s)" for b'
    by (rule kept_trans [OF assms(2) same_shape_sets(5)])
  moreover have "keeps (kept1 socks s0) (obind (write_loop ssl buf 0 (to_i32 (int (length buf))) (ssl_engine p) (write_buffer cn))
      (\<lambda>(e, wb). flush_write os c (set_conn c (cn\<lparr>write_buffer := wb\<rparr>) (set_tls c (p\<lparr>ssl_engine := e\<rparr>) s))))"
    unfolding b using set_buffer_kept(2) [OF assms(2) _ b] cn
    by (intro keeps_bind [OF write_loop_plain]) (auto simp: get_conn_Inr intro!: flush_write_kept [OF assms(1)])
  ultimately show "keeps (kept1 socks s0) (if shut_down cn then Some (Inr (None, s))
      else if \<not> SSL_is_init_finished ssl (ssl_engine p)
      then obind (Some (Buffer_Write buf (pre_write_buffer p))) (\<lambda>b. Some (Inr (None, set_tls c (p\<lparr>pre_write_buffer := b\<rparr>) s)))
      else obind (write_loop ssl buf 0 (to_i32 (int (length buf))) (ssl_engine p) (write_buffer cn))
             (\<lambda>(e, wb). flush_write os c (set_conn c (cn\<lparr>write_buffer := wb\<rparr>) (set_tls c (p\<lparr>ssl_engine := e\<rparr>) s))))"
    using assms(2) by (auto intro: keeps_get)
qed

lemma HandleSslError_kept:
  assumes "socks_stable os socks" and "kept socks s0 s"
  shows "keeps (kept2 socks s0) (HandleSslError os ssl c n s)"
proof (cases "0 < n")
  case False
  have enc: "keeps (kept2 socks s0) (obind (Encrypt ssl (ssl_engine p) (write_buffer cn)) (\<lambda>(e, wb).
      obind (flush_write os c (set_conn c (cn\<lparr>write_buffer := wb\<rparr>) (set_tls c (p\<lparr>ssl_engine := e\<rparr>) s))) (\<lambda>(err, s'). Some (Inr (0, err, s')))))"
    if cn: "get_conn c s = Inr cn" for cn p
  proof -
    obtain b where b: "write_buffer cn = Plain b" using kept_plain [OF assms(2)] cn unfolding get_conn_Inr by blast
    have "keeps (kept1 socks s0) (flush_write os c (set_conn c (cn\<lparr>write_buffer := Plain b'\<rparr>) (set_tls c (p\<lparr>ssl_engine := e\<rparr>) s)))" for b' e
      using set_buffer_kept(2) [OF assms(2) _ b] cn by (intro flush_write_kept [OF assms(1)]) (simp add: get_conn_Inr)
    note fl = this [THEN keeps_bind]
    show ?thesis unfolding b by (intro keeps_bind [OF Encrypt_plain]) (auto intro!: fl)
  qed
  show ?thesis
    using False assms(2) by (auto simp: HandleSslError_def intro!: keeps_get enc split: ssl_error.split)
qed (simp add: HandleSslError_def assms(2))

lemma do_handshake_kept:
  assumes "socks_stable os socks" and "kept socks s0 s"
  shows "keeps (kept2 socks s0) (do_handshake os ssl c s)"
proof -
  have tls: "kept socks s0 (set_tls c p s)" for p by (rule kept_trans [OF assms(2) same_shape_sets(5)])
  have "keeps (kept1 socks s0) (OnSslHandshakeFinished os ssl c (set_tls c p s))" for p
    unfolding OnSslHandshakeFinished_def
    using TlsConnection_Send_kept [OF assms(1) kept_trans [OF tls same_shape_sets(5)]]
    by (auto intro!: keeps_get)
  note fin = this [THEN keeps_bind]
  show ?thesis
    unfolding do_handshake_def using tls by (auto simp: Let_def intro!: keeps_get fin split: prod.split)
qed

lemma read_decrypted_kept:
  assumes "socks_stable os socks" and "kept socks s0 s"
  shows "keeps (kept2 socks s0) (read_decrypted os ssl c s)"
  unfolding read_decrypted_def
proof (intro keeps_get)
  fix cn p assume cn: "get_conn c s = Inr cn"
  have "keeps (kept2 socks s0)
      (obind (HandleSslError os ssl c n (set_conn c (cn\<lparr>read_buffer := rb\<rparr>) (set_tls c (p\<lparr>ssl_engine := e\<rparr>) s))) (\<lambda>(r, err, s1). Some (Inr (r < 0, err, s1))))"
    for n rb e
  proof (intro keeps_bind [OF HandleSslError_kept [OF assms(1)]])
    show "kept socks s0 (set_conn c (cn\<lparr>read_buffer := rb\<rparr>) (set_tls c (p\<lparr>ssl_engine := e\<rparr>) s))"
      by (rule kept_trans [OF kept_trans [OF assms(2) same_shape_sets(5)]], rule same_shape_sets(4)) (use cn in \<open>simp_all add: get_conn_Inr\<close>)
  qed auto
  then show "keeps (kept2 socks s0) (obind (Decrypt ssl (ssl_engine p) (read_buffer cn)) (\<lambda>(n_read, e, rb).
      obind (HandleSslError os ssl c n_read (set_conn c (cn\<lparr>read_buffer := rb\<rparr>) (set_tls c (p\<lparr>ssl_engine := e\<rparr>) s))) (\<lambda>(r, err, s1). Some (Inr (r < 0, err, s1)))))"
    by (intro keeps_bind [of "\<lambda>_. True"]) (auto simp: keeps_def)
qed

lemma read_step_kept:
  assumes "socks_stable os socks" and "kept socks s0 s"
  shows "keeps (kept2 socks s0) (read_step os ssl c s)"
proof -
  have fin: "keeps (kept2 socks s0) (obind (read_decrypted os ssl c s2) (\<lambda>(fail, err3, s3). Some (Inr (fail, g err3, s3))))"
    if "kept socks s0 s2" for s2 g
    using read_decrypted_kept [OF assms(1) that] by (rule keeps_bind) auto
  have err: "keeps (kept2 socks s0) (obind (HandleSslError os ssl c n s1) (\<lambda>(r, err2, s2).
           if r < 0 then Some (Inr (True, later err1 err2, s2))
           else obind (Some (get_tls c s2)) (\<lambda>p2.
               if SSL_is_init_finished ssl (ssl_engine p2)
               then obind (read_decrypted os ssl c s2) (\<lambda>(fail, err3, s3). Some (Inr (fail, later (later err1 err2) err3, s3)))
               else Some (Inr (False, later err1 err2, s2)))))" if "kept socks s0 s1" for n s1 err1
    using HandleSslError_kept [OF assms(1) that] by (rule keeps_bind) (auto intro!: keeps_get fin)
  show ?thesis
    unfolding read_step_def using read_decrypted_kept [OF assms]
    by (auto intro!: keeps_get keeps_bind [OF do_handshake_kept [OF assms]] err)
qed

lemma read_from_loop_kept:
  assumes "socks_stable os socks" and "kept socks s0 s"
  shows "keeps (kept2 socks s0) (read_from_loop os ssl c src err s)"
proof -
  have "socks_stable os socks \<longrightarrow> kept socks s0 s \<longrightarrow> (\<forall>r e s'. y = Inr (r, e, s') \<longrightarrow> kept socks s0 s')"
    if "read_from_loop os ssl c src err s = Some y" for y
    using that
  proof (rule read_from_loop.raw_induct
      [of "\<lambda>os ssl c src err s y. socks_stable os socks \<longrightarrow> kept socks s0 s \<longrightarrow> (\<forall>r e s'. y = Inr (r, e, s') \<longrightarrow> kept socks s0 s')", rotated], goal_cases)
    case (1 loop os ssl c src err s y)
    show ?case
    proof (intro impI allI)
      fix r e s' assume st: "socks_stable os socks" "kept socks s0 s" and y: "y = Inr (r, e, s')"
      show "kept socks s0 s'"
      proof (cases "src = []")
        case False
        then obtain p where p: "get_tls c s = Inr p" using 1(2) y by (cases "get_tls c s") auto
        obtain n e1 where n: "BIO_write_in ssl src (ssl_engine p) = (n, e1)" by fastforce
        have step: "keeps (kept2 socks s0) (read_step os ssl c (set_tls c (p\<lparr>ssl_engine := e1\<rparr>) s))"
          by (rule read_step_kept [OF st(1) kept_trans [OF st(2) same_shape_sets(5)]])
        obtain fail err1 s1 where s1: "read_step os ssl c (set_tls c (p\<lparr>ssl_engine := e1\<rparr>) s) = Some (Inr (fail, err1, s1))"
          "(if fail then Some (Inr (True, later err err1, s1)) else loop os ssl c (drop (nat n) src) (later err err1) s1) = Some (Inr (r, e, s'))"
          using 1(2) y p n False
          by (cases "read_step os ssl c (set_tls c (p\<lparr>ssl_engine := e1\<rparr>) s)") (auto split: sum.splits if_splits)
        then show ?thesis using 1(1) st(1) keepsD [OF step s1(1)] by (auto split: if_splits)
      qed (use 1(2) y st in auto)
    qed
  qed
  then show ?thesis using assms by (fastforce simp: keeps_def)
qed

lemma TlsConnection_ReadBuffer_kept:
  assumes "socks_stable os socks" and "kept socks s0 s"
  shows "keeps (kept1 socks s0) (TlsConnection_ReadBuffer os ssl c s)"
  unfolding TlsConnection_ReadBuffer_def
proof (intro keeps_get)
  fix cn ch
  have "keeps (\<lambda>(r, b, w). socks w = socks (world s)) (ReadBufferFromFd os (ch_fd ch) Buffer_new (world s))"
    using ReadBufferFromFd_keeps [OF socks_stableD(1) [OF assms(1)]] by (auto simp: keeps_def)
  moreover have rd: "keeps (kept2 socks s0) (ReadFromBuffer os ssl c str (set_world w s))" if "socks w = socks (world s)" for str w
    using kept_trans [OF assms(2) same_shape_sets(1) [of socks, OF that]]
    by (auto simp: ReadFromBuffer_def Let_def intro!: read_from_loop_kept [OF assms(1)])
  ultimately show "keeps (kept1 socks s0) (obind (ReadBufferFromFd os (ch_fd ch) Buffer_new (world s)) (\<lambda>(ret, b, w).
     obind (Some (Buffer_ReadAll b)) (\<lambda>(str, b').
     obind (ReadFromBuffer os ssl c str (set_world w s)) (\<lambda>(fail, err, s').
       Some (Inr (if fail then ReadFail
                  else case ret of Ret n \<Rightarrow> ReadRet n | Err e \<Rightarrow> ReadErr (case err of None \<Rightarrow> e | Some e' \<Rightarrow> e'), s'))))))"
    by (elim keeps_bind) (auto intro!: keeps_get keeps_bind [OF rd])
qed

lemma TlsConnection_WriteBuffer_kept:
  assumes "socks_stable os socks" and "kept socks s0 s"
  shows "keeps (kept1 socks s0) (TlsConnection_WriteBuffer os ssl c s)"
proof -
  have "keeps (kept1 socks s0)
      (obind (if 0 < n then Some (Inr (0, None, s1)) else HandleSslError os ssl c n s1) (\<lambda>(_, _, s2). Connection_WriteBuffer os c s2))"
    if "kept socks s0 s1" for n s1
    using that WriteBuffer_kept [OF assms(1)]
    by (cases "0 < n") (auto intro!: keeps_bind [OF HandleSslError_kept [OF assms(1) that]])
  then show ?thesis
    unfolding TlsConnection_WriteBuffer_def using WriteBuffer_kept [OF assms]
    by (auto intro!: keeps_get keeps_bind [OF do_handshake_kept [OF assms]])
qed

section \<open>Virtual calls\<close>

lemma virtual_ReadBuffer_kept:
  assumes "socks_stable os socks" and "kept socks s0 s"
  shows "keeps (kept1 socks s0) (virtual_ReadBuffer os ssl c s)"
  using plain_ReadBuffer_kept [OF assms] TlsConnection_ReadBuffer_kept [OF assms]
  by (simp add: virtual_ReadBuffer_def split: option.split)

lemma virtual_WriteBuffer_kept:
  assumes "socks_stable os socks" and "kept socks s0 s"
  shows "keeps (kept1 socks s0) (virtual_WriteBuffer os ssl c s)"
  using WriteBuffer_kept [OF assms] TlsConnection_WriteBuffer_kept [OF assms]
  by (simp add: virtual_WriteBuffer_def split: option.split)

lemma virtual_Send_kept:
  assumes "socks_stable os socks" and "kept socks s0 s"
  shows "keeps (kept socks s0) (virtual_Send os ssl c buf s)"
  using Connection_Send_kept [OF assms]
  by (auto simp: virtual_Send_def split: option.split intro!: keeps_bind [OF TlsConnection_Send_kept [OF assms]])

section \<open>Descriptors of connections\<close>

definition conn_fd :: "('u, 'w, 'e, 'z) tls_net_scheme \<Rightarrow> addr \<Rightarrow> fd option" where
  "conn_fd s c = Option.bind (conns s c) (\<lambda>cn. map_option ch_fd (chans s (conn_channel cn)))"

lemma same_shape_conn_fd:
  assumes "same_shape socks s s'"
  shows "conn_fd s' = conn_fd s"
proof
  fix c
  have m: "map_option chan_shape (chans s' a) = map_option chan_shape (chans s a)" for a using assms unfolding same_shape_def by blast
  have f: "map_option ch_fd (chans s' a) = map_option ch_fd (chans s a)" for a
    using m [of a] by (cases "chans s a"; cases "chans s' a") (simp_all add: chan_shape_def)
  show "conn_fd s' c = conn_fd s c"
  proof (cases "conns s' c")
    case None
    moreover from this have "conns s c = None" using same_shapeD(4) [OF assms] by blast
    ultimately show ?thesis by (simp add: conn_fd_def)
  next
    case (Some cn')
    then obtain cn where "conns s c = Some cn" "conn_channel cn' = conn_channel cn"
      using same_shapeD(1) [OF assms Some] by (auto simp: conn_shape_def)
    then show ?thesis using Some f by (simp add: conn_fd_def)
  qed
qed

section \<open>Setting up and destroying a connection\<close>

lemma tls_parts_selectors [simp]:
  "tls_parts (set_chan a ch s) = tls_parts s" "tls_parts (set_loop lp l s) = tls_parts s" "tls_parts (set_world w s) = tls_parts s"
  by (simp_all add: set_chan_def set_loop_def set_world_def)

lemma conns_selectors [simp]:
  "conns (set_chan a ch s) = conns s" "conns (set_loop lp l s) = conns s" "conns (set_world w s) = conns s"
  by (simp_all add: set_chan_def set_loop_def set_world_def)

lemma Connection_Init_Inr:
  assumes "Connection_Init os c s = Inr s'" and "socks_stable os socks"
    and "conns s c = Some cn" and "conn_channel cn = a" and "chans s a = Some ch"
  shows "\<exists>w lp l l' ch'. loops s lp = Some l \<and> wakeup_callback l' = wakeup_callback l \<and> socks w = socks (world s) \<and>
     ch_fd ch' = ch_fd ch \<and> snd (chan_shape ch') = map (Some \<circ> Client) [ConnRead c, ConnWrite c, ConnClose c, ConnClose c] \<and>
     s' = set_chan a ch' (set_world w (set_loop lp l' s))"
proof -
  let ?s = "set_chan a (SetEpollEdgeTriggered True ch) s"
  have cn: "get_conn c s = Inr cn" "get_chan a s = Inr ch" using assms by (simp_all add: get_conn_Inr)
  then obtain s1 where s1: "UpdateToLoop os a EPOLL_CTL_ADD ?s = Inr s1" "SetChannelCallbacks c s1 = Inr s'"
    using assms(1,4) by (auto simp: Connection_Init_def sbind_Inr)
  from UpdateToLoop_called [OF s1(1)] obtain lp l n op f ev where "loops ?s lp = Some l"
    and e: "s1 = set_world (snd (sys_epoll_ctl os (poll_fd l) op f ev (world ?s))) (set_loop lp (l\<lparr>cur_poll_size := n\<rparr>) ?s)"
    unfolding poller_called_def by blast
  moreover define w where "w = snd (sys_epoll_ctl os (poll_fd l) op f ev (world ?s))"
  ultimately have l: "loops s lp = Some l" "socks w = socks (world s)" and e: "s1 = set_world w (set_loop lp (l\<lparr>cur_poll_size := n\<rparr>) ?s)"
    using socks_stableD(5) [OF assms(2)] by simp_all
  have "get_conn c s1 = Inr cn" "get_chan a s1 = Inr (SetEpollEdgeTriggered True ch)" using assms(3) by (simp_all add: e get_conn_Inr)
  then have s': "s' = set_chan a ((SetEpollEdgeTriggered True ch)\<lparr>read_callback := Some (Client (ConnRead c)), write_callback := Some (Client (ConnWrite c)),
             close_callback := Some (Client (ConnClose c)), error_callback := Some (Client (ConnClose c))\<rparr>) s1"
    using s1(2) assms(4) by (simp add: SetChannelCallbacks_def)
  have swap: "set_chan a x (set_world w (set_loop lp l' (set_chan a y s))) = set_chan a x (set_world w (set_loop lp l' s))" for x y l'
    by (simp add: set_chan_def set_world_def set_loop_def)
  show ?thesis
    by (rule exI [of _ w], rule exI [of _ lp], rule exI [of _ l], rule exI [of _ "l\<lparr>cur_poll_size := n\<rparr>"], rule exI,
        intro conjI, rule l(1), simp, rule l(2), rule_tac [3] s' [unfolded e swap])
      (simp_all add: SetEpollEdgeTriggered_def chan_shape_def)
qed

lemma virtual_Init_Inr:
  assumes "virtual_Init os c s = Inr s'" and "socks_stable os socks"
    and "conns s c = Some cn" and "conn_channel cn = a" and "chans s a = Some ch"
  shows "\<exists>w lp l l' ch'. loops s lp = Some l \<and> wakeup_callback l' = wakeup_callback l \<and> socks w = socks (world s) \<and>
     ch_fd ch' = ch_fd ch \<and> snd (chan_shape ch') = map (Some \<circ> Client) [ConnRead c, ConnWrite c, ConnClose c, ConnClose c] \<and>
     s' = set_chan a ch' (set_world w (set_loop lp l' s))"
proof -
  obtain s1 where s1: "Connection_Init os c s = Inr s1"
    using assms(1) by (auto simp: virtual_Init_def TlsConnection_Init_def sbind_Inr split: option.splits)
  from Connection_Init_Inr [OF this assms(2-5)] obtain w lp l l' ch' where
    l: "loops s lp = Some l" "wakeup_callback l' = wakeup_callback l" "socks w = socks (world s)" and ch': "ch_fd ch' = ch_fd ch"
      "snd (chan_shape ch') = map (Some \<circ> Client) [ConnRead c, ConnWrite c, ConnClose c, ConnClose c]"
    and e: "s1 = set_chan a ch' (set_world w (set_loop lp l' s))" by blast
  have "s' = s1 \<or> s' = set_chan a (SetEpollEdgeTriggered False ch') s1"
    using assms(1,3,4) s1
    by (auto simp: virtual_Init_def TlsConnection_Init_def get_conn_Inr get_chan_Inr sbind_Inr e split: option.splits if_splits)
  then have "\<exists>ch''. ch_fd ch'' = ch_fd ch' \<and> snd (chan_shape ch'') = snd (chan_shape ch') \<and> s' = set_chan a ch'' (set_world w (set_loop lp l' s))"
  proof
    assume "s' = set_chan a (SetEpollEdgeTriggered False ch') s1"
    then show ?thesis
      by (intro exI [of _ "SetEpollEdgeTriggered False ch'"]) (simp add: e SetEpollEdgeTriggered_def chan_shape_def set_chan_def)
  qed (use e in auto)
  then show ?thesis using l ch' by metis
qed

lemma virtual_destroy_Inr:
  assumes "virtual_destroy os c s = Inr s'" and "all_plain s"
  shows "\<exists>cn ch w tp. conns s c = Some cn \<and> chans s (conn_channel cn) = Some ch \<and> socket_close os (ch_fd ch) (world s) = Inr w \<and>
     s' = s\<lparr>chans := (chans s)(conn_channel cn := None), conns := (conns s)(c := None), tls_parts := tp, world := w\<rparr>"
proof -
  have d: "\<exists>cn ch w. conns s c = Some cn \<and> chans s (conn_channel cn) = Some ch \<and> socket_close os (ch_fd ch) (world s) = Inr w \<and>
     s' = s\<lparr>chans := (chans s)(conn_channel cn := None), conns := (conns s)(c := None), tls_parts := tp, world := w\<rparr>"
    if "Connection_destroy os c (s\<lparr>tls_parts := tp\<rparr>) = Inr s'" for tp
    using that assms(2) by (fastforce simp: Connection_destroy_def sbind_Inr get_conn_def get_chan_def all_plain_def set_world_def
        split: option.splits)
  show ?thesis
  proof (cases "tls_parts s c")
    case None
    then have "Connection_destroy os c (s\<lparr>tls_parts := tls_parts s\<rparr>) = Inr s'" using assms(1) by (simp add: virtual_destroy_def)
    then show ?thesis using d by blast
  next
    case (Some p)
    then show ?thesis using assms(1) d by (simp add: virtual_destroy_def TlsConnection_destroy_def get_tls_def) blast
  qed
qed

section \<open>Handlers that keep an invariant\<close>

text \<open>
  An invariant that depends only on the shape of the state, and that the callbacks of connections and of
  other channels keep, is kept by the handling of events.
\<close>

locale handler_invariant =
  fixes os :: "'w posix" and ssl :: "'e openssl" and socks :: "'w \<Rightarrow> fd set"
    and user :: "'u \<Rightarrow> addr \<Rightarrow> ('u, 'w, 'e, 'z) tls_net_scheme \<Rightarrow> ('u, 'w, 'e, 'z) tls_net_scheme res option"
    and I :: "('u, 'w, 'e, 'z) tls_net_scheme \<Rightarrow> bool"
  assumes kernel: "I s \<Longrightarrow> socks_stable os socks"
    and plain: "I s \<Longrightarrow> all_plain s"
    and shape: "I s \<Longrightarrow> same_shape socks s s' \<Longrightarrow> I s'"
    and no_wakeup: "I s \<Longrightarrow> loops s lp = Some l \<Longrightarrow> wakeup_callback l = None"
    and conn_callback: "I s \<Longrightarrow> conns s c = Some cn \<Longrightarrow> keeps I (user u c s)"
    and other_callback: "I s \<Longrightarrow> chans s a = Some ch \<Longrightarrow> Some (Client (Other u)) \<in> set (snd (chan_shape ch)) \<Longrightarrow> keeps I (user u 0 s)"
begin

lemma kept_I: "I s0 \<Longrightarrow> kept socks s0 s \<Longrightarrow> I s"
  by (auto simp: kept_def intro: shape)

lemma self_kept: "I s \<Longrightarrow> kept socks s s"
  by (simp add: kept_def plain)

lemma user_call_I: "I s \<Longrightarrow> conns s c = Some cn \<Longrightarrow> keeps I (user_call user u c s)"
  by (auto simp: user_call_def conn_callback split: option.split)

lemma still_there:
  assumes "kept socks s0 s" and "conns s0 c = Some cn"
  obtains cn' where "conns s c = Some cn'"
proof -
  have "map_option conn_shape (conns s c) = map_option conn_shape (conns s0 c)" using assms(1) unfolding kept_def same_shape_def by blast
  then show thesis using assms(2) that by (cases "conns s c") simp_all
qed

lemma OnCloseCallback_I:
  assumes "I s"
  shows "keeps I (OnCloseCallback os user c s)"
  unfolding OnCloseCallback_def
proof (rule keeps_get, rule keeps_bind [OF ShutDown_kept(1) [OF kernel [OF assms] self_kept [OF assms]]],
    rule keeps_bind [OF RemoveFromLoop_kept [OF kernel [OF assms]]])
  fix cn s1 s2 assume cn: "get_conn c s = Inr cn" and s2: "kept socks s s2"
  then obtain cn2 where "conns s2 c = Some cn2" using still_there [OF s2] by (auto simp: get_conn_Inr)
  then show "keeps I (user_call user (on_close cn) c s2)" using user_call_I kept_I [OF assms s2] by blast
qed

lemma after_read_I:
  assumes "I s"
  shows "keeps I (after_read os user c s)"
  unfolding after_read_def
proof (rule keeps_get)
  fix cn assume cn: "get_conn c s = Inr cn"
  have "keeps I (if Buffer_Empty (read_buffer cn) then Some (Inr s) else user_call user (on_read cn) c s)"
    using assms cn user_call_I [OF assms] by (simp add: get_conn_Inr)
  moreover have "keeps I (Some (Connection_Close os c s1))" if "I s1" for s1
    using Connection_Close_kept [OF kernel [OF that] self_kept [OF that]] by (rule keeps_mono) (rule kept_I [OF that])
  ultimately show "keeps I (obind (if Buffer_Empty (read_buffer cn) then Some (Inr s) else user_call user (on_read cn) c s) (\<lambda>s1.
     obind (Some (get_conn c s1)) (\<lambda>cn1.
       if shut_down cn1 \<and> IBuffer_Empty (write_buffer cn1) then Some (Connection_Close os c s1) else Some (Inr s1))))"
    by (elim keeps_bind) (auto intro!: keeps_get)
qed

lemma shut_down_then:
  assumes "I s" and "\<And>s'. I s' \<Longrightarrow> keeps I (k s')"
  shows "keeps I (obind (Some (set_shut_down c s)) k)"
  using set_shut_down_kept [OF self_kept [OF assms(1)]] by (rule keeps_bind) (rule assms(2) [OF kept_I [OF assms(1)]])

lemma OnReadCallback_I:
  assumes "I s"
  shows "keeps I (OnReadCallback_via os (virtual_ReadBuffer os ssl) user c s)"
  unfolding OnReadCallback_via_def
proof (rule keeps_get)
  fix cn
  have "keeps (\<lambda>p. I (snd p)) (virtual_ReadBuffer os ssl c s)"
    using virtual_ReadBuffer_kept [OF kernel [OF assms] self_kept [OF assms]] by (rule keeps_mono) (rule kept_I [OF assms])
  note rd = this [THEN keeps_bind]
  show "keeps I (if shut_down cn then Some (Inr s) else obind (virtual_ReadBuffer os ssl c s) (\<lambda>(r, s1).
           case r of
             ReadRet n \<Rightarrow> (if n = 0 then obind (Some (set_shut_down c s1)) (after_read os user c) else after_read os user c s1)
           | ReadErr e \<Rightarrow>
              (if e = ECONNRESET then obind (Some (set_shut_down c s1)) (OnCloseCallback os user c)
               else after_read os user c s1)
           | ReadFail \<Rightarrow> obind (Some (set_shut_down c s1)) (after_read os user c)))"
    using assms
    by (auto intro!: rd shut_down_then after_read_I OnCloseCallback_I split: read_ret.split simp del: obind_simps)
qed

lemma OnWriteCallback_I:
  assumes "I s"
  shows "keeps I (OnWriteCallback_via os (virtual_WriteBuffer os ssl) user c s)"
proof -
  have wr: "keeps (\<lambda>p. I (snd p)) (virtual_WriteBuffer os ssl c s)"
    using virtual_WriteBuffer_kept [OF kernel [OF assms] self_kept [OF assms]] by (rule keeps_mono) (rule kept_I [OF assms])
  have fin: "keeps I (obind (Some (get_conn c s2)) (\<lambda>cn2.
       if shut_down cn2 \<and> IBuffer_Empty (write_buffer cn2) then OnCloseCallback os user c s2
       else Some (Connection_EnableWrite os c ret s2)))" if "I s2" for ret s2
    using OnCloseCallback_I [OF that] keeps_mono [OF EnableWrite_kept [OF kernel [OF that] self_kept [OF that]] kept_I [OF that]]
    by (auto intro!: keeps_get)
  have "keeps I (obind (Some (get_conn c s1)) (\<lambda>cn1. obind (user_call user (on_write cn1) c s1) (\<lambda>s2.
      obind (Some (get_conn c s2)) (\<lambda>cn2.
       if shut_down cn2 \<and> IBuffer_Empty (write_buffer cn2) then OnCloseCallback os user c s2
       else Some (Connection_EnableWrite os c ret s2)))))" if "I s1" for ret s1
    by (rule keeps_get, rule keeps_bind [OF user_call_I [OF that]]) (auto simp: get_conn_Inr intro: fin)
  then show ?thesis
    unfolding OnWriteCallback_via_def by (intro keeps_bind [OF wr]) auto
qed

lemma call_I:
  assumes "I s" and "chans s a = Some ch" and "cb \<in> set (snd (chan_shape ch))"
  shows "keeps I (call os (virtual_run os ssl user) cb s)"
proof (cases cb)
  case (Some k)
  show ?thesis
  proof (cases k)
    case (PipeRead lp)
    have "I (set_world (snd (sys_read os f n (world s))) s)" for f n
      using socks_stableD(1) [OF kernel [OF assms(1)]] by (intro shape [OF assms(1)] same_shape_sets(1)) simp
    then show ?thesis
      using Some PipeRead no_wakeup [OF assms(1)]
      by (auto simp: call_def Pipe_ReadCallback_def Let_def get_loop_Inr intro!: keeps_get split: option.split)
  next
    case (Client n)
    then show ?thesis
      using Some assms OnReadCallback_I OnWriteCallback_I OnCloseCallback_I other_callback [OF assms(1,2)]
      by (cases n) (simp_all add: call_def virtual_run_def)
  qed
qed (simp add: call_def assms(1))

lemma HandleEvents_I:
  assumes "I s"
  shows "keeps I (HandleEvents os (virtual_run os ssl user) a s)"
  unfolding HandleEvents_def
proof (rule keeps_get)
  fix ch assume "get_chan a s = Inr ch"
  then have ch: "chans s a = Some ch" by (simp add: get_chan_Inr)
  let ?s = "set_chan a (ch\<lparr>revents := 0\<rparr>) s" and ?run = "virtual_run os ssl user"
  have s1: "I ?s" by (rule shape [OF assms same_shape_sets(2) [OF ch]]) simp
  have cb: "keeps I (call os ?run k ?s)" if "k \<in> set (snd (chan_shape ch))" for k
    by (rule call_I [OF s1, of a "ch\<lparr>revents := 0\<rparr>"]) (use that in simp_all)
  have rd: "keeps I (obind (Some (get_chan a s2)) (\<lambda>ch2. call os ?run (read_callback ch2) s2))" if "I s2" for s2
    using call_I [OF that, of a] by (intro keeps_get) (simp add: get_chan_Inr chan_shape_def)
  have "keeps I (if revents ch AND kPollOut \<noteq> 0 then call os ?run (write_callback ch) ?s else Some (Inr ?s))"
    using cb [of "write_callback ch"] s1 by (simp add: chan_shape_def)
  then have "keeps I (obind (if revents ch AND kPollOut \<noteq> 0 then call os ?run (write_callback ch) ?s else Some (Inr ?s)) (\<lambda>s2.
         if revents ch AND (kPollIn OR kPollRdHup) \<noteq> 0
         then obind (Some (get_chan a s2)) (\<lambda>ch2. call os ?run (read_callback ch2) s2)
         else Some (Inr s2)))"
    by (rule keeps_bind) (simp add: rd del: obind_simps)
  moreover have "keeps I (call os ?run (close_callback ch) ?s)" "keeps I (call os ?run (error_callback ch) ?s)"
    by (rule cb, simp add: chan_shape_def)+
  ultimately show "keeps I (let evts = revents ch; s1 = ?s in
       if evts AND kPollHup \<noteq> 0 then call os ?run (close_callback ch) s1
       else if evts AND kPollErr \<noteq> 0 then call os ?run (error_callback ch) s1
       else obind (if evts AND kPollOut \<noteq> 0 then call os ?run (write_callback ch) s1 else Some (Inr s1)) (\<lambda>s2.
         if evts AND (kPollIn OR kPollRdHup) \<noteq> 0
         then obind (Some (get_chan a s2)) (\<lambda>ch2. call os ?run (read_callback ch2) s2)
         else Some (Inr s2)))"
    unfolding Let_def by (simp only: if_split) blast
qed

lemma mark_ready_I: "I s \<Longrightarrow> mark_ready evs s = Inr s' \<Longrightarrow> I s'"
proof (induction evs s rule: mark_ready.induct)
  case (2 evt a rest s)
  then obtain ch where ch: "chans s a = Some ch" "mark_ready rest (set_chan a (SetRevents evt ch) s) = Inr s'"
    by (auto simp: sbind_Inr get_chan_Inr)
  have "I (set_chan a (SetRevents evt ch) s)"
    by (rule shape [OF 2(2) same_shape_sets(2) [OF ch(1)]]) (simp add: SetRevents_def)
  then show ?case using 2(1) ch by (simp add: get_chan_Inr)
qed simp

lemma Poll_I:
  assumes "I s" and "Poll os lp s = Inr (act, s')"
  shows "I s'"
proof -
  obtain l r w where l: "get_loop lp s = Inr l" and w: "sys_epoll_wait os (poll_fd l) kPollLimit (world s) = (r, w)"
    using assms(2) by (auto simp: Poll_def sbind_Inr) (metis prod.exhaust)
  have "I (set_world w s)"
    using socks_stableD(6) [OF kernel [OF assms(1)], of "poll_fd l" kPollLimit "world s"] w
    by (intro shape [OF assms(1)] same_shape_sets(1)) simp
  then show ?thesis
    using assms(2) l w by (auto simp: Poll_def sbind_Inr split: sysres.splits if_splits dest: mark_ready_I)
qed

end

end
