(* ===== verification/Server_Ownership.thy ===== *)
theory Server_Ownership
  imports Tcp_Server Net_Shape
begin

text \<open>
  Who owns what in a server: every socket it has accepted belongs to one task that has not run yet or to
  one connection, a connection lives as long as there is a pointer to it, and a socket is closed
  when its connection is destroyed. The invariant is kept by every event and by every part of a task
  a worker runs, in any interleaving.
\<close>

section \<open>Fields of a server\<close>

lemma server_selectors [simp]:
  "connections (set_conn c cn s) = connections s" "connections (set_chan a ch s) = connections s"
  "connections (set_loop lp l s) = connections s" "connections (set_world w s) = connections s" "connections (set_tls c p s) = connections s"
  "refs (set_conn c cn s) = refs s" "refs (set_chan a ch s) = refs s" "refs (set_loop lp l s) = refs s" "refs (set_world w s) = refs s"
  "refs (set_tls c p s) = refs s" "next_addr (set_conn c cn s) = next_addr s" "next_addr (set_chan a ch s) = next_addr s"
  "next_addr (set_loop lp l s) = next_addr s" "next_addr (set_world w s) = next_addr s" "next_addr (set_tls c p s) = next_addr s"
  "working_threads (set_conn c cn s) = working_threads s" "working_threads (set_chan a ch s) = working_threads s"
  "working_threads (set_loop lp l s) = working_threads s" "working_threads (set_world w s) = working_threads s"
  "working_threads (set_tls c p s) = working_threads s" "srv_send_file (set_conn c cn s) = srv_send_file s"
  "srv_send_file (set_chan a ch s) = srv_send_file s" "srv_send_file (set_loop lp l s) = srv_send_file s"
  "srv_send_file (set_world w s) = srv_send_file s" "srv_send_file (set_tls c p s) = srv_send_file s"
  "srv_running (set_conn c cn s) = srv_running s" "srv_running (set_chan a ch s) = srv_running s"
  "srv_running (set_loop lp l s) = srv_running s" "srv_running (set_world w s) = srv_running s" "srv_running (set_tls c p s) = srv_running s"
  by (simp_all add: set_conn_def set_chan_def set_loop_def set_world_def set_tls_def)

lemma same_shape_fields:
  assumes "same_shape socks s (s' :: ('u, 'w, 'e) server)"
  shows "connections s' = connections s" "refs s' = refs s" "next_addr s' = next_addr s" "working_threads s' = working_threads s"
    "srv_send_file s' = srv_send_file s" "srv_running s' = srv_running s"
  using assms unfolding same_shape_def by (cases s; cases s'; simp)+

section \<open>The invariant\<close>

text \<open>
  A worker that runs a task: it has set up a connection that is not in the table yet, or it is in the read
  callback. Either way it holds a pointer.
\<close>

datatype job = Registering fd addr | Reading addr

fun job_conn :: "job \<Rightarrow> addr" where
  "job_conn (Registering f c) = c"
| "job_conn (Reading c) = c"

fun task_conns :: "srv_task list \<Rightarrow> addr list" where
  "task_conns [] = []"
| "task_conns (ReadTask c # ts) = c # task_conns ts"
| "task_conns (_ # ts) = task_conns ts"

fun task_fds :: "srv_task list \<Rightarrow> fd list" where
  "task_fds [] = []"
| "task_fds (NewConnTask f addr # ts) = f # task_fds ts"
| "task_fds (_ # ts) = task_fds ts"

lemma task_append [simp]:
  "task_conns (ts @ us) = task_conns ts @ task_conns us" "task_fds (ts @ us) = task_fds ts @ task_fds us"
proof -
  show "task_conns (ts @ us) = task_conns ts @ task_conns us" by (induction ts rule: task_conns.induct) simp_all
  show "task_fds (ts @ us) = task_fds ts @ task_fds us" by (induction ts rule: task_fds.induct) simp_all
qed

definition queue :: "('u, 'w, 'e) server \<Rightarrow> srv_task list" where
  "queue s = (case working_threads s of None \<Rightarrow> [] | Some tp \<Rightarrow> tasks tp)"

definition pointers :: "('u, 'w, 'e) server \<Rightarrow> job list \<Rightarrow> addr list" where
  "pointers s js = map snd (connections s) @ task_conns (queue s) @ map job_conn js"

text \<open>The pointers are counted, and the connections that are alive are those with a pointer.\<close>

definition counted :: "('u, 'w, 'e) server \<Rightarrow> job list \<Rightarrow> bool" where
  "counted s js \<longleftrightarrow> (\<forall>c. refs s c = count_list (pointers s js) c) \<and> (\<forall>c. conns s c \<noteq> None \<longleftrightarrow> c \<in> set (pointers s js))"

text \<open>
  The sockets that are open are those that were open at the start, those of connections, and those of
  queued tasks, and no two of them are the same; the table has every connection under its socket.
\<close>

definition sockets_owned :: "('w \<Rightarrow> fd set) \<Rightarrow> fd set \<Rightarrow> ('u, 'w, 'e) server \<Rightarrow> bool" where
  "sockets_owned socks base s \<longleftrightarrow>
     dom (conn_fd s) = dom (conns s) \<and> inj_on (conn_fd s) (dom (conns s)) \<and> distinct (task_fds (queue s)) \<and>
     socks (world s) = base \<union> ran (conn_fd s) \<union> set (task_fds (queue s)) \<and>
     base \<inter> ran (conn_fd s) = {} \<and> (base \<union> ran (conn_fd s)) \<inter> set (task_fds (queue s)) = {}"

definition table_ok :: "('u, 'w, 'e) server \<Rightarrow> job list \<Rightarrow> bool" where
  "table_ok s js \<longleftrightarrow>
     distinct (map fst (connections s)) \<and> (\<forall>(f, c)\<in>set (connections s). conn_fd s c = Some f) \<and>
     (\<forall>f c. Registering f c \<in> set js \<longrightarrow> conn_fd s c = Some f)"

definition server_wf :: "('u, 'w, 'e) server \<Rightarrow> bool" where
  "server_wf s \<longleftrightarrow>
     all_plain s \<and> \<not> srv_send_file s \<and> srv_running s \<and>
     (\<forall>c. conns s c \<noteq> None \<longrightarrow> c < next_addr s) \<and> (\<forall>a. chans s a \<noteq> None \<longrightarrow> a < next_addr s) \<and>
     (\<forall>a ch u. chans s a = Some ch \<longrightarrow> Some (Client (Other u)) \<in> set (snd (chan_shape ch)) \<longrightarrow> u = SrvAccept) \<and>
     (\<forall>lp l. loops s lp = Some l \<longrightarrow> wakeup_callback l = None)"

definition owns :: "('w \<Rightarrow> fd set) \<Rightarrow> fd set \<Rightarrow> ('u, 'w, 'e) server \<Rightarrow> job list \<Rightarrow> bool" where
  "owns socks base s js \<longleftrightarrow> server_wf s \<and> counted s js \<and> sockets_owned socks base s \<and> table_ok s js"

section \<open>The invariant depends on the shape\<close>

lemma same_shape_queue: "same_shape socks s s' \<Longrightarrow> queue s' = queue s"
  using same_shape_fields(4) [of socks s s'] by (simp add: queue_def)

lemma same_shape_wf:
  assumes "same_shape socks s s'" and "server_wf s"
  shows "server_wf s'"
proof -
  have "all_plain s'"
    unfolding all_plain_def using kept_plain [of socks s s'] assms by (simp add: kept_def server_wf_def)
  moreover have "u = SrvAccept" if "chans s' a = Some ch" "Some (Client (Other u)) \<in> set (snd (chan_shape ch))" for a ch u
    using same_shapeD(2) [OF assms(1) that(1)] that(2) assms(2) unfolding server_wf_def by metis
  moreover have "wakeup_callback l = None" if "loops s' lp = Some l" for lp l
    using same_shapeD(3) [OF assms(1) that] assms(2) unfolding server_wf_def by metis
  ultimately show ?thesis
    using assms same_shapeD(4,5) [OF assms(1)] same_shape_fields [OF assms(1)] unfolding server_wf_def by auto
qed

lemma same_shape_owns:
  assumes "same_shape socks s s'" and "owns socks base s js"
  shows "owns socks base s' js"
proof -
  note eqs = same_shape_conn_fd [OF assms(1)] same_shape_queue [OF assms(1)] same_shapeD(4) [OF assms(1)]
  have d: "dom (conns s') = dom (conns s)" using eqs(3) by (auto simp: dom_def)
  show ?thesis
    using assms same_shape_wf [OF assms(1)] same_shape_fields [OF assms(1)]
    by (simp add: owns_def counted_def sockets_owned_def table_ok_def pointers_def eqs d same_shape_def)
qed

section \<open>Dropping a pointer\<close>

lemma pointers_Cons: "count_list (pointers s (j # js)) c = count_list (pointers s js) c + (if job_conn j = c then 1 else 0)"
  by (simp add: pointers_def)

lemma pointers_Cons_set: "set (pointers s (j # js)) = insert (job_conn j) (set (pointers s js))"
  by (auto simp: pointers_def)

lemma refs_update [simp]:
  "queue (s\<lparr>refs := r\<rparr>) = queue s" "conn_fd (s\<lparr>refs := r\<rparr>) = conn_fd s" "pointers (s\<lparr>refs := r\<rparr>) js = pointers s js"
  "server_wf (s\<lparr>refs := r\<rparr>) = server_wf s" "sockets_owned socks base (s\<lparr>refs := r\<rparr>) = sockets_owned socks base s"
  "table_ok (s\<lparr>refs := r\<rparr>) js = table_ok s js"
proof -
  show eqs: "queue (s\<lparr>refs := r\<rparr>) = queue s" "conn_fd (s\<lparr>refs := r\<rparr>) = conn_fd s"
    by (simp_all add: queue_def conn_fd_def fun_eq_iff)
  show "pointers (s\<lparr>refs := r\<rparr>) js = pointers s js" "server_wf (s\<lparr>refs := r\<rparr>) = server_wf s"
    "sockets_owned socks base (s\<lparr>refs := r\<rparr>) = sockets_owned socks base s" "table_ok (s\<lparr>refs := r\<rparr>) js = table_ok s js"
    by (simp_all add: pointers_def server_wf_def all_plain_def sockets_owned_def table_ok_def eqs)
qed

lemma conn_fd_destroy:
  assumes "conns s c = Some cn" and "inj_on (conn_fd s) (dom (conns s))"
  shows "conn_fd (s\<lparr>chans := (chans s)(conn_channel cn := None), conns := (conns s)(c := None), tls_parts := tp, world := w\<rparr>)
     = (conn_fd s)(c := None)"
proof
  fix x
  show "conn_fd (s\<lparr>chans := (chans s)(conn_channel cn := None), conns := (conns s)(c := None), tls_parts := tp, world := w\<rparr>) x
     = ((conn_fd s)(c := None)) x"
  proof (cases "x = c \<or> conns s x = None")
    case False
    then obtain cx where cx: "conns s x = Some cx" "x \<noteq> c" by auto
    then have "conn_fd s x \<noteq> conn_fd s c" using assms inj_onD [OF assms(2)] by (metis domI)
    then have "conn_channel cx \<noteq> conn_channel cn" using cx assms(1) by (auto simp: conn_fd_def)
    then show ?thesis using cx by (simp add: conn_fd_def)
  qed (auto simp: conn_fd_def)
qed

lemma ran_delete: "inj_on m (dom m) \<Longrightarrow> m c = Some f \<Longrightarrow> ran (m(c := None)) = ran m - {f}"
  by (auto simp: ran_def inj_on_def dom_def) (metis option.inject)

lemma destroy_owns:
  assumes st: "socks_stable os socks" and o: "owns socks base s (j # js)" and one: "refs s (job_conn j) = 1"
    and d: "virtual_destroy os (job_conn j) (s\<lparr>refs := (refs s)(job_conn j := 0)\<rparr>) = Inr s'"
  shows "owns socks base s' js"
proof -
  let ?c = "job_conn j" and ?s = "s\<lparr>refs := (refs s)(job_conn j := 0)\<rparr>"
  have wf: "server_wf s" and cnt: "counted s (j # js)" and so: "sockets_owned socks base s" and tb: "table_ok s (j # js)"
    using o by (simp_all add: owns_def)
  have fresh: "?c \<notin> set (pointers s js)"
    using cnt one by (simp add: counted_def pointers_Cons count_list_0_iff [symmetric])
  have "all_plain ?s" using wf by (simp add: server_wf_def all_plain_def)
  from virtual_destroy_Inr [OF d this] obtain cn ch w tp where
    cn: "conns s ?c = Some cn" "chans s (conn_channel cn) = Some ch" and w: "socket_close os (ch_fd ch) (world s) = Inr w"
    and s': "s' = ?s\<lparr>chans := (chans ?s)(conn_channel cn := None), conns := (conns ?s)(?c := None), tls_parts := tp, world := w\<rparr>"
    by fastforce
  have inj: "inj_on (conn_fd s) (dom (conns s))" and dm: "dom (conn_fd s) = dom (conns s)"
    using so by (simp_all add: sockets_owned_def)
  have f: "conn_fd s ?c = Some (ch_fd ch)" using cn by (simp add: conn_fd_def)
  have cf: "conn_fd s' = (conn_fd s)(?c := None)" unfolding s' using conn_fd_destroy [of ?s, OF _ _] cn(1) inj by simp
  have sel: "queue s' = queue s" "connections s' = connections s" "world s' = w" "refs s' = (refs s)(?c := 0)"
    "conns s' = (conns s)(?c := None)" "pointers s' js = pointers s js"
    by (simp_all add: s' queue_def pointers_def)
  have rn: "ran (conn_fd s') = ran (conn_fd s) - {ch_fd ch}" unfolding cf using inj dm f by (intro ran_delete) simp_all
  have "ch_fd ch \<in> ran (conn_fd s)" using f by (rule ranI)
  then have "sockets_owned socks base s'"
    using so socks_stableD(8) [OF st w] by (auto simp: sockets_owned_def sel cf rn [unfolded cf] inj_on_def)
  moreover have "server_wf s'"
    using wf by (auto simp: s' server_wf_def all_plain_def split: if_splits)
  moreover have "counted s' js"
    using cnt fresh by (auto simp: counted_def sel pointers_Cons pointers_Cons_set)
  moreover have "table_ok s' js"
    using tb fresh by (auto simp: table_ok_def sel cf pointers_def image_iff)
  ultimately show ?thesis by (simp add: owns_def)
qed

lemma release_owns:
  assumes "socks_stable os socks" and "owns socks base s (j # js)"
  shows "keeps (\<lambda>s'. owns socks base s' js) (Some (release os (job_conn j) s))"
proof (cases "refs s (job_conn j) = 1")
  case True
  then show ?thesis using destroy_owns [OF assms True] by (simp add: release_def Let_def keeps_def)
next
  case False
  have cnt: "counted s (j # js)" using assms(2) by (simp add: owns_def)
  then have "count_list (pointers s js) (job_conn j) \<noteq> 0" using False by (simp add: counted_def pointers_Cons)
  then have "job_conn j \<in> set (pointers s js)" by (metis count_list_0_iff)
  then have "counted (s\<lparr>refs := (refs s)(job_conn j := refs s (job_conn j) - 1)\<rparr>) js"
    using cnt by (auto simp: counted_def pointers_Cons pointers_Cons_set)
  then show ?thesis
    using False assms(2) by (simp add: release_def Let_def owns_def table_ok_def)
qed

section \<open>Callbacks of the server\<close>

text \<open>A state that differs in the pointers, the table and the queue only.\<close>

definition book :: "(addr \<Rightarrow> nat) \<Rightarrow> (fd \<times> addr) list \<Rightarrow> srv_task thread_pool option \<Rightarrow> ('u, 'w, 'e) server \<Rightarrow> ('u, 'w, 'e) server" where
  "book r cs wt s = s\<lparr>refs := r, connections := cs, working_threads := wt\<rparr>"

lemma book_simps [simp]:
  "conn_fd (book r cs wt s) = conn_fd s" "server_wf (book r cs wt s) = server_wf s" "conns (book r cs wt s) = conns s"
  "world (book r cs wt s) = world s" "refs (book r cs wt s) = r" "connections (book r cs wt s) = cs"
  "working_threads (book r cs wt s) = wt" "queue (book r cs wt s) = (case wt of None \<Rightarrow> [] | Some tp \<Rightarrow> tasks tp)"
  by (simp_all add: book_def conn_fd_def server_wf_def all_plain_def queue_def fun_eq_iff)

lemma OnReadCallback_server_owns:
  assumes "owns socks base s js" and "conns s c = Some cn"
  shows "keeps (\<lambda>s'. owns socks base s' js) (Some (OnReadCallback_server c s))"
proof (cases "srv_on_read s = None \<or> working_threads s = None")
  case False
  then obtain tp where tp: "working_threads s = Some tp" by auto
  have "owns socks base (book ((refs s)(c := Suc (refs s c))) (connections s) (Some (ThreadPool_emplace (Some (ReadTask c)) tp)) s) js"
    using assms tp
    by (auto simp: owns_def counted_def sockets_owned_def table_ok_def pointers_def ThreadPool_emplace_def queue_def)
  then show ?thesis
    using False tp by (auto simp: OnReadCallback_server_def emplace_task_def retain_def book_def)
qed (use assms in \<open>auto simp: OnReadCallback_server_def emplace_task_def retain_def split: option.splits\<close>)

lemma take_out:
  assumes "distinct (map fst xs)" and "map_of xs f = Some c"
  shows "count_list (map snd xs) x = count_list (map snd (filter (\<lambda>p. fst p \<noteq> f) xs)) x + (if x = c then 1 else 0)"
  using assms
proof (induction xs)
  case (Cons a xs)
  have "filter (\<lambda>p. fst p \<noteq> f) xs = xs" if "f \<notin> fst ` set xs" using that by (force simp: filter_id_conv)
  then show ?case using Cons by (auto split: if_splits)
qed simp

lemma count_pos_iff: "x \<in> set xs \<longleftrightarrow> 0 < count_list xs x"
  by (metis count_list_0_iff gr0I less_numeral_extra(3))

lemma OnCloseConnectionCallback_owns:
  assumes "socks_stable os socks" and "owns socks base s js"
  shows "keeps (\<lambda>s'. owns socks base s' js) (Some (OnCloseConnectionCallback os f s))"
proof (cases "map_of (connections s) f")
  case (Some c)
  let ?s = "book (refs s) (filter (\<lambda>p. fst p \<noteq> f) (connections s)) (working_threads s) s"
  have o: "server_wf s" "counted s js" "sockets_owned socks base s" "table_ok s js" using assms(2) by (simp_all add: owns_def)
  have "count_list (pointers ?s (Reading c # js)) x = count_list (pointers s js) x" for x
    using take_out [OF _ Some, of x] o(4) by (auto simp: pointers_def table_ok_def queue_def)
  then have "counted ?s (Reading c # js)"
    using o(2) by (auto simp: counted_def count_pos_iff)
  moreover have "table_ok ?s (Reading c # js)"
    using o(4) by (auto simp: table_ok_def distinct_map inj_on_def)
  moreover have "sockets_owned socks base ?s" "server_wf ?s"
    using o by (simp_all add: sockets_owned_def queue_def)
  ultimately have "owns socks base ?s (Reading c # js)" by (simp add: owns_def)
  from release_owns [OF assms(1) this] show ?thesis using Some by (simp add: OnCloseConnectionCallback_def book_def)
qed (simp add: OnCloseConnectionCallback_def assms(2))

lemma HandleAcceptCallback_owns:
  assumes "socks_stable os socks" and "owns socks base s js"
  shows "keeps (\<lambda>s'. owns socks base s' js) (Some (HandleAcceptCallback os ntop e s))"
  unfolding keeps_def
proof (intro allI impI)
  fix s' assume "Some (HandleAcceptCallback os ntop e s) = Some (Inr s')"
  then obtain f0 g a w tp addr where acc: "socket_accept os f0 (world s) = Inr (g, a, w)" and tp: "working_threads s = Some tp"
    and s': "s' = (set_world w s)\<lparr>working_threads := Some (ThreadPool_emplace (Some (NewConnTask g addr)) tp)\<rparr>"
    by (fastforce simp: HandleAcceptCallback_def OnNewConnectionCallback_def emplace_task_def sbind_Inr split: option.splits)
  have w: "g \<notin> socks (world s)" "socks w = insert g (socks (world s))" using socks_stableD(7) [OF assms(1) acc] by simp_all
  have sel: "conn_fd s' = conn_fd s" "server_wf s' = server_wf s" "conns s' = conns s" "world s' = w" "refs s' = refs s"
    "connections s' = connections s" "queue s' = queue s @ [NewConnTask g addr]"
    by (simp_all add: s' conn_fd_def server_wf_def all_plain_def queue_def tp ThreadPool_emplace_def set_world_def fun_eq_iff)
  show "owns socks base s' js"
    using assms(2) w by (auto simp: owns_def counted_def sockets_owned_def table_ok_def pointers_def sel)
qed

section \<open>A new connection\<close>

lemma callbacks_set:
  assumes "conns s c = Some cn"
  shows "sbind (Connection_SetReadCallback c r s) (\<lambda>s3. sbind (Connection_SetWriteCallback c wc s3) (\<lambda>s4.
           sbind (Connection_SetCloseCallback c k s4) g))
     = g (set_conn c (cn\<lparr>on_read := r, on_write := wc, on_close := k\<rparr>) s)"
  using assms
  by (simp add: Connection_SetReadCallback_def Connection_SetWriteCallback_def Connection_SetCloseCallback_def get_conn_def set_conn_def)

lemma new_connection_setup_Inr:
  assumes "new_connection_setup os ssl f s = Inr (c, s')" and "socks_stable os socks" and "\<not> srv_send_file s"
  shows "\<exists>cn ch tp pool w lp l l'. c = next_addr s \<and> conn_channel cn = c + 1 \<and> (\<exists>b. write_buffer cn = Plain b) \<and> ch_fd ch = f \<and>
       snd (chan_shape ch) = map (Some \<circ> Client) [ConnRead c, ConnWrite c, ConnClose c, ConnClose c] \<and>
       loops s lp = Some l \<and> wakeup_callback l' = wakeup_callback l \<and> socks w = socks (world s) \<and>
       s' = set_chan (c + 1) ch (set_world w (set_loop lp l' (set_conn c cn
              (s\<lparr>tls_parts := tp, loop_threads := pool, next_addr := next_addr s + 2, refs := (refs s)(c := Suc (refs s c))\<rparr>))))"
proof -
  let ?c = "next_addr s"
  obtain pool lp0 pool' where "GetNextLoop pool = Inr (lp0, pool')" "loop_threads s = Some pool"
    using assms(1) by (auto simp: new_connection_setup_def sbind_Inr split: option.splits)
  moreover define s2 where "s2 = (let s1 = retain ?c (s\<lparr>loop_threads := Some pool', next_addr := next_addr s + 2\<rparr>) in
        if ssl_ctx s then TlsConnection_new ssl lp0 f True ?c (?c + 1) s1 else Connection_new lp0 f (srv_send_file s) ?c (?c + 1) s1)"
  ultimately have s2: "s2 = (let s1 = retain ?c (s\<lparr>loop_threads := Some pool', next_addr := next_addr s + 2\<rparr>) in
        if ssl_ctx s then TlsConnection_new ssl lp0 f True ?c (?c + 1) s1 else Connection_new lp0 f (srv_send_file s) ?c (?c + 1) s1)"
    and r: "sbind (Connection_SetReadCallback ?c (Some SrvRead) s2) (\<lambda>s3.
           sbind (Connection_SetWriteCallback ?c (map_option SrvUser (srv_on_write s)) s3) (\<lambda>s4.
           sbind (Connection_SetCloseCallback ?c (Some (SrvClose f)) s4) (\<lambda>s5.
           sbind (virtual_Init os ?c s5) (\<lambda>s6. Inr (?c, s6))))) = Inr (c, s')"
    using assms(1) by (simp_all only: new_connection_setup_def Let_def option.case sbind_simps prod.case)
  obtain tp cn where s2': "s2 = set_conn ?c cn (set_chan (?c + 1) (Channel_new (Some lp0) f)
      (s\<lparr>tls_parts := tp, loop_threads := Some pool', next_addr := next_addr s + 2, refs := (refs s)(?c := Suc (refs s ?c))\<rparr>))"
    and cn: "conn_channel cn = ?c + 1" "write_buffer cn = Plain Buffer_new"
    using that [of "\<lparr>conn_channel = ?c + 1, on_read = None, on_write = None, on_close = None, read_buffer = Buffer_new,
       write_buffer = Plain Buffer_new, shut_down = False, conn_send_file = False\<rparr>" "tls_parts s2"] assms(3)
    by (simp add: s2 Let_def TlsConnection_new_def Connection_new_def retain_def set_conn_def set_chan_def set_tls_def split: if_splits)
  have c2: "conns s2 ?c = Some cn" by (simp add: s2' set_conn_def)
  let ?cn = "cn\<lparr>on_read := Some SrvRead, on_write := map_option SrvUser (srv_on_write s), on_close := Some (SrvClose f)\<rparr>"
  let ?s5 = "set_conn ?c ?cn s2"
  have i: "c = ?c" "virtual_Init os ?c ?s5 = Inr s'" using r by (auto simp: callbacks_set [OF c2] sbind_Inr)
  have "conns ?s5 ?c = Some ?cn" "chans ?s5 (?c + 1) = Some (Channel_new (Some lp0) f)" by (simp_all add: set_conn_def s2' set_chan_def)
  from virtual_Init_Inr [OF i(2) assms(2) this(1) _ this(2)] cn(1) obtain w lp l l' ch' where
    l: "loops ?s5 lp = Some l" "wakeup_callback l' = wakeup_callback l" "socks w = socks (world ?s5)"
    and ch': "ch_fd ch' = f" "snd (chan_shape ch') = map (Some \<circ> Client) [ConnRead ?c, ConnWrite ?c, ConnClose ?c, ConnClose ?c]"
    and e: "s' = set_chan (?c + 1) ch' (set_world w (set_loop lp l' ?s5))" by (auto simp: Channel_new_def)
  have "s' = set_chan (?c + 1) ch' (set_world w (set_loop lp l' (set_conn ?c ?cn
      (s\<lparr>tls_parts := tp, loop_threads := Some pool', next_addr := next_addr s + 2, refs := (refs s)(?c := Suc (refs s ?c))\<rparr>))))"
    by (simp add: e s2' set_chan_def set_world_def set_loop_def set_conn_def)
  moreover have "loops s lp = Some l" "socks w = socks (world s)" using l by (simp_all add: s2' set_conn_def set_chan_def)
  ultimately show ?thesis using i(1) cn l(2) ch' by (intro exI conjI) simp_all
qed

lemma setup_owns:
  assumes st: "socks_stable os socks" and o: "owns socks base s js" and q: "queue s = NewConnTask f addr # tasks tp"
    and su: "new_connection_setup os ssl f (book (refs s) (connections s) (Some tp) s) = Inr (c, s')"
  shows "owns socks base s' (Registering f c # js)"
proof -
  let ?s = "book (refs s) (connections s) (Some tp) s"
  have wf: "server_wf s" and cnt: "counted s js" and so: "sockets_owned socks base s" and tb: "table_ok s js"
    using o by (simp_all add: owns_def)
  have sel1: "srv_send_file ?s = srv_send_file s" "next_addr ?s = next_addr s" "loops ?s = loops s" "chans ?s = chans s" "srv_running ?s = srv_running s"
    by (simp_all add: book_def)
  have "\<not> srv_send_file ?s" using wf by (simp add: sel1 server_wf_def)
  from new_connection_setup_Inr [OF su st this, unfolded sel1 book_simps] obtain cn ch tp' pool w lp l l' where
    c: "c = next_addr s" and cn: "conn_channel cn = c + 1" "\<exists>b. write_buffer cn = Plain b" and ch: "ch_fd ch = f"
      "snd (chan_shape ch) = map (Some \<circ> Client) [ConnRead c, ConnWrite c, ConnClose c, ConnClose c]"
    and l: "loops s lp = Some l" "wakeup_callback l' = wakeup_callback l" and w: "socks w = socks (world s)"
    and s': "s' = set_chan (c + 1) ch (set_world w (set_loop lp l' (set_conn c cn
              (?s\<lparr>tls_parts := tp', loop_threads := pool, next_addr := next_addr s + 2, refs := (refs s)(c := Suc (refs s c))\<rparr>))))"
    by blast
  have fresh: "conns s c = None" "chans s (c + 1) = None" using wf c by (auto simp: server_wf_def)
  then have np: "c \<notin> set (pointers s js)" using cnt unfolding counted_def by blast
  have sel: "conns s' = (conns s)(c \<mapsto> cn)" "chans s' = (chans s)(c + 1 \<mapsto> ch)" "loops s' = (loops s)(lp \<mapsto> l')" "world s' = w"
    "refs s' = (refs s)(c := Suc (refs s c))" "connections s' = connections s" "queue s' = tasks tp" "next_addr s' = next_addr s + 2"
    "srv_send_file s' = srv_send_file s" "srv_running s' = srv_running s"
    by (simp_all add: s' set_conn_def set_chan_def set_loop_def set_world_def book_def queue_def)
  have cf: "conn_fd s' = (conn_fd s)(c \<mapsto> f)"
  proof
    fix x
    show "conn_fd s' x = ((conn_fd s)(c \<mapsto> f)) x"
    proof (cases "x = c \<or> conns s x = None")
      case False
      then obtain cx where cx: "conns s x = Some cx" "x \<noteq> c" by auto
      then have "conn_fd s x \<noteq> None" using so unfolding sockets_owned_def by blast
      then have "conn_channel cx \<noteq> c + 1" using cx fresh by (auto simp: conn_fd_def)
      then show ?thesis using cx by (simp add: conn_fd_def sel)
    qed (auto simp: conn_fd_def sel cn ch)
  qed
  have "conn_fd s c = None" using fresh by (simp add: conn_fd_def)
  then have rn: "ran ((conn_fd s)(c \<mapsto> f)) = insert f (ran (conn_fd s))" by (rule ran_map_upd)
  have f: "f \<notin> base" "f \<notin> ran (conn_fd s)" "f \<notin> set (task_fds (tasks tp))"
    using so by (auto simp: sockets_owned_def q)
  have "conn_fd s x \<noteq> Some f \<and> Some f \<noteq> conn_fd s x" for x using f(2) by (metis ranI)
  then have "sockets_owned socks base s'"
    using so f fresh by (auto simp: sockets_owned_def sel cf rn w q inj_on_def)
  moreover have "server_wf s'"
    using wf cn(2) ch(2) l c by (auto simp: server_wf_def sel all_plain_def less_Suc_eq split: if_splits)
  moreover have "counted s' (Registering f c # js)"
    using cnt np by (auto simp: counted_def pointers_def sel q)
  moreover have "table_ok s' (Registering f c # js)"
    using tb fresh \<open>conn_fd s c = None\<close> by (auto simp: table_ok_def sel cf)
  ultimately show ?thesis by (simp add: owns_def)
qed

lemma insert_connection_owns:
  assumes "owns socks base s js" and "Registering f c \<in> set js"
  shows "owns socks base (insert_connection f c s) js"
proof (cases "f \<in> set (map fst (connections s))")
  case False
  let ?s = "book ((refs s)(c := Suc (refs s c))) (insort_key fst (f, c) (connections s)) (working_threads s) s"
  have o: "server_wf s" "counted s js" "sockets_owned socks base s" "table_ok s js" using assms(1) by (simp_all add: owns_def)
  have ins: "count_list (map snd (insort_key fst (f, c) xs)) x = count_list (map snd xs) x + (if c = x then 1 else 0)" for xs x
    by (induction xs) auto
  have dist: "distinct (map fst (insort_key fst (f, c) xs)) \<longleftrightarrow> f \<notin> fst ` set xs \<and> distinct (map fst xs)" for xs
    by (induction xs) (auto simp: set_insort_key)
  have "c \<in> set (pointers s js)" using assms(2) by (force simp: pointers_def)
  then have "counted ?s js"
    using o(2) by (auto simp: counted_def pointers_def ins queue_def set_insort_key)
  moreover have "table_ok ?s js"
    using o(4) assms(2) False by (auto simp: table_ok_def dist set_insort_key)
  moreover have "sockets_owned socks base ?s" "server_wf ?s"
    using o by (simp_all add: sockets_owned_def queue_def)
  moreover have "insert_connection f c s = ?s"
    using False by (intro server.equality) (simp_all add: insert_connection_def retain_def book_def)
  ultimately show ?thesis by (simp add: owns_def)
qed (simp add: insert_connection_def assms(1))

lemma owns_remove:
  assumes "owns socks base s js" and "j \<in> set js"
  shows "owns socks base s (j # remove1 j js)"
proof -
  have "count_list (map job_conn (j # remove1 j js)) c = count_list (map job_conn js) c" for c
    using assms(2) by (induction js) auto
  moreover have "set (j # remove1 j js) = set js" using assms(2) by (induction js) auto
  then have "set (j # remove1 j js) = set js" "job_conn ` set (j # remove1 j js) = job_conn ` set js" by simp_all
  ultimately show ?thesis
    using assms(1) unfolding owns_def counted_def table_ok_def pointers_def
    by (simp only: count_list_append set_append set_map simp_thms) blast
qed

end
