(* ===== verification/Server_Run.thy ===== *)
theory Server_Run
  imports Server_Ownership Tls_Stream
begin

text \<open>
  A running server as a state machine: its loops poll and handle events, its workers take tasks and run
  them, in any order. The handling of one event is one step; a task that sets up a connection is two
  steps, so that events of the connection can come before it is in the table.
\<close>

section \<open>Steps\<close>

text \<open>
  What is assumed of the user's callbacks: they use connections through \<open>Send\<close> and the like, which leaves
  the server's tables alone.
\<close>

definition app_keeps :: "('w \<Rightarrow> fd set) \<Rightarrow> ('u, 'w, 'e) srv_app \<Rightarrow> bool" where
  "app_keeps socks app \<longleftrightarrow> (\<forall>k c s. all_plain s \<longrightarrow> keeps (same_shape socks s) (app k c s))"

inductive srv_step ::
  "'w posix \<Rightarrow> 'e openssl \<Rightarrow> (bool \<Rightarrow> string \<Rightarrow> string option) \<Rightarrow> byte_order \<Rightarrow> ('u, 'w, 'e) srv_app \<Rightarrow>
     ('u, 'w, 'e) server \<times> job list \<Rightarrow> ('u, 'w, 'e) server \<times> job list \<Rightarrow> bool"
  for os ssl ntop e app where
  poll: "Poll os lp s = Inr (act, s') \<Longrightarrow> srv_step os ssl ntop e app (s, js) (s', js)"
| event: "HandleEvents os (virtual_run os ssl (srv_user os ntop e app)) a s = Some (Inr s') \<Longrightarrow>
    srv_step os ssl ntop e app (s, js) (s', js)"
| set_up: "working_threads s = Some tp \<Longrightarrow> tasks tp = NewConnTask f addr # ts \<Longrightarrow> srv_running s \<Longrightarrow>
    new_connection_setup os ssl f (s\<lparr>working_threads := Some (worker_check i tp)\<rparr>) = Inr (c, s') \<Longrightarrow>
    srv_step os ssl ntop e app (s, js) (s', Registering f c # js)"
| register: "Registering f c \<in> set js \<Longrightarrow> new_connection_register os app f c s = Some (Inr s') \<Longrightarrow>
    srv_step os ssl ntop e app (s, js) (s', remove1 (Registering f c) js)"
| take_read: "working_threads s = Some tp \<Longrightarrow> tasks tp = ReadTask c # ts \<Longrightarrow>
    srv_step os ssl ntop e app (s, js) (s\<lparr>working_threads := Some (worker_check i tp)\<rparr>, Reading c # js)"
| run_read: "Reading c \<in> set js \<Longrightarrow> run_task os ssl app (ReadTask c) s = Some (Inr s') \<Longrightarrow>
    srv_step os ssl ntop e app (s, js) (s', remove1 (Reading c) js)"
| workers: "working_threads s = Some tp \<Longrightarrow> tasks tp' = tasks tp \<Longrightarrow>
    srv_step os ssl ntop e app (s, js) (s\<lparr>working_threads := Some tp'\<rparr>, js)"

inductive_cases srv_stepE: "srv_step os ssl ntop e app (s, js) p"

section \<open>The invariant is kept\<close>

interpretation srv: handler_invariant os ssl socks "srv_user os ntop e app"
  "\<lambda>s. socks_stable os socks \<and> app_keeps socks app \<and> owns socks base s js"
  for os :: "'w posix" and ssl :: "'e openssl" and socks ntop e and app :: "('u, 'w, 'e) srv_app" and base js
proof (unfold_locales, goal_cases)
  case (5 s c cn u)
  then have st: "socks_stable os socks" "app_keeps socks app" "owns socks base s js" by simp_all
  have "keeps (\<lambda>s'. owns socks base s' js) (srv_user os ntop e app u c s)"
  proof (cases u)
    case (SrvUser k)
    have "all_plain s" using st(3) by (simp add: owns_def server_wf_def)
    then have "keeps (same_shape socks s) (app k c s)" using st(2) by (simp add: app_keeps_def)
    then show ?thesis using SrvUser same_shape_owns st(3) by (auto simp: srv_user_def elim!: keeps_mono)
  qed (use OnReadCallback_server_owns [OF st(3) 5(2)] OnCloseConnectionCallback_owns [OF st(1,3)]
        HandleAcceptCallback_owns [OF st(1,3)] in \<open>simp_all add: srv_user_def\<close>)
  then show ?case using st by simp
next
  case (6 s a ch u)
  then have st: "socks_stable os socks" "app_keeps socks app" "owns socks base s js" by simp_all
  have "u = SrvAccept" using 6 unfolding owns_def server_wf_def by blast
  then show ?case using HandleAcceptCallback_owns [OF st(1,3)] st by (simp add: srv_user_def)
qed (auto simp: owns_def server_wf_def dest: same_shape_owns)

lemma worker_check_tasks: "tasks tp = t # ts \<Longrightarrow> tasks (worker_check i tp) = ts"
  by (simp add: worker_check_def)

lemma book_working: "s\<lparr>working_threads := wt\<rparr> = book (refs s) (connections s) wt s"
  by (simp add: book_def)

lemma run_app_owns:
  assumes "socks_stable os socks" and "app_keeps socks app" and "owns socks base s (j # js)"
  shows "keeps (\<lambda>s'. owns socks base s' js) (obind (app k c s) (\<lambda>s'. Some (release os (job_conn j) s')))"
proof -
  have "all_plain s" using assms(3) by (simp add: owns_def server_wf_def)
  then have "keeps (same_shape socks s) (app k c s)" using assms(2) by (simp add: app_keeps_def)
  then show ?thesis
    by (rule keeps_bind) (rule release_owns [OF assms(1) same_shape_owns [OF _ assms(3)]])
qed

lemma register_owns:
  assumes "socks_stable os socks" and "app_keeps socks app" and "owns socks base s (Registering f c # js)"
  shows "keeps (\<lambda>s'. owns socks base s' js) (new_connection_register os app f c s)"
proof -
  have "owns socks base (insert_connection f c s) (Registering f c # js)" by (rule insert_connection_owns [OF assms(3)]) simp
  then show ?thesis
    using run_app_owns [OF assms(1,2), of base "insert_connection f c s" "Registering f c" js] release_owns [OF assms(1)]
    by (fastforce simp: new_connection_register_def split: option.split)
qed

lemma run_read_owns:
  assumes "socks_stable os socks" and "app_keeps socks app" and "owns socks base s (Reading c # js)"
  shows "keeps (\<lambda>s'. owns socks base s' js) (run_task os ssl app (ReadTask c) s)"
  using run_app_owns [OF assms] by (simp add: run_task_def split: option.split)

lemma srv_step_owns:
  assumes "srv_step os ssl ntop e app (s, js) (s', js')"
    and st: "socks_stable os socks" "app_keeps socks app" "owns socks base s js"
  shows "owns socks base s' js'"
  using assms(1)
proof (cases rule: srv_step.cases)
  case (poll lp act)
  then show ?thesis using srv.Poll_I [of os socks app base s js lp act s'] st by simp
next
  case (event a)
  then show ?thesis using keepsD [OF srv.HandleEvents_I [of os socks app base s js ssl ntop e a]] st by simp
next
  case (set_up tp f addr ts i c)
  have "queue s = NewConnTask f addr # tasks (worker_check i tp)" using set_up by (simp add: queue_def worker_check_tasks)
  from setup_owns [OF st(1,3) this] show ?thesis using set_up by (simp add: book_working)
next
  case (register f c)
  from register_owns [OF st(1,2) owns_remove [OF st(3) this(2)]] show ?thesis using register by (simp add: keeps_def)
next
  case (take_read tp c ts i)
  then show ?thesis
    using st(3) by (auto simp: book_working owns_def counted_def sockets_owned_def table_ok_def pointers_def queue_def worker_check_tasks)
next
  case (run_read c)
  from run_read_owns [OF st(1,2) owns_remove [OF st(3) this(2)]] show ?thesis using run_read by (simp add: keeps_def)
next
  case (workers tp tp')
  then show ?thesis
    using st(3) by (auto simp: book_working owns_def counted_def sockets_owned_def table_ok_def pointers_def queue_def)
qed

lemma srv_reachable_owns:
  assumes "(srv_step os ssl ntop e app)\<^sup>*\<^sup>* p q" and "socks_stable os socks" and "app_keeps socks app" and "owns socks base (fst p) (snd p)"
  shows "owns socks base (fst q) (snd q)"
  using assms(1,4)
proof (induction rule: rtranclp_induct)
  case (step q r)
  then show ?case using srv_step_owns [of os ssl ntop e app "fst q" "snd q" "fst r" "snd r", OF _ assms(2,3)] by simp
qed

section \<open>A server that has been started\<close>

text \<open>States that differ from \<open>s0\<close> in the reactor only, with addresses below \<open>b\<close> and no closures but the server's own.\<close>

definition reactor_built :: "addr \<Rightarrow> ('u, 'w, 'e) server \<Rightarrow> ('u, 'w, 'e) server \<Rightarrow> bool" where
  "reactor_built b s0 s \<longleftrightarrow>
     (\<exists>chs ls w. s = s0\<lparr>chans := chs, loops := ls, world := w\<rparr> \<and>
        (\<forall>a ch. chs a = Some ch \<longrightarrow> a < b \<and> (\<forall>u. Some (Client (Other u)) \<in> set (snd (chan_shape ch)) \<longrightarrow> u = SrvAccept)) \<and>
        (\<forall>lp l. ls lp = Some l \<longrightarrow> wakeup_callback l = None))"

lemma reactor_built_sets:
  assumes "reactor_built b s0 s"
  shows "reactor_built b s0 (set_world w s)"
    and "wakeup_callback l = None \<Longrightarrow> reactor_built b s0 (set_loop lp l s)"
    and "a < b \<Longrightarrow> \<forall>u. Some (Client (Other u)) \<in> set (snd (chan_shape ch)) \<longrightarrow> u = SrvAccept \<Longrightarrow> reactor_built b s0 (set_chan a ch s)"
proof -
  obtain chs ls w' where s: "s = s0\<lparr>chans := chs, loops := ls, world := w'\<rparr>"
    and c: "\<forall>a ch. chs a = Some ch \<longrightarrow> a < b \<and> (\<forall>u. Some (Client (Other u)) \<in> set (snd (chan_shape ch)) \<longrightarrow> u = SrvAccept)"
    and l_ok: "\<forall>lp l. ls lp = Some l \<longrightarrow> wakeup_callback l = None"
    using assms by (auto simp: reactor_built_def)
  show "reactor_built b s0 (set_world w s)"
    unfolding reactor_built_def by (rule exI [of _ chs], rule exI [of _ ls], rule exI [of _ w]) (simp add: s set_world_def c l_ok)
  show "reactor_built b s0 (set_loop lp l s)" if "wakeup_callback l = None"
    unfolding reactor_built_def
    by (rule exI [of _ chs], rule exI [of _ "ls(lp \<mapsto> l)"], rule exI [of _ w']) (use that in \<open>simp add: s set_loop_def c l_ok\<close>)
  show "reactor_built b s0 (set_chan a ch s)" if "a < b" "\<forall>u. Some (Client (Other u)) \<in> set (snd (chan_shape ch)) \<longrightarrow> u = SrvAccept"
    unfolding reactor_built_def
    by (rule exI [of _ "chs(a \<mapsto> ch)"], rule exI [of _ ls], rule exI [of _ w']) (use that c l_ok in \<open>simp add: s set_chan_def\<close>)
qed

lemma reactor_built_called:
  assumes "reactor_built b s0 s" and "poller_called os lp s s'"
  shows "reactor_built b s0 s'"
proof -
  obtain l n w where l: "loops s lp = Some l" "s' = set_world w (set_loop lp (l\<lparr>cur_poll_size := n\<rparr>) s)"
    using assms(2) unfolding poller_called_def by blast
  have "wakeup_callback l = None" using assms(1) l(1) by (auto simp: reactor_built_def)
  then show ?thesis unfolding l(2) by (intro reactor_built_sets(1,2) assms(1)) simp
qed

lemma EventLoop_new_built:
  assumes "EventLoop_new os lp a s = Inr s'" and "reactor_built b s0 s" and "a < b"
  shows "reactor_built b s0 s'"
proof -
  obtain rd wr ep w1 s1 l1 where
    s1: "UpdateChannel os lp a EPOLL_CTL_ADD (set_world w1 (set_loop lp \<lparr>poll_fd = ep, cur_poll_size = 0, pipe_fds = (rd, wr), pipe_channel = a,
                       wakeup_callback = None, loop_running = False, pending_tasks = []\<rparr>
           (set_chan a ((Channel_new None rd)\<lparr>read_callback := Some (PipeRead lp)\<rparr>) s))) = Inr s1"
    and l1: "loops s1 lp = Some l1" "s' = set_loop lp (l1\<lparr>cur_poll_size := cur_poll_size l1 + 1\<rparr>) s1"
    using assms(1) by (auto simp: EventLoop_new_def Let_def sbind_Inr get_loop_Inr split: prod.splits sysres.splits)
  have "reactor_built b s0 s1"
    by (rule reactor_built_called [OF _ UpdateChannel_called [OF s1]], intro reactor_built_sets assms)
      (simp_all add: chan_shape_def Channel_new_def)
  moreover from this have "wakeup_callback l1 = None" using l1(1) by (auto simp: reactor_built_def)
  ultimately show ?thesis unfolding l1(2) by (intro reactor_built_sets(2)) simp_all
qed

lemma new_loops_built:
  "new_loops os ps s = Inr s' \<Longrightarrow> reactor_built b s0 s \<Longrightarrow> \<forall>p\<in>set ps. snd p < b \<Longrightarrow> reactor_built b s0 s'"
  by (induction os ps s rule: new_loops.induct) (auto simp: sbind_Inr intro: EventLoop_new_built)

definition fresh_server :: "('u, 'w, 'e) server \<Rightarrow> bool" where
  "fresh_server s \<longleftrightarrow> chans s = Map.empty \<and> loops s = Map.empty \<and> conns s = Map.empty \<and> connections s = [] \<and> refs s = (\<lambda>_. 0) \<and>
     \<not> srv_send_file s \<and> srv_running s"

lemma server_setup_owns:
  assumes "server_setup os s = Inr s'" and "fresh_server s"
  shows "owns socks (socks (world s')) s' []"
proof -
  let ?lp = "next_addr s" and ?a = "next_addr s + 2" and ?n = "next_addr s + 3"
  obtain f w s1 s2 ch pool s3 where
    s1: "EventLoop_new os ?lp (next_addr s + 1) (set_world w s) = Inr s1"
    and s2: "UpdateToLoop os ?a EPOLL_CTL_ADD (set_chan ?a (Channel_new (Some ?lp) f) s1) = Inr s2" "get_chan ?a s2 = Inr ch"
    and s3: "EventLoopThreadPool_new os (loop_thread_num s) (\<lambda>i. (?n + 2 * i, ?n + 2 * i + 1))
                (set_chan ?a (ch\<lparr>read_callback := Some (Client (Other SrvAccept))\<rparr>) s2) = Inr (pool, s3)"
    and s': "s' = s3\<lparr>srv_loop := Some ?lp, srv_channel := Some ?a, srv_acceptor := Some ?a, loop_threads := Some pool,
                 working_threads := Some (ThreadPool_new (working_thread_num s)), next_addr := ?n + 2 * capacity pool\<rparr>"
    using assms(1) by (fastforce simp: server_setup_def Let_def sbind_Inr)
  let ?b = "?n + 2 * capacity pool"
  have "reactor_built ?b s s"
    unfolding reactor_built_def using assms(2) by (intro exI [of _ Map.empty] exI [of _ "world s"]) (simp add: fresh_server_def)
  then have "reactor_built ?b s s1" by (intro EventLoop_new_built [OF s1] reactor_built_sets(1)) simp_all
  then have b1: "reactor_built ?b s (set_chan ?a (Channel_new (Some ?lp) f) s1)"
    by (rule reactor_built_sets(3)) (simp_all add: chan_shape_def Channel_new_def)
  then have b2: "reactor_built ?b s s2" using UpdateToLoop_called [OF s2(1)] reactor_built_called by blast
  then have "\<forall>u. Some (Client (Other u)) \<in> set (snd (chan_shape ch)) \<longrightarrow> u = SrvAccept"
    using s2(2) unfolding get_chan_Inr reactor_built_def by auto
  then have b3: "reactor_built ?b s (set_chan ?a (ch\<lparr>read_callback := Some (Client (Other SrvAccept))\<rparr>) s2)"
    by (intro reactor_built_sets(3) b2) (auto simp: chan_shape_def)
  have "capacity pool = max (loop_thread_num s) 4" by (rule EventLoopThreadPool_new_ok(3) [OF s3])
  moreover have "new_loops os (map (\<lambda>i. (?n + 2 * i, ?n + 2 * i + 1)) [0..<max (loop_thread_num s) 4])
      (set_chan ?a (ch\<lparr>read_callback := Some (Client (Other SrvAccept))\<rparr>) s2) = Inr s3"
    using s3 unfolding EventLoopThreadPool_new_def kMinEventLoopThreadNum_def Let_def sbind_Inr by blast
  ultimately have "reactor_built ?b s s3" by (elim new_loops_built [OF _ b3]) auto
  then obtain chs ls w3 where e: "s3 = s\<lparr>chans := chs, loops := ls, world := w3\<rparr>"
    and c: "\<And>a ch. chs a = Some ch \<Longrightarrow> a < ?b \<and> (\<forall>u. Some (Client (Other u)) \<in> set (snd (chan_shape ch)) \<longrightarrow> u = SrvAccept)"
    and l: "\<And>lp l. ls lp = Some l \<Longrightarrow> wakeup_callback l = None" unfolding reactor_built_def by blast
  have q: "queue s' = []" by (simp add: s' queue_def ThreadPool_new_def)
  have "conn_fd s' = Map.empty" using assms(2) by (simp add: s' e conn_fd_def fresh_server_def fun_eq_iff)
  moreover have "server_wf s'"
    unfolding server_wf_def using assms(2) c l by (auto simp: s' e fresh_server_def all_plain_def)
  moreover have "conns s' = Map.empty" "connections s' = []" "refs s' = (\<lambda>_. 0)"
    using assms(2) by (simp_all add: s' e fresh_server_def)
  ultimately show ?thesis
    by (simp add: owns_def counted_def sockets_owned_def table_ok_def pointers_def q)
qed

section \<open>A sample server\<close>

text \<open>
  A kernel with a table of descriptors, of which \<open>socket\<close>, \<open>pipe\<close>, \<open>epoll_create\<close> and \<open>accept\<close> give the next, a list of
  events to report, one peer that has sent bytes and may have finished, and a bound on the bytes that
  can be written.
\<close>

record srv_kernel =
  open_fds :: "fd list"
  sk_events :: "epoll_event list"
  sk_inbox :: string
  sk_fin :: bool
  sk_room :: nat
  sk_outbox :: string

definition next_fd :: "srv_kernel \<Rightarrow> fd" where
  "next_fd w = fresh_fd (open_fds w)"

definition open_fd :: "srv_kernel \<Rightarrow> srv_kernel" where
  "open_fd w = w\<lparr>open_fds := next_fd w # open_fds w\<rparr>"

definition srv_posix :: "srv_kernel posix" where
  "srv_posix =
     \<lparr>sys_read = (\<lambda>f n w. if sk_inbox w \<noteq> [] then (Ret (take n (sk_inbox w)), w\<lparr>sk_inbox := drop n (sk_inbox w)\<rparr>)
                  else (if sk_fin w then Ret [] else Err EAGAIN, w)),
      sys_write = (\<lambda>f bs w. if sk_room w = 0 then (Err EAGAIN, w)
                  else (Ret (length (take (sk_room w) bs)), w\<lparr>sk_outbox := sk_outbox w @ take (sk_room w) bs, sk_room := sk_room w - length bs\<rparr>)),
      sys_open = (\<lambda>p w. (Err ENOENT, w)), sys_fsize = (\<lambda>f w. 0), sys_sendfile = (\<lambda>f g off n w. (Err EBADF, w)),
      sys_close = (\<lambda>f w. (Ret (), w\<lparr>open_fds := filter (\<lambda>g. g \<noteq> f) (open_fds w)\<rparr>)),
      sys_shutdown_write = (\<lambda>f w. w), sys_shutdown_read = (\<lambda>f w. w),
      sys_pipe = (\<lambda>w. (Ret (next_fd w, next_fd (open_fd w)), open_fd (open_fd w))),
      sys_epoll_create = (\<lambda>w. (Ret (next_fd w), open_fd w)),
      sys_epoll_ctl = (\<lambda>ep op f ev w. (Ret (), w)),
      sys_epoll_wait = (\<lambda>ep n w. (Ret (take n (sk_events w)), w\<lparr>sk_events := drop n (sk_events w)\<rparr>)),
      sys_socket = (\<lambda>tcp v6 w. (Ret (next_fd w), open_fd w)),
      sys_reuseaddr = (\<lambda>f w. (Ret (), w)), sys_bind = (\<lambda>f a w. (Ret (), w)), sys_listen = (\<lambda>f n w. (Ret (), w)),
      sys_accept = (\<lambda>f w. (Ret (next_fd w, \<lparr>sa_ipv6 = False, sa_addr = Some ''abcd'', sa_port = 0\<rparr>), open_fd w))\<rparr>"

lemma next_fd_fresh: "next_fd w \<notin> set (open_fds w)"
  by (simp add: next_fd_def fresh_fd_notin)

lemma srv_posix_stable: "socks_stable srv_posix (\<lambda>w. set (open_fds w))"
  by (auto simp: socks_stable_def srv_posix_def open_fd_def next_fd_fresh)

text \<open>An application that greets every client.\<close>

definition greeter :: "(string, srv_kernel, toy_engine) srv_app" where
  "greeter k c s = virtual_Send srv_posix toy_ssl c k s"

lemma greeter_keeps: "app_keeps (\<lambda>w. set (open_fds w)) greeter"
  unfolding app_keeps_def greeter_def
proof (intro allI impI)
  fix k c and s :: "(string, srv_kernel, toy_engine) server"
  assume "all_plain s"
  then have "keeps (kept (\<lambda>w. set (open_fds w)) s) (virtual_Send srv_posix toy_ssl c k s)"
    by (intro virtual_Send_kept [OF srv_posix_stable]) (simp add: kept_def)
  then show "keeps (same_shape (\<lambda>w. set (open_fds w)) s) (virtual_Send srv_posix toy_ssl c k s)"
    by (rule keeps_mono) (simp add: kept_def)
qed

definition sample_ntop :: "bool \<Rightarrow> string \<Rightarrow> string option" where
  "sample_ntop v6 bytes = Some bytes"

definition sample_srv :: "srv_kernel \<Rightarrow> (string, srv_kernel, toy_engine) server" where
  "sample_srv w =
     (case TcpServer_new True (\<lambda>_. True) (\<lambda>_. True) w
             \<lparr>ip = ''::'', port = 80, sa = \<lparr>sa_ipv6 = False, sa_addr = None, sa_port = 80\<rparr>, ipv6 = False\<rparr> False None 4 2 of
        Inl x \<Rightarrow> undefined
      | Inr s \<Rightarrow> TcpServer_SetConnectionCallback ''hello'' (TcpServer_SetReadCallback ''reply'' s))"

lemma next_fd_open [simp]: "next_fd (open_fd w) = next_fd w + 1"
  by (simp add: next_fd_def open_fd_def fresh_fd_def)

definition add_loop :: "addr \<Rightarrow> addr \<Rightarrow> ('c, srv_kernel, 'z) reactor_scheme \<Rightarrow> ('c, srv_kernel, 'z) reactor_scheme" where
  "add_loop lp a s = set_loop lp \<lparr>poll_fd = next_fd (world s) + 2, cur_poll_size = 2, pipe_fds = (next_fd (world s), next_fd (world s) + 1),
      pipe_channel = a, wakeup_callback = None, loop_running = False, pending_tasks = []\<rparr>
    (set_world (open_fd (open_fd (open_fd (world s)))) (set_chan a ((Channel_new None (next_fd (world s)))\<lparr>read_callback := Some (PipeRead lp)\<rparr>) s))"

lemma EventLoop_new_sample: "EventLoop_new srv_posix lp a s = Inr (add_loop lp a s)"
  by (simp add: EventLoop_new_def srv_posix_def UpdateChannel_def Let_def add_loop_def)
    (simp add: set_loop_def set_chan_def set_world_def add.commute)

lemma new_loops_sample: "new_loops srv_posix ps s = Inr (fold (\<lambda>(lp, a). add_loop lp a) ps s)"
  by (induction ps arbitrary: s) (auto simp: EventLoop_new_sample)

lemma add_loop_sel [simp]:
  "chans (add_loop lp a s) = (chans s)(a \<mapsto> (Channel_new None (next_fd (world s)))\<lparr>read_callback := Some (PipeRead lp)\<rparr>)"
  "world (add_loop lp a s) = open_fd (open_fd (open_fd (world s)))"
  "loops (add_loop lp a s) lp' = (if lp' = lp then Some \<lparr>poll_fd = next_fd (world s) + 2, cur_poll_size = 2, pipe_fds = (next_fd (world s), next_fd (world s) + 1),
      pipe_channel = a, wakeup_callback = None, loop_running = False, pending_tasks = []\<rparr> else loops s lp')"
  by (simp_all add: add_loop_def)

lemma sample_srv_sel [simp]:
  "next_addr (sample_srv r) = 1" "loop_thread_num (sample_srv r) = 4" "working_thread_num (sample_srv r) = 2" "ipv6 (srv_addr (sample_srv r)) = False"
  by (simp_all add: sample_srv_def TcpServer_new_def TcpServer_SetConnectionCallback_def TcpServer_SetReadCallback_def)

lemma os_calls: "socket_socket srv_posix t v w = Inr (next_fd w, open_fd w)" "SocketAddr_Bind srv_posix f a w = Inr w" "socket_listen srv_posix f w = Inr w"
   "sys_epoll_ctl srv_posix ep op f ev w = (Ret (), w)"
  by (simp_all add: socket_socket_def SocketAddr_Bind_def socket_listen_def srv_posix_def)


lemma srv_fields [simp]: 
  "srv_addr (add_loop lp a s) = srv_addr s" "srv_addr (set_world w s) = srv_addr s"  "srv_addr (set_chan a ch s) = srv_addr s" "srv_addr (set_loop lp l s) = srv_addr s"
  "srv_on_connection (add_loop lp a s) = srv_on_connection s" 
  by (simp_all add: add_loop_def set_world_def set_chan_def set_loop_def)

lemma sample_srv_world [simp]: "world (sample_srv w) = w"
  by (simp add: sample_srv_def TcpServer_new_def TcpServer_SetConnectionCallback_def TcpServer_SetReadCallback_def)

lemma server_setup_sample: "\<exists>s l. server_setup srv_posix (sample_srv w) = Inr s \<and> 
   chans s 3 = Some ((Channel_new (Some 1) (next_fd w))\<lparr>read_callback := Some (Client (Other SrvAccept))\<rparr>) \<and>
   loops s 1 = Some l \<and> working_threads s = Some (ThreadPool_new 2) \<and> world s = (open_fd ^^ 16) w \<and> srv_acceptor s = Some 3 \<and>
   ipv6 (srv_addr s) = False"
 by (simp add: server_setup_def os_calls EventLoop_new_sample Let_def UpdateToLoop_def UpdateChannel_def EventLoopThreadPool_new_def new_loops_sample
    kMinEventLoopThreadNum_def upt_rec numeral_eq_Suc  Channel_new_def)

lemma sample_accept:
  assumes "chans s 3 = Some (ch\<lparr>read_callback := Some (Client (Other SrvAccept)), revents := kPollIn\<rparr>)"
    and "srv_acceptor s = Some 3" and "working_threads s = Some tp"
  shows "\<exists>s' addr. HandleEvents srv_posix (virtual_run srv_posix toy_ssl (srv_user srv_posix sample_ntop e greeter)) 3 s = Some (Inr s') \<and>
     queue s' = tasks tp @ [NewConnTask (next_fd (world s)) addr]"
proof -
  have bits: "kPollIn AND kPollHup = 0" "kPollIn AND kPollErr = 0" "kPollIn AND kPollOut = 0" "kPollIn AND (kPollIn OR kPollRdHup) \<noteq> 0"
    by (simp_all add: poll_bits)
  have acc: "socket_accept srv_posix f w = Inr (next_fd w, \<lparr>sa_ipv6 = False, sa_addr = Some ''abcd'', sa_port = 0\<rparr>, open_fd w)" for f w
    by (simp add: socket_accept_def srv_posix_def)
  have sel: "srv_acceptor (set_chan a x s) = srv_acceptor s" for a x by (simp add: set_chan_def)
  show ?thesis
    using assms bits
    by (simp add: HandleEvents_def Let_def call_def virtual_run_def srv_user_def HandleAcceptCallback_def sel acc
        SocketAddr_of_sockaddr_def sample_ntop_def OnNewConnectionCallback_def emplace_task_def queue_def ThreadPool_emplace_def)
qed

section \<open>Property\<close>

text \<open>
  Property C3. While a server runs, every descriptor has one owner. In every state a started server reaches, through
  events and tasks in any order, the counts of pointers are right; a connection exists exactly if the
  table, a queued task or a running task points to it; the open sockets are those that were open
  when the server started, one for each connection, and one for each accepted socket whose task has
  not run, all of them different; and the table has each connection under its own socket. The user's
  callbacks are assumed to leave the server's tables alone, and files are not sent.
\<close>

theorem server_owns_descriptors:
  assumes "socks_stable os socks" and "app_keeps socks app"
    and "TcpServer_new ctx_new use_cert use_key w addr False cert_key loop_num work_num = Inr s00"
    and "server_setup os (s00\<lparr>srv_on_read := on_rd, srv_on_write := on_wr, srv_on_connection := on_conn\<rparr>) = Inr s0"
    and "(srv_step os ssl ntop e app)\<^sup>*\<^sup>* (s0, []) (s, js)"
  shows "(\<forall>c. refs s c = count_list (pointers s js) c) \<and> (\<forall>c. conns s c \<noteq> None \<longleftrightarrow> c \<in> set (pointers s js)) \<and>
     sockets_owned socks (socks (world s0)) s \<and> table_ok s js"
proof -
  have "fresh_server (s00\<lparr>srv_on_read := on_rd, srv_on_write := on_wr, srv_on_connection := on_conn\<rparr>)"
    using assms(3) by (auto simp: TcpServer_new_def Let_def fresh_server_def sbind_Inr split: option.splits)
  from server_setup_owns [OF assms(4) this] have s0: "owns socks (socks (world s0)) s0 []" .
  have "owns socks (socks (world s0)) s js" using srv_reachable_owns [OF assms(5,1,2)] s0 by simp
  then show ?thesis by (simp add: owns_def counted_def)
qed

definition busy_kernel :: srv_kernel where
  "busy_kernel = \<lparr>open_fds = [], sk_events = [(kPollIn, 3)], sk_inbox = [], sk_fin = False, sk_room = 20, sk_outbox = []\<rparr>"

theorem server_owns_descriptors_witness:
  "\<exists>s0 s f addr. server_setup srv_posix (sample_srv busy_kernel) = Inr s0 \<and>
     (srv_step srv_posix toy_ssl sample_ntop Little_Endian greeter)\<^sup>*\<^sup>* (s0, []) (s, []) \<and> queue s = [NewConnTask f addr] \<and>
     sockets_owned (\<lambda>w. set (open_fds w)) (set (open_fds (world s0))) s"
proof -
  obtain s0 l where s0: "server_setup srv_posix (sample_srv busy_kernel) = Inr s0"
    "chans s0 3 = Some ((Channel_new (Some 1) (next_fd busy_kernel))\<lparr>read_callback := Some (Client (Other SrvAccept))\<rparr>)"
    "loops s0 1 = Some l" "working_threads s0 = Some (ThreadPool_new 2)" "world s0 = (open_fd ^^ 16) busy_kernel" "srv_acceptor s0 = Some 3"
    using server_setup_sample [of busy_kernel] by blast
  define s1 where "s1 = set_chan 3 (SetRevents kPollIn (the (chans s0 3))) (set_world ((world s0)\<lparr>sk_events := []\<rparr>) s0)"
  have ev: "sk_events ((open_fd ^^ n) w) = sk_events w" for n w by (induction n) (simp_all add: open_fd_def)
  have "sk_events (world s0) = [(kPollIn, 3)]" unfolding s0(5) ev by (simp add: busy_kernel_def)
  then have "Poll srv_posix 1 s0 = Inr ([3], s1)"
    using s0(2,3) by (simp add: Poll_def srv_posix_def kPollLimit_def s1_def)
  then have p: "srv_step srv_posix toy_ssl sample_ntop Little_Endian greeter (s0, []) (s1, [])" by (rule srv_step.poll)
  have "chans s1 3 = Some ((Channel_new (Some 1) (next_fd busy_kernel))\<lparr>read_callback := Some (Client (Other SrvAccept)), revents := kPollIn\<rparr>)"
    "srv_acceptor s1 = Some 3" "working_threads s1 = Some (ThreadPool_new 2)"
    using s0 by (simp_all add: s1_def SetRevents_def Channel_new_def, simp_all add: set_chan_def set_world_def)
  from sample_accept [OF this, of Little_Endian] obtain s addr where
    s: "HandleEvents srv_posix (virtual_run srv_posix toy_ssl (srv_user srv_posix sample_ntop Little_Endian greeter)) 3 s1 = Some (Inr s)"
      "queue s = [NewConnTask (next_fd (world s1)) addr]" by (auto simp: ThreadPool_new_def)
  have r: "(srv_step srv_posix toy_ssl sample_ntop Little_Endian greeter)\<^sup>*\<^sup>* (s0, []) (s, [])"
    using p srv_step.event [OF s(1)] by (rule converse_rtranclp_into_rtranclp [OF _ r_into_rtranclp])
  obtain s00 :: "(string, srv_kernel, toy_engine) server" where
    n: "TcpServer_new True (\<lambda>_. True) (\<lambda>_. True) busy_kernel
         \<lparr>ip = ''::'', port = 80, sa = \<lparr>sa_ipv6 = False, sa_addr = None, sa_port = 80\<rparr>, ipv6 = False\<rparr> False None 4 2 = Inr s00"
    by (simp add: TcpServer_new_def)
  then have "sample_srv busy_kernel = s00\<lparr>srv_on_read := Some ''reply'', srv_on_write := srv_on_write s00, srv_on_connection := Some ''hello''\<rparr>"
    by (simp add: sample_srv_def TcpServer_SetConnectionCallback_def TcpServer_SetReadCallback_def)
  from server_owns_descriptors [OF srv_posix_stable greeter_keeps n s0(1) [unfolded this] r] s0(1) s(2) r show ?thesis by blast
qed

end
