(* ===== verification/Client_Timer.thy ===== *)
theory Client_Timer
  imports Event_Channel
begin

text \<open>
  \<^verbatim>\<open>ladder_client/src/Timer.cpp\<close> as it is built on Linux, and the calls of \<^verbatim>\<open>Socket.cpp\<close> that only clients make. A
  timer is a \<open>timerfd\<close> with a channel.
\<close>

section \<open>Calls of the kernel\<close>

text \<open>A \<open>struct itimerspec\<close>: the time to the first expiration and the period, in seconds and nanoseconds.\<close>

record itimerspec =
  value_sec :: u64
  value_nsec :: u64
  interval_sec :: u64
  interval_nsec :: u64

record 'w client_calls =
  sys_connect :: "fd \<Rightarrow> sockaddr \<Rightarrow> 'w \<Rightarrow> unit sysres \<times> 'w"
  sys_so_error :: "fd \<Rightarrow> 'w \<Rightarrow> int sysres \<times> 'w"
  sys_getsockname :: "fd \<Rightarrow> 'w \<Rightarrow> sockaddr sysres \<times> 'w"
  sys_getpeername :: "fd \<Rightarrow> 'w \<Rightarrow> sockaddr sysres \<times> 'w"
  sys_timerfd_create :: "'w \<Rightarrow> fd sysres \<times> 'w"
  sys_timerfd_settime :: "fd \<Rightarrow> itimerspec \<Rightarrow> 'w \<Rightarrow> unit sysres \<times> 'w"

definition socket_connect :: "'w client_calls \<Rightarrow> fd \<Rightarrow> sockaddr \<Rightarrow> 'w \<Rightarrow> unit sysres \<times> 'w" where
  "socket_connect cs f a w = sys_connect cs f a w"

definition socket_getsockname :: "'w client_calls \<Rightarrow> fd \<Rightarrow> 'w \<Rightarrow> (sockaddr \<times> 'w) res" where
  "socket_getsockname cs f w =
     (case sys_getsockname cs f w of (Ret a, w') \<Rightarrow> Inr (a, w') | (Err _, w') \<Rightarrow> Inl (EXIT ''getsockname''))"

definition socket_getpeername :: "'w client_calls \<Rightarrow> fd \<Rightarrow> 'w \<Rightarrow> (sockaddr \<times> 'w) res" where
  "socket_getpeername cs f w =
     (case sys_getpeername cs f w of (Ret a, w') \<Rightarrow> Inr (a, w') | (Err _, w') \<Rightarrow> Inl (EXIT ''getpeername''))"

text \<open>\<open>getsockerropt\<close> ignores the result of \<open>getsockopt\<close>; when it fails the variable was never set.\<close>

definition socket_getsockerropt :: "'w client_calls \<Rightarrow> fd \<Rightarrow> 'w \<Rightarrow> (int \<times> 'w) res" where
  "socket_getsockerropt cs f w =
     (case sys_so_error cs f w of (Ret err, w') \<Rightarrow> Inr (err, w') | (Err _, w') \<Rightarrow> Inl (UB ''indeterminate err''))"

section \<open>Timers\<close>

record 'c timer =
  timer_loop :: addr
  timer_fd :: fd
  timer_channel :: addr
  timer_callback :: "'c option"
  timer_interval :: u64

text \<open>The constructor, for a channel at the address \<open>a\<close> that calls \<open>k\<close>, the member function \<open>OnTimer\<close>.\<close>

definition Timer_new ::
  "'w posix \<Rightarrow> 'w client_calls \<Rightarrow> addr \<Rightarrow> addr \<Rightarrow> 'c \<Rightarrow> ('c, 'w, 'z) reactor_scheme \<Rightarrow> ('d timer \<times> ('c, 'w, 'z) reactor_scheme) res" where
  "Timer_new os cs lp a k s =
     (case sys_timerfd_create cs (world s) of
        (Err _, w) \<Rightarrow> Inl (EXIT ''[Timer] timerfd_create'')
      | (Ret f, w) \<Rightarrow>
         sbind (UpdateToLoop os a EPOLL_CTL_ADD (set_chan a (Channel_new (Some lp) f) (set_world w s))) (\<lambda>s1.
         sbind (get_chan a s1) (\<lambda>ch.
           Inr (\<lparr>timer_loop = lp, timer_fd = f, timer_channel = a, timer_callback = None, timer_interval = 0\<rparr>,
                set_chan a (ch\<lparr>read_callback := Some (Client k)\<rparr>) s1))))"

definition Timer_destroy :: "'w posix \<Rightarrow> 'd timer \<Rightarrow> ('c, 'w, 'z) reactor_scheme \<Rightarrow> ('c, 'w, 'z) reactor_scheme res" where
  "Timer_destroy os t s =
     sbind (socket_close os (timer_fd t) (world s)) (\<lambda>w. Inr (set_world w (s\<lparr>chans := (chans s)(timer_channel t := None)\<rparr>)))"

definition SetTimmerEventCallback :: "'d \<Rightarrow> 'd timer \<Rightarrow> 'd timer" where
  "SetTimmerEventCallback k t = t\<lparr>timer_callback := Some k\<rparr>"

definition GetInterval :: "'d timer \<Rightarrow> u64" where
  "GetInterval t = timer_interval t"

text \<open>\<open>SetInterval\<close> takes microseconds.\<close>

definition interval_spec :: "u64 \<Rightarrow> bool \<Rightarrow> itimerspec" where
  "interval_spec microseconds periodic =
     (let seconds = microseconds div 1000000; nanoseconds = (microseconds mod 1000000) * 1000 in
      \<lparr>value_sec = seconds, value_nsec = nanoseconds,
       interval_sec = if periodic then seconds else 0, interval_nsec = if periodic then nanoseconds else 0\<rparr>)"

definition SetInterval :: "'w client_calls \<Rightarrow> u64 \<Rightarrow> bool \<Rightarrow> 'd timer \<Rightarrow> 'w \<Rightarrow> ('d timer \<times> 'w) res" where
  "SetInterval cs interval periodic t w =
     (case sys_timerfd_settime cs (timer_fd t) (interval_spec interval periodic) w of
        (Err _, w') \<Rightarrow> Inl (EXIT ''[Timer] timerfd_settime'')
      | (Ret _, w') \<Rightarrow> Inr (t\<lparr>timer_interval := interval\<rparr>, w'))"

text \<open>\<open>OnTimer\<close> reads the number of expirations; what the callback does is the argument \<open>run\<close>.\<close>

definition OnTimer ::
  "'w posix \<Rightarrow> ('d \<Rightarrow> ('c, 'w, 'z) reactor_scheme \<Rightarrow> ('c, 'w, 'z) reactor_scheme res option) \<Rightarrow> 'd timer \<Rightarrow>
     ('c, 'w, 'z) reactor_scheme \<Rightarrow> ('c, 'w, 'z) reactor_scheme res option" where
  "OnTimer os run t s =
     (case sys_read os (timer_fd t) 8 (world s) of
        (Err _, w) \<Rightarrow> Some (Inl (EXIT ''[Timer] read''))
      | (Ret _, w) \<Rightarrow>
         (case timer_callback t of None \<Rightarrow> Some (Inr (set_world w s)) | Some k \<Rightarrow> run k (set_world w s)))"

lemma interval_spec_time:
  "unat (value_sec (interval_spec us periodic)) * 1000000000 + unat (value_nsec (interval_spec us periodic)) = unat us * 1000 \<and>
   unat (value_nsec (interval_spec us periodic)) < 1000000000"
proof -
  let ?v = "interval_spec us periodic"
  have s: "unat (value_sec ?v) = unat us div 1000000"
    by (simp add: interval_spec_def Let_def unat_div)
  have "unat (us mod 1000000) < 1000000" by (simp add: unat_mod)
  then have "unat ((us mod 1000000) * 1000) = unat (us mod 1000000) * 1000"
    by (simp add: unat_mult_lem [THEN iffD1])
  then have n: "unat (value_nsec ?v) = unat us mod 1000000 * 1000"
    by (simp add: interval_spec_def Let_def unat_mod)
  show ?thesis
    unfolding s n using div_mult_mod_eq [of "unat us" 1000000] mod_less_divisor [of 1000000 "unat us"] by linarith
qed

lemma interval_spec_zero: "value_sec (interval_spec us periodic) = 0 \<and> value_nsec (interval_spec us periodic) = 0 \<longleftrightarrow> us = 0"
  using interval_spec_time [of us periodic] by (metis add_eq_0_iff_both_eq_0 mult_is_0 unat_eq_zero zero_neq_numeral)

section \<open>Property\<close>

text \<open>
  \<open>SetInterval\<close> hands the kernel exactly the interval it is given, for every interval of 64 bits: the
  seconds and nanoseconds are those of the number of microseconds, the nanoseconds are below one
  billion as \<open>timerfd_settime\<close> demands, the period is the same or zero, and the interval can be read
  back. The timer is disarmed exactly if the interval is zero.
\<close>

theorem SetInterval_exact:
  assumes "sys_timerfd_settime cs (timer_fd t) (interval_spec us periodic) w = (Ret (), w')"
  shows "\<exists>t'. SetInterval cs us periodic t w = Inr (t', w') \<and> GetInterval t' = us \<and> timer_fd t' = timer_fd t \<and>
     (let v = interval_spec us periodic in
      unat (value_sec v) * 1000000000 + unat (value_nsec v) = unat us * 1000 \<and> unat (value_nsec v) < 1000000000 \<and>
      (value_sec v = 0 \<and> value_nsec v = 0 \<longleftrightarrow> us = 0) \<and>
      (if periodic then interval_sec v = value_sec v \<and> interval_nsec v = value_nsec v else interval_sec v = 0 \<and> interval_nsec v = 0))"
proof -
  let ?v = "interval_spec us periodic"
  have p: "if periodic then interval_sec ?v = value_sec ?v \<and> interval_nsec ?v = value_nsec ?v else interval_sec ?v = 0 \<and> interval_nsec ?v = 0"
    by (simp add: interval_spec_def Let_def)
  have "SetInterval cs us periodic t w = Inr (t\<lparr>timer_interval := us\<rparr>, w')" using assms by (simp add: SetInterval_def)
  then show ?thesis
    unfolding Let_def using interval_spec_time [of us periodic] interval_spec_zero [of us periodic] p
    by (intro exI conjI) (assumption, simp add: GetInterval_def, simp, simp_all)
qed

text \<open>Calls of a kernel that records the last setting of each timer and refuses every connection.\<close>

record timer_kernel =
  settings :: "(fd \<times> itimerspec) list"

definition sample_calls :: "timer_kernel client_calls" where
  "sample_calls =
     \<lparr>sys_connect = (\<lambda>f a w. (Err ECONNREFUSED, w)), sys_so_error = (\<lambda>f w. (Ret 111, w)),
      sys_getsockname = (\<lambda>f w. (Err ENOTCONN, w)), sys_getpeername = (\<lambda>f w. (Err ENOTCONN, w)),
      sys_timerfd_create = (\<lambda>w. (Ret 30, w)),
      sys_timerfd_settime = (\<lambda>f v w. (Ret (), w\<lparr>settings := (f, v) # settings w\<rparr>))\<rparr>"

theorem SetInterval_exact_witness:
  "\<exists>t' w'. SetInterval sample_calls 1500000 True \<lparr>timer_loop = 1, timer_fd = 30, timer_channel = 5, timer_callback = None, timer_interval = 0\<rparr>
       \<lparr>settings = []\<rparr> = Inr (t' :: nat timer, w') \<and> GetInterval t' = 1500000 \<and>
     settings w' = [(30, \<lparr>value_sec = 1, value_nsec = 500000000, interval_sec = 1, interval_nsec = 500000000\<rparr>)]"
proof -
  have "sys_timerfd_settime sample_calls 30 (interval_spec 1500000 True) \<lparr>settings = []\<rparr> =
      (Ret (), \<lparr>settings = [(30, interval_spec 1500000 True)]\<rparr>)"
    by (simp add: sample_calls_def)
  moreover have "interval_spec 1500000 True = \<lparr>value_sec = 1, value_nsec = 500000000, interval_sec = 1, interval_nsec = 500000000\<rparr>"
    by (simp add: interval_spec_def Let_def)
  ultimately show ?thesis
    using SetInterval_exact [of sample_calls "\<lparr>timer_loop = 1, timer_fd = 30, timer_channel = 5, timer_callback = None, timer_interval = 0\<rparr> :: nat timer"
        1500000 True "\<lparr>settings = []\<rparr>"] by auto
qed

end
