(* ===== verification/Tcp_Client.thy ===== *)
theory Tcp_Client
  imports Client_Timer Tls_Connection
begin

text \<open>
  \<^verbatim>\<open>ladder_client/src/Connector.cpp\<close> and \<^verbatim>\<open>ladder_client/src/TcpClient.cpp\<close> as they are built on Linux. A client makes a
  connection and a connector, which share the connection's channel: while it is connecting, the
  channel's callbacks are the connector's, and a timer starts the next attempt after a failure.

  The client's part is added to the state of the network. The closures are the member functions of the
  connector and the client, and the callbacks of the user. The connection is held by the client, the channel
  by the connection and the connector, so it lives on when the connection is dropped after the last
  failure. New objects are placed at the address \<open>cl_next\<close>.
\<close>

section \<open>State\<close>

datatype 'k cli_cb =
    ConnectorStart | ConnectorHandle | ConnectorRetry | TimerFired | ClientClosed fd | ClientUser 'k

datatype TcpConnectionStatus = kDisconnected | kConnecting | kConnected | kDisConnecting

definition kMinRetryInitialTimeout :: u16 where
  "kMinRetryInitialTimeout = 5"

text \<open>The callbacks of a connector are set or not; they are the client's member functions.\<close>

record 'k connector =
  cr_channel :: addr
  retry :: int
  max_retry :: int
  retry_timeout :: u16
  cr_timer :: "'k cli_cb timer"
  on_connected :: bool
  on_failure :: bool
  cr_addr :: SocketAddr

record ('k, 'w, 'e) client = "('k cli_cb, 'w, 'e) tls_net" +
  cl_max_retry :: int
  cl_status :: TcpConnectionStatus
  target_addr :: SocketAddr
  cl_conn :: "addr option"
  cl_connector :: "'k connector option"
  cl_loop :: addr
  retry_initial_timeout :: u16
  cl_on_read :: "'k option"
  cl_on_write :: "'k option"
  cl_on_connection :: "'k option"
  cl_ssl_ctx :: bool
  cl_next :: addr

definition TcpClient_new :: "bool \<Rightarrow> SocketAddr \<Rightarrow> addr \<Rightarrow> u16 \<Rightarrow> bool \<Rightarrow> int \<Rightarrow> addr \<Rightarrow> ('k cli_cb, 'w, 'e) tls_net \<Rightarrow> ('k, 'w, 'e) client res" where
  "TcpClient_new ctx_new target lp timeout use_ssl retries next s =
     (let cl = \<lparr>chans = chans s, loops = loops s, world = world s, conns = conns s, tls_parts = tls_parts s,
                cl_max_retry = retries, cl_status = kDisconnected, target_addr = target, cl_conn = None, cl_connector = None,
                cl_loop = lp, retry_initial_timeout = timeout, cl_on_read = None, cl_on_write = None, cl_on_connection = None,
                cl_ssl_ctx = use_ssl, cl_next = next\<rparr> in
      if use_ssl \<and> \<not> ctx_new then Inl (EXIT ''SSL_CTX_new'') else Inr cl)"

definition TcpClient_SetReadCallback :: "'k \<Rightarrow> ('k, 'w, 'e) client \<Rightarrow> ('k, 'w, 'e) client" where
  "TcpClient_SetReadCallback k s = s\<lparr>cl_on_read := Some k\<rparr>"

definition TcpClient_SetWriteCallback :: "'k \<Rightarrow> ('k, 'w, 'e) client \<Rightarrow> ('k, 'w, 'e) client" where
  "TcpClient_SetWriteCallback k s = s\<lparr>cl_on_write := Some k\<rparr>"

definition TcpClient_SetConnectionCallback :: "'k \<Rightarrow> ('k, 'w, 'e) client \<Rightarrow> ('k, 'w, 'e) client" where
  "TcpClient_SetConnectionCallback k s = s\<lparr>cl_on_connection := Some k\<rparr>"

section \<open>The connector\<close>

definition get_connector :: "('k, 'w, 'e) client \<Rightarrow> 'k connector res" where
  "get_connector s = (case cl_connector s of None \<Rightarrow> Inl (UB ''destroyed connector'') | Some cr \<Rightarrow> Inr cr)"

definition Connector_new ::
  "'w posix \<Rightarrow> 'w client_calls \<Rightarrow> addr \<Rightarrow> int \<Rightarrow> SocketAddr \<Rightarrow> u16 \<Rightarrow> addr \<Rightarrow> ('k, 'w, 'e) client \<Rightarrow> ('k connector \<times> ('k, 'w, 'e) client) res" where
  "Connector_new os cs ch retries addr timeout a s =
     sbind (get_chan ch s) (\<lambda>channel.
       case ch_loop channel of
         None \<Rightarrow> Inl (UB ''null loop'')
       | Some lp \<Rightarrow>
          sbind (Timer_new os cs lp a (Other TimerFired) s) (\<lambda>(t, s1).
            Inr (\<lparr>cr_channel = ch, retry = 0, max_retry = retries, retry_timeout = max timeout kMinRetryInitialTimeout,
                  cr_timer = SetTimmerEventCallback ConnectorStart t, on_connected = False, on_failure = False, cr_addr = addr\<rparr>, s1)))"

definition Connector_SetConnectionCallback :: "'k connector \<Rightarrow> 'k connector" where
  "Connector_SetConnectionCallback cr = cr\<lparr>on_connected := True\<rparr>"

definition Connector_SetConnectionFailureCallback :: "'k connector \<Rightarrow> 'k connector" where
  "Connector_SetConnectionFailureCallback cr = cr\<lparr>on_failure := True\<rparr>"

text \<open>
  After the last failure the client drops its connection, whose destructor closes the socket; the
  channel is still the connector's.
\<close>

definition drop_connection :: "'w posix \<Rightarrow> addr \<Rightarrow> ('k, 'w, 'e) client \<Rightarrow> ('k, 'w, 'e) client res" where
  "drop_connection os c s =
     sbind (get_conn c s) (\<lambda>cn.
     sbind (get_chan (conn_channel cn) s) (\<lambda>ch.
     sbind (socket_close os (ch_fd ch) (world s)) (\<lambda>w.
       Inr (set_world w (s\<lparr>conns := (conns s)(c := None), tls_parts := (tls_parts s)(c := None), cl_conn := None\<rparr>)))))"

definition OnConnectionFailureCallback :: "'w posix \<Rightarrow> ('k, 'w, 'e) client \<Rightarrow> ('k, 'w, 'e) client res" where
  "OnConnectionFailureCallback os s =
     (case cl_conn s of
        None \<Rightarrow> Inl (UB ''null connection'')
      | Some c \<Rightarrow> sbind (drop_connection os c s) (\<lambda>s1. Inr (s1\<lparr>cl_status := kDisconnected\<rparr>)))"

text \<open>\<open>retry_timeout_\<close> is a \<open>uint16_t\<close>, so that \<open><<=\<close> drops the bit that is shifted out.\<close>

definition Retry :: "'w posix \<Rightarrow> 'w client_calls \<Rightarrow> ('k, 'w, 'e) client \<Rightarrow> ('k, 'w, 'e) client res" where
  "Retry os cs s =
     sbind (get_connector s) (\<lambda>cr.
       if 2 ^ 31 \<le> retry cr + 1 then Inl (UB ''int overflow'')
       else if retry cr + 1 \<le> max_retry cr
       then
         sbind (SetInterval cs (word_of_int (uint (retry_timeout cr) * 1000)) False (cr_timer cr) (world s)) (\<lambda>(t, w).
           Inr (set_world w (s\<lparr>cl_connector :=
             Some (cr\<lparr>retry := retry cr + 1, cr_timer := t, retry_timeout := push_bit 1 (retry_timeout cr)\<rparr>)\<rparr>)))
       else
         let s1 = s\<lparr>cl_connector := Some (cr\<lparr>retry := retry cr + 1\<rparr>)\<rparr> in
         if on_failure cr then OnConnectionFailureCallback os s1 else Inr s1)"

definition set_connector_callbacks :: "addr \<Rightarrow> ('k, 'w, 'e) client \<Rightarrow> ('k, 'w, 'e) client res" where
  "set_connector_callbacks a s =
     sbind (get_chan a s) (\<lambda>ch.
       Inr (set_chan a (ch\<lparr>write_callback := Some (Client (Other ConnectorHandle)), error_callback := Some (Client (Other ConnectorRetry)),
                           close_callback := Some (Client (Other ConnectorRetry)), read_callback := None\<rparr>) s))"

text \<open>Every error of \<open>connect\<close> but three leads to another attempt.\<close>

definition Connector_Start :: "'w posix \<Rightarrow> 'w client_calls \<Rightarrow> ('k, 'w, 'e) client \<Rightarrow> ('k, 'w, 'e) client res" where
  "Connector_Start os cs s =
     sbind (get_connector s) (\<lambda>cr.
     sbind (set_connector_callbacks (cr_channel cr) s) (\<lambda>s1.
     sbind (Channel_EnableWrite os (cr_channel cr) True s1) (\<lambda>s2.
     sbind (get_chan (cr_channel cr) s2) (\<lambda>ch.
       case socket_connect cs (ch_fd ch) (sa (cr_addr cr)) (world s2) of
         (Ret _, w) \<Rightarrow> Inr (set_world w s2)
       | (Err e, w) \<Rightarrow>
          (if e = EINPROGRESS \<or> e = EINTR \<or> e = EISCONN then Inr (set_world w s2) else Retry os cs (set_world w s2))))))"

section \<open>The client\<close>

type_synonym ('k, 'w, 'e) cli_app = "'k \<Rightarrow> addr \<Rightarrow> ('k, 'w, 'e) client \<Rightarrow> ('k, 'w, 'e) client res option"

definition OnConnectionCallback :: "('k, 'w, 'e) cli_app \<Rightarrow> ('k, 'w, 'e) client \<Rightarrow> ('k, 'w, 'e) client res option" where
  "OnConnectionCallback app s =
     (case cl_conn s of
        None \<Rightarrow> Some (Inl (UB ''null connection''))
      | Some c \<Rightarrow>
         obind (Some (SetChannelCallbacks c (s\<lparr>cl_status := kConnected\<rparr>))) (\<lambda>s1.
           case cl_on_connection s1 of None \<Rightarrow> Some (Inr s1) | Some k \<Rightarrow> app k c s1))"

definition HandleConnect ::
  "'w posix \<Rightarrow> 'w client_calls \<Rightarrow> (bool \<Rightarrow> string \<Rightarrow> string option) \<Rightarrow> byte_order \<Rightarrow> ('k, 'w, 'e) cli_app \<Rightarrow>
     ('k, 'w, 'e) client \<Rightarrow> ('k, 'w, 'e) client res option" where
  "HandleConnect os cs ntop e app s =
     obind (Some (get_connector s)) (\<lambda>cr.
     obind (Some (get_chan (cr_channel cr) s)) (\<lambda>ch.
     obind (Some (socket_getsockerropt cs (ch_fd ch) (world s))) (\<lambda>(err, w).
       if err \<noteq> 0 then Some (Retry os cs (set_world w s))
       else
         obind (Some (socket_getsockname cs (ch_fd ch) w)) (\<lambda>(a, w1).
         obind (Some (SocketAddr_of_sockaddr ntop e a (ipv6 (cr_addr cr)))) (\<lambda>addr.
           if on_connected cr then OnConnectionCallback app (set_world w1 s) else Some (Inr (set_world w1 s)))))))"

text \<open>
  The closures of the client and its connector. \<open>OnCloseConnectionCallback\<close> only writes a log line.
\<close>

definition cli_user ::
  "'w posix \<Rightarrow> 'w client_calls \<Rightarrow> (bool \<Rightarrow> string \<Rightarrow> string option) \<Rightarrow> byte_order \<Rightarrow> ('k, 'w, 'e) cli_app \<Rightarrow> 'k cli_cb \<Rightarrow> addr \<Rightarrow>
     ('k, 'w, 'e) client \<Rightarrow> ('k, 'w, 'e) client res option" where
  "cli_user os cs ntop e app u c s =
     (case u of
        ConnectorStart \<Rightarrow> Some (Connector_Start os cs s)
      | ConnectorHandle \<Rightarrow> HandleConnect os cs ntop e app s
      | ConnectorRetry \<Rightarrow> Some (Retry os cs s)
      | TimerFired \<Rightarrow>
         obind (Some (get_connector s)) (\<lambda>cr.
           OnTimer os (\<lambda>k s'. if k = ConnectorStart then Some (Connector_Start os cs s') else Some (Inr s')) (cr_timer cr) s)
      | ClientClosed f \<Rightarrow> Some (Inr s)
      | ClientUser k \<Rightarrow> app k c s)"

text \<open>
  \<open>Connect\<close> makes the new connection and the new connector before the old ones are dropped; the old
  connector's timer and channel go with it.
\<close>

definition replace_connection :: "'w posix \<Rightarrow> addr \<Rightarrow> ('k, 'w, 'e) client \<Rightarrow> ('k, 'w, 'e) client res" where
  "replace_connection os c s =
     sbind (case cl_conn s of None \<Rightarrow> Inr s | Some old \<Rightarrow> drop_connection os old s) (\<lambda>s1. Inr (s1\<lparr>cl_conn := Some c\<rparr>))"

definition replace_connector :: "'w posix \<Rightarrow> 'k connector \<Rightarrow> ('k, 'w, 'e) client \<Rightarrow> ('k, 'w, 'e) client res" where
  "replace_connector os cr s =
     (case cl_connector s of
        None \<Rightarrow> Inr (s\<lparr>cl_connector := Some cr\<rparr>)
      | Some old \<Rightarrow>
         sbind (Timer_destroy os (cr_timer old) s) (\<lambda>s1.
           Inr (s1\<lparr>chans := (chans s1)(cr_channel old := None), cl_connector := Some cr\<rparr>)))"

definition TcpClient_Connect ::
  "'w posix \<Rightarrow> 'w client_calls \<Rightarrow> 'e openssl \<Rightarrow> ('k, 'w, 'e) client \<Rightarrow> ('k, 'w, 'e) client res" where
  "TcpClient_Connect os cs ssl s =
     (if cl_status s \<noteq> kDisconnected then Inr s
      else
        sbind (socket_socket os True (ipv6 (target_addr s)) (world s)) (\<lambda>(f, w).
          let c = cl_next s; a = cl_next s + 1;
              s0 = set_world w (s\<lparr>cl_status := kConnecting, cl_next := cl_next s + 3\<rparr>);
              s1 = (if cl_ssl_ctx s then TlsConnection_new ssl (cl_loop s) f False c a s0 else Connection_new (cl_loop s) f False c a s0) in
          sbind (replace_connection os c s1) (\<lambda>s2.
          sbind (Connection_SetReadCallback c (map_option ClientUser (cl_on_read s)) s2) (\<lambda>s3.
          sbind (Connection_SetCloseCallback c (Some (ClientClosed f)) s3) (\<lambda>s4.
          sbind (Connector_new os cs a (cl_max_retry s) (target_addr s) (retry_initial_timeout s) (cl_next s + 2) s4) (\<lambda>(cr, s5).
          sbind (replace_connector os (Connector_SetConnectionFailureCallback (Connector_SetConnectionCallback cr)) s5) (\<lambda>s6.
          sbind (virtual_Init os c s6) (\<lambda>s7.
            Connector_Start os cs s7))))))))"

definition TcpClient_Disconnect :: "'w posix \<Rightarrow> ('k, 'w, 'e) client \<Rightarrow> ('k, 'w, 'e) client res" where
  "TcpClient_Disconnect os s =
     (if cl_status s \<noteq> kConnected then Inr s
      else
        case cl_conn s of
          None \<Rightarrow> Inl (UB ''null connection'')
        | Some c \<Rightarrow>
           sbind (get_conn c s) (\<lambda>cn. Channel_ShutDownWrite os (conn_channel cn) (s\<lparr>cl_status := kConnecting\<rparr>)))"

text \<open>
  The destructor; the members are destroyed in the reverse order of their declarations. The channel goes with
  the last of its two owners, the connection or, when that was dropped, the connector.
\<close>

definition TcpClient_destroy :: "'w posix \<Rightarrow> ('k, 'w, 'e) client \<Rightarrow> ('k, 'w, 'e) client res" where
  "TcpClient_destroy os s =
     sbind (TcpClient_Disconnect os s) (\<lambda>s1.
     sbind (case cl_connector s1 of
              None \<Rightarrow> Inr s1
            | Some cr \<Rightarrow>
               sbind (Timer_destroy os (cr_timer cr) s1) (\<lambda>s2.
                 Inr (s2\<lparr>chans := (if cl_conn s2 = None then (chans s2)(cr_channel cr := None) else chans s2), cl_connector := None\<rparr>))) (\<lambda>s3.
       case cl_conn s3 of
         None \<Rightarrow> Inr (s3\<lparr>cl_ssl_ctx := False\<rparr>)
       | Some c \<Rightarrow> sbind (virtual_destroy os c s3) (\<lambda>s4. Inr (s4\<lparr>cl_conn := None, cl_ssl_ctx := False\<rparr>))))"

section \<open>A peer that refuses every connection\<close>

text \<open>
  A kernel whose calls succeed, except that every attempt to connect fails. \<open>armed\<close> reads the setting of each timer off
  its state and \<open>pend\<close> the events that the poller is going to report for a socket. An attempt is refused at once,
  with an error of \<open>connect\<close>, or it is in progress, as for a non-blocking socket it is as a rule, and then the poller reports
  its failure: a hang-up, an error, or that the socket is writable while the pending error of the socket is set.
  The failure of one attempt is reported once.
\<close>

definition refused_evts :: "u32 \<Rightarrow> bool" where
  "refused_evts evts \<longleftrightarrow> evts AND kPollHup \<noteq> 0 \<or> evts AND kPollErr \<noteq> 0 \<or> evts AND kPollOut \<noteq> 0"

definition refusing ::
  "'w posix \<Rightarrow> 'w client_calls \<Rightarrow> ('w \<Rightarrow> fd \<Rightarrow> itimerspec option) \<Rightarrow> ('w \<Rightarrow> fd \<Rightarrow> u32 option) \<Rightarrow> bool" where
  "refusing os cs armed pend \<longleftrightarrow>
     (\<forall>f a w. \<exists>e w'. sys_connect cs f a w = (Err e, w') \<and> e \<noteq> EISCONN \<and>
        (if e = EINPROGRESS \<or> e = EINTR then \<exists>evts. pend w' f = Some evts \<and> refused_evts evts else pend w' f = None)) \<and>
     (\<forall>f w. pend w f \<noteq> None \<longrightarrow> (\<exists>k w'. sys_so_error cs f w = (Ret k, w') \<and> k \<noteq> 0)) \<and>
     (\<forall>ep op f ev w. \<exists>w'. sys_epoll_ctl os ep op f ev w = (Ret (), w') \<and> armed w' = armed w) \<and>
     (\<forall>f v w. \<exists>w'. sys_timerfd_settime cs f v w = (Ret (), w') \<and> armed w' = (armed w)(f \<mapsto> v) \<and> (\<forall>g. pend w g = None \<longrightarrow> pend w' g = None)) \<and>
     (\<forall>f n w. \<exists>bs w'. sys_read os f n w = (Ret bs, w')) \<and>
     (\<forall>f w. \<exists>w'. sys_close os f w = (Ret (), w') \<and> (\<forall>g. pend w g = None \<longrightarrow> pend w' g = None)) \<and>
     (\<forall>t v w. \<exists>f w'. sys_socket os t v w = (Ret f, w')) \<and>
     (\<forall>f w. \<exists>w'. sys_reuseaddr os f w = (Ret (), w')) \<and> (\<forall>w. \<exists>f w'. sys_timerfd_create cs w = (Ret f, w'))"

text \<open>A client that waits for its timer after \<open>n\<close> failed attempts.\<close>

definition connecting :: "int \<Rightarrow> u16 \<Rightarrow> nat \<Rightarrow> ('k, 'w, 'e) client \<Rightarrow> bool" where
  "connecting m t n s \<longleftrightarrow>
     cl_status s = kConnecting \<and>
     (\<exists>cr c cn ch lp l. cl_connector s = Some cr \<and> retry cr = int n \<and> max_retry cr = m \<and> retry_timeout cr = push_bit n t \<and> on_failure cr \<and>
        timer_callback (cr_timer cr) = Some ConnectorStart \<and> cl_conn s = Some c \<and> conns s c = Some cn \<and> conn_channel cn = cr_channel cr \<and>
        chans s (cr_channel cr) = Some ch \<and> ch_loop ch = Some lp \<and> loops s lp = Some l)"

definition armed_for :: "('w \<Rightarrow> fd \<Rightarrow> itimerspec option) \<Rightarrow> u64 \<Rightarrow> ('k, 'w, 'e) client \<Rightarrow> bool" where
  "armed_for armed us s \<longleftrightarrow> (\<exists>cr. cl_connector s = Some cr \<and> armed (world s) (timer_fd (cr_timer cr)) = Some (interval_spec us False))"

definition given_up :: "('k, 'w, 'e) client \<Rightarrow> bool" where
  "given_up s \<longleftrightarrow> cl_status s = kDisconnected \<and> cl_conn s = None"

definition backoff :: "u16 \<Rightarrow> nat \<Rightarrow> u64" where
  "backoff t n = word_of_nat ((unat t * 2 ^ n) mod 2 ^ 16 * 1000)"

lemma client_selectors [simp]:
  "cl_status (set_world w s) = cl_status s" "cl_status (set_chan a ch s) = cl_status s" "cl_status (set_loop lp l s) = cl_status s"
  "cl_status (set_conn c cn s) = cl_status s" "cl_conn (set_world w s) = cl_conn s" "cl_conn (set_chan a ch s) = cl_conn s"
  "cl_conn (set_loop lp l s) = cl_conn s" "cl_conn (set_conn c cn s) = cl_conn s" "cl_connector (set_world w s) = cl_connector s"
  "cl_connector (set_chan a ch s) = cl_connector s" "cl_connector (set_loop lp l s) = cl_connector s" "cl_connector (set_conn c cn s) = cl_connector s"
  by (simp_all add: set_world_def set_chan_def set_loop_def set_conn_def)

lemma push_bit_u16: "unat (push_bit n (t :: u16)) = (unat t * 2 ^ n) mod 2 ^ 16"
  unfolding unsigned_push_bit_eq by (simp add: take_bit_eq_mod push_bit_eq_mult)

lemma backoff_word: "ucast (push_bit n (t :: u16)) * 1000 = backoff t n"
proof -
  have "(word_of_nat (unat (push_bit n t) * 1000) :: u64) = ucast (push_bit n t) * 1000" by simp
  then show ?thesis unfolding backoff_def push_bit_u16 [symmetric] ..
qed

lemma backoff_zero: "backoff t n = 0 \<longleftrightarrow> (unat t * 2 ^ n) mod 2 ^ 16 = 0"
proof -
  let ?x = "(unat t * 2 ^ n) mod 2 ^ 16"
  have "?x < 2 ^ 16" by simp
  then have "?x * 1000 < 2 ^ 64" by simp
  then have "unat (backoff t n) = ?x * 1000" unfolding backoff_def by (simp add: unat_of_nat take_bit_nat_eq_self del: of_nat_mult)
  then show ?thesis by (metis mult_is_0 unat_eq_zero zero_neq_numeral)
qed

lemma refusingD:
  assumes "refusing os cs armed pend"
  shows "\<exists>e w'. socket_connect cs f a w = (Err e, w') \<and> e \<noteq> EISCONN \<and>
      (if e = EINPROGRESS \<or> e = EINTR then \<exists>evts. pend w' f = Some evts \<and> refused_evts evts else pend w' f = None)"
    and "\<exists>w'. sys_epoll_ctl os ep op f ev w = (Ret (), w') \<and> armed w' = armed w"
    and "\<exists>w'. sys_timerfd_settime cs f v w = (Ret (), w') \<and> armed w' = (armed w)(f \<mapsto> v) \<and> (\<forall>g. pend w g = None \<longrightarrow> pend w' g = None)"
    and "\<exists>bs w'. sys_read os f n w = (Ret bs, w')"
    and "\<exists>w'. socket_close os f w = Inr w' \<and> (\<forall>g. pend w g = None \<longrightarrow> pend w' g = None)" and "\<exists>f w'. socket_socket os tcp v6 w = Inr (f, w')"
    and "\<exists>f w'. sys_timerfd_create cs w = (Ret f, w')"
    and "pend w f \<noteq> None \<Longrightarrow> \<exists>k w'. socket_getsockerropt cs f w = Inr (k, w') \<and> k \<noteq> 0"
proof -
  note r = assms [unfolded refusing_def]
  show "\<exists>e w'. socket_connect cs f a w = (Err e, w') \<and> e \<noteq> EISCONN \<and>
      (if e = EINPROGRESS \<or> e = EINTR then \<exists>evts. pend w' f = Some evts \<and> refused_evts evts else pend w' f = None)"
    unfolding socket_connect_def using r [THEN conjunct1] by blast
  show "\<exists>w'. sys_epoll_ctl os ep op f ev w = (Ret (), w') \<and> armed w' = armed w"
    "\<exists>w'. sys_timerfd_settime cs f v w = (Ret (), w') \<and> armed w' = (armed w)(f \<mapsto> v) \<and> (\<forall>g. pend w g = None \<longrightarrow> pend w' g = None)"
    "\<exists>bs w'. sys_read os f n w = (Ret bs, w')" "\<exists>f w'. sys_timerfd_create cs w = (Ret f, w')"
    using r [THEN conjunct2] by (elim conjE; simp only: simp_thms)+
  have c: "\<forall>f w. \<exists>w'. sys_close os f w = (Ret (), w') \<and> (\<forall>g. pend w g = None \<longrightarrow> pend w' g = None)"
    "\<forall>t v w. \<exists>f w'. sys_socket os t v w = (Ret f, w')" "\<forall>f w. \<exists>w'. sys_reuseaddr os f w = (Ret (), w')"
    "\<forall>f w. pend w f \<noteq> None \<longrightarrow> (\<exists>k w'. sys_so_error cs f w = (Ret k, w') \<and> k \<noteq> 0)"
    using r [THEN conjunct2] by (elim conjE; simp only: simp_thms)+
  obtain w' where "sys_close os f w = (Ret (), w')" "\<forall>g. pend w g = None \<longrightarrow> pend w' g = None" using c(1) by blast
  then show "\<exists>w'. socket_close os f w = Inr w' \<and> (\<forall>g. pend w g = None \<longrightarrow> pend w' g = None)" by (simp add: socket_close_def)
  obtain f w1 where "sys_socket os tcp v6 w = (Ret f, w1)" using c(2) by blast
  moreover obtain w2 where "sys_reuseaddr os f w1 = (Ret (), w2)" using c(3) by blast
  ultimately show "\<exists>f w'. socket_socket os tcp v6 w = Inr (f, w')" by (simp add: socket_socket_def)
  show "pend w f \<noteq> None \<Longrightarrow> \<exists>k w'. socket_getsockerropt cs f w = Inr (k, w') \<and> k \<noteq> 0" for f w
    using c(4) unfolding socket_getsockerropt_def by (metis (no_types, lifting) sysres.simps(5) prod.case)
qed

text \<open>No report is due for the socket of the connector.\<close>

definition quiet :: "('w \<Rightarrow> fd \<Rightarrow> u32 option) \<Rightarrow> ('k, 'w, 'e) client \<Rightarrow> bool" where
  "quiet pend s \<longleftrightarrow> (\<forall>cr ch. cl_connector s = Some cr \<longrightarrow> chans s (cr_channel cr) = Some ch \<longrightarrow> pend (world s) (ch_fd ch) = None)"

definition after_failure :: "('w \<Rightarrow> fd \<Rightarrow> itimerspec option) \<Rightarrow> int \<Rightarrow> u16 \<Rightarrow> nat \<Rightarrow> ('k, 'w, 'e) client \<Rightarrow> bool" where
  "after_failure armed m t n s \<longleftrightarrow> (if int n < m then connecting m t (Suc n) s \<and> armed_for armed (backoff t n) s else given_up s)"

lemma Retry_refused:
  assumes r: "refusing os cs armed pend" and c: "connecting m t n s" and m: "m < 2 ^ 31 - 1" and n: "int n \<le> m"
  shows "\<exists>s'. Retry os cs s = Inr s' \<and> after_failure armed m t n s' \<and> chans s' = chans s \<and> (quiet pend s \<longrightarrow> quiet pend s')"
proof -
  obtain cr c cn ch lp l where st: "cl_status s = kConnecting" "cl_connector s = Some cr" "retry cr = int n" "max_retry cr = m"
    "retry_timeout cr = push_bit n t" "on_failure cr" "timer_callback (cr_timer cr) = Some ConnectorStart" "cl_conn s = Some c"
    "conns s c = Some cn" "conn_channel cn = cr_channel cr" "chans s (cr_channel cr) = Some ch" "ch_loop ch = Some lp" "loops s lp = Some l"
    using c unfolding connecting_def by blast
  show ?thesis
  proof (cases "int n < m")
    case True
    obtain w' where w': "sys_timerfd_settime cs (timer_fd (cr_timer cr)) (interval_spec (backoff t n) False) (world s) = (Ret (), w')"
      "armed w' = (armed (world s))(timer_fd (cr_timer cr) \<mapsto> interval_spec (backoff t n) False)" "\<forall>g. pend (world s) g = None \<longrightarrow> pend w' g = None"
      using refusingD(3) [OF r] by blast
    let ?cr = "cr\<lparr>retry := retry cr + 1, cr_timer := (cr_timer cr)\<lparr>timer_interval := backoff t n\<rparr>, retry_timeout := push_bit 1 (retry_timeout cr)\<rparr>"
    let ?s = "set_world w' (s\<lparr>cl_connector := Some ?cr\<rparr>)"
    have "Retry os cs s = Inr ?s"
      using st True m w'(1) by (simp add: Retry_def get_connector_def SetInterval_def backoff_word)
    moreover have "connecting m t (Suc n) ?s" using st by (simp add: connecting_def push_bit_push_bit)
    moreover have "armed_for armed (backoff t n) ?s" using w'(2) by (simp add: armed_for_def)
    moreover have "quiet pend s \<Longrightarrow> quiet pend ?s" using st(2) w'(3) by (simp add: quiet_def)
    ultimately show ?thesis using True by (simp add: after_failure_def)
  next
    case False
    obtain w' where "socket_close os (ch_fd ch) (world s) = Inr w'" "\<forall>g. pend (world s) g = None \<longrightarrow> pend w' g = None"
      using refusingD(5) [OF r] by blast
    then show ?thesis
      using st False n m
      by (simp add: Retry_def get_connector_def OnConnectionFailureCallback_def drop_connection_def Let_def get_conn_def given_up_def set_world_def
          after_failure_def quiet_def)
  qed
qed

lemma UpdateChannel_ok:
  assumes "refusing os cs armed pend" and "chans s a = Some ch" and "loops s lp = Some l"
  shows "\<exists>w n. UpdateChannel os lp a op s = Inr (set_world w (set_loop lp (l\<lparr>cur_poll_size := n\<rparr>) s)) \<and> armed w = armed (world s)"
proof -
  obtain w where "sys_epoll_ctl os (poll_fd l) op (ch_fd ch) (events ch, a) (world s) = (Ret (), w)" "armed w = armed (world s)"
    using refusingD(2) [OF assms(1)] by blast
  then show ?thesis using assms(2,3) by (auto simp: UpdateChannel_def)
qed

text \<open>The loop handles what the poller reports for the connector's channel.\<close>

definition report ::
  "('w \<Rightarrow> fd \<Rightarrow> u32 option) \<Rightarrow> 'w posix \<Rightarrow> 'w client_calls \<Rightarrow> 'e openssl \<Rightarrow> (bool \<Rightarrow> string \<Rightarrow> string option) \<Rightarrow> byte_order \<Rightarrow>
     ('k, 'w, 'e) cli_app \<Rightarrow> ('k, 'w, 'e) client \<Rightarrow> ('k, 'w, 'e) client res option" where
  "report pend os cs ssl ntop e app s =
     obind (Some (get_connector s)) (\<lambda>cr.
     obind (Some (get_chan (cr_channel cr) s)) (\<lambda>ch.
       case pend (world s) (ch_fd ch) of
         None \<Rightarrow> Some (Inr s)
       | Some evts \<Rightarrow>
          HandleEvents os (virtual_run os ssl (cli_user os cs ntop e app)) (cr_channel cr) (set_chan (cr_channel cr) (SetRevents evts ch) s)))"

text \<open>A failure that is reported later leads to \<open>Retry\<close>, whichever events report it.\<close>

lemma report_refused:
  assumes r: "refusing os cs armed pend" and c: "connecting m t n s" and m: "m < 2 ^ 31 - 1" "int n \<le> m"
    and cr: "cl_connector s = Some cr" and ch: "chans s (cr_channel cr) = Some ch" "write_callback ch = Some (Client (Other ConnectorHandle))"
      "error_callback ch = Some (Client (Other ConnectorRetry))" "close_callback ch = Some (Client (Other ConnectorRetry))" "read_callback ch = None"
    and p: "pend (world s) (ch_fd ch) = Some evts" "refused_evts evts"
  shows "\<exists>s'. report pend os cs ssl ntop e app s = Some (Inr s') \<and> after_failure armed m t n s'"
proof -
  let ?a = "cr_channel cr" and ?run = "virtual_run os ssl (cli_user os cs ntop e app)"
  let ?ch = "(SetRevents evts ch)\<lparr>revents := 0\<rparr>"
  let ?s = "set_chan ?a ?ch (set_chan ?a (SetRevents evts ch) s)"
  have c1: "connecting m t n (set_world w ?s)" for w using c cr ch(1) by (auto simp: connecting_def SetRevents_def)
  have "set_world (world s) ?s = ?s" by (simp add: set_world_def set_chan_def)
  then have c0: "connecting m t n ?s" using c1 [of "world s"] by simp
  let ?ev = "revents ch OR evts"
  have "x AND z \<noteq> 0 \<Longrightarrow> (y OR x) AND z \<noteq> 0" for x y z :: u32 by (simp add: bit.conj_disj_distrib2 or_eq_0_iff)
  then have ev: "refused_evts ?ev" using p(2) unfolding refused_evts_def by blast
  have rp: "report pend os cs ssl ntop e app s = HandleEvents os ?run ?a (set_chan ?a (SetRevents evts ch) s)"
    using cr ch(1) p(1) by (simp add: report_def get_connector_def)
  show ?thesis
  proof (cases "?ev AND kPollHup \<noteq> 0 \<or> ?ev AND kPollErr \<noteq> 0")
    case True
    then have "HandleEvents os ?run ?a (set_chan ?a (SetRevents evts ch) s) = Some (Retry os cs ?s)"
      using ch by (auto simp: HandleEvents_def Let_def call_def virtual_run_def cli_user_def SetRevents_def)
    then show ?thesis unfolding rp using Retry_refused [OF r c0 m] by auto
  next
    case False
    then have o: "?ev AND kPollOut \<noteq> 0" using ev by (simp add: refused_evts_def)
    obtain k w where k: "socket_getsockerropt cs (ch_fd ch) (world s) = Inr (k, w)" "k \<noteq> 0" using refusingD(8) [OF r] p(1) by blast
    obtain s' where s': "Retry os cs (set_world w ?s) = Inr s'" "after_failure armed m t n s'" "chans s' = chans ?s"
      using Retry_refused [OF r c1 m] by auto
    have "HandleConnect os cs ntop e app ?s = Some (Inr s')"
      using cr k s'(1) by (simp add: HandleConnect_def get_connector_def SetRevents_def)
    then have "HandleEvents os ?run ?a (set_chan ?a (SetRevents evts ch) s) = Some (Inr s')"
      using False o ch s'(3) by (simp add: HandleEvents_def Let_def call_def virtual_run_def cli_user_def SetRevents_def get_chan_def)
    then show ?thesis unfolding rp using s'(2) by blast
  qed
qed

lemma report_quiet:
  assumes "quiet pend s" and "cl_connector s = Some cr" and "chans s (cr_channel cr) = Some ch"
  shows "report pend os cs ssl ntop e app s = Some (Inr s)"
  using assms by (simp add: report_def get_connector_def quiet_def)

text \<open>An attempt that is refused, at once or later, leads to \<open>Retry\<close>.\<close>

lemma attempt_refused:
  assumes r: "refusing os cs armed pend" and c: "connecting m t n s" and m: "m < 2 ^ 31 - 1" "int n \<le> m"
  shows "\<exists>s1 s'. Connector_Start os cs s = Inr s1 \<and> report pend os cs ssl ntop e app s1 = Some (Inr s') \<and> after_failure armed m t n s'"
proof -
  obtain cr c cn ch lp l where st: "cl_status s = kConnecting" "cl_connector s = Some cr" "retry cr = int n" "max_retry cr = m"
    "retry_timeout cr = push_bit n t" "on_failure cr" "timer_callback (cr_timer cr) = Some ConnectorStart" "cl_conn s = Some c"
    "conns s c = Some cn" "conn_channel cn = cr_channel cr" "chans s (cr_channel cr) = Some ch" "ch_loop ch = Some lp" "loops s lp = Some l"
    using c unfolding connecting_def by blast
  let ?a = "cr_channel cr"
  let ?ch = "ch\<lparr>write_callback := Some (Client (Other ConnectorHandle)), error_callback := Some (Client (Other ConnectorRetry)),
      close_callback := Some (Client (Other ConnectorRetry)), read_callback := None\<rparr>"
  let ?ch2 = "?ch\<lparr>events := events ch OR kPollOut\<rparr>"
  let ?s1 = "set_chan ?a ?ch2 (set_chan ?a ?ch s)"
  have "chans ?s1 ?a = Some ?ch2" "loops ?s1 lp = Some l" using st by simp_all
  from UpdateChannel_ok [OF r this] obtain w k where
    u: "UpdateChannel os lp ?a EPOLL_CTL_MOD ?s1 = Inr (set_world w (set_loop lp (l\<lparr>cur_poll_size := k\<rparr>) ?s1))" by blast
  let ?s2 = "set_world w (set_loop lp (l\<lparr>cur_poll_size := k\<rparr>) ?s1)"
  obtain err w' where err: "socket_connect cs (ch_fd ch) (sa (cr_addr cr)) (world ?s2) = (Err err, w')" "err \<noteq> EISCONN"
    "if err = EINPROGRESS \<or> err = EINTR then \<exists>evts. pend w' (ch_fd ch) = Some evts \<and> refused_evts evts else pend w' (ch_fd ch) = None"
    using refusingD(1) [OF r] by blast
  let ?s3 = "set_world w' ?s2"
  have start: "Connector_Start os cs s = (if err = EINPROGRESS \<or> err = EINTR then Inr ?s3 else Retry os cs ?s3)"
    using st u err(1,2) by (simp add: Connector_Start_def get_connector_def set_connector_callbacks_def Channel_EnableWrite_def UpdateToLoop_def)
  have c3: "connecting m t n ?s3" using st by (simp add: connecting_def)
  have cr3: "cl_connector ?s3 = Some cr" "chans ?s3 ?a = Some ?ch2" using st(2) by simp_all
  show ?thesis
  proof (cases "err = EINPROGRESS \<or> err = EINTR")
    case True
    then obtain evts where "pend (world ?s3) (ch_fd ?ch2) = Some evts" "refused_evts evts" using err(3) by auto
    from report_refused [OF r c3 m cr3 _ _ _ _ this] True start show ?thesis by auto
  next
    case False
    then have "quiet pend ?s3" using err(3) st(2) by (auto simp: quiet_def)
    with Retry_refused [OF r c3 m] obtain s' where s': "Retry os cs ?s3 = Inr s'" "after_failure armed m t n s'" "chans s' = chans ?s3" "quiet pend s'" by auto
    have "\<exists>cr'. cl_connector s' = Some cr' \<and> cr_channel cr' = ?a"
      using s'(1) cr3(1) by (auto simp: Retry_def get_connector_def sbind_Inr Let_def OnConnectionFailureCallback_def drop_connection_def
          split: if_splits option.splits)
    then have "report pend os cs ssl ntop e app s' = Some (Inr s')" using report_quiet [OF s'(4)] s'(3) cr3(2) by auto
    then show ?thesis using start False s'(1,2) by auto
  qed
qed

text \<open>
  What the loop does for a connecting client: it handles what is reported for the first attempt, and then \<open>n\<close> times the
  timer fires, if it is armed, and the report on the attempt that it starts is handled. A timer that was set
  to zero is not armed.
\<close>

definition due :: "('w \<Rightarrow> fd \<Rightarrow> itimerspec option) \<Rightarrow> ('k, 'w, 'e) client \<Rightarrow> bool" where
  "due armed s \<longleftrightarrow>
     (case cl_connector s of
        None \<Rightarrow> False
      | Some cr \<Rightarrow>
         (case armed (world s) (timer_fd (cr_timer cr)) of None \<Rightarrow> False | Some v \<Rightarrow> value_sec v \<noteq> 0 \<or> value_nsec v \<noteq> 0))"

fun fires ::
  "('w \<Rightarrow> fd \<Rightarrow> itimerspec option) \<Rightarrow> ('w \<Rightarrow> fd \<Rightarrow> u32 option) \<Rightarrow> 'w posix \<Rightarrow> 'w client_calls \<Rightarrow> 'e openssl \<Rightarrow>
     (bool \<Rightarrow> string \<Rightarrow> string option) \<Rightarrow> byte_order \<Rightarrow> ('k, 'w, 'e) cli_app \<Rightarrow> nat \<Rightarrow> ('k, 'w, 'e) client \<Rightarrow> ('k, 'w, 'e) client res option" where
  "fires armed pend os cs ssl ntop e app 0 s = report pend os cs ssl ntop e app s"
| "fires armed pend os cs ssl ntop e app (Suc n) s =
     obind (fires armed pend os cs ssl ntop e app n s) (\<lambda>s1.
       if due armed s1 then obind (cli_user os cs ntop e app TimerFired 0 s1) (report pend os cs ssl ntop e app) else Some (Inr s1))"

lemma armed_for_due: "armed_for armed us s \<Longrightarrow> due armed s \<longleftrightarrow> us \<noteq> 0"
  using interval_spec_zero [of us False] by (auto simp: armed_for_def due_def)

lemma timer_refused:
  assumes r: "refusing os cs armed pend" and c: "connecting m t n s" and m: "m < 2 ^ 31 - 1" "int n \<le> m"
  shows "\<exists>s'. obind (cli_user os cs ntop e app TimerFired 0 s) (report pend os cs ssl ntop e app) = Some (Inr s') \<and> after_failure armed m t n s'"
proof -
  obtain cr where cr: "cl_connector s = Some cr" "timer_callback (cr_timer cr) = Some ConnectorStart"
    using c unfolding connecting_def by blast
  obtain bs w where w: "sys_read os (timer_fd (cr_timer cr)) 8 (world s) = (Ret bs, w)" using refusingD(4) [OF r] by blast
  have "connecting m t n (set_world w s)" using c by (simp add: connecting_def)
  from attempt_refused [OF r this m, of ssl ntop e app] show ?thesis
    using cr w by (auto simp: cli_user_def get_connector_def OnTimer_def)
qed

text \<open>As long as no timeout is zero, each firing is one more failure; a timeout of zero ends the firings.\<close>

lemma fires_refused:
  assumes r: "refusing os cs armed pend" and z: "fires armed pend os cs ssl ntop e app 0 s = Some (Inr s0)" "after_failure armed m t 0 s0"
    and m: "m < 2 ^ 31 - 1"
  shows "int n \<le> m \<Longrightarrow> \<forall>j<n. backoff t j \<noteq> 0 \<Longrightarrow> \<exists>s'. fires armed pend os cs ssl ntop e app n s = Some (Inr s') \<and> after_failure armed m t n s'"
proof (induction n)
  case (Suc n)
  then obtain s' where s': "fires armed pend os cs ssl ntop e app n s = Some (Inr s')" "connecting m t (Suc n) s'" "armed_for armed (backoff t n) s'"
    by (auto simp: after_failure_def)
  have "due armed s'" using armed_for_due [OF s'(3)] Suc.prems(2) by simp
  moreover have "int (Suc n) \<le> m" using Suc.prems by simp
  ultimately show ?case using timer_refused [OF r s'(2) m, of ntop e app ssl] s'(1) by auto
qed (use z in auto)

lemma fires_stuck:
  assumes "fires armed pend os cs ssl ntop e app n s = Some (Inr s')" and "\<not> due armed s'" and "n \<le> k"
  shows "fires armed pend os cs ssl ntop e app k s = Some (Inr s')"
  using assms(3) by (induction k rule: dec_induct) (use assms(1,2) in auto)

section \<open>Connecting\<close>

lemma ch_loop_edge [simp]: "ch_loop (SetEpollEdgeTriggered b ch) = ch_loop ch"
  by (simp add: SetEpollEdgeTriggered_def)

lemma Init_ok:
  assumes r: "refusing os cs armed pend" and st: "conns s c = Some cn" "chans s (conn_channel cn) = Some ch" "ch_loop ch = Some lp" "loops s lp = Some l"
  shows "\<exists>ch' w l'. virtual_Init os c s = Inr (set_chan (conn_channel cn) ch' (set_world w (set_loop lp l' s))) \<and> ch_loop ch' = Some lp"
proof -
  let ?a = "conn_channel cn" and ?s = "set_chan (conn_channel cn) (SetEpollEdgeTriggered True ch) s"
  have "chans ?s ?a = Some (SetEpollEdgeTriggered True ch)" "loops ?s lp = Some l" using st by simp_all
  from UpdateChannel_ok [OF r this] obtain w k where
    u: "UpdateChannel os lp ?a EPOLL_CTL_ADD ?s = Inr (set_world w (set_loop lp (l\<lparr>cur_poll_size := k\<rparr>) ?s))" by blast
  let ?ch = "(SetEpollEdgeTriggered True ch)\<lparr>read_callback := Some (Client (ConnRead c)), write_callback := Some (Client (ConnWrite c)),
             close_callback := Some (Client (ConnClose c)), error_callback := Some (Client (ConnClose c))\<rparr>"
  let ?s2 = "set_chan ?a ?ch (set_world w (set_loop lp (l\<lparr>cur_poll_size := k\<rparr>) s))"
  have swap: "set_chan ?a x (set_world w (set_loop lp l' (set_chan ?a y s))) = set_chan ?a x (set_world w (set_loop lp l' s))" for x y l'
    by (simp add: set_chan_def set_world_def set_loop_def)
  have i: "Connection_Init os c s = Inr ?s2"
    using st u swap by (simp add: Connection_Init_def get_conn_def UpdateToLoop_def SetChannelCallbacks_def)
  have tp: "tls_parts ?s2 = tls_parts s" by (simp add: set_chan_def set_world_def set_loop_def)
  show ?thesis
  proof (cases "\<exists>p. tls_parts s c = Some p \<and> \<not> is_server p")
    case True
    then have "virtual_Init os c s = Inr (set_chan ?a (SetEpollEdgeTriggered False ?ch) ?s2)"
      using i tp st(1) by (auto simp: virtual_Init_def TlsConnection_Init_def get_tls_def get_conn_def)
    moreover have "set_chan ?a (SetEpollEdgeTriggered False ?ch) ?s2 = set_chan ?a (SetEpollEdgeTriggered False ?ch) (set_world w (set_loop lp (l\<lparr>cur_poll_size := k\<rparr>) s))"
      by (simp add: set_chan_def)
    ultimately show ?thesis using st(3) by fastforce
  next
    case False
    then have "virtual_Init os c s = Inr ?s2"
      using i tp by (auto simp: virtual_Init_def TlsConnection_Init_def get_tls_def split: option.split)
    then show ?thesis using st(3) by fastforce
  qed
qed

lemma Timer_new_ok:
  assumes "refusing os cs armed pend" and "loops s lp = Some l"
  shows "\<exists>tm w l' ch'. Timer_new os cs lp a k s = Inr (tm, set_chan a ch' (set_world w (set_loop lp l' s)))"
proof -
  obtain f w0 where c: "sys_timerfd_create cs (world s) = (Ret f, w0)" using refusingD(7) [OF assms(1)] by blast
  let ?s = "set_chan a (Channel_new (Some lp) f) (set_world w0 s)"
  have "chans ?s a = Some (Channel_new (Some lp) f)" "loops ?s lp = Some l" using assms(2) by simp_all
  from UpdateChannel_ok [OF assms(1) this] obtain w n where
    "UpdateChannel os lp a EPOLL_CTL_ADD ?s = Inr (set_world w (set_loop lp (l\<lparr>cur_poll_size := n\<rparr>) ?s))" by blast
  then have "Timer_new os cs lp a k s = Inr (\<lparr>timer_loop = lp, timer_fd = f, timer_channel = a, timer_callback = None, timer_interval = 0\<rparr>,
      set_chan a ((Channel_new (Some lp) f)\<lparr>read_callback := Some (Client k)\<rparr>) (set_world w (set_loop lp (l\<lparr>cur_poll_size := n\<rparr>) ?s)))"
    using c by (simp add: Timer_new_def UpdateToLoop_def Channel_new_def)
  moreover have "set_chan a x (set_world w (set_loop lp y ?s)) = set_chan a x (set_world w (set_loop lp y s))" for x y
    by (simp add: set_chan_def set_world_def set_loop_def)
  ultimately show ?thesis by auto
qed

text \<open>A connection at \<open>c\<close> with a channel at \<open>a\<close> of the loop at \<open>lp\<close>.\<close>

definition conn_at :: "addr \<Rightarrow> addr \<Rightarrow> addr \<Rightarrow> ('k, 'w, 'e) client \<Rightarrow> bool" where
  "conn_at lp c a s \<longleftrightarrow>
     cl_status s = kConnecting \<and> cl_conn s = Some c \<and> loops s lp \<noteq> None \<and>
     (\<exists>cn ch. conns s c = Some cn \<and> conn_channel cn = a \<and> chans s a = Some ch \<and> ch_loop ch = Some lp)"

lemma conn_at_sets:
  assumes "conn_at lp c a s"
  shows "conn_at lp c a (s\<lparr>cl_connector := x\<rparr>)" "b \<noteq> a \<Longrightarrow> conn_at lp c a (set_chan b ch s)" "conn_at lp c a (set_world w s)"
    "conn_at lp c a (set_loop lp' l s)" "conns s c = Some cn \<Longrightarrow> conn_channel cn' = conn_channel cn \<Longrightarrow> conn_at lp c a (set_conn c cn' s)"
  using assms by (auto simp: conn_at_def)

lemma conn_at_callbacks:
  assumes "conn_at lp c a s"
  shows "\<exists>s'. sbind (Connection_SetReadCallback c r s) (\<lambda>s3. Connection_SetCloseCallback c k s3) = Inr s' \<and> conn_at lp c a s' \<and>
     cl_connector s' = cl_connector s"
proof -
  obtain cn where cn: "conns s c = Some cn" using assms by (auto simp: conn_at_def)
  have "conn_at lp c a (set_conn c (cn\<lparr>on_read := r, on_close := k\<rparr>) (set_conn c (cn\<lparr>on_read := r\<rparr>) s))"
    using assms cn by (simp add: conn_at_def)
  then show ?thesis using cn by (simp add: Connection_SetReadCallback_def Connection_SetCloseCallback_def get_conn_def)
qed

lemma Connector_new_ok:
  fixes s :: "('k, 'w, 'e) client"
  assumes r: "refusing os cs armed pend" and "conn_at lp c a s" and "a \<noteq> b"
  shows "\<exists>cr s'. Connector_new os cs a m addr t b s = Inr (cr, s') \<and> conn_at lp c a s' \<and> cl_connector s' = cl_connector s \<and>
     cr_channel cr = a \<and> retry cr = 0 \<and> max_retry cr = m \<and> retry_timeout cr = max t 5 \<and> timer_callback (cr_timer cr) = Some ConnectorStart"
proof -
  obtain cn ch l where st: "conns s c = Some cn" "conn_channel cn = a" "chans s a = Some ch" "ch_loop ch = Some lp" "loops s lp = Some l"
    using assms(2) by (auto simp: conn_at_def)
  obtain tm :: "'k cli_cb timer" and w l' ch' where tm: "Timer_new os cs lp b (Other TimerFired) s = Inr (tm, set_chan b ch' (set_world w (set_loop lp l' s)))"
    using Timer_new_ok [OF r st(5)] by blast
  have "conn_at lp c a (set_chan b ch' (set_world w (set_loop lp l' s)))"
    by (rule conn_at_sets(2) [OF conn_at_sets(3) [OF conn_at_sets(4) [OF assms(2)]]]) (use assms(3) in simp)
  then show ?thesis
    using st tm by (simp add: Connector_new_def SetTimmerEventCallback_def kMinRetryInitialTimeout_def)
qed

lemma conn_at_Init:
  assumes r: "refusing os cs armed pend" and "conn_at lp c a s"
  shows "\<exists>s'. virtual_Init os c s = Inr s' \<and> conn_at lp c a s' \<and> cl_connector s' = cl_connector s"
proof -
  obtain cn ch l where st: "conns s c = Some cn" "conn_channel cn = a" "chans s a = Some ch" "ch_loop ch = Some lp" "loops s lp = Some l"
    "cl_status s = kConnecting" "cl_conn s = Some c"
    using assms(2) by (auto simp: conn_at_def)
  from Init_ok [OF r st(1) _ st(4,5)] st(2,3) obtain ch' w l' where
    "virtual_Init os c s = Inr (set_chan a ch' (set_world w (set_loop lp l' s)))" "ch_loop ch' = Some lp" by auto
  then show ?thesis using st by (auto simp: conn_at_def)
qed

lemma Connect_starts:
  assumes r: "refusing os cs armed pend" and st: "cl_status s = kDisconnected" "cl_conn s = None" "cl_connector s = None" "loops s (cl_loop s) = Some l"
  shows "\<exists>s7. TcpClient_Connect os cs ssl s = Connector_Start os cs s7 \<and> connecting (cl_max_retry s) (max (retry_initial_timeout s) 5) 0 s7"
proof -
  let ?c = "cl_next s" and ?a = "cl_next s + 1"
  obtain f w where f: "socket_socket os True (ipv6 (target_addr s)) (world s) = Inr (f, w)" using refusingD(6) [OF r] by blast
  define s0 where "s0 = set_world w (s\<lparr>cl_status := kConnecting, cl_next := cl_next s + 3\<rparr>)"
  define s1 where "s1 = (if cl_ssl_ctx s then TlsConnection_new ssl (cl_loop s) f False ?c ?a s0 else Connection_new (cl_loop s) f False ?c ?a s0)"
  have sel: "cl_conn s1 = None" "cl_connector s1 = None"
    using st by (simp_all add: s1_def s0_def TlsConnection_new_def Connection_new_def set_tls_def)
  have "conn_at (cl_loop s) ?c ?a (s1\<lparr>cl_conn := Some ?c\<rparr>)"
    using st(4) by (simp add: conn_at_def s1_def s0_def TlsConnection_new_def Connection_new_def set_tls_def Channel_new_def)
  from conn_at_callbacks [OF this] obtain s4 where
    s4: "sbind (Connection_SetReadCallback ?c (map_option ClientUser (cl_on_read s)) (s1\<lparr>cl_conn := Some ?c\<rparr>))
        (\<lambda>s3. Connection_SetCloseCallback ?c (Some (ClientClosed f)) s3) = Inr s4" "conn_at (cl_loop s) ?c ?a s4" "cl_connector s4 = None"
    using sel by auto
  obtain s3 where s3: "Connection_SetReadCallback ?c (map_option ClientUser (cl_on_read s)) (s1\<lparr>cl_conn := Some ?c\<rparr>) = Inr s3"
    "Connection_SetCloseCallback ?c (Some (ClientClosed f)) s3 = Inr s4" using s4(1) by (auto simp: sbind_Inr)
  from Connector_new_ok [OF r s4(2), of "?a + 1"] obtain cr s5 where
    s5: "Connector_new os cs ?a (cl_max_retry s) (target_addr s) (retry_initial_timeout s) (?a + 1) s4 = Inr (cr, s5)" "conn_at (cl_loop s) ?c ?a s5" "cl_connector s5 = None"
    and cr: "cr_channel cr = ?a" "retry cr = 0" "max_retry cr = cl_max_retry s" "retry_timeout cr = max (retry_initial_timeout s) 5"
      "timer_callback (cr_timer cr) = Some ConnectorStart" using s4(3) by (metis n_not_Suc_n Suc_eq_plus1)
  let ?cr = "Connector_SetConnectionFailureCallback (Connector_SetConnectionCallback cr)"
  from conn_at_Init [OF r conn_at_sets(1) [OF s5(2)], of "Some ?cr"] obtain s7 where
    s7: "virtual_Init os ?c (s5\<lparr>cl_connector := Some ?cr\<rparr>) = Inr s7" "conn_at (cl_loop s) ?c ?a s7" "cl_connector s7 = Some ?cr" by auto
  have rp: "replace_connection os ?c s1 = Inr (s1\<lparr>cl_conn := Some ?c\<rparr>)" "replace_connector os ?cr s5 = Inr (s5\<lparr>cl_connector := Some ?cr\<rparr>)"
    using sel s5(3) by (simp_all add: replace_connection_def replace_connector_def)
  have "?a + 1 = cl_next s + 2" by simp
  then have "TcpClient_Connect os cs ssl s = Connector_Start os cs s7"
    using st(1) f rp s3 s5(1) s7(1) unfolding TcpClient_Connect_def Let_def s0_def s1_def by (simp only: sbind_simps prod.case if_False simp_thms)
  moreover have "connecting (cl_max_retry s) (max (retry_initial_timeout s) 5) 0 s7"
    using s7(2,3) cr by (auto simp: connecting_def conn_at_def Connector_SetConnectionFailureCallback_def Connector_SetConnectionCallback_def)
  ultimately show ?thesis by blast
qed

lemma connect_then_fires:
  assumes r: "refusing os cs armed pend" and st: "cl_status s = kDisconnected" "cl_conn s = None" "cl_connector s = None" "loops s (cl_loop s) = Some l"
    and m: "cl_max_retry s = m" "0 \<le> m" "m < 2 ^ 31 - 1" and t: "max (retry_initial_timeout s) 5 = t"
  shows "\<exists>s1. TcpClient_Connect os cs ssl s = Inr s1 \<and>
     (\<forall>n. int n \<le> m \<longrightarrow> (\<forall>j<n. backoff t j \<noteq> 0) \<longrightarrow>
        (\<exists>s'. fires armed pend os cs ssl ntop e app n s1 = Some (Inr s') \<and> after_failure armed m t n s'))"
proof -
  obtain s7 where s7: "TcpClient_Connect os cs ssl s = Connector_Start os cs s7" "connecting m t 0 s7"
    using Connect_starts [OF r st] m(1) t by blast
  obtain s1 s' where s1: "Connector_Start os cs s7 = Inr s1" "report pend os cs ssl ntop e app s1 = Some (Inr s')" "after_failure armed m t 0 s'"
    using attempt_refused [OF r s7(2) m(3), of ssl ntop e app] m(2) by auto
  then have z: "fires armed pend os cs ssl ntop e app 0 s1 = Some (Inr s')" by simp
  from fires_refused [OF r this s1(3) m(3)] show ?thesis using s7(1) s1(1) by auto
qed

section \<open>A sample client\<close>

definition refusing_posix :: "timer_kernel posix" where
  "refusing_posix =
     \<lparr>sys_read = (\<lambda>f n w. (Ret (replicate n NUL), w)), sys_write = (\<lambda>f bs w. (Ret (length bs), w)),
      sys_open = (\<lambda>p w. (Err ENOENT, w)), sys_fsize = (\<lambda>f w. 0), sys_sendfile = (\<lambda>f g off n w. (Err EBADF, w)),
      sys_close = (\<lambda>f w. (Ret (), w)), sys_shutdown_write = (\<lambda>f w. w), sys_shutdown_read = (\<lambda>f w. w),
      sys_pipe = (\<lambda>w. (Ret (20, 21), w)), sys_epoll_create = (\<lambda>w. (Ret 22, w)), sys_epoll_ctl = (\<lambda>ep op f ev w. (Ret (), w)),
      sys_epoll_wait = (\<lambda>ep n w. (Ret [], w)), sys_socket = (\<lambda>tcp v6 w. (Ret 3, w)), sys_reuseaddr = (\<lambda>f w. (Ret (), w)),
      sys_bind = (\<lambda>f a w. (Ret (), w)), sys_listen = (\<lambda>f n w. (Ret (), w)), sys_accept = (\<lambda>f w. (Err EAGAIN, w))\<rparr>"

lemma sample_refusing: "refusing refusing_posix sample_calls (\<lambda>w. map_of (settings w)) (\<lambda>w f. None)"
  by (simp add: refusing_def refusing_posix_def sample_calls_def)




definition sample_target :: SocketAddr where
  "sample_target = \<lparr>ip = ''10.0.0.1'', port = 80, sa = \<lparr>sa_ipv6 = False, sa_addr = Some ''abcd'', sa_port = 80\<rparr>, ipv6 = False\<rparr>"

definition client_net :: "(nat cli_cb, timer_kernel, unit) tls_net" where
  "client_net = \<lparr>chans = Map.empty,
     loops = [1 \<mapsto> \<lparr>poll_fd = 22, cur_poll_size = 2, pipe_fds = (20, 21), pipe_channel = 2, wakeup_callback = None, loop_running = True, pending_tasks = []\<rparr>],
     world = \<lparr>settings = []\<rparr>, conns = Map.empty, tls_parts = Map.empty\<rparr>"

definition no_ssl :: "unit openssl" where
  "no_ssl = \<lparr>SSL_new = (\<lambda>_. ()), SSL_is_init_finished = (\<lambda>_. True), SSL_do_handshake = (\<lambda>e. (1, e)), SSL_write = (\<lambda>b e. (0, e)),
     SSL_read = (\<lambda>n e. (0, [], e)), SSL_get_error = (\<lambda>n e. SSL_ERROR_OTHER), BIO_write_in = (\<lambda>b e. (0, e)), BIO_read_out = (\<lambda>n e. (0, [], e))\<rparr>"

definition idle_app :: "(nat, timer_kernel, unit) cli_app" where
  "idle_app k c s = Some (Inr s)"

definition sample_client :: "u16 \<Rightarrow> int \<Rightarrow> (nat, timer_kernel, unit) client" where
  "sample_client t m =
     \<lparr>chans = chans client_net, loops = loops client_net, world = world client_net, conns = Map.empty, tls_parts = Map.empty,
      cl_max_retry = m, cl_status = kDisconnected, target_addr = sample_target, cl_conn = None, cl_connector = None,
      cl_loop = 1, retry_initial_timeout = t, cl_on_read = None, cl_on_write = None, cl_on_connection = None, cl_ssl_ctx = False, cl_next = 3\<rparr>"

lemma sample_client_new: "TcpClient_new True sample_target 1 t False m 3 client_net = Inr (sample_client t m)"
  by (simp add: TcpClient_new_def sample_client_def client_net_def)

lemma client_net_loop: "\<exists>l. loops client_net 1 = Some l"
  by (simp add: client_net_def)

lemma Start_after_giving_up:
  assumes "cl_conn s = None" and cr: "cl_connector s = Some cr" "max_retry cr < retry cr + 1" "on_failure cr"
    and conn: "\<And>f a w. \<exists>e w'. sys_connect cs f a w = (Err e, w') \<and> e \<noteq> EINPROGRESS \<and> e \<noteq> EINTR \<and> e \<noteq> EISCONN"
  shows "\<exists>x. Connector_Start os cs s = Inl x"
proof (cases "Connector_Start os cs s")
  case (Inr s')
  then obtain s1 s2 ch where s1: "set_connector_callbacks (cr_channel cr) s = Inr s1" and s2: "Channel_EnableWrite os (cr_channel cr) True s1 = Inr s2"
    and "get_chan (cr_channel cr) s2 = Inr ch"
    and c: "(case socket_connect cs (ch_fd ch) (sa (cr_addr cr)) (world s2) of
         (Ret _, w) \<Rightarrow> Inr (set_world w s2)
       | (Err e, w) \<Rightarrow>
          (if e = EINPROGRESS \<or> e = EINTR \<or> e = EISCONN then Inr (set_world w s2) else Retry os cs (set_world w s2))) = Inr s'"
    using cr(1) by (auto simp: Connector_Start_def sbind_Inr get_connector_def)
  obtain e w where "socket_connect cs (ch_fd ch) (sa (cr_addr cr)) (world s2) = (Err e, w)" "e \<noteq> EINPROGRESS" "e \<noteq> EINTR" "e \<noteq> EISCONN"
    using conn unfolding socket_connect_def by blast
  then have r: "Retry os cs (set_world w s2) = Inr s'" using c by simp
  have k1: "cl_conn s1 = cl_conn s" "cl_connector s1 = cl_connector s" using s1 by (auto simp: set_connector_callbacks_def sbind_Inr)
  obtain c' evts lp where "poller_called os lp (set_chan (cr_channel cr) (c'\<lparr>events := evts\<rparr>) s1) s2"
    using Channel_EnableWrite_called [OF s2] by blast
  then have "cl_conn s2 = cl_conn s" "cl_connector s2 = cl_connector s" using k1 by (auto simp: poller_called_def)
  then show ?thesis using r cr assms(1) by (auto simp: Retry_def get_connector_def OnConnectionFailureCallback_def Let_def split: if_splits)
qed simp

section \<open>Properties\<close>





text \<open>
  The timeout is a 16-bit number that is shifted left, so with an initial timeout that is a multiple of
  128 milliseconds and at least ten attempts it becomes zero: after nine firings of the timer the
  client has set its timer to zero, which disarms it, while it is still connecting and the next attempt is due.
\<close>

theorem retry_timer_disarmed:
  assumes "refusing os cs armed pend" and "TcpClient_new ctx_new target lp t use_ssl m next net = Inr s" and "loops net lp = Some l"
    and "10 \<le> m" and "m < 2 ^ 31 - 1" and "128 dvd unat t" and "\<not> 256 dvd unat t"
  shows "\<exists>s1 s' cr. TcpClient_Connect os cs ssl s = Inr s1 \<and> (\<forall>k\<ge>9. fires armed pend os cs ssl ntop e app k s1 = Some (Inr s')) \<and>
     cl_status s' = kConnecting \<and> cl_connector s' = Some cr \<and> retry cr \<le> max_retry cr \<and>
     armed (world s') (timer_fd (cr_timer cr)) = Some \<lparr>value_sec = 0, value_nsec = 0, interval_sec = 0, interval_nsec = 0\<rparr>"
proof -
  have st: "cl_status s = kDisconnected" "cl_conn s = None" "cl_connector s = None" "loops s (cl_loop s) = Some l" "cl_max_retry s = m"
    "retry_initial_timeout s = t"
    using assms(2,3) by (auto simp: TcpClient_new_def Let_def split: if_splits)
  obtain k where k: "unat t = 128 * k" using assms(6) by (rule dvdE)
  have "k \<noteq> 0" using assms(7) k by (metis dvd_0_right mult_0_right)
  then have "5 \<le> t" using k by (simp add: word_le_nat_alt)
  then have mx: "max t 5 = t" by (simp add: max_def)
  have "unat t * 2 ^ 9 mod 2 ^ 16 = 0" unfolding k by simp
  then have z: "backoff t 9 = 0" by (simp add: backoff_zero)
  have nz: "backoff t j \<noteq> 0" if "j < 9" for j
  proof
    assume "backoff t j = 0"
    then have "(2 :: nat) ^ 8 * 2 ^ 8 dvd unat t * 2 ^ j" by (simp add: backoff_zero dvd_eq_mod_eq_0)
    moreover have "unat t * 2 ^ j dvd unat t * 2 ^ 8" using that by (intro mult_dvd_mono le_imp_power_dvd) auto
    ultimately have "(2 :: nat) ^ 8 * 2 ^ 8 dvd unat t * 2 ^ 8" by (rule dvd_trans)
    then have "256 dvd unat t" by (simp add: dvd_mult_cancel2)
    then show False using assms(7) by simp
  qed
  have "int 9 < m" using assms(4) by simp
  have "0 \<le> m" using assms(4) by simp
  from connect_then_fires [OF assms(1) st(1-5) this assms(5), of t ssl ntop e app] st(6) mx obtain s1 where
    s1: "TcpClient_Connect os cs ssl s = Inr s1"
      "\<forall>n. int n \<le> m \<longrightarrow> (\<forall>j<n. backoff t j \<noteq> 0) \<longrightarrow> (\<exists>s'. fires armed pend os cs ssl ntop e app n s1 = Some (Inr s') \<and> after_failure armed m t n s')"
    by auto
  from s1(2) [rule_format, of 9] nz \<open>int 9 < m\<close> obtain s' where
    s': "fires armed pend os cs ssl ntop e app 9 s1 = Some (Inr s')" "connecting m t (Suc 9) s'" "armed_for armed 0 s'"
    unfolding after_failure_def using z by auto
  obtain cr where cr: "cl_connector s' = Some cr" "retry cr = int (Suc 9)" "max_retry cr = m" using s'(2) unfolding connecting_def by blast
  have "armed (world s') (timer_fd (cr_timer cr)) = Some (interval_spec 0 False)" using s'(3) cr(1) unfolding armed_for_def by auto
  moreover have "interval_spec 0 False = \<lparr>value_sec = 0, value_nsec = 0, interval_sec = 0, interval_nsec = 0\<rparr>"
    by (simp add: interval_spec_def Let_def)
  moreover have "\<forall>k\<ge>9. fires armed pend os cs ssl ntop e app k s1 = Some (Inr s')" using fires_stuck [OF s'(1)] armed_for_due [OF s'(3)] by blast
  ultimately show ?thesis
    using s1(1) s'(2) cr assms(4) unfolding connecting_def by (intro exI [of _ s1] exI [of _ s'] exI [of _ cr]) auto
qed

theorem retry_timer_disarmed_witness:
  "\<exists>s1 s' cr. TcpClient_Connect refusing_posix sample_calls no_ssl (sample_client 128 10) = Inr s1 \<and>
     (\<forall>k\<ge>9. fires (\<lambda>w. map_of (settings w)) (\<lambda>w f. None) refusing_posix sample_calls no_ssl (\<lambda>v b. None) Little_Endian idle_app k s1 = Some (Inr s')) \<and>
     cl_status s' = kConnecting \<and> cl_connector s' = Some cr \<and> retry cr \<le> max_retry cr \<and>
     map_of (settings (world s')) (timer_fd (cr_timer cr)) = Some \<lparr>value_sec = 0, value_nsec = 0, interval_sec = 0, interval_nsec = 0\<rparr>"
proof -
  obtain l where "loops client_net 1 = Some l" using client_net_loop by blast
  from retry_timer_disarmed [OF sample_refusing sample_client_new this, where t = 128 and m = 10
      and ssl = no_ssl and ntop = "\<lambda>v b. None" and e = Little_Endian and app = idle_app] show ?thesis by simp
qed

text \<open>
  A client that was connected can never connect again: when the connection is closed by the peer the
  client's status does not change, so that \<open>Connect\<close> does nothing, and after \<open>Disconnect\<close>, which sets the status
  to connecting, it does nothing either.
\<close>

theorem closed_client_stays_connected:
  assumes "cl_status s = kConnected" and "conns s c = Some cn" and "on_close cn = Some (ClientClosed f)"
    and "OnCloseCallback os (cli_user os cs ntop e app) c s = Some (Inr s1)"
  shows "cl_status s1 = kConnected \<and> TcpClient_Connect os cs ssl s1 = Inr s1 \<and>
     (\<forall>s2. TcpClient_Disconnect os s1 = Inr s2 \<longrightarrow> cl_status s2 = kConnecting \<and> TcpClient_Connect os cs ssl s2 = Inr s2)"
proof -
  obtain s' where s': "Channel_ShutDownWrite os (conn_channel cn) s = Inr s'" "RemoveFromLoop os (conn_channel cn) s' = Inr s1"
    using assms(2,3,4) by (auto simp: OnCloseCallback_def obind_Inr get_conn_def user_call_def cli_user_def split: option.splits)
  have "cl_status s' = kConnected" using s'(1) assms(1) by (auto simp: Channel_ShutDownWrite_def sbind_Inr)
  then have k: "cl_status s1 = kConnected" using RemoveFromLoop_called [OF s'(2)] by (auto simp: poller_called_def)
  moreover have "cl_status s2 = kConnecting" if "TcpClient_Disconnect os s1 = Inr s2" for s2
    using that k by (auto simp: TcpClient_Disconnect_def Channel_ShutDownWrite_def sbind_Inr split: option.splits)
  ultimately show ?thesis by (simp add: TcpClient_Connect_def)
qed

definition closed_client :: "(nat, timer_kernel, unit) client" where
  "closed_client = (sample_client 10 3)\<lparr>cl_status := kConnected, cl_conn := Some 3,
     chans := [4 \<mapsto> Channel_new (Some 1) 3],
     conns := [3 \<mapsto> \<lparr>conn_channel = 4, on_read = None, on_write = None, on_close = Some (ClientClosed 3), read_buffer = Buffer_new,
       write_buffer = Plain Buffer_new, shut_down = False, conn_send_file = False\<rparr>]\<rparr>"

theorem closed_client_stays_connected_witness:
  "\<exists>s1 s2. OnCloseCallback refusing_posix (cli_user refusing_posix sample_calls (\<lambda>v b. None) Little_Endian idle_app) 3 closed_client = Some (Inr s1) \<and>
     TcpClient_Connect refusing_posix sample_calls no_ssl s1 = Inr s1 \<and> TcpClient_Disconnect refusing_posix s1 = Inr s2 \<and>
     TcpClient_Connect refusing_posix sample_calls no_ssl s2 = Inr s2"
proof -
  have "\<exists>s1. OnCloseCallback refusing_posix (cli_user refusing_posix sample_calls (\<lambda>v b. None) Little_Endian idle_app) 3 closed_client = Some (Inr s1) \<and>
      cl_conn s1 = Some 3 \<and> conns s1 = conns closed_client \<and> chans s1 = chans closed_client"
    by (simp add: OnCloseCallback_def closed_client_def get_conn_def Channel_ShutDownWrite_def RemoveFromLoop_def RemoveChannel_def Channel_new_def
        sample_client_def client_net_def refusing_posix_def user_call_def cli_user_def socket_shutdown_write_def)
  then obtain s1 where s1: "OnCloseCallback refusing_posix (cli_user refusing_posix sample_calls (\<lambda>v b. None) Little_Endian idle_app) 3 closed_client = Some (Inr s1)"
    "cl_conn s1 = Some 3" "conns s1 = conns closed_client" "chans s1 = chans closed_client" by blast
  have "cl_status closed_client = kConnected" "\<exists>cn. conns closed_client 3 = Some cn \<and> on_close cn = Some (ClientClosed 3)"
    by (simp_all add: closed_client_def)
  then have c: "cl_status s1 = kConnected \<and> TcpClient_Connect refusing_posix sample_calls no_ssl s1 = Inr s1 \<and>
     (\<forall>s2. TcpClient_Disconnect refusing_posix s1 = Inr s2 \<longrightarrow> cl_status s2 = kConnecting \<and> TcpClient_Connect refusing_posix sample_calls no_ssl s2 = Inr s2)"
    using closed_client_stays_connected [OF _ _ _ s1(1)] by blast
  have "\<exists>s2. TcpClient_Disconnect refusing_posix s1 = Inr s2"
    using c s1(2,3,4) by (simp add: TcpClient_Disconnect_def get_conn_def closed_client_def Channel_ShutDownWrite_def get_chan_def)
  then show ?thesis using c s1(1) by blast
qed

text \<open>
  Property C18. When the socket becomes writable without an error, a connecting client is connected: the connector's
  handler hands the channel over to the connection, whose own callbacks are set on it, the status
  is connected, and the user's callback is given the connection.
\<close>

theorem client_connects:
  assumes "cl_connector s = Some cr" and "on_connected cr" and "cl_conn s = Some c" and "conns s c = Some cn" and "conn_channel cn = cr_channel cr"
    and "chans s (cr_channel cr) = Some ch" and "write_callback ch = Some (Client (Other ConnectorHandle))" and "revents ch = kPollOut"
    and "sys_so_error cs (ch_fd ch) (world s) = (Ret 0, w1)" and "sys_getsockname cs (ch_fd ch) w1 = (Ret a, w2)"
    and "SocketAddr_of_sockaddr ntop e a (ipv6 (cr_addr cr)) = Inr addr" and "cl_on_connection s = Some k"
  shows "\<exists>s'. HandleEvents os (virtual_run os ssl (cli_user os cs ntop e app)) (cr_channel cr) s = app k c s' \<and>
     cl_status s' = kConnected \<and> conns s' = conns s \<and> world s' = w2 \<and>
     (\<exists>ch'. chans s' = (chans s)(cr_channel cr \<mapsto> ch') \<and> ch_fd ch' = ch_fd ch \<and> events ch' = events ch \<and>
        read_callback ch' = Some (Client (ConnRead c)) \<and> write_callback ch' = Some (Client (ConnWrite c)) \<and>
        close_callback ch' = Some (Client (ConnClose c)) \<and> error_callback ch' = Some (Client (ConnClose c)))"
proof -
  have bits: "kPollOut AND kPollHup = 0" "kPollOut AND kPollErr = 0" "kPollOut AND kPollOut \<noteq> 0" "kPollOut AND (kPollIn OR kPollRdHup) = 0"
    by (simp_all add: poll_bits)
  have sel: "cl_on_connection (set_world w x) = cl_on_connection x" "cl_on_connection (set_chan b y x) = cl_on_connection x" for w b y and x :: "('a, 'b, 'c) client"
    by (simp_all add: set_world_def set_chan_def)
  let ?ch = "ch\<lparr>revents := 0, read_callback := Some (Client (ConnRead c)), write_callback := Some (Client (ConnWrite c)),
      close_callback := Some (Client (ConnClose c)), error_callback := Some (Client (ConnClose c))\<rparr>"
  let ?s1 = "set_chan (cr_channel cr) (ch\<lparr>revents := 0\<rparr>) s"
  let ?s2 = "(set_world w2 ?s1)\<lparr>cl_status := kConnected\<rparr>"
  have h: "HandleConnect os cs ntop e app ?s1 = app k c (set_chan (cr_channel cr) ?ch ?s2)"
    using assms(1-6,9-12)
    by (simp add: HandleConnect_def get_connector_def socket_getsockerropt_def socket_getsockname_def OnConnectionCallback_def
        SetChannelCallbacks_def get_conn_def sel)
  have ob: "obind x (\<lambda>v. Some (Inr v)) = x" for x :: "'x res option" by (simp add: obind_def split: option.split sum.split)
  have "HandleEvents os (virtual_run os ssl (cli_user os cs ntop e app)) (cr_channel cr) s = app k c (set_chan (cr_channel cr) ?ch ?s2)"
    using assms(6,7,8) bits h by (simp add: HandleEvents_def Let_def call_def virtual_run_def cli_user_def ob)
  then show ?thesis
    by (intro exI [of _ "set_chan (cr_channel cr) ?ch ?s2"] conjI exI [of _ ?ch]) (simp_all add: fun_eq_iff)
qed

definition accepting_calls :: "timer_kernel client_calls" where
  "accepting_calls = sample_calls\<lparr>sys_so_error := \<lambda>f w. (Ret 0, w),
     sys_getsockname := \<lambda>f w. (Ret \<lparr>sa_ipv6 = False, sa_addr = Some ''abcd'', sa_port = 0\<rparr>, w)\<rparr>"

definition writable_client :: "(nat, timer_kernel, unit) client" where
  "writable_client = (sample_client 10 3)\<lparr>cl_status := kConnecting, cl_conn := Some 3, cl_on_connection := Some 7,
     cl_connector := Some \<lparr>cr_channel = 4, retry = 0, max_retry = 3, retry_timeout = 10,
       cr_timer = \<lparr>timer_loop = 1, timer_fd = 30, timer_channel = 5, timer_callback = Some ConnectorStart, timer_interval = 0\<rparr>,
       on_connected = True, on_failure = True, cr_addr = sample_target\<rparr>,
     chans := [4 \<mapsto> (Channel_new (Some 1) 3)\<lparr>write_callback := Some (Client (Other ConnectorHandle)), revents := kPollOut\<rparr>],
     conns := [3 \<mapsto> \<lparr>conn_channel = 4, on_read = None, on_write = None, on_close = Some (ClientClosed 3), read_buffer = Buffer_new,
       write_buffer = Plain Buffer_new, shut_down = False, conn_send_file = False\<rparr>]\<rparr>"

theorem client_connects_witness:
  "\<exists>s'. HandleEvents refusing_posix (virtual_run refusing_posix no_ssl (cli_user refusing_posix accepting_calls (\<lambda>v b. Some b) Little_Endian idle_app)) 4 writable_client
       = Some (Inr s') \<and> cl_status s' = kConnected \<and> (\<exists>ch'. chans s' 4 = Some ch' \<and> read_callback ch' = Some (Client (ConnRead 3)))"
proof -
  have "\<exists>cr cn ch w1 a w2 addr. cl_connector writable_client = Some cr \<and> on_connected cr \<and> cl_conn writable_client = Some 3 \<and>
      conns writable_client 3 = Some cn \<and> conn_channel cn = cr_channel cr \<and> chans writable_client (cr_channel cr) = Some ch \<and>
      write_callback ch = Some (Client (Other ConnectorHandle)) \<and> revents ch = kPollOut \<and>
      sys_so_error accepting_calls (ch_fd ch) (world writable_client) = (Ret 0, w1) \<and> sys_getsockname accepting_calls (ch_fd ch) w1 = (Ret a, w2) \<and>
      SocketAddr_of_sockaddr (\<lambda>v b. Some b) Little_Endian a (ipv6 (cr_addr cr)) = Inr addr \<and> cl_on_connection writable_client = Some 7 \<and> cr_channel cr = 4"
    by (simp add: writable_client_def accepting_calls_def SocketAddr_of_sockaddr_def)
  then obtain cr cn ch w1 a w2 addr where h: "cl_connector writable_client = Some cr" "on_connected cr" "cl_conn writable_client = Some 3"
      "conns writable_client 3 = Some cn" "conn_channel cn = cr_channel cr" "chans writable_client (cr_channel cr) = Some ch"
      "write_callback ch = Some (Client (Other ConnectorHandle))" "revents ch = kPollOut"
      "sys_so_error accepting_calls (ch_fd ch) (world writable_client) = (Ret 0, w1)" "sys_getsockname accepting_calls (ch_fd ch) w1 = (Ret a, w2)"
      "SocketAddr_of_sockaddr (\<lambda>v b. Some b) Little_Endian a (ipv6 (cr_addr cr)) = Inr addr" "cl_on_connection writable_client = Some 7" and a4: "cr_channel cr = 4"
    by blast
  from client_connects [OF h, of refusing_posix no_ssl idle_app] a4 show ?thesis by (auto simp: idle_app_def)
qed

text \<open>
  The timer of a connector is not disarmed when the client gives up. When the socket of a client reports a hang-up while
  the client waits for the timer of its last attempt, the client drops the connection and is
  disconnected, but only the socket is closed; when the timer then fires, the connector starts again on
  the closed descriptor and the process ends or uses a null pointer, for every kernel that does not connect a closed
  descriptor.
\<close>

theorem late_timer_is_fatal:
  assumes cr: "cl_connector s = Some cr" "retry cr = max_retry cr" "max_retry cr < 2 ^ 31 - 1" "on_failure cr" "timer_callback (cr_timer cr) = Some ConnectorStart"
    and cn: "cl_conn s = Some c" "conns s c = Some cn" "conn_channel cn = cr_channel cr"
    and ch: "chans s (cr_channel cr) = Some ch" "revents ch AND kPollHup \<noteq> 0" "close_callback ch = Some (Client (Other ConnectorRetry))"
    and close: "socket_close os (ch_fd ch) (world s) = Inr w"
    and read: "\<And>f n w. \<exists>bs w'. sys_read os f n w = (Ret bs, w')"
    and conn: "\<And>f a w. \<exists>e w'. sys_connect cs f a w = (Err e, w') \<and> e \<noteq> EINPROGRESS \<and> e \<noteq> EINTR \<and> e \<noteq> EISCONN"
  shows "\<exists>s1 x. HandleEvents os (virtual_run os ssl (cli_user os cs ntop e app)) (cr_channel cr) s = Some (Inr s1) \<and>
     cl_status s1 = kDisconnected \<and> cl_conn s1 = None \<and> world s1 = w \<and> cli_user os cs ntop e app TimerFired 0 s1 = Some (Inl x)"
proof -
  let ?s = "set_chan (cr_channel cr) (ch\<lparr>revents := 0\<rparr>) s"
  let ?s1 = "(set_world w (?s\<lparr>cl_connector := Some (cr\<lparr>retry := retry cr + 1\<rparr>), conns := (conns s)(c := None),
      tls_parts := (tls_parts s)(c := None), cl_conn := None\<rparr>))\<lparr>cl_status := kDisconnected\<rparr>"
  have "Retry os cs ?s = Inr ?s1"
    using cr cn ch close
    by (simp add: Retry_def get_connector_def OnConnectionFailureCallback_def drop_connection_def get_conn_def Let_def)
      (simp add: set_chan_def set_world_def)
  then have h: "HandleEvents os (virtual_run os ssl (cli_user os cs ntop e app)) (cr_channel cr) s = Some (Inr ?s1)"
    using ch by (simp add: HandleEvents_def Let_def call_def virtual_run_def cli_user_def)
  obtain bs w1 where w1: "sys_read os (timer_fd (cr_timer cr)) 8 w = (Ret bs, w1)" using read by blast
  obtain x where "Connector_Start os cs (set_world w1 ?s1) = Inl x"
    using Start_after_giving_up [OF _ _ _ _ conn, of "set_world w1 ?s1" "cr\<lparr>retry := retry cr + 1\<rparr>" os] cr(2,4) by auto
  then have "cli_user os cs ntop e app TimerFired 0 ?s1 = Some (Inl x)"
    using w1 cr(5) by (simp add: cli_user_def get_connector_def OnTimer_def)
  then show ?thesis using h by (intro exI [of _ ?s1] exI [of _ x]) simp
qed

definition hung_up_client :: "(nat, timer_kernel, unit) client" where
  "hung_up_client = (sample_client 10 3)\<lparr>cl_status := kConnecting, cl_conn := Some 3,
     cl_connector := Some \<lparr>cr_channel = 4, retry = 3, max_retry = 3, retry_timeout = 80,
       cr_timer = \<lparr>timer_loop = 1, timer_fd = 30, timer_channel = 5, timer_callback = Some ConnectorStart, timer_interval = 40000\<rparr>,
       on_connected = True, on_failure = True, cr_addr = sample_target\<rparr>,
     chans := [4 \<mapsto> (Channel_new (Some 1) 3)\<lparr>close_callback := Some (Client (Other ConnectorRetry)), revents := kPollHup\<rparr>],
     conns := [3 \<mapsto> \<lparr>conn_channel = 4, on_read = None, on_write = None, on_close = Some (ClientClosed 3), read_buffer = Buffer_new,
       write_buffer = Plain Buffer_new, shut_down = False, conn_send_file = False\<rparr>]\<rparr>"

theorem late_timer_is_fatal_witness:
  "\<exists>s1 x. HandleEvents refusing_posix (virtual_run refusing_posix no_ssl (cli_user refusing_posix sample_calls (\<lambda>v b. None) Little_Endian idle_app)) 4 hung_up_client
       = Some (Inr s1) \<and> cl_status s1 = kDisconnected \<and>
     cli_user refusing_posix sample_calls (\<lambda>v b. None) Little_Endian idle_app TimerFired 0 s1 = Some (Inl x)"
proof -
  define cr :: "nat connector" where "cr = \<lparr>cr_channel = 4, retry = 3, max_retry = 3, retry_timeout = 80,
       cr_timer = \<lparr>timer_loop = 1, timer_fd = 30, timer_channel = 5, timer_callback = Some ConnectorStart, timer_interval = 40000\<rparr>,
       on_connected = True, on_failure = True, cr_addr = sample_target\<rparr>"
  have "cl_connector hung_up_client = Some cr" "cl_conn hung_up_client = Some 3" "retry cr = max_retry cr" "max_retry cr < 2 ^ 31 - 1"
    "on_failure cr" "timer_callback (cr_timer cr) = Some ConnectorStart" and a: "cr_channel cr = 4"
    by (simp_all add: hung_up_client_def cr_def)
  moreover have "\<exists>cn ch w. conns hung_up_client 3 = Some cn \<and> conn_channel cn = 4 \<and> chans hung_up_client 4 = Some ch \<and>
      revents ch AND kPollHup \<noteq> 0 \<and> close_callback ch = Some (Client (Other ConnectorRetry)) \<and>
      socket_close refusing_posix (ch_fd ch) (world hung_up_client) = Inr w"
    by (simp add: hung_up_client_def socket_close_def refusing_posix_def poll_bits)
  moreover have "\<And>f n w. \<exists>bs w'. sys_read refusing_posix f n w = (Ret bs, w')" by (simp add: refusing_posix_def)
  moreover have "\<And>f a w. \<exists>e w'. sys_connect sample_calls f a w = (Err e, w') \<and> e \<noteq> EINPROGRESS \<and> e \<noteq> EINTR \<and> e \<noteq> EISCONN"
    by (simp add: sample_calls_def)
  ultimately show ?thesis
    using late_timer_is_fatal [of hung_up_client cr 3 _ _ refusing_posix _ sample_calls no_ssl "\<lambda>v b. None" Little_Endian idle_app] unfolding a by blast
qed

end
