(* ===== verification/Client_Ownership.thy ===== *)
theory Client_Ownership
  imports Tcp_Client Net_Shape
begin

text \<open>
  What a client owns: while it is not disconnected it has one connection with one open socket, its connector
  has one open timer, and no other descriptor it opened is open. The invariant is kept by every call and
  every event, whatever the kernel answers, and the destructor closes what is left.
\<close>

section \<open>The invariant\<close>

text \<open>The calls a client makes open and close descriptors as the manual pages say: a new descriptor is not in use before.\<close>

definition descriptors_tracked :: "'w posix \<Rightarrow> 'w client_calls \<Rightarrow> ('w \<Rightarrow> fd set) \<Rightarrow> bool" where
  "descriptors_tracked os cs socks \<longleftrightarrow>
     socks_stable os socks \<and>
     (\<forall>tcp v6 w f w'. sys_socket os tcp v6 w = (Ret f, w') \<longrightarrow> f \<notin> socks w \<and> socks w' = insert f (socks w)) \<and>
     (\<forall>f w. socks (snd (sys_reuseaddr os f w)) = socks w) \<and> (\<forall>f a w. socks (snd (sys_connect cs f a w)) = socks w) \<and>
     (\<forall>f w. socks (snd (sys_so_error cs f w)) = socks w) \<and> (\<forall>f w. socks (snd (sys_getsockname cs f w)) = socks w) \<and>
     (\<forall>w f w'. sys_timerfd_create cs w = (Ret f, w') \<longrightarrow> f \<notin> socks w \<and> socks w' = insert f (socks w)) \<and>
     (\<forall>f v w. socks (snd (sys_timerfd_settime cs f v w)) = socks w)"

definition client_wf :: "('k, 'w, 'e) client \<Rightarrow> bool" where
  "client_wf s \<longleftrightarrow>
     all_plain s \<and> (\<forall>lp l. loops s lp = Some l \<longrightarrow> wakeup_callback l = None) \<and>
     (cl_status s = kDisconnected \<longleftrightarrow> cl_conn s = None) \<and> dom (conns s) = set_option (cl_conn s) \<and> dom (conn_fd s) = dom (conns s) \<and>
     (\<forall>a. chans s a \<noteq> None \<longrightarrow> a < cl_next s) \<and>
     (\<forall>cr. cl_connector s = Some cr \<longrightarrow> timer_channel (cr_timer cr) < cl_next s \<and> cr_channel cr < cl_next s \<and>
        (\<forall>c cn. conns s c = Some cn \<longrightarrow> timer_channel (cr_timer cr) \<noteq> conn_channel cn))"

definition conn_fds :: "('k, 'w, 'e) client \<Rightarrow> fd list" where
  "conn_fds s = (case Option.bind (cl_conn s) (conn_fd s) of None \<Rightarrow> [] | Some f \<Rightarrow> [f])"

definition timer_fds :: "('k, 'w, 'e) client \<Rightarrow> fd list" where
  "timer_fds s = (case cl_connector s of None \<Rightarrow> [] | Some cr \<Rightarrow> [timer_fd (cr_timer cr)])"

definition fds_owned :: "('w \<Rightarrow> fd set) \<Rightarrow> fd set \<Rightarrow> ('k, 'w, 'e) client \<Rightarrow> bool" where
  "fds_owned socks base s \<longleftrightarrow>
     (let fs = conn_fds s @ timer_fds s in socks (world s) = base \<union> set fs \<and> distinct fs \<and> base \<inter> set fs = {})"

definition client_owns :: "('w \<Rightarrow> fd set) \<Rightarrow> fd set \<Rightarrow> ('k, 'w, 'e) client \<Rightarrow> bool" where
  "client_owns socks base s \<longleftrightarrow> client_wf s \<and> fds_owned socks base s"

lemma descriptors_trackedD:
  assumes "descriptors_tracked os cs socks"
  shows "socks_stable os socks"
    and "socket_socket os tcp v6 w = Inr (f, w') \<Longrightarrow> f \<notin> socks w \<and> socks w' = insert f (socks w)"
    and "socks (snd (socket_connect cs f a w)) = socks w"
    and "socket_getsockerropt cs f w = Inr (err, w') \<Longrightarrow> socks w' = socks w"
    and "socket_getsockname cs f w = Inr (a, w') \<Longrightarrow> socks w' = socks w"
    and "sys_timerfd_create cs w = (Ret f, w') \<Longrightarrow> f \<notin> socks w \<and> socks w' = insert f (socks w)"
    and "socks (snd (sys_timerfd_settime cs f v w)) = socks w"
proof -
  show "socks_stable os socks" "socks (snd (socket_connect cs f a w)) = socks w" "socks (snd (sys_timerfd_settime cs f v w)) = socks w"
    "sys_timerfd_create cs w = (Ret f, w') \<Longrightarrow> f \<notin> socks w \<and> socks w' = insert f (socks w)"
    using assms unfolding descriptors_tracked_def socket_connect_def by blast+
  show "socket_getsockerropt cs f w = Inr (err, w') \<Longrightarrow> socks w' = socks w" "socket_getsockname cs f w = Inr (a, w') \<Longrightarrow> socks w' = socks w"
    using assms unfolding descriptors_tracked_def socket_getsockerropt_def socket_getsockname_def
    by (auto split: prod.splits sysres.splits dest: sym) (metis snd_conv)+
  assume s: "socket_socket os tcp v6 w = Inr (f, w')"
  obtain r w1 where w1: "sys_socket os tcp v6 w = (r, w1)" by fastforce
  obtain r2 w2 where w2: "sys_reuseaddr os f w1 = (r2, w2)" by fastforce
  have "r = Ret f" "w' = w2" using s w1 w2 by (auto simp: socket_socket_def split: sysres.splits prod.splits)
  moreover have "socks w2 = socks w1" using assms w2 unfolding descriptors_tracked_def by (metis snd_conv)
  ultimately show "f \<notin> socks w \<and> socks w' = insert f (socks w)" using assms w1 unfolding descriptors_tracked_def by metis
qed

section \<open>What the invariant depends on\<close>

lemma client_shape_fields:
  assumes "same_shape socks s (s' :: ('k, 'w, 'e) client)"
  shows "cl_status s' = cl_status s" "cl_conn s' = cl_conn s" "cl_connector s' = cl_connector s" "cl_next s' = cl_next s"
  using assms unfolding same_shape_def by (cases s; cases s'; simp)+

lemma cl_next_sets [simp]:
  "cl_next (set_world w s) = cl_next s" "cl_next (set_chan a ch s) = cl_next s" "cl_next (set_loop lp l s) = cl_next s"
  "cl_next (set_conn c cn s) = cl_next s"
  by (simp_all add: set_world_def set_chan_def set_loop_def set_conn_def)

lemma shape_plain:
  assumes "same_shape socks s s'" and "all_plain s"
  shows "all_plain s'"
  unfolding all_plain_def using kept_plain [of socks s s'] assms by (simp add: kept_def)

lemma client_owns_shape:
  assumes "same_shape socks s s'" and "client_owns socks base s"
  shows "client_owns socks base s'"
proof -
  note f = client_shape_fields [OF assms(1)] and cf = same_shape_conn_fd [OF assms(1)]
  have d: "dom (conns s') = dom (conns s)" using same_shapeD(4) [OF assms(1)] by (auto simp: dom_def)
  have ch: "conn_channel cn' \<in> {conn_channel cn |cn. conns s c = Some cn}" if "conns s' c = Some cn'" for c cn'
    using same_shapeD(1) [OF assms(1) that] by (auto simp: conn_shape_def)
  have "client_wf s'"
    using assms(2) shape_plain [OF assms(1)] same_shapeD(5) [OF assms(1)] same_shapeD(3) [OF assms(1)] ch
    unfolding client_owns_def client_wf_def f cf d by (auto, fastforce+)
  moreover have "fds_owned socks base s'"
    using assms by (simp add: client_owns_def fds_owned_def conn_fds_def timer_fds_def f cf same_shape_def)
  ultimately show ?thesis by (simp add: client_owns_def)
qed

text \<open>Beside the shape, callbacks of channels and counters of the connector may change.\<close>

lemma conn_fd_chan:
  assumes "chans s a = Some ch" and "ch_fd ch' = ch_fd ch"
  shows "conn_fd (set_chan a ch' s) = conn_fd s"
  using assms by (auto simp: conn_fd_def fun_eq_iff split: option.splits intro!: bind_option_cong)

lemma conn_fd_sets [simp]:
  "conn_fd (set_world w s) = conn_fd s" "conn_fd (set_loop lp l s) = conn_fd s"
  "conn_fd (s\<lparr>cl_connector := x\<rparr>) = conn_fd s" "conn_fd (s\<lparr>cl_status := y\<rparr>) = conn_fd s" "conn_fd (s\<lparr>cl_conn := z\<rparr>) = conn_fd s"
  by (simp_all add: conn_fd_def fun_eq_iff)

lemma client_owns_chan:
  assumes "client_owns socks base s" and "chans s a = Some ch" and "ch_fd ch' = ch_fd ch"
  shows "client_owns socks base (set_chan a ch' s)"
  using assms(1,2) conn_fd_chan [OF assms(2,3)]
  by (auto simp: client_owns_def client_wf_def fds_owned_def conn_fds_def timer_fds_def all_plain_def Let_def)

lemma client_owns_world: "client_owns socks base s \<Longrightarrow> socks w = socks (world s) \<Longrightarrow> client_owns socks base (set_world w s)"
  by (rule client_owns_shape [OF same_shape_sets(1)])

lemma client_owns_connector:
  assumes "client_owns socks base s" and "cl_connector s = Some cr"
    and "timer_fd (cr_timer cr') = timer_fd (cr_timer cr)" "timer_channel (cr_timer cr') = timer_channel (cr_timer cr)" "cr_channel cr' = cr_channel cr"
  shows "client_owns socks base (s\<lparr>cl_connector := Some cr'\<rparr>)"
  using assms by (auto simp: client_owns_def client_wf_def fds_owned_def conn_fds_def timer_fds_def all_plain_def Let_def)

lemma client_owns_status:
  assumes "client_owns socks base s" and "cl_conn s \<noteq> None" and "st \<noteq> kDisconnected"
  shows "client_owns socks base (s\<lparr>cl_status := st\<rparr>)"
  using assms by (auto simp: client_owns_def client_wf_def fds_owned_def conn_fds_def timer_fds_def all_plain_def Let_def)

lemma client_owns_conn:
  assumes "client_owns socks base s" and "conns s c = Some cn" and "conn_channel cn' = conn_channel cn" and "write_buffer cn' = write_buffer cn"
  shows "client_owns socks base (set_conn c cn' s)"
proof -
  have "conn_fd (set_conn c cn' s) = conn_fd s" using assms(2,3) by (auto simp: conn_fd_def fun_eq_iff)
  then show ?thesis
    using assms by (auto simp: client_owns_def client_wf_def fds_owned_def conn_fds_def timer_fds_def all_plain_def Let_def)
qed

lemma client_owns_callbacks:
  "client_owns socks base (s\<lparr>cl_on_read := r\<rparr>) = client_owns socks base s"
  "client_owns socks base (s\<lparr>cl_on_write := r\<rparr>) = client_owns socks base s"
  "client_owns socks base (s\<lparr>cl_on_connection := r\<rparr>) = client_owns socks base s"
proof -
  have "conn_fd (s\<lparr>cl_on_read := r\<rparr>) = conn_fd s" "conn_fd (s\<lparr>cl_on_write := r\<rparr>) = conn_fd s" "conn_fd (s\<lparr>cl_on_connection := r\<rparr>) = conn_fd s"
    by (simp_all add: conn_fd_def fun_eq_iff)
  then show "client_owns socks base (s\<lparr>cl_on_read := r\<rparr>) = client_owns socks base s"
    "client_owns socks base (s\<lparr>cl_on_write := r\<rparr>) = client_owns socks base s"
    "client_owns socks base (s\<lparr>cl_on_connection := r\<rparr>) = client_owns socks base s"
    by (simp_all add: client_owns_def client_wf_def fds_owned_def conn_fds_def timer_fds_def all_plain_def)
qed

lemma client_owns_called:
  assumes "socks_stable os socks" and "client_owns socks base s" and "poller_called os lp s s'"
  shows "client_owns socks base s'"
  by (rule client_owns_shape [OF poller_called_shape [OF assms(1,3)] assms(2)])

section \<open>The connector\<close>

lemma drop_connection_owns:
  assumes st: "socks_stable os socks" and o: "client_owns socks base s" and c: "cl_conn s = Some c" and d: "drop_connection os c s = Inr s1"
  shows "client_owns socks base (s1\<lparr>cl_status := kDisconnected\<rparr>)"
proof -
  obtain cn ch w where cn: "conns s c = Some cn" "chans s (conn_channel cn) = Some ch" and w: "socket_close os (ch_fd ch) (world s) = Inr w"
    and s1: "s1 = set_world w (s\<lparr>conns := (conns s)(c := None), tls_parts := (tls_parts s)(c := None), cl_conn := None\<rparr>)"
    using d by (auto simp: drop_connection_def sbind_Inr get_conn_Inr get_chan_Inr)
  have dm: "dom (conns s) = {c}" using o c by (simp add: client_owns_def client_wf_def)
  have e: "(conns s)(c := None) = Map.empty"
  proof
    fix x show "((conns s)(c := None)) x = None" using dm by (cases "x = c") (auto simp: dom_def)
  qed
  have f: "conn_fd s c = Some (ch_fd ch)" using cn by (simp add: conn_fd_def)
  have "conn_fd s1 = Map.empty" by (simp add: s1 e conn_fd_def fun_eq_iff)
  moreover have "socks w = socks (world s) - {ch_fd ch}" by (rule socks_stableD(8) [OF st w])
  ultimately show ?thesis
    using o c f by (auto simp: client_owns_def client_wf_def fds_owned_def conn_fds_def timer_fds_def all_plain_def s1 e set_world_def Let_def conn_fd_def)
qed

lemma Retry_owns:
  assumes t: "descriptors_tracked os cs socks" and o: "client_owns socks base s" and r: "Retry os cs s = Inr s'"
  shows "client_owns socks base s'"
proof -
  obtain cr where cr: "cl_connector s = Some cr" using r by (auto simp: Retry_def sbind_Inr get_connector_def split: option.splits)
  have up: "client_owns socks base (s\<lparr>cl_connector := Some cr'\<rparr>)"
    if "timer_fd (cr_timer cr') = timer_fd (cr_timer cr)" "timer_channel (cr_timer cr') = timer_channel (cr_timer cr)" "cr_channel cr' = cr_channel cr" for cr'
    by (rule client_owns_connector [OF o cr that])
  show ?thesis
  proof (cases "retry cr + 1 \<le> max_retry cr")
    case True
    then obtain tm w where tm: "SetInterval cs (word_of_int (uint (retry_timeout cr) * 1000)) False (cr_timer cr) (world s) = Inr (tm, w)"
      and s': "s' = set_world w (s\<lparr>cl_connector := Some (cr\<lparr>retry := retry cr + 1, cr_timer := tm, retry_timeout := push_bit 1 (retry_timeout cr)\<rparr>)\<rparr>)"
      using r cr by (auto simp: Retry_def sbind_Inr get_connector_def split: if_splits)
    obtain us where w: "sys_timerfd_settime cs (timer_fd (cr_timer cr)) (interval_spec us False) (world s) = (Ret (), w)"
      and e: "tm = (cr_timer cr)\<lparr>timer_interval := us\<rparr>"
      using tm by (auto simp: SetInterval_def split: prod.splits sysres.splits)
    have "timer_fd tm = timer_fd (cr_timer cr)" "timer_channel tm = timer_channel (cr_timer cr)" "socks w = socks (world s)"
      using e descriptors_trackedD(7) [OF t, of "timer_fd (cr_timer cr)" "interval_spec us False" "world s"] w by simp_all
    then show ?thesis unfolding s' by (intro client_owns_world up) simp_all
  next
    case False
    let ?s = "s\<lparr>cl_connector := Some (cr\<lparr>retry := retry cr + 1\<rparr>)\<rparr>"
    have o1: "client_owns socks base ?s" by (rule up) simp_all
    have "s' = ?s \<or> OnConnectionFailureCallback os ?s = Inr s'"
      using r cr False by (auto simp: Retry_def sbind_Inr get_connector_def Let_def split: if_splits)
    then show ?thesis
      using o1 drop_connection_owns [OF descriptors_trackedD(1) [OF t] o1]
      by (auto simp: OnConnectionFailureCallback_def sbind_Inr split: option.splits)
  qed
qed

lemma Connector_Start_owns:
  assumes t: "descriptors_tracked os cs socks" and o: "client_owns socks base s" and r: "Connector_Start os cs s = Inr s'"
  shows "client_owns socks base s'"
proof -
  obtain cr s1 s2 ch where "get_connector s = Inr cr" "get_chan (cr_channel cr) s2 = Inr ch" and s1: "set_connector_callbacks (cr_channel cr) s = Inr s1" and s2: "Channel_EnableWrite os (cr_channel cr) True s1 = Inr s2"
    and c: "(case socket_connect cs (ch_fd ch) (sa (cr_addr cr)) (world s2) of
         (Ret _, w) \<Rightarrow> Inr (set_world w s2)
       | (Err e, w) \<Rightarrow>
          (if e = EINPROGRESS \<or> e = EINTR \<or> e = EISCONN then Inr (set_world w s2) else Retry os cs (set_world w s2))) = Inr s'"
    using r unfolding Connector_Start_def sbind_Inr by blast
  obtain e w where w: "socket_connect cs (ch_fd ch) (sa (cr_addr cr)) (world s2) = (e, w)" by fastforce
  then have s': "s' = set_world w s2 \<or> Retry os cs (set_world w s2) = Inr s'"
    using c by (auto split: sysres.splits if_splits)
  have o1: "client_owns socks base s1"
    using s1 o by (auto simp: set_connector_callbacks_def sbind_Inr get_chan_Inr intro!: client_owns_chan)
  obtain c evts lp where ch: "chans s1 (cr_channel cr) = Some c" "poller_called os lp (set_chan (cr_channel cr) (c\<lparr>events := evts\<rparr>) s1) s2"
    using Channel_EnableWrite_called [OF s2] by blast
  have "client_owns socks base (set_chan (cr_channel cr) (c\<lparr>events := evts\<rparr>) s1)" by (rule client_owns_chan [OF o1 ch(1)]) simp
  from client_owns_called [OF descriptors_trackedD(1) [OF t] this ch(2)] have "client_owns socks base s2" .
  then have "client_owns socks base (set_world w s2)"
    using descriptors_trackedD(3) [OF t, of "ch_fd ch" "sa (cr_addr cr)" "world s2"] w by (intro client_owns_world) simp_all
  then show ?thesis using s' Retry_owns [OF t] by blast
qed

section \<open>The client\<close>

text \<open>What is assumed of the user's callbacks: they use connections through \<open>Send\<close> and the like.\<close>

definition cli_app_keeps :: "('w \<Rightarrow> fd set) \<Rightarrow> ('k, 'w, 'e) cli_app \<Rightarrow> bool" where
  "cli_app_keeps socks app \<longleftrightarrow> (\<forall>k c s. all_plain s \<longrightarrow> keeps (same_shape socks s) (app k c s))"

lemma app_owns:
  assumes "cli_app_keeps socks app" and "client_owns socks base s"
  shows "keeps (client_owns socks base) (app k c s)"
proof -
  have "all_plain s" using assms(2) by (simp add: client_owns_def client_wf_def)
  then have "keeps (same_shape socks s) (app k c s)" using assms(1) by (simp add: cli_app_keeps_def)
  then show ?thesis by (rule keeps_mono) (rule client_owns_shape [OF _ assms(2)])
qed

lemma OnConnectionCallback_owns:
  assumes "cli_app_keeps socks app" and o: "client_owns socks base s"
  shows "keeps (client_owns socks base) (OnConnectionCallback app s)"
proof (cases "cl_conn s")
  case (Some c)
  have o1: "client_owns socks base (s\<lparr>cl_status := kConnected\<rparr>)" by (rule client_owns_status [OF o]) (simp_all add: Some)
  have "client_owns socks base s1" if "SetChannelCallbacks c (s\<lparr>cl_status := kConnected\<rparr>) = Inr s1" for s1
    using that by (auto simp: SetChannelCallbacks_def sbind_Inr get_chan_Inr intro!: client_owns_chan [OF o1])
  then show ?thesis
    using Some app_owns [OF assms(1)] by (auto simp: OnConnectionCallback_def intro!: keeps_get split: option.split)
qed (simp add: OnConnectionCallback_def)

lemma HandleConnect_owns:
  assumes t: "descriptors_tracked os cs socks" and a: "cli_app_keeps socks app" and o: "client_owns socks base s"
  shows "keeps (client_owns socks base) (HandleConnect os cs ntop e app s)"
  unfolding HandleConnect_def
proof (intro keeps_get)
  fix cr ch p assume "socket_getsockerropt cs (ch_fd ch) (world s) = Inr p"
  then obtain err w where p: "p = (err, w)" "socket_getsockerropt cs (ch_fd ch) (world s) = Inr (err, w)" by (cases p) simp
  have w: "socks w = socks (world s)" by (rule descriptors_trackedD(4) [OF t p(2)])
  have "keeps (client_owns socks base) (Some (Retry os cs (set_world w s)))"
    using Retry_owns [OF t client_owns_world [OF o w]] by (simp add: keeps_def)
  moreover have "client_owns socks base (set_world w1 s)" if "socket_getsockname cs (ch_fd ch) w = Inr (x, w1)" for x w1
    using descriptors_trackedD(5) [OF t that] w by (intro client_owns_world [OF o]) simp
  ultimately show "keeps (client_owns socks base) (case p of (err, w) \<Rightarrow>
       if err \<noteq> 0 then Some (Retry os cs (set_world w s))
       else
         obind (Some (socket_getsockname cs (ch_fd ch) w)) (\<lambda>(a, w1).
         obind (Some (SocketAddr_of_sockaddr ntop e a (ipv6 (cr_addr cr)))) (\<lambda>addr.
           if on_connected cr then OnConnectionCallback app (set_world w1 s) else Some (Inr (set_world w1 s)))))"
    unfolding p(1) by (auto intro!: keeps_get OnConnectionCallback_owns [OF a])
qed

lemma cli_user_owns:
  assumes t: "descriptors_tracked os cs socks" and a: "cli_app_keeps socks app" and o: "client_owns socks base s"
  shows "keeps (client_owns socks base) (cli_user os cs ntop e app u c s)"
proof (cases u)
  case TimerFired
  have rd: "client_owns socks base (set_world (snd (sys_read os f n (world s))) s)" for f n
    using socks_stableD(1) [OF descriptors_trackedD(1) [OF t]] by (intro client_owns_world [OF o]) simp
  have "keeps (client_owns socks base) (OnTimer os (\<lambda>k s'. if k = ConnectorStart then Some (Connector_Start os cs s') else Some (Inr s')) tm s)" for tm
    using rd [of "timer_fd tm" 8] Connector_Start_owns [OF t]
    by (auto simp: OnTimer_def keeps_def split: prod.split sysres.split option.split)
  then show ?thesis using TimerFired by (auto simp: cli_user_def intro!: keeps_get)
qed (use o Retry_owns [OF t o] Connector_Start_owns [OF t o] HandleConnect_owns [OF t a o] app_owns [OF a o] in
    \<open>auto simp: cli_user_def keeps_def\<close>)

lemma new_connection_owns:
  fixes s :: "('k, 'w, 'e) client"
  assumes o: "client_owns socks base s" and d: "cl_status s = kDisconnected" and f: "f \<notin> socks (world s)" "socks w = insert f (socks (world s))"
    and s1: "s1 = (if tls then TlsConnection_new ssl lp f False (cl_next s) (cl_next s + 1) s0 else Connection_new lp f False (cl_next s) (cl_next s + 1) s0)"
    and s0: "s0 = set_world w (s\<lparr>cl_status := kConnecting, cl_next := cl_next s + 3\<rparr>)"
  shows "client_owns socks base (s1\<lparr>cl_conn := Some (cl_next s)\<rparr>)" and "\<exists>cn. conns s1 (cl_next s) = Some cn \<and> conn_channel cn = cl_next s + 1"
    and "cl_connector s1 = cl_connector s" and "cl_conn s1 = None" and "cl_next s1 = cl_next s + 3"
proof -
  have n: "cl_conn s = None" "conns s = Map.empty"
    using o d by (auto simp: client_owns_def client_wf_def)
  define cn :: "'k cli_cb connection" where "cn = \<lparr>conn_channel = cl_next s + 1, on_read = None, on_write = None, on_close = None,
      read_buffer = Buffer_new, write_buffer = Plain Buffer_new, shut_down = False, conn_send_file = False\<rparr>"
  have cn: "conn_channel cn = cl_next s + 1" "\<exists>b. write_buffer cn = Plain b" by (simp_all add: cn_def)
  have sel: "conns s1 = [cl_next s \<mapsto> cn]" "chans s1 = (chans s)(cl_next s + 1 \<mapsto> Channel_new (Some lp) f)" "loops s1 = loops s" "world s1 = w"
    "cl_status s1 = kConnecting" "cl_connector s1 = cl_connector s" "cl_next s1 = cl_next s + 3" "cl_conn s1 = None"
    using n by (cases tls; simp add: s1 s0 cn_def TlsConnection_new_def Connection_new_def set_tls_def set_chan_def set_conn_def set_world_def)+
  have cf: "conn_fd s1 = [cl_next s \<mapsto> f]" by (simp add: conn_fd_def sel cn(1) Channel_new_def fun_eq_iff)
  have "client_wf (s1\<lparr>cl_conn := Some (cl_next s)\<rparr>)"
    using o cn by (auto simp: client_owns_def client_wf_def sel cf all_plain_def n less_Suc_eq split: if_splits)
  moreover have "fds_owned socks base (s1\<lparr>cl_conn := Some (cl_next s)\<rparr>)"
    using o f by (auto simp: client_owns_def fds_owned_def conn_fds_def timer_fds_def sel cf n Let_def split: option.splits)
  ultimately show "client_owns socks base (s1\<lparr>cl_conn := Some (cl_next s)\<rparr>)" by (simp add: client_owns_def)
  show "\<exists>cn. conns s1 (cl_next s) = Some cn \<and> conn_channel cn = cl_next s + 1" "cl_connector s1 = cl_connector s" "cl_conn s1 = None"
    "cl_next s1 = cl_next s + 3"
    using cn by (simp_all add: sel)
qed

lemma Timer_new_Inr:
  assumes t: "descriptors_tracked os cs socks" and tn: "Timer_new os cs lp b k s = Inr (tm, s1)"
  shows "\<exists>w l l' ch'. timer_fd tm \<notin> socks (world s) \<and> socks w = insert (timer_fd tm) (socks (world s)) \<and> timer_channel tm = b \<and>
     loops s lp = Some l \<and> wakeup_callback l' = wakeup_callback l \<and> s1 = set_chan b ch' (set_world w (set_loop lp l' s))"
proof -
  obtain r w0 where w0: "sys_timerfd_create cs (world s) = (r, w0)" by fastforce
  then obtain f where r: "r = Ret f" using tn by (cases r) (simp_all add: Timer_new_def)
  let ?s = "set_chan b (Channel_new (Some lp) f) (set_world w0 s)"
  obtain s2 ch where s2: "UpdateToLoop os b EPOLL_CTL_ADD ?s = Inr s2" and tm: "timer_fd tm = f" "timer_channel tm = b"
    and s1: "s1 = set_chan b (ch\<lparr>read_callback := Some (Client k)\<rparr>) s2"
    using tn w0 r by (auto simp: Timer_new_def sbind_Inr)
  have f: "f \<notin> socks (world s)" "socks w0 = insert f (socks (world s))" using descriptors_trackedD(6) [OF t] w0 r by blast+
  obtain lp' where "poller_called os lp' ?s s2" and lp': "lp' = lp"
    using s2 by (auto simp: UpdateToLoop_def sbind_Inr Channel_new_def dest: UpdateChannel_called)
  then obtain l n op g ev where l: "loops ?s lp = Some l"
    and e: "s2 = set_world (snd (sys_epoll_ctl os (poll_fd l) op g ev (world ?s))) (set_loop lp (l\<lparr>cur_poll_size := n\<rparr>) ?s)"
    unfolding poller_called_def by blast
  define w where "w = snd (sys_epoll_ctl os (poll_fd l) op g ev (world ?s))"
  have "socks w = socks w0" using socks_stableD(5) [OF descriptors_trackedD(1) [OF t]] by (simp add: w_def)
  moreover have "s1 = set_chan b (ch\<lparr>read_callback := Some (Client k)\<rparr>) (set_world w (set_loop lp (l\<lparr>cur_poll_size := n\<rparr>) s))"
    unfolding s1 e w_def [symmetric] by (simp add: set_chan_def set_world_def set_loop_def)
  moreover have "wakeup_callback (l\<lparr>cur_poll_size := n\<rparr>) = wakeup_callback l" by simp
  ultimately show ?thesis using f tm l by (metis (no_types, lifting) reactor_selectors)
qed

lemma conn_fd_other_chans:
  assumes "conns s' = conns s" and "\<And>c cn. conns s c = Some cn \<Longrightarrow> chans s' (conn_channel cn) = chans s (conn_channel cn)"
  shows "conn_fd s' = conn_fd s"
  using assms by (auto simp: conn_fd_def fun_eq_iff intro!: bind_option_cong)

lemma new_connector_owns:
  fixes s :: "('k, 'w, 'e) client"
  assumes t: "descriptors_tracked os cs socks" and o: "client_owns socks base s"
    and new: "Connector_new os cs a m addr tmo b s = Inr (cr, s1)" and rep: "replace_connector os cr' s1 = Inr s2"
    and cr': "cr_timer cr' = cr_timer cr" "cr_channel cr' = cr_channel cr" and ab: "a < cl_next s" "b < cl_next s"
    and b: "\<And>c cn. conns s c = Some cn \<Longrightarrow> conn_channel cn \<noteq> b"
    and old: "\<And>old c cn. cl_connector s = Some old \<Longrightarrow> conns s c = Some cn \<Longrightarrow> cr_channel old \<noteq> conn_channel cn"
  shows "client_owns socks base s2 \<and> conns s2 = conns s"
proof -
  obtain lp and tm :: "'k cli_cb timer" where tm: "Timer_new os cs lp b (Other TimerFired) s = Inr (tm, s1)"
    and cr: "timer_fd (cr_timer cr) = timer_fd tm" "timer_channel (cr_timer cr) = timer_channel tm" "cr_channel cr = a"
    using new by (auto simp: Connector_new_def sbind_Inr SetTimmerEventCallback_def split: option.splits)
  from Timer_new_Inr [OF t tm] obtain w l l' ch' where f: "timer_fd tm \<notin> socks (world s)" "socks w = insert (timer_fd tm) (socks (world s))"
    and b': "timer_channel tm = b" and l: "loops s lp = Some l" "wakeup_callback l' = wakeup_callback l"
    and s1: "s1 = set_chan b ch' (set_world w (set_loop lp l' s))" by blast
  have wf: "client_wf s" and fo: "fds_owned socks base s" using o by (simp_all add: client_owns_def)
  have b0: "\<forall>c cn. conns s c = Some cn \<longrightarrow> conn_channel cn \<noteq> b" using b by blast
  have sel1: "conns s1 = conns s" "chans s1 = (chans s)(b \<mapsto> ch')" "loops s1 = (loops s)(lp \<mapsto> l')" "world s1 = w" "cl_connector s1 = cl_connector s"
    "cl_conn s1 = cl_conn s" "cl_status s1 = cl_status s" "cl_next s1 = cl_next s" by (simp_all add: s1)
  show ?thesis
  proof (cases "cl_connector s")
    case None
    then have s2: "s2 = s1\<lparr>cl_connector := Some cr'\<rparr>" using rep sel1 by (simp add: replace_connector_def)
    have sel: "conns s2 = conns s" by (simp add: s2 sel1)
    have cf: "conn_fd s2 = conn_fd s" by (rule conn_fd_other_chans) (use b in \<open>auto simp: s2 sel1\<close>)
    have "client_wf s2"
      using wf b0 l ab cr cr' b' unfolding client_wf_def cf sel by (auto simp: s2 sel1 all_plain_def split: if_splits) blast
    moreover have "fds_owned socks base s2"
      using fo f None cr cr' unfolding fds_owned_def conn_fds_def timer_fds_def cf by (auto simp: s2 sel1 Let_def split: option.splits)
    ultimately show ?thesis using sel by (simp add: client_owns_def)
  next
    case (Some o')
    then obtain w2 where w2: "socket_close os (timer_fd (cr_timer o')) w = Inr w2"
      and s2: "s2 = set_world w2 (s1\<lparr>chans := (chans s1)(timer_channel (cr_timer o') := None, cr_channel o' := None), cl_connector := Some cr'\<rparr>)"
      using rep by (auto simp: replace_connector_def sel1 Timer_destroy_def sbind_Inr set_world_def)
    have sel: "conns s2 = conns s" by (simp add: s2 sel1)
    have "conn_channel cn \<notin> {b, timer_channel (cr_timer o'), cr_channel o'}" if "conns s c = Some cn" for c cn
      using b [OF that] old [OF Some that] wf Some that unfolding client_wf_def by fastforce
    then have cf: "conn_fd s2 = conn_fd s" by (intro conn_fd_other_chans) (auto simp: s2 sel1)
    have "socks w2 = socks w - {timer_fd (cr_timer o')}" by (rule socks_stableD(8) [OF descriptors_trackedD(1) [OF t] w2])
    then have "fds_owned socks base s2"
      using fo f Some cr cr' unfolding fds_owned_def conn_fds_def timer_fds_def cf by (auto simp: s2 sel1 set_world_def Let_def split: option.splits)
    moreover have "client_wf s2"
      using wf b0 l ab cr cr' b' unfolding client_wf_def cf sel by (auto simp: s2 sel1 all_plain_def set_world_def split: if_splits) blast
    ultimately show ?thesis using sel by (simp add: client_owns_def)
  qed
qed

lemma virtual_Init_owns:
  assumes "socks_stable os socks" and o: "client_owns socks base s" and "conns s c = Some cn" and i: "virtual_Init os c s = Inr s'"
  shows "client_owns socks base s'"
proof -
  have "conn_fd s c \<noteq> None" using o assms(3) by (auto simp: client_owns_def client_wf_def)
  then obtain ch where ch: "chans s (conn_channel cn) = Some ch" using assms(3) by (auto simp: conn_fd_def)
  from virtual_Init_Inr [OF i assms(1,3) refl ch] obtain w lp l l' ch' where
    l: "loops s lp = Some l" "wakeup_callback l' = wakeup_callback l" "socks w = socks (world s)" "ch_fd ch' = ch_fd ch"
    and s': "s' = set_chan (conn_channel cn) ch' (set_world w (set_loop lp l' s))" by blast
  have "client_owns socks base (set_world w (set_loop lp l' s))"
    by (rule client_owns_world [OF client_owns_shape [OF same_shape_sets(3) [OF l(1,2)] o]]) (simp add: l(3))
  then show ?thesis unfolding s' by (rule client_owns_chan) (simp_all add: ch l(4))
qed

lemma TcpClient_Connect_owns:
  fixes s :: "('k, 'w, 'e) client"
  assumes t: "descriptors_tracked os cs socks" and o: "client_owns socks base s" and c: "TcpClient_Connect os cs ssl s = Inr s'"
  shows "client_owns socks base s'"
proof (cases "cl_status s = kDisconnected")
  case True
  let ?c = "cl_next s" and ?a = "cl_next s + 1" and ?b = "cl_next s + 2"
  obtain f w where f: "socket_socket os True (ipv6 (target_addr s)) (world s) = Inr (f, w)"
    using c True by (cases "socket_socket os True (ipv6 (target_addr s)) (world s)") (auto simp: TcpClient_Connect_def)
  define s0 where "s0 = set_world w (s\<lparr>cl_status := kConnecting, cl_next := cl_next s + 3\<rparr>)"
  define s1 where "s1 = (if cl_ssl_ctx s then TlsConnection_new ssl (cl_loop s) f False ?c ?a s0 else Connection_new (cl_loop s) f False ?c ?a s0)"
  obtain s2 s3 s4 cr s5 s6 s7 where s2: "replace_connection os ?c s1 = Inr s2" and s3: "Connection_SetReadCallback ?c (map_option ClientUser (cl_on_read s)) s2 = Inr s3"
    and s4: "Connection_SetCloseCallback ?c (Some (ClientClosed f)) s3 = Inr s4"
    and s5: "Connector_new os cs ?a (cl_max_retry s) (target_addr s) (retry_initial_timeout s) ?b s4 = Inr (cr, s5)"
    and s6: "replace_connector os (Connector_SetConnectionFailureCallback (Connector_SetConnectionCallback cr)) s5 = Inr s6"
    and s7: "virtual_Init os ?c s6 = Inr s7" "Connector_Start os cs s7 = Inr s'"
    using c True f unfolding TcpClient_Connect_def Let_def s0_def s1_def by (auto simp: sbind_Inr)
  note n = new_connection_owns [OF o True _ _ s1_def s0_def] and fs = descriptors_trackedD(2) [OF t f]
  obtain cn where cn: "conns s1 ?c = Some cn" "conn_channel cn = ?a" using n(2) fs by blast
  have e2: "s2 = s1\<lparr>cl_conn := Some ?c\<rparr>" using s2 n(4) fs by (simp add: replace_connection_def)
  have o2: "client_owns socks base s2" unfolding e2 using n(1) fs by blast
  have e4: "s4 = set_conn ?c (cn\<lparr>on_read := map_option ClientUser (cl_on_read s), on_close := Some (ClientClosed f)\<rparr>) s2"
    using s3 s4 cn(1) by (auto simp: Connection_SetReadCallback_def Connection_SetCloseCallback_def sbind_Inr get_conn_Inr e2 set_conn_def)
  have o4: "client_owns socks base s4" unfolding e4 by (rule client_owns_conn [OF o2]) (simp_all add: e2 cn)
  have nx: "cl_next s4 = cl_next s + 3" "cl_connector s4 = cl_connector s" using n(3,5) fs by (simp_all add: e4 e2)
  have dm: "dom (conns s4) = {?c}" using o4 by (simp add: client_owns_def client_wf_def e4 e2)
  have only: "conn_channel x = ?a" if "conns s4 y = Some x" for x y
  proof -
    have "y = ?c" using dm that by (metis domI singletonD)
    then show ?thesis using that cn by (auto simp: e4 e2)
  qed
  have old: "cr_channel old \<noteq> ?a" if "cl_connector s = Some old" for old using o that by (force simp: client_owns_def client_wf_def)
  from new_connector_owns [OF t o4 s5 s6] only old have o6: "client_owns socks base s6" "conns s6 = conns s4"
    by (auto simp: nx Connector_SetConnectionFailureCallback_def Connector_SetConnectionCallback_def)
  have "\<exists>x. conns s6 ?c = Some x" using o6(2) by (simp add: e4)
  then have "client_owns socks base s7" using virtual_Init_owns [OF descriptors_trackedD(1) [OF t] o6(1) _ s7(1)] by blast
  then show ?thesis using Connector_Start_owns [OF t _ s7(2)] by blast
qed (use c o in \<open>simp add: TcpClient_Connect_def\<close>)

lemma TcpClient_Disconnect_owns:
  assumes st: "socks_stable os socks" and o: "client_owns socks base s" and c: "TcpClient_Disconnect os s = Inr s'"
  shows "client_owns socks base s'"
proof (cases "cl_status s = kConnected")
  case True
  have conn: "cl_conn s \<noteq> None" using o True by (simp add: client_owns_def client_wf_def)
  obtain f where s': "s' = set_world (socket_shutdown_write os f (world s)) (s\<lparr>cl_status := kConnecting\<rparr>)"
    using c True by (auto simp: TcpClient_Disconnect_def sbind_Inr Channel_ShutDownWrite_def split: option.splits)
  have "client_owns socks base (s\<lparr>cl_status := kConnecting\<rparr>)" by (rule client_owns_status [OF o conn]) simp
  then show ?thesis unfolding s' by (rule client_owns_world) (simp add: socks_stableD(3) [OF st])
qed (use c o in \<open>simp add: TcpClient_Disconnect_def\<close>)

text \<open>The destructor closes the timer and the socket.\<close>

lemma TcpClient_destroy_closes:
  assumes st: "socks_stable os socks" and o: "client_owns socks base s" and d: "TcpClient_destroy os s = Inr s'"
  shows "socks (world s') = base"
proof -
  obtain s1 s3 where s1: "TcpClient_Disconnect os s = Inr s1"
    and s3: "(case cl_connector s1 of None \<Rightarrow> Inr s1 | Some cr \<Rightarrow> sbind (Timer_destroy os (cr_timer cr) s1) (\<lambda>s2.
       Inr (s2\<lparr>chans := (if cl_conn s2 = None then (chans s2)(cr_channel cr := None) else chans s2), cl_connector := None\<rparr>))) = Inr s3"
    and s': "(case cl_conn s3 of None \<Rightarrow> Inr (s3\<lparr>cl_ssl_ctx := False\<rparr>)
       | Some c \<Rightarrow> sbind (virtual_destroy os c s3) (\<lambda>s4. Inr (s4\<lparr>cl_conn := None, cl_ssl_ctx := False\<rparr>))) = Inr s'"
    using d unfolding TcpClient_destroy_def sbind_Inr by blast
  have o1: "client_owns socks base s1" by (rule TcpClient_Disconnect_owns [OF st o s1])
  have o3: "client_owns socks base s3"
  proof (cases "cl_connector s1")
    case (Some cr)
    then obtain w where w: "socket_close os (timer_fd (cr_timer cr)) (world s1) = Inr w"
      and e: "s3 = set_world w (s1\<lparr>chans := (let m = (chans s1)(timer_channel (cr_timer cr) := None) in
        if cl_conn s1 = None then m(cr_channel cr := None) else m), cl_connector := None\<rparr>)"
      using s3 by (auto simp: Timer_destroy_def sbind_Inr set_world_def Let_def)
    have none: "conns s1 c = None" if "cl_conn s1 = None" for c
      using o1 that unfolding client_owns_def client_wf_def by (auto simp: dom_def)
    have "conn_channel cn \<noteq> timer_channel (cr_timer cr)" if "conns s1 c = Some cn" for c cn
      using o1 Some that unfolding client_owns_def client_wf_def by fastforce
    then have cf: "conn_fd s3 = conn_fd s1" by (intro conn_fd_other_chans) (auto simp: e set_world_def Let_def none)
    have sel: "conns s3 = conns s1" "cl_connector s3 = None" "cl_conn s3 = cl_conn s1" "world s3 = w" "cl_status s3 = cl_status s1"
      "loops s3 = loops s1" "cl_next s3 = cl_next s1" by (simp_all add: e set_world_def)
    have "socks w = socks (world s1) - {timer_fd (cr_timer cr)}" by (rule socks_stableD(8) [OF st w])
    then have "fds_owned socks base s3"
      using o1 Some unfolding client_owns_def fds_owned_def conn_fds_def timer_fds_def cf sel by (auto simp: Let_def split: option.splits)
    moreover have "client_wf s3"
      using o1 unfolding client_owns_def client_wf_def cf sel by (auto simp: sel all_plain_def e set_world_def split: if_splits)
    ultimately show ?thesis by (simp add: client_owns_def)
  qed (use s3 o1 in simp)
  have n: "cl_connector s3 = None" using s3 by (auto simp: sbind_Inr split: option.splits)
  show ?thesis
  proof (cases "cl_conn s3")
    case None
    then show ?thesis using s' o3 n by (auto simp: client_owns_def fds_owned_def conn_fds_def timer_fds_def)
  next
    case (Some c)
    then obtain s4 where s4: "virtual_destroy os c s3 = Inr s4" "world s' = world s4" using s' by (auto simp: sbind_Inr)
    have "all_plain s3" using o3 by (simp add: client_owns_def client_wf_def)
    from virtual_destroy_Inr [OF s4(1) this] obtain cn ch w where "conns s3 c = Some cn" "chans s3 (conn_channel cn) = Some ch"
      and w: "socket_close os (ch_fd ch) (world s3) = Inr w" "world s4 = w" by fastforce
    then have "conn_fd s3 c = Some (ch_fd ch)" by (simp add: conn_fd_def)
    then show ?thesis
      using o3 n Some s4(2) w(2) socks_stableD(8) [OF st w(1)]
      by (auto simp: client_owns_def fds_owned_def conn_fds_def timer_fds_def Let_def)
  qed
qed

section \<open>A running client\<close>

text \<open>
  The calls of the application and the handling of events, in any order. The calls are made by the thread
  that runs the loop.
\<close>

inductive cli_step ::
  "'w posix \<Rightarrow> 'w client_calls \<Rightarrow> 'e openssl \<Rightarrow> (bool \<Rightarrow> string \<Rightarrow> string option) \<Rightarrow> byte_order \<Rightarrow> ('k, 'w, 'e) cli_app \<Rightarrow>
     ('k, 'w, 'e) client \<Rightarrow> ('k, 'w, 'e) client \<Rightarrow> bool"
  for os cs ssl ntop e app where
  connect: "TcpClient_Connect os cs ssl s = Inr s' \<Longrightarrow> cli_step os cs ssl ntop e app s s'"
| disconnect: "TcpClient_Disconnect os s = Inr s' \<Longrightarrow> cli_step os cs ssl ntop e app s s'"
| send: "virtual_Send os ssl c buf s = Some (Inr s') \<Longrightarrow> cli_step os cs ssl ntop e app s s'"
| poll: "Poll os lp s = Inr (act, s') \<Longrightarrow> cli_step os cs ssl ntop e app s s'"
| event: "HandleEvents os (virtual_run os ssl (cli_user os cs ntop e app)) a s = Some (Inr s') \<Longrightarrow> cli_step os cs ssl ntop e app s s'"
| set_read: "cli_step os cs ssl ntop e app s (TcpClient_SetReadCallback k s)"
| set_write: "cli_step os cs ssl ntop e app s (TcpClient_SetWriteCallback k s)"
| set_connection: "cli_step os cs ssl ntop e app s (TcpClient_SetConnectionCallback k s)"

interpretation cli: handler_invariant os ssl socks "cli_user os cs ntop e app"
  "\<lambda>s. descriptors_tracked os cs socks \<and> cli_app_keeps socks app \<and> client_owns socks base s"
  for os :: "'w posix" and cs and ssl :: "'e openssl" and socks ntop e and app :: "('k, 'w, 'e) cli_app" and base
proof (unfold_locales, goal_cases)
  case (3 s s')
  then show ?case using client_owns_shape by blast
next
  case (5 s c cn u)
  then have "keeps (client_owns socks base) (cli_user os cs ntop e app u c s)" using cli_user_owns by blast
  then show ?case using 5 by (simp add: keeps_def)
next
  case (6 s a ch u)
  then have "keeps (client_owns socks base) (cli_user os cs ntop e app u 0 s)" using cli_user_owns by blast
  then show ?case using 6 by (simp add: keeps_def)
qed (auto simp: client_owns_def client_wf_def descriptors_trackedD(1))

lemma cli_step_owns:
  assumes "cli_step os cs ssl ntop e app s s'" and t: "descriptors_tracked os cs socks" and a: "cli_app_keeps socks app" and o: "client_owns socks base s"
  shows "client_owns socks base s'"
  using assms(1)
proof cases
  case (send c buf)
  have "kept socks s s" using o by (simp add: kept_def client_owns_def client_wf_def)
  from keepsD [OF virtual_Send_kept [OF descriptors_trackedD(1) [OF t] this] send] show ?thesis
    using client_owns_shape o unfolding kept_def by blast
next
  case (poll lp act)
  then show ?thesis using cli.Poll_I [of os cs socks app base s lp act s'] t a o by blast
next
  case (event a)
  then show ?thesis using keepsD [OF cli.HandleEvents_I event] assms by blast
next
  case connect
  then show ?thesis by (rule TcpClient_Connect_owns [OF t o])
next
  case disconnect
  then show ?thesis by (rule TcpClient_Disconnect_owns [OF descriptors_trackedD(1) [OF t] o])
qed (simp_all add: TcpClient_SetReadCallback_def TcpClient_SetWriteCallback_def TcpClient_SetConnectionCallback_def client_owns_callbacks o)

section \<open>Properties\<close>

text \<open>A network without connections, in which no address from \<open>n\<close> on is in use.\<close>

definition fresh_net :: "addr \<Rightarrow> ('u, 'w, 'e) tls_net \<Rightarrow> bool" where
  "fresh_net n net \<longleftrightarrow>
     conns net = Map.empty \<and> (\<forall>a. chans net a \<noteq> None \<longrightarrow> a < n) \<and> (\<forall>lp l. loops net lp = Some l \<longrightarrow> wakeup_callback l = None)"

text \<open>
  Property C5. A client never leaks a descriptor and never uses one twice. In every state it reaches, through calls of
  the application and events in any order and whatever the kernel answers, it is disconnected exactly
  if it has no connection, and the open descriptors are those that were open before, the socket of its
  connection, and the timer of its connector, all different. When the client is destroyed the open
  descriptors are those that were open before. The user's callbacks are assumed to use connections
  through \<open>Send\<close> and the like.
\<close>

theorem client_owns_descriptors:
  assumes "descriptors_tracked os cs socks" and "cli_app_keeps socks app" and "fresh_net next net"
    and "TcpClient_new ctx_new target lp t use_ssl m next net = Inr s0" and "(cli_step os cs ssl ntop e app)\<^sup>*\<^sup>* s0 s"
  shows "(cl_status s = kDisconnected \<longleftrightarrow> cl_conn s = None) \<and> dom (conns s) = set_option (cl_conn s) \<and>
     fds_owned socks (socks (world net)) s \<and> (\<forall>s'. TcpClient_destroy os s = Inr s' \<longrightarrow> socks (world s') = socks (world net))"
proof -
  have "client_owns socks (socks (world net)) s0"
    using assms(3,4)
    by (auto simp: TcpClient_new_def Let_def fresh_net_def client_owns_def client_wf_def fds_owned_def conn_fds_def timer_fds_def all_plain_def conn_fd_def
        split: if_splits)
  with assms(5) have o: "client_owns socks (socks (world net)) s"
    by (induction rule: rtranclp_induct) (auto intro: cli_step_owns [OF _ assms(1,2)])
  then show ?thesis
    using TcpClient_destroy_closes [OF descriptors_trackedD(1) [OF assms(1)] o] by (simp add: client_owns_def client_wf_def)
qed

text \<open>A kernel that refuses every connection and keeps a table of descriptors, of which a new one is greater than all.\<close>

record cli_kernel =
  ck_open :: "fd list"
  ck_timers :: "(fd \<times> itimerspec) list"

definition ck_new :: "cli_kernel \<Rightarrow> fd sysres \<times> cli_kernel" where
  "ck_new w = (Ret (fresh_fd (ck_open w)), w\<lparr>ck_open := fresh_fd (ck_open w) # ck_open w\<rparr>)"

definition ck_posix :: "cli_kernel posix" where
  "ck_posix =
     \<lparr>sys_read = (\<lambda>f n w. (Ret (replicate n NUL), w)), sys_write = (\<lambda>f bs w. (Ret (length bs), w)),
      sys_open = (\<lambda>p w. (Err ENOENT, w)), sys_fsize = (\<lambda>f w. 0), sys_sendfile = (\<lambda>f g off n w. (Err EBADF, w)),
      sys_close = (\<lambda>f w. (Ret (), w\<lparr>ck_open := filter (\<lambda>g. g \<noteq> f) (ck_open w)\<rparr>)),
      sys_shutdown_write = (\<lambda>f w. w), sys_shutdown_read = (\<lambda>f w. w),
      sys_pipe = (\<lambda>w. (Err EBADF, w)), sys_epoll_create = (\<lambda>w. (Err EBADF, w)), sys_epoll_ctl = (\<lambda>ep op f ev w. (Ret (), w)),
      sys_epoll_wait = (\<lambda>ep n w. (Ret [], w)), sys_socket = (\<lambda>tcp v6 w. ck_new w), sys_reuseaddr = (\<lambda>f w. (Ret (), w)),
      sys_bind = (\<lambda>f a w. (Ret (), w)), sys_listen = (\<lambda>f n w. (Ret (), w)), sys_accept = (\<lambda>f w. (Err EAGAIN, w))\<rparr>"

definition ck_calls :: "cli_kernel client_calls" where
  "ck_calls =
     \<lparr>sys_connect = (\<lambda>f a w. (Err ECONNREFUSED, w)), sys_so_error = (\<lambda>f w. (Ret 111, w)),
      sys_getsockname = (\<lambda>f w. (Err ENOTCONN, w)), sys_getpeername = (\<lambda>f w. (Err ENOTCONN, w)),
      sys_timerfd_create = ck_new, sys_timerfd_settime = (\<lambda>f v w. (Ret (), w\<lparr>ck_timers := (f, v) # ck_timers w\<rparr>))\<rparr>"

lemma ck_tracked: "descriptors_tracked ck_posix ck_calls (\<lambda>w. set (ck_open w))"
  by (auto simp: descriptors_tracked_def socks_stable_def ck_posix_def ck_calls_def ck_new_def fresh_fd_notin)

lemma ck_refusing: "refusing ck_posix ck_calls (\<lambda>w. map_of (ck_timers w)) (\<lambda>w f. None)"
  by (simp add: refusing_def ck_posix_def ck_calls_def ck_new_def)

definition ck_net :: "(nat cli_cb, cli_kernel, unit) tls_net" where
  "ck_net = \<lparr>chans = Map.empty,
     loops = [1 \<mapsto> \<lparr>poll_fd = 4, cur_poll_size = 2, pipe_fds = (5, 6), pipe_channel = 2, wakeup_callback = None, loop_running = True, pending_tasks = []\<rparr>],
     world = \<lparr>ck_open = [0, 1, 2, 4, 5, 6], ck_timers = []\<rparr>, conns = Map.empty, tls_parts = Map.empty\<rparr>"

definition ck_app :: "(nat, cli_kernel, unit) cli_app" where
  "ck_app k c s = virtual_Send ck_posix no_ssl c ''hello'' s"

lemma ck_app_keeps: "cli_app_keeps (\<lambda>w. set (ck_open w)) ck_app"
  unfolding cli_app_keeps_def ck_app_def
proof (intro allI impI)
  fix c and s :: "(nat, cli_kernel, unit) client"
  assume "all_plain s"
  then have "keeps (kept (\<lambda>w. set (ck_open w)) s) (virtual_Send ck_posix no_ssl c ''hello'' s)"
    by (intro virtual_Send_kept [OF descriptors_trackedD(1) [OF ck_tracked]]) (simp add: kept_def)
  then show "keeps (same_shape (\<lambda>w. set (ck_open w)) s) (virtual_Send ck_posix no_ssl c ''hello'' s)"
    by (rule keeps_mono) (simp add: kept_def)
qed

theorem client_owns_descriptors_witness:
  "\<exists>s0 s f g. TcpClient_new True sample_target 1 200 False 2 3 ck_net = Inr s0 \<and> TcpClient_Connect ck_posix ck_calls no_ssl s0 = Inr s \<and>
     cl_status s = kConnecting \<and> set (ck_open (world s)) = {0, 1, 2, 4, 5, 6, f, g} \<and> f \<noteq> g \<and> f \<notin> {0, 1, 2, 4, 5, 6} \<and> g \<notin> {0, 1, 2, 4, 5, 6}"
proof -
  obtain s0 where s0: "TcpClient_new True sample_target 1 200 False 2 3 ck_net = Inr s0" by (simp add: TcpClient_new_def)
  then have st: "cl_status s0 = kDisconnected" "cl_conn s0 = None" "cl_connector s0 = None" "\<exists>l. loops s0 (cl_loop s0) = Some l"
    "cl_max_retry s0 = 2" "retry_initial_timeout s0 = 200"
    by (auto simp: TcpClient_new_def ck_net_def)
  then obtain l where "loops s0 (cl_loop s0) = Some l" by blast
  from connect_then_fires [OF ck_refusing st(1-3) this st(5), of "max 200 5" no_ssl "\<lambda>v b. None" Little_Endian ck_app] st(6) obtain s s' where
    s: "TcpClient_Connect ck_posix ck_calls no_ssl s0 = Inr s"
      "report (\<lambda>w f. None) ck_posix ck_calls no_ssl (\<lambda>v b. None) Little_Endian ck_app s = Some (Inr s')"
      "after_failure (\<lambda>w. map_of (ck_timers w)) 2 (max 200 5) 0 s'" by (auto dest: spec [of _ 0])
  then have c: "connecting 2 (max 200 5) 1 s" by (auto simp: report_def obind_Inr after_failure_def)
  have "fresh_net 3 ck_net" by (simp add: fresh_net_def ck_net_def)
  moreover have "(cli_step ck_posix ck_calls no_ssl (\<lambda>v b. None) Little_Endian ck_app)\<^sup>*\<^sup>* s0 s"
    by (rule r_into_rtranclp, rule cli_step.connect [OF s(1)])
  ultimately have o: "fds_owned (\<lambda>w. set (ck_open w)) {0, 1, 2, 4, 5, 6} s"
    using client_owns_descriptors [OF ck_tracked ck_app_keeps _ s0] by (simp add: ck_net_def)
  obtain f g where "conn_fds s = [f]" "timer_fds s = [g]"
    using c by (auto simp: connecting_def conn_fds_def timer_fds_def conn_fd_def)
  then have "set (ck_open (world s)) = {0, 1, 2, 4, 5, 6, f, g} \<and> f \<noteq> g \<and> f \<notin> {0, 1, 2, 4, 5, 6} \<and> g \<notin> {0, 1, 2, 4, 5, 6}"
    using o by (simp add: fds_owned_def insert_commute)
  moreover have "cl_status s = kConnecting" using c by (simp add: connecting_def)
  ultimately show ?thesis using s0 s(1) by blast
qed

end
