(* ===== verification/Kqueue_Poller.thy ===== *)
theory Kqueue_Poller
  imports Event_Channel
begin

text \<open>
  The poller of \<^verbatim>\<open>EventPoller.cpp\<close> as it is built on FreeBSD and macOS, on \<open>kqueue\<close>, with \<open>EnableWrite\<close> of \<^verbatim>\<open>Channel.cpp\<close>, and
  its comparison with the poller on \<open>epoll\<close>. A channel has one registration per filter instead of one
  mask of events.
\<close>

section \<open>Calls of the kernel\<close>

datatype kfilter = EVFILT_READ | EVFILT_WRITE | EVFILT_TIMER | EVFILT_USER

type_synonym kflags = "16 word"

definition EV_ADD :: kflags where "EV_ADD = 0x1"

definition EV_DELETE :: kflags where "EV_DELETE = 0x2"

definition EV_ENABLE :: kflags where "EV_ENABLE = 0x4"

definition EV_DISABLE :: kflags where "EV_DISABLE = 0x8"

definition EV_ERROR :: kflags where "EV_ERROR = 0x4000"

lemmas ev_flags = EV_ADD_def EV_DELETE_def EV_ENABLE_def EV_DISABLE_def EV_ERROR_def

record kevent =
  ke_ident :: fd
  ke_filter :: kfilter
  ke_flags :: kflags
  ke_data :: u64
  ke_udata :: addr

text \<open>\<open>kevent_change\<close> is \<open>kevent\<close> with one change and no room for events, \<open>kevent_wait\<close> with no change.\<close>

record 'w kqueue =
  kq_create :: "'w \<Rightarrow> fd sysres \<times> 'w"
  kevent_change :: "fd \<Rightarrow> kevent \<Rightarrow> 'w \<Rightarrow> nat sysres \<times> 'w"
  kevent_wait :: "fd \<Rightarrow> nat \<Rightarrow> 'w \<Rightarrow> kevent list sysres \<times> 'w"

section \<open>The poller\<close>

definition flt_2_stat :: "kfilter \<rightharpoonup> u32" where
  "flt_2_stat = [EVFILT_READ \<mapsto> kPollIn, EVFILT_WRITE \<mapsto> kPollOut, EVFILT_TIMER \<mapsto> kPollIn, EVFILT_USER \<mapsto> kPollErr]"

definition stat_2_flt :: "u32 \<rightharpoonup> kfilter" where
  "stat_2_flt = [kPollIn \<mapsto> EVFILT_READ, kPollOut \<mapsto> EVFILT_WRITE, kPollErr \<mapsto> EVFILT_USER]"

definition valid_filters :: "kfilter list" where
  "valid_filters = [EVFILT_READ, EVFILT_WRITE, EVFILT_TIMER]"

definition kqueue_ctl :: "'w kqueue \<Rightarrow> fd \<Rightarrow> fd \<Rightarrow> kfilter \<Rightarrow> kflags \<Rightarrow> addr \<Rightarrow> 'w \<Rightarrow> (int \<times> 'w) res" where
  "kqueue_ctl kq k ident flt flags udata w =
     (case kevent_change kq k \<lparr>ke_ident = ident, ke_filter = flt, ke_flags = flags, ke_data = 0, ke_udata = udata\<rparr> w of
        (Ret n, w') \<Rightarrow> Inr (int n, w')
      | (Err e, w') \<Rightarrow> (if e = EBADF \<or> e = ENOENT \<or> e = EINTR then Inr (-1, w') else Inl (EXIT ''[EventPoller] kevent del'')))"

text \<open>The loop of \<open>UpdateChannel\<close> takes the lowest bit off the mask until it is zero.\<close>

lemma lowest_bit_off: "mask XOR (mask AND - mask) = mask AND (mask - 1)" for mask :: u32
  by (rule bit_word_eqI) (auto simp: bit_simps minus_eq_not_minus_1)

lemma lowest_bit_less: "mask \<noteq> 0 \<Longrightarrow> unat (mask XOR (mask AND - mask)) < unat mask" for mask :: u32
proof -
  assume n: "mask \<noteq> 0"
  have "mask AND (mask - 1) \<le> mask - 1" by (simp add: word_and_le1)
  then have "unat (mask AND (mask - 1)) \<le> unat (mask - 1)" by (simp add: word_le_nat_alt)
  also have "\<dots> < unat mask" using n by (simp add: unat_minus_one unat_gt_0)
  finally show ?thesis by (simp add: lowest_bit_off)
qed

function update_filters :: "'w kqueue \<Rightarrow> fd \<Rightarrow> fd \<Rightarrow> addr \<Rightarrow> kflags \<Rightarrow> u32 \<Rightarrow> int \<Rightarrow> 'w \<Rightarrow> (int \<times> 'w) res" where
  "update_filters kq k f a op event_mask ret w =
     (if event_mask = 0 then Inr (ret, w)
      else
        let status = event_mask AND - event_mask; rest = event_mask XOR status in
        case stat_2_flt status of
          None \<Rightarrow> update_filters kq k f a op rest ret w
        | Some flt \<Rightarrow>
           (case kqueue_ctl kq k f flt op a w of
              Inl x \<Rightarrow> Inl x
            | Inr (n, w') \<Rightarrow> update_filters kq k f a op rest (if 0 < n then n else ret) w'))"
  by pat_completeness auto
termination
  by (relation "measure (\<lambda>(kq, k, f, a, op, mask, ret, w). unat mask)") (auto simp: lowest_bit_less)

declare update_filters.simps [simp del]

definition UpdateChannel_kq :: "'w kqueue \<Rightarrow> addr \<Rightarrow> addr \<Rightarrow> kflags \<Rightarrow> ('c, 'w, 'z) reactor_scheme \<Rightarrow> ('c, 'w, 'z) reactor_scheme res" where
  "UpdateChannel_kq kq lp a op s =
     sbind (get_chan a s) (\<lambda>ch.
     sbind (get_loop lp s) (\<lambda>l.
     sbind (update_filters kq (poll_fd l) (ch_fd ch) a op (events ch) (-1) (world s)) (\<lambda>(ret, w).
       Inr (set_world w (if 0 \<le> ret then set_loop lp (l\<lparr>cur_poll_size := cur_poll_size l + 1\<rparr>) s else s)))))"

fun delete_filters :: "'w kqueue \<Rightarrow> fd \<Rightarrow> fd \<Rightarrow> kfilter list \<Rightarrow> int \<Rightarrow> 'w \<Rightarrow> (int \<times> 'w) res" where
  "delete_filters kq k f [] ret w = Inr (ret, w)"
| "delete_filters kq k f (flt # flts) ret w =
     sbind (kqueue_ctl kq k f flt EV_DELETE 0 w) (\<lambda>(n, w'). delete_filters kq k f flts (if 0 < n then n else ret) w')"

definition RemoveChannel_kq :: "'w kqueue \<Rightarrow> addr \<Rightarrow> fd \<Rightarrow> ('c, 'w, 'z) reactor_scheme \<Rightarrow> ('c, 'w, 'z) reactor_scheme res" where
  "RemoveChannel_kq kq lp f s =
     sbind (get_loop lp s) (\<lambda>l.
     sbind (delete_filters kq (poll_fd l) f valid_filters (-1) (world s)) (\<lambda>(ret, w).
       Inr (set_world w (if 0 \<le> ret then set_loop lp (l\<lparr>cur_poll_size := cur_poll_size l - 1\<rparr>) s else s))))"

text \<open>An event with the error flag is recorded in its channel, but the channel is not listed.\<close>

fun mark_ready_kq :: "kevent list \<Rightarrow> ('c, 'w, 'z) reactor_scheme \<Rightarrow> (addr list \<times> ('c, 'w, 'z) reactor_scheme) res" where
  "mark_ready_kq [] s = Inr ([], s)"
| "mark_ready_kq (ev # rest) s =
     sbind (get_chan (ke_udata ev) s) (\<lambda>ch.
       if ke_flags ev AND EV_ERROR \<noteq> 0 then mark_ready_kq rest (set_chan (ke_udata ev) (SetRevents kPollErr ch) s)
       else
         let evt = (case flt_2_stat (ke_filter ev) of None \<Rightarrow> 0 | Some st \<Rightarrow> st) in
         sbind (mark_ready_kq rest (set_chan (ke_udata ev) (SetRevents evt ch) s)) (\<lambda>(active, s'). Inr (ke_udata ev # active, s')))"

definition Poll_kq :: "'w kqueue \<Rightarrow> addr \<Rightarrow> ('c, 'w, 'z) reactor_scheme \<Rightarrow> (addr list \<times> ('c, 'w, 'z) reactor_scheme) res" where
  "Poll_kq kq lp s =
     sbind (get_loop lp s) (\<lambda>l.
       case kevent_wait kq (poll_fd l) kPollLimit (world s) of
         (Err e, w) \<Rightarrow> (if e = EINTR then Inr ([], set_world w s) else Inl (EXIT ''[EventPoller] kevent poll''))
       | (Ret evs, w) \<Rightarrow> mark_ready_kq evs (set_world w s))"

definition UpdateEvent :: "'w kqueue \<Rightarrow> addr \<Rightarrow> kevent \<Rightarrow> ('c, 'w, 'z) reactor_scheme \<Rightarrow> (nat sysres \<times> ('c, 'w, 'z) reactor_scheme) res" where
  "UpdateEvent kq lp ev s =
     sbind (get_loop lp s) (\<lambda>l. case kevent_change kq (poll_fd l) ev (world s) of (r, w) \<Rightarrow> Inr (r, set_world w s))"

text \<open>The constructor makes the pipe, whose channel is registered for reading.\<close>

definition Channel_new_kq :: "addr option \<Rightarrow> fd \<Rightarrow> 'c channel" where
  "Channel_new_kq lp f = (Channel_new lp f)\<lparr>events := kPollIn\<rparr>"

definition EventLoop_new_kq :: "'w posix \<Rightarrow> 'w kqueue \<Rightarrow> addr \<Rightarrow> addr \<Rightarrow> ('c, 'w, 'z) reactor_scheme \<Rightarrow> ('c, 'w, 'z) reactor_scheme res" where
  "EventLoop_new_kq os kq lp a s =
     (case sys_pipe os (world s) of
        (Err _, w) \<Rightarrow> Inl (EXIT ''pipe2'')
      | (Ret (r, wr), w) \<Rightarrow>
         (case kq_create kq w of
            (Err _, w') \<Rightarrow> Inl (EXIT ''[EventPoller] kqueue'')
          | (Ret k, w') \<Rightarrow>
             let l = \<lparr>poll_fd = k, cur_poll_size = 0, pipe_fds = (r, wr), pipe_channel = a, wakeup_callback = None, loop_running = False, pending_tasks = []\<rparr>;
                 s1 = set_loop lp l (set_world w' (set_chan a ((Channel_new_kq None r)\<lparr>read_callback := Some (PipeRead lp)\<rparr>) s)) in
             sbind (UpdateChannel_kq kq lp a EV_ADD s1) (\<lambda>s2.
             sbind (get_loop lp s2) (\<lambda>l2. Inr (set_loop lp (l2\<lparr>cur_poll_size := cur_poll_size l2 + 1\<rparr>) s2)))))"

definition UpdateToLoop_kq :: "'w kqueue \<Rightarrow> addr \<Rightarrow> kflags \<Rightarrow> ('c, 'w, 'z) reactor_scheme \<Rightarrow> ('c, 'w, 'z) reactor_scheme res" where
  "UpdateToLoop_kq kq a op s =
     sbind (get_chan a s) (\<lambda>ch.
       case ch_loop ch of None \<Rightarrow> Inl (UB ''null loop'') | Some lp \<Rightarrow> UpdateChannel_kq kq lp a op s)"

definition EnableWrite_kq :: "'w kqueue \<Rightarrow> addr \<Rightarrow> bool \<Rightarrow> ('c, 'w, 'z) reactor_scheme \<Rightarrow> ('c, 'w, 'z) reactor_scheme res" where
  "EnableWrite_kq kq a enable s =
     sbind (get_chan a s) (\<lambda>ch.
       UpdateToLoop_kq kq a (if enable then EV_ADD OR EV_ENABLE else EV_DISABLE) (set_chan a (ch\<lparr>events := kPollOut\<rparr>) s))"

definition IsReading_kq :: "'c channel \<Rightarrow> bool" where
  "IsReading_kq ch \<longleftrightarrow> events ch AND kPollIn \<noteq> 0"

text \<open>Without \<open>epoll\<close> the handler has no case for a hangup; an event for reading is the only one that calls the read callback.\<close>

definition HandleEvents_kq ::
  "'w posix \<Rightarrow> ('c, 'w, 'z) runner \<Rightarrow> addr \<Rightarrow> ('c, 'w, 'z) reactor_scheme \<Rightarrow> ('c, 'w, 'z) reactor_scheme res option" where
  "HandleEvents_kq os run a s =
     obind (Some (get_chan a s)) (\<lambda>ch.
       let evts = revents ch; s1 = set_chan a (ch\<lparr>revents := 0\<rparr>) s in
       if evts AND kPollErr \<noteq> 0 then call os run (error_callback ch) s1
       else
         obind (if evts AND kPollOut \<noteq> 0 then call os run (write_callback ch) s1 else Some (Inr s1)) (\<lambda>s2.
         if evts AND kPollIn \<noteq> 0
         then obind (Some (get_chan a s2)) (\<lambda>ch2. call os run (read_callback ch2) s2)
         else Some (Inr s2)))"

fun handle_all_kq ::
  "'w posix \<Rightarrow> ('c, 'w, 'z) runner \<Rightarrow> addr list \<Rightarrow> ('c, 'w, 'z) reactor_scheme \<Rightarrow> ('c, 'w, 'z) reactor_scheme res option" where
  "handle_all_kq os run [] s = Some (Inr s)"
| "handle_all_kq os run (a # as) s = obind (HandleEvents_kq os run a s) (handle_all_kq os run as)"

definition loop_pass_kq ::
  "'w posix \<Rightarrow> 'w kqueue \<Rightarrow> ('c, 'w, 'z) runner \<Rightarrow> addr \<Rightarrow> ('c, 'w, 'z) reactor_scheme \<Rightarrow> ('c, 'w, 'z) reactor_scheme res option" where
  "loop_pass_kq os kq run lp s = obind (Some (Poll_kq kq lp s)) (\<lambda>(active, s'). handle_all_kq os run active s')"

section \<open>What arming a channel promises\<close>

text \<open>
  A poller lets a channel be armed for writing and disarmed again; \<open>ok\<close> says that the channel is registered, and
  \<open>armed\<close> whether the kernel is asked for write events.
\<close>

fun enable_all :: "(bool \<Rightarrow> 's \<Rightarrow> 's res) \<Rightarrow> bool list \<Rightarrow> 's \<Rightarrow> 's res" where
  "enable_all enable [] s = Inr s"
| "enable_all enable (b # bs) s = sbind (enable b s) (enable_all enable bs)"

locale write_arming =
  fixes enable :: "bool \<Rightarrow> 's \<Rightarrow> 's res" and ok :: "'s \<Rightarrow> bool" and armed :: "'s \<Rightarrow> bool"
  assumes enable: "ok s \<Longrightarrow> enable b s = Inr s' \<Longrightarrow> ok s' \<and> (armed s' \<longleftrightarrow> b)"
begin

lemma enable_all_ok: "ok s \<Longrightarrow> enable_all enable bs s = Inr s' \<Longrightarrow> ok s' \<and> (bs \<noteq> [] \<longrightarrow> (armed s' \<longleftrightarrow> last bs))"
proof (induction bs arbitrary: s)
  case (Cons b bs)
  then obtain s1 where s1: "enable b s = Inr s1" "enable_all enable bs s1 = Inr s'" by (auto simp: sbind_Inr)
  have e: "ok s1" "armed s1 \<longleftrightarrow> b" using enable [OF Cons.prems(1) s1(1)] by auto
  show ?case using Cons.IH [OF e(1) s1(2)] s1(2) e(2) by (cases bs) auto
qed simp

end

text \<open>
  What the manual page of \<open>kevent\<close> says of a change for the open descriptor \<open>f\<close>: \<open>kset\<close> are the registrations with their state and the
  pointer. There is no room for events, so that the result is zero, and the call does not wait, so that it is not interrupted.
\<close>

type_synonym kregs = "fd \<times> kfilter \<rightharpoonup> bool \<times> addr"

definition kq_change :: "kevent \<Rightarrow> kregs \<Rightarrow> kregs option" where
  "kq_change ev m =
     (let key = (ke_ident ev, ke_filter ev) in
      if ke_flags ev AND EV_ADD \<noteq> 0 then Some (m(key \<mapsto> (ke_flags ev AND EV_DISABLE = 0, ke_udata ev)))
      else case m key of
        None \<Rightarrow> None
      | Some (on, u) \<Rightarrow>
         (if ke_flags ev AND EV_DELETE \<noteq> 0 then Some (m(key := None))
          else if ke_flags ev AND EV_DISABLE \<noteq> 0 then Some (m(key \<mapsto> (False, u)))
          else if ke_flags ev AND EV_ENABLE \<noteq> 0 then Some (m(key \<mapsto> (True, u)))
          else Some m))"

definition kq_tracks :: "'w kqueue \<Rightarrow> fd \<Rightarrow> fd \<Rightarrow> ('w \<Rightarrow> kregs) \<Rightarrow> bool" where
  "kq_tracks kq k f kset \<longleftrightarrow>
     (\<forall>ev w r w'. kevent_change kq k ev w = (r, w') \<and> ke_ident ev = f \<longrightarrow>
        (case r of
           Ret n \<Rightarrow> n = 0 \<and> kq_change ev (kset w) = Some (kset w')
         | Err e \<Rightarrow> kset w' = kset w \<and> (e = ENOENT \<longrightarrow> kq_change ev (kset w) = None) \<and> e \<noteq> EBADF \<and> e \<noteq> EINTR))"

lemma kq_tracksD:
  assumes "kq_tracks kq k f kset" and "kqueue_ctl kq k f flt flags a w = Inr (n, w')"
  shows "n \<le> 0 \<and> kset w' =
    (case kq_change \<lparr>ke_ident = f, ke_filter = flt, ke_flags = flags, ke_data = 0, ke_udata = a\<rparr> (kset w) of None \<Rightarrow> kset w | Some m \<Rightarrow> m)"
proof -
  let ?ev = "\<lparr>ke_ident = f, ke_filter = flt, ke_flags = flags, ke_data = 0, ke_udata = a\<rparr>"
  obtain r where r: "kevent_change kq k ?ev w = (r, w')"
    using assms(2) by (auto simp: kqueue_ctl_def split: prod.splits sysres.splits if_splits)
  have t: "case r of
           Ret n \<Rightarrow> n = 0 \<and> kq_change ?ev (kset w) = Some (kset w')
         | Err e \<Rightarrow> kset w' = kset w \<and> (e = ENOENT \<longrightarrow> kq_change ?ev (kset w) = None) \<and> e \<noteq> EBADF \<and> e \<noteq> EINTR"
    using assms(1) r unfolding kq_tracks_def by (meson kevent.select_convs(1))
  show ?thesis using assms(2) r t by (auto simp: kqueue_ctl_def split: sysres.splits if_splits)
qed

lemma update_one_filter:
  assumes "m \<noteq> 0" and "m AND - m = m" and "stat_2_flt m = Some flt"
  shows "update_filters kq k f a op m ret w = sbind (kqueue_ctl kq k f flt op a w) (\<lambda>(n, w'). Inr (if 0 < n then n else ret, w'))"
proof -
  have z: "update_filters kq k f a op 0 r w' = Inr (r, w')" for r w' by (simp add: update_filters.simps)
  show ?thesis using assms by (subst update_filters.simps) (simp add: z sbind_def split: sum.split prod.split)
qed

lemma poll_filters: "kPollIn AND - kPollIn = kPollIn" "kPollOut AND - kPollOut = kPollOut" "stat_2_flt kPollIn = Some EVFILT_READ"
    "stat_2_flt kPollOut = Some EVFILT_WRITE" "kPollIn \<noteq> 0" "kPollOut \<noteq> 0"
  by (simp_all add: poll_bits stat_2_flt_def)

text \<open>A registered channel of either poller.\<close>

definition kq_registered :: "'w kqueue \<Rightarrow> ('w \<Rightarrow> kregs) \<Rightarrow> addr \<Rightarrow> fd \<Rightarrow> addr \<Rightarrow> ('c, 'w, 'z) reactor_scheme \<Rightarrow> bool" where
  "kq_registered kq kset a f lp s \<longleftrightarrow>
     (\<exists>ch l. chans s a = Some ch \<and> ch_fd ch = f \<and> ch_loop ch = Some lp \<and> loops s lp = Some l \<and> kq_tracks kq (poll_fd l) f kset \<and>
        kset (world s) (f, EVFILT_READ) = Some (True, a))"

definition kq_armed :: "('w \<Rightarrow> kregs) \<Rightarrow> addr \<Rightarrow> fd \<Rightarrow> ('c, 'w, 'z) reactor_scheme \<Rightarrow> bool" where
  "kq_armed kset a f s \<longleftrightarrow> kset (world s) (f, EVFILT_WRITE) = Some (True, a)"

definition ep_registered ::
  "'w posix \<Rightarrow> ('w \<Rightarrow> fd \<rightharpoonup> epoll_event) \<Rightarrow> ('w \<Rightarrow> 'k) \<Rightarrow> addr \<Rightarrow> fd \<Rightarrow> addr \<Rightarrow> ('c, 'w, 'z) reactor_scheme \<Rightarrow> bool" where
  "ep_registered os iset keep a f lp s \<longleftrightarrow>
     (\<exists>ch l. chans s a = Some ch \<and> ch_fd ch = f \<and> ch_loop ch = Some lp \<and> loops s lp = Some l \<and> epoll_tracks os (poll_fd l) iset keep \<and>
        iset (world s) f = Some (events ch, a) \<and> events ch AND kPollIn \<noteq> 0)"

definition ep_armed :: "('w \<Rightarrow> fd \<rightharpoonup> epoll_event) \<Rightarrow> addr \<Rightarrow> fd \<Rightarrow> ('c, 'w, 'z) reactor_scheme \<Rightarrow> bool" where
  "ep_armed iset a f s \<longleftrightarrow> (\<exists>m. iset (world s) f = Some (m, a) \<and> m AND kPollOut \<noteq> 0)"

lemma UpdateChannel_kq_one:
  assumes "chans s a = Some ch" and "loops s lp = Some l" and "kq_tracks kq (poll_fd l) (ch_fd ch) kset"
    and "events ch = m" and "m \<noteq> 0" and "m AND - m = m" and "stat_2_flt m = Some flt" and "UpdateChannel_kq kq lp a op s = Inr s'"
  obtains w where "s' = set_world w s"
    and "kset w = (case kq_change \<lparr>ke_ident = ch_fd ch, ke_filter = flt, ke_flags = op, ke_data = 0, ke_udata = a\<rparr> (kset (world s)) of
          None \<Rightarrow> kset (world s) | Some m \<Rightarrow> m)"
proof -
  obtain n w where w: "kqueue_ctl kq (poll_fd l) (ch_fd ch) flt op a (world s) = Inr (n, w)"
    and s': "s' = set_world w (if 0 < n then set_loop lp (l\<lparr>cur_poll_size := cur_poll_size l + 1\<rparr>) s else s)"
    using assms by (auto simp: UpdateChannel_kq_def sbind_Inr update_one_filter split: if_splits)
  show ?thesis
    using that [of w] kq_tracksD [OF assms(3) w] s' by simp
qed

interpretation kq: write_arming "EnableWrite_kq kq a" "kq_registered kq kset a f lp" "kq_armed kset a f"
  for kq :: "'w kqueue" and kset a f lp
proof (unfold_locales, goal_cases)
  case (1 s b s')
  then obtain ch l where ch: "chans s a = Some ch" "ch_fd ch = f" "ch_loop ch = Some lp" "loops s lp = Some l" "kq_tracks kq (poll_fd l) f kset"
    "kset (world s) (f, EVFILT_READ) = Some (True, a)" unfolding kq_registered_def by blast
  let ?op = "if b then EV_ADD OR EV_ENABLE else EV_DISABLE" and ?ch = "ch\<lparr>events := kPollOut\<rparr>"
  let ?s = "set_chan a ?ch s"
  have u: "UpdateChannel_kq kq lp a ?op ?s = Inr s'"
    using 1(2) ch(1,3) by (simp add: EnableWrite_kq_def UpdateToLoop_kq_def)
  obtain w where s': "s' = set_world w ?s"
    and w: "kset w = (case kq_change \<lparr>ke_ident = f, ke_filter = EVFILT_WRITE, ke_flags = ?op, ke_data = 0, ke_udata = a\<rparr> (kset (world ?s)) of
          None \<Rightarrow> kset (world ?s) | Some m \<Rightarrow> m)"
    by (rule UpdateChannel_kq_one [OF _ _ _ _ _ _ _ u, where ch = ?ch and l = l and kset = kset and m = kPollOut and flt = EVFILT_WRITE])
      (use ch in \<open>simp_all add: poll_filters\<close>)
  have kw: "kset w = (if b then (kset (world s))((f, EVFILT_WRITE) \<mapsto> (True, a))
      else (kset (world s))((f, EVFILT_WRITE) := map_option (\<lambda>(_, u). (False, u)) (kset (world s) (f, EVFILT_WRITE))))"
    using w by (cases b; cases "kset (world s) (f, EVFILT_WRITE)") (auto simp: kq_change_def ev_flags Let_def fun_upd_idem)
  have "kq_registered kq kset a f lp s'"
    using ch kw unfolding kq_registered_def by (simp add: s')
  moreover have "kq_armed kset a f s' \<longleftrightarrow> b"
    using kw by (cases b; cases "kset (world s) (f, EVFILT_WRITE)") (auto simp: kq_armed_def s')
  ultimately show ?case by blast
qed

interpretation ep: write_arming "Channel_EnableWrite os a" "ep_registered os iset keep a f lp" "ep_armed iset a f"
  for os :: "'w posix" and iset keep a f lp
proof (unfold_locales, goal_cases)
  case (1 s b s')
  then obtain ch l where ch: "chans s a = Some ch" "ch_fd ch = f" "ch_loop ch = Some lp" "loops s lp = Some l"
    "epoll_tracks os (poll_fd l) iset keep" "events ch AND kPollIn \<noteq> 0" unfolding ep_registered_def by blast
  let ?ch = "ch\<lparr>events := if b then events ch OR kPollOut else events ch AND NOT kPollOut\<rparr>"
  let ?s = "set_chan a ?ch s"
  have u: "UpdateChannel os lp a EPOLL_CTL_MOD ?s = Inr s'"
    using 1(2) ch(1,3) by (simp add: Channel_EnableWrite_def UpdateToLoop_def)
  obtain w n where s': "s' = set_world w (set_loop lp (l\<lparr>cur_poll_size := n\<rparr>) ?s)"
    and w: "iset w = (iset (world s))(f \<mapsto> (events ?ch, a))"
    using UpdateChannel_registers [of ?s a ?ch lp l os iset keep EPOLL_CTL_MOD] u ch by auto
  have "events ?ch AND kPollIn = events ch AND kPollIn" and "events ?ch AND kPollOut = (if b then kPollOut else 0)"
    by (cases b; rule bit_word_eqI; auto simp: bit_simps poll_bits)+
  then have "events ?ch AND kPollIn = events ch AND kPollIn" and "(events ?ch AND kPollOut \<noteq> 0) = b"
    by (simp_all add: poll_bits)
  then show ?case using ch w by (simp add: ep_registered_def ep_armed_def s')
qed

section \<open>Registering a channel\<close>

lemma UpdateToLoop_kq_registers:
  assumes "chans s a = Some ch" and "events ch = kPollIn" and "ch_loop ch = Some lp" and "loops s lp = Some l"
    and "kq_tracks kq (poll_fd l) (ch_fd ch) kset" and "UpdateToLoop_kq kq a (EV_ADD OR EV_ENABLE) s = Inr s'"
  shows "kq_registered kq kset a (ch_fd ch) lp s'"
    and "kset (world s') (ch_fd ch, EVFILT_WRITE) = kset (world s) (ch_fd ch, EVFILT_WRITE)"
proof -
  have u: "UpdateChannel_kq kq lp a (EV_ADD OR EV_ENABLE) s = Inr s'" using assms(1,3,6) by (simp add: UpdateToLoop_kq_def)
  obtain w where w: "s' = set_world w s"
      "kset w = (case kq_change \<lparr>ke_ident = ch_fd ch, ke_filter = EVFILT_READ, ke_flags = EV_ADD OR EV_ENABLE, ke_data = 0, ke_udata = a\<rparr> (kset (world s)) of
          None \<Rightarrow> kset (world s) | Some m \<Rightarrow> m)"
    by (rule UpdateChannel_kq_one [OF assms(1,4,5,2) poll_filters(5,1,3) u])
  then have k: "kset w = (kset (world s))((ch_fd ch, EVFILT_READ) \<mapsto> (True, a))" by (simp add: kq_change_def ev_flags Let_def)
  show "kq_registered kq kset a (ch_fd ch) lp s'" using assms(1-5) w(1) k by (simp add: kq_registered_def)
  show "kset (world s') (ch_fd ch, EVFILT_WRITE) = kset (world s) (ch_fd ch, EVFILT_WRITE)" using w(1) k by simp
qed

lemma UpdateToLoop_registers:
  assumes "chans s a = Some ch" and "events ch AND kPollIn \<noteq> 0" and "ch_loop ch = Some lp" and "loops s lp = Some l"
    and "epoll_tracks os (poll_fd l) iset keep" and "iset (world s) (ch_fd ch) = None" and "UpdateToLoop os a EPOLL_CTL_ADD s = Inr s'"
  shows "ep_registered os iset keep a (ch_fd ch) lp s'" and "iset (world s') (ch_fd ch) = Some (events ch, a)"
proof -
  have "UpdateChannel os lp a EPOLL_CTL_ADD s = Inr s'" using assms(1,3,7) by (simp add: UpdateToLoop_def)
  then obtain w n where "s' = set_world w (set_loop lp (l\<lparr>cur_poll_size := n\<rparr>) s)" "iset w = (iset (world s))(ch_fd ch \<mapsto> (events ch, a))"
    using UpdateChannel_registers [OF assms(1,4,5), of EPOLL_CTL_ADD] assms(6) by auto
  then show "ep_registered os iset keep a (ch_fd ch) lp s'" and "iset (world s') (ch_fd ch) = Some (events ch, a)"
    using assms(1-5) by (simp_all add: ep_registered_def)
qed

text \<open>Removing a descriptor deletes every registration a channel can have, and nothing of another descriptor.\<close>

lemma delete_filters_removes:
  assumes "kq_tracks kq k f kset" and "delete_filters kq k f flts ret w = Inr (n, w')"
  shows "kset w' = (\<lambda>(g, flt). if g = f \<and> flt \<in> set flts then None else kset w (g, flt)) \<and> n \<le> max ret 0"
  using assms(2)
proof (induction flts arbitrary: ret w)
  case (Cons flt flts)
  then obtain m w1 where w1: "kqueue_ctl kq k f flt EV_DELETE 0 w = Inr (m, w1)" "delete_filters kq k f flts (if 0 < m then m else ret) w1 = Inr (n, w')"
    by (auto simp: sbind_Inr)
  have "m \<le> 0" and "kset w1 = (kset w)((f, flt) := None)"
    using kq_tracksD [OF assms(1) w1(1)] by (auto simp: kq_change_def ev_flags Let_def split: option.splits)
  then show ?case using Cons.IH [OF w1(2)] by (auto simp: fun_eq_iff)
qed auto

lemma RemoveChannel_kq_removes:
  assumes "loops s lp = Some l" and "kq_tracks kq (poll_fd l) f kset" and "RemoveChannel_kq kq lp f s = Inr s'"
  shows "\<exists>w n. s' = set_world w (set_loop lp (l\<lparr>cur_poll_size := n\<rparr>) s) \<and>
    kset w = (\<lambda>(g, flt). if g = f \<and> flt \<noteq> EVFILT_USER then None else kset (world s) (g, flt))"
proof -
  obtain n w where w: "delete_filters kq (poll_fd l) f valid_filters (-1) (world s) = Inr (n, w)"
    and s': "s' = set_world w (if 0 \<le> n then set_loop lp (l\<lparr>cur_poll_size := cur_poll_size l - 1\<rparr>) s else s)"
    using assms(1,3) by (auto simp: RemoveChannel_kq_def sbind_Inr)
  have "flt \<in> set valid_filters \<longleftrightarrow> flt \<noteq> EVFILT_USER" for flt by (cases flt) (simp_all add: valid_filters_def)
  moreover have "s = set_loop lp (l\<lparr>cur_poll_size := cur_poll_size l\<rparr>) s" using set_loop_idem [OF assms(1)] by simp
  then have "\<exists>m. s' = set_world w (set_loop lp (l\<lparr>cur_poll_size := m\<rparr>) s)" using s' by metis
  ultimately show ?thesis using delete_filters_removes [OF assms(2) w] by auto
qed

lemma set_chan_twice: "set_chan a c2 (set_chan a c1 s) = set_chan a c2 s"
  by (simp add: set_chan_def)

section \<open>Properties\<close>

text \<open>
  Property C10. The two pollers agree: a channel is registered and then \<open>EnableWrite\<close> is called any number of times. Both kernels
  are then asked for read events of the descriptor with the channel's address, and for write events exactly if the last
  call enabled them. They differ only as long as there has been no such call: a channel on \<open>epoll\<close> is registered for writing at
  once, one on \<open>kqueue\<close> is not.
\<close>

theorem pollers_agree:
  assumes "chans s a = Some ch" and "events ch = events (Channel_new_kq (Some lp) (ch_fd ch))" and "ch_loop ch = Some lp" and "loops s lp = Some l"
    and "kq_tracks kq (poll_fd l) (ch_fd ch) kset" and "kset (world s) (ch_fd ch, EVFILT_WRITE) = None"
    and "sbind (UpdateToLoop_kq kq a (EV_ADD OR EV_ENABLE) s) (enable_all (EnableWrite_kq kq a) bs) = Inr s'"
    and "chans t b = Some dh" and "events dh = events (SetEpollEdgeTriggered edge (Channel_new (Some mp) (ch_fd dh)))" and "ch_loop dh = Some mp"
    and "loops t mp = Some m" and "epoll_tracks os (poll_fd m) iset keep" and "iset (world t) (ch_fd dh) = None"
    and "sbind (UpdateToLoop os b EPOLL_CTL_ADD t) (enable_all (Channel_EnableWrite os b) bs) = Inr t'"
  shows "kset (world s') (ch_fd ch, EVFILT_READ) = Some (True, a) \<and>
    (\<exists>evts. iset (world t') (ch_fd dh) = Some (evts, b) \<and> evts AND kPollIn \<noteq> 0) \<and>
    (kq_armed kset a (ch_fd ch) s' \<longleftrightarrow> bs \<noteq> [] \<and> last bs) \<and> (ep_armed iset b (ch_fd dh) t' \<longleftrightarrow> bs = [] \<or> last bs)"
proof (intro conjI)
  obtain s1 where s1: "UpdateToLoop_kq kq a (EV_ADD OR EV_ENABLE) s = Inr s1" "enable_all (EnableWrite_kq kq a) bs s1 = Inr s'"
    using assms(7) by (auto simp: sbind_Inr)
  have "events ch = kPollIn" using assms(2) by (simp add: Channel_new_kq_def)
  note r = UpdateToLoop_kq_registers [OF assms(1) this assms(3-5) s1(1)]
  note k = kq.enable_all_ok [OF r(1) s1(2)]
  show "kset (world s') (ch_fd ch, EVFILT_READ) = Some (True, a)" using k by (auto simp: kq_registered_def)
  have "bs = [] \<Longrightarrow> \<not> kq_armed kset a (ch_fd ch) s'" using r(2) assms(6) s1(2) by (simp add: kq_armed_def)
  then show "kq_armed kset a (ch_fd ch) s' \<longleftrightarrow> bs \<noteq> [] \<and> last bs" using k by blast
  obtain t1 where t1: "UpdateToLoop os b EPOLL_CTL_ADD t = Inr t1" "enable_all (Channel_EnableWrite os b) bs t1 = Inr t'"
    using assms(14) by (auto simp: sbind_Inr)
  have ev: "events dh AND kPollIn \<noteq> 0" "events dh AND kPollOut \<noteq> 0"
    using assms(9) by (simp_all add: SetEpollEdgeTriggered_def Channel_new_def poll_bits)
  note e = UpdateToLoop_registers [OF assms(8) ev(1) assms(10-13) t1(1)]
  note x = ep.enable_all_ok [OF e(1) t1(2)]
  show "\<exists>evts. iset (world t') (ch_fd dh) = Some (evts, b) \<and> evts AND kPollIn \<noteq> 0" using x by (auto simp: ep_registered_def)
  have "bs = [] \<Longrightarrow> ep_armed iset b (ch_fd dh) t'" using e(2) ev(2) t1(2) by (simp add: ep_armed_def)
  then show "ep_armed iset b (ch_fd dh) t' \<longleftrightarrow> bs = [] \<or> last bs" using x by blast
qed

text \<open>A kernel with a queue of events, on which the properties are applied.\<close>

type_synonym sample_kq = "kregs \<times> kevent list"

definition sample_kqueue :: "sample_kq kqueue" where
  "sample_kqueue =
     \<lparr>kq_create = (\<lambda>w. (Ret 30, w)),
      kevent_change = (\<lambda>k ev (m, q). case kq_change ev m of None \<Rightarrow> (Err ENOENT, (m, q)) | Some m' \<Rightarrow> (Ret 0, (m', q))),
      kevent_wait = (\<lambda>k n (m, q). (Ret (take n q), (m, drop n q)))\<rparr>"

lemma sample_kq_tracks: "kq_tracks sample_kqueue k f fst"
  by (auto simp: kq_tracks_def sample_kqueue_def split: option.splits)

definition sample_loop :: "fd \<Rightarrow> unit event_loop" where
  "sample_loop k = \<lparr>poll_fd = k, cur_poll_size = 0, pipe_fds = (20, 21), pipe_channel = 0, wakeup_callback = None, loop_running = True, pending_tasks = []\<rparr>"

definition sample_reactor :: "unit channel \<Rightarrow> fd \<Rightarrow> 'w \<Rightarrow> (unit, 'w) reactor" where
  "sample_reactor ch k w = \<lparr>chans = [1 \<mapsto> ch], loops = [2 \<mapsto> sample_loop k], world = w\<rparr>"

definition sample_kq_run :: "bool list \<Rightarrow> (unit, sample_kq) reactor res" where
  "sample_kq_run bs = sbind (UpdateToLoop_kq sample_kqueue 1 (EV_ADD OR EV_ENABLE) (sample_reactor (Channel_new_kq (Some 2) 7) 30 (Map.empty, [])))
     (enable_all (EnableWrite_kq sample_kqueue 1) bs)"

definition sample_ep_run :: "bool list \<Rightarrow> (unit, sample_kernel) reactor res" where
  "sample_ep_run bs = sbind (UpdateToLoop sample_posix 1 EPOLL_CTL_ADD (sample_reactor (SetEpollEdgeTriggered True (Channel_new (Some 2) 7)) 30 (sample_world [] 0)))
     (enable_all (Channel_EnableWrite sample_posix 1) bs)"

theorem pollers_agree_witness:
  "kq_armed fst 1 7 (projr (sample_kq_run [True, False, True])) \<and> ep_armed epoll_set 1 7 (projr (sample_ep_run [True, False, True]))"
proof -
  have a: "sample_kq_run [True, False, True] = Inr (projr (sample_kq_run [True, False, True]))"
    by (simp add: sample_kq_run_def sample_reactor_def sample_kqueue_def sample_loop_def UpdateToLoop_kq_def EnableWrite_kq_def UpdateChannel_kq_def
        Channel_new_kq_def Channel_new_def kq_change_def ev_flags poll_bits update_filters.simps stat_2_flt_def kqueue_ctl_def)
  have b: "sample_ep_run [True, False, True] = Inr (projr (sample_ep_run [True, False, True]))"
    by (simp add: sample_ep_run_def sample_reactor_def sample_posix_def sample_epoll_ctl_def sample_loop_def UpdateToLoop_def Channel_EnableWrite_def
        UpdateChannel_def Channel_new_def sample_world_def SetEpollEdgeTriggered_def)
  show ?thesis
    using pollers_agree [where ch = "Channel_new_kq (Some 2) 7" and lp = 2 and l = "sample_loop 30" and mp = 2 and m = "sample_loop 30" and edge = True
        and dh = "SetEpollEdgeTriggered True (Channel_new (Some 2) 7)", OF _ _ _ _ sample_kq_tracks _ a [unfolded sample_kq_run_def]
          _ _ _ _ sample_epoll_tracks _ b [unfolded sample_ep_run_def]]
    by (simp add: sample_reactor_def Channel_new_kq_def Channel_new_def SetEpollEdgeTriggered_def sample_world_def sample_kq_run_def sample_ep_run_def)
qed

text \<open>
  Property C34. A channel whose descriptor is ready for reading and for writing has two events, and \<open>Poll\<close> lists it twice. The first call of
  \<open>HandleEvents\<close> finds both events recorded and handles them; when it destroys the channel, as the end of the connection does, the
  second call goes through a dangling pointer.
\<close>

theorem ready_twice_dangles:
  assumes "loops s lp = Some l" and "chans s a = Some ch"
    and "kevent_wait kq (poll_fd l) kPollLimit (world s) =
      (Ret [\<lparr>ke_ident = f, ke_filter = x, ke_flags = fl1, ke_data = d1, ke_udata = a\<rparr>, \<lparr>ke_ident = f, ke_filter = y, ke_flags = fl2, ke_data = d2, ke_udata = a\<rparr>], w)"
    and "{x, y} = {EVFILT_READ, EVFILT_WRITE}" and "fl1 AND EV_ERROR = 0" and "fl2 AND EV_ERROR = 0"
    and "HandleEvents_kq os run a (set_chan a (ch\<lparr>revents := revents ch OR kPollIn OR kPollOut\<rparr>) (set_world w s)) = Some (Inr s')"
    and "chans s' a = None"
  shows "loop_pass_kq os kq run lp s = Some (Inl (UB ''destroyed channel''))"
proof -
  let ?s = "set_chan a (ch\<lparr>revents := revents ch OR kPollIn OR kPollOut\<rparr>) (set_world w s)"
  have o: "revents ch OR kPollOut OR kPollIn = revents ch OR kPollIn OR kPollOut" by (simp add: or.commute)
  have "Poll_kq kq lp s = Inr ([a, a], ?s)"
    using assms(1-6) o by (auto simp: Poll_kq_def doubleton_eq_iff flt_2_stat_def SetRevents_def set_chan_twice or.assoc)
  then show ?thesis
    using assms(7,8) by (simp add: loop_pass_kq_def obind_def get_chan_def HandleEvents_kq_def [of _ _ _ s'])
qed

definition sample_both_ready :: "kevent list" where
  "sample_both_ready = map (\<lambda>flt. \<lparr>ke_ident = 7, ke_filter = flt, ke_flags = 0, ke_data = 0, ke_udata = 1\<rparr>) [EVFILT_READ, EVFILT_WRITE]"

definition sample_drop :: "(unit, sample_kq, unit) runner" where
  "sample_drop c s = Some (Inr (s\<lparr>chans := Map.empty\<rparr>))"

theorem ready_twice_dangles_witness:
  "\<forall>os. loop_pass_kq os sample_kqueue sample_drop 2
     (sample_reactor ((Channel_new_kq (Some 2) 7)\<lparr>read_callback := Some (Client ())\<rparr>) 30 (Map.empty, sample_both_ready)) = Some (Inl (UB ''destroyed channel''))"
  by (rule allI, rule ready_twice_dangles [where l = "sample_loop 30" and a = 1 and f = 7 and x = EVFILT_READ and y = EVFILT_WRITE and ?fl1.0 = 0 and ?fl2.0 = 0 and ?d1.0 = 0 and ?d2.0 = 0
        and w = "(Map.empty, [])" and ch = "(Channel_new_kq (Some 2) 7)\<lparr>read_callback := Some (Client ())\<rparr>"
        and s' = "\<lparr>chans = Map.empty, loops = [2 \<mapsto> sample_loop 30], world = (Map.empty, [])\<rparr>"])
    (simp_all add: sample_reactor_def sample_kqueue_def sample_both_ready_def kPollLimit_def HandleEvents_kq_def Channel_new_kq_def Channel_new_def
      poll_bits obind_def set_chan_def set_world_def call_def sample_drop_def get_chan_def)

end
