(* ===== verification/Bsd_Calls.thy ===== *)
theory Bsd_Calls
  imports File_Buffer Kqueue_Poller Client_Timer
begin

text \<open>
  The branches of \<^verbatim>\<open>Socket.cpp\<close>, \<^verbatim>\<open>EventPoller.cpp\<close> and \<^verbatim>\<open>Timer.cpp\<close> for FreeBSD and macOS: \<open>sendfile\<close>, the setting of descriptor flags, the
  pipe of the poller, and the timer on \<open>kqueue\<close>.
\<close>

section \<open>Sending files\<close>

text \<open>\<open>sendfile\<close> of these systems gives the number of bytes it has sent apart from its success, also when it fails.\<close>

record 'w bsd_calls =
  bsd_sendfile :: "fd \<Rightarrow> fd \<Rightarrow> int \<Rightarrow> int \<Rightarrow> 'w \<Rightarrow> (bool \<times> nat) \<times> 'w"

definition socket_sendfile_bsd :: "'w bsd_calls \<Rightarrow> fd \<Rightarrow> fd \<Rightarrow> int \<Rightarrow> int \<Rightarrow> 'w \<Rightarrow> nat sysres \<times> 'w" where
  "socket_sendfile_bsd bc out_fd in_fd offset count w =
     (case bsd_sendfile bc in_fd out_fd offset count w of ((success, sent), w') \<Rightarrow> (Ret (if success then sent else 0), w'))"

text \<open>The calls of a program that is built on these systems.\<close>

definition bsd_posix :: "'w bsd_calls \<Rightarrow> 'w posix \<Rightarrow> 'w posix" where
  "bsd_posix bc os = os\<lparr>sys_sendfile := socket_sendfile_bsd bc\<rparr>"

section \<open>Flags of descriptors\<close>

record 'w fcntl_calls =
  f_getfl :: "fd \<Rightarrow> 'w \<Rightarrow> u32 sysres \<times> 'w"
  f_setfl :: "fd \<Rightarrow> u32 \<Rightarrow> 'w \<Rightarrow> unit sysres \<times> 'w"
  f_getfd :: "fd \<Rightarrow> 'w \<Rightarrow> u32 sysres \<times> 'w"
  f_setfd :: "fd \<Rightarrow> u32 \<Rightarrow> 'w \<Rightarrow> unit sysres \<times> 'w"

definition O_NONBLOCK :: u32 where "O_NONBLOCK = 0x4"

definition FD_CLOEXEC :: u32 where "FD_CLOEXEC = 0x1"

text \<open>The loops \<open>do ... while (ret < 0 && errno == EINTR)\<close>.\<close>

partial_function (option) retry_eintr :: "('w \<Rightarrow> 'a sysres \<times> 'w) \<Rightarrow> 'w \<Rightarrow> ('a sysres \<times> 'w) option" where
  "retry_eintr f w = (if fst (f w) = Err EINTR then retry_eintr f (snd (f w)) else Some (f w))"

definition fcntl_set_bit ::
  "('w \<Rightarrow> u32 sysres \<times> 'w) \<Rightarrow> (u32 \<Rightarrow> 'w \<Rightarrow> unit sysres \<times> 'w) \<Rightarrow> u32 \<Rightarrow> bool \<Rightarrow> string \<Rightarrow> string \<Rightarrow> 'w \<Rightarrow> 'w res option" where
  "fcntl_set_bit get set_to b on get_msg set_msg w =
     Option.bind (retry_eintr get w) (\<lambda>r.
       case r of
         (Err _, _) \<Rightarrow> Some (Inl (EXIT get_msg))
       | (Ret opts, w1) \<Rightarrow>
          Option.bind (retry_eintr (set_to (if on then opts OR b else opts AND NOT b)) w1) (\<lambda>r2.
            case r2 of (Err _, _) \<Rightarrow> Some (Inl (EXIT set_msg)) | (Ret _, w2) \<Rightarrow> Some (Inr w2)))"

text \<open>A negative argument leaves the flag alone. The function returns true when it returns.\<close>

definition fcntl_set_option :: "'w fcntl_calls \<Rightarrow> fd \<Rightarrow> int \<Rightarrow> int \<Rightarrow> 'w \<Rightarrow> 'w res option" where
  "fcntl_set_option fc sock nonblock cloexec w =
     obind (if 0 \<le> nonblock
            then fcntl_set_bit (f_getfl fc sock) (f_setfl fc sock) O_NONBLOCK (nonblock \<noteq> 0) ''fcntl(n, GETFL) failed'' ''fcntl(n, SETFL, opts) failed'' w
            else Some (Inr w)) (\<lambda>w1.
       if 0 \<le> cloexec
       then fcntl_set_bit (f_getfd fc sock) (f_setfd fc sock) FD_CLOEXEC (cloexec \<noteq> 0) ''fcntl(n, GETFL) failed'' ''fcntl(n, SETFD, opts) failed'' w1
       else Some (Inr w1))"

text \<open>On macOS the flags are set before the result of \<open>socket\<close> is looked at.\<close>

definition socket_socket_mac :: "'w posix \<Rightarrow> 'w fcntl_calls \<Rightarrow> bool \<Rightarrow> bool \<Rightarrow> 'w \<Rightarrow> (fd \<times> 'w) res option" where
  "socket_socket_mac os fc tcp v6 w =
     (case sys_socket os tcp v6 w of (r, w1) \<Rightarrow>
       let f = (case r of Ret g \<Rightarrow> g | Err _ \<Rightarrow> -1) in
       obind (fcntl_set_option fc f 1 1 w1) (\<lambda>w2.
         Some (if f < 0 then Inl (EXIT ''socket'')
               else case sys_reuseaddr os f w2 of (Err _, _) \<Rightarrow> Inl (EXIT ''setsockopt'') | (Ret _, w3) \<Rightarrow> Inr (f, w3))))"

text \<open>
  The pipe of the poller on macOS. The results of the calls are not looked at: without a pipe the
  descriptors are indeterminate, and a failure of \<open>F_GETFD\<close> gives the flags minus one.
\<close>

definition pipe_flag :: "'w fcntl_calls \<Rightarrow> fd \<Rightarrow> 'w \<Rightarrow> 'w" where
  "pipe_flag fc f w =
     (case f_getfd fc f w of (r, w1) \<Rightarrow> snd (f_setfd fc f ((case r of Ret flags \<Rightarrow> flags | Err _ \<Rightarrow> -1) OR O_NONBLOCK) w1))"

definition Pipe_new_mac :: "'w posix \<Rightarrow> 'w fcntl_calls \<Rightarrow> 'w \<Rightarrow> (fd \<times> fd \<times> 'w) res" where
  "Pipe_new_mac os fc w =
     (case sys_pipe os w of
        (Err _, _) \<Rightarrow> Inl (UB ''indeterminate descriptors'')
      | (Ret (rd, wr), w1) \<Rightarrow> Inr (rd, wr, pipe_flag fc wr (pipe_flag fc rd w1)))"

section \<open>Timers\<close>

definition EV_ONESHOT :: kflags where "EV_ONESHOT = 0x10"

text \<open>Every timer has the identifier 1. The channel is not registered; the timer's event carries its address.\<close>

definition Timer_new_kq :: "addr \<Rightarrow> addr \<Rightarrow> 'c \<Rightarrow> ('c, 'w, 'z) reactor_scheme \<Rightarrow> 'd timer \<times> ('c, 'w, 'z) reactor_scheme" where
  "Timer_new_kq lp a k s =
     (\<lparr>timer_loop = lp, timer_fd = 1, timer_channel = a, timer_callback = None, timer_interval = 0\<rparr>,
      set_chan a ((Channel_new_kq (Some lp) 1)\<lparr>read_callback := Some (Client k)\<rparr>) s)"

definition Timer_destroy_kq :: "'w kqueue \<Rightarrow> 'd timer \<Rightarrow> ('c, 'w, 'z) reactor_scheme \<Rightarrow> ('c, 'w, 'z) reactor_scheme res" where
  "Timer_destroy_kq kq t s =
     sbind (UpdateEvent kq (timer_loop t) \<lparr>ke_ident = timer_fd t, ke_filter = EVFILT_TIMER, ke_flags = EV_DELETE, ke_data = 0, ke_udata = 0\<rparr> s)
       (\<lambda>(_, s1). Inr (s1\<lparr>chans := (chans s1)(timer_channel t := None)\<rparr>))"

definition SetInterval_kq :: "'w kqueue \<Rightarrow> u64 \<Rightarrow> bool \<Rightarrow> 'd timer \<Rightarrow> ('c, 'w, 'z) reactor_scheme \<Rightarrow> ('c, 'w, 'z) reactor_scheme res" where
  "SetInterval_kq kq interval periodic t s =
     (let flags = EV_ADD OR EV_ENABLE in
      sbind (UpdateEvent kq (timer_loop t)
               \<lparr>ke_ident = timer_fd t, ke_filter = EVFILT_TIMER, ke_flags = if periodic then flags else flags OR EV_ONESHOT,
                ke_data = interval div 1000, ke_udata = timer_channel t\<rparr> s)
        (\<lambda>(_, s1). Inr s1))"

definition OnTimer_kq ::
  "('d \<Rightarrow> ('c, 'w, 'z) reactor_scheme \<Rightarrow> ('c, 'w, 'z) reactor_scheme res option) \<Rightarrow> 'd timer \<Rightarrow>
     ('c, 'w, 'z) reactor_scheme \<Rightarrow> ('c, 'w, 'z) reactor_scheme res option" where
  "OnTimer_kq run t s = (case timer_callback t of None \<Rightarrow> Some (Inr s) | Some k \<Rightarrow> run k s)"

section \<open>Flags are set\<close>

text \<open>
  What \<open>fcntl\<close> promises, with the status flags \<open>fl\<close> and the descriptor flags \<open>fdfl\<close> of every descriptor; a call is interrupted
  only while \<open>signals\<close> are pending, and takes one of them.
\<close>

definition quiet :: "('w \<Rightarrow> nat) \<Rightarrow> ('w \<Rightarrow> 'k) \<Rightarrow> ('w \<Rightarrow> 'a sysres \<times> 'w) \<Rightarrow> bool" where
  "quiet signals state f \<longleftrightarrow>
     (\<forall>w e w'. f w = (Err e, w') \<longrightarrow> state w' = state w \<and> (e = EINTR \<longrightarrow> signals w' < signals w))"

definition fcntl_tracks ::
  "'w fcntl_calls \<Rightarrow> ('w \<Rightarrow> nat) \<Rightarrow> ('w \<Rightarrow> fd \<Rightarrow> u32) \<Rightarrow> ('w \<Rightarrow> fd \<Rightarrow> u32) \<Rightarrow> bool" where
  "fcntl_tracks fc signals fl fdfl \<longleftrightarrow>
     (\<forall>f. quiet signals (\<lambda>w. (fl w, fdfl w)) (f_getfl fc f) \<and> quiet signals (\<lambda>w. (fl w, fdfl w)) (f_getfd fc f) \<and>
        (\<forall>x. quiet signals (\<lambda>w. (fl w, fdfl w)) (f_setfl fc f x) \<and> quiet signals (\<lambda>w. (fl w, fdfl w)) (f_setfd fc f x))) \<and>
     (\<forall>f w x w'. f_getfl fc f w = (Ret x, w') \<longrightarrow> x = fl w f \<and> fl w' = fl w \<and> fdfl w' = fdfl w) \<and>
     (\<forall>f w x w'. f_getfd fc f w = (Ret x, w') \<longrightarrow> x = fdfl w f \<and> fl w' = fl w \<and> fdfl w' = fdfl w) \<and>
     (\<forall>f w x u w'. f_setfl fc f x w = (Ret u, w') \<longrightarrow> fl w' = (fl w)(f := x) \<and> fdfl w' = fdfl w) \<and>
     (\<forall>f w x u w'. f_setfd fc f x w = (Ret u, w') \<longrightarrow> fl w' = fl w \<and> fdfl w' = (fdfl w)(f := x))"

text \<open>A call that is repeated returns, and has changed nothing unless it succeeds at last.\<close>

lemma retry_eintr_returns:
  assumes "quiet signals state f"
  shows "\<exists>w1 r w'. retry_eintr f w = Some (r, w') \<and> state w1 = state w \<and> f w1 = (r, w')"
proof (induction "signals w" arbitrary: w rule: less_induct)
  case less
  show ?case
  proof (cases "fst (f w) = Err EINTR")
    case True
    then have "f w = (Err EINTR, snd (f w))" by (metis prod.collapse)
    then have q: "state (snd (f w)) = state w" "signals (snd (f w)) < signals w" using assms unfolding quiet_def by blast+
    have "retry_eintr f w = retry_eintr f (snd (f w))" using True by (subst retry_eintr.simps) simp
    then show ?thesis using less [OF q(2)] q(1) by simp
  next
    case False
    then have "retry_eintr f w = Some (f w)" by (subst retry_eintr.simps) simp
    then show ?thesis by (metis prod.collapse)
  qed
qed


lemma fcntl_set_bit_ok:
  assumes "quiet signals state get" and "\<And>x. quiet signals state (set_to x)"
    and "\<And>w x w'. get w = (Ret x, w') \<Longrightarrow> x = look (state w) \<and> state w' = state w"
    and "\<And>w x u w'. set_to x w = (Ret u, w') \<Longrightarrow> state w' = upd x (state w)"
  shows "\<exists>r. fcntl_set_bit get set_to b on m1 m2 w = Some r \<and>
    (\<forall>w'. r = Inr w' \<longrightarrow> state w' = upd (if on then look (state w) OR b else look (state w) AND NOT b) (state w))"
proof -
  obtain v1 r1 w1 where g: "retry_eintr get w = Some (r1, w1)" "state v1 = state w" "get v1 = (r1, w1)"
    using retry_eintr_returns [OF assms(1)] by blast
  show ?thesis
  proof (cases r1)
    case (Err e)
    then show ?thesis using g(1) by (simp add: fcntl_set_bit_def)
  next
    case (Ret x)
    have x: "x = look (state w)" "state w1 = state w" using assms(3) [of v1 x w1] g(2,3) Ret by simp_all
    obtain v2 r2 w2 where s: "retry_eintr (set_to (if on then x OR b else x AND NOT b)) w1 = Some (r2, w2)" "state v2 = state w1"
      "set_to (if on then x OR b else x AND NOT b) v2 = (r2, w2)" using retry_eintr_returns [OF assms(2)] by blast
    show ?thesis
    proof (cases r2)
      case (Err e)
      then show ?thesis using g(1) Ret s(1) by (simp add: fcntl_set_bit_def)
    next
      case R2: (Ret u)
      then have "state w2 = upd (if on then x OR b else x AND NOT b) (state w1)" using assms(4) s(2,3) by metis
      then show ?thesis using g(1) Ret s(1) R2 x by (cases on) (simp_all add: fcntl_set_bit_def)
    qed
  qed
qed

lemma fcntl_tracksD:
  assumes "fcntl_tracks fc signals fl fdfl"
  shows "quiet signals (\<lambda>w. (fl w, fdfl w)) (f_getfl fc f)" "quiet signals (\<lambda>w. (fl w, fdfl w)) (f_getfd fc f)"
    "quiet signals (\<lambda>w. (fl w, fdfl w)) (f_setfl fc f x)" "quiet signals (\<lambda>w. (fl w, fdfl w)) (f_setfd fc f x)"
    and "f_getfl fc f w = (Ret y, w') \<Longrightarrow> y = fst (fl w, fdfl w) f \<and> (fl w', fdfl w') = (fl w, fdfl w)"
    and "f_getfd fc f w = (Ret y, w') \<Longrightarrow> y = snd (fl w, fdfl w) f \<and> (fl w', fdfl w') = (fl w, fdfl w)"
    and "f_setfl fc f x w = (Ret u, w') \<Longrightarrow> (fl w', fdfl w') = apfst (\<lambda>m. m(f := x)) (fl w, fdfl w)"
    and "f_setfd fc f x w = (Ret u, w') \<Longrightarrow> (fl w', fdfl w') = apsnd (\<lambda>m. m(f := x)) (fl w, fdfl w)"
  using assms unfolding fcntl_tracks_def by (blast, blast, blast, blast, auto)

definition new_flags :: "u32 \<Rightarrow> int \<Rightarrow> u32 \<Rightarrow> u32" where
  "new_flags b choice x = (if choice < 0 then x else if choice \<noteq> 0 then x OR b else x AND NOT b)"

lemma fcntl_option_ok:
  assumes "fcntl_tracks fc signals fl fdfl"
  shows "\<exists>r. fcntl_set_option fc f nonblock cloexec w = Some r \<and>
    (\<forall>w'. r = Inr w' \<longrightarrow> fl w' = (fl w)(f := new_flags O_NONBLOCK nonblock (fl w f)) \<and>
       fdfl w' = (fdfl w)(f := new_flags FD_CLOEXEC cloexec (fdfl w f)))"
proof -
  let ?st = "\<lambda>w. (fl w, fdfl w)"
  note d = fcntl_tracksD [OF assms]
  have nb: "\<exists>r. fcntl_set_bit (f_getfl fc f) (f_setfl fc f) O_NONBLOCK on m1 m2 w = Some r \<and>
      (\<forall>w'. r = Inr w' \<longrightarrow> ?st w' = apfst (\<lambda>m. m(f := if on then fst (?st w) f OR O_NONBLOCK else fst (?st w) f AND NOT O_NONBLOCK)) (?st w))" for on m1 m2 w
    by (rule fcntl_set_bit_ok [where look = "\<lambda>p. fst p f" and upd = "\<lambda>x. apfst (\<lambda>m. m(f := x))"]) (rule d(1), rule d(3), erule d(5), erule d(7))
  have ce: "\<exists>r. fcntl_set_bit (f_getfd fc f) (f_setfd fc f) FD_CLOEXEC on m1 m2 w = Some r \<and>
      (\<forall>w'. r = Inr w' \<longrightarrow> ?st w' = apsnd (\<lambda>m. m(f := if on then snd (?st w) f OR FD_CLOEXEC else snd (?st w) f AND NOT FD_CLOEXEC)) (?st w))" for on m1 m2 w
    by (rule fcntl_set_bit_ok [where look = "\<lambda>p. snd p f" and upd = "\<lambda>x. apsnd (\<lambda>m. m(f := x))"]) (rule d(2), rule d(4), erule d(6), erule d(8))
  obtain r1 where r1: "(if 0 \<le> nonblock
            then fcntl_set_bit (f_getfl fc f) (f_setfl fc f) O_NONBLOCK (nonblock \<noteq> 0) ''fcntl(n, GETFL) failed'' ''fcntl(n, SETFL, opts) failed'' w
            else Some (Inr w)) = Some r1" "\<And>w'. r1 = Inr w' \<Longrightarrow> fl w' = (fl w)(f := new_flags O_NONBLOCK nonblock (fl w f)) \<and> fdfl w' = fdfl w"
  proof (cases "0 \<le> nonblock")
    case True
    obtain r where "fcntl_set_bit (f_getfl fc f) (f_setfl fc f) O_NONBLOCK (nonblock \<noteq> 0) ''fcntl(n, GETFL) failed'' ''fcntl(n, SETFL, opts) failed'' w = Some r"
      "\<forall>w'. r = Inr w' \<longrightarrow> ?st w' = apfst (\<lambda>m. m(f := if nonblock \<noteq> 0 then fst (?st w) f OR O_NONBLOCK else fst (?st w) f AND NOT O_NONBLOCK)) (?st w)"
      using nb by blast
    then show ?thesis by (intro that [of r]) (use True in \<open>simp_all add: new_flags_def\<close>)
  next
    case False
    then show ?thesis by (intro that [of "Inr w"]) (simp_all add: new_flags_def)
  qed
  show ?thesis
  proof (cases r1)
    case (Inl x)
    then show ?thesis using r1(1) by (simp add: fcntl_set_option_def)
  next
    case (Inr w1)
    note w1 = r1(2) [OF this]
    show ?thesis
    proof (cases "0 \<le> cloexec")
      case True
      obtain r where "fcntl_set_bit (f_getfd fc f) (f_setfd fc f) FD_CLOEXEC (cloexec \<noteq> 0) ''fcntl(n, GETFL) failed'' ''fcntl(n, SETFD, opts) failed'' w1 = Some r"
        "\<forall>w'. r = Inr w' \<longrightarrow> ?st w' = apsnd (\<lambda>m. m(f := if cloexec \<noteq> 0 then snd (?st w1) f OR FD_CLOEXEC else snd (?st w1) f AND NOT FD_CLOEXEC)) (?st w1)"
        using ce by blast
      then show ?thesis using r1(1) Inr w1 True by (intro exI [of _ r]) (simp add: fcntl_set_option_def new_flags_def)
    next
      case False
      then show ?thesis using r1(1) Inr w1 by (simp add: fcntl_set_option_def new_flags_def)
    qed
  qed
qed

lemma pipe_flag_keeps:
  assumes "fcntl_tracks fc signals fl fdfl"
  shows "fl (pipe_flag fc f w) = fl w"
proof -
  obtain r w1 where g: "f_getfd fc f w = (r, w1)" by fastforce
  obtain r2 w2 where s: "f_setfd fc f ((case r of Ret flags \<Rightarrow> flags | Err _ \<Rightarrow> -1) OR O_NONBLOCK) w1 = (r2, w2)" by fastforce
  have "fl w1 = fl w" using fcntl_tracksD(2,6) [OF assms] g by (cases r) (auto simp: quiet_def)
  moreover have "fl w2 = fl w1" using fcntl_tracksD(4,8) [OF assms] s by (cases r2) (fastforce simp: quiet_def)+
  ultimately show ?thesis using g s by (simp add: pipe_flag_def)
qed

section \<open>Properties\<close>

text \<open>
  Property C35. On FreeBSD and macOS a file is sent wrongly when the socket takes only a part of it: \<open>sendfile\<close> then fails with \<open>EAGAIN\<close>, although it has sent
  the part. The wrapper reports that nothing was sent, so that the file buffer sends the part again, and the peer gets it twice.
\<close>

theorem bsd_sendfile_repeats:
  assumes "pending_files fb = [fi]" and "file_fd fb = g" and "g \<noteq> 0" and "ReadableBytes (inner fb) = 0"
    and "bytes_sent fb = int i" and "bytes_pending fb = int n" and "0 < n" and "k < n"
    and "bsd_sendfile bc g f (int i) (int n) w = ((False, k), w1)" and "sent w1 = sent w @ take k (drop i d)"
    and "bsd_sendfile bc g f (int i) (int n) w1 = ((True, n), w2)" and "sent w2 = sent w1 @ take n (drop i d)"
    and "sent (snd (sys_close os g w2)) = sent w2"
  shows "\<exists>fb' w'. FileBuffer_WriteBufferToFd (bsd_posix bc os) f fb w = Some (Inr (Ret 0, fb', w')) \<and> pending_files fb' = [] \<and>
    sent w' = sent w @ take k (drop i d) @ take n (drop i d)"
proof -
  let ?os = "bsd_posix bc os" and ?fb = "fb\<lparr>file_fd := 0, pending_files := [], bytes_sent := int i + int n, bytes_pending := 0\<rparr>"
  have s1: "fb_sendfile ?os f fb w = Inr (None, fb, w1)" and s2: "fb_sendfile ?os f fb w1 = Inr (None, ?fb, snd (sys_close os g w2))"
    using assms by (simp_all add: fb_sendfile_def bsd_posix_def socket_sendfile_bsd_def)
  have step: "fb_loop ?os f fb v = fb_loop ?os f fb' v'" if "fb_sendfile ?os f fb v = Inr (None, fb', v')" for v fb' v'
    using that assms(1-4) by (subst fb_loop.simps) (simp add: WriteBufferToFd_nothing)
  have "fb_loop ?os f fb w = fb_loop ?os f ?fb (snd (sys_close os g w2))" using step [OF s1] step [OF s2] by simp
  also have "\<dots> = Some (Inr (Ret 0, ?fb, snd (sys_close os g w2)))" by (subst fb_loop.simps) simp
  finally show ?thesis using assms(4,10,12,13) by (simp add: FileBuffer_WriteBufferToFd_def WriteBufferToFd_nothing)
qed

text \<open>A socket with room for some bytes, whose peer reads after each call.\<close>

definition sample_bsd :: "sample_kernel bsd_calls" where
  "sample_bsd = \<lparr>bsd_sendfile = (\<lambda>g f i n w.
     let bs = take (nat n) (drop (nat i) sample_file); k = min (length bs) (out_room w) in
     ((k = length bs, k), w\<lparr>accepted := accepted w @ take k bs, out_room := 10\<rparr>))\<rparr>"

theorem bsd_sendfile_repeats_witness:
  "\<exists>fb' w'. FileBuffer_WriteBufferToFd (bsd_posix sample_bsd sample_posix) 4
       \<lparr>pending_files = [\<lparr>header = [], filename = ''f''\<rparr>], inner = Buffer_new, bytes_sent = int 0, bytes_pending = int 6, file_fd = 9\<rparr>
       (sample_world [] 4) = Some (Inr (Ret 0, fb', w')) \<and> accepted w' = ''abcdabcdef''"
proof -
  let ?w1 = "(sample_world [] 10)\<lparr>accepted := ''abcd''\<rparr>" and ?w2 = "(sample_world [] 10)\<lparr>accepted := ''abcdabcdef''\<rparr>"
  have "\<exists>fb' w'. FileBuffer_WriteBufferToFd (bsd_posix sample_bsd sample_posix) 4
       \<lparr>pending_files = [\<lparr>header = [], filename = ''f''\<rparr>], inner = Buffer_new, bytes_sent = int 0, bytes_pending = int 6, file_fd = 9\<rparr>
       (sample_world [] 4) = Some (Inr (Ret 0, fb', w')) \<and> pending_files fb' = [] \<and>
       accepted w' = accepted (sample_world [] 4) @ take 4 (drop 0 sample_file) @ take 6 (drop 0 sample_file)"
    by (rule bsd_sendfile_repeats [where g = 9 and fi = "\<lparr>header = [], filename = ''f''\<rparr>" and ?w1.0 = ?w1 and ?w2.0 = ?w2])
      (simp_all add: Buffer_new_def ReadableBytes_def sample_posix_def sample_bsd_def sample_file_def sample_world_def)
  then show ?thesis by (auto simp: sample_world_def sample_file_def)
qed

text \<open>
  \<open>fcntl_set_option\<close> returns whatever signals interrupt its calls. When it does not end the process it has set or cleared the flag for blocking and the one for
  closing as it was told, and has changed no other flag and no other descriptor.
\<close>

theorem fcntl_sets_flags:
  assumes "fcntl_tracks fc signals fl fdfl"
  shows "\<exists>r. fcntl_set_option fc f nonblock cloexec w = Some r \<and>
    (\<forall>w'. r = Inr w' \<longrightarrow> fl w' = (fl w)(f := new_flags O_NONBLOCK nonblock (fl w f)) \<and>
       fdfl w' = (fdfl w)(f := new_flags FD_CLOEXEC cloexec (fdfl w f)))"
  by (rule fcntl_option_ok [OF assms])

text \<open>
  The pipe of the poller on macOS stays blocking: the constructor sets \<open>O_NONBLOCK\<close> with \<open>F_SETFD\<close>, which sets other flags.
\<close>

theorem mac_pipe_blocks:
  assumes "fcntl_tracks fc signals fl fdfl" and "sys_pipe os w = (Ret (rd, wr), w1)"
    and "fl w1 rd AND O_NONBLOCK = 0" and "fl w1 wr AND O_NONBLOCK = 0"
  shows "\<exists>w'. Pipe_new_mac os fc w = Inr (rd, wr, w') \<and> fl w' rd AND O_NONBLOCK = 0 \<and> fl w' wr AND O_NONBLOCK = 0"
  using assms(2-) pipe_flag_keeps [OF assms(1)] by (simp add: Pipe_new_mac_def)

section \<open>Timers of a loop\<close>

definition kq_works :: "'w kqueue \<Rightarrow> fd \<Rightarrow> fd \<Rightarrow> ('w \<Rightarrow> kregs) \<Rightarrow> bool" where
  "kq_works kq k f kset \<longleftrightarrow> kq_tracks kq k f kset \<and>
     (\<forall>ev w. ke_ident ev = f \<and> kq_change ev (kset w) \<noteq> None \<longrightarrow> (\<exists>n w'. kevent_change kq k ev w = (Ret n, w')))"

lemma UpdateEvent_works:
  assumes "kq_works kq (poll_fd l) (ke_ident ev) kset" and "loops s lp = Some l" and "kq_change ev (kset (world s)) = Some m"
  shows "\<exists>n w. UpdateEvent kq lp ev s = Inr (Ret n, set_world w s) \<and> kset w = m"
proof -
  obtain n w where k: "kevent_change kq (poll_fd l) ev (world s) = (Ret n, w)" using assms(1,3) unfolding kq_works_def by blast
  then have "kset w = m" using assms(1,3) unfolding kq_works_def kq_tracks_def by force
  then show ?thesis using k assms(2) by (intro exI [of _ n] exI [of _ w]) (simp add: UpdateEvent_def)
qed

lemma SetInterval_kq_works:
  assumes "kq_works kq (poll_fd l) 1 kset" and "loops s lp = Some l" and "timer_loop t = lp" and "timer_fd t = 1"
  shows "\<exists>w. SetInterval_kq kq x p t s = Inr (set_world w s) \<and> kset w = (kset (world s))((1, EVFILT_TIMER) \<mapsto> (True, timer_channel t))"
proof -
  let ?ev = "\<lparr>ke_ident = 1, ke_filter = EVFILT_TIMER, ke_flags = if p then EV_ADD OR EV_ENABLE else (EV_ADD OR EV_ENABLE) OR EV_ONESHOT,
    ke_data = x div 1000, ke_udata = timer_channel t\<rparr>"
  have "kq_change ?ev (kset (world s)) = Some ((kset (world s))((1, EVFILT_TIMER) \<mapsto> (True, timer_channel t)))"
    by (cases p) (simp_all add: kq_change_def ev_flags EV_ONESHOT_def Let_def)
  from UpdateEvent_works [where kset = kset and kq = kq, OF _ assms(2) this] assms(1) obtain n w where
    "UpdateEvent kq lp ?ev s = Inr (Ret n, set_world w s)" "kset w = (kset (world s))((1, EVFILT_TIMER) \<mapsto> (True, timer_channel t))"
    by auto
  then show ?thesis using assms(3,4) by (intro exI [of _ w]) (simp add: SetInterval_kq_def Let_def)
qed

text \<open>
  All timers of a loop are one timer of the kernel, since they have the same identifier: the one set last takes the event over from the one set
  before, and destroying either removes it.
\<close>

theorem kq_timers_collide:
  assumes "kq_works kq (poll_fd l) 1 kset" and "loops s lp = Some l" and "Timer_new_kq lp a k s = (t1, s1)" and "Timer_new_kq lp b j s1 = (t2, s2)"
  shows "\<exists>s3 s4 s5. SetInterval_kq kq x p t1 s2 = Inr s3 \<and> SetInterval_kq kq y q t2 s3 = Inr s4 \<and> Timer_destroy_kq kq t1 s4 = Inr s5 \<and>
    kset (world s4) (1, EVFILT_TIMER) = Some (True, b) \<and> kset (world s5) (1, EVFILT_TIMER) = None"
proof -
  have t: "timer_loop t1 = lp" "timer_fd t1 = 1" "timer_channel t1 = a" "timer_loop t2 = lp" "timer_fd t2 = 1" "timer_channel t2 = b" "loops s2 lp = Some l"
    using assms(2-4) by (auto simp: Timer_new_kq_def)
  obtain w3 where w3: "SetInterval_kq kq x p t1 s2 = Inr (set_world w3 s2)" using SetInterval_kq_works [OF assms(1) t(7,1,2)] by blast
  have l3: "loops (set_world w3 s2) lp = Some l" using t(7) by simp
  obtain w4 where w4: "SetInterval_kq kq y q t2 (set_world w3 s2) = Inr (set_world w4 (set_world w3 s2))"
    "kset w4 = (kset w3)((1, EVFILT_TIMER) \<mapsto> (True, b))" using SetInterval_kq_works [OF assms(1) l3 t(4,5)] t(6) by auto
  let ?s4 = "set_world w4 (set_world w3 s2)" and ?del = "\<lparr>ke_ident = 1, ke_filter = EVFILT_TIMER, ke_flags = EV_DELETE, ke_data = 0, ke_udata = 0\<rparr>"
  have "kq_change ?del (kset (world ?s4)) = Some ((kset w4)((1, EVFILT_TIMER) := None))" using w4(2) by (simp add: kq_change_def ev_flags Let_def)
  from UpdateEvent_works [where kset = kset, OF _ _ this, of kq l lp] assms(1) t(7) obtain n w5 where
    w5: "UpdateEvent kq lp ?del ?s4 = Inr (Ret n, set_world w5 ?s4)" "kset w5 = (kset w4)((1, EVFILT_TIMER) := None)" by auto
  then have "Timer_destroy_kq kq t1 ?s4 = Inr ((set_world w5 ?s4)\<lparr>chans := (chans (set_world w5 ?s4))(a := None)\<rparr>)"
    using t(1-3) by (simp add: Timer_destroy_kq_def)
  then show ?thesis using w3 w4 w5(2) by (auto simp: set_world_def)
qed

end
