(* ===== verification/Iocp_Connection.thy ===== *)
theory Iocp_Connection
  imports Event_Channel Byte_Buffer File_Utils "HOL-Library.Sublist"
begin

text \<open>
  Connections as they are built on Windows (\<^verbatim>\<open>Connection.cpp\<close>, with \<open>SocketIocpStatus\<close> of \<^verbatim>\<open>Socket.h\<close>, the calls of
  \<^verbatim>\<open>Socket.cpp\<close>, \<open>HandleEvents\<close> of \<^verbatim>\<open>Channel.cpp\<close> and the loop of \<^verbatim>\<open>EventLoop.cpp\<close>). Reads and writes are posted to a
  completion port and their results are reported later, so a connection has at most one read and
  one write under way.
\<close>

section \<open>Calls of Winsock\<close>

datatype wsa_error = WSA_IO_PENDING | WSAECONNRESET | WSAECONNABORTED | WSAESHUTDOWN | WSAEINVAL | WSA_OTHER

datatype wsa_ret = WSA_OK | SOCKET_ERROR wsa_error

text \<open>\<open>WSASend\<close> gets the bytes to send, \<open>WSARecv\<close> the size of the buffer; the bytes read come with the completion.\<close>

record 'w winsock =
  wsa_send :: "fd \<Rightarrow> string \<Rightarrow> 'w \<Rightarrow> wsa_ret \<times> 'w"
  wsa_recv :: "fd \<Rightarrow> nat \<Rightarrow> 'w \<Rightarrow> wsa_ret \<times> 'w"
  win_shutdown_send :: "fd \<Rightarrow> 'w \<Rightarrow> 'w"
  win_shutdown_receive :: "fd \<Rightarrow> 'w \<Rightarrow> 'w"
  win_closesocket :: "fd \<Rightarrow> 'w \<Rightarrow> bool \<times> 'w"
  win_associate :: "fd \<Rightarrow> 'w \<Rightarrow> bool \<times> 'w"

definition kMaxWsaBufSize :: nat where "kMaxWsaBufSize = 1024"

definition kMaxIocpRecvSize :: nat where "kMaxIocpRecvSize = 1024"

text \<open>The reference count is an \<open>int\<close> of 32 bits.\<close>

record SocketIocpStatus =
  iocp_status :: u32
  ref_count :: u32

definition SocketIocpStatus_new :: "u32 \<Rightarrow> SocketIocpStatus" where
  "SocketIocpStatus_new st = \<lparr>iocp_status = st, ref_count = 0\<rparr>"

definition UpdateRefCount :: "bool \<Rightarrow> SocketIocpStatus \<Rightarrow> SocketIocpStatus" where
  "UpdateRefCount increment st = st\<lparr>ref_count := ref_count st + (if increment then 1 else -1)\<rparr>"

definition FreeOfRef :: "SocketIocpStatus \<Rightarrow> bool" where
  "FreeOfRef st \<longleftrightarrow> ref_count st = 0"

definition socket_write_iocp :: "'w winsock \<Rightarrow> fd \<Rightarrow> string \<Rightarrow> SocketIocpStatus \<Rightarrow> 'w \<Rightarrow> wsa_ret \<times> SocketIocpStatus \<times> 'w" where
  "socket_write_iocp ws f buf st w = (case wsa_send ws f buf w of (r, w') \<Rightarrow> (r, UpdateRefCount True st, w'))"

definition socket_read_iocp :: "'w winsock \<Rightarrow> fd \<Rightarrow> SocketIocpStatus \<Rightarrow> 'w \<Rightarrow> wsa_ret \<times> SocketIocpStatus \<times> 'w" where
  "socket_read_iocp ws f st w = (case wsa_recv ws f kMaxIocpRecvSize w of (r, w') \<Rightarrow> (r, UpdateRefCount True st, w'))"

section \<open>Connections\<close>

record 'u win_connection =
  wc_fd :: fd
  wc_bound :: bool
  wc_on_read :: "'u option"
  wc_on_write :: "'u option"
  wc_on_close :: "'u option"
  read_wsa_buf :: string
  write_wsa_buf :: string
  read_status :: SocketIocpStatus
  write_status :: SocketIocpStatus
  write_pending :: bool
  wc_read_buffer :: buffer
  wc_write_buffer :: buffer
  wc_shut_down :: bool
  wc_send_file :: bool

record ('u, 'w) win =
  win_world :: 'w
  win_conns :: "addr \<rightharpoonup> 'u win_connection"

type_synonym ('u, 'w, 'z) win_user = "'u \<Rightarrow> addr \<Rightarrow> ('u, 'w, 'z) win_scheme \<Rightarrow> ('u, 'w, 'z) win_scheme res option"

definition get_win :: "addr \<Rightarrow> ('u, 'w, 'z) win_scheme \<Rightarrow> 'u win_connection res" where
  "get_win c s = (case win_conns s c of None \<Rightarrow> Inl (UB ''destroyed connection'') | Some cn \<Rightarrow> Inr cn)"

definition set_win :: "addr \<Rightarrow> 'u win_connection \<Rightarrow> 'w \<Rightarrow> ('u, 'w, 'z) win_scheme \<Rightarrow> ('u, 'w, 'z) win_scheme" where
  "set_win c cn w s = s\<lparr>win_conns := (win_conns s)(c \<mapsto> cn), win_world := w\<rparr>"

definition WinConnection_new :: "fd \<Rightarrow> bool \<Rightarrow> addr \<Rightarrow> ('u, 'w, 'z) win_scheme \<Rightarrow> ('u, 'w, 'z) win_scheme" where
  "WinConnection_new f send_file c s =
     set_win c \<lparr>wc_fd = f, wc_bound = False, wc_on_read = None, wc_on_write = None, wc_on_close = None,
                read_wsa_buf = [], write_wsa_buf = [], read_status = SocketIocpStatus_new kPollIn, write_status = SocketIocpStatus_new kPollOut,
                write_pending = False, wc_read_buffer = Buffer_new, wc_write_buffer = Buffer_new, wc_shut_down = False, wc_send_file = send_file\<rparr>
       (win_world s) s"

definition WinConnection_destroy :: "'w winsock \<Rightarrow> addr \<Rightarrow> ('u, 'w, 'z) win_scheme \<Rightarrow> ('u, 'w, 'z) win_scheme res" where
  "WinConnection_destroy ws c s =
     sbind (get_win c s) (\<lambda>cn.
       case win_closesocket ws (wc_fd cn) (win_world s) of
         (ok, w) \<Rightarrow> (if ok then Inr (s\<lparr>win_conns := (win_conns s)(c := None), win_world := w\<rparr>) else Inl (EXIT ''close'')))"

text \<open>\<open>PostRead\<close> and \<open>PostWrite\<close> start a read and a write; an error other than the expected ones ends the process.\<close>

definition PostRead :: "'w winsock \<Rightarrow> addr \<Rightarrow> ('u, 'w, 'z) win_scheme \<Rightarrow> ('u, 'w, 'z) win_scheme res" where
  "PostRead ws c s =
     sbind (get_win c s) (\<lambda>cn.
       if wc_shut_down cn then Inr s
       else
         case socket_read_iocp ws (wc_fd cn) (read_status cn) (win_world s) of
           (r, st, w) \<Rightarrow>
             (case r of
                WSA_OK \<Rightarrow> Inr (set_win c (cn\<lparr>read_status := st\<rparr>) w s)
              | SOCKET_ERROR err \<Rightarrow>
                 (if err = WSA_IO_PENDING then Inr (set_win c (cn\<lparr>read_status := st\<rparr>) w s)
                  else if err = WSAECONNRESET \<or> err = WSAECONNABORTED \<or> err = WSAESHUTDOWN
                  then Inr (set_win c (cn\<lparr>read_status := st, wc_shut_down := True\<rparr>) w s)
                  else Inl (EXIT ''socket::read''))))"

definition PostWrite :: "'w winsock \<Rightarrow> addr \<Rightarrow> ('u, 'w, 'z) win_scheme \<Rightarrow> ('u, 'w, 'z) win_scheme res" where
  "PostWrite ws c s =
     sbind (get_win c s) (\<lambda>cn.
       if wc_shut_down cn \<or> write_pending cn then Inr s
       else
         sbind (Buffer_Peek kMaxWsaBufSize (wc_write_buffer cn)) (\<lambda>(send_len, buf).
           if send_len = 0 then Inr (set_win c (cn\<lparr>write_wsa_buf := []\<rparr>) (win_world s) s)
           else
             case socket_write_iocp ws (wc_fd cn) buf (write_status cn) (win_world s) of
               (r, st, w) \<Rightarrow>
                 let cn' = cn\<lparr>write_wsa_buf := buf, write_pending := True, write_status := st\<rparr> in
                 (case r of
                    WSA_OK \<Rightarrow> Inr (set_win c cn' w s)
                  | SOCKET_ERROR err \<Rightarrow>
                     (if err = WSA_IO_PENDING then Inr (set_win c cn' w s)
                      else if err = WSAECONNRESET \<or> err = WSAECONNABORTED \<or> err = WSAESHUTDOWN \<or> err = WSAEINVAL
                      then Inr (set_win c (cn'\<lparr>wc_shut_down := True\<rparr>) w s)
                      else Inl (EXIT ''socket::write'')))))"

definition Win_Send :: "'w winsock \<Rightarrow> addr \<Rightarrow> string \<Rightarrow> ('u, 'w, 'z) win_scheme \<Rightarrow> ('u, 'w, 'z) win_scheme res" where
  "Win_Send ws c buf s =
     sbind (get_win c s) (\<lambda>cn.
       if wc_shut_down cn then Inr s
       else
         sbind (Buffer_Write buf (wc_write_buffer cn)) (\<lambda>wb.
           PostWrite ws c (set_win c (cn\<lparr>wc_write_buffer := wb\<rparr>) (win_world s) s)))"

definition Win_SendFile :: "'w winsock \<Rightarrow> files \<Rightarrow> addr \<Rightarrow> string \<Rightarrow> string \<Rightarrow> ('u, 'w, 'z) win_scheme \<Rightarrow> ('u, 'w, 'z) win_scheme res" where
  "Win_SendFile ws fs c header filename s =
     sbind (get_win c s) (\<lambda>cn.
       if wc_shut_down cn \<or> \<not> wc_send_file cn then Inr s
       else
         sbind (Buffer_Write header (wc_write_buffer cn)) (\<lambda>wb.
         sbind (Buffer_Write (ReadFileAsString fs filename) wb) (\<lambda>wb'.
           PostWrite ws c (set_win c (cn\<lparr>wc_write_buffer := wb'\<rparr>) (win_world s) s))))"

text \<open>The user's callback is called when it is set.\<close>

definition win_call :: "('u, 'w, 'z) win_user \<Rightarrow> 'u option \<Rightarrow> addr \<Rightarrow> ('u, 'w, 'z) win_scheme \<Rightarrow> ('u, 'w, 'z) win_scheme res option" where
  "win_call user u c s = (case u of None \<Rightarrow> Some (Inr s) | Some k \<Rightarrow> user k c s)"

definition Win_OnCloseCallback :: "'w winsock \<Rightarrow> ('u, 'w, 'z) win_user \<Rightarrow> addr \<Rightarrow> ('u, 'w, 'z) win_scheme \<Rightarrow> ('u, 'w, 'z) win_scheme res option" where
  "Win_OnCloseCallback ws user c s =
     obind (Some (get_win c s)) (\<lambda>cn.
       let s1 = s\<lparr>win_world := win_shutdown_send ws (wc_fd cn) (win_world s)\<rparr> in
       if \<not> FreeOfRef (read_status cn) then Some (Inr s1) else win_call user (wc_on_close cn) c s1)"

definition Win_ReadBuffer :: "addr \<Rightarrow> string \<Rightarrow> ('u, 'w, 'z) win_scheme \<Rightarrow> (int \<times> ('u, 'w, 'z) win_scheme) res" where
  "Win_ReadBuffer c data s =
     sbind (get_win c s) (\<lambda>cn.
       if data = [] then Inr (0, s)
       else
         sbind (Buffer_Write data (wc_read_buffer cn)) (\<lambda>rb.
           Inr (int (length data), set_win c (cn\<lparr>read_wsa_buf := data, wc_read_buffer := rb\<rparr>) (win_world s) s)))"

definition Win_WriteBuffer :: "addr \<Rightarrow> nat \<Rightarrow> ('u, 'w, 'z) win_scheme \<Rightarrow> ('u, 'w, 'z) win_scheme res" where
  "Win_WriteBuffer c io_size s =
     sbind (get_win c s) (\<lambda>cn. Inr (set_win c (cn\<lparr>wc_write_buffer := HaveRead io_size (wc_write_buffer cn)\<rparr>) (win_world s) s))"

text \<open>Posting, and closing when the connection is shut down and nothing is left to send.\<close>

definition close_if_done :: "'w winsock \<Rightarrow> ('u, 'w, 'z) win_user \<Rightarrow> addr \<Rightarrow> (('u, 'w, 'z) win_scheme \<Rightarrow> ('u, 'w, 'z) win_scheme res option) \<Rightarrow>
     ('u, 'w, 'z) win_scheme \<Rightarrow> ('u, 'w, 'z) win_scheme res option" where
  "close_if_done ws user c otherwise s =
     obind (Some (get_win c s)) (\<lambda>cn.
       if wc_shut_down cn \<and> Buffer_Empty (wc_write_buffer cn) then Win_OnCloseCallback ws user c s else otherwise s)"

text \<open>\<open>ReadBuffer\<close> and \<open>WriteBuffer\<close> are virtual: the callbacks get the ones of the connection's class.\<close>

type_synonym ('u, 'w, 'z) win_reads = "addr \<Rightarrow> string \<Rightarrow> ('u, 'w, 'z) win_scheme \<Rightarrow> (int \<times> ('u, 'w, 'z) win_scheme) res option"

type_synonym ('u, 'w, 'z) win_writes = "addr \<Rightarrow> nat \<Rightarrow> ('u, 'w, 'z) win_scheme \<Rightarrow> ('u, 'w, 'z) win_scheme res option"

definition Win_OnReadCallback_via ::
  "'w winsock \<Rightarrow> ('u, 'w, 'z) win_reads \<Rightarrow> ('u, 'w, 'z) win_user \<Rightarrow> addr \<Rightarrow> string \<Rightarrow> ('u, 'w, 'z) win_scheme \<Rightarrow> ('u, 'w, 'z) win_scheme res option" where
  "Win_OnReadCallback_via ws rd user c data s =
     obind (Some (get_win c s)) (\<lambda>cn.
       if wc_shut_down cn then Win_OnCloseCallback ws user c s
       else
         obind (rd c data s) (\<lambda>(ret, s1).
         obind (Some (get_win c s1)) (\<lambda>cn1.
           let cn2 = (if ret \<le> 0 then cn1\<lparr>wc_shut_down := True\<rparr> else cn1); s2 = set_win c cn2 (win_world s1) s1 in
           obind (if Buffer_Empty (wc_read_buffer cn2) then Some (Inr s2) else win_call user (wc_on_read cn2) c s2)
             (close_if_done ws user c (\<lambda>s3.
                obind (Some (PostRead ws c s3)) (close_if_done ws user c (\<lambda>s4. Some (Inr s4))))))))"

definition Win_OnWriteCallback_via ::
  "'w winsock \<Rightarrow> ('u, 'w, 'z) win_writes \<Rightarrow> ('u, 'w, 'z) win_user \<Rightarrow> addr \<Rightarrow> nat \<Rightarrow> ('u, 'w, 'z) win_scheme \<Rightarrow> ('u, 'w, 'z) win_scheme res option" where
  "Win_OnWriteCallback_via ws wr user c io_size s =
     obind (Some (get_win c s)) (\<lambda>cn.
     obind (wr c io_size (set_win c (cn\<lparr>write_pending := False\<rparr>) (win_world s) s)) (\<lambda>s1.
     obind (win_call user (wc_on_write cn) c s1)
       (close_if_done ws user c (\<lambda>s2.
          obind (Some (PostWrite ws c s2)) (close_if_done ws user c (\<lambda>s3. Some (Inr s3)))))))"

definition plain_reads :: "('u, 'w, 'z) win_reads" where
  "plain_reads c data s = Some (Win_ReadBuffer c data s)"

definition plain_writes :: "('u, 'w, 'z) win_writes" where
  "plain_writes c io_size s = Some (Win_WriteBuffer c io_size s)"

text \<open>A connection of a server gets its first bytes from \<open>AcceptEx\<close>; a client is given no port, since its channel already has one.\<close>

definition UpdateIocpPort :: "'w winsock \<Rightarrow> fd \<Rightarrow> 'w \<Rightarrow> 'w res" where
  "UpdateIocpPort ws f w = (case win_associate ws f w of (ok, w') \<Rightarrow> if ok then Inr w' else Inl (EXIT ''CreateIoCompletionPort''))"

definition Win_Init ::
  "'w winsock \<Rightarrow> ('u, 'w, 'z) win_user \<Rightarrow> addr \<Rightarrow> bool \<Rightarrow> string \<Rightarrow> ('u, 'w, 'z) win_scheme \<Rightarrow> ('u, 'w, 'z) win_scheme res option" where
  "Win_Init ws user c iocp_port buffer s =
     obind (Some (get_win c s)) (\<lambda>cn.
     obind (Some (if iocp_port then UpdateIocpPort ws (wc_fd cn) (win_world s) else Inr (win_world s))) (\<lambda>w.
     obind (Some (if buffer = [] then Inr (wc_read_buffer cn) else Buffer_Write buffer (wc_read_buffer cn))) (\<lambda>rb.
       let s1 = set_win c (cn\<lparr>wc_bound := True, wc_read_buffer := rb\<rparr>) w s in
       obind (if Buffer_Empty rb then Some (Inr s1) else win_call user (wc_on_read cn) c s1) (\<lambda>s2. Some (PostRead ws c s2)))))"

section \<open>Completions\<close>

text \<open>
  What \<open>GetQueuedCompletionStatus\<close> reports: a read of a connection with the bytes that have come, or the
  number of bytes a write has sent; that the port is closed or an operation was aborted; another error
  without an operation; or nothing.
\<close>

datatype completion = ReadDone string | WriteDone nat

datatype queued = Queued addr completion | QueuedAborted | QueuedError | QueuedNothing

definition Win_HandleEvents ::
  "'w winsock \<Rightarrow> ('u, 'w, 'z) win_reads \<Rightarrow> ('u, 'w, 'z) win_writes \<Rightarrow> ('u, 'w, 'z) win_user \<Rightarrow> addr \<Rightarrow> u32 \<Rightarrow> completion \<Rightarrow> ('u, 'w, 'z) win_scheme \<Rightarrow> ('u, 'w, 'z) win_scheme res option" where
  "Win_HandleEvents ws rd wr user c evts io s =
     obind (Some (get_win c s)) (\<lambda>cn.
     obind (if evts AND kPollOut \<noteq> 0 \<and> wc_bound cn
            then Win_OnWriteCallback_via ws wr user c (case io of WriteDone n \<Rightarrow> n | ReadDone data \<Rightarrow> length data) s else Some (Inr s)) (\<lambda>s1.
       if evts AND kPollIn \<noteq> 0
       then obind (Some (get_win c s1)) (\<lambda>cn1.
              if wc_bound cn1 then Win_OnReadCallback_via ws rd user c (case io of ReadDone data \<Rightarrow> data | WriteDone n \<Rightarrow> []) s1 else Some (Inr s1))
       else Some (Inr s1)))"

text \<open>The status of the operation loses the reference it got when the operation was posted.\<close>

definition count_off :: "addr \<Rightarrow> completion \<Rightarrow> ('u, 'w, 'z) win_scheme \<Rightarrow> (u32 \<times> ('u, 'w, 'z) win_scheme) res" where
  "count_off c io s =
     sbind (get_win c s) (\<lambda>cn.
       case io of
         ReadDone _ \<Rightarrow> Inr (iocp_status (read_status cn), set_win c (cn\<lparr>read_status := UpdateRefCount False (read_status cn)\<rparr>) (win_world s) s)
       | WriteDone _ \<Rightarrow> Inr (iocp_status (write_status cn), set_win c (cn\<lparr>write_status := UpdateRefCount False (write_status cn)\<rparr>) (win_world s) s))"

text \<open>One turn of the loop in \<open>StartLoop\<close>; the flag says whether the loop goes on.\<close>

definition iocp_turn_via ::
  "'w winsock \<Rightarrow> ('u, 'w, 'z) win_reads \<Rightarrow> ('u, 'w, 'z) win_writes \<Rightarrow> ('u, 'w, 'z) win_user \<Rightarrow> bool \<Rightarrow> queued \<Rightarrow> ('u, 'w, 'z) win_scheme \<Rightarrow> (bool \<times> ('u, 'w, 'z) win_scheme) res option" where
  "iocp_turn_via ws rd wr user running q s =
     (case q of
        QueuedAborted \<Rightarrow> Some (Inr (False, s))
      | QueuedError \<Rightarrow> Some (Inl (EXIT ''GetQueuedCompletionStatus''))
      | QueuedNothing \<Rightarrow> Some (Inr (True, s))
      | Queued c io \<Rightarrow>
         obind (Some (count_off c io s)) (\<lambda>(evts, s1).
           if \<not> running then Some (Inr (False, s1))
           else obind (Win_HandleEvents ws rd wr user c evts io s1) (\<lambda>s2. Some (Inr (True, s2)))))"

definition iocp_turn ::
  "'w winsock \<Rightarrow> ('u, 'w, 'z) win_user \<Rightarrow> bool \<Rightarrow> queued \<Rightarrow> ('u, 'w, 'z) win_scheme \<Rightarrow> (bool \<times> ('u, 'w, 'z) win_scheme) res option" where
  "iocp_turn ws user running q s = iocp_turn_via ws plain_reads plain_writes user running q s"

lemmas iocp_turn_defs = iocp_turn_def iocp_turn_via_def count_off_def Win_HandleEvents_def plain_reads_def plain_writes_def

section \<open>Sending\<close>

text \<open>
  What the application and the kernel do with a connection that sends; \<open>SentOp n\<close> is the completion of the
  write under way, which has sent the first \<open>n\<close> bytes of its buffer. The list \<open>wire\<close> collects these bytes.
\<close>

datatype win_op = SendOp string | SendFileOp string string | SentOp nat

fun op_text :: "files \<Rightarrow> win_op \<Rightarrow> string" where
  "op_text fs (SendOp buf) = buf"
| "op_text fs (SendFileOp header filename) = header @ ReadFileAsString fs filename"
| "op_text fs (SentOp n) = []"

fun win_do ::
  "'w winsock \<Rightarrow> files \<Rightarrow> ('u, 'w, 'z) win_user \<Rightarrow> addr \<Rightarrow> win_op \<Rightarrow> string \<times> ('u, 'w, 'z) win_scheme \<Rightarrow> (string \<times> ('u, 'w, 'z) win_scheme) res option" where
  "win_do ws fs user c (SendOp buf) (wire, s) = obind (Some (Win_Send ws c buf s)) (\<lambda>s'. Some (Inr (wire, s')))"
| "win_do ws fs user c (SendFileOp header filename) (wire, s) = obind (Some (Win_SendFile ws fs c header filename s)) (\<lambda>s'. Some (Inr (wire, s')))"
| "win_do ws fs user c (SentOp n) (wire, s) =
     obind (Some (get_win c s)) (\<lambda>cn.
       if write_pending cn \<and> n \<le> length (write_wsa_buf cn)
       then obind (iocp_turn ws user True (Queued c (WriteDone n)) s) (\<lambda>(_, s'). Some (Inr (wire @ take n (write_wsa_buf cn), s')))
       else Some (Inr (wire, s)))"

fun win_run ::
  "'w winsock \<Rightarrow> files \<Rightarrow> ('u, 'w, 'z) win_user \<Rightarrow> addr \<Rightarrow> win_op list \<Rightarrow> string \<times> ('u, 'w, 'z) win_scheme \<Rightarrow> (string \<times> ('u, 'w, 'z) win_scheme) res option" where
  "win_run ws fs user c [] p = Some (Inr p)"
| "win_run ws fs user c (op # ops) p = obind (win_do ws fs user c op p) (win_run ws fs user c ops)"

text \<open>A kernel that takes every write, at once or later.\<close>

definition takes_writes :: "'w winsock \<Rightarrow> bool" where
  "takes_writes ws \<longleftrightarrow> (\<forall>f bs w. \<exists>r w'. wsa_send ws f bs w = (r, w') \<and> (r = WSA_OK \<or> r = SOCKET_ERROR WSA_IO_PENDING))"

text \<open>
  The connection is open, \<open>left\<close> waits in its buffer and there is room for \<open>n\<close> more bytes. A write is under way exactly if something waits, and
  it is a write of the front of the buffer.
\<close>

definition win_sending :: "bool \<Rightarrow> addr \<Rightarrow> string \<Rightarrow> nat \<Rightarrow> ('u, 'w, 'z) win_scheme \<Rightarrow> bool" where
  "win_sending sf c left n s \<longleftrightarrow>
     (\<exists>cn. win_conns s c = Some cn \<and> \<not> wc_shut_down cn \<and> wc_bound cn \<and> wc_send_file cn = sf \<and> wc_on_write cn = None \<and> iocp_status (write_status cn) = kPollOut \<and>
        buffer_ok (wc_write_buffer cn) \<and> content (wc_write_buffer cn) = left \<and> room (wc_write_buffer cn) n \<and>
        (write_pending cn \<longleftrightarrow> left \<noteq> []) \<and> (write_pending cn \<longrightarrow> prefix (write_wsa_buf cn) left \<and> write_wsa_buf cn \<noteq> []))"

lemma get_win_Some [simp]: "win_conns s c = Some cn \<Longrightarrow> get_win c s = Inr cn"
  by (simp add: get_win_def)

lemma set_win_simps [simp]:
  "win_conns (set_win c cn w s) = (win_conns s)(c \<mapsto> cn)" "win_world (set_win c cn w s) = w" "set_win c cn w (set_win c cn' w' s) = set_win c cn w s"
  by (simp_all add: set_win_def)

lemma Peek_wsa:
  assumes "buffer_ok b"
  shows "Buffer_Peek kMaxWsaBufSize b = Inr (min (to_u32 1024) (ReadableBytes b), take 1024 (content b))"
    and "min (to_u32 1024) (ReadableBytes b) = 0 \<longleftrightarrow> content b = []"
proof -
  show "Buffer_Peek kMaxWsaBufSize b = Inr (min (to_u32 1024) (ReadableBytes b), take 1024 (content b))"
    using Buffer_Peek_ok [OF assms, of 1024] by (simp add: kMaxWsaBufSize_def)
  have "unat (min (to_u32 1024) (ReadableBytes b)) = min 1024 (length (content b))" using unat_min_readable [OF assms, of 1024] by simp
  then show "min (to_u32 1024) (ReadableBytes b) = 0 \<longleftrightarrow> content b = []"
    by (metis length_0_conv min_0R min_def unat_eq_zero zero_neq_numeral)
qed

lemma PostWrite_sends:
  assumes "takes_writes ws" and cn: "win_conns s c = Some cn" "\<not> wc_shut_down cn" "wc_bound cn" "wc_send_file cn = sf" "wc_on_write cn = None"
      "iocp_status (write_status cn) = kPollOut" "buffer_ok (wc_write_buffer cn)" "room (wc_write_buffer cn) n"
    and p: "write_pending cn \<Longrightarrow> prefix (write_wsa_buf cn) (content (wc_write_buffer cn)) \<and> write_wsa_buf cn \<noteq> []"
  shows "\<exists>s'. PostWrite ws c s = Inr s' \<and> win_sending sf c (content (wc_write_buffer cn)) n s'"
proof (cases "write_pending cn")
  case True
  then show ?thesis using cn p by (auto simp: PostWrite_def win_sending_def)
next
  case False
  let ?l = "content (wc_write_buffer cn)"
  note pk = Peek_wsa(1) [OF cn(7)] and e = Peek_wsa(2) [OF cn(7)]
  obtain r w where w: "wsa_send ws (wc_fd cn) (take 1024 ?l) (win_world s) = (r, w)" "r = WSA_OK \<or> r = SOCKET_ERROR WSA_IO_PENDING"
    using assms(1) unfolding takes_writes_def by blast
  show ?thesis
  proof (cases "?l = []")
    case True
    then show ?thesis using cn False pk e by (simp add: PostWrite_def win_sending_def)
  next
    case ne: False
    then show ?thesis
      using cn False pk e w by (auto simp: PostWrite_def win_sending_def socket_write_iocp_def UpdateRefCount_def Let_def take_is_prefix)
  qed
qed

lemma Send_sending:
  assumes t: "takes_writes ws" and s: "win_sending sf c left (length buf + n) s"
  shows "\<exists>s'. Win_Send ws c buf s = Inr s' \<and> win_sending sf c (left @ buf) n s'"
proof -
  obtain cn where cn: "win_conns s c = Some cn" "\<not> wc_shut_down cn" "wc_bound cn" "wc_send_file cn = sf" "wc_on_write cn = None"
    "iocp_status (write_status cn) = kPollOut" "buffer_ok (wc_write_buffer cn)" "content (wc_write_buffer cn) = left" "room (wc_write_buffer cn) (length buf + n)"
    and p: "write_pending cn \<longrightarrow> prefix (write_wsa_buf cn) left \<and> write_wsa_buf cn \<noteq> []"
    using s unfolding win_sending_def by blast
  have "room (wc_write_buffer cn) (length buf)" using cn(9) by (simp add: room_def)
  from Buffer_Write_ok [OF cn(7) this] obtain b where b: "Buffer_Write buf (wc_write_buffer cn) = Inr b" "buffer_ok b" "content b = left @ buf"
    "\<And>n. room b n \<longleftrightarrow> room (wc_write_buffer cn) (length buf + n)" using cn(8) by metis
  have "\<exists>s'. PostWrite ws c (set_win c (cn\<lparr>wc_write_buffer := b\<rparr>) (win_world s) s) = Inr s' \<and> win_sending sf c (left @ buf) n s'"
    using PostWrite_sends [OF t, of "set_win c (cn\<lparr>wc_write_buffer := b\<rparr>) (win_world s) s" c "cn\<lparr>wc_write_buffer := b\<rparr>" sf n] cn p b by (auto intro: prefix_prefix)
  then show ?thesis using cn b(1) by (simp add: Win_Send_def)
qed

lemma SendFile_sending:
  assumes t: "takes_writes ws" and s: "win_sending True c left (length header + (length (ReadFileAsString fs filename) + n)) s"
  shows "\<exists>s'. Win_SendFile ws fs c header filename s = Inr s' \<and> win_sending True c (left @ header @ ReadFileAsString fs filename) n s'"
proof -
  let ?f = "ReadFileAsString fs filename"
  obtain cn where cn: "win_conns s c = Some cn" "\<not> wc_shut_down cn" "wc_bound cn" "wc_send_file cn" "wc_on_write cn = None"
    "iocp_status (write_status cn) = kPollOut" "buffer_ok (wc_write_buffer cn)" "content (wc_write_buffer cn) = left"
    "room (wc_write_buffer cn) (length header + (length ?f + n))"
    and p: "write_pending cn \<longrightarrow> prefix (write_wsa_buf cn) left \<and> write_wsa_buf cn \<noteq> []"
    using s unfolding win_sending_def by blast
  have "room (wc_write_buffer cn) (length header)" using cn(9) by (simp add: room_def)
  from Buffer_Write_ok [OF cn(7) this] obtain b where b: "Buffer_Write header (wc_write_buffer cn) = Inr b" "buffer_ok b" "content b = left @ header"
    "\<And>n. room b n \<longleftrightarrow> room (wc_write_buffer cn) (length header + n)" using cn(8) by metis
  have "room b (length ?f)" using cn(9) b(4) by (simp add: room_def)
  from Buffer_Write_ok [OF b(2) this] obtain b' where b': "Buffer_Write ?f b = Inr b'" "buffer_ok b'" "content b' = left @ header @ ?f"
    "\<And>n. room b' n \<longleftrightarrow> room b (length ?f + n)" using b(3) by (metis append.assoc)
  have "\<exists>s'. PostWrite ws c (set_win c (cn\<lparr>wc_write_buffer := b'\<rparr>) (win_world s) s) = Inr s' \<and> win_sending True c (left @ header @ ?f) n s'"
    using PostWrite_sends [OF t, of "set_win c (cn\<lparr>wc_write_buffer := b'\<rparr>) (win_world s) s" c "cn\<lparr>wc_write_buffer := b'\<rparr>" True n] cn p b b' by (auto intro: prefix_prefix)
  then show ?thesis using cn b(1) b'(1) by (simp add: Win_SendFile_def)
qed

lemma Sent_sending:
  assumes t: "takes_writes ws" and s: "win_sending sf c left n s" and cn: "win_conns s c = Some cn" "write_pending cn" "k \<le> length (write_wsa_buf cn)"
    and wr: "\<And>cn'. wr c k (set_win c cn' (win_world s) s) = Some (Win_WriteBuffer c k (set_win c cn' (win_world s) s))"
  shows "\<exists>s'. iocp_turn_via ws rd wr user True (Queued c (WriteDone k)) s = Some (Inr (True, s')) \<and> win_sending sf c (drop k left) n s' \<and>
     take k (write_wsa_buf cn) = take k left"
proof -
  have st: "\<not> wc_shut_down cn" "wc_bound cn" "wc_send_file cn = sf" "wc_on_write cn = None" "iocp_status (write_status cn) = kPollOut"
    "buffer_ok (wc_write_buffer cn)" "content (wc_write_buffer cn) = left" "room (wc_write_buffer cn) n" "prefix (write_wsa_buf cn) left"
    using s cn unfolding win_sending_def by auto
  obtain rest where rest: "left = write_wsa_buf cn @ rest" using st(9) by (auto elim: prefixE)
  have "length left < 2 ^ 32" using length_content_less [of "wc_write_buffer cn"] st(7) by simp
  then have k: "k mod 2 ^ 32 = k" using cn(3) rest by simp
  let ?cn = "cn\<lparr>write_status := UpdateRefCount False (write_status cn), write_pending := False, wc_write_buffer := HaveRead k (wc_write_buffer cn)\<rparr>"
  let ?s = "set_win c ?cn (win_world s) s"
  have hr: "buffer_ok (HaveRead k (wc_write_buffer cn))" "content (HaveRead k (wc_write_buffer cn)) = drop k left"
    using HaveRead_ok [OF st(6), of k] k st(7) by simp_all
  have "room (HaveRead k (wc_write_buffer cn)) n" using HaveRead_room [OF st(8)] by simp
  then obtain s' where s': "PostWrite ws c ?s = Inr s'" "win_sending sf c (drop k left) n s'"
    using PostWrite_sends [OF t, of ?s c ?cn sf n] st hr by (auto simp: UpdateRefCount_def)
  obtain cn' where cn': "win_conns s' c = Some cn'" "\<not> wc_shut_down cn'" using s'(2) unfolding win_sending_def by blast
  have "iocp_turn_via ws rd wr user True (Queued c (WriteDone k)) s = Some (Inr (True, s'))"
    using cn st s'(1) cn' wr
    by (simp add: iocp_turn_defs Win_OnWriteCallback_via_def Win_WriteBuffer_def close_if_done_def win_call_def poll_bits)
  then show ?thesis using s'(2) rest cn(3) by simp
qed

lemma win_do_sending:
  assumes "takes_writes ws" and "win_sending True c left (length (op_text fs op) + n) s"
  shows "\<exists>wire' left' s'. win_do ws fs user c op (wire, s) = Some (Inr (wire', s')) \<and> win_sending True c left' n s' \<and>
     wire' @ left' = wire @ left @ op_text fs op"
proof (cases op)
  case (SendOp buf)
  then show ?thesis using Send_sending [OF assms(1), of True c left buf n s] assms(2) by auto
next
  case (SendFileOp header filename)
  then show ?thesis using SendFile_sending [OF assms(1), of c left header fs filename n s] assms(2) by (auto simp: add.assoc)
next
  case (SentOp k)
  obtain cn where cn: "win_conns s c = Some cn" using assms(2) unfolding win_sending_def by blast
  show ?thesis
  proof (cases "write_pending cn \<and> k \<le> length (write_wsa_buf cn)")
    case True
    from Sent_sending [OF assms(1) _ cn, of True left n k plain_writes plain_reads user] assms(2) SentOp True obtain s' where
      s': "iocp_turn ws user True (Queued c (WriteDone k)) s = Some (Inr (True, s'))" "win_sending True c (drop k left) n s'" "take k (write_wsa_buf cn) = take k left"
      by (auto simp: iocp_turn_def plain_writes_def)
    then have "win_do ws fs user c op (wire, s) = Some (Inr (wire @ take k left, s'))" using SentOp cn True by simp
    then show ?thesis using s'(2) SentOp by (intro exI [of _ "wire @ take k left"] exI [of _ "drop k left"] exI [of _ s']) simp
  next
    case False
    then have "win_do ws fs user c op (wire, s) = Some (Inr (wire, s))" using SentOp cn by auto
    then show ?thesis using assms(2) SentOp by auto
  qed
qed

lemma win_run_sending:
  assumes "takes_writes ws"
  shows "win_sending True c left (length (concat (map (op_text fs) ops)) + n) s \<Longrightarrow>
     \<exists>wire' left' s'. win_run ws fs user c ops (wire, s) = Some (Inr (wire', s')) \<and> win_sending True c left' n s' \<and>
     wire' @ left' = wire @ left @ concat (map (op_text fs) ops)"
proof (induction ops arbitrary: wire left s)
  case (Cons op ops)
  from win_do_sending [OF assms, of c left fs op "length (concat (map (op_text fs) ops)) + n" s user wire] Cons.prems obtain wire1 left1 s1 where
    s1: "win_do ws fs user c op (wire, s) = Some (Inr (wire1, s1))" "win_sending True c left1 (length (concat (map (op_text fs) ops)) + n) s1"
      "wire1 @ left1 = wire @ left @ op_text fs op" by (auto simp: add.assoc)
  from Cons.IH [OF s1(2), of wire1] obtain wire' left' s' where
    "win_run ws fs user c ops (wire1, s1) = Some (Inr (wire', s'))" "win_sending True c left' n s'" "wire' @ left' = wire1 @ left1 @ concat (map (op_text fs) ops)" by blast
  then show ?case using s1 by (metis (no_types, lifting) append.assoc concat.simps(2) list.map(2) obind_simps(3) win_run.simps(2))
qed auto

section \<open>Posting\<close>

text \<open>
  A write under way is a write of the front of the buffer; unless the connection is shut down, one is
  under way whenever something waits.
\<close>

definition posted :: "'u win_connection \<Rightarrow> bool" where
  "posted cn \<longleftrightarrow>
     (write_pending cn \<longrightarrow> prefix (write_wsa_buf cn) (content (wc_write_buffer cn)) \<and> write_wsa_buf cn \<noteq> []) \<and>
     (\<not> wc_shut_down cn \<longrightarrow> content (wc_write_buffer cn) \<noteq> [] \<longrightarrow> write_pending cn)"

lemma set_win_same: "win_conns s c = Some cn \<Longrightarrow> set_win c cn (win_world s) s = s"
  by (simp add: set_win_def map_upd_triv)

text \<open>What \<open>PostWrite\<close> changes in a connection.\<close>

definition reposts :: "'u win_connection \<Rightarrow> 'u win_connection \<Rightarrow> bool" where
  "reposts cn cn' \<longleftrightarrow> posted cn' \<and> (wc_shut_down cn \<longrightarrow> wc_shut_down cn') \<and> iocp_status (write_status cn') = iocp_status (write_status cn) \<and>
     (length (write_wsa_buf cn') \<le> kMaxWsaBufSize \<or> write_wsa_buf cn' = write_wsa_buf cn) \<and>
     cn' = cn\<lparr>write_wsa_buf := write_wsa_buf cn', write_pending := write_pending cn', write_status := write_status cn', wc_shut_down := wc_shut_down cn'\<rparr>"

lemma repostsD:
  assumes "reposts cn cn'"
  shows "posted cn'" "wc_shut_down cn \<Longrightarrow> wc_shut_down cn'" "iocp_status (write_status cn') = iocp_status (write_status cn)"
    "wc_fd cn' = wc_fd cn" "wc_bound cn' = wc_bound cn" "wc_on_read cn' = wc_on_read cn" "wc_on_write cn' = wc_on_write cn" "wc_on_close cn' = wc_on_close cn"
    "read_status cn' = read_status cn" "wc_read_buffer cn' = wc_read_buffer cn" "wc_write_buffer cn' = wc_write_buffer cn"
    "length (write_wsa_buf cn') \<le> kMaxWsaBufSize \<or> write_wsa_buf cn' = write_wsa_buf cn"
proof -
  have c: "cn' = cn\<lparr>write_wsa_buf := write_wsa_buf cn', write_pending := write_pending cn', write_status := write_status cn', wc_shut_down := wc_shut_down cn'\<rparr>"
    using assms unfolding reposts_def by blast
  show "posted cn'" "wc_shut_down cn \<Longrightarrow> wc_shut_down cn'" "iocp_status (write_status cn') = iocp_status (write_status cn)"
    "length (write_wsa_buf cn') \<le> kMaxWsaBufSize \<or> write_wsa_buf cn' = write_wsa_buf cn"
    using assms unfolding reposts_def by blast+
  show "wc_fd cn' = wc_fd cn" "wc_bound cn' = wc_bound cn" "wc_on_read cn' = wc_on_read cn" "wc_on_write cn' = wc_on_write cn" "wc_on_close cn' = wc_on_close cn"
    "read_status cn' = read_status cn" "wc_read_buffer cn' = wc_read_buffer cn" "wc_write_buffer cn' = wc_write_buffer cn"
    by (subst c, simp)+
qed

lemma PostWrite_posts:
  assumes cn: "win_conns s c = Some cn" "buffer_ok (wc_write_buffer cn)"
    and p: "write_pending cn \<longrightarrow> prefix (write_wsa_buf cn) (content (wc_write_buffer cn)) \<and> write_wsa_buf cn \<noteq> []"
  shows "exits_or (\<lambda>s'. \<exists>cn' w. s' = set_win c cn' w s \<and> reposts cn cn') (Some (PostWrite ws c s))"
proof (cases "wc_shut_down cn \<or> write_pending cn")
  case True
  then have "PostWrite ws c s = Inr (set_win c cn (win_world s) s)" "reposts cn cn"
    using cn(1) p by (auto simp: PostWrite_def posted_def set_win_same reposts_def)
  then show ?thesis by auto
next
  case False
  let ?l = "content (wc_write_buffer cn)"
  note pk = Peek_wsa(1) [OF cn(2)] and e = Peek_wsa(2) [OF cn(2)]
  show ?thesis
  proof (cases "?l = []")
    case True
    then have "PostWrite ws c s = Inr (set_win c (cn\<lparr>write_wsa_buf := []\<rparr>) (win_world s) s)" "reposts cn (cn\<lparr>write_wsa_buf := []\<rparr>)"
      using False cn(1) pk e by (simp_all add: PostWrite_def reposts_def posted_def)
    then show ?thesis by auto
  next
    case ne: False
    obtain r w where w: "wsa_send ws (wc_fd cn) (take 1024 ?l) (win_world s) = (r, w)" by fastforce
    let ?cn = "cn\<lparr>write_wsa_buf := take 1024 ?l, write_pending := True, write_status := UpdateRefCount True (write_status cn)\<rparr>"
    have "reposts cn ?cn" "reposts cn (?cn\<lparr>wc_shut_down := True\<rparr>)"
      using ne False by (simp_all add: reposts_def posted_def take_is_prefix UpdateRefCount_def kMaxWsaBufSize_def)
    moreover have "(\<exists>x. PostWrite ws c s = Inl (EXIT x)) \<or> PostWrite ws c s = Inr (set_win c ?cn w s) \<or>
        PostWrite ws c s = Inr (set_win c (?cn\<lparr>wc_shut_down := True\<rparr>) w s)"
      using False ne cn(1) pk e w by (auto simp: PostWrite_def socket_write_iocp_def Let_def split: wsa_ret.splits)
    ultimately show ?thesis by (auto simp: exits_or_def)
  qed
qed

section \<open>Properties\<close>

text \<open>
  Property C7. A connection on a completion port sends what it is told to, in order: whatever the application sends
  and however the kernel completes the writes, the bytes that have gone out followed by those in the
  buffer are the texts of all the calls. A write is under way exactly while something waits, so that
  nothing is left behind, and its buffer holds the next bytes, so that no write under way is overwritten.
\<close>

theorem win_sends_in_order:
  assumes "takes_writes ws" and "Win_Init ws user c has_port [] (WinConnection_new f True c s0) = Some (Inr s)"
    and "win_conns s c = Some cn" and "\<not> wc_shut_down cn" and "length (concat (map (op_text fs) ops)) < 2 ^ 32"
  shows "\<exists>wire s' cn'. win_run ws fs user c ops ([], s) = Some (Inr (wire, s')) \<and> win_conns s' c = Some cn' \<and>
     wire @ content (wc_write_buffer cn') = concat (map (op_text fs) ops) \<and>
     (write_pending cn' \<longleftrightarrow> content (wc_write_buffer cn') \<noteq> []) \<and>
     (write_pending cn' \<longrightarrow> prefix (write_wsa_buf cn') (content (wc_write_buffer cn')))"
proof -
  have e: "Buffer_Empty Buffer_new" by (simp add: Buffer_Empty_iff)
  obtain w where p: "PostRead ws c (set_win c (\<lparr>wc_fd = f, wc_bound = True, wc_on_read = None, wc_on_write = None, wc_on_close = None,
      read_wsa_buf = [], write_wsa_buf = [], read_status = SocketIocpStatus_new kPollIn, write_status = SocketIocpStatus_new kPollOut,
      write_pending = False, wc_read_buffer = Buffer_new, wc_write_buffer = Buffer_new, wc_shut_down = False, wc_send_file = True\<rparr>) w s0) = Inr s"
    using assms(2) e by (auto simp: Win_Init_def WinConnection_new_def obind_Inr Let_def)
  then have "win_sending True c [] (length (concat (map (op_text fs) ops)) + 0) s"
    using assms(3-5)
    by (auto simp: PostRead_def win_sending_def room_def SocketIocpStatus_new_def split: prod.splits wsa_ret.splits if_splits) (simp_all add: Buffer_new_def)
  from win_run_sending [OF assms(1) this, of user "[]"] obtain wire' left' s' where
    r: "win_run ws fs user c ops ([], s) = Some (Inr (wire', s'))" "win_sending True c left' 0 s'" "wire' @ left' = concat (map (op_text fs) ops)" by auto
  obtain cn' where "win_conns s' c = Some cn'" "content (wc_write_buffer cn') = left'" "write_pending cn' \<longleftrightarrow> left' \<noteq> []"
    "write_pending cn' \<longrightarrow> prefix (write_wsa_buf cn') left'" using r(2) unfolding win_sending_def by blast
  then show ?thesis using r by blast
qed

definition pending_winsock :: "string list winsock" where
  "pending_winsock =
     \<lparr>wsa_send = (\<lambda>f bs w. (SOCKET_ERROR WSA_IO_PENDING, w @ [bs])), wsa_recv = (\<lambda>f n w. (SOCKET_ERROR WSA_IO_PENDING, w)),
      win_shutdown_send = (\<lambda>f w. w), win_shutdown_receive = (\<lambda>f w. w), win_closesocket = (\<lambda>f w. (True, w)), win_associate = (\<lambda>f w. (True, w))\<rparr>"

definition no_win_user :: "(nat, string list, unit) win_user" where
  "no_win_user u c s = Some (Inr s)"

definition win_net :: "(nat, string list) win" where
  "win_net = \<lparr>win_world = [], win_conns = Map.empty\<rparr>"

lemma win_net_init:
  "\<exists>s cn. Win_Init pending_winsock no_win_user 1 True [] (WinConnection_new 7 True 1 win_net) = Some (Inr s) \<and> win_conns s 1 = Some cn \<and> \<not> wc_shut_down cn"
  by (simp add: Win_Init_def WinConnection_new_def UpdateIocpPort_def PostRead_def socket_read_iocp_def Buffer_Empty_iff pending_winsock_def)

theorem win_sends_in_order_witness:
  "\<exists>s wire s' cn'. Win_Init pending_winsock no_win_user 1 True [] (WinConnection_new 7 True 1 win_net) = Some (Inr s) \<and>
     win_run pending_winsock [''f'' \<mapsto> ''file''] no_win_user 1 [SendOp ''hello'', SentOp 2, SendFileOp ''H:'' ''f''] ([], s) = Some (Inr (wire, s')) \<and>
     win_conns s' 1 = Some cn' \<and> wire @ content (wc_write_buffer cn') = ''helloH:file''"
proof -
  obtain s cn where s: "Win_Init pending_winsock no_win_user 1 True [] (WinConnection_new 7 True 1 win_net) = Some (Inr s)" "win_conns s 1 = Some cn" "\<not> wc_shut_down cn"
    using win_net_init by blast
  have "takes_writes pending_winsock" by (simp add: takes_writes_def pending_winsock_def)
  from win_sends_in_order [OF this s, of "[''f'' \<mapsto> ''file'']" "[SendOp ''hello'', SentOp 2, SendFileOp ''H:'' ''f'']"] s(1) show ?thesis by auto
qed

text \<open>
  Property C39. A peer that closes its sending side while more than one write is left makes a connection on a
  completion port stall: after the end of the stream has been read, the completion of the write under
  way posts no further write, although bytes are left. No callback of the application has been called, in particular not that for a closed connection, whatever
  those callbacks are; neither a read nor a write is under way any more, so that no completion is to come, and \<open>Send\<close> and \<open>SendFile\<close>
  change nothing.
\<close>

theorem fin_stalls_write:
  assumes cn: "win_conns s c = Some cn" "\<not> wc_shut_down cn" "wc_bound cn" "wc_on_write cn = None" "write_pending cn"
    and st: "read_status cn = \<lparr>iocp_status = kPollIn, ref_count = 1\<rparr>" "write_status cn = \<lparr>iocp_status = kPollOut, ref_count = 1\<rparr>"
    and b: "Buffer_Empty (wc_read_buffer cn)" "buffer_ok (wc_write_buffer cn)" "k < length (content (wc_write_buffer cn))"
  shows "\<exists>s1 s2 cn2. iocp_turn ws user True (Queued c (ReadDone [])) s = Some (Inr (True, s1)) \<and>
     iocp_turn ws user True (Queued c (WriteDone k)) s1 = Some (Inr (True, s2)) \<and> win_conns s2 c = Some cn2 \<and>
     content (wc_write_buffer cn2) = drop k (content (wc_write_buffer cn)) \<and> \<not> write_pending cn2 \<and> win_world s2 = win_world s \<and>
     FreeOfRef (read_status cn2) \<and> FreeOfRef (write_status cn2) \<and> wc_on_close cn2 = wc_on_close cn \<and>
     (\<forall>buf. Win_Send ws c buf s2 = Inr s2) \<and> (\<forall>fs header filename. Win_SendFile ws fs c header filename s2 = Inr s2)"
proof -
  let ?l = "content (wc_write_buffer cn)"
  have ne: "\<not> Buffer_Empty (wc_write_buffer cn)" using Buffer_Empty_iff [OF b(2)] b(3) by auto
  let ?cn1 = "cn\<lparr>read_status := UpdateRefCount False (read_status cn), wc_shut_down := True\<rparr>"
  let ?s1 = "set_win c ?cn1 (win_world s) s"
  have "kPollIn AND kPollOut = 0" "kPollIn AND kPollIn \<noteq> 0" by (simp_all add: poll_bits)
  then have s1: "iocp_turn ws user True (Queued c (ReadDone [])) s = Some (Inr (True, ?s1))"
    using cn st(1) b(1) ne
    by (simp add: iocp_turn_defs Win_OnReadCallback_via_def Win_ReadBuffer_def close_if_done_def PostRead_def Let_def)
  have "length ?l < 2 ^ 32" by (rule length_content_less)
  then have "k mod 2 ^ 32 = k" using b(3) by simp
  then have hr: "buffer_ok (HaveRead k (wc_write_buffer cn))" "content (HaveRead k (wc_write_buffer cn)) = drop k ?l"
    using HaveRead_ok [OF b(2), of k] by simp_all
  then have ne2: "\<not> Buffer_Empty (HaveRead k (wc_write_buffer cn))" using Buffer_Empty_iff [OF hr(1)] b(3) by auto
  let ?cn2 = "?cn1\<lparr>write_status := UpdateRefCount False (write_status cn), write_pending := False, wc_write_buffer := HaveRead k (wc_write_buffer cn)\<rparr>"
  let ?s2 = "set_win c ?cn2 (win_world s) s"
  have "kPollOut AND kPollOut \<noteq> 0" "kPollOut AND kPollIn = 0" by (simp_all add: poll_bits)
  then have s2: "iocp_turn ws user True (Queued c (WriteDone k)) ?s1 = Some (Inr (True, ?s2))"
    using cn st(2) ne2
    by (simp add: iocp_turn_defs Win_OnWriteCallback_via_def Win_WriteBuffer_def win_call_def close_if_done_def PostWrite_def)
  show ?thesis
    using st by (intro exI [of _ ?s1] exI [of _ ?s2] exI [of _ ?cn2] conjI s1 s2) (simp_all add: hr(2) Win_Send_def Win_SendFile_def UpdateRefCount_def FreeOfRef_def)
qed

text \<open>
  When a read cannot be posted because the peer has reset the connection, the reference taken for it is never
  given back. With a read callback that leaves the connection alone, as one does that passes the work to another thread, the connection is shut down with nothing to send, but its close callback is not called,
  now or by any later call, and nothing is under way that could complete.
\<close>

theorem failed_read_leaks:
  assumes cn: "win_conns s c = Some cn" "\<not> wc_shut_down cn" "wc_bound cn" "\<And>s'. win_call user (wc_on_read cn) c s' = Some (Inr s')"
    and st: "iocp_status (read_status cn) = kPollIn" "ref_count (read_status cn) = 1" "Buffer_Empty (wc_write_buffer cn)" "\<not> write_pending cn"
    and d: "data \<noteq> []" "buffer_ok (wc_read_buffer cn)" "room (wc_read_buffer cn) (length data)"
    and recv: "wsa_recv ws (wc_fd cn) kMaxIocpRecvSize (win_world s) = (SOCKET_ERROR err, w)" "err \<in> {WSAECONNRESET, WSAECONNABORTED, WSAESHUTDOWN}"
  shows "\<exists>s' cn'. iocp_turn ws user True (Queued c (ReadDone data)) s = Some (Inr (True, s')) \<and> win_conns s' c = Some cn' \<and>
     wc_shut_down cn' \<and> \<not> write_pending cn' \<and> \<not> FreeOfRef (read_status cn') \<and>
     Win_OnCloseCallback ws user c s' = Some (Inr (s'\<lparr>win_world := win_shutdown_send ws (wc_fd cn) (win_world s')\<rparr>))"
proof -
  obtain rb where rb: "Buffer_Write data (wc_read_buffer cn) = Inr rb" using Buffer_Write_ok [OF d(2,3)] by metis
  let ?cn = "cn\<lparr>read_status := read_status cn, read_wsa_buf := data, wc_read_buffer := rb, wc_shut_down := True\<rparr>"
  let ?s = "set_win c ?cn (win_shutdown_send ws (wc_fd cn) w) s"
  have rs: "UpdateRefCount True (UpdateRefCount False (read_status cn)) = read_status cn" by (simp add: UpdateRefCount_def)
  have fr: "\<not> FreeOfRef (read_status cn)" using st(2) by (simp add: FreeOfRef_def)
  have "kPollIn AND kPollOut = 0" "kPollIn AND kPollIn \<noteq> 0" by (simp_all add: poll_bits)
  then have "iocp_turn ws user True (Queued c (ReadDone data)) s = Some (Inr (True, ?s))"
    using cn st d(1) rb recv rs fr
    by (auto simp: iocp_turn_defs Win_OnReadCallback_via_def Win_ReadBuffer_def win_call_def close_if_done_def PostRead_def
        socket_read_iocp_def Win_OnCloseCallback_def Let_def set_win_def)
  then show ?thesis
    using st(4) fr by (intro exI [of _ ?s] exI [of _ ?cn]) (simp add: Win_OnCloseCallback_def Let_def)
qed

definition win_sample :: "bool \<Rightarrow> nat win_connection" where
  "win_sample sending =
     \<lparr>wc_fd = 7, wc_bound = True, wc_on_read = Some 1, wc_on_write = None, wc_on_close = Some 2, read_wsa_buf = [],
      write_wsa_buf = (if sending then ''abc'' else []), read_status = \<lparr>iocp_status = kPollIn, ref_count = 1\<rparr>,
      write_status = \<lparr>iocp_status = kPollOut, ref_count = if sending then 1 else 0\<rparr>, write_pending = sending,
      wc_read_buffer = Buffer_new, wc_write_buffer = (if sending then \<lparr>read_index = 0, write_index = 3, vec = ''abc''\<rparr> else Buffer_new),
      wc_shut_down = False, wc_send_file = False\<rparr>"

theorem fin_stalls_write_witness:
  "\<exists>s1 s2 cn2. iocp_turn pending_winsock no_win_user True (Queued 1 (ReadDone [])) (win_net\<lparr>win_conns := [1 \<mapsto> win_sample True]\<rparr>) = Some (Inr (True, s1)) \<and>
     iocp_turn pending_winsock no_win_user True (Queued 1 (WriteDone 2)) s1 = Some (Inr (True, s2)) \<and> win_conns s2 1 = Some cn2 \<and>
     content (wc_write_buffer cn2) = ''c'' \<and> \<not> write_pending cn2 \<and> FreeOfRef (read_status cn2) \<and> FreeOfRef (write_status cn2) \<and>
     Win_Send pending_winsock 1 ''more'' s2 = Inr s2"
proof -
  let ?s = "win_net\<lparr>win_conns := [1 \<mapsto> win_sample True]\<rparr>"
  have h: "win_conns ?s 1 = Some (win_sample True)" "\<not> wc_shut_down (win_sample True)" "wc_bound (win_sample True)" "wc_on_write (win_sample True) = None"
    "write_pending (win_sample True)" "read_status (win_sample True) = \<lparr>iocp_status = kPollIn, ref_count = 1\<rparr>"
    "write_status (win_sample True) = \<lparr>iocp_status = kPollOut, ref_count = 1\<rparr>" "Buffer_Empty (wc_read_buffer (win_sample True))" "buffer_ok (wc_write_buffer (win_sample True))"
    by (simp_all add: win_sample_def Buffer_Empty_def Buffer_new_def buffer_ok_def)
  have "content (wc_write_buffer (win_sample True)) = ''abc''" by (simp add: win_sample_def content_def)
  then show ?thesis using fin_stalls_write [OF h, of 2 pending_winsock no_win_user] by auto
qed

definition reset_winsock :: "string list winsock" where
  "reset_winsock = pending_winsock\<lparr>wsa_recv := \<lambda>f n w. (SOCKET_ERROR WSAECONNRESET, w)\<rparr>"

theorem failed_read_leaks_witness:
  "\<exists>s' cn'. iocp_turn reset_winsock no_win_user True (Queued 1 (ReadDone ''x'')) (win_net\<lparr>win_conns := [1 \<mapsto> win_sample False]\<rparr>) = Some (Inr (True, s')) \<and>
     win_conns s' 1 = Some cn' \<and> wc_shut_down cn' \<and> Win_OnCloseCallback reset_winsock no_win_user 1 s' = Some (Inr s')"
proof -
  let ?s = "win_net\<lparr>win_conns := [1 \<mapsto> win_sample False]\<rparr>"
  have h: "win_conns ?s 1 = Some (win_sample False)" "\<not> wc_shut_down (win_sample False)" "wc_bound (win_sample False)"
    "\<And>s'. win_call no_win_user (wc_on_read (win_sample False)) 1 s' = Some (Inr s')" "iocp_status (read_status (win_sample False)) = kPollIn"
    "ref_count (read_status (win_sample False)) = 1" "Buffer_Empty (wc_write_buffer (win_sample False))" "\<not> write_pending (win_sample False)"
    "''x'' \<noteq> []" "buffer_ok (wc_read_buffer (win_sample False))" "room (wc_read_buffer (win_sample False)) (length ''x'')"
    "wsa_recv reset_winsock (wc_fd (win_sample False)) kMaxIocpRecvSize (win_world ?s) = (SOCKET_ERROR WSAECONNRESET, win_world ?s)"
    by (simp_all add: win_sample_def Buffer_Empty_def Buffer_new_def buffer_ok_def reset_winsock_def no_win_user_def win_call_def room_def)
  have i: "(s' :: (nat, string list) win)\<lparr>win_world := win_shutdown_send reset_winsock f (win_world s')\<rparr> = s'" for s' f
    by (simp add: reset_winsock_def pending_winsock_def)
  from failed_read_leaks [OF h] show ?thesis unfolding i by blast
qed

end
