(* ===== verification/Iocp_Types.thy ===== *)
theory Iocp_Types
  imports Iocp_Connection
begin

text \<open>
  A type system for connections on a completion port: what every connection is at any time, what a callback may
  do, and that no event leads outside of it.
\<close>

section \<open>Types\<close>

text \<open>
  A status has the tag of its operation, both buffers are in order and have room for \<open>n\<close> more bytes, a write under way is one of the front of the write
  buffer and fits into its \<open>WSABUF\<close>, and only the close callback may be of the kind that destroys the connection.
\<close>

definition conn_typed :: "('u \<Rightarrow> bool) \<Rightarrow> nat \<Rightarrow> 'u win_connection \<Rightarrow> bool" where
  "conn_typed closes n cn \<longleftrightarrow>
     iocp_status (read_status cn) = kPollIn \<and> iocp_status (write_status cn) = kPollOut \<and>
     buffer_ok (wc_read_buffer cn) \<and> room (wc_read_buffer cn) n \<and> buffer_ok (wc_write_buffer cn) \<and> room (wc_write_buffer cn) n \<and>
     length (write_wsa_buf cn) \<le> kMaxWsaBufSize \<and>
     (write_pending cn \<longrightarrow> prefix (write_wsa_buf cn) (content (wc_write_buffer cn)) \<and> write_wsa_buf cn \<noteq> []) \<and>
     (\<forall>u. wc_on_read cn = Some u \<or> wc_on_write cn = Some u \<longrightarrow> \<not> closes u)"

definition win_typed :: "('u \<Rightarrow> bool) \<Rightarrow> nat \<Rightarrow> ('u, 'w, 'z) win_scheme \<Rightarrow> bool" where
  "win_typed closes n s \<longleftrightarrow> (\<forall>c cn. win_conns s c = Some cn \<longrightarrow> conn_typed closes n cn)"

text \<open>A callback keeps the types, fills buffers by at most \<open>m\<close> bytes, and destroys its connection only if it is of that kind.\<close>

definition user_typed :: "('u \<Rightarrow> bool) \<Rightarrow> nat \<Rightarrow> ('u, 'w, 'z) win_user \<Rightarrow> bool" where
  "user_typed closes m user \<longleftrightarrow>
     (\<forall>u c n s. win_typed closes (m + n) s \<longrightarrow> c \<in> dom (win_conns s) \<longrightarrow>
        exits_or (\<lambda>s'. win_typed closes n s' \<and> (\<not> closes u \<longrightarrow> c \<in> dom (win_conns s'))) (user u c s))"

lemma conn_typed_le: "conn_typed closes n cn \<Longrightarrow> k \<le> n \<Longrightarrow> conn_typed closes k cn"
  by (auto simp: conn_typed_def elim: room_le)

lemma win_typed_le: "win_typed closes n s \<Longrightarrow> k \<le> n \<Longrightarrow> win_typed closes k s"
  unfolding win_typed_def by (blast intro: conn_typed_le)

lemma win_typed_set: "win_typed closes n s \<Longrightarrow> conn_typed closes n cn \<Longrightarrow> win_typed closes n (set_win c cn w s)"
  by (simp add: win_typed_def)

lemma win_typed_world [simp]: "win_typed closes n (s\<lparr>win_world := w\<rparr>) = win_typed closes n s"
  by (simp add: win_typed_def)

lemma win_typed_at:
  assumes "win_typed closes n s" and "c \<in> dom (win_conns s)"
  obtains cn where "win_conns s c = Some cn" "conn_typed closes n cn"
  using assms by (auto simp: win_typed_def)

section \<open>Operations\<close>

lemma win_call_typed:
  assumes "user_typed closes m user" and "win_typed closes (m + n) s" and "c \<in> dom (win_conns s)"
  shows "exits_or (\<lambda>s'. win_typed closes n s' \<and> ((\<forall>k. u = Some k \<longrightarrow> \<not> closes k) \<longrightarrow> c \<in> dom (win_conns s'))) (win_call user u c s)"
proof (cases u)
  case None
  then show ?thesis using assms(2,3) win_typed_le [OF assms(2), of n] by (simp add: win_call_def)
next
  case (Some k)
  then show ?thesis using assms unfolding user_typed_def by (auto simp: win_call_def)
qed

lemma OnClose_typed:
  assumes "user_typed closes m user" and "win_typed closes (m + n) s" and "c \<in> dom (win_conns s)"
  shows "exits_or (win_typed closes n) (Win_OnCloseCallback ws user c s)"
proof -
  obtain cn where cn: "win_conns s c = Some cn" using assms(3) by auto
  let ?s = "s\<lparr>win_world := win_shutdown_send ws (wc_fd cn) (win_world s)\<rparr>"
  have "exits_or (win_typed closes n) (win_call user (wc_on_close cn) c ?s)"
    using win_call_typed [OF assms(1), of n ?s c "wc_on_close cn"] assms(2,3) by (auto elim: exits_or_mono)
  then show ?thesis using cn win_typed_le [OF assms(2), of n] by (simp add: Win_OnCloseCallback_def Let_def)
qed

lemma close_if_done_typed:
  assumes "user_typed closes m user" and "win_typed closes (m + n) s" and "c \<in> dom (win_conns s)" and "exits_or (win_typed closes n) (k s)"
  shows "exits_or (win_typed closes n) (close_if_done ws user c k s)"
  using OnClose_typed [OF assms(1-3)] assms(3,4) by (auto simp: close_if_done_def)

lemma PostRead_typed:
  assumes "win_typed closes n s" and "c \<in> dom (win_conns s)"
  shows "exits_or (\<lambda>s'. win_typed closes n s' \<and> c \<in> dom (win_conns s')) (Some (PostRead ws c s))"
proof -
  obtain cn where cn: "win_conns s c = Some cn" "conn_typed closes n cn" using assms by (rule win_typed_at)
  obtain r w where w: "wsa_recv ws (wc_fd cn) kMaxIocpRecvSize (win_world s) = (r, w)" by fastforce
  have "conn_typed closes n (cn\<lparr>read_status := UpdateRefCount True (read_status cn)\<rparr>)"
    "conn_typed closes n (cn\<lparr>read_status := UpdateRefCount True (read_status cn), wc_shut_down := True\<rparr>)"
    using cn(2) by (simp_all add: conn_typed_def UpdateRefCount_def)
  then show ?thesis
    using assms cn(1) w by (auto simp: PostRead_def socket_read_iocp_def split: wsa_ret.split intro: win_typed_set)
qed

lemma PostWrite_typed:
  assumes "win_typed closes n s" and "c \<in> dom (win_conns s)"
  shows "exits_or (\<lambda>s'. win_typed closes n s' \<and> c \<in> dom (win_conns s')) (Some (PostWrite ws c s))"
proof -
  obtain cn where cn: "win_conns s c = Some cn" "conn_typed closes n cn" using assms by (rule win_typed_at)
  have "exits_or (\<lambda>s'. \<exists>cn' w. s' = set_win c cn' w s \<and> reposts cn cn') (Some (PostWrite ws c s))"
    using cn by (intro PostWrite_posts) (auto simp: conn_typed_def)
  moreover have "conn_typed closes n cn'" if "reposts cn cn'" for cn'
    using repostsD [OF that] cn(2) by (auto simp: conn_typed_def posted_def)
  ultimately show ?thesis using assms(1) by (fastforce elim!: exits_or_mono intro: win_typed_set)
qed

text \<open>Both callbacks end by posting the next operation, with a look at whether the connection is to be closed before and after.\<close>

lemma post_close_typed:
  fixes s :: "('u, 'w, 'z) win_scheme"
  assumes u: "user_typed closes m user"
    and post: "\<And>s :: ('u, 'w, 'z) win_scheme. win_typed closes (m + n) s \<Longrightarrow> c \<in> dom (win_conns s) \<Longrightarrow>
        exits_or (\<lambda>s'. win_typed closes (m + n) s' \<and> c \<in> dom (win_conns s')) (Some (post s))"
    and s: "win_typed closes (m + n) s \<and> c \<in> dom (win_conns s)"
  shows "exits_or (win_typed closes n) (close_if_done ws user c (\<lambda>s3. obind (Some (post s3)) (close_if_done ws user c (\<lambda>s4. Some (Inr s4)))) s)"
proof -
  have last: "exits_or (win_typed closes n) (close_if_done ws user c (\<lambda>s4. Some (Inr s4)) s3)"
    if "win_typed closes (m + n) s3 \<and> c \<in> dom (win_conns s3)" for s3 :: "('u, 'w, 'z) win_scheme"
    using that win_typed_le [of closes "m + n" s3 n] by (intro close_if_done_typed [OF u]) simp_all
  have "exits_or (win_typed closes n) (obind (Some (post s)) (close_if_done ws user c (\<lambda>s4. Some (Inr s4))))"
    using s by (intro exits_or_bind [OF post last]) simp_all
  then show ?thesis using s by (intro close_if_done_typed [OF u]) simp_all
qed

text \<open>Bytes added to one of the buffers.\<close>

lemma conn_typed_write:
  assumes "conn_typed closes (length bs + n) cn"
  shows "\<exists>b. Buffer_Write bs (wc_write_buffer cn) = Inr b \<and> conn_typed closes n (cn\<lparr>wc_write_buffer := b\<rparr>)"
proof -
  have wb: "buffer_ok (wc_write_buffer cn)" "room (wc_write_buffer cn) (length bs + n)" "room (wc_read_buffer cn) (length bs + n)"
    using assms by (simp_all add: conn_typed_def)
  obtain b where "Buffer_Write bs (wc_write_buffer cn) = Inr b" "buffer_ok b" "content b = content (wc_write_buffer cn) @ bs" "room b n"
    using Buffer_Write_ok [OF wb(1) room_le [OF wb(2)]] wb(2) by (metis le_add1)
  then show ?thesis using assms room_le [OF wb(3), of n] by (auto simp: conn_typed_def intro: prefix_prefix)
qed

lemma conn_typed_read:
  assumes "conn_typed closes (length bs + n) cn"
  shows "\<exists>b. Buffer_Write bs (wc_read_buffer cn) = Inr b \<and> conn_typed closes n (cn\<lparr>read_wsa_buf := bs, wc_read_buffer := b\<rparr>)"
proof -
  have rb: "buffer_ok (wc_read_buffer cn)" "room (wc_read_buffer cn) (length bs + n)" "room (wc_write_buffer cn) (length bs + n)"
    using assms by (simp_all add: conn_typed_def)
  obtain b where "Buffer_Write bs (wc_read_buffer cn) = Inr b" "buffer_ok b" "room b n"
    using Buffer_Write_ok [OF rb(1) room_le [OF rb(2)]] rb(2) by (metis le_add1)
  then show ?thesis using assms room_le [OF rb(3), of n] by (simp add: conn_typed_def)
qed

lemma Send_typed:
  assumes "win_typed closes (length buf + n) s" and "c \<in> dom (win_conns s)"
  shows "exits_or (win_typed closes n) (Some (Win_Send ws c buf s))"
proof -
  obtain cn where cn: "win_conns s c = Some cn" "conn_typed closes (length buf + n) cn" using assms by (rule win_typed_at)
  obtain b where b: "Buffer_Write buf (wc_write_buffer cn) = Inr b" "conn_typed closes n (cn\<lparr>wc_write_buffer := b\<rparr>)" using conn_typed_write [OF cn(2)] by blast
  let ?s = "set_win c (cn\<lparr>wc_write_buffer := b\<rparr>) (win_world s) s"
  have s: "win_typed closes n s" using assms(1) by (rule win_typed_le) simp
  then have "win_typed closes n ?s" using b(2) by (rule win_typed_set)
  from PostWrite_typed [OF this, of c ws] have "exits_or (win_typed closes n) (Some (PostWrite ws c ?s))" by (auto elim: exits_or_mono)
  then show ?thesis using cn(1) b(1) s by (simp add: Win_Send_def)
qed

lemma SendFile_typed:
  assumes "win_typed closes (length header + (length (ReadFileAsString fs filename) + n)) s" and "c \<in> dom (win_conns s)"
  shows "exits_or (win_typed closes n) (Some (Win_SendFile ws fs c header filename s))"
proof -
  let ?f = "ReadFileAsString fs filename"
  obtain cn where cn: "win_conns s c = Some cn" "conn_typed closes (length header + (length ?f + n)) cn" using assms by (rule win_typed_at)
  obtain b where b: "Buffer_Write header (wc_write_buffer cn) = Inr b" "conn_typed closes (length ?f + n) (cn\<lparr>wc_write_buffer := b\<rparr>)"
    using conn_typed_write [OF cn(2)] by blast
  obtain b' where b': "Buffer_Write ?f b = Inr b'" "conn_typed closes n (cn\<lparr>wc_write_buffer := b'\<rparr>)" using conn_typed_write [OF b(2)] by auto
  let ?s = "set_win c (cn\<lparr>wc_write_buffer := b'\<rparr>) (win_world s) s"
  have s: "win_typed closes n s" using assms(1) by (rule win_typed_le) simp
  then have "win_typed closes n ?s" using b'(2) by (rule win_typed_set)
  from PostWrite_typed [OF this, of c ws] have "exits_or (win_typed closes n) (Some (PostWrite ws c ?s))" by (auto elim: exits_or_mono)
  then show ?thesis using cn(1) b(1) b'(1) s by (simp add: Win_SendFile_def)
qed

lemma OnRead_typed:
  fixes s :: "('u, 'w, 'z) win_scheme"
  assumes u: "user_typed closes m user" and s: "win_typed closes (length data + (m + (m + n))) s" and c: "c \<in> dom (win_conns s)"
  shows "exits_or (win_typed closes n) (Win_OnReadCallback_via ws plain_reads user c data s)"
proof -
  obtain cn where cn: "win_conns s c = Some cn" "conn_typed closes (length data + (m + (m + n))) cn" using s c by (rule win_typed_at)
  have s0: "win_typed closes (m + (m + n)) s" "win_typed closes (m + n) s" using win_typed_le [OF s] by simp_all
  have rd: "exits_or (\<lambda>(r, s1). win_typed closes (m + (m + n)) s1 \<and> c \<in> dom (win_conns s1)) (plain_reads c data s)"
    using conn_typed_read [OF cn(2)] cn(1) s0(1) c by (auto simp: plain_reads_def Win_ReadBuffer_def intro: win_typed_set)
  have cont: "exits_or (win_typed closes n) (obind (Some (get_win c s1)) (\<lambda>cn1.
       let cn2 = (if ret \<le> 0 then cn1\<lparr>wc_shut_down := True\<rparr> else cn1); s2 = set_win c cn2 (win_world s1) s1 in
       obind (if Buffer_Empty (wc_read_buffer cn2) then Some (Inr s2) else win_call user (wc_on_read cn2) c s2)
         (close_if_done ws user c (\<lambda>s3. obind (Some (PostRead ws c s3)) (close_if_done ws user c (\<lambda>s4. Some (Inr s4)))))))"
    if s1: "win_typed closes (m + (m + n)) s1" "c \<in> dom (win_conns s1)" for ret :: int and s1 :: "('u, 'w, 'z) win_scheme"
  proof -
    obtain cn1 where cn1: "win_conns s1 c = Some cn1" "conn_typed closes (m + (m + n)) cn1" using s1 by (rule win_typed_at)
    define cn2 where "cn2 = (if ret \<le> 0 then cn1\<lparr>wc_shut_down := True\<rparr> else cn1)"
    let ?s = "set_win c cn2 (win_world s1) s1"
    have t: "conn_typed closes (m + (m + n)) cn2" using cn1(2) by (simp add: cn2_def conn_typed_def)
    then have T: "win_typed closes (m + (m + n)) ?s" "c \<in> dom (win_conns ?s)" using win_typed_set [OF s1(1)] by simp_all
    have nc: "\<forall>k. wc_on_read cn2 = Some k \<longrightarrow> \<not> closes k" using t by (simp add: conn_typed_def)
    have "exits_or (\<lambda>s'. win_typed closes (m + n) s' \<and> c \<in> dom (win_conns s'))
        (if Buffer_Empty (wc_read_buffer cn2) then Some (Inr ?s) else win_call user (wc_on_read cn2) c ?s)"
      using win_call_typed [OF u T, of "wc_on_read cn2"] nc win_typed_le [OF T(1), of "m + n"] T(2) by simp
    from exits_or_bind [OF this post_close_typed [OF u PostRead_typed]] have "exits_or (win_typed closes n)
        (obind (if Buffer_Empty (wc_read_buffer cn2) then Some (Inr ?s) else win_call user (wc_on_read cn2) c ?s)
           (close_if_done ws user c (\<lambda>s3. obind (Some (PostRead ws c s3)) (close_if_done ws user c (\<lambda>s4. Some (Inr s4))))))" by simp
    then show ?thesis using cn1(1) by (simp only: get_win_Some obind_simps Let_def cn2_def)
  qed
  show ?thesis
    unfolding Win_OnReadCallback_via_def
    using cn(1) OnClose_typed [OF u s0(2) c] by (auto intro!: exits_or_bind [OF rd] cont [simplified])
qed

lemma OnWrite_typed:
  fixes s :: "('u, 'w, 'z) win_scheme"
  assumes u: "user_typed closes m user" and s: "win_typed closes (m + (m + n)) s" and c: "c \<in> dom (win_conns s)"
  shows "exits_or (win_typed closes n) (Win_OnWriteCallback_via ws plain_writes user c k s)"
proof -
  obtain cn where cn: "win_conns s c = Some cn" "conn_typed closes (m + (m + n)) cn" using s c by (rule win_typed_at)
  let ?cn = "cn\<lparr>write_pending := False, wc_write_buffer := HaveRead k (wc_write_buffer cn)\<rparr>"
  let ?s = "set_win c ?cn (win_world s) s"
  have "conn_typed closes (m + (m + n)) ?cn" using cn(2) HaveRead_ok(1) HaveRead_room by (auto simp: conn_typed_def)
  then have T: "win_typed closes (m + (m + n)) ?s" "c \<in> dom (win_conns ?s)" using win_typed_set [OF s] by simp_all
  have nc: "\<forall>k. wc_on_write cn = Some k \<longrightarrow> \<not> closes k" using cn(2) by (simp add: conn_typed_def)
  have "exits_or (\<lambda>s'. win_typed closes (m + n) s' \<and> c \<in> dom (win_conns s')) (win_call user (wc_on_write cn) c ?s)"
    using win_call_typed [OF u T, of "wc_on_write cn"] nc by simp
  from exits_or_bind [OF this post_close_typed [OF u PostWrite_typed]] show ?thesis
    using cn(1) by (simp add: Win_OnWriteCallback_via_def plain_writes_def Win_WriteBuffer_def)
qed

section \<open>Property\<close>

datatype win_event = AppSend addr string | AppSendFile addr string string | Completed queued

fun event_do ::
  "'w winsock \<Rightarrow> files \<Rightarrow> ('u, 'w, 'z) win_user \<Rightarrow> bool \<Rightarrow> win_event \<Rightarrow> ('u, 'w, 'z) win_scheme \<Rightarrow> (bool \<times> ('u, 'w, 'z) win_scheme) res option" where
  "event_do ws fs user running (AppSend c buf) s = obind (Some (Win_Send ws c buf s)) (\<lambda>s'. Some (Inr (running, s')))"
| "event_do ws fs user running (AppSendFile c header filename) s = obind (Some (Win_SendFile ws fs c header filename s)) (\<lambda>s'. Some (Inr (running, s')))"
| "event_do ws fs user running (Completed q) s = iocp_turn ws user running q s"

text \<open>The connections an event is about, and the number of bytes it brings.\<close>

fun event_conns :: "win_event \<Rightarrow> addr set" where
  "event_conns (AppSend c _) = {c}"
| "event_conns (AppSendFile c _ _) = {c}"
| "event_conns (Completed (Queued c _)) = {c}"
| "event_conns _ = {}"

fun event_size :: "files \<Rightarrow> win_event \<Rightarrow> nat" where
  "event_size fs (AppSend _ buf) = length buf"
| "event_size fs (AppSendFile _ header filename) = length header + length (ReadFileAsString fs filename)"
| "event_size fs (Completed (Queued _ (ReadDone data))) = length data"
| "event_size fs _ = 0"

text \<open>An event of a connection that exists.\<close>

lemma live_event_typed:
  assumes "user_typed closes m user" and "win_typed closes (event_size fs ev + (m + (m + n))) s" and "event_conns ev \<subseteq> dom (win_conns s)"
  shows "exits_or (\<lambda>(go, s'). win_typed closes n s') (event_do ws fs user running ev s)"
proof (cases ev)
  case (AppSend c buf)
  have "win_typed closes (length buf + n) s" using assms(2) AppSend by (elim win_typed_le) simp
  from Send_typed [OF this, of c ws] assms(3) AppSend show ?thesis by (auto intro!: exits_or_bind)
next
  case (AppSendFile c header filename)
  have "win_typed closes (length header + (length (ReadFileAsString fs filename) + n)) s" using assms(2) AppSendFile by (elim win_typed_le) simp
  from SendFile_typed [OF this, of c ws] assms(3) AppSendFile show ?thesis by (auto intro!: exits_or_bind)
next
  case (Completed q)
  show ?thesis
  proof (cases q)
    case (Queued c io)
    have c: "c \<in> dom (win_conns s)" using assms(3) Completed Queued by simp
    have n: "win_typed closes n s" using assms(2) by (rule win_typed_le) simp
    show ?thesis
    proof (cases io)
      case (ReadDone data)
      obtain cn where cn: "win_conns s c = Some cn" "conn_typed closes (length data + (m + (m + n))) cn"
        using win_typed_at [OF assms(2) c] Completed Queued ReadDone by auto
      let ?s = "set_win c (cn\<lparr>read_status := UpdateRefCount False (read_status cn)\<rparr>) (win_world s) s"
      have "conn_typed closes (length data + (m + (m + n))) (cn\<lparr>read_status := UpdateRefCount False (read_status cn)\<rparr>)"
        using cn(2) by (simp add: conn_typed_def UpdateRefCount_def)
      then have T: "win_typed closes (length data + (m + (m + n))) ?s" using assms(2) Completed Queued ReadDone by (intro win_typed_set) simp_all
      then have T': "win_typed closes n ?s" by (rule win_typed_le) simp
      note r = OnRead_typed [OF assms(1) T, of c ws, simplified]
      have "kPollIn AND kPollOut = 0" "kPollIn AND kPollIn \<noteq> 0" "iocp_status (read_status cn) = kPollIn" using cn(2) by (simp_all add: poll_bits conn_typed_def)
      then show ?thesis
        using cn(1) T' by (auto simp: Completed Queued ReadDone iocp_turn_def iocp_turn_via_def count_off_def Win_HandleEvents_def obind_return intro!: exits_or_bind [OF r])
    next
      case (WriteDone k)
      obtain cn where cn: "win_conns s c = Some cn" "conn_typed closes (m + (m + n)) cn"
        using win_typed_at [OF assms(2) c] Completed Queued WriteDone by auto
      let ?s = "set_win c (cn\<lparr>write_status := UpdateRefCount False (write_status cn)\<rparr>) (win_world s) s"
      have "conn_typed closes (m + (m + n)) (cn\<lparr>write_status := UpdateRefCount False (write_status cn)\<rparr>)"
        using cn(2) by (simp add: conn_typed_def UpdateRefCount_def)
      then have T: "win_typed closes (m + (m + n)) ?s" using assms(2) Completed Queued WriteDone by (intro win_typed_set) simp_all
      then have T': "win_typed closes n ?s" by (rule win_typed_le) simp
      note r = OnWrite_typed [OF assms(1) T, of c ws k, simplified]
      have "kPollOut AND kPollOut \<noteq> 0" "kPollOut AND kPollIn = 0" "iocp_status (write_status cn) = kPollOut" using cn(2) by (simp_all add: poll_bits conn_typed_def)
      then show ?thesis
        using cn(1) T' by (auto simp: Completed Queued WriteDone iocp_turn_def iocp_turn_via_def count_off_def Win_HandleEvents_def obind_return intro!: exits_or_bind [OF r])
    qed
  qed (use assms(2) win_typed_le [OF assms(2), of n] in \<open>auto simp: Completed iocp_turn_def iocp_turn_via_def\<close>)
qed

lemma dead_event_undefined: "\<not> event_conns ev \<subseteq> dom (win_conns s) \<Longrightarrow> \<exists>x. event_do ws fs user running ev s = Some (Inl (UB x))"
  by (cases "(fs, ev)" rule: event_size.cases)
    (auto simp: Win_Send_def Win_SendFile_def iocp_turn_def iocp_turn_via_def count_off_def get_win_def split: option.splits)

text \<open>
  Property C9. Connections on a completion port are type safe: in a state where every connection is of its type, with callbacks of
  theirs, a call of \<open>Send\<close> or \<open>SendFile\<close> and a completion end in such a state or end the process through \<open>EXIT\<close>, as long as the connection they are about
  exists; nothing is undefined then and nothing hangs. A call or a completion of a connection that has been destroyed, and only that, is undefined. The
  size of an event and twice the size of a callback's output is all the room it takes.
\<close>

theorem win_type_safe:
  assumes "user_typed closes m user" and "win_typed closes (event_size fs ev + (m + (m + n))) s"
  shows "if event_conns ev \<subseteq> dom (win_conns s) then exits_or (\<lambda>(go, s'). win_typed closes n s') (event_do ws fs user running ev s)
     else \<exists>x. event_do ws fs user running ev s = Some (Inl (UB x))"
  using live_event_typed [OF assms] dead_event_undefined [of ev s ws fs user running] by (cases "event_conns ev \<subseteq> dom (win_conns s)") simp_all

text \<open>An application whose close callback destroys the connection.\<close>

definition dropping_user :: "(nat, string list, unit) win_user" where
  "dropping_user u c s = Some (Inr (if u = 2 then s\<lparr>win_conns := (win_conns s)(c := None)\<rparr> else s))"

theorem win_type_safe_witness:
  "exits_or (\<lambda>(go, s'). win_typed (\<lambda>u. u = 2) 1000 s')
     (event_do pending_winsock Map.empty dropping_user True (Completed (Queued 1 (ReadDone ''x''))) (win_net\<lparr>win_conns := [1 \<mapsto> win_sample True]\<rparr>)) \<and>
   (\<exists>x. event_do pending_winsock Map.empty dropping_user True (Completed (Queued 2 (ReadDone ''x''))) (win_net\<lparr>win_conns := [1 \<mapsto> win_sample True]\<rparr>) = Some (Inl (UB x)))"
proof -
  let ?s = "win_net\<lparr>win_conns := [1 \<mapsto> win_sample True]\<rparr>"
  have u: "user_typed (\<lambda>u. u = 2) 0 dropping_user" by (auto simp: user_typed_def dropping_user_def win_typed_def)
  have "conn_typed (\<lambda>u. u = 2) (event_size Map.empty (Completed (Queued 1 (ReadDone ''x''))) + (0 + (0 + 1000))) (win_sample True)"
    by (simp add: conn_typed_def win_sample_def buffer_ok_def content_def room_def Buffer_new_def kMaxWsaBufSize_def)
  then have s: "win_typed (\<lambda>u. u = 2) (event_size Map.empty (Completed (Queued 1 (ReadDone ''x''))) + (0 + (0 + 1000))) ?s" by (simp add: win_typed_def)
  show ?thesis
  proof
    show "exits_or (\<lambda>(go, s'). win_typed (\<lambda>u. u = 2) 1000 s') (event_do pending_winsock Map.empty dropping_user True (Completed (Queued 1 (ReadDone ''x''))) ?s)"
      using win_type_safe [OF u s, of pending_winsock True] by simp
    show "\<exists>x. event_do pending_winsock Map.empty dropping_user True (Completed (Queued 2 (ReadDone ''x''))) ?s = Some (Inl (UB x))"
      using win_type_safe [OF u, of Map.empty "Completed (Queued 2 (ReadDone ''x''))" 1000 ?s pending_winsock True] s by simp
  qed
qed

end
