(* ===== verification/Iocp_Tls.thy ===== *)
theory Iocp_Tls
  imports Iocp_Connection Tls_Connection
begin

text \<open>
  \<^verbatim>\<open>ladder/src/TlsConnection.cpp\<close> as it is built on Windows: a connection on a completion port whose bytes go through
  \<open>OpenSSL\<close>. Its part beside the base class is the same as on Linux, and so are the loops \<open>Encrypt\<close> and \<open>Decrypt\<close>; what
  the engine has written is sent by \<open>PostWrite\<close>, and the bytes that come are those of a completed read.
\<close>

section \<open>State\<close>

record ('u, 'w, 'e) win_tls = "('u, 'w) win" +
  wtls_parts :: "addr \<rightharpoonup> 'e tls_part"

definition get_wtls :: "addr \<Rightarrow> ('u, 'w, 'e, 'z) win_tls_scheme \<Rightarrow> 'e tls_part res" where
  "get_wtls c s = (case wtls_parts s c of None \<Rightarrow> Inl (UB ''not a TlsConnection'') | Some p \<Rightarrow> Inr p)"

definition set_wtls :: "addr \<Rightarrow> 'e tls_part \<Rightarrow> ('u, 'w, 'e, 'z) win_tls_scheme \<Rightarrow> ('u, 'w, 'e, 'z) win_tls_scheme" where
  "set_wtls c p s = s\<lparr>wtls_parts := (wtls_parts s)(c \<mapsto> p)\<rparr>"

definition set_engine :: "addr \<Rightarrow> 'e \<Rightarrow> 'e tls_part \<Rightarrow> ('u, 'w, 'e, 'z) win_tls_scheme \<Rightarrow> ('u, 'w, 'e, 'z) win_tls_scheme" where
  "set_engine c e p s = set_wtls c (p\<lparr>ssl_engine := e\<rparr>) s"

definition WinTls_new :: "'e openssl \<Rightarrow> fd \<Rightarrow> bool \<Rightarrow> addr \<Rightarrow> ('u, 'w, 'e, 'z) win_tls_scheme \<Rightarrow> ('u, 'w, 'e, 'z) win_tls_scheme" where
  "WinTls_new ssl f server c s =
     set_wtls c \<lparr>ssl_engine = SSL_new ssl server, tls_accepted = False, is_server = server, pre_write_buffer = Buffer_new\<rparr>
       (WinConnection_new f False c s)"

definition WinTls_destroy :: "'w winsock \<Rightarrow> addr \<Rightarrow> ('u, 'w, 'e, 'z) win_tls_scheme \<Rightarrow> ('u, 'w, 'e, 'z) win_tls_scheme res" where
  "WinTls_destroy ws c s =
     sbind (get_wtls c s) (\<lambda>p. WinConnection_destroy ws c (s\<lparr>wtls_parts := (wtls_parts s)(c := None)\<rparr>))"

section \<open>Sending\<close>

text \<open>The calls of \<open>Encrypt\<close> and \<open>PostWrite\<close>, which follow each other; the write buffer of a connection on Windows is a \<open>Buffer\<close>.\<close>

definition encrypt_post ::
  "'w winsock \<Rightarrow> 'e openssl \<Rightarrow> addr \<Rightarrow> ('u, 'w, 'e, 'z) win_tls_scheme \<Rightarrow> ('u, 'w, 'e, 'z) win_tls_scheme res option" where
  "encrypt_post ws ssl c s =
     obind (Some (get_win c s)) (\<lambda>cn.
     obind (Some (get_wtls c s)) (\<lambda>p.
     obind (Encrypt ssl (ssl_engine p) (Plain (wc_write_buffer cn))) (\<lambda>(e, wb).
       case wb of
         Plain b \<Rightarrow> Some (PostWrite ws c (set_win c (cn\<lparr>wc_write_buffer := b\<rparr>) (win_world s) (set_engine c e p s)))
       | Files _ \<Rightarrow> Some (Inl (UB ''not a Buffer'')))))"

partial_function (option) wtls_write_loop ::
  "'w winsock \<Rightarrow> 'e openssl \<Rightarrow> addr \<Rightarrow> string \<Rightarrow> int \<Rightarrow> int \<Rightarrow> ('u, 'w, 'e, 'z) win_tls_scheme \<Rightarrow> ('u, 'w, 'e, 'z) win_tls_scheme res option" where
  "wtls_write_loop ws ssl c buf n_written len s =
     (if n_written < len
      then case get_wtls c s of
             Inl x \<Rightarrow> Some (Inl x)
           | Inr p \<Rightarrow>
              (case SSL_write ssl (take (nat (len - n_written)) (drop (nat n_written) buf)) (ssl_engine p) of
                 (n, e) \<Rightarrow>
                   (if 0 < n
                    then Option.bind (encrypt_post ws ssl c (set_engine c e p s)) (\<lambda>r. case r of
                           Inl x \<Rightarrow> Some (Inl x)
                         | Inr s' \<Rightarrow> wtls_write_loop ws ssl c buf (n_written + n) len s')
                    else Some (Inr (set_engine c e p s))))
      else Some (Inr s))"

definition WinTls_Send ::
  "'w winsock \<Rightarrow> 'e openssl \<Rightarrow> addr \<Rightarrow> string \<Rightarrow> ('u, 'w, 'e, 'z) win_tls_scheme \<Rightarrow> ('u, 'w, 'e, 'z) win_tls_scheme res option" where
  "WinTls_Send ws ssl c buf s =
     obind (Some (get_win c s)) (\<lambda>cn.
     obind (Some (get_wtls c s)) (\<lambda>p.
       if wc_shut_down cn then Some (Inr s)
       else if \<not> SSL_is_init_finished ssl (ssl_engine p)
       then obind (Some (Buffer_Write buf (pre_write_buffer p))) (\<lambda>b. Some (Inr (set_wtls c (p\<lparr>pre_write_buffer := b\<rparr>) s)))
       else wtls_write_loop ws ssl c buf 0 (to_i32 (int (length buf))) s))"

section \<open>The handshake and receiving\<close>

definition WinTls_HandleSslError ::
  "'w winsock \<Rightarrow> 'e openssl \<Rightarrow> addr \<Rightarrow> int \<Rightarrow> ('u, 'w, 'e, 'z) win_tls_scheme \<Rightarrow> (int \<times> ('u, 'w, 'e, 'z) win_tls_scheme) res option" where
  "WinTls_HandleSslError ws ssl c n s =
     (if 0 < n then Some (Inr (1, s))
      else
        obind (Some (get_wtls c s)) (\<lambda>p.
          case SSL_get_error ssl n (ssl_engine p) of
            SSL_ERROR_NONE \<Rightarrow> Some (Inr (0, s))
          | SSL_ERROR_OTHER \<Rightarrow> Some (Inr (-1, s))
          | _ \<Rightarrow> obind (encrypt_post ws ssl c s) (\<lambda>s'. Some (Inr (0, s')))))"

definition WinTls_OnSslHandshakeFinished ::
  "'w winsock \<Rightarrow> 'e openssl \<Rightarrow> addr \<Rightarrow> ('u, 'w, 'e, 'z) win_tls_scheme \<Rightarrow> ('u, 'w, 'e, 'z) win_tls_scheme res option" where
  "WinTls_OnSslHandshakeFinished ws ssl c s =
     obind (Some (get_wtls c s)) (\<lambda>p.
     obind (Some (Buffer_ReadAll (pre_write_buffer p))) (\<lambda>(buf, b).
       WinTls_Send ws ssl c buf (set_wtls c (p\<lparr>pre_write_buffer := b\<rparr>) s)))"

definition wtls_handshake ::
  "'w winsock \<Rightarrow> 'e openssl \<Rightarrow> addr \<Rightarrow> ('u, 'w, 'e, 'z) win_tls_scheme \<Rightarrow> (int \<times> ('u, 'w, 'e, 'z) win_tls_scheme) res option" where
  "wtls_handshake ws ssl c s =
     obind (Some (get_wtls c s)) (\<lambda>p.
       let (n, e) = SSL_do_handshake ssl (ssl_engine p); s1 = set_engine c e p s in
       if 0 < n then obind (WinTls_OnSslHandshakeFinished ws ssl c s1) (\<lambda>s2. Some (Inr (n, s2))) else Some (Inr (n, s1)))"

text \<open>The body of \<open>ReadFromBuffer\<close> after \<open>BIO_write\<close>; the flag says whether the function returns \<open>-1\<close>.\<close>

definition wtls_decrypted ::
  "'w winsock \<Rightarrow> 'e openssl \<Rightarrow> addr \<Rightarrow> ('u, 'w, 'e, 'z) win_tls_scheme \<Rightarrow> (bool \<times> ('u, 'w, 'e, 'z) win_tls_scheme) res option" where
  "wtls_decrypted ws ssl c s =
     obind (Some (get_win c s)) (\<lambda>cn.
     obind (Some (get_wtls c s)) (\<lambda>p.
     obind (Decrypt ssl (ssl_engine p) (wc_read_buffer cn)) (\<lambda>(n_read, e, rb).
     obind (WinTls_HandleSslError ws ssl c n_read (set_win c (cn\<lparr>wc_read_buffer := rb\<rparr>) (win_world s) (set_engine c e p s))) (\<lambda>(r, s1).
       Some (Inr (r < 0, s1))))))"

definition wtls_read_step ::
  "'w winsock \<Rightarrow> 'e openssl \<Rightarrow> addr \<Rightarrow> ('u, 'w, 'e, 'z) win_tls_scheme \<Rightarrow> (bool \<times> ('u, 'w, 'e, 'z) win_tls_scheme) res option" where
  "wtls_read_step ws ssl c s =
     obind (Some (get_wtls c s)) (\<lambda>p.
       if SSL_is_init_finished ssl (ssl_engine p) then wtls_decrypted ws ssl c s
       else
         obind (wtls_handshake ws ssl c s) (\<lambda>(n_accepted, s1).
         obind (WinTls_HandleSslError ws ssl c n_accepted s1) (\<lambda>(r, s2).
           if r < 0 then Some (Inr (True, s2))
           else
             obind (Some (get_wtls c s2)) (\<lambda>p2.
               if SSL_is_init_finished ssl (ssl_engine p2) then wtls_decrypted ws ssl c s2 else Some (Inr (False, s2))))))"

partial_function (option) wtls_read_loop ::
  "'w winsock \<Rightarrow> 'e openssl \<Rightarrow> addr \<Rightarrow> string \<Rightarrow> ('u, 'w, 'e, 'z) win_tls_scheme \<Rightarrow> (bool \<times> ('u, 'w, 'e, 'z) win_tls_scheme) res option" where
  "wtls_read_loop ws ssl c src s =
     (if src = [] then Some (Inr (False, s))
      else
        case get_wtls c s of
          Inl x \<Rightarrow> Some (Inl x)
        | Inr p \<Rightarrow>
           (case BIO_write_in ssl src (ssl_engine p) of
              (n, e) \<Rightarrow>
                (if n \<le> 0 then Some (Inl (EXIT ''BIO_write.''))
                 else
                   Option.bind (wtls_read_step ws ssl c (set_engine c e p s)) (\<lambda>r. case r of
                     Inl x \<Rightarrow> Some (Inl x)
                   | Inr (fail, s') \<Rightarrow> (if fail then Some (Inr (True, s')) else wtls_read_loop ws ssl c (drop (nat n) src) s')))))"

definition WinTls_ReadFromBuffer ::
  "'w winsock \<Rightarrow> 'e openssl \<Rightarrow> addr \<Rightarrow> string \<Rightarrow> ('u, 'w, 'e, 'z) win_tls_scheme \<Rightarrow> (bool \<times> ('u, 'w, 'e, 'z) win_tls_scheme) res option" where
  "WinTls_ReadFromBuffer ws ssl c src s =
     (let len = to_i32 (int (length src)) in if len \<le> 0 then Some (Inr (False, s)) else wtls_read_loop ws ssl c (take (nat len) src) s)"

definition WinTls_ReadBuffer ::
  "'w winsock \<Rightarrow> 'e openssl \<Rightarrow> addr \<Rightarrow> string \<Rightarrow> ('u, 'w, 'e, 'z) win_tls_scheme \<Rightarrow> (int \<times> ('u, 'w, 'e, 'z) win_tls_scheme) res option" where
  "WinTls_ReadBuffer ws ssl c data s =
     obind (Some (get_win c s)) (\<lambda>cn.
     obind (WinTls_ReadFromBuffer ws ssl c data (set_win c (cn\<lparr>read_wsa_buf := data\<rparr>) (win_world s) s)) (\<lambda>(fail, s').
       Some (Inr (if fail then -2 else int (length data), s'))))"

text \<open>A client takes a step of the handshake whenever a write has completed, before the bytes of that write leave the buffer.\<close>

definition WinTls_WriteBuffer ::
  "'w winsock \<Rightarrow> 'e openssl \<Rightarrow> addr \<Rightarrow> nat \<Rightarrow> ('u, 'w, 'e, 'z) win_tls_scheme \<Rightarrow> ('u, 'w, 'e, 'z) win_tls_scheme res option" where
  "WinTls_WriteBuffer ws ssl c io_size s =
     obind (Some (get_wtls c s)) (\<lambda>p.
       if is_server p \<or> SSL_is_init_finished ssl (ssl_engine p) then Some (Win_WriteBuffer c io_size s)
       else
         obind (wtls_handshake ws ssl c s) (\<lambda>(n_ssl_connect, s1).
         obind (if 0 < n_ssl_connect then Some (Inr (0, s1)) else WinTls_HandleSslError ws ssl c n_ssl_connect s1) (\<lambda>(_, s2).
           Some (Win_WriteBuffer c io_size s2))))"

definition WinTls_Init ::
  "'w winsock \<Rightarrow> 'e openssl \<Rightarrow> ('u, 'w, ('e, 'z) win_tls_ext) win_user \<Rightarrow> addr \<Rightarrow> bool \<Rightarrow> string \<Rightarrow>
     ('u, 'w, 'e, 'z) win_tls_scheme \<Rightarrow> ('u, 'w, 'e, 'z) win_tls_scheme res option" where
  "WinTls_Init ws ssl user c iocp_port buffer s =
     obind (Win_Init ws user c iocp_port [] s) (\<lambda>s1.
     obind (WinTls_ReadFromBuffer ws ssl c buffer s1) (\<lambda>(_, s2).
     obind (Some (get_wtls c s2)) (\<lambda>p.
       if is_server p then Some (Inr s2) else WinTls_WriteBuffer ws ssl c 0 s2)))"

section \<open>Virtual calls\<close>

definition win_virtual_Init ::
  "'w winsock \<Rightarrow> 'e openssl \<Rightarrow> ('u, 'w, ('e, 'z) win_tls_ext) win_user \<Rightarrow> addr \<Rightarrow> bool \<Rightarrow> string \<Rightarrow>
     ('u, 'w, 'e, 'z) win_tls_scheme \<Rightarrow> ('u, 'w, 'e, 'z) win_tls_scheme res option" where
  "win_virtual_Init ws ssl user c iocp_port buffer s =
     (case wtls_parts s c of None \<Rightarrow> Win_Init ws user c iocp_port buffer s | Some _ \<Rightarrow> WinTls_Init ws ssl user c iocp_port buffer s)"

definition win_virtual_Send ::
  "'w winsock \<Rightarrow> 'e openssl \<Rightarrow> addr \<Rightarrow> string \<Rightarrow> ('u, 'w, 'e, 'z) win_tls_scheme \<Rightarrow> ('u, 'w, 'e, 'z) win_tls_scheme res option" where
  "win_virtual_Send ws ssl c buf s =
     (case wtls_parts s c of None \<Rightarrow> Some (Win_Send ws c buf s) | Some _ \<Rightarrow> WinTls_Send ws ssl c buf s)"

definition win_virtual_ReadBuffer :: "'w winsock \<Rightarrow> 'e openssl \<Rightarrow> ('u, 'w, ('e, 'z) win_tls_ext) win_reads" where
  "win_virtual_ReadBuffer ws ssl c data s =
     (case wtls_parts s c of None \<Rightarrow> plain_reads c data s | Some _ \<Rightarrow> WinTls_ReadBuffer ws ssl c data s)"

definition win_virtual_WriteBuffer :: "'w winsock \<Rightarrow> 'e openssl \<Rightarrow> ('u, 'w, ('e, 'z) win_tls_ext) win_writes" where
  "win_virtual_WriteBuffer ws ssl c io_size s =
     (case wtls_parts s c of None \<Rightarrow> plain_writes c io_size s | Some _ \<Rightarrow> WinTls_WriteBuffer ws ssl c io_size s)"

definition win_virtual_destroy :: "'w winsock \<Rightarrow> addr \<Rightarrow> ('u, 'w, 'e, 'z) win_tls_scheme \<Rightarrow> ('u, 'w, 'e, 'z) win_tls_scheme res" where
  "win_virtual_destroy ws c s =
     (case wtls_parts s c of None \<Rightarrow> WinConnection_destroy ws c s | Some _ \<Rightarrow> WinTls_destroy ws c s)"

definition wtls_turn ::
  "'w winsock \<Rightarrow> 'e openssl \<Rightarrow> ('u, 'w, ('e, 'z) win_tls_ext) win_user \<Rightarrow> bool \<Rightarrow> queued \<Rightarrow>
     ('u, 'w, 'e, 'z) win_tls_scheme \<Rightarrow> (bool \<times> ('u, 'w, 'e, 'z) win_tls_scheme) res option" where
  "wtls_turn ws ssl user running q s = iocp_turn_via ws (win_virtual_ReadBuffer ws ssl) (win_virtual_WriteBuffer ws ssl) user running q s"

end
