(* ===== verification/Iocp_Tls_Stream.thy ===== *)
theory Iocp_Tls_Stream
  imports Iocp_Tls Tls_Stream
begin

text \<open>
  What an encrypted connection of a server does with its data on Windows, and what a client does
  with its first message.
\<close>

section \<open>Encryption\<close>

lemma wtls_Encrypt_plain:
  assumes "ssl_within ssl sv S rd n"
  shows "tv_valid sv e \<Longrightarrow> buffer_ok b \<Longrightarrow> room b (length (tv_out sv e) + m) \<Longrightarrow>
     \<exists>e' b'. Encrypt ssl e (Plain b) = Some (Inr (e', Plain b')) \<and> buffer_ok b' \<and> content b' = content b @ tv_out sv e \<and> room b' m \<and>
       tv_valid sv e' \<and> tv_out sv e' = [] \<and> tv_made sv e' = tv_made sv e \<and> tv_plain sv e' = tv_plain sv e \<and> tv_got sv e' = tv_got sv e \<and>
       tv_fed sv e' = tv_fed sv e \<and> tv_failed sv e' = tv_failed sv e \<and> SSL_is_init_finished ssl e' = SSL_is_init_finished ssl e"
proof (induction "length (tv_out sv e)" arbitrary: e b rule: less_induct)
  case less
  obtain k bs e1 where r: "BIO_read_out ssl kMaxBufferSize e = (k, bs, e1)" by (metis prod_cases3)
  have "0 < kMaxBufferSize" by (simp add: kMaxBufferSize_def)
  note p = BIO_read_promiseD [OF assms less.prems(1) this r]
  show ?case
  proof (cases "tv_out sv e = []")
    case True
    then show ?thesis using p less.prems r by (subst Encrypt.simps) simp
  next
    case False
    let ?bs = "take (nat k) bs"
    have e1: "tv_valid sv e1" "tv_plain sv e1 = tv_plain sv e" "tv_got sv e1 = tv_got sv e" "tv_made sv e1 = tv_made sv e"
      "SSL_is_init_finished ssl e1 = SSL_is_init_finished ssl e" "0 < k" "tv_out sv e = ?bs @ tv_out sv e1" "?bs \<noteq> []"
      "tv_fed sv e1 = tv_fed sv e" "tv_failed sv e1 = tv_failed sv e"
      using p(1) p(3) [OF False] by auto
    have rm: "room b (length ?bs + (length (tv_out sv e1) + m))"
      using less.prems(3) unfolding e1(7) length_append by (simp only: add.assoc)
    from Buffer_Write_ok [OF less.prems(2) room_le [OF rm]] obtain b1 where b1: "Buffer_Write ?bs b = Inr b1" "buffer_ok b1" "content b1 = content b @ ?bs"
      "room b1 (length (tv_out sv e1) + m)" using rm by (metis le_add1)
    have "length (tv_out sv e1) < length (tv_out sv e)"
      using e1(7,8) by (metis length_append length_greater_0_conv less_add_same_cancel2)
    from less.hyps [OF this e1(1) b1(2,4)] obtain e' b' where "Encrypt ssl e1 (Plain b1) = Some (Inr (e', Plain b'))" "buffer_ok b'"
      "content b' = content b @ tv_out sv e" "room b' m" "tv_valid sv e'" "tv_out sv e' = []" "tv_made sv e' = tv_made sv e" "tv_plain sv e' = tv_plain sv e"
      "tv_got sv e' = tv_got sv e" "tv_fed sv e' = tv_fed sv e" "tv_failed sv e' = tv_failed sv e" "SSL_is_init_finished ssl e' = SSL_is_init_finished ssl e"
      using e1 b1(3) by (metis append.assoc)
    then show ?thesis using e1(6) r b1(1) by (subst Encrypt.simps) (simp add: IBuffer_Write_def)
  qed
qed

section \<open>The connection of a server\<close>

lemma wtls_simps [simp]:
  "wtls_parts s c = Some p \<Longrightarrow> get_wtls c s = Inr p"
  "wtls_parts (set_wtls c p s) = (wtls_parts s)(c \<mapsto> p)" "wtls_parts (set_win c cn w s) = wtls_parts s"
  "win_conns (set_wtls c p s) = win_conns s" "win_world (set_wtls c p s) = win_world s"
  "win_conns (set_engine c e p s) = win_conns s" "win_world (set_engine c e p s) = win_world s"
  "wtls_parts (set_engine c e p s) = (wtls_parts s)(c \<mapsto> p\<lparr>ssl_engine := e\<rparr>)"
  by (simp_all add: get_wtls_def set_wtls_def set_win_def set_engine_def)

definition win_open :: "'u win_connection \<Rightarrow> bool" where
  "win_open cn \<longleftrightarrow> wc_bound cn \<and> wc_on_read cn = None \<and> wc_on_write cn = None \<and> wc_on_close cn = None \<and>
     iocp_status (read_status cn) = kPollIn \<and> iocp_status (write_status cn) = kPollOut"

text \<open>
  What the engine has written is what has been sent, what waits in the buffer and what is still in the \<open>BIO\<close>;
  the read buffer holds what the engine has delivered, and \<open>plain\<close> is the text that has been taken from \<open>Send\<close>, at most \<open>S\<close>
  bytes; at most \<open>rd\<close> bytes of input have been given to the engine.
\<close>

definition wtls_data :: "'e tls_view \<Rightarrow> nat \<Rightarrow> nat \<Rightarrow> nat \<Rightarrow> string \<Rightarrow> string \<Rightarrow> 'u win_connection \<Rightarrow> 'e tls_part \<Rightarrow> bool" where
  "wtls_data sv S rd n wire plain cn p \<longleftrightarrow>
     buffer_ok (wc_write_buffer cn) \<and> room (wc_write_buffer cn) (n - length (wire @ content (wc_write_buffer cn))) \<and>
     tv_valid sv (ssl_engine p) \<and> tv_made sv (ssl_engine p) = wire @ content (wc_write_buffer cn) @ tv_out sv (ssl_engine p) \<and>
     reads_ok sv n [] (ssl_engine p) (wc_read_buffer cn) \<and>
     tv_plain sv (ssl_engine p) @ content (pre_write_buffer p) = plain \<and> buffer_ok (pre_write_buffer p) \<and>
     room (pre_write_buffer p) (2 ^ 31 - length plain) \<and> length plain \<le> S \<and> length (tv_fed sv (ssl_engine p)) \<le> rd"

text \<open>
  The flags: whether the connection must be shut down, whether an \<open>SSL_write\<close> must have failed, whether the handshake is finished, and
  whether nothing may wait for it.
\<close>

definition wtls_core ::
  "'e openssl \<Rightarrow> 'e tls_view \<Rightarrow> nat \<Rightarrow> nat \<Rightarrow> nat \<Rightarrow> string \<Rightarrow> bool \<Rightarrow> bool \<Rightarrow> bool \<Rightarrow> bool \<Rightarrow> string \<Rightarrow> addr \<Rightarrow> ('u, 'w, 'e, 'z) win_tls_scheme \<Rightarrow> bool" where
  "wtls_core ssl sv S rd n wire b F fin e0 plain c s \<longleftrightarrow>
     (\<exists>cn p. win_conns s c = Some cn \<and> wtls_parts s c = Some p \<and> is_server p \<and> win_open cn \<and> posted cn \<and> (b \<longrightarrow> wc_shut_down cn) \<and> (F \<longrightarrow> tv_failed sv (ssl_engine p)) \<and>
        SSL_is_init_finished ssl (ssl_engine p) = fin \<and> (e0 \<longrightarrow> content (pre_write_buffer p) = []) \<and> wtls_data sv S rd n wire plain cn p)"

lemma wtls_coreE:
  assumes "wtls_core ssl sv S rd n wire b F fin e0 plain c s"
  obtains cn p where "win_conns s c = Some cn" "wtls_parts s c = Some p" "is_server p" "win_open cn" "posted cn" "b \<longrightarrow> wc_shut_down cn"
    "SSL_is_init_finished ssl (ssl_engine p) = fin" "e0 \<longrightarrow> content (pre_write_buffer p) = []" "wtls_data sv S rd n wire plain cn p"
    "F \<longrightarrow> tv_failed sv (ssl_engine p)"
  using assms unfolding wtls_core_def by blast

lemma wtls_core_engine:
  assumes "wtls_core ssl sv S rd n wire b F fin e0 plain c s" and "wtls_parts s c = Some p" and "moves sv (ssl_engine p) e x [] y"
    and "x = [] \<or> e0" and "length (plain @ x) \<le> S" and "F' \<longrightarrow> tv_failed sv e"
  shows "wtls_core ssl sv S (rd + length y) n wire b F' (SSL_is_init_finished ssl e) e0 (plain @ x) c (set_engine c e p s)"
proof -
  obtain z where z: "tv_made sv e = tv_made sv (ssl_engine p) @ z" "tv_out sv e = tv_out sv (ssl_engine p) @ z"
    "tv_plain sv e = tv_plain sv (ssl_engine p) @ x" "tv_got sv e = tv_got sv (ssl_engine p)" "tv_valid sv e" "tv_fed sv e = tv_fed sv (ssl_engine p) @ y"
    using assms(3) by (auto simp: moves_def)
  from assms(1) obtain cn where cn: "win_conns s c = Some cn" "is_server p" "win_open cn" "posted cn" "b \<longrightarrow> wc_shut_down cn"
    "e0 \<longrightarrow> content (pre_write_buffer p) = []" and d: "wtls_data sv S rd n wire plain cn p"
    using assms(2) by (auto elim!: wtls_coreE)
  have "tv_plain sv e @ content (pre_write_buffer p) = plain @ x" using d cn(6) z(3) assms(4) by (auto simp: wtls_data_def)
  moreover have "room (pre_write_buffer p) (2 ^ 31 - length (plain @ x))" using d by (auto simp: wtls_data_def elim: room_le)
  ultimately have "wtls_data sv S (rd + length y) n wire (plain @ x) cn (p\<lparr>ssl_engine := e\<rparr>)"
    using d z assms(5) by (simp add: wtls_data_def reads_ok_def)
  then show ?thesis unfolding wtls_core_def using cn assms(6) by auto
qed

lemma wtls_data_plain:
  assumes "wtls_data sv S rd n wire plain cn p"
  shows "length (tv_plain sv (ssl_engine p)) \<le> S" and "length (tv_fed sv (ssl_engine p)) \<le> rd"
  using assms unfolding wtls_data_def by auto

lemma encrypt_post_core:
  assumes "ssl_within ssl sv S rd n" and "wtls_core ssl sv S rd n wire b F fin e0 plain c s"
  shows "exits_or (wtls_core ssl sv S rd n wire b F fin e0 plain c) (encrypt_post ws ssl c s)"
proof -
  from assms(2) obtain cn p where st: "win_conns s c = Some cn" "wtls_parts s c = Some p" "is_server p" "win_open cn" "posted cn" "b \<longrightarrow> wc_shut_down cn"
    "SSL_is_init_finished ssl (ssl_engine p) = fin" "e0 \<longrightarrow> content (pre_write_buffer p) = []" and d: "wtls_data sv S rd n wire plain cn p"
    and F: "F \<longrightarrow> tv_failed sv (ssl_engine p)"
    by (rule wtls_coreE)
  let ?e = "ssl_engine p" and ?b = "wc_write_buffer cn"
  have v: "tv_valid sv ?e" "tv_made sv ?e = wire @ content ?b @ tv_out sv ?e" "buffer_ok ?b" using d by (auto simp: wtls_data_def)
  have rm: "room ?b (length (tv_out sv ?e) + (n - length (wire @ content ?b @ tv_out sv ?e)))"
    using d ssl_promiseD(1) [OF assms(1) v(1) wtls_data_plain [OF d]] v(2) by (simp add: wtls_data_def)
  obtain e b' where e: "Encrypt ssl ?e (Plain ?b) = Some (Inr (e, Plain b'))" "buffer_ok b'" "content b' = content ?b @ tv_out sv ?e"
    "room b' (n - length (wire @ content ?b @ tv_out sv ?e))" "tv_valid sv e" "tv_out sv e = []" "tv_made sv e = tv_made sv ?e"
    "tv_plain sv e = tv_plain sv ?e" "tv_got sv e = tv_got sv ?e" "SSL_is_init_finished ssl e = SSL_is_init_finished ssl ?e"
    "tv_fed sv e = tv_fed sv ?e" "tv_failed sv e = tv_failed sv ?e"
    using wtls_Encrypt_plain [OF assms(1) v(1,3) rm] by blast
  let ?cn = "cn\<lparr>wc_write_buffer := b'\<rparr>" and ?p = "p\<lparr>ssl_engine := e\<rparr>"
  let ?s = "set_win c ?cn (win_world s) (set_engine c e p s)"
  have ep: "encrypt_post ws ssl c s = Some (PostWrite ws c ?s)" using st(1,2) e(1) by (simp add: encrypt_post_def)
  have "wtls_data sv S rd n wire plain ?cn ?p" using d e v(2) by (simp add: wtls_data_def reads_ok_def)
  then have data: "wtls_data sv S rd n wire plain cn' ?p" if "reposts ?cn cn'" for cn'
    using repostsD [OF that] by (simp add: wtls_data_def)
  have "wtls_core ssl sv S rd n wire b F fin e0 plain c (set_win c cn' w ?s)" if "reposts ?cn cn'" for cn' w
    using repostsD [OF that] data [OF that] st e(10,12) F unfolding wtls_core_def by (auto simp: win_open_def)
  moreover have "exits_or (\<lambda>s'. \<exists>cn' w. s' = set_win c cn' w ?s \<and> reposts ?cn cn') (Some (PostWrite ws c ?s))"
    using st(5) e(2,3) by (intro PostWrite_posts) (auto simp: posted_def intro: prefix_prefix)
  ultimately show ?thesis unfolding ep by (auto elim!: exits_or_mono)
qed

lemma wtls_core_length: "wtls_core ssl sv S rd n wire b F fin e0 plain c s \<Longrightarrow> length plain \<le> S"
  by (auto simp: wtls_core_def wtls_data_def)

text \<open>The loop of \<open>Send\<close> gives the engine a prefix of the string, and all of it unless a call fails.\<close>

lemma wtls_write_loop_core:
  fixes s :: "('u, 'w, 'e, 'z) win_tls_scheme"
  assumes "ssl_within ssl sv S rd n"
  shows "wtls_core ssl sv S rd n wire b F True True plain c s \<Longrightarrow> k \<le> length buf \<Longrightarrow> length (plain @ drop k buf) \<le> S \<Longrightarrow>
     exits_or (\<lambda>s'. \<exists>F' fin j. wtls_core ssl sv S rd n wire b F' fin True (plain @ take j (drop k buf)) c s' \<and> (F \<longrightarrow> F') \<and> (F' \<or> length buf - k \<le> j))
       (wtls_write_loop ws ssl c buf (int k) (int (length buf)) s)"
proof (induction "length buf - k" arbitrary: k plain s rule: less_induct)
  case less
  show ?case
  proof (cases "k < length buf")
    case False
    then show ?thesis using less.prems by (subst wtls_write_loop.simps) (simp, blast)
  next
    case True
    obtain p where p: "wtls_parts s c = Some p" "tv_valid sv (ssl_engine p)" "SSL_is_init_finished ssl (ssl_engine p)" "F \<longrightarrow> tv_failed sv (ssl_engine p)"
      using less.prems(1) by (auto elim!: wtls_coreE simp: wtls_data_def)
    obtain m e where w: "SSL_write ssl (drop k buf) (ssl_engine p) = (m, e)" by fastforce
    note pr = ssl_promiseD(3) [OF assms p(2,3) _ w]
    show ?thesis
    proof (cases "0 < m")
      case False
      then have m: "moves sv (ssl_engine p) e [] [] []" "tv_failed sv e" using pr True by auto
      have "wtls_core ssl sv S rd n wire b True (SSL_is_init_finished ssl e) True plain c (set_engine c e p s)"
        using wtls_core_engine [OF less.prems(1) p(1) m(1)] wtls_core_length [OF less.prems(1)] m(2) by simp
      moreover have "wtls_write_loop ws ssl c buf (int k) (int (length buf)) s = Some (Inr (set_engine c e p s))"
        using True p(1) w False by (subst wtls_write_loop.simps) (simp add: nat_diff_distrib)
      ultimately show ?thesis by (simp, metis append_Nil2 take0)
    next
      case pos: True
      let ?x = "take (nat m) (drop k buf)"
      have m: "nat m \<le> length buf - k" "moves sv (ssl_engine p) e ?x [] []" "tv_failed sv e = tv_failed sv (ssl_engine p)" "SSL_is_init_finished ssl e"
        using pr pos True by auto
      have split: "?x @ drop (k + nat m) buf = drop k buf" by (metis add.commute append_take_drop_id drop_drop)
      then have len: "length ((plain @ ?x) @ drop (k + nat m) buf) \<le> S" using less.prems(3) by simp
      then have "length (plain @ ?x) \<le> S" by simp
      from wtls_core_engine [OF less.prems(1) p(1) m(2) _ this, of F] m(3,4) p(4)
      have c1: "wtls_core ssl sv S rd n wire b F True True (plain @ ?x) c (set_engine c e p s)" by simp
      have step: "wtls_write_loop ws ssl c buf (int k) (int (length buf)) s =
          obind (encrypt_post ws ssl c (set_engine c e p s)) (wtls_write_loop ws ssl c buf (int (k + nat m)) (int (length buf)))"
        using True p(1) w pos by (subst wtls_write_loop.simps) (simp add: nat_diff_distrib obind_def Option.bind_eq_None_conv split: option.split sum.split)
      have tk: "(plain @ ?x) @ take j (drop (k + nat m) buf) = plain @ take (nat m + j) (drop k buf)" for j
        by (simp only: take_add drop_drop add.commute [of k] append_assoc)
      have l: "length buf - (k + nat m) < length buf - k" "k + nat m \<le> length buf" using m(1) pos True by auto
      have ih: "exits_or (\<lambda>s'. \<exists>F' fin j. wtls_core ssl sv S rd n wire b F' fin True (plain @ take j (drop k buf)) c s' \<and> (F \<longrightarrow> F') \<and> (F' \<or> length buf - k \<le> j))
          (wtls_write_loop ws ssl c buf (int (k + nat m)) (int (length buf)) s1)"
        if "wtls_core ssl sv S rd n wire b F True True (plain @ ?x) c s1" for s1 :: "('u, 'w, 'e, 'z) win_tls_scheme"
      proof (rule exits_or_mono [OF less.hyps [OF l(1) that l(2) len]], elim exE conjE, unfold tk)
        fix s' F' fin j
        assume "wtls_core ssl sv S rd n wire b F' fin True (plain @ take (nat m + j) (drop k buf)) c s'" "F \<longrightarrow> F'" "F' \<or> length buf - (k + nat m) \<le> j"
        then show "\<exists>F' fin j. wtls_core ssl sv S rd n wire b F' fin True (plain @ take j (drop k buf)) c s' \<and> (F \<longrightarrow> F') \<and> (F' \<or> length buf - k \<le> j)"
          by - (rule exI [of _ F'], rule exI [of _ fin], rule exI [of _ "nat m + j"], auto)
      qed
      show ?thesis unfolding step by (rule exits_or_bind [OF encrypt_post_core [OF assms c1] ih])
    qed
  qed
qed

text \<open>
  What waits for the handshake is lost when the connection is shut down before it is finished, and when an \<open>SSL_write\<close> fails the rest
  of its string is lost.
\<close>

definition wtls_inv ::
  "'e openssl \<Rightarrow> 'e tls_view \<Rightarrow> nat \<Rightarrow> nat \<Rightarrow> nat \<Rightarrow> string \<Rightarrow> string \<Rightarrow> addr \<Rightarrow> ('u, 'w, 'e, 'z) win_tls_scheme \<Rightarrow> bool" where
  "wtls_inv ssl sv S rd n wire sends c s \<longleftrightarrow>
     (\<exists>b F fin plain. subseq plain sends \<and> (F \<or> prefix plain sends \<and> (b \<or> plain = sends)) \<and> wtls_core ssl sv S rd n wire b F fin fin plain c s)"

lemma wtls_inv_part: "wtls_inv ssl sv S rd n wire sends c s \<Longrightarrow> \<exists>p. wtls_parts s c = Some p \<and> is_server p \<and> tv_valid sv (ssl_engine p)"
  by (auto simp: wtls_inv_def wtls_core_def wtls_data_def)

lemma WinTls_Send_core:
  assumes "ssl_within ssl sv S rd n" and "wtls_core ssl sv S rd n wire b F fin fin plain c s" and "length (plain @ buf) \<le> S"
  shows "exits_or (\<lambda>s'. \<exists>b' F' fin' plain'. prefix plain' (plain @ buf) \<and> (F' \<or> plain' = plain @ buf \<or> plain' = plain \<and> b') \<and>
     (b \<longrightarrow> b' \<and> plain' = plain) \<and> (F \<longrightarrow> F') \<and> wtls_core ssl sv S rd n wire b' F' fin' fin' plain' c s') (WinTls_Send ws ssl c buf s)"
proof -
  from assms(2) obtain cn p where st: "win_conns s c = Some cn" "wtls_parts s c = Some p" "is_server p" "win_open cn" "posted cn" "b \<longrightarrow> wc_shut_down cn"
    "SSL_is_init_finished ssl (ssl_engine p) = fin" "fin \<longrightarrow> content (pre_write_buffer p) = []" and d: "wtls_data sv S rd n wire plain cn p"
    and F: "F \<longrightarrow> tv_failed sv (ssl_engine p)"
    by (rule wtls_coreE)
  have S: "S < 2 ^ 31" using assms(1) by (simp add: ssl_within_def)
  consider "wc_shut_down cn" | "\<not> wc_shut_down cn" "fin" | "\<not> wc_shut_down cn" "\<not> fin" by blast
  then show ?thesis
  proof cases
    case 1
    then have "WinTls_Send ws ssl c buf s = Some (Inr s)" "wtls_core ssl sv S rd n wire True F fin fin plain c s"
      using st d F by (auto simp: WinTls_Send_def wtls_core_def)
    moreover have "prefix plain (plain @ buf)" by simp
    ultimately show ?thesis unfolding exits_or_def by blast
  next
    case 2
    then have w: "WinTls_Send ws ssl c buf s = wtls_write_loop ws ssl c buf (int 0) (int (length buf)) s"
      using st assms(3) S by (simp add: WinTls_Send_def to_i32_id)
    have nb: "\<not> b" using 2 st(6) by blast
    have len: "length (plain @ drop 0 buf) \<le> S" and core: "wtls_core ssl sv S rd n wire b F True True plain c s" using assms(2,3) 2 by simp_all
    show ?thesis unfolding w
    proof (rule exits_or_mono [OF wtls_write_loop_core [OF assms(1) core le0 len]], elim exE conjE, unfold drop0)
      fix s' F' fin' j
      assume h: "wtls_core ssl sv S rd n wire b F' fin' True (plain @ take j buf) c s'" "F \<longrightarrow> F'" "F' \<or> length buf - 0 \<le> j"
      then have "wtls_core ssl sv S rd n wire b F' fin' fin' (plain @ take j buf) c s'" unfolding wtls_core_def by blast
      then show "\<exists>b' F' fin' plain'. prefix plain' (plain @ buf) \<and> (F' \<or> plain' = plain @ buf \<or> plain' = plain \<and> b') \<and>
         (b \<longrightarrow> b' \<and> plain' = plain) \<and> (F \<longrightarrow> F') \<and> wtls_core ssl sv S rd n wire b' F' fin' fin' plain' c s'"
        using h(2,3) nb by - (rule exI [of _ b], rule exI [of _ F'], rule exI [of _ fin'], rule exI [of _ "plain @ take j buf"], auto simp: take_is_prefix)
    qed
  next
    case 3
    have "room (pre_write_buffer p) (length buf + (2 ^ 31 - length (plain @ buf)))" using d assms(3) S by (simp add: wtls_data_def room_def)
    moreover have "buffer_ok (pre_write_buffer p)" using d by (simp add: wtls_data_def)
    ultimately obtain pb where pb: "Buffer_Write buf (pre_write_buffer p) = Inr pb" "buffer_ok pb" "content pb = content (pre_write_buffer p) @ buf"
      "room pb (2 ^ 31 - length (plain @ buf))"
      using Buffer_Write_ok [of "pre_write_buffer p" buf] room_le by (metis le_add1)
    then have "wtls_data sv S rd n wire (plain @ buf) cn (p\<lparr>pre_write_buffer := pb\<rparr>)" using d assms(3) by (auto simp: wtls_data_def)
    then have "wtls_core ssl sv S rd n wire b F fin fin (plain @ buf) c (set_wtls c (p\<lparr>pre_write_buffer := pb\<rparr>) s)"
      using st 3 F unfolding wtls_core_def by auto
    moreover have "\<not> b" using 3 st(6) by blast
    ultimately show ?thesis using st pb(1) 3 by (simp add: WinTls_Send_def) blast
  qed
qed

lemma WinTls_Send_inv:
  assumes "ssl_within ssl sv S rd n" and "wtls_inv ssl sv S rd n wire sends c s" and "length (sends @ buf) \<le> S"
  shows "exits_or (wtls_inv ssl sv S rd n wire (sends @ buf) c) (WinTls_Send ws ssl c buf s)"
proof -
  obtain b F fin plain where i: "subseq plain sends" "F \<or> prefix plain sends \<and> (b \<or> plain = sends)" "wtls_core ssl sv S rd n wire b F fin fin plain c s"
    using assms(2) unfolding wtls_inv_def by blast
  have len: "length (plain @ buf) \<le> S" using list_emb_length [OF i(1)] assms(3) by simp
  show ?thesis
  proof (rule exits_or_mono [OF WinTls_Send_core [OF assms(1) i(3) len]], elim exE conjE)
    fix s' b' F' fin' plain'
    assume h: "prefix plain' (plain @ buf)" "F' \<or> plain' = plain @ buf \<or> plain' = plain \<and> b'" "b \<longrightarrow> b' \<and> plain' = plain" "F \<longrightarrow> F'"
      "wtls_core ssl sv S rd n wire b' F' fin' fin' plain' c s'"
    have "subseq plain' (sends @ buf)"
      using prefix_imp_subseq [OF h(1)] list_emb_append_mono [OF i(1) subseq_order.order_refl, of buf] by (rule subseq_order.order_trans)
    moreover have "F' \<or> prefix plain' (sends @ buf) \<and> (b' \<or> plain' = sends @ buf)"
      using h(2-4) i(2) by (auto intro: prefix_prefix)
    ultimately show "wtls_inv ssl sv S rd n wire (sends @ buf) c s'" using h(5) unfolding wtls_inv_def by blast
  qed
qed

lemma OnSslHandshakeFinished_win:
  assumes "ssl_within ssl sv S rd n" and "subseq plain sends" "F \<or> prefix plain sends \<and> (b \<or> plain = sends)"
    and "wtls_core ssl sv S rd n wire b F True False plain c s"
  shows "exits_or (wtls_inv ssl sv S rd n wire sends c) (WinTls_OnSslHandshakeFinished ws ssl c s)"
proof -
  from assms(4) obtain cn p where st: "win_conns s c = Some cn" "wtls_parts s c = Some p" "is_server p" "win_open cn" "posted cn" "b \<longrightarrow> wc_shut_down cn"
    "SSL_is_init_finished ssl (ssl_engine p)" and d: "wtls_data sv S rd n wire plain cn p" and F: "F \<longrightarrow> tv_failed sv (ssl_engine p)"
    by (auto elim: wtls_coreE)
  have pl: "tv_plain sv (ssl_engine p) @ content (pre_write_buffer p) = plain" "buffer_ok (pre_write_buffer p)" "length plain \<le> S"
    using d by (auto simp: wtls_data_def)
  obtain pb where pb: "Buffer_ReadAll (pre_write_buffer p) = Inr (content (pre_write_buffer p), pb)" "buffer_ok pb" "content pb = []" "\<forall>n<2 ^ 32. room pb n"
    using Buffer_ReadAll_reset [OF pl(2)] by blast
  let ?p = "p\<lparr>pre_write_buffer := pb\<rparr>" and ?plain = "tv_plain sv (ssl_engine p)" and ?buf = "content (pre_write_buffer p)"
  have "wtls_data sv S rd n wire ?plain cn ?p" using d pb pl(1,3) by (auto simp: wtls_data_def)
  then have c: "wtls_core ssl sv S rd n wire b F True True ?plain c (set_wtls c ?p s)" using st pb(3) F unfolding wtls_core_def by auto
  have len: "length (?plain @ ?buf) \<le> S" unfolding pl(1) by (rule pl(3))
  have eq: "WinTls_OnSslHandshakeFinished ws ssl c s = WinTls_Send ws ssl c ?buf (set_wtls c ?p s)"
    using st(2) pb(1) by (simp add: WinTls_OnSslHandshakeFinished_def)
  show ?thesis unfolding eq
  proof (rule exits_or_mono [OF WinTls_Send_core [OF assms(1) c len]], elim exE conjE, unfold pl(1))
    fix s' b' F' fin' plain'
    assume h: "prefix plain' plain" "F' \<or> plain' = plain \<or> plain' = ?plain \<and> b'" "b \<longrightarrow> b' \<and> plain' = ?plain" "F \<longrightarrow> F'"
      "wtls_core ssl sv S rd n wire b' F' fin' fin' plain' c s'"
    have "subseq plain' sends" using prefix_imp_subseq [OF h(1)] assms(2) by (rule subseq_order.order_trans)
    moreover have "F' \<or> prefix plain' sends \<and> (b' \<or> plain' = sends)" using h assms(3) by (metis prefix_order.trans)
    ultimately show "wtls_inv ssl sv S rd n wire sends c s'" using h(5) unfolding wtls_inv_def by blast
  qed
qed

lemma wtls_invI:
  "subseq plain sends \<Longrightarrow> F \<or> prefix plain sends \<and> (b \<or> plain = sends) \<Longrightarrow> wtls_core ssl sv S rd n wire b F fin fin plain c s \<Longrightarrow>
     wtls_inv ssl sv S rd n wire sends c s"
  unfolding wtls_inv_def by blast

lemma wtls_inv_at:
  assumes "wtls_inv ssl sv S rd n wire sends c s" and "wtls_parts s c = Some p"
  obtains b F plain cn where "subseq plain sends" "F \<or> prefix plain sends \<and> (b \<or> plain = sends)"
    "wtls_core ssl sv S rd n wire b F (SSL_is_init_finished ssl (ssl_engine p)) (SSL_is_init_finished ssl (ssl_engine p)) plain c s" "win_conns s c = Some cn"
    "is_server p" "tv_valid sv (ssl_engine p)" "win_open cn" "posted cn" "b \<longrightarrow> wc_shut_down cn"
    "SSL_is_init_finished ssl (ssl_engine p) \<longrightarrow> content (pre_write_buffer p) = []" "wtls_data sv S rd n wire plain cn p" "F \<longrightarrow> tv_failed sv (ssl_engine p)"
proof -
  obtain b F fin plain where i: "subseq plain sends" "F \<or> prefix plain sends \<and> (b \<or> plain = sends)" "wtls_core ssl sv S rd n wire b F fin fin plain c s" using assms(1) unfolding wtls_inv_def by blast
  from i(3) obtain cn q where "win_conns s c = Some cn" "wtls_parts s c = Some q" "is_server q" "win_open cn" "posted cn" "b \<longrightarrow> wc_shut_down cn"
    "SSL_is_init_finished ssl (ssl_engine q) = fin" "fin \<longrightarrow> content (pre_write_buffer q) = []" "wtls_data sv S rd n wire plain cn q"
    "F \<longrightarrow> tv_failed sv (ssl_engine q)" by (rule wtls_coreE)
  then show thesis using i assms(2) by (intro that [of plain F b cn]) (auto simp: wtls_data_def)
qed

lemma HandleSslError_win:
  assumes "ssl_within ssl sv S rd n" and "wtls_inv ssl sv S rd n wire sends c s"
  shows "exits_or (\<lambda>(r, s'). wtls_inv ssl sv S rd n wire sends c s') (WinTls_HandleSslError ws ssl c k s)"
proof -
  obtain b F fin plain where i: "subseq plain sends" "F \<or> prefix plain sends \<and> (b \<or> plain = sends)" "wtls_core ssl sv S rd n wire b F fin fin plain c s"
    using assms(2) unfolding wtls_inv_def by blast
  obtain p where p: "wtls_parts s c = Some p" using wtls_inv_part [OF assms(2)] by blast
  have "exits_or (wtls_inv ssl sv S rd n wire sends c) (encrypt_post ws ssl c s)"
    by (rule exits_or_mono [OF encrypt_post_core [OF assms(1) i(3)] wtls_invI [OF i(1,2)]])
  then have "exits_or (\<lambda>(r, s'). wtls_inv ssl sv S rd n wire sends c s') (obind (encrypt_post ws ssl c s) (\<lambda>s'. Some (Inr (0, s'))))"
    by (rule exits_or_bind) simp
  then show ?thesis using assms(2) p by (auto simp: WinTls_HandleSslError_def split: ssl_error.split)
qed

lemma wtls_handshake_inv:
  assumes "ssl_within ssl sv S rd n" and "wtls_inv ssl sv S rd n wire sends c s" and "wtls_parts s c = Some p" and "\<not> SSL_is_init_finished ssl (ssl_engine p)"
  shows "exits_or (\<lambda>(k, s'). wtls_inv ssl sv S rd n wire sends c s') (wtls_handshake ws ssl c s)"
proof -
  obtain b F plain where i: "subseq plain sends" "F \<or> prefix plain sends \<and> (b \<or> plain = sends)" "wtls_core ssl sv S rd n wire b F False False plain c s" "tv_valid sv (ssl_engine p)" "F \<longrightarrow> tv_failed sv (ssl_engine p)"
    using wtls_inv_at [OF assms(2,3)] assms(4) by metis
  obtain k e where h: "SSL_do_handshake ssl (ssl_engine p) = (k, e)" by fastforce
  have m: "moves sv (ssl_engine p) e [] [] []" "0 < k \<longleftrightarrow> SSL_is_init_finished ssl e" "tv_failed sv e = tv_failed sv (ssl_engine p)"
    using ssl_promiseD(2) [OF assms(1) i(4) assms(4) h] by simp_all
  have c1: "wtls_core ssl sv S rd n wire b F (0 < k) False plain c (set_engine c e p s)"
    using wtls_core_engine [OF i(3) assms(3) m(1), of F] wtls_core_length [OF i(3)] m(2,3) i(5) by simp
  show ?thesis
  proof (cases "0 < k")
    case True
    then have "exits_or (wtls_inv ssl sv S rd n wire sends c) (WinTls_OnSslHandshakeFinished ws ssl c (set_engine c e p s))"
      using OnSslHandshakeFinished_win [OF assms(1) i(1,2), of wire c] c1 by simp
    then have "exits_or (\<lambda>(k, s'). wtls_inv ssl sv S rd n wire sends c s') (obind (WinTls_OnSslHandshakeFinished ws ssl c (set_engine c e p s)) (\<lambda>s2. Some (Inr (k, s2))))"
      by (rule exits_or_bind) simp
    then show ?thesis using True h assms(3) by (simp add: wtls_handshake_def)
  next
    case False
    then have "wtls_inv ssl sv S rd n wire sends c (set_engine c e p s)" using wtls_invI [OF i(1,2)] c1 by simp
    then show ?thesis using False h assms(3) by (simp add: wtls_handshake_def)
  qed
qed

lemma wtls_decrypted_inv:
  assumes "ssl_within ssl sv S rd n" and "wtls_inv ssl sv S rd n wire sends c s" and "wtls_parts s c = Some p" and "SSL_is_init_finished ssl (ssl_engine p)"
  shows "exits_or (\<lambda>(fail, s'). wtls_inv ssl sv S rd n wire sends c s') (wtls_decrypted ws ssl c s)"
proof -
  obtain b F plain cn where i: "subseq plain sends" "F \<or> prefix plain sends \<and> (b \<or> plain = sends)" "win_conns s c = Some cn" "is_server p" "tv_valid sv (ssl_engine p)" "win_open cn"
    "posted cn" "b \<longrightarrow> wc_shut_down cn" "content (pre_write_buffer p) = []" "F \<longrightarrow> tv_failed sv (ssl_engine p)" and d: "wtls_data sv S rd n wire plain cn p"
    using wtls_inv_at [OF assms(2,3)] assms(4) by metis
  have "reads_ok sv n [] (ssl_engine p) (wc_read_buffer cn)" using d by (simp add: wtls_data_def)
  then obtain k e rb g where e: "Decrypt ssl (ssl_engine p) (wc_read_buffer cn) = Some (Inr (k, e, rb))"
    "moves sv (ssl_engine p) e [] g []" "tv_failed sv e = tv_failed sv (ssl_engine p)" "reads_ok sv n [] e rb"
    using Decrypt_ok [OF assms(1) i(5) assms(4) _ wtls_data_plain [OF d]] by blast
  let ?s = "set_win c (cn\<lparr>wc_read_buffer := rb\<rparr>) (win_world s) (set_engine c e p s)"
  have "wtls_data sv S rd n wire plain (cn\<lparr>wc_read_buffer := rb\<rparr>) (p\<lparr>ssl_engine := e\<rparr>)" using d e(2,4) by (auto simp: wtls_data_def moves_def)
  then have "wtls_core ssl sv S rd n wire b F (SSL_is_init_finished ssl e) (SSL_is_init_finished ssl e) plain c ?s" using i e(3) unfolding wtls_core_def by (auto simp: win_open_def posted_def)
  then have "wtls_inv ssl sv S rd n wire sends c ?s" by (rule wtls_invI [OF i(1,2)])
  then have "exits_or (\<lambda>(r, s'). wtls_inv ssl sv S rd n wire sends c s') (WinTls_HandleSslError ws ssl c k ?s)" by (rule HandleSslError_win [OF assms(1)])
  then show ?thesis using i(3) assms(3) e(1) by (auto simp: wtls_decrypted_def exits_or_def)
qed

lemma wtls_read_step_inv:
  fixes s :: "('u, 'w, 'e, 'z) win_tls_scheme"
  assumes "ssl_within ssl sv S rd n" and "wtls_inv ssl sv S rd n wire sends c s"
  shows "exits_or (\<lambda>(fail, s'). wtls_inv ssl sv S rd n wire sends c s') (wtls_read_step ws ssl c s)"
proof -
  let ?I = "wtls_inv ssl sv S rd n wire sends c"
  obtain p where p: "wtls_parts s c = Some p" using wtls_inv_part [OF assms(2)] by blast
  show ?thesis
  proof (cases "SSL_is_init_finished ssl (ssl_engine p)")
    case True
    then show ?thesis using wtls_decrypted_inv [OF assms p True] p by (simp add: wtls_read_step_def)
  next
    case False
    have last: "exits_or (\<lambda>(fail, s'). ?I s')
        (if r < 0 then Some (Inr (True, s2))
         else obind (Some (get_wtls c s2)) (\<lambda>p2. if SSL_is_init_finished ssl (ssl_engine p2) then wtls_decrypted ws ssl c s2 else Some (Inr (False, s2))))"
      if s2: "?I s2" for r :: int and s2 :: "('u, 'w, 'e, 'z) win_tls_scheme"
    proof -
      obtain p2 where "wtls_parts s2 c = Some p2" using wtls_inv_part [OF s2] by blast
      then show ?thesis using s2 wtls_decrypted_inv [OF assms(1) s2] by simp
    qed
    show ?thesis
      unfolding wtls_read_step_def using False p
      by (auto intro!: exits_or_bind [OF wtls_handshake_inv [OF assms p False]] exits_or_bind [OF HandleSslError_win [OF assms(1)]] last [simplified])
  qed
qed

lemma wtls_inv_more: "wtls_inv ssl sv S rd n wire sends c s \<Longrightarrow> rd \<le> rd' \<Longrightarrow> wtls_inv ssl sv S rd' n wire sends c s"
proof -
  assume "wtls_inv ssl sv S rd n wire sends c s" and le: "rd \<le> rd'"
  then obtain b F fin plain where i: "subseq plain sends" "F \<or> prefix plain sends \<and> (b \<or> plain = sends)" "wtls_core ssl sv S rd n wire b F fin fin plain c s"
    unfolding wtls_inv_def by blast
  have "wtls_core ssl sv S rd' n wire b F fin fin plain c s" using i(3) le by (auto simp: wtls_core_def wtls_data_def)
  then show ?thesis by (rule wtls_invI [OF i(1,2)])
qed

lemma wtls_read_loop_inv:
  fixes s :: "('u, 'w, 'e, 'z) win_tls_scheme"
  assumes "ssl_within ssl sv S R n"
  shows "wtls_inv ssl sv S rd n wire sends c s \<Longrightarrow> rd + length src \<le> R \<Longrightarrow>
     exits_or (\<lambda>(fail, s'). wtls_inv ssl sv S (rd + length src) n wire sends c s') (wtls_read_loop ws ssl c src s)"
proof (induction "length src" arbitrary: src rd s rule: less_induct)
  case less
  let ?I = "\<lambda>rd. wtls_inv ssl sv S rd n wire sends c"
  show ?case
  proof (cases "src = []")
    case True
    then show ?thesis using less.prems by (subst wtls_read_loop.simps) simp
  next
    case False
    obtain p where p: "wtls_parts s c = Some p" using wtls_inv_part [OF less.prems(1)] by blast
    obtain b F fin plain where i: "subseq plain sends" "F \<or> prefix plain sends \<and> (b \<or> plain = sends)" "wtls_core ssl sv S rd n wire b F fin fin plain c s"
      "SSL_is_init_finished ssl (ssl_engine p) = fin" "tv_valid sv (ssl_engine p)" "F \<longrightarrow> tv_failed sv (ssl_engine p)"
      using wtls_inv_at [OF less.prems(1) p] by metis
    obtain k e where w: "BIO_write_in ssl src (ssl_engine p) = (k, e)" by fastforce
    have m: "moves sv (ssl_engine p) e [] [] (take (nat k) src)" "SSL_is_init_finished ssl e = fin" "F \<longrightarrow> tv_failed sv e" "k \<le> int (length src)"
      using ssl_promiseD(4) [OF assms i(5) False w] i(4,6) by simp_all
    show ?thesis
    proof (cases "k \<le> 0")
      case True
      then show ?thesis using False p w by (subst wtls_read_loop.simps) simp
    next
      case pos: False
      then have k: "length (take (nat k) src) = nat k" "0 < nat k" "nat k \<le> length src" using m(4) by auto
      have "wtls_core ssl sv S (rd + nat k) n wire b F fin fin plain c (set_engine c e p s)"
        using wtls_core_engine [OF i(3) p m(1) _ _ m(3)] wtls_core_length [OF i(3)] m(2) k(1) by simp
      then have s1: "?I (rd + nat k) (set_engine c e p s)" by (rule wtls_invI [OF i(1,2)])
      have wi: "ssl_within ssl sv S (rd + nat k) n" using k(3) less.prems(2) by (intro ssl_within_le [OF assms]) simp
      have "length (drop (nat k) src) < length src" using k(2,3) by simp
      note IH = less.hyps [OF this, of "rd + nat k"]
      have unf: "wtls_read_loop ws ssl c src s = obind (wtls_read_step ws ssl c (set_engine c e p s)) (\<lambda>(fail, s').
          if fail then Some (Inr (True, s')) else wtls_read_loop ws ssl c (drop (nat k) src) s')"
        using False pos p w by (subst wtls_read_loop.simps) (simp add: obind_def Option.bind_eq_None_conv split: option.split sum.split)
      have sum: "rd + nat k + length (drop (nat k) src) = rd + length src" using k(3) by simp
      have more: "?I (rd + nat k) s' \<Longrightarrow> ?I (rd + length src) s'" for s' :: "('u, 'w, 'e, 'z) win_tls_scheme" using k(3) by (elim wtls_inv_more) simp
      show ?thesis unfolding unf using IH less.prems(2) unfolding sum
        by (auto intro!: exits_or_bind [OF wtls_read_step_inv [OF wi s1]] more)
    qed
  qed
qed

lemma ReadFromBuffer_win:
  assumes "ssl_within ssl sv S R n" and "wtls_inv ssl sv S rd n wire sends c s" and "rd + length src \<le> R"
  shows "exits_or (\<lambda>(fail, s'). wtls_inv ssl sv S (rd + length src) n wire sends c s') (WinTls_ReadFromBuffer ws ssl c src s)"
proof -
  let ?len = "nat (to_i32 (int (length src)))"
  have "exits_or (\<lambda>(fail, s'). wtls_inv ssl sv S (rd + length (take ?len src)) n wire sends c s') (wtls_read_loop ws ssl c (take ?len src) s)"
    by (rule wtls_read_loop_inv [OF assms(1,2)]) (use assms(3) in auto)
  then have "exits_or (\<lambda>(fail, s'). wtls_inv ssl sv S (rd + length src) n wire sends c s') (wtls_read_loop ws ssl c (take ?len src) s)"
    by (rule exits_or_mono) (auto elim: wtls_inv_more)
  then show ?thesis using wtls_inv_more [OF assms(2)] by (simp add: WinTls_ReadFromBuffer_def Let_def)
qed

section \<open>Completions\<close>

text \<open>What the invariant does not depend on.\<close>

definition same_data :: "'u win_connection \<Rightarrow> 'u win_connection \<Rightarrow> bool" where
  "same_data cn cn' \<longleftrightarrow> wc_bound cn' = wc_bound cn \<and> wc_on_read cn' = wc_on_read cn \<and> wc_on_write cn' = wc_on_write cn \<and> wc_on_close cn' = wc_on_close cn \<and>
     iocp_status (read_status cn') = iocp_status (read_status cn) \<and> iocp_status (write_status cn') = iocp_status (write_status cn) \<and>
     wc_write_buffer cn' = wc_write_buffer cn \<and> wc_read_buffer cn' = wc_read_buffer cn \<and> write_pending cn' = write_pending cn \<and>
     write_wsa_buf cn' = write_wsa_buf cn \<and> (wc_shut_down cn \<longrightarrow> wc_shut_down cn')"

lemma wtls_inv_same:
  assumes "wtls_inv ssl sv S rd n wire sends c s" and "win_conns s c = Some cn" and "same_data cn cn'"
  shows "wtls_inv ssl sv S rd n wire sends c (set_win c cn' w s)"
proof -
  obtain b F fin plain where i: "subseq plain sends" "F \<or> prefix plain sends \<and> (b \<or> plain = sends)" "wtls_core ssl sv S rd n wire b F fin fin plain c s" using assms(1) unfolding wtls_inv_def by blast
  have "wtls_core ssl sv S rd n wire b F fin fin plain c (set_win c cn' w s)"
    using i(3) assms(2,3) by (auto simp: wtls_core_def same_data_def win_open_def posted_def wtls_data_def)
  then show ?thesis by (rule wtls_invI [OF i(1,2)])
qed

lemma wtls_inv_world [simp]: "wtls_inv ssl sv S rd n wire sends c (s\<lparr>win_world := w\<rparr>) = wtls_inv ssl sv S rd n wire sends c s"
  by (simp add: wtls_inv_def wtls_core_def)

lemma wtls_inv_conn:
  assumes "wtls_inv ssl sv S rd n wire sends c s"
  obtains cn where "win_conns s c = Some cn" "win_open cn" "posted cn" "buffer_ok (wc_write_buffer cn)"
  using assms by (auto simp: wtls_inv_def wtls_core_def wtls_data_def)

lemma OnClose_inv:
  assumes "wtls_inv ssl sv S rd n wire sends c s"
  shows "exits_or (wtls_inv ssl sv S rd n wire sends c) (Win_OnCloseCallback ws user c s)"
  using assms by (rule wtls_inv_conn) (use assms in \<open>simp add: Win_OnCloseCallback_def win_call_def win_open_def Let_def\<close>)

lemma close_if_done_inv:
  assumes "wtls_inv ssl sv S rd n wire sends c s" and "exits_or (wtls_inv ssl sv S rd n wire sends c) (k s)"
  shows "exits_or (wtls_inv ssl sv S rd n wire sends c) (close_if_done ws user c k s)"
  using assms(1) by (rule wtls_inv_conn) (use assms OnClose_inv [OF assms(1), of ws user] in \<open>simp add: close_if_done_def\<close>)

lemma PostRead_inv:
  assumes "wtls_inv ssl sv S rd n wire sends c s"
  shows "exits_or (wtls_inv ssl sv S rd n wire sends c) (Some (PostRead ws c s))"
proof -
  obtain cn where cn: "win_conns s c = Some cn" using assms by (rule wtls_inv_conn)
  obtain r w where w: "wsa_recv ws (wc_fd cn) kMaxIocpRecvSize (win_world s) = (r, w)" by fastforce
  have "wtls_inv ssl sv S rd n wire sends c (set_win c (cn\<lparr>read_status := UpdateRefCount True (read_status cn)\<rparr>) w s)"
    "wtls_inv ssl sv S rd n wire sends c (set_win c (cn\<lparr>read_status := UpdateRefCount True (read_status cn), wc_shut_down := True\<rparr>) w s)"
    by (auto intro!: wtls_inv_same [OF assms cn] simp: same_data_def UpdateRefCount_def)
  then show ?thesis
    using assms cn w by (auto simp: PostRead_def socket_read_iocp_def split: wsa_ret.split)
qed

lemma OnRead_inv:
  fixes s :: "('u, 'w, 'e, 'z) win_tls_scheme"
  assumes "ssl_within ssl sv S R n" and "wtls_inv ssl sv S rd n wire sends c s" and "rd + length data \<le> R"
  shows "exits_or (wtls_inv ssl sv S (rd + length data) n wire sends c) (Win_OnReadCallback_via ws (win_virtual_ReadBuffer ws ssl) user c data s)"
proof -
  let ?I = "wtls_inv ssl sv S (rd + length data) n wire sends c"
  have I: "?I s" using assms(2) by (rule wtls_inv_more) simp
  obtain cn where cn: "win_conns s c = Some cn" using assms(2) by (rule wtls_inv_conn)
  obtain p where p: "wtls_parts s c = Some p" using wtls_inv_part [OF assms(2)] by blast
  have "wtls_inv ssl sv S rd n wire sends c (set_win c (cn\<lparr>read_wsa_buf := data\<rparr>) (win_world s) s)"
    by (rule wtls_inv_same [OF assms(2) cn]) (simp add: same_data_def)
  from ReadFromBuffer_win [OF assms(1) this assms(3), of ws]
  have rd: "exits_or (\<lambda>(r, s1). ?I s1) (win_virtual_ReadBuffer ws ssl c data s)"
    using cn p by (auto simp: win_virtual_ReadBuffer_def WinTls_ReadBuffer_def exits_or_def)
  have rest: "exits_or ?I (close_if_done ws user c (\<lambda>s3. obind (Some (PostRead ws c s3)) (close_if_done ws user c (\<lambda>s4. Some (Inr s4)))) s2)" if "?I s2" for s2
    by (rule close_if_done_inv [OF that], rule exits_or_bind [OF PostRead_inv [OF that]], rule close_if_done_inv) simp_all
  have cont: "exits_or ?I (obind (Some (get_win c s1)) (\<lambda>cn1.
       let cn2 = (if ret \<le> 0 then cn1\<lparr>wc_shut_down := True\<rparr> else cn1); s2 = set_win c cn2 (win_world s1) s1 in
       obind (if Buffer_Empty (wc_read_buffer cn2) then Some (Inr s2) else win_call user (wc_on_read cn2) c s2)
         (close_if_done ws user c (\<lambda>s3. obind (Some (PostRead ws c s3)) (close_if_done ws user c (\<lambda>s4. Some (Inr s4)))))))"
    if s1: "?I s1" for ret :: int and s1
  proof -
    obtain cn1 where cn1: "win_conns s1 c = Some cn1" "wc_on_read cn1 = None" using s1 by (auto elim!: wtls_inv_conn simp: win_open_def)
    let ?cn = "if ret \<le> 0 then cn1\<lparr>wc_shut_down := True\<rparr> else cn1"
    have "?I (set_win c ?cn (win_world s1) s1)" by (rule wtls_inv_same [OF s1 cn1(1)]) (simp add: same_data_def)
    from rest [OF this] cn1 show ?thesis by (cases "ret \<le> 0") (simp_all add: win_call_def Let_def)
  qed
  show ?thesis
    unfolding Win_OnReadCallback_via_def
    using cn OnClose_inv [OF I] by (auto intro!: exits_or_bind [OF rd] cont [simplified])
qed

lemma Came_inv:
  assumes "ssl_within ssl sv S R n" and "wtls_inv ssl sv S rd n wire sends c s" and "rd + length data \<le> R"
  shows "exits_or (\<lambda>(go, s'). wtls_inv ssl sv S (rd + length data) n wire sends c s') (wtls_turn ws ssl user True (Queued c (ReadDone data)) s)"
proof -
  obtain cn where cn: "win_conns s c = Some cn" "win_open cn" using assms(2) by (rule wtls_inv_conn)
  let ?cn = "cn\<lparr>read_status := UpdateRefCount False (read_status cn)\<rparr>"
  let ?s = "set_win c ?cn (win_world s) s"
  have "wtls_inv ssl sv S rd n wire sends c ?s"
    by (rule wtls_inv_same [OF assms(2) cn(1)]) (simp add: same_data_def UpdateRefCount_def)
  note r = OnRead_inv [OF assms(1) this assms(3), of ws user]
  have "kPollIn AND kPollOut = 0" "kPollIn AND kPollIn \<noteq> 0" by (simp_all add: poll_bits)
  then have "wtls_turn ws ssl user True (Queued c (ReadDone data)) s =
      obind (Win_OnReadCallback_via ws (win_virtual_ReadBuffer ws ssl) user c data ?s) (\<lambda>s2. Some (Inr (True, s2)))"
    using cn by (simp add: wtls_turn_def iocp_turn_via_def count_off_def Win_HandleEvents_def win_open_def)
  then show ?thesis by (simp only:) (rule exits_or_bind [OF r], simp)
qed

lemma Sent_inv:
  assumes "wtls_inv ssl sv S rd n wire sends c s" and cn: "win_conns s c = Some cn" "write_pending cn" "k \<le> length (write_wsa_buf cn)"
  shows "exits_or (\<lambda>(go, s'). wtls_inv ssl sv S rd n (wire @ take k (write_wsa_buf cn)) sends c s') (wtls_turn ws ssl user True (Queued c (WriteDone k)) s)"
proof -
  let ?wire = "wire @ take k (write_wsa_buf cn)" and ?b = "wc_write_buffer cn"
  let ?I = "wtls_inv ssl sv S rd n ?wire sends c"
  obtain p where p: "wtls_parts s c = Some p" using wtls_inv_part [OF assms(1)] by blast
  obtain b F plain where i: "subseq plain sends" "F \<or> prefix plain sends \<and> (b \<or> plain = sends)" "is_server p" "win_open cn" "posted cn" "b \<longrightarrow> wc_shut_down cn"
    "SSL_is_init_finished ssl (ssl_engine p) \<longrightarrow> content (pre_write_buffer p) = []" "F \<longrightarrow> tv_failed sv (ssl_engine p)" and d: "wtls_data sv S rd n wire plain cn p"
    using wtls_inv_at [OF assms(1) p] cn(1) by (metis option.inject)
  obtain rest where rest: "content ?b = write_wsa_buf cn @ rest" using i(5) cn(2) by (auto simp: posted_def elim: prefixE)
  have bok: "buffer_ok ?b" using d by (simp add: wtls_data_def)
  have "length (content ?b) < 2 ^ 32" by (rule length_content_less)
  then have k: "k mod 2 ^ 32 = k" using cn(3) rest by simp
  have hr: "buffer_ok (HaveRead k ?b)" "content (HaveRead k ?b) = drop k (content ?b)" using HaveRead_ok [OF bok, of k] k by simp_all
  have tk: "take k (write_wsa_buf cn) = take k (content ?b)" using rest cn(3) by simp
  define cn1 where "cn1 = cn\<lparr>write_status := UpdateRefCount False (write_status cn), write_pending := False, wc_write_buffer := HaveRead k ?b\<rparr>"
  let ?s = "set_win c cn1 (win_world s) s"
  have "?wire @ content (HaveRead k ?b) = wire @ content ?b" using hr(2) tk by simp
  then have d1: "wtls_data sv S rd n ?wire plain cn1 p"
    using d hr HaveRead_room [of ?b _ k] tk by (simp add: wtls_data_def cn1_def)
  have inv: "?I (set_win c cn' w s)" if "win_open cn'" "posted cn'" "b \<longrightarrow> wc_shut_down cn'" "wc_write_buffer cn' = wc_write_buffer cn1" "wc_read_buffer cn' = wc_read_buffer cn1"
    for cn' w
  proof (rule wtls_invI [OF i(1,2)])
    show "wtls_core ssl sv S rd n ?wire b F (SSL_is_init_finished ssl (ssl_engine p)) (SSL_is_init_finished ssl (ssl_engine p)) plain c (set_win c cn' w s)"
      using that p i(3,7,8) d1 unfolding wtls_core_def by (auto simp: wtls_data_def)
  qed
  have o1: "win_open cn1" using i(4) by (simp add: cn1_def win_open_def UpdateRefCount_def)
  have pw: "exits_or ?I (Some (PostWrite ws c ?s))"
  proof -
    have "exits_or (\<lambda>s'. \<exists>cn' w. s' = set_win c cn' w ?s \<and> reposts cn1 cn') (Some (PostWrite ws c ?s))"
      by (rule PostWrite_posts) (simp_all add: cn1_def hr(1))
    then show ?thesis
    proof (rule exits_or_mono)
      fix s' assume "\<exists>cn' w. s' = set_win c cn' w ?s \<and> reposts cn1 cn'"
      then obtain cn' w where s': "s' = set_win c cn' w s" and r: "reposts cn1 cn'" by auto
      show "?I s'" unfolding s'
        using repostsD [OF r] o1 i(6) by (intro inv) (auto simp: win_open_def cn1_def)
    qed
  qed
  have cl: "exits_or ?I (close_if_done ws user c (\<lambda>s2. obind (Some (PostWrite ws c s2)) (close_if_done ws user c (\<lambda>s3. Some (Inr s3)))) ?s)"
  proof (cases "wc_shut_down cn \<and> Buffer_Empty (wc_write_buffer cn1)")
    case True
    then have "?I ?s" using o1 by (intro inv) (auto simp: posted_def cn1_def)
    then show ?thesis using OnClose_inv True by (auto simp: close_if_done_def cn1_def)
  next
    case False
    have "exits_or ?I (obind (Some (PostWrite ws c ?s)) (close_if_done ws user c (\<lambda>s3. Some (Inr s3))))"
      by (rule exits_or_bind [OF pw], rule close_if_done_inv) simp_all
    then show ?thesis using False by (auto simp: close_if_done_def cn1_def)
  qed
  have "kPollOut AND kPollOut \<noteq> 0" "kPollOut AND kPollIn = 0" by (simp_all add: poll_bits)
  then have "wtls_turn ws ssl user True (Queued c (WriteDone k)) s =
      obind (close_if_done ws user c (\<lambda>s2. obind (Some (PostWrite ws c s2)) (close_if_done ws user c (\<lambda>s3. Some (Inr s3)))) ?s) (\<lambda>s2. Some (Inr (True, s2)))"
    using cn(1) p i(3,4)
    by (simp add: wtls_turn_def iocp_turn_via_def count_off_def Win_HandleEvents_def Win_OnWriteCallback_via_def win_virtual_WriteBuffer_def WinTls_WriteBuffer_def
        Win_WriteBuffer_def win_call_def win_open_def cn1_def obind_return)
  then show ?thesis by (simp only:) (rule exits_or_bind [OF cl], simp)
qed

section \<open>Runs\<close>

text \<open>
  The application sends; a read completes with bytes of the client, or with none at the end of the stream; the write under way
  completes after \<open>n\<close> bytes, which \<open>wire\<close> collects.
\<close>

datatype wtls_op = WtlsSend string | WtlsCame string | WtlsSent nat

fun wtls_text :: "wtls_op \<Rightarrow> string" where
  "wtls_text (WtlsSend buf) = buf"
| "wtls_text _ = []"

fun wtls_do ::
  "'w winsock \<Rightarrow> 'e openssl \<Rightarrow> ('u, 'w, ('e, 'z) win_tls_ext) win_user \<Rightarrow> addr \<Rightarrow> wtls_op \<Rightarrow>
     string \<times> ('u, 'w, 'e, 'z) win_tls_scheme \<Rightarrow> (string \<times> ('u, 'w, 'e, 'z) win_tls_scheme) res option" where
  "wtls_do ws ssl user c (WtlsSend buf) (wire, s) = obind (win_virtual_Send ws ssl c buf s) (\<lambda>s'. Some (Inr (wire, s')))"
| "wtls_do ws ssl user c (WtlsCame data) (wire, s) = obind (wtls_turn ws ssl user True (Queued c (ReadDone data)) s) (\<lambda>(_, s'). Some (Inr (wire, s')))"
| "wtls_do ws ssl user c (WtlsSent n) (wire, s) =
     obind (Some (get_win c s)) (\<lambda>cn.
       if write_pending cn \<and> n \<le> length (write_wsa_buf cn)
       then obind (wtls_turn ws ssl user True (Queued c (WriteDone n)) s) (\<lambda>(_, s'). Some (Inr (wire @ take n (write_wsa_buf cn), s')))
       else Some (Inr (wire, s)))"

fun wtls_run ::
  "'w winsock \<Rightarrow> 'e openssl \<Rightarrow> ('u, 'w, ('e, 'z) win_tls_ext) win_user \<Rightarrow> addr \<Rightarrow> wtls_op list \<Rightarrow>
     string \<times> ('u, 'w, 'e, 'z) win_tls_scheme \<Rightarrow> (string \<times> ('u, 'w, 'e, 'z) win_tls_scheme) res option" where
  "wtls_run ws ssl user c [] p = Some (Inr p)"
| "wtls_run ws ssl user c (op # ops) p = obind (wtls_do ws ssl user c op p) (wtls_run ws ssl user c ops)"

fun wtls_input :: "wtls_op \<Rightarrow> nat" where
  "wtls_input (WtlsCame data) = length data"
| "wtls_input _ = 0"

lemma wtls_do_inv:
  assumes "ssl_within ssl sv S R n" and "wtls_inv ssl sv S rd n wire sends c s" and "length (sends @ wtls_text op) \<le> S" and "rd + wtls_input op \<le> R"
  shows "exits_or (\<lambda>(wire', s'). wtls_inv ssl sv S (rd + wtls_input op) n wire' (sends @ wtls_text op) c s') (wtls_do ws ssl user c op (wire, s))"
proof (cases op)
  case (WtlsSend buf)
  obtain p where "wtls_parts s c = Some p" using wtls_inv_part [OF assms(2)] by blast
  then have "wtls_do ws ssl user c op (wire, s) = obind (WinTls_Send ws ssl c buf s) (\<lambda>s'. Some (Inr (wire, s')))"
    by (simp add: WtlsSend win_virtual_Send_def)
  moreover have "ssl_within ssl sv S rd n" using assms(4) by (intro ssl_within_le [OF assms(1)]) simp
  ultimately show ?thesis using WinTls_Send_inv [OF _ assms(2)] assms(3) by (auto simp: WtlsSend intro!: exits_or_bind)
next
  case (WtlsCame data)
  then have "rd + length data \<le> R" using assms(4) by simp
  then show ?thesis using WtlsCame by (auto intro!: exits_or_bind [OF Came_inv [OF assms(1,2)]])
next
  case (WtlsSent k)
  obtain cn where cn: "win_conns s c = Some cn" using assms(2) by (rule wtls_inv_conn)
  show ?thesis
  proof (cases "write_pending cn \<and> k \<le> length (write_wsa_buf cn)")
    case True
    then show ?thesis using cn by (auto simp: WtlsSent intro!: exits_or_bind [OF Sent_inv [OF assms(2) cn]])
  next
    case False
    then show ?thesis using cn assms(2) by (auto simp: WtlsSent)
  qed
qed

lemma wtls_run_inv:
  assumes "ssl_within ssl sv S R n"
  shows "wtls_inv ssl sv S rd n wire sends c s \<Longrightarrow> length (sends @ concat (map wtls_text ops)) \<le> S \<Longrightarrow> rd + sum_list (map wtls_input ops) \<le> R \<Longrightarrow>
     exits_or (\<lambda>(wire', s'). wtls_inv ssl sv S (rd + sum_list (map wtls_input ops)) n wire' (sends @ concat (map wtls_text ops)) c s') (wtls_run ws ssl user c ops (wire, s))"
proof (induction ops arbitrary: wire sends rd s)
  case (Cons op ops)
  have "length (sends @ wtls_text op) \<le> S" "rd + wtls_input op \<le> R" using Cons.prems(2,3) by simp_all
  note step = wtls_do_inv [OF assms Cons.prems(1) this, of ws user]
  show ?case
    using Cons.prems(2,3) Cons.IH [of "rd + wtls_input op" _ "sends @ wtls_text op"] by (auto simp: add.assoc intro!: exits_or_bind [OF step])
qed simp

lemma WinTls_Init_inv:
  assumes "ssl_within ssl sv S R n" and "n < 2 ^ 32" and "fresh_engine sv (SSL_new ssl True)" and "length first \<le> R"
  shows "exits_or (wtls_inv ssl sv S (length first) n [] [] c) (WinTls_Init ws ssl user c has_port first (WinTls_new ssl f True c s))"
proof -
  let ?s = "WinTls_new ssl f True c s"
  have init: "exits_or (wtls_inv ssl sv S 0 n [] [] c) (Win_Init ws user c has_port [] ?s)"
  proof -
    obtain cn p where cn: "win_conns ?s c = Some cn" "wtls_parts ?s c = Some p"
      "cn = \<lparr>wc_fd = f, wc_bound = False, wc_on_read = None, wc_on_write = None, wc_on_close = None,
                read_wsa_buf = [], write_wsa_buf = [], read_status = SocketIocpStatus_new kPollIn, write_status = SocketIocpStatus_new kPollOut,
                write_pending = False, wc_read_buffer = Buffer_new, wc_write_buffer = Buffer_new, wc_shut_down = False, wc_send_file = False\<rparr>"
      "p = \<lparr>ssl_engine = SSL_new ssl True, tls_accepted = False, is_server = True, pre_write_buffer = Buffer_new\<rparr>"
      by (simp add: WinTls_new_def WinConnection_new_def set_win_def set_wtls_def)
    have "room Buffer_new n" "room Buffer_new (2 ^ 31)" using assms(2) by (simp_all add: room_def Buffer_new_def)
    then have "wtls_core ssl sv S 0 n [] False False (SSL_is_init_finished ssl (ssl_engine p)) (SSL_is_init_finished ssl (ssl_engine p)) [] c
        (set_win c (cn\<lparr>wc_bound := True, wc_read_buffer := Buffer_new\<rparr>) w ?s)" for w
      using cn assms(3) unfolding wtls_core_def
      by (simp add: win_open_def posted_def wtls_data_def reads_ok_def fresh_engine_def SocketIocpStatus_new_def)
    then have i: "wtls_inv ssl sv S 0 n [] [] c (set_win c (cn\<lparr>wc_bound := True, wc_read_buffer := Buffer_new\<rparr>) w ?s)" for w
      by (intro wtls_invI [of _ _ False False]) auto
    have "Buffer_Empty Buffer_new" by (simp add: Buffer_Empty_iff)
    then have w: "Win_Init ws user c has_port [] ?s =
        obind (Some (if has_port then UpdateIocpPort ws f (win_world ?s) else Inr (win_world ?s)))
          (\<lambda>w. Some (PostRead ws c (set_win c (cn\<lparr>wc_bound := True, wc_read_buffer := Buffer_new\<rparr>) w ?s)))"
      using cn(1,3) by (simp add: Win_Init_def Let_def)
    have u: "exits_or (\<lambda>_. True) (Some (if has_port then UpdateIocpPort ws f (win_world ?s) else Inr (win_world ?s)))"
      by (auto simp: UpdateIocpPort_def split: prod.split)
    show ?thesis unfolding w by (rule exits_or_bind [OF u]) (rule PostRead_inv [OF i])
  qed
  have last: "exits_or (wtls_inv ssl sv S (length first) n [] [] c) (obind (Some (get_wtls c s2)) (\<lambda>p. if is_server p then Some (Inr s2) else WinTls_WriteBuffer ws ssl c 0 s2))"
    if "wtls_inv ssl sv S (length first) n [] [] c s2" for s2
    using wtls_inv_part [OF that] that by auto
  have first: "exits_or (\<lambda>(fail, s2). wtls_inv ssl sv S (length first) n [] [] c s2) (WinTls_ReadFromBuffer ws ssl c first s2)"
    if "wtls_inv ssl sv S 0 n [] [] c s2" for s2
    using ReadFromBuffer_win [OF assms(1) that, of first ws] assms(4) by simp
  show ?thesis
    unfolding WinTls_Init_def
    by (auto intro!: exits_or_bind [OF init] exits_or_bind [OF first] last [simplified])
qed

section \<open>Properties\<close>

text \<open>
  Property C8. An encrypted connection of a server on Windows keeps the order of its data: whatever the application sends, whatever bytes
  of the client the completed reads bring, and however the writes complete, what the engine has written is what
  has gone out, then the write buffer, then the engine's \<open>BIO\<close>, and the read buffer holds what the engine has delivered.
  Unless a call of \<open>SSL_write\<close> has failed, the engine has been given a prefix of what was sent and what waits for the handshake follows, all of it until
  the connection is shut down; after a failure something may be missing, but nothing is moved or repeated. Until the connection is
  shut down, a write is under way exactly while something waits. A call returns or ends the process. The amount of plain text
  and of input is such that what the engine makes of it is less than the 4 gigabytes that a buffer can hold.
\<close>

theorem win_tls_keeps_order:
  assumes "ssl_promise ssl sv" and "fresh_engine sv (SSL_new ssl True)" and "length (concat (map wtls_text ops)) < 2 ^ 31"
    and "tv_cap sv (length (concat (map wtls_text ops))) (length first + sum_list (map wtls_input ops)) < 2 ^ 32"
  shows "exits_or (\<lambda>(wire, s'). \<exists>cn p. win_conns s' c = Some cn \<and> wtls_parts s' c = Some p \<and>
       tv_made sv (ssl_engine p) = wire @ content (wc_write_buffer cn) @ tv_out sv (ssl_engine p) \<and>
       content (wc_read_buffer cn) = tv_got sv (ssl_engine p) \<and>
       subseq (tv_plain sv (ssl_engine p) @ content (pre_write_buffer p)) (concat (map wtls_text ops)) \<and>
       (\<not> tv_failed sv (ssl_engine p) \<longrightarrow>
          prefix (tv_plain sv (ssl_engine p) @ content (pre_write_buffer p)) (concat (map wtls_text ops)) \<and>
          (\<not> wc_shut_down cn \<longrightarrow> tv_plain sv (ssl_engine p) @ content (pre_write_buffer p) = concat (map wtls_text ops))) \<and>
       (\<not> wc_shut_down cn \<longrightarrow> (write_pending cn \<longleftrightarrow> content (wc_write_buffer cn) \<noteq> [])) \<and>
       (write_pending cn \<longrightarrow> prefix (write_wsa_buf cn) (content (wc_write_buffer cn))) \<and>
       (SSL_is_init_finished ssl (ssl_engine p) \<longrightarrow> content (pre_write_buffer p) = []))
     (obind (WinTls_Init ws ssl user c has_port first (WinTls_new ssl f True c s)) (\<lambda>s1. wtls_run ws ssl user c ops ([], s1)))"
proof -
  let ?S = "length (concat (map wtls_text ops))" and ?R = "length first + sum_list (map wtls_input ops)"
  have w: "ssl_within ssl sv ?S ?R (tv_cap sv ?S ?R)" using assms(1,3) by (simp add: ssl_within_def)
  have "exits_or (\<lambda>(wire, s'). wtls_inv ssl sv ?S ?R (tv_cap sv ?S ?R) wire (concat (map wtls_text ops)) c s')
      (obind (WinTls_Init ws ssl user c has_port first (WinTls_new ssl f True c s)) (\<lambda>s1. wtls_run ws ssl user c ops ([], s1)))"
    using wtls_run_inv [OF w, where sends = "[]" and ops = ops and rd = "length first"]
    by (intro exits_or_bind [OF WinTls_Init_inv [OF w assms(4,2)]]) simp_all
  then show ?thesis
    by (auto simp: wtls_inv_def wtls_core_def wtls_data_def reads_ok_def posted_def elim!: exits_or_mono)
qed

definition wtls_net :: "(nat, string list, toy_engine) win_tls" where
  "wtls_net = \<lparr>win_world = [], win_conns = Map.empty, wtls_parts = Map.empty\<rparr>"

definition no_wtls_user :: "(nat, string list, (toy_engine, unit) win_tls_ext) win_user" where
  "no_wtls_user u c s = Some (Inr s)"

lemma toy_write: "SSL_write toy_ssl ''hi'' (toy_sent\<lparr>te_plain := [], te_made := []\<rparr>) = (2, toy_sent\<lparr>te_out := ''hi''\<rparr>)"
  by (simp add: toy_ssl_def toy_sent_def Let_def)

lemma toy_encrypt:
  "Encrypt toy_ssl (toy_sent\<lparr>te_out := ''hi''\<rparr>) (Plain Buffer_new) = Some (Inr (toy_sent, Plain \<lparr>read_index = 0, write_index = 2, vec = ''hi''\<rparr>))"
proof -
  have "IBuffer_Write ''hi'' (Plain Buffer_new) = Inr (Plain \<lparr>read_index = 0, write_index = 2, vec = ''hi''\<rparr>)"
    by (simp add: IBuffer_Write_def Buffer_Write_def Buffer_new_def)
  then show ?thesis
    using toy_loops(1) by (subst Encrypt.simps) (simp add: toy_ssl_def toy_sent_def kMaxBufferSize_def)
qed

definition toy_up :: toy_engine where
  "toy_up = \<lparr>te_fin = True, te_plain = [], te_fed = ''!'', te_made = [], te_out = [], te_got = [], te_in = []\<rparr>"

lemma toy_up_loops:
  "Encrypt toy_ssl toy_up wb = Some (Inr (toy_up, wb))" "Decrypt toy_ssl toy_up rb = Some (Inr (0, toy_up, rb))"
  by (subst Encrypt.simps Decrypt.simps, simp add: toy_ssl_def toy_up_def kMaxBufferSize_def)+

definition wtls_conn :: "u32 \<Rightarrow> buffer \<Rightarrow> nat win_connection" where
  "wtls_conn k b =
     \<lparr>wc_fd = 7, wc_bound = True, wc_on_read = None, wc_on_write = None, wc_on_close = None, read_wsa_buf = [], write_wsa_buf = [],
      read_status = \<lparr>iocp_status = kPollIn, ref_count = 1\<rparr>, write_status = \<lparr>iocp_status = kPollOut, ref_count = k\<rparr>, write_pending = False,
      wc_read_buffer = Buffer_new, wc_write_buffer = b, wc_shut_down = False, wc_send_file = False\<rparr>"

definition wtls_up :: "(nat, string list, toy_engine) win_tls" where
  "wtls_up = \<lparr>win_world = [], win_conns = [2 \<mapsto> wtls_conn 0 Buffer_new],
     wtls_parts = [2 \<mapsto> \<lparr>ssl_engine = toy_up, tls_accepted = False, is_server = True, pre_write_buffer = Buffer_new\<rparr>]\<rparr>"

lemma wtls_read_loop_nil: "wtls_read_loop ws ssl c [] s = Some (Inr (False, s))"
  by (subst wtls_read_loop.simps) simp

lemma wtls_write_loop_nil: "wtls_write_loop ws ssl c buf n n s = Some (Inr s)"
  by (subst wtls_write_loop.simps) simp

lemma toy_Init: "WinTls_Init pending_winsock toy_ssl no_wtls_user 2 True ''!'' (WinTls_new toy_ssl 7 True 2 wtls_net) = Some (Inr wtls_up)"
proof -
  have up: "\<lparr>te_fin = True, te_plain = [], te_fed = ''!'', te_made = [], te_out = [], te_got = [], te_in = []\<rparr> = toy_up" by (simp add: toy_up_def)
  have fin: "te_fin toy_up" by (simp add: toy_up_def)
  have ra: "Buffer_ReadAll Buffer_new = Inr ([], Buffer_new)"
    by (simp add: Buffer_ReadAll_def Buffer_Read_def Buffer_Peek_def HaveRead_def ReadableBytes_def Buffer_new_def)
  have pk: "Buffer_Peek kMaxWsaBufSize Buffer_new = Inr (0, [])"
    by (simp add: Buffer_Peek_def ReadableBytes_def Buffer_new_def)
  have e: "Buffer_Empty Buffer_new" by (simp add: Buffer_Empty_iff)
  show ?thesis
    by (simp add: WinTls_Init_def Win_Init_def WinTls_new_def WinConnection_new_def UpdateIocpPort_def PostRead_def socket_read_iocp_def pending_winsock_def
        WinTls_ReadFromBuffer_def to_i32_id wtls_read_loop.simps [of _ _ _ "''!''"] toy_calls wtls_read_step_def wtls_handshake_def WinTls_OnSslHandshakeFinished_def
        WinTls_Send_def WinTls_HandleSslError_def wtls_decrypted_def encrypt_post_def PostWrite_def toy_up_loops ra pk e wtls_read_loop_nil wtls_write_loop_nil up fin
        set_engine_def wtls_net_def get_win_def get_wtls_def set_win_def set_wtls_def SocketIocpStatus_new_def UpdateRefCount_def wtls_up_def wtls_conn_def Let_def)
qed

lemma toy_Send_Sent:
  "\<exists>s' cn. wtls_run pending_winsock toy_ssl no_wtls_user 2 [WtlsSend ''hi'', WtlsSent 2] ([], wtls_up) = Some (Inr (''hi'', s')) \<and>
     win_conns s' 2 = Some cn \<and> \<not> wc_shut_down cn"
proof -
  let ?hi = "\<lparr>read_index = 0, write_index = 2, vec = ''hi''\<rparr>"
  have up: "toy_sent\<lparr>te_plain := [], te_made := []\<rparr> = toy_up" by (simp add: toy_sent_def toy_up_def)
  have fin: "te_fin toy_up" by (simp add: toy_up_def)
  have pk: "Buffer_Peek kMaxWsaBufSize ?hi = Inr (2, ''hi'')" "Buffer_Peek kMaxWsaBufSize (HaveRead 2 ?hi) = Inr (0, [])"
    by (simp_all add: Buffer_Peek_def ReadableBytes_def kMaxWsaBufSize_def HaveRead_def)
  have loop: "wtls_write_loop ws toy_ssl 2 ''hi'' 0 2 s = encrypt_post ws toy_ssl 2 (set_engine 2 (toy_sent\<lparr>te_out := ''hi''\<rparr>) p s)"
    if "wtls_parts s 2 = Some p" "ssl_engine p = toy_up" for ws and s :: "(nat, string list, toy_engine) win_tls" and p
    using that toy_write [unfolded up]
    by (subst wtls_write_loop.simps) (auto simp: wtls_write_loop_nil split: bind_splits sum.split)
  have "kPollOut AND kPollOut \<noteq> 0" "kPollOut AND kPollIn = 0" by (simp_all add: poll_bits)
  then show ?thesis
    by (simp add: wtls_up_def win_virtual_Send_def WinTls_Send_def to_i32_id toy_calls fin loop encrypt_post_def toy_encrypt PostWrite_def pk socket_write_iocp_def
        pending_winsock_def wtls_conn_def get_win_def get_wtls_def set_win_def set_wtls_def set_engine_def UpdateRefCount_def Let_def
        wtls_turn_def iocp_turn_via_def count_off_def Win_HandleEvents_def Win_OnWriteCallback_via_def win_virtual_WriteBuffer_def WinTls_WriteBuffer_def
        Win_WriteBuffer_def win_call_def close_if_done_def)
qed

theorem win_tls_keeps_order_witness:
  "\<exists>s' cn p. obind (WinTls_Init pending_winsock toy_ssl no_wtls_user 2 True ''!'' (WinTls_new toy_ssl 7 True 2 wtls_net))
       (\<lambda>s1. wtls_run pending_winsock toy_ssl no_wtls_user 2 [WtlsSend ''hi'', WtlsSent 2] ([], s1)) = Some (Inr (''hi'', s')) \<and>
     win_conns s' 2 = Some cn \<and> wtls_parts s' 2 = Some p \<and> te_made (ssl_engine p) = ''hi'' @ content (wc_write_buffer cn) @ te_out (ssl_engine p) \<and>
     te_plain (ssl_engine p) @ content (pre_write_buffer p) = ''hi'' \<and> (write_pending cn \<longleftrightarrow> content (wc_write_buffer cn) \<noteq> [])"
proof -
  have v: "tv_plain toy_view = te_plain" "tv_made toy_view = te_made" "tv_out toy_view = te_out" "tv_got toy_view = te_got"
    "tv_failed toy_view = (\<lambda>e. False)" "tv_cap toy_view = (+)" by (simp_all add: toy_view_def)
  obtain s' cn where r: "wtls_run pending_winsock toy_ssl no_wtls_user 2 [WtlsSend ''hi'', WtlsSent 2] ([], wtls_up) = Some (Inr (''hi'', s'))"
    "win_conns s' 2 = Some cn" "\<not> wc_shut_down cn" using toy_Send_Sent by blast
  let ?m = "obind (WinTls_Init pending_winsock toy_ssl no_wtls_user 2 True ''!'' (WinTls_new toy_ssl 7 True 2 wtls_net))
       (\<lambda>s1. wtls_run pending_winsock toy_ssl no_wtls_user 2 [WtlsSend ''hi'', WtlsSent 2] ([], s1))"
  have m: "?m = Some (Inr (''hi'', s'))" using r(1) by (simp only: toy_Init obind_simps)
  show ?thesis
    using win_tls_keeps_order [OF toy_promise, of "[WtlsSend ''hi'', WtlsSent 2]" "''!''" 2 pending_winsock no_wtls_user True 7 wtls_net] r(2,3)
    unfolding m v by simp blast
qed

text \<open>
  Property C38. The first message of an encrypted client goes out twice on Windows: when the write of the client's hello has completed and no answer has come,
  \<open>WriteBuffer\<close> takes a step of the handshake, and its call of \<open>PostWrite\<close> posts the front of the buffer, where the
  bytes that have been sent still are; they are taken out only after that. The engine has written the hello once, but a second write of it is under way.
\<close>

theorem win_client_hello_twice:
  fixes s :: "('u, 'w, 'e, 'z) win_tls_scheme"
  assumes k: "takes_writes ws" "\<And>f n w. fst (wsa_recv ws f n w) \<in> {WSA_OK, SOCKET_ERROR WSA_IO_PENDING}"
    and new: "\<not> SSL_is_init_finished ssl (SSL_new ssl False)" "SSL_do_handshake ssl (SSL_new ssl False) = (-1, e1)"
      "SSL_get_error ssl (-1) e1 = SSL_ERROR_WANT_READ" "Encrypt ssl e1 (Plain Buffer_new) = Some (Inr (e2, Plain b))"
    and hello: "buffer_ok b" "content b = hello" "hello \<noteq> []" "length hello \<le> 1024"
    and waits: "\<not> SSL_is_init_finished ssl e2" "SSL_do_handshake ssl e2 = (-1, e2)" "SSL_get_error ssl (-1) e2 = SSL_ERROR_WANT_READ"
      "\<And>wb. Encrypt ssl e2 wb = Some (Inr (e2, wb))"
  shows "\<exists>s1 cn1 s2 cn2. WinTls_Init ws ssl user c False [] (WinTls_new ssl f False c s) = Some (Inr s1) \<and>
     win_conns s1 c = Some cn1 \<and> write_pending cn1 \<and> write_wsa_buf cn1 = hello \<and>
     wtls_turn ws ssl user True (Queued c (WriteDone (length hello))) s1 = Some (Inr (True, s2)) \<and>
     win_conns s2 c = Some cn2 \<and> write_pending cn2 \<and> write_wsa_buf cn2 = hello \<and> content (wc_write_buffer cn2) = [] \<and>
     win_world s2 = snd (wsa_send ws f hello (win_world s1))"
proof -
  let ?cn = "\<lambda>x p w b. \<lparr>wc_fd = f, wc_bound = True, wc_on_read = None, wc_on_write = None, wc_on_close = None,
                read_wsa_buf = [], write_wsa_buf = x, read_status = \<lparr>iocp_status = kPollIn, ref_count = 1\<rparr>, write_status = \<lparr>iocp_status = kPollOut, ref_count = w\<rparr>,
                write_pending = p, wc_read_buffer = Buffer_new, wc_write_buffer = b, wc_shut_down = False, wc_send_file = False\<rparr>"
  let ?p = "\<lambda>e. \<lparr>ssl_engine = e, tls_accepted = False, is_server = False, pre_write_buffer = Buffer_new\<rparr>"
  have pk: "Buffer_Peek kMaxWsaBufSize b = Inr (min (to_u32 1024) (ReadableBytes b), hello)" and ne: "min (to_u32 1024) (ReadableBytes b) \<noteq> 0"
    using Peek_wsa [OF hello(1)] hello(2-4) by simp_all
  obtain r w where w: "wsa_recv ws f kMaxIocpRecvSize (win_world s) = (r, w)" "r = WSA_OK \<or> r = SOCKET_ERROR WSA_IO_PENDING"
    using k(2) [of f kMaxIocpRecvSize "win_world s"] by (cases "wsa_recv ws f kMaxIocpRecvSize (win_world s)") auto
  have snd: "\<exists>r w'. wsa_send ws f hello w = (r, w') \<and> (r = WSA_OK \<or> r = SOCKET_ERROR WSA_IO_PENDING)" for w
    using k(1) unfolding takes_writes_def by blast
  obtain r1 w1 where w1: "wsa_send ws f hello w = (r1, w1)" "r1 = WSA_OK \<or> r1 = SOCKET_ERROR WSA_IO_PENDING" using snd by blast
  obtain r2 w2 where w2: "wsa_send ws f hello w1 = (r2, w2)" "r2 = WSA_OK \<or> r2 = SOCKET_ERROR WSA_IO_PENDING" using snd by blast
  have post: "PostWrite ws c s' = Inr (set_win c (?cn hello True (m + 1) b) w' s')"
    if "win_conns s' c = Some (?cn x False m b)" "wsa_send ws f hello (win_world s') = (r, w')" "r = WSA_OK \<or> r = SOCKET_ERROR WSA_IO_PENDING"
    for s' :: "('u, 'w, 'e, 'z) win_tls_scheme" and x m r w'
    using that pk ne by (auto simp: PostWrite_def socket_write_iocp_def UpdateRefCount_def Let_def)
  have same: "HaveRead 0 b = b" using hello(2,3) by (auto simp: HaveRead_def content_def Let_def)
  have "length hello < 2 ^ 32" using hello(4) by simp
  then have hr: "content (HaveRead (length hello) b) = []" using HaveRead_ok(2) [OF hello(1), of "length hello"] hello(2) by simp
  define s1 where "s1 = set_win c (?cn hello True 1 b) w1 (set_wtls c (?p e2) s)"
  define s2 where "s2 = set_win c (?cn hello True 1 (HaveRead (length hello) b)) w2 (set_wtls c (?p e2) s)"
  have e: "Buffer_Empty Buffer_new" by (simp add: Buffer_Empty_iff)
  have comm: "set_wtls c p (set_win c cn w' s') = set_win c cn w' (set_wtls c p s')" "set_wtls c p (set_wtls c q s') = set_wtls c p s'" for p q cn w' and s' :: "('u, 'w, 'e, 'z) win_tls_scheme"
    by (simp_all add: set_win_def set_wtls_def)
  have post1: "PostWrite ws c (set_win c (?cn [] False 0 b) w s') = Inr (set_win c (?cn hello True 1 b) w1 s')" for s' :: "('u, 'w, 'e, 'z) win_tls_scheme"
    using post [of "set_win c (?cn [] False 0 b) w s'" "[]" 0 r1 w1] w1 by simp
  have post2: "PostWrite ws c (set_win c (?cn hello False 0 b) w1 s') = Inr (set_win c (?cn hello True 1 b) w2 s')" for s' :: "('u, 'w, 'e, 'z) win_tls_scheme"
    using post [of "set_win c (?cn hello False 0 b) w1 s'" hello 0 r2 w2] w2 by simp
  have i: "WinTls_Init ws ssl user c False [] (WinTls_new ssl f False c s) = Some (Inr s1)"
    using w new e post1 same
    by (auto simp: s1_def WinTls_Init_def Win_Init_def WinTls_new_def WinConnection_new_def PostRead_def socket_read_iocp_def WinTls_ReadFromBuffer_def to_i32_id
        WinTls_WriteBuffer_def wtls_handshake_def WinTls_HandleSslError_def encrypt_post_def Win_WriteBuffer_def SocketIocpStatus_new_def UpdateRefCount_def
        set_engine_def comm Let_def)
  have "kPollOut AND kPollOut \<noteq> 0" "kPollOut AND kPollIn = 0" by (simp_all add: poll_bits)
  then have "wtls_turn ws ssl user True (Queued c (WriteDone (length hello))) s1 = Some (Inr (True, s2))"
    using waits post2
    by (simp add: s1_def s2_def wtls_turn_def iocp_turn_via_def count_off_def Win_HandleEvents_def Win_OnWriteCallback_via_def win_virtual_WriteBuffer_def
        WinTls_WriteBuffer_def wtls_handshake_def WinTls_HandleSslError_def encrypt_post_def Win_WriteBuffer_def UpdateRefCount_def win_call_def close_if_done_def
        set_engine_def comm Let_def PostWrite_def [of _ _ "set_win c (?cn hello True 1 (HaveRead (length hello) b)) w2 _"])
  then show ?thesis using i hr w2(1)
    by (intro exI [of _ s1] exI [of _ "?cn hello True 1 b"] exI [of _ s2] exI [of _ "?cn hello True 1 (HaveRead (length hello) b)"]) (simp add: s1_def s2_def)
qed

text \<open>An engine that writes the hello of a client in the first step of the handshake and then waits.\<close>

definition hello_ssl :: "toy_engine openssl" where
  "hello_ssl = toy_ssl\<lparr>SSL_do_handshake := \<lambda>e. (-1, if te_made e = [] then e\<lparr>te_made := ''HELLO'', te_out := ''HELLO''\<rparr> else e)\<rparr>"

theorem win_client_hello_twice_witness:
  "\<exists>s1 cn1 s2 cn2. WinTls_Init pending_winsock hello_ssl no_wtls_user 2 False [] (WinTls_new hello_ssl 7 False 2 wtls_net) = Some (Inr s1) \<and>
     win_conns s1 2 = Some cn1 \<and> write_wsa_buf cn1 = ''HELLO'' \<and>
     wtls_turn pending_winsock hello_ssl no_wtls_user True (Queued 2 (WriteDone 5)) s1 = Some (Inr (True, s2)) \<and>
     win_conns s2 2 = Some cn2 \<and> write_pending cn2 \<and> write_wsa_buf cn2 = ''HELLO'' \<and> content (wc_write_buffer cn2) = []"
proof -
  let ?e = "\<lparr>te_fin = False, te_plain = [], te_fed = [], te_made = ''HELLO'', te_out = [], te_got = [], te_in = []\<rparr>"
  let ?b = "\<lparr>read_index = 0, write_index = 5, vec = ''HELLO''\<rparr>"
  have k: "takes_writes pending_winsock" "\<And>f n w. fst (wsa_recv pending_winsock f n w) \<in> {WSA_OK, SOCKET_ERROR WSA_IO_PENDING}"
    by (simp_all add: takes_writes_def pending_winsock_def)
  have h: "\<not> SSL_is_init_finished hello_ssl (SSL_new hello_ssl False)" "SSL_do_handshake hello_ssl (SSL_new hello_ssl False) = (-1, ?e\<lparr>te_out := ''HELLO''\<rparr>)"
    "SSL_get_error hello_ssl (-1) (?e\<lparr>te_out := ''HELLO''\<rparr>) = SSL_ERROR_WANT_READ"
    "\<not> SSL_is_init_finished hello_ssl ?e" "SSL_do_handshake hello_ssl ?e = (-1, ?e)" "SSL_get_error hello_ssl (-1) ?e = SSL_ERROR_WANT_READ"
    by (simp_all add: hello_ssl_def toy_ssl_def)
  have q: "Encrypt hello_ssl ?e wb = Some (Inr (?e, wb))" for wb
    by (subst Encrypt.simps) (simp add: hello_ssl_def toy_ssl_def kMaxBufferSize_def)
  have "IBuffer_Write ''HELLO'' (Plain Buffer_new) = Inr (Plain ?b)" by (simp add: IBuffer_Write_def Buffer_Write_def Buffer_new_def)
  then have n: "Encrypt hello_ssl (?e\<lparr>te_out := ''HELLO''\<rparr>) (Plain Buffer_new) = Some (Inr (?e, Plain ?b))"
    using q by (subst Encrypt.simps) (simp add: hello_ssl_def toy_ssl_def kMaxBufferSize_def)
  have len: "length ''HELLO'' = 5" by simp
  have b: "buffer_ok ?b" "content ?b = ''HELLO''" by (simp_all add: buffer_ok_def content_def)
  show ?thesis
    using win_client_hello_twice [OF k h(1-3) n b _ _ h(4-6) q, of no_wtls_user 2 7 wtls_net] unfolding len by auto
qed

end
