(* ===== verification/Iocp_Acceptor.thy ===== *)
theory Iocp_Acceptor
  imports Iocp_Tls Socket_Calls
begin

text \<open>
  How a server accepts connections on Windows: the acceptor of \<^verbatim>\<open>Acceptor.cpp\<close> posts one \<open>AcceptEx\<close> at a time, which
  also reads the first bytes of the client into the acceptor's buffer, and \<open>OnNewConnection\<close> of \<^verbatim>\<open>TcpServer.cpp\<close>, run
  as a task of the thread pool, takes these bytes from that buffer.
\<close>

section \<open>State\<close>

datatype 'k win_cb = WinRead | WinClosed fd | WinUser 'k

text \<open>A task holds the socket, the address and the number of bytes; the bytes stay in the acceptor's buffer.\<close>

record accept_task =
  at_fd :: fd
  at_addr :: SocketAddr
  at_size :: nat

text \<open>A loop has a handle of the port, or none after it was reset.\<close>

record win_loop =
  il_port :: bool
  il_running :: bool

text \<open>
  The members of the acceptor begin with \<open>accept\<close>; \<open>ws_acceptor\<close> says whether there is one. A task that calls the application's read callback holds its
  connection.
\<close>

record ('k, 'w, 'e) win_server = "('k win_cb, 'w, 'e) win_tls" +
  accept_channel_fd :: fd
  accept_ipv6 :: bool
  accept_buffer :: string
  cur_accept_fd :: fd
  accept_status :: SocketIocpStatus
  acceptex_loaded :: bool
  accept_tasks :: "accept_task list"
  ws_addr :: SocketAddr
  ws_loop_num :: nat
  ws_running :: bool
  ws_send_file :: bool
  ws_tls :: bool
  ws_port :: bool
  ws_channel :: "fd option"
  ws_acceptor :: bool
  ws_loop :: "win_loop option"
  ws_pool :: "win_loop list option"
  ws_on_read :: "'k option"
  ws_on_write :: "'k option"
  ws_on_connection :: "'k option"
  ws_read_tasks :: "addr list"
  ws_connections :: "(fd \<times> addr) list"
  ws_next :: addr

record 'w acceptex =
  wsa_socket :: "bool \<Rightarrow> bool \<Rightarrow> 'w \<Rightarrow> fd option \<times> 'w"
  set_reuse :: "fd \<Rightarrow> 'w \<Rightarrow> bool \<times> 'w"
  set_sndbuf :: "fd \<Rightarrow> 'w \<Rightarrow> bool \<times> 'w"
  load_acceptex :: "fd \<Rightarrow> 'w \<Rightarrow> bool \<times> 'w"
  accept_ex :: "fd \<Rightarrow> fd \<Rightarrow> nat \<Rightarrow> 'w \<Rightarrow> (int \<times> bool) \<times> 'w"
  update_context :: "fd \<Rightarrow> fd \<Rightarrow> 'w \<Rightarrow> bool \<times> 'w"
  peer_name :: "fd \<Rightarrow> 'w \<Rightarrow> sockaddr option \<times> 'w"
  ax_bind :: "fd \<Rightarrow> sockaddr \<Rightarrow> 'w \<Rightarrow> bool \<times> 'w"
  ax_listen :: "fd \<Rightarrow> 'w \<Rightarrow> bool \<times> 'w"
  ax_close_port :: "'w \<Rightarrow> 'w"

section \<open>Accepting\<close>

definition socket_socket_win :: "'w acceptex \<Rightarrow> bool \<Rightarrow> bool \<Rightarrow> 'w \<Rightarrow> (fd \<times> 'w) res" where
  "socket_socket_win ax tcp v6 w =
     (case wsa_socket ax tcp v6 w of
        (None, _) \<Rightarrow> Inl (EXIT ''socket'')
      | (Some f, w1) \<Rightarrow>
         (case set_reuse ax f w1 of (ok, w2) \<Rightarrow>
           if \<not> ok then Inl (EXIT ''setsockopt'')
           else (case set_sndbuf ax f w2 of (ok2, w3) \<Rightarrow> if ok2 then Inr (f, w3) else Inl (EXIT ''setsockopt''))))"

text \<open>
  The result of \<open>AcceptEx\<close> is compared with \<open>SOCKET_ERROR\<close>, which is minus one; the flag says whether the last error is not \<open>ERROR_IO_PENDING\<close>.
\<close>

definition socket_accept_win :: "'w acceptex \<Rightarrow> fd \<Rightarrow> bool \<Rightarrow> 'w \<Rightarrow> (fd \<times> 'w) res" where
  "socket_accept_win ax f v6 w =
     sbind (socket_socket_win ax True v6 w) (\<lambda>(acceptfd, w1).
       if acceptfd = -1 then Inr (-1, w1)
       else
         case accept_ex ax f acceptfd (kMaxIocpRecvSize - 2 * ((if v6 then 28 else 16) + 16)) w1 of
           ((ret, failed), w2) \<Rightarrow> (if ret = -1 \<and> failed then Inl (EXIT ''AcceptEx'') else Inr (acceptfd, w2)))"

definition getpeername_win :: "'w acceptex \<Rightarrow> fd \<Rightarrow> 'w \<Rightarrow> (sockaddr \<times> 'w) res" where
  "getpeername_win ax f w = (case peer_name ax f w of (None, _) \<Rightarrow> Inl (EXIT ''getpeername'') | (Some a, w') \<Rightarrow> Inr (a, w'))"

definition OnNewConnectionCallback_win :: "fd \<Rightarrow> SocketAddr \<Rightarrow> nat \<Rightarrow> ('k, 'w, 'e) win_server \<Rightarrow> ('k, 'w, 'e) win_server" where
  "OnNewConnectionCallback_win f addr io_size s = s\<lparr>accept_tasks := accept_tasks s @ [\<lparr>at_fd = f, at_addr = addr, at_size = io_size\<rparr>]\<rparr>"

definition report_accepted ::
  "'w acceptex \<Rightarrow> (bool \<Rightarrow> string \<Rightarrow> string option) \<Rightarrow> byte_order \<Rightarrow> nat \<Rightarrow> ('k, 'w, 'e) win_server \<Rightarrow> ('k, 'w, 'e) win_server res" where
  "report_accepted ax ntop e io_size s =
     (if cur_accept_fd s = 0 then Inr s
      else
        case update_context ax (cur_accept_fd s) (accept_channel_fd s) (win_world s) of
          (ok, w1) \<Rightarrow>
            if \<not> ok then Inl (EXIT ''setsockopt'')
            else
              sbind (getpeername_win ax (cur_accept_fd s) w1) (\<lambda>(a, w2).
              sbind (SocketAddr_of_sockaddr ntop e a (accept_ipv6 s)) (\<lambda>addr.
                Inr (OnNewConnectionCallback_win (cur_accept_fd s) addr io_size (s\<lparr>win_world := w2\<rparr>)))))"

definition HandleAcceptCallback_win ::
  "'w acceptex \<Rightarrow> (bool \<Rightarrow> string \<Rightarrow> string option) \<Rightarrow> byte_order \<Rightarrow> nat \<Rightarrow> ('k, 'w, 'e) win_server \<Rightarrow> ('k, 'w, 'e) win_server res" where
  "HandleAcceptCallback_win ax ntop e io_size s =
     sbind (report_accepted ax ntop e io_size s) (\<lambda>s1.
     sbind (if acceptex_loaded s1 then Inr s1
            else case load_acceptex ax (accept_channel_fd s1) (win_world s1) of
                   (ok, w) \<Rightarrow> if ok then Inr (s1\<lparr>acceptex_loaded := True, win_world := w\<rparr>) else Inl (EXIT ''WSAIoctl'')) (\<lambda>s2.
     sbind (socket_accept_win ax (accept_channel_fd s2) (accept_ipv6 s2) (win_world s2)) (\<lambda>(f, w).
       Inr (s2\<lparr>cur_accept_fd := f, win_world := w\<rparr>))))"

definition Acceptor_new_win :: "fd \<Rightarrow> bool \<Rightarrow> ('k, 'w, 'e) win_server \<Rightarrow> ('k, 'w, 'e) win_server" where
  "Acceptor_new_win f v6 s =
     s\<lparr>ws_acceptor := True, accept_channel_fd := f, accept_ipv6 := v6, accept_buffer := replicate kMaxIocpRecvSize NUL, cur_accept_fd := 0,
       accept_status := SocketIocpStatus_new kPollIn\<rparr>"

definition Acceptor_Init_win :: "'w acceptex \<Rightarrow> (bool \<Rightarrow> string \<Rightarrow> string option) \<Rightarrow> byte_order \<Rightarrow> ('k, 'w, 'e) win_server \<Rightarrow> ('k, 'w, 'e) win_server res" where
  "Acceptor_Init_win ax ntop e s = HandleAcceptCallback_win ax ntop e 0 s"

text \<open>
  The completion of an \<open>AcceptEx\<close>: the kernel has put the first bytes of the client at the start of the buffer. The loop takes a reference from the status,
  which \<open>socket::accept\<close> has not given it.
\<close>

definition accept_done ::
  "'w acceptex \<Rightarrow> (bool \<Rightarrow> string \<Rightarrow> string option) \<Rightarrow> byte_order \<Rightarrow> string \<Rightarrow> ('k, 'w, 'e) win_server \<Rightarrow> ('k, 'w, 'e) win_server res" where
  "accept_done ax ntop e data s =
     (if \<not> ws_acceptor s then Inl (UB ''destroyed acceptor'')
      else
        HandleAcceptCallback_win ax ntop e (length data)
          (s\<lparr>accept_buffer := data @ drop (length data) (accept_buffer s), accept_status := UpdateRefCount False (accept_status s)\<rparr>))"

section \<open>New connections\<close>

definition make_connection :: "'e openssl \<Rightarrow> fd \<Rightarrow> addr \<Rightarrow> ('k, 'w, 'e) win_server \<Rightarrow> ('k, 'w, 'e) win_server" where
  "make_connection ssl f c s =
     (if ws_tls s then WinTls_new ssl f True c s else WinConnection_new f (ws_send_file s) c (s\<lparr>wtls_parts := (wtls_parts s)(c := None)\<rparr>))"

definition OnNewConnection_win ::
  "'w winsock \<Rightarrow> 'e openssl \<Rightarrow> ('k win_cb \<Rightarrow> addr \<Rightarrow> ('k, 'w, 'e) win_server \<Rightarrow> ('k, 'w, 'e) win_server res option) \<Rightarrow> accept_task \<Rightarrow>
     ('k, 'w, 'e) win_server \<Rightarrow> ('k, 'w, 'e) win_server res option" where
  "OnNewConnection_win ws ssl user t s =
     (if \<not> ws_running s then Some (Inr s)
      else
        let c = ws_next s; s1 = make_connection ssl (at_fd t) c (s\<lparr>ws_next := Suc c\<rparr>) in
        obind (Some (get_win c s1)) (\<lambda>cn.
        obind (win_virtual_Init ws ssl user c (ws_port s1) (take (at_size t) (accept_buffer s1))
                 (set_win c (cn\<lparr>wc_on_read := Some WinRead, wc_on_write := map_option WinUser (ws_on_write s1), wc_on_close := Some (WinClosed (at_fd t))\<rparr>)
                    (win_world s1) s1)) (\<lambda>s2.
          let s3 = (if map_of (ws_connections s2) (at_fd t) = None then s2\<lparr>ws_connections := ws_connections s2 @ [(at_fd t, c)]\<rparr> else s2) in
          (case ws_on_connection s3 of None \<Rightarrow> Some (Inr s3) | Some k \<Rightarrow> user (WinUser k) c s3))))"

fun run_accept_task ::
  "'w winsock \<Rightarrow> 'e openssl \<Rightarrow> ('k win_cb \<Rightarrow> addr \<Rightarrow> ('k, 'w, 'e) win_server \<Rightarrow> ('k, 'w, 'e) win_server res option) \<Rightarrow>
     ('k, 'w, 'e) win_server \<Rightarrow> ('k, 'w, 'e) win_server res option" where
  "run_accept_task ws ssl user s =
     (case accept_tasks s of [] \<Rightarrow> Some (Inr s) | t # ts \<Rightarrow> OnNewConnection_win ws ssl user t (s\<lparr>accept_tasks := ts\<rparr>))"

section \<open>Property\<close>

text \<open>A kernel whose calls succeed.\<close>

definition accept_works :: "'w acceptex \<Rightarrow> (bool \<Rightarrow> string \<Rightarrow> string option) \<Rightarrow> byte_order \<Rightarrow> bool \<Rightarrow> bool" where
  "accept_works ax ntop e v6 \<longleftrightarrow>
     (\<forall>w. \<exists>f w'. wsa_socket ax True v6 w = (Some f, w') \<and> f \<noteq> 0 \<and> f \<noteq> -1) \<and> (\<forall>f w. fst (set_reuse ax f w)) \<and> (\<forall>f w. fst (set_sndbuf ax f w)) \<and>
     (\<forall>f w. fst (load_acceptex ax f w)) \<and> (\<forall>f g n w. \<not> snd (fst (accept_ex ax f g n w))) \<and> (\<forall>f g w. fst (update_context ax f g w)) \<and>
     (\<forall>f w. \<exists>a w' addr. peer_name ax f w = (Some a, w') \<and> SocketAddr_of_sockaddr ntop e a v6 = Inr addr)"

lemma accept_worksD:
  assumes "accept_works ax ntop e v6"
  shows "\<exists>f w'. wsa_socket ax True v6 w = (Some f, w') \<and> f \<noteq> 0 \<and> f \<noteq> -1" and "\<exists>w'. set_reuse ax f w = (True, w')" and "\<exists>w'. set_sndbuf ax f w = (True, w')"
    and "\<exists>w'. load_acceptex ax f w = (True, w')" and "\<exists>r w'. accept_ex ax f g n w = ((r, False), w')" and "\<exists>w'. update_context ax f g w = (True, w')"
    and "\<exists>a w' addr. peer_name ax f w = (Some a, w') \<and> SocketAddr_of_sockaddr ntop e a v6 = Inr addr"
proof -
  note a = assms [unfolded accept_works_def]
  show "\<exists>f w'. wsa_socket ax True v6 w = (Some f, w') \<and> f \<noteq> 0 \<and> f \<noteq> -1"
    "\<exists>a w' addr. peer_name ax f w = (Some a, w') \<and> SocketAddr_of_sockaddr ntop e a v6 = Inr addr" using a by blast+
  have t: "\<exists>w'. p = (True, w')" if "fst p" for p :: "bool \<times> 'a" using that by (cases p) simp
  show "\<exists>w'. set_reuse ax f w = (True, w')" "\<exists>w'. set_sndbuf ax f w = (True, w')" "\<exists>w'. load_acceptex ax f w = (True, w')"
    "\<exists>w'. update_context ax f g w = (True, w')" using a by (blast intro: t)+
  have "\<not> snd (fst (accept_ex ax f g n w))" using a by blast
  then show "\<exists>r w'. accept_ex ax f g n w = ((r, False), w')" by (cases "accept_ex ax f g n w") auto
qed

lemma socket_accept_win_ok:
  assumes "accept_works ax ntop e v6"
  shows "\<exists>g w'. socket_accept_win ax f v6 w = Inr (g, w') \<and> g \<noteq> 0"
proof -
  obtain g w1 where g: "wsa_socket ax True v6 w = (Some g, w1)" "g \<noteq> 0" "g \<noteq> -1" using accept_worksD(1) [OF assms] by blast
  obtain w2 where w2: "set_reuse ax g w1 = (True, w2)" using accept_worksD(2) [OF assms] by blast
  obtain w3 where w3: "set_sndbuf ax g w2 = (True, w3)" using accept_worksD(3) [OF assms] by blast
  obtain r w4 where "accept_ex ax f g (kMaxIocpRecvSize - 2 * ((if v6 then 28 else 16) + 16)) w3 = ((r, False), w4)"
    using accept_worksD(5) [OF assms] by blast
  then show ?thesis using g w2 w3 by (simp add: socket_accept_win_def socket_socket_win_def)
qed

lemma accept_done_ok:
  assumes "accept_works ax ntop e (accept_ipv6 s)" and "cur_accept_fd s \<noteq> 0" and "ws_acceptor s"
  shows "\<exists>s' addr g ld w. accept_done ax ntop e data s = Inr s' \<and> g \<noteq> 0 \<and>
     s' = s\<lparr>accept_buffer := data @ drop (length data) (accept_buffer s), accept_status := UpdateRefCount False (accept_status s),
            accept_tasks := accept_tasks s @ [\<lparr>at_fd = cur_accept_fd s, at_addr = addr, at_size = length data\<rparr>],
            acceptex_loaded := ld, cur_accept_fd := g, win_world := w\<rparr>"
proof -
  let ?s = "s\<lparr>accept_buffer := data @ drop (length data) (accept_buffer s), accept_status := UpdateRefCount False (accept_status s)\<rparr>"
  obtain w1 where w1: "update_context ax (cur_accept_fd s) (accept_channel_fd s) (win_world s) = (True, w1)"
    using accept_worksD(6) [OF assms(1)] by blast
  obtain a w2 addr where a: "peer_name ax (cur_accept_fd s) w1 = (Some a, w2)" "SocketAddr_of_sockaddr ntop e a (accept_ipv6 s) = Inr addr"
    using accept_worksD(7) [OF assms(1)] by blast
  let ?s1 = "OnNewConnectionCallback_win (cur_accept_fd s) addr (length data) (?s\<lparr>win_world := w2\<rparr>)"
  have r: "report_accepted ax ntop e (length data) ?s = Inr ?s1"
    using assms(2) w1 a by (simp add: report_accepted_def getpeername_win_def)
  obtain w3 where w3: "load_acceptex ax (accept_channel_fd s) w2 = (True, w3)" using accept_worksD(4) [OF assms(1)] by blast
  define w4 where "w4 = (if acceptex_loaded s then w2 else w3)"
  obtain g w5 where g: "socket_accept_win ax (accept_channel_fd s) (accept_ipv6 s) w4 = Inr (g, w5)" "g \<noteq> 0" using socket_accept_win_ok [OF assms(1)] by blast
  have "accept_done ax ntop e data s = Inr (?s\<lparr>accept_tasks := accept_tasks s @ [\<lparr>at_fd = cur_accept_fd s, at_addr = addr, at_size = length data\<rparr>],
            acceptex_loaded := True, cur_accept_fd := g, win_world := w5\<rparr>)"
    using r w3 g(1) assms(3) by (cases "acceptex_loaded s") (simp_all add: accept_done_def HandleAcceptCallback_win_def OnNewConnectionCallback_win_def w4_def)
  then show ?thesis using g(2) by (intro exI [of _ g] exI) simp
qed

text \<open>
  Property C40. The first bytes of two clients are mixed up when the second is accepted before the task of the first has run:
  both are read into the acceptor's buffer, and the task takes its bytes from there, so that the
  connection of the first client gets the bytes of the second, for as many as the first client had sent.
\<close>

theorem accept_buffer_overwritten:
  assumes works: "accept_works ax ntop e (accept_ipv6 s)"
    and s: "cur_accept_fd s \<noteq> 0" "ws_acceptor s" "accept_tasks s = []" "ws_running s" "ws_on_connection s = None" "\<not> ws_tls s" "ws_port s"
    and d: "d1 \<noteq> []" "length d1 < 2 ^ 32" "length d1 \<le> length (accept_buffer s)"
    and user: "\<And>c s'. user WinRead c s' = Some (Inr s')" and ok: "\<And>f w. fst (win_associate ws f w)"
    and recv: "\<And>f n w. fst (wsa_recv ws f n w) = SOCKET_ERROR WSA_IO_PENDING"
  shows "\<exists>s1 s2 s3 cn. accept_done ax ntop e d1 s = Inr s1 \<and> accept_done ax ntop e d2 s1 = Inr s2 \<and> run_accept_task ws ssl user s2 = Some (Inr s3) \<and>
     win_conns s3 (ws_next s) = Some cn \<and> wc_fd cn = cur_accept_fd s \<and>
     content (wc_read_buffer cn) = take (length d1) (d2 @ drop (length d2) d1)"
proof -
  obtain s1 addr g ld w where s1: "accept_done ax ntop e d1 s = Inr s1" "g \<noteq> 0"
    "s1 = s\<lparr>accept_buffer := d1 @ drop (length d1) (accept_buffer s), accept_status := UpdateRefCount False (accept_status s), accept_tasks := [\<lparr>at_fd = cur_accept_fd s, at_addr = addr, at_size = length d1\<rparr>],
            acceptex_loaded := ld, cur_accept_fd := g, win_world := w\<rparr>"
    using accept_done_ok [OF works s(1,2), of d1] s(3) by auto
  have "accept_works ax ntop e (accept_ipv6 s1)" "cur_accept_fd s1 \<noteq> 0" "ws_acceptor s1" using works s1 s(2) by simp_all
  from accept_done_ok [OF this, of d2] obtain s2 addr2 g2 ld2 w2 where s2: "accept_done ax ntop e d2 s1 = Inr s2"
    "s2 = s1\<lparr>accept_buffer := d2 @ drop (length d2) (accept_buffer s1), accept_status := UpdateRefCount False (accept_status s1),
            accept_tasks := accept_tasks s1 @ [\<lparr>at_fd = g, at_addr = addr2, at_size = length d2\<rparr>],
            acceptex_loaded := ld2, cur_accept_fd := g2, win_world := w2\<rparr>" using s1(3) by auto
  let ?t = "take (length d1) (d2 @ drop (length d2) d1)"
  have ab: "take (length d1) (accept_buffer s2) = ?t" using s1(3) s2(2) by simp
  have ne: "?t \<noteq> []" using d(1) by (cases d2) auto
  have "length ?t = length d1" by simp
  then have "room Buffer_new (length ?t)" using d(2) by (simp add: room_def Buffer_new_def)
  from Buffer_Write_ok [OF buffer_ok_new this] obtain rb where rb: "Buffer_Write ?t Buffer_new = Inr rb" "buffer_ok rb" "content rb = ?t" by auto
  have nb: "\<not> Buffer_Empty rb" using Buffer_Empty_iff [OF rb(2)] rb(3) ne by simp
  obtain w3 where w3: "win_associate ws (cur_accept_fd s) w2 = (True, w3)" using ok by (metis prod.collapse)
  obtain w4 where w4: "wsa_recv ws (cur_accept_fd s) kMaxIocpRecvSize w3 = (SOCKET_ERROR WSA_IO_PENDING, w4)" using recv by (metis prod.collapse)
  have "\<exists>s3 cn. run_accept_task ws ssl user s2 = Some (Inr s3) \<and> win_conns s3 (ws_next s) = Some cn \<and> wc_fd cn = cur_accept_fd s \<and> wc_read_buffer cn = rb"
    using s(4-7) s1(3) s2(2) ab ne rb(1) nb w3 w4 user d(1)
    by (auto simp: OnNewConnection_win_def make_connection_def win_virtual_Init_def WinConnection_new_def Win_Init_def UpdateIocpPort_def PostRead_def socket_read_iocp_def win_call_def Let_def set_win_def)
  then show ?thesis using s1(1) s2(1) rb(3) by fastforce
qed

definition sample_acceptex :: "nat acceptex" where
  "sample_acceptex =
     \<lparr>wsa_socket = (\<lambda>tcp v6 w. (Some (int w + 4), Suc w)), set_reuse = (\<lambda>f w. (True, w)), set_sndbuf = (\<lambda>f w. (True, w)), load_acceptex = (\<lambda>f w. (True, w)),
      accept_ex = (\<lambda>f g n w. ((0, False), w)), update_context = (\<lambda>f g w. (True, w)),
      peer_name = (\<lambda>f w. (Some \<lparr>sa_ipv6 = False, sa_addr = Some ''abcd'', sa_port = 0\<rparr>, w)),
      ax_bind = (\<lambda>f a w. (True, w)), ax_listen = (\<lambda>f w. (True, w)), ax_close_port = (\<lambda>w. w)\<rparr>"

definition sample_winsock :: "nat winsock" where
  "sample_winsock =
     \<lparr>wsa_send = (\<lambda>f bs w. (SOCKET_ERROR WSA_IO_PENDING, w)), wsa_recv = (\<lambda>f n w. (SOCKET_ERROR WSA_IO_PENDING, w)),
      win_shutdown_send = (\<lambda>f w. w), win_shutdown_receive = (\<lambda>f w. w), win_closesocket = (\<lambda>f w. (True, w)), win_associate = (\<lambda>f w. (True, w))\<rparr>"

definition sample_win_server :: "(nat, nat, unit) win_server" where
  "sample_win_server =
     \<lparr>win_world = 9, win_conns = Map.empty, wtls_parts = Map.empty, accept_channel_fd = 3, accept_ipv6 = False, accept_buffer = replicate 1024 NUL, cur_accept_fd = 8,
      accept_status = SocketIocpStatus_new kPollIn, acceptex_loaded = True, accept_tasks = [],
      ws_addr = \<lparr>ip = ''0.0.0.0'', port = 80, sa = \<lparr>sa_ipv6 = False, sa_addr = Some ''abcd'', sa_port = 0\<rparr>, ipv6 = False\<rparr>, ws_loop_num = 4,
      ws_running = True, ws_send_file = False, ws_tls = False, ws_port = True, ws_channel = Some 3, ws_acceptor = True,
      ws_loop = Some \<lparr>il_port = True, il_running = True\<rparr>, ws_pool = Some (replicate 4 \<lparr>il_port = True, il_running = True\<rparr>),
      ws_on_read = None, ws_on_write = None, ws_on_connection = None, ws_read_tasks = [], ws_connections = [], ws_next = 1\<rparr>"

theorem accept_buffer_overwritten_witness:
  "\<forall>ssl. \<exists>s1 s2 s3 cn. accept_done sample_acceptex (\<lambda>v b. Some b) Little_Endian ''GET a'' sample_win_server = Inr s1 \<and>
     accept_done sample_acceptex (\<lambda>v b. Some b) Little_Endian ''GET b'' s1 = Inr s2 \<and>
     run_accept_task sample_winsock ssl (\<lambda>u c s. Some (Inr s)) s2 = Some (Inr s3) \<and> win_conns s3 1 = Some cn \<and> wc_fd cn = 8 \<and>
     content (wc_read_buffer cn) = ''GET b''"
proof -
  have "accept_works sample_acceptex (\<lambda>v b. Some b) Little_Endian (accept_ipv6 sample_win_server)"
    by (simp add: accept_works_def sample_acceptex_def SocketAddr_of_sockaddr_def)
  from accept_buffer_overwritten [OF this, of "''GET a''" "\<lambda>u c s. Some (Inr s)" sample_winsock "''GET b''"] show ?thesis
    by (simp add: sample_win_server_def sample_winsock_def)
qed

end
