(* ===== verification/Iocp_Server.thy ===== *)
theory Iocp_Server
  imports Iocp_Acceptor Loop_Threads "HOL-Library.Multiset"
begin

text \<open>
  The server of \<^verbatim>\<open>TcpServer.cpp\<close> as it is built on Windows, with the loops of \<^verbatim>\<open>EventLoop.cpp\<close> and \<^verbatim>\<open>EventLoopThreadPool.cpp\<close> on one completion
  port: how it is started, how it passes events to its workers, and how it is stopped.
\<close>

section \<open>Loops\<close>

definition EventLoop_new_win :: "bool \<Rightarrow> win_loop" where
  "EventLoop_new_win iocp_port = \<lparr>il_port = iocp_port, il_running = False\<rparr>"

text \<open>\<open>StartLoop\<close> until the loop waits; it returns at once when the loop runs already.\<close>

definition StartLoop_win :: "win_loop \<Rightarrow> win_loop" where
  "StartLoop_win l = (if il_running l then l else l\<lparr>il_running := True\<rparr>)"

definition ResetIocpPort :: "bool \<Rightarrow> win_loop \<Rightarrow> win_loop" where
  "ResetIocpPort iocp_port l = l\<lparr>il_port := iocp_port\<rparr>"

definition StopLoop_win :: "'w acceptex \<Rightarrow> win_loop \<Rightarrow> 'w \<Rightarrow> win_loop \<times> 'w" where
  "StopLoop_win ax l w = (l\<lparr>il_running := False, il_port := False\<rparr>, if il_port l then ax_close_port ax w else w)"

definition LoopPool_new_win :: "bool \<Rightarrow> nat \<Rightarrow> win_loop list" where
  "LoopPool_new_win iocp_port cap = replicate (max cap kMinEventLoopThreadNum) (EventLoop_new_win iocp_port)"

fun LoopPool_Stop_win :: "'w acceptex \<Rightarrow> win_loop list \<Rightarrow> 'w \<Rightarrow> win_loop list \<times> 'w" where
  "LoopPool_Stop_win ax [] w = ([], w)"
| "LoopPool_Stop_win ax (l # ls) w =
     (let (l', w1) = StopLoop_win ax (ResetIocpPort False l) w; (ls', w2) = LoopPool_Stop_win ax ls w1 in (l' # ls', w2))"

section \<open>The server\<close>

definition TcpServer_new_win :: "SocketAddr \<Rightarrow> bool \<Rightarrow> bool \<Rightarrow> nat \<Rightarrow> ('k, 'w, 'e) win_server \<Rightarrow> ('k, 'w, 'e) win_server" where
  "TcpServer_new_win addr send_file certs loop_num s =
     s\<lparr>ws_addr := addr, ws_send_file := send_file \<and> \<not> certs, ws_loop_num := loop_num, ws_running := True, ws_port := False, ws_tls := certs,
       ws_channel := None, ws_acceptor := False, ws_loop := None, ws_pool := None, ws_on_read := None, ws_on_write := None, ws_on_connection := None,
       accept_tasks := [], ws_read_tasks := [], ws_connections := []\<rparr>"

text \<open>\<open>Start\<close> until its own loop waits. The loops of the pool are started by the pool's threads.\<close>

definition TcpServer_Start_win ::
  "'w winsock \<Rightarrow> 'w acceptex \<Rightarrow> (bool \<Rightarrow> string \<Rightarrow> string option) \<Rightarrow> byte_order \<Rightarrow> ('k, 'w, 'e) win_server \<Rightarrow> ('k, 'w, 'e) win_server res" where
  "TcpServer_Start_win ws ax ntop e s =
     sbind (socket_socket_win ax True (ipv6 (ws_addr s)) (win_world s)) (\<lambda>(f, w1).
       case ax_bind ax f (sa (ws_addr s)) w1 of (ok1, w2) \<Rightarrow>
       if \<not> ok1 then Inl (EXIT ''bind'')
       else
         case ax_listen ax f w2 of (ok2, w3) \<Rightarrow>
         if \<not> ok2 then Inl (EXIT ''listen'')
         else
           sbind (UpdateIocpPort ws f w3) (\<lambda>w4.
             let s1 = Acceptor_new_win f (ipv6 (ws_addr s))
                        (s\<lparr>win_world := w4, ws_channel := Some f, ws_port := True, ws_loop := Some (EventLoop_new_win True)\<rparr>);
                 s2 = s1\<lparr>ws_pool := Some (LoopPool_new_win True (ws_loop_num s))\<rparr> in
             sbind (Acceptor_Init_win ax ntop e s2) (\<lambda>s3. Inr (s3\<lparr>ws_loop := map_option StartLoop_win (ws_loop s3)\<rparr>))))"

definition pool_thread_starts :: "nat \<Rightarrow> ('k, 'w, 'e) win_server \<Rightarrow> ('k, 'w, 'e) win_server" where
  "pool_thread_starts i s = s\<lparr>ws_pool := map_option (\<lambda>ls. if i < length ls then ls[i := StartLoop_win (ls ! i)] else ls) (ws_pool s)\<rparr>"

text \<open>
  A connection is destroyed with the last pointer to it; pointers are in the table, in tasks, and wherever the application keeps them, as \<open>held\<close> says.
\<close>

definition release_win :: "'w winsock \<Rightarrow> (addr \<Rightarrow> bool) \<Rightarrow> addr \<Rightarrow> ('k, 'w, 'e) win_server \<Rightarrow> ('k, 'w, 'e) win_server res" where
  "release_win ws held c s =
     (if held c \<or> c \<in> set (ws_read_tasks s) \<or> c \<in> snd ` set (ws_connections s) then Inr s else win_virtual_destroy ws c s)"

definition OnReadCallback_win :: "addr \<Rightarrow> ('k, 'w, 'e) win_server \<Rightarrow> ('k, 'w, 'e) win_server" where
  "OnReadCallback_win c s = (case ws_on_read s of None \<Rightarrow> s | Some _ \<Rightarrow> s\<lparr>ws_read_tasks := ws_read_tasks s @ [c]\<rparr>)"

definition OnCloseConnectionCallback_win :: "'w winsock \<Rightarrow> (addr \<Rightarrow> bool) \<Rightarrow> fd \<Rightarrow> ('k, 'w, 'e) win_server \<Rightarrow> ('k, 'w, 'e) win_server res" where
  "OnCloseConnectionCallback_win ws held f s =
     (case map_of (ws_connections s) f of
        None \<Rightarrow> Inr s
      | Some c \<Rightarrow> release_win ws held c (s\<lparr>ws_connections := filter (\<lambda>p. fst p \<noteq> f) (ws_connections s)\<rparr>))"

type_synonym ('k, 'w, 'e) wsrv_app = "'k \<Rightarrow> addr \<Rightarrow> ('k, 'w, 'e) win_server \<Rightarrow> ('k, 'w, 'e) win_server res option"

definition win_serve ::
  "'w winsock \<Rightarrow> (addr \<Rightarrow> bool) \<Rightarrow> ('k, 'w, 'e) wsrv_app \<Rightarrow> 'k win_cb \<Rightarrow> addr \<Rightarrow> ('k, 'w, 'e) win_server \<Rightarrow> ('k, 'w, 'e) win_server res option" where
  "win_serve ws held app u c s =
     (case u of
        WinRead \<Rightarrow> Some (Inr (OnReadCallback_win c s))
      | WinClosed f \<Rightarrow> Some (OnCloseConnectionCallback_win ws held f s)
      | WinUser k \<Rightarrow> app k c s)"

text \<open>A worker takes a task: the application's callback runs, then the task's pointer is given up.\<close>

definition run_read_task ::
  "'w winsock \<Rightarrow> (addr \<Rightarrow> bool) \<Rightarrow> ('k, 'w, 'e) wsrv_app \<Rightarrow> ('k, 'w, 'e) win_server \<Rightarrow> ('k, 'w, 'e) win_server res option" where
  "run_read_task ws held app s =
     (case ws_read_tasks s of
        [] \<Rightarrow> Some (Inr s)
      | c # _ \<Rightarrow>
         obind (case ws_on_read s of None \<Rightarrow> Some (Inr s) | Some k \<Rightarrow> app k c s) (\<lambda>s1.
           Some (release_win ws held c (s1\<lparr>ws_read_tasks := tl (ws_read_tasks s1)\<rparr>))))"

section \<open>Stopping\<close>

definition stop_accepting_win :: "'w winsock \<Rightarrow> ('k, 'w, 'e) win_server \<Rightarrow> ('k, 'w, 'e) win_server res" where
  "stop_accepting_win ws s =
     (let s1 = s\<lparr>ws_running := False, ws_acceptor := False\<rparr> in
      case ws_channel s of
        None \<Rightarrow> Inr s1
      | Some f \<Rightarrow>
         (case win_closesocket ws f (win_world s) of
            (ok, w) \<Rightarrow> if ok then Inr (s1\<lparr>ws_channel := None, win_world := w\<rparr>) else Inl (EXIT ''close'')))"

definition stop_loop_win :: "'w acceptex \<Rightarrow> ('k, 'w, 'e) win_server \<Rightarrow> ('k, 'w, 'e) win_server" where
  "stop_loop_win ax s =
     (case ws_loop s of
        None \<Rightarrow> s
      | Some l \<Rightarrow> s\<lparr>ws_loop := None, win_world := snd (StopLoop_win ax l (win_world s))\<rparr>)"

fun close_all_win :: "'w winsock \<Rightarrow> (fd \<times> addr) list \<Rightarrow> ('k, 'w, 'e) win_server \<Rightarrow> ('k, 'w, 'e) win_server res" where
  "close_all_win ws [] s = Inr s"
| "close_all_win ws ((_, c) # cs) s =
     sbind (get_win c s) (\<lambda>cn.
       close_all_win ws cs
         (set_win c (cn\<lparr>wc_on_close := None\<rparr>) (win_shutdown_send ws (wc_fd cn) (win_shutdown_receive ws (wc_fd cn) (win_world s))) s))"

fun release_all_win :: "'w winsock \<Rightarrow> (addr \<Rightarrow> bool) \<Rightarrow> (fd \<times> addr) list \<Rightarrow> ('k, 'w, 'e) win_server \<Rightarrow> ('k, 'w, 'e) win_server res" where
  "release_all_win ws held [] s = Inr s"
| "release_all_win ws held ((_, c) # cs) s = sbind (release_win ws held c s) (release_all_win ws held cs)"

text \<open>The table is a map, so that its connections are closed in the order of their descriptors.\<close>

definition TcpServer_Stop_win :: "'w winsock \<Rightarrow> 'w acceptex \<Rightarrow> (addr \<Rightarrow> bool) \<Rightarrow> ('k, 'w, 'e) win_server \<Rightarrow> ('k, 'w, 'e) win_server res" where
  "TcpServer_Stop_win ws ax held s =
     sbind (stop_accepting_win ws s) (\<lambda>s1.
       let s2 = stop_loop_win ax s1 in
       case ws_pool s2 of
         None \<Rightarrow> Inl (UB ''null loop pool'')
       | Some ls \<Rightarrow>
          let (ls', w) = LoopPool_Stop_win ax ls (win_world s2); cs = sort_key fst (ws_connections s2) in
          sbind (close_all_win ws cs (s2\<lparr>ws_pool := Some ls', win_world := w\<rparr>)) (\<lambda>s3.
            release_all_win ws held cs (s3\<lparr>ws_connections := []\<rparr>)))"

definition TcpServer_destroy_win :: "'w winsock \<Rightarrow> 'w acceptex \<Rightarrow> (addr \<Rightarrow> bool) \<Rightarrow> ('k, 'w, 'e) win_server \<Rightarrow> ('k, 'w, 'e) win_server res" where
  "TcpServer_destroy_win ws ax held s = sbind (TcpServer_Stop_win ws ax held s) (\<lambda>s'. Inr (s'\<lparr>ws_tls := False\<rparr>))"

section \<open>What stopping closes\<close>

text \<open>A connection is kept by the application or by a task that waits to read it.\<close>

definition still_kept :: "(addr \<Rightarrow> bool) \<Rightarrow> ('k, 'w, 'e) win_server \<Rightarrow> addr \<Rightarrow> bool" where
  "still_kept held s c \<longleftrightarrow> held c \<or> c \<in> set (ws_read_tasks s)"

text \<open>\<open>closed\<close> gives the sockets that have been closed, in order, and \<open>ports\<close> how often a handle of a port has been closed.\<close>

definition win_closes :: "'w winsock \<Rightarrow> 'w acceptex \<Rightarrow> ('w \<Rightarrow> fd list) \<Rightarrow> ('w \<Rightarrow> nat) \<Rightarrow> bool" where
  "win_closes ws ax closed ports \<longleftrightarrow>
     (\<forall>f w. \<exists>w'. win_closesocket ws f w = (True, w') \<and> closed w' = closed w @ [f] \<and> ports w' = ports w) \<and>
     (\<forall>w. closed (ax_close_port ax w) = closed w \<and> ports (ax_close_port ax w) = Suc (ports w)) \<and>
     (\<forall>f w. closed (win_shutdown_send ws f w) = closed w \<and> ports (win_shutdown_send ws f w) = ports w) \<and>
     (\<forall>f w. closed (win_shutdown_receive ws f w) = closed w \<and> ports (win_shutdown_receive ws f w) = ports w)"

lemma LoopPool_Stop_win_eq: "LoopPool_Stop_win ax ls w = (map (\<lambda>l. l\<lparr>il_running := False, il_port := False\<rparr>) ls, w)"
  by (induction ls) (simp_all add: StopLoop_win_def ResetIocpPort_def)

lemma close_all_win_ok:
  assumes "win_closes ws ax closed ports"
  shows "(\<forall>(g, c) \<in> set cs. \<exists>cn. win_conns s c = Some cn) \<Longrightarrow>
     \<exists>m w. close_all_win ws cs s = Inr (s\<lparr>win_conns := m, win_world := w\<rparr>) \<and> closed w = closed (win_world s) \<and> ports w = ports (win_world s) \<and>
       (\<forall>c. map_option wc_fd (m c) = map_option wc_fd (win_conns s c))"
proof (induction cs arbitrary: s)
  case Nil
  then show ?case by (intro exI [of _ "win_conns s"] exI [of _ "win_world s"]) simp
next
  case (Cons p cs)
  obtain g c where p: "p = (g, c)" by force
  obtain cn where cn: "win_conns s c = Some cn" using Cons.prems p by auto
  let ?w = "win_shutdown_send ws (wc_fd cn) (win_shutdown_receive ws (wc_fd cn) (win_world s))"
  let ?s = "set_win c (cn\<lparr>wc_on_close := None\<rparr>) ?w s"
  have "\<forall>(g, c) \<in> set cs. \<exists>cn. win_conns ?s c = Some cn" using Cons.prems by auto
  from Cons.IH [OF this] obtain m w where "close_all_win ws cs ?s = Inr (?s\<lparr>win_conns := m, win_world := w\<rparr>)" "closed w = closed ?w" "ports w = ports ?w"
    "\<forall>d. map_option wc_fd (m d) = map_option wc_fd (win_conns ?s d)" by auto
  moreover have "closed ?w = closed (win_world s)" "ports ?w = ports (win_world s)" using assms by (simp_all add: win_closes_def)
  ultimately show ?case using cn p by (intro exI [of _ m] exI [of _ w]) (auto simp: set_win_def)
qed

lemma virtual_destroy_ok:
  assumes "win_closes ws ax closed ports" and "win_conns s c = Some cn"
  shows "\<exists>q w. win_virtual_destroy ws c s = Inr (s\<lparr>win_conns := (win_conns s)(c := None), wtls_parts := q, win_world := w\<rparr>) \<and>
     closed w = closed (win_world s) @ [wc_fd cn] \<and> ports w = ports (win_world s)"
proof -
  obtain w where w: "win_closesocket ws (wc_fd cn) (win_world s) = (True, w)" "closed w = closed (win_world s) @ [wc_fd cn]" "ports w = ports (win_world s)"
    using assms(1) unfolding win_closes_def by blast
  show ?thesis
  proof (cases "wtls_parts s c")
    case None
    then show ?thesis
      using w assms(2) by (intro exI [of _ "wtls_parts s"] exI [of _ w]) (simp add: win_virtual_destroy_def WinConnection_destroy_def get_win_def)
  next
    case (Some p)
    then show ?thesis
      using w assms(2)
      by (intro exI [of _ "(wtls_parts s)(c := None)"] exI [of _ w])
        (simp add: win_virtual_destroy_def WinTls_destroy_def WinConnection_destroy_def get_win_def get_wtls_def)
  qed
qed

lemma release_all_win_ok:
  assumes "win_closes ws ax closed ports"
  shows "ws_connections s = [] \<Longrightarrow> distinct (map snd cs) \<Longrightarrow> (\<forall>(g, c) \<in> set cs. map_option wc_fd (win_conns s c) = Some g) \<Longrightarrow>
     \<exists>m q w. release_all_win ws held cs s = Inr (s\<lparr>win_conns := m, wtls_parts := q, win_world := w\<rparr>) \<and>
       closed w = closed (win_world s) @ map fst (filter (\<lambda>(g, c). \<not> still_kept held s c) cs) \<and> ports w = ports (win_world s) \<and>
       (\<forall>c. m c = (if c \<in> snd ` set cs \<and> \<not> still_kept held s c then None else win_conns s c))"
proof (induction cs arbitrary: s)
  case Nil
  then show ?case by (intro exI [of _ "win_conns s"] exI [of _ "wtls_parts s"] exI [of _ "win_world s"]) simp
next
  case (Cons p cs)
  obtain g c where p: "p = (g, c)" by force
  show ?case
  proof (cases "still_kept held s c")
    case True
    then have r: "release_win ws held c s = Inr s" by (auto simp: release_win_def still_kept_def)
    obtain m q w where i: "release_all_win ws held cs s = Inr (s\<lparr>win_conns := m, wtls_parts := q, win_world := w\<rparr>)"
      "closed w = closed (win_world s) @ map fst (filter (\<lambda>(g, c). \<not> still_kept held s c) cs)" "ports w = ports (win_world s)"
      "\<forall>d. m d = (if d \<in> snd ` set cs \<and> \<not> still_kept held s d then None else win_conns s d)"
      using Cons.IH [of s] Cons.prems p by auto
    have "\<forall>d. m d = (if d \<in> snd ` set (p # cs) \<and> \<not> still_kept held s d then None else win_conns s d)" using i(4) p True by auto
    moreover have "release_all_win ws held (p # cs) s = Inr (s\<lparr>win_conns := m, wtls_parts := q, win_world := w\<rparr>)" using p r i(1) by simp
    ultimately show ?thesis using i(2,3) p True by (intro exI conjI) (assumption, simp_all)
  next
    case False
    obtain cn where cn: "win_conns s c = Some cn" "wc_fd cn = g" using Cons.prems(3) p by auto
    obtain q w where d: "win_virtual_destroy ws c s = Inr (s\<lparr>win_conns := (win_conns s)(c := None), wtls_parts := q, win_world := w\<rparr>)"
      "closed w = closed (win_world s) @ [g]" "ports w = ports (win_world s)"
      using virtual_destroy_ok [OF assms cn(1)] cn(2) by auto
    let ?s = "s\<lparr>win_conns := (win_conns s)(c := None), wtls_parts := q, win_world := w\<rparr>"
    have k: "still_kept held ?s = still_kept held s" by (simp add: fun_eq_iff still_kept_def)
    have r: "release_win ws held c s = Inr ?s" using Cons.prems(1) False d(1) by (simp add: release_win_def still_kept_def)
    have "\<forall>(g, c) \<in> set cs. map_option wc_fd (win_conns ?s c) = Some g" using Cons.prems(2,3) p by force
    with Cons.IH [of ?s] Cons.prems obtain m q' w' where i: "release_all_win ws held cs ?s = Inr (?s\<lparr>win_conns := m, wtls_parts := q', win_world := w'\<rparr>)"
      "closed w' = closed w @ map fst (filter (\<lambda>(g, c). \<not> still_kept held s c) cs)" "ports w' = ports w"
      "\<And>d. m d = (if d \<in> snd ` set cs \<and> \<not> still_kept held s d then None else win_conns ?s d)" unfolding k by auto
    have "release_all_win ws held (p # cs) s = Inr (s\<lparr>win_conns := m, wtls_parts := q', win_world := w'\<rparr>)" using p r i(1) by simp
    moreover have "\<forall>d. m d = (if d \<in> snd ` set (p # cs) \<and> \<not> still_kept held s d then None else win_conns s d)" using i(4) p False by simp
    ultimately show ?thesis using p d(2,3) i(2,3) False by (intro exI conjI) (assumption, simp_all)
  qed
qed

lemma map_fst_sort_key: "map fst (sort_key fst xs) = sort (map fst xs)" for xs :: "('a :: linorder \<times> 'b) list"
  by (rule properties_for_sort [symmetric]) simp_all

section \<open>Property\<close>

text \<open>
  Property C37. Stopping a server on Windows closes the listening socket, and destroys the connections that nothing else keeps, closing their sockets in order,
  whether or not a read of them is under way; a connection that the application or a waiting task keeps lives on with its socket open. The one port that all loops
  share is closed once, and no loop of the pool runs or has a port afterwards. The socket that waits for the next client is not closed.
\<close>

theorem win_Stop_closes:
  assumes k: "win_closes ws ax closed ports"
    and s: "ws_channel s = Some f" "ws_loop s = Some l" "il_port l" "ws_pool s = Some ls"
    and c: "distinct (map snd (ws_connections s))" "\<And>g c. (g, c) \<in> set (ws_connections s) \<Longrightarrow> map_option wc_fd (win_conns s c) = Some g"
  shows "\<exists>s'. TcpServer_Stop_win ws ax held s = Inr s' \<and> \<not> ws_running s' \<and> \<not> ws_acceptor s' \<and> ws_connections s' = [] \<and>
     closed (win_world s') = closed (win_world s) @ f # sort (map fst (filter (\<lambda>(g, c). \<not> still_kept held s c) (ws_connections s))) \<and> ports (win_world s') = Suc (ports (win_world s)) \<and>
     (\<forall>c. win_conns s' c = None \<longleftrightarrow> win_conns s c = None \<or> c \<in> snd ` set (ws_connections s) \<and> \<not> still_kept held s c) \<and>
     ws_loop s' = None \<and> ws_pool s' = Some (map (\<lambda>l. l\<lparr>il_running := False, il_port := False\<rparr>) ls)"
proof -
  let ?cs = "sort_key fst (ws_connections s)" and ?ls = "map (\<lambda>l. l\<lparr>il_running := False, il_port := False\<rparr>) ls"
  have set_cs: "set ?cs = set (ws_connections s)" by simp
  have dist: "distinct (map snd ?cs)" using c(1) by (metis mset_eq_imp_distinct_iff mset_map mset_sort)
  obtain w1 where w1: "win_closesocket ws f (win_world s) = (True, w1)" "closed w1 = closed (win_world s) @ [f]" "ports w1 = ports (win_world s)"
    using k unfolding win_closes_def by blast
  define w2 where "w2 = ax_close_port ax w1"
  have w2: "closed w2 = closed w1" "ports w2 = Suc (ports w1)" using k by (simp_all add: win_closes_def w2_def)
  define s2 where "s2 = s\<lparr>ws_running := False, ws_acceptor := False, ws_channel := None, ws_loop := None, ws_pool := Some ?ls, win_world := w2\<rparr>"
  have "\<forall>(g, c) \<in> set ?cs. \<exists>cn. win_conns s2 c = Some cn" using c(2) by (fastforce simp: s2_def)
  from close_all_win_ok [OF k this] obtain m w where s3: "close_all_win ws ?cs s2 = Inr (s2\<lparr>win_conns := m, win_world := w\<rparr>)" "closed w = closed w2" "ports w = ports w2"
    "\<And>c. map_option wc_fd (m c) = map_option wc_fd (win_conns s c)" by (auto simp: s2_def)
  let ?s3 = "s2\<lparr>win_conns := m, win_world := w, ws_connections := []\<rparr>"
  have "ws_connections ?s3 = []" "\<forall>(g, c) \<in> set ?cs. map_option wc_fd (win_conns ?s3 c) = Some g"
    using c(2) s3(4) by (auto simp: s2_def)
  moreover have kp: "still_kept held ?s3 = still_kept held s" by (simp add: fun_eq_iff still_kept_def s2_def)
  ultimately obtain m' q w' where
    r: "release_all_win ws held ?cs ?s3 = Inr (?s3\<lparr>win_conns := m', wtls_parts := q, win_world := w'\<rparr>)"
      "closed w' = closed w @ map fst (filter (\<lambda>(g, c). \<not> still_kept held s c) ?cs)" "ports w' = ports w"
      "\<And>c. m' c = (if c \<in> snd ` set ?cs \<and> \<not> still_kept held s c then None else m c)"
    using release_all_win_ok [OF k _ dist, of ?s3 held] unfolding kp by auto
  have e: "TcpServer_Stop_win ws ax held s = Inr (?s3\<lparr>win_conns := m', wtls_parts := q, win_world := w'\<rparr>)"
    using s w1(1) s3(1) r(1)
    by (simp add: TcpServer_Stop_win_def stop_accepting_win_def stop_loop_win_def StopLoop_win_def LoopPool_Stop_win_eq s2_def w2_def Let_def)
  have "m d = None \<longleftrightarrow> win_conns s d = None" for d using s3(4) [of d] by (metis option.map_disc_iff)
  then have "m' d = None \<longleftrightarrow> win_conns s d = None \<or> d \<in> snd ` set (ws_connections s) \<and> \<not> still_kept held s d" for d using r(4) [of d] by auto
  then show ?thesis
    using e w1 w2 s3(2,3) r(2,3) by (simp add: s2_def filter_sort map_fst_sort_key)
qed

text \<open>A system that records what is closed, and a server with one connection whose read is under way.\<close>

definition closing_winsock :: "(fd list \<times> nat) winsock" where
  "closing_winsock =
     \<lparr>wsa_send = (\<lambda>f bs w. (SOCKET_ERROR WSA_IO_PENDING, w)), wsa_recv = (\<lambda>f n w. (SOCKET_ERROR WSA_IO_PENDING, w)),
      win_shutdown_send = (\<lambda>f w. w), win_shutdown_receive = (\<lambda>f w. w), win_closesocket = (\<lambda>f (fs, n). (True, (fs @ [f], n))), win_associate = (\<lambda>f w. (True, w))\<rparr>"

definition closing_acceptex :: "(fd list \<times> nat) acceptex" where
  "closing_acceptex =
     \<lparr>wsa_socket = (\<lambda>tcp v6 (fs, n). (Some (int (length fs) + 9), (fs, n))), set_reuse = (\<lambda>f w. (True, w)), set_sndbuf = (\<lambda>f w. (True, w)),
      load_acceptex = (\<lambda>f w. (True, w)), accept_ex = (\<lambda>f g n w. ((0, False), w)), update_context = (\<lambda>f g w. (True, w)),
      peer_name = (\<lambda>f w. (Some \<lparr>sa_ipv6 = False, sa_addr = Some ''abcd'', sa_port = 0\<rparr>, w)),
      ax_bind = (\<lambda>f a w. (True, w)), ax_listen = (\<lambda>f w. (True, w)), ax_close_port = (\<lambda>(fs, n). (fs, Suc n))\<rparr>"

definition stopping_server :: "(nat, fd list \<times> nat, unit) win_server" where
  "stopping_server =
     \<lparr>win_world = ([], 0), win_conns = Map.empty, wtls_parts = Map.empty, accept_channel_fd = 3, accept_ipv6 = False, accept_buffer = replicate 1024 NUL, cur_accept_fd = 9,
      accept_status = SocketIocpStatus_new kPollIn, acceptex_loaded = True, accept_tasks = [],
      ws_addr = \<lparr>ip = ''0.0.0.0'', port = 80, sa = \<lparr>sa_ipv6 = False, sa_addr = Some ''abcd'', sa_port = 0\<rparr>, ipv6 = False\<rparr>, ws_loop_num = 4,
      ws_running = True, ws_send_file = False, ws_tls = False, ws_port = True, ws_channel = Some 3, ws_acceptor = True,
      ws_loop = Some \<lparr>il_port = True, il_running = True\<rparr>, ws_pool = Some (replicate 4 \<lparr>il_port = True, il_running = True\<rparr>),
      ws_on_read = None, ws_on_write = None, ws_on_connection = None, ws_read_tasks = [], ws_connections = [(8, 1)], ws_next = 2\<rparr>"

definition stopping_conn :: "nat win_cb win_connection" where
  "stopping_conn =
     \<lparr>wc_fd = 8, wc_bound = True, wc_on_read = Some WinRead, wc_on_write = None, wc_on_close = Some (WinClosed 8), read_wsa_buf = [], write_wsa_buf = [],
      read_status = \<lparr>iocp_status = kPollIn, ref_count = 1\<rparr>, write_status = \<lparr>iocp_status = kPollOut, ref_count = 0\<rparr>, write_pending = False,
      wc_read_buffer = Buffer_new, wc_write_buffer = Buffer_new, wc_shut_down = False, wc_send_file = False\<rparr>"

theorem win_Stop_closes_witness:
  "ref_count (read_status stopping_conn) = 1 \<and>
   (\<exists>s'. TcpServer_Stop_win closing_winsock closing_acceptex (\<lambda>_. False) (stopping_server\<lparr>win_conns := [1 \<mapsto> stopping_conn]\<rparr>) = Inr s' \<and> \<not> ws_running s' \<and>
     win_world s' = ([3, 8], 1) \<and> win_conns s' 1 = None) \<and>
   (\<exists>s'. TcpServer_Stop_win closing_winsock closing_acceptex (\<lambda>_. True) (stopping_server\<lparr>win_conns := [1 \<mapsto> stopping_conn]\<rparr>) = Inr s' \<and> \<not> ws_running s' \<and>
     win_world s' = ([3], 1) \<and> win_conns s' 1 \<noteq> None)"
proof -
  let ?s = "stopping_server\<lparr>win_conns := [1 \<mapsto> stopping_conn]\<rparr>"
  have k: "win_closes closing_winsock closing_acceptex fst snd" by (auto simp: win_closes_def closing_winsock_def closing_acceptex_def split: prod.split)
  have s: "ws_channel ?s = Some 3" "ws_loop ?s = Some \<lparr>il_port = True, il_running = True\<rparr>" "il_port \<lparr>il_port = True, il_running = True\<rparr>"
    "ws_pool ?s = Some (replicate 4 \<lparr>il_port = True, il_running = True\<rparr>)" "distinct (map snd (ws_connections ?s))"
    "\<And>g c. (g, c) \<in> set (ws_connections ?s) \<Longrightarrow> map_option wc_fd (win_conns ?s c) = Some g"
    by (simp_all add: stopping_server_def stopping_conn_def split: if_splits)
  have e: "win_world ?s = ([], 0)" "ws_connections ?s = [(8, 1)]" "ws_read_tasks ?s = []" "win_conns ?s 1 \<noteq> None" by (simp_all add: stopping_server_def)
  have a: "\<exists>s'. TcpServer_Stop_win closing_winsock closing_acceptex held ?s = Inr s' \<and> \<not> ws_running s' \<and>
      win_world s' = (if held 1 then [3] else [3, 8], 1) \<and> (win_conns s' 1 = None \<longleftrightarrow> \<not> held 1)" for held
    using win_Stop_closes [OF k s, of held] e by (fastforce simp: still_kept_def prod_eq_iff)
  show ?thesis using a [of "\<lambda>_. False"] a [of "\<lambda>_. True"] by (simp add: stopping_conn_def)
qed

text \<open>A server that is started listens: a socket waits for the first client, the loop of the server runs, and the pool has at least four loops on the same port.\<close>

theorem win_Start_listens:
  assumes "accept_works ax ntop e (ipv6 (ws_addr s))" and "\<And>f a w. fst (ax_bind ax f a w)" and "\<And>f w. fst (ax_listen ax f w)" and "\<And>f w. fst (win_associate ws f w)"
  shows "\<exists>s' f. TcpServer_Start_win ws ax ntop e s = Inr s' \<and> ws_channel s' = Some f \<and> accept_channel_fd s' = f \<and> ws_acceptor s' \<and> cur_accept_fd s' \<noteq> 0 \<and>
     ws_loop s' = Some \<lparr>il_port = True, il_running = True\<rparr> \<and> ws_pool s' = Some (replicate (max (ws_loop_num s) 4) \<lparr>il_port = True, il_running = False\<rparr>) \<and>
     accept_tasks s' = accept_tasks s \<and> ws_connections s' = ws_connections s"
proof -
  let ?v6 = "ipv6 (ws_addr s)"
  obtain f w1 where f: "socket_socket_win ax True ?v6 (win_world s) = Inr (f, w1)"
  proof -
    obtain f w1 where "wsa_socket ax True ?v6 (win_world s) = (Some f, w1)" using accept_worksD(1) [OF assms(1)] by blast
    moreover obtain w2 where "set_reuse ax f w1 = (True, w2)" using accept_worksD(2) [OF assms(1)] by blast
    moreover obtain w3 where "set_sndbuf ax f w2 = (True, w3)" using accept_worksD(3) [OF assms(1)] by blast
    ultimately show thesis using that by (simp add: socket_socket_win_def)
  qed
  obtain w2 where w2: "ax_bind ax f (sa (ws_addr s)) w1 = (True, w2)" using assms(2) [of f "sa (ws_addr s)" w1] by (cases "ax_bind ax f (sa (ws_addr s)) w1") simp
  obtain w3 where w3: "ax_listen ax f w2 = (True, w3)" using assms(3) [of f w2] by (cases "ax_listen ax f w2") simp
  obtain w4 where w4: "win_associate ws f w3 = (True, w4)" using assms(4) [of f w3] by (cases "win_associate ws f w3") simp
  obtain w5 where w5: "load_acceptex ax f w4 = (True, w5)" using accept_worksD(4) [OF assms(1)] by blast
  obtain g w6 where g: "socket_accept_win ax f ?v6 (if acceptex_loaded s then w4 else w5) = Inr (g, w6)" "g \<noteq> 0" using socket_accept_win_ok [OF assms(1)] by blast
  show ?thesis
    using f w2 w3 w4 w5 g
    by (cases "acceptex_loaded s")
      (simp_all add: TcpServer_Start_win_def UpdateIocpPort_def Acceptor_new_win_def Acceptor_Init_win_def HandleAcceptCallback_win_def report_accepted_def
        EventLoop_new_win_def StartLoop_win_def LoopPool_new_win_def kMinEventLoopThreadNum_def Let_def)
qed

end
