(* ===== verification/Iocp_Client.thy ===== *)
theory Iocp_Client
  imports Iocp_Acceptor Tcp_Client
begin

text \<open>
  Clients as they are built on Windows: the timer of \<^verbatim>\<open>Timer.cpp\<close>, which belongs to a timer queue, the connector of
  \<^verbatim>\<open>Connector.cpp\<close>, which connects with \<open>ConnectEx\<close>, and \<^verbatim>\<open>TcpClient.cpp\<close>. The timer's callback runs in a thread of the system.
\<close>

section \<open>State\<close>

datatype 'k wcli_cb = WcUser 'k | WcClosed fd

text \<open>The handle of the queue's timer is null until the first interval is set. The callback is the connector's \<open>Start\<close>.\<close>

record win_timer =
  wt_timer :: "nat option"
  wt_callback :: bool
  wt_interval :: u64

record win_connector =
  wk_fd :: fd
  wk_retry :: int
  wk_max_retry :: int
  wk_timeout :: u16
  wk_status :: SocketIocpStatus
  wk_timer :: win_timer
  wk_on_connected :: bool
  wk_on_failure :: bool
  wk_addr :: SocketAddr

record ('k, 'w, 'e) win_client = "('k wcli_cb, 'w, 'e) win_tls" +
  wl_max_retry :: int
  wl_status :: TcpConnectionStatus
  wl_target :: SocketAddr
  wl_conn :: "addr option"
  wl_connector :: "win_connector option"
  wl_timeout :: u16
  wl_tls :: bool
  wl_on_read :: "'k option"
  wl_on_connection :: "'k option"
  wl_next :: addr

text \<open>The flag of \<open>connect_ex\<close> says whether the last error is not \<open>ERROR_IO_PENDING\<close>.\<close>

record 'w connectex =
  create_queue :: "'w \<Rightarrow> bool \<times> 'w"
  create_timer :: "u32 \<Rightarrow> u32 \<Rightarrow> 'w \<Rightarrow> nat option \<times> 'w"
  change_timer :: "nat \<Rightarrow> u32 \<Rightarrow> u32 \<Rightarrow> 'w \<Rightarrow> bool \<times> 'w"
  close_timer :: "nat option \<Rightarrow> 'w \<Rightarrow> 'w"
  load_connectex :: "fd \<Rightarrow> 'w \<Rightarrow> bool \<times> 'w"
  connect_ex :: "fd \<Rightarrow> sockaddr \<Rightarrow> 'w \<Rightarrow> (int \<times> bool) \<times> 'w"
  update_connect_context :: "fd \<Rightarrow> 'w \<Rightarrow> bool \<times> 'w"
  get_so_error :: "fd \<Rightarrow> 'w \<Rightarrow> int option \<times> 'w"
  sock_name :: "fd \<Rightarrow> 'w \<Rightarrow> sockaddr option \<times> 'w"
  win_bind :: "fd \<Rightarrow> sockaddr \<Rightarrow> 'w \<Rightarrow> bool \<times> 'w"

section \<open>The timer\<close>

definition Timer_new_win :: "'w connectex \<Rightarrow> 'w \<Rightarrow> (win_timer \<times> 'w) res" where
  "Timer_new_win cx w =
     (case create_queue cx w of (ok, w') \<Rightarrow>
       if ok then Inr (\<lparr>wt_timer = None, wt_callback = False, wt_interval = 0\<rparr>, w') else Inl (EXIT ''CreateTimerQueue''))"

definition Timer_destroy_win :: "'w connectex \<Rightarrow> win_timer \<Rightarrow> 'w \<Rightarrow> 'w" where
  "Timer_destroy_win cx t w = close_timer cx (wt_timer t) w"

text \<open>The milliseconds are passed as a \<open>DWORD\<close>. The member \<open>interval_\<close> is not set.\<close>

definition SetInterval_win :: "'w connectex \<Rightarrow> u64 \<Rightarrow> bool \<Rightarrow> win_timer \<Rightarrow> 'w \<Rightarrow> (win_timer \<times> 'w) res" where
  "SetInterval_win cx interval periodic t w =
     (let milliseconds = ucast (interval div 1000); period = (if periodic then milliseconds else 0) in
      case wt_timer t of
        None \<Rightarrow>
         (case create_timer cx milliseconds period w of
            (None, _) \<Rightarrow> Inl (EXIT ''CreateTimerQueueTimer'')
          | (Some h, w') \<Rightarrow> Inr (t\<lparr>wt_timer := Some h\<rparr>, w'))
      | Some h \<Rightarrow>
         (case change_timer cx h milliseconds period w of (ok, w') \<Rightarrow> if ok then Inr (t, w') else Inl (EXIT ''ChangeTimerQueueTimer'')))"

section \<open>The connector\<close>

definition get_wconnector :: "('k, 'w, 'e) win_client \<Rightarrow> win_connector res" where
  "get_wconnector s = (case wl_connector s of None \<Rightarrow> Inl (UB ''destroyed connector'') | Some wk \<Rightarrow> Inr wk)"

definition Connector_new_win :: "'w connectex \<Rightarrow> fd \<Rightarrow> int \<Rightarrow> SocketAddr \<Rightarrow> u16 \<Rightarrow> 'w \<Rightarrow> (win_connector \<times> 'w) res" where
  "Connector_new_win cx f retries addr timeout w =
     sbind (Timer_new_win cx w) (\<lambda>(t, w').
       Inr (\<lparr>wk_fd = f, wk_retry = 0, wk_max_retry = retries, wk_timeout = max timeout kMinRetryInitialTimeout,
             wk_status = SocketIocpStatus_new kPollOut, wk_timer = t\<lparr>wt_callback := True\<rparr>, wk_on_connected = False, wk_on_failure = False, wk_addr = addr\<rparr>, w'))"

definition OnConnectionFailureCallback_win :: "'w winsock \<Rightarrow> ('k, 'w, 'e) win_client \<Rightarrow> ('k, 'w, 'e) win_client res" where
  "OnConnectionFailureCallback_win ws s =
     (case wl_conn s of
        None \<Rightarrow> Inl (UB ''null connection'')
      | Some c \<Rightarrow> sbind (win_virtual_destroy ws c s) (\<lambda>s1. Inr (s1\<lparr>wl_conn := None, wl_status := kDisconnected\<rparr>)))"

definition Retry_win :: "'w winsock \<Rightarrow> 'w connectex \<Rightarrow> ('k, 'w, 'e) win_client \<Rightarrow> ('k, 'w, 'e) win_client res" where
  "Retry_win ws cx s =
     sbind (get_wconnector s) (\<lambda>wk.
       if 2 ^ 31 \<le> wk_retry wk + 1 then Inl (UB ''int overflow'')
       else if wk_retry wk + 1 \<le> wk_max_retry wk
       then
         sbind (SetInterval_win cx (ucast (wk_timeout wk) * 1000) False (wk_timer wk) (win_world s)) (\<lambda>(t, w).
           Inr (s\<lparr>win_world := w, wl_connector := Some (wk\<lparr>wk_retry := wk_retry wk + 1, wk_timer := t, wk_timeout := push_bit 1 (wk_timeout wk)\<rparr>)\<rparr>))
       else
         let s1 = s\<lparr>wl_connector := Some (wk\<lparr>wk_retry := wk_retry wk + 1\<rparr>)\<rparr> in
         if wk_on_failure wk then OnConnectionFailureCallback_win ws s1 else Inr s1)"

definition socket_connect_win :: "'w connectex \<Rightarrow> fd \<Rightarrow> sockaddr \<Rightarrow> 'w \<Rightarrow> (int \<times> 'w) res" where
  "socket_connect_win cx f a w =
     (case connect_ex cx f a w of ((ret, failed), w') \<Rightarrow> if ret = -1 \<and> failed then Inl (EXIT ''AcceptEx'') else Inr (ret, w'))"

text \<open>
  \<open>Start\<close> gives the channel the connector's callbacks, so that those of the connection are not bound any more. The flag says
  whether the thread that runs it has the pointer to \<open>ConnectEx\<close>, a variable of the thread.
\<close>

definition take_channel :: "('k, 'w, 'e) win_client \<Rightarrow> ('k, 'w, 'e) win_client" where
  "take_channel s =
     (case wl_conn s of
        None \<Rightarrow> s
      | Some c \<Rightarrow> s\<lparr>win_conns := (win_conns s)(c := map_option (\<lambda>cn. cn\<lparr>wc_bound := False\<rparr>) (win_conns s c))\<rparr>)"

definition Connector_Start_win :: "'w connectex \<Rightarrow> bool \<Rightarrow> ('k, 'w, 'e) win_client \<Rightarrow> ('k, 'w, 'e) win_client res" where
  "Connector_Start_win cx loaded s =
     sbind (get_wconnector s) (\<lambda>wk.
     sbind (if loaded then Inr (win_world s)
            else case load_connectex cx (wk_fd wk) (win_world s) of (ok, w) \<Rightarrow> if ok then Inr w else Inl (EXIT ''WSAIoctl'')) (\<lambda>w.
     sbind (socket_connect_win cx (wk_fd wk) (sa (wk_addr wk)) w) (\<lambda>(_, w').
       Inr ((take_channel s)\<lparr>win_world := w'\<rparr>))))"

section \<open>The client\<close>

type_synonym ('k, 'w, 'e) wcli_app = "'k \<Rightarrow> addr \<Rightarrow> ('k, 'w, 'e) win_client \<Rightarrow> ('k, 'w, 'e) win_client res option"

text \<open>\<open>OnCloseConnectionCallback\<close> only writes a log line.\<close>

definition wcli_user :: "('k, 'w, 'e) wcli_app \<Rightarrow> 'k wcli_cb \<Rightarrow> addr \<Rightarrow> ('k, 'w, 'e) win_client \<Rightarrow> ('k, 'w, 'e) win_client res option" where
  "wcli_user app u c s = (case u of WcUser k \<Rightarrow> app k c s | WcClosed f \<Rightarrow> Some (Inr s))"

definition OnConnectionCallback_win :: "'w winsock \<Rightarrow> 'e openssl \<Rightarrow> ('k, 'w, 'e) wcli_app \<Rightarrow> ('k, 'w, 'e) win_client \<Rightarrow> ('k, 'w, 'e) win_client res option" where
  "OnConnectionCallback_win ws ssl app s =
     (case wl_conn s of
        None \<Rightarrow> Some (Inl (UB ''null connection''))
      | Some c \<Rightarrow>
         obind (win_virtual_Init ws ssl (wcli_user app) c False [] (s\<lparr>wl_status := kConnected\<rparr>)) (\<lambda>s1.
           case wl_on_connection s1 of None \<Rightarrow> Some (Inr s1) | Some k \<Rightarrow> app k c s1))"

definition HandleConnect_win ::
  "'w winsock \<Rightarrow> 'e openssl \<Rightarrow> 'w connectex \<Rightarrow> (bool \<Rightarrow> string \<Rightarrow> string option) \<Rightarrow> byte_order \<Rightarrow> ('k, 'w, 'e) wcli_app \<Rightarrow>
     ('k, 'w, 'e) win_client \<Rightarrow> ('k, 'w, 'e) win_client res option" where
  "HandleConnect_win ws ssl cx ntop e app s =
     obind (Some (get_wconnector s)) (\<lambda>wk.
       case get_so_error cx (wk_fd wk) (win_world s) of
         (None, _) \<Rightarrow> Some (Inl (UB ''indeterminate err''))
       | (Some err, w) \<Rightarrow>
          (if err \<noteq> 0 then Some (Retry_win ws cx (s\<lparr>win_world := w\<rparr>))
           else
             case update_connect_context cx (wk_fd wk) w of (ok, w1) \<Rightarrow>
             if \<not> ok then Some (Inl (EXIT ''setsockopt''))
             else
               case sock_name cx (wk_fd wk) w1 of
                 (None, _) \<Rightarrow> Some (Inl (EXIT ''getsockname''))
               | (Some a, w2) \<Rightarrow>
                  obind (Some (SocketAddr_of_sockaddr ntop e a (ipv6 (wk_addr wk)))) (\<lambda>addr.
                    if wk_on_connected wk then OnConnectionCallback_win ws ssl app (s\<lparr>win_world := w2\<rparr>) else Some (Inr (s\<lparr>win_world := w2\<rparr>)))))"

text \<open>
  The completion of a \<open>ConnectEx\<close>: the status has lost a reference it was never given, and the channel's write callback is the connector's, or the
  connection's once that is set up.
\<close>

definition connect_done ::
  "'w winsock \<Rightarrow> 'e openssl \<Rightarrow> 'w connectex \<Rightarrow> (bool \<Rightarrow> string \<Rightarrow> string option) \<Rightarrow> byte_order \<Rightarrow> ('k, 'w, 'e) wcli_app \<Rightarrow>
     ('k, 'w, 'e) win_client \<Rightarrow> ('k, 'w, 'e) win_client res option" where
  "connect_done ws ssl cx ntop e app s =
     obind (Some (get_wconnector s)) (\<lambda>wk.
       let s1 = s\<lparr>wl_connector := Some (wk\<lparr>wk_status := UpdateRefCount False (wk_status wk)\<rparr>)\<rparr> in
       case Option.bind (wl_conn s) (\<lambda>c. win_conns s c) of
         Some cn \<Rightarrow> (if wc_bound cn then Win_OnWriteCallback_via ws (win_virtual_WriteBuffer ws ssl) (wcli_user app) (the (wl_conn s)) 0 s1 else HandleConnect_win ws ssl cx ntop e app s1)
       | None \<Rightarrow> HandleConnect_win ws ssl cx ntop e app s1)"

definition TcpClient_Connect_win ::
  "'w winsock \<Rightarrow> 'e openssl \<Rightarrow> 'w acceptex \<Rightarrow> 'w connectex \<Rightarrow> SocketAddr \<Rightarrow> bool \<Rightarrow> ('k, 'w, 'e) win_client \<Rightarrow> ('k, 'w, 'e) win_client res" where
  "TcpClient_Connect_win ws ssl ax cx local loaded s =
     (if ipv6 (wl_target s) \<noteq> ipv6 local then Inl (EXIT ''communication domain'')
      else if wl_status s \<noteq> kDisconnected then Inr s
      else
        sbind (socket_socket_win ax True (ipv6 (wl_target s)) (win_world s)) (\<lambda>(f, w).
          let c = wl_next s; s0 = s\<lparr>win_world := w, wl_status := kConnecting, wl_next := Suc c\<rparr>;
              s1 = (if wl_tls s then WinTls_new ssl f False c s0 else WinConnection_new f False c (s0\<lparr>wtls_parts := (wtls_parts s)(c := None)\<rparr>)) in
          sbind (case wl_conn s of None \<Rightarrow> Inr s1 | Some old \<Rightarrow> win_virtual_destroy ws old s1) (\<lambda>s2.
          sbind (get_win c s2) (\<lambda>cn.
          case win_bind cx f (sa local) (win_world s2) of (ok, w2) \<Rightarrow>
          if \<not> ok then Inl (EXIT ''bind'')
          else
            sbind (Connector_new_win cx f (wl_max_retry s) (wl_target s) (wl_timeout s) w2) (\<lambda>(wk, w3).
              let w4 = (case wl_connector s of None \<Rightarrow> w3 | Some old \<Rightarrow> Timer_destroy_win cx (wk_timer old) w3);
                  cn' = cn\<lparr>wc_on_read := map_option WcUser (wl_on_read s), wc_on_close := Some (WcClosed f)\<rparr> in
              sbind (UpdateIocpPort ws f w4) (\<lambda>w5.
                Connector_Start_win cx loaded
                  ((set_win c cn' w5 s2)\<lparr>wl_conn := Some c, wl_connector := Some (wk\<lparr>wk_on_connected := True, wk_on_failure := True\<rparr>)\<rparr>)))))))"

definition TcpClient_Disconnect_win :: "'w winsock \<Rightarrow> ('k, 'w, 'e) win_client \<Rightarrow> ('k, 'w, 'e) win_client res" where
  "TcpClient_Disconnect_win ws s =
     (if wl_status s \<noteq> kConnected then Inr s
      else
        case wl_conn s of
          None \<Rightarrow> Inl (UB ''null connection'')
        | Some c \<Rightarrow>
           sbind (get_win c s) (\<lambda>cn. Inr (s\<lparr>wl_status := kConnecting, win_world := win_shutdown_send ws (wc_fd cn) (win_world s)\<rparr>)))"

definition TcpClient_destroy_win :: "'w winsock \<Rightarrow> 'w connectex \<Rightarrow> ('k, 'w, 'e) win_client \<Rightarrow> ('k, 'w, 'e) win_client res" where
  "TcpClient_destroy_win ws cx s =
     sbind (TcpClient_Disconnect_win ws s) (\<lambda>s1.
       let s2 = (case wl_connector s1 of
                   None \<Rightarrow> s1
                 | Some wk \<Rightarrow> s1\<lparr>win_world := Timer_destroy_win cx (wk_timer wk) (win_world s1), wl_connector := None\<rparr>) in
       case wl_conn s2 of None \<Rightarrow> Inr s2 | Some c \<Rightarrow> sbind (win_virtual_destroy ws c s2) (\<lambda>s3. Inr (s3\<lparr>wl_conn := None\<rparr>)))"

section \<open>Timers of a queue\<close>

text \<open>
  What the documentation says of timers of a queue: \<open>armed\<close> gives the due time and the period of every timer that is going to
  expire. A timer without a period that has expired is not changed by \<open>ChangeTimerQueueTimer\<close>, which succeeds all the same. The other calls
  leave the timers alone.
\<close>

definition queue_timers :: "'w connectex \<Rightarrow> ('w \<Rightarrow> nat \<rightharpoonup> u32 \<times> u32) \<Rightarrow> bool" where
  "queue_timers cx armed \<longleftrightarrow>
     (\<forall>d p w. \<exists>h w'. create_timer cx d p w = (Some h, w') \<and> armed w' = (armed w)(h \<mapsto> (d, p))) \<and>
     (\<forall>h d p w. \<exists>w'. change_timer cx h d p w = (True, w') \<and> armed w' = (if armed w h = None then armed w else (armed w)(h \<mapsto> (d, p)))) \<and>
     (\<forall>f w. armed (snd (load_connectex cx f w)) = armed w) \<and> (\<forall>f a w. armed (snd (connect_ex cx f a w)) = armed w) \<and>
     (\<forall>f w. armed (snd (get_so_error cx f w)) = armed w)"

text \<open>A peer that refuses every connection: attempts are taken and fail later.\<close>

definition refusing_win :: "'w connectex \<Rightarrow> bool" where
  "refusing_win cx \<longleftrightarrow>
     (\<forall>f w. fst (load_connectex cx f w)) \<and> (\<forall>f a w. \<not> snd (fst (connect_ex cx f a w))) \<and>
     (\<forall>f w. \<exists>err. fst (get_so_error cx f w) = Some err \<and> err \<noteq> 0)"

definition waiting_win :: "int \<Rightarrow> nat \<Rightarrow> nat option \<Rightarrow> ('k, 'w, 'e) win_client \<Rightarrow> bool" where
  "waiting_win m n h s \<longleftrightarrow> wl_status s = kConnecting \<and>
     (\<exists>wk c cn. wl_connector s = Some wk \<and> wk_retry wk = int n \<and> wk_max_retry wk = m \<and> wt_timer (wk_timer wk) = h \<and>
        wl_conn s = Some c \<and> win_conns s c = Some cn \<and> \<not> wc_bound cn)"

lemma refused_win:
  assumes q: "queue_timers cx armed" and r: "refusing_win cx" and s: "waiting_win m n h s" and m: "int n < m" "m < 2 ^ 31"
  shows "\<exists>s' k. connect_done ws ssl cx ntop e app s = Some (Inr s') \<and> waiting_win m (Suc n) (Some k) s' \<and>
    (case h of None \<Rightarrow> armed (win_world s') k \<noteq> None | Some j \<Rightarrow> k = j \<and> (armed (win_world s) j = None \<longrightarrow> armed (win_world s') j = None))"
proof -
  obtain wk c cn where st: "wl_status s = kConnecting" "wl_connector s = Some wk" "wk_retry wk = int n" "wk_max_retry wk = m" "wt_timer (wk_timer wk) = h"
    "wl_conn s = Some c" "win_conns s c = Some cn" "\<not> wc_bound cn" using s unfolding waiting_win_def by blast
  obtain err w where so: "get_so_error cx (wk_fd wk) (win_world s) = (Some err, w)" "err \<noteq> 0"
    using r unfolding refusing_win_def by (metis prod.collapse)
  have "armed (snd (get_so_error cx (wk_fd wk) (win_world s))) = armed (win_world s)" using q unfolding queue_timers_def by blast
  then have aw: "armed w = armed (win_world s)" using so(1) by simp
  let ?us = "ucast (wk_timeout wk) * 1000 :: u64" and ?wk = "wk\<lparr>wk_status := UpdateRefCount False (wk_status wk)\<rparr>"
  have rd: "connect_done ws ssl cx ntop e app s = Some (Retry_win ws cx (s\<lparr>wl_connector := Some ?wk, win_world := w\<rparr>))"
    using st so by (simp add: connect_done_def get_wconnector_def HandleConnect_win_def Let_def)
  have rt: "Retry_win ws cx (s\<lparr>wl_connector := Some ?wk, win_world := w\<rparr>) =
      Inr (s\<lparr>win_world := w', wl_connector := Some (?wk\<lparr>wk_retry := int n + 1, wk_timer := t, wk_timeout := push_bit 1 (wk_timeout wk)\<rparr>)\<rparr>)"
    if "SetInterval_win cx ?us False (wk_timer wk) w = Inr (t, w')" for t w'
    using that st(2-4) m by (simp add: Retry_win_def get_wconnector_def)
  have fin: "\<exists>s'. connect_done ws ssl cx ntop e app s = Some (Inr s') \<and> waiting_win m (Suc n) (wt_timer t) s' \<and> win_world s' = w'"
    if "SetInterval_win cx ?us False (wk_timer wk) w = Inr (t, w')" for t w'
    using rd rt [OF that] st by (simp add: waiting_win_def)
  show ?thesis
  proof (cases h)
    case None
    obtain k w' where k: "create_timer cx (ucast (?us div 1000)) 0 w = (Some k, w')" "armed w' = (armed w)(k \<mapsto> (ucast (?us div 1000), 0))"
      using q unfolding queue_timers_def by blast
    then have "SetInterval_win cx ?us False (wk_timer wk) w = Inr ((wk_timer wk)\<lparr>wt_timer := Some k\<rparr>, w')"
      using st(5) None by (simp add: SetInterval_win_def Let_def)
    from fin [OF this] obtain s' where "connect_done ws ssl cx ntop e app s = Some (Inr s')" "waiting_win m (Suc n) (Some k) s'" "win_world s' = w'" by auto
    then show ?thesis using k(2) None by (intro exI [of _ s'] exI [of _ k]) simp
  next
    case (Some j)
    obtain w' where k: "change_timer cx j (ucast (?us div 1000)) 0 w = (True, w')"
      "armed w' = (if armed w j = None then armed w else (armed w)(j \<mapsto> (ucast (?us div 1000), 0)))" using q unfolding queue_timers_def by blast
    then have "SetInterval_win cx ?us False (wk_timer wk) w = Inr (wk_timer wk, w')" using st(5) Some by (simp add: SetInterval_win_def Let_def)
    from fin [OF this] obtain s' where "connect_done ws ssl cx ntop e app s = Some (Inr s')" "waiting_win m (Suc n) (Some j) s'" "win_world s' = w'"
      using st(5) Some by auto
    then show ?thesis using k(2) Some aw by (intro exI [of _ s'] exI [of _ j]) simp
  qed
qed

lemma Connector_Start_waiting:
  assumes q: "queue_timers cx armed" and r: "refusing_win cx" and s: "waiting_win m n h s"
  shows "\<exists>s'. Connector_Start_win cx loaded s = Inr s' \<and> waiting_win m n h s' \<and> armed (win_world s') = armed (win_world s)"
proof -
  obtain wk c cn where st: "wl_status s = kConnecting" "wl_connector s = Some wk" "wk_retry wk = int n" "wk_max_retry wk = m" "wt_timer (wk_timer wk) = h"
    "wl_conn s = Some c" "win_conns s c = Some cn" "\<not> wc_bound cn" using s unfolding waiting_win_def by blast
  define w where "w = (if loaded then win_world s else snd (load_connectex cx (wk_fd wk) (win_world s)))"
  have "fst (load_connectex cx (wk_fd wk) (win_world s))" using r unfolding refusing_win_def by blast
  then have l: "(if loaded then Inr (win_world s)
      else case load_connectex cx (wk_fd wk) (win_world s) of (ok, w) \<Rightarrow> if ok then Inr w else Inl (EXIT ''WSAIoctl'')) = Inr w"
    by (cases "load_connectex cx (wk_fd wk) (win_world s)") (simp add: w_def)
  have "armed (snd (load_connectex cx (wk_fd wk) (win_world s))) = armed (win_world s)" using q unfolding queue_timers_def by blast
  then have aw: "armed w = armed (win_world s)" by (simp add: w_def)
  obtain ret failed w' where c: "connect_ex cx (wk_fd wk) (sa (wk_addr wk)) w = ((ret, failed), w')" by (metis prod.collapse)
  have "\<not> snd (fst (connect_ex cx (wk_fd wk) (sa (wk_addr wk)) w))" using r unfolding refusing_win_def by blast
  moreover have "armed (snd (connect_ex cx (wk_fd wk) (sa (wk_addr wk)) w)) = armed w" using q unfolding queue_timers_def by blast
  ultimately have "\<not> failed" "armed w' = armed w" using c by simp_all
  then show ?thesis
    using st l c aw by (simp add: Connector_Start_win_def get_wconnector_def socket_connect_win_def waiting_win_def take_channel_def)
qed

section \<open>Properties\<close>

text \<open>
  Property C36. A client on Windows whose peer refuses its connections stops trying after the second attempt, however many it was told to make: the
  timer was made for the first failure, without a period, and has expired when it is to be set for the second, which has no effect. The
  client is then connecting for ever, with no timer that would start another attempt.
\<close>

theorem win_client_stops_trying:
  assumes "queue_timers cx armed" and "refusing_win cx" and "waiting_win m 0 None s" and "2 \<le> m" and "m < 2 ^ 31"
    and "\<And>h w. armed (expire h w) = (armed w)(h := None)"
  shows "\<exists>s1 h s2 s3. connect_done ws ssl cx ntop e app s = Some (Inr s1) \<and> armed (win_world s1) h \<noteq> None \<and>
    Connector_Start_win cx loaded (s1\<lparr>win_world := expire h (win_world s1)\<rparr>) = Inr s2 \<and> connect_done ws ssl cx ntop e app s2 = Some (Inr s3) \<and>
    waiting_win m 2 (Some h) s3 \<and> armed (win_world s3) h = None"
proof -
  obtain s1 h where s1: "connect_done ws ssl cx ntop e app s = Some (Inr s1)" "waiting_win m 1 (Some h) s1" "armed (win_world s1) h \<noteq> None"
    using refused_win [OF assms(1-3)] assms(4,5) by fastforce
  let ?s1 = "s1\<lparr>win_world := expire h (win_world s1)\<rparr>"
  have "waiting_win m 1 (Some h) ?s1" using s1(2) by (simp add: waiting_win_def)
  from Connector_Start_waiting [OF assms(1,2) this, of loaded] assms(6) obtain s2 where
    s2: "Connector_Start_win cx loaded ?s1 = Inr s2" "waiting_win m 1 (Some h) s2" "armed (win_world s2) h = None" by auto
  obtain s3 k where "connect_done ws ssl cx ntop e app s2 = Some (Inr s3)" "waiting_win m (Suc 1) (Some k) s3" "k = h" "armed (win_world s3) h = None"
    using refused_win [OF assms(1,2) s2(2)] assms(4,5) s2(3) by fastforce
  then show ?thesis using s1 s2 by (auto simp: numeral_2_eq_2)
qed

text \<open>
  When the attempt of a client on Windows succeeds, the client is connected, its connection takes the channel over from the connector, and a read is under
  way.
\<close>

theorem win_client_connects:
  assumes wk: "wl_connector s = Some wk" "wk_on_connected wk" and c: "wl_conn s = Some c" "win_conns s c = Some cn" "\<not> wc_bound cn" "\<not> wc_shut_down cn"
    and b: "Buffer_Empty (wc_read_buffer cn)" "FreeOfRef (read_status cn)" and u: "wl_on_connection s = None" "wtls_parts s c = None"
    and k: "get_so_error cx (wk_fd wk) (win_world s) = (Some 0, w1)" "update_connect_context cx (wk_fd wk) w1 = (True, w2)"
      "sock_name cx (wk_fd wk) w2 = (Some a, w3)" "SocketAddr_of_sockaddr ntop e a (ipv6 (wk_addr wk)) = Inr addr"
      "wsa_recv ws (wc_fd cn) kMaxIocpRecvSize w3 = (r, w4)" "r = WSA_OK \<or> r = SOCKET_ERROR WSA_IO_PENDING"
  shows "\<exists>s' cn'. connect_done ws ssl cx ntop e app s = Some (Inr s') \<and> wl_status s' = kConnected \<and> win_conns s' c = Some cn' \<and> wc_bound cn' \<and>
    \<not> wc_shut_down cn' \<and> ref_count (read_status cn') = 1"
  using assms
  by (auto simp: connect_done_def get_wconnector_def HandleConnect_win_def OnConnectionCallback_win_def win_virtual_Init_def Win_Init_def Let_def get_win_def PostRead_def
      socket_read_iocp_def UpdateRefCount_def FreeOfRef_def set_win_def)

text \<open>A system whose timers are its state, and a client that has started its first attempt.\<close>

definition sample_connectex :: "int \<Rightarrow> (nat \<rightharpoonup> u32 \<times> u32) connectex" where
  "sample_connectex err =
     \<lparr>create_queue = (\<lambda>w. (True, w)), create_timer = (\<lambda>d p w. (Some 5, w(5 \<mapsto> (d, p)))),
      change_timer = (\<lambda>h d p w. (True, if w h = None then w else w(h \<mapsto> (d, p)))), close_timer = (\<lambda>h w. w),
      load_connectex = (\<lambda>f w. (True, w)), connect_ex = (\<lambda>f a w. ((0, False), w)), update_connect_context = (\<lambda>f w. (True, w)),
      get_so_error = (\<lambda>f w. (Some err, w)), sock_name = (\<lambda>f w. (Some \<lparr>sa_ipv6 = False, sa_addr = Some ''abcd'', sa_port = 0\<rparr>, w)),
      win_bind = (\<lambda>f a w. (True, w))\<rparr>"

definition sample_wconnector :: win_connector where
  "sample_wconnector = \<lparr>wk_fd = 7, wk_retry = 0, wk_max_retry = 10, wk_timeout = 10, wk_status = SocketIocpStatus_new kPollOut,
     wk_timer = \<lparr>wt_timer = None, wt_callback = True, wt_interval = 0\<rparr>, wk_on_connected = True, wk_on_failure = True,
     wk_addr = \<lparr>ip = ''1.2.3.4'', port = 80, sa = \<lparr>sa_ipv6 = False, sa_addr = Some ''abcd'', sa_port = 0\<rparr>, ipv6 = False\<rparr>\<rparr>"

definition sample_wclient :: "(unit, nat \<rightharpoonup> u32 \<times> u32, unit) win_client" where
  "sample_wclient =
     WinConnection_new 7 False 1
       \<lparr>win_world = Map.empty, win_conns = Map.empty, wtls_parts = Map.empty, wl_max_retry = 10, wl_status = kConnecting, wl_target = wk_addr sample_wconnector, wl_conn = Some 1,
        wl_connector = Some sample_wconnector, wl_timeout = 10, wl_tls = False, wl_on_read = None, wl_on_connection = None, wl_next = 2\<rparr>"

theorem win_client_stops_trying_witness:
  "\<forall>ws ssl ntop e app. \<exists>s1 h s2 s3. connect_done ws ssl (sample_connectex 10061) ntop e app sample_wclient = Some (Inr s1) \<and> win_world s1 h \<noteq> None \<and>
    Connector_Start_win (sample_connectex 10061) True (s1\<lparr>win_world := (win_world s1)(h := None)\<rparr>) = Inr s2 \<and>
    connect_done ws ssl (sample_connectex 10061) ntop e app s2 = Some (Inr s3) \<and> wl_status s3 = kConnecting \<and> win_world s3 h = None"
proof (intro allI)
  fix ws ssl ntop e and app :: "(unit, nat \<rightharpoonup> u32 \<times> u32, unit) wcli_app"
  have q: "queue_timers (sample_connectex 10061) (\<lambda>w. w)" "refusing_win (sample_connectex 10061)"
    by (simp_all add: queue_timers_def refusing_win_def sample_connectex_def)
  have "waiting_win 10 0 None sample_wclient"
    by (simp add: waiting_win_def sample_wclient_def sample_wconnector_def WinConnection_new_def set_win_def)
  from win_client_stops_trying [OF q this, of "\<lambda>h w. w(h := None)" ws ssl ntop e app True]
  show "\<exists>s1 h s2 s3. connect_done ws ssl (sample_connectex 10061) ntop e app sample_wclient = Some (Inr s1) \<and> win_world s1 h \<noteq> None \<and>
    Connector_Start_win (sample_connectex 10061) True (s1\<lparr>win_world := (win_world s1)(h := None)\<rparr>) = Inr s2 \<and>
    connect_done ws ssl (sample_connectex 10061) ntop e app s2 = Some (Inr s3) \<and> wl_status s3 = kConnecting \<and> win_world s3 h = None"
    by (auto simp: waiting_win_def)
qed

definition sample_reading :: "(nat \<rightharpoonup> u32 \<times> u32) winsock" where
  "sample_reading =
     \<lparr>wsa_send = (\<lambda>f bs w. (SOCKET_ERROR WSA_IO_PENDING, w)), wsa_recv = (\<lambda>f n w. (SOCKET_ERROR WSA_IO_PENDING, w)),
      win_shutdown_send = (\<lambda>f w. w), win_shutdown_receive = (\<lambda>f w. w), win_closesocket = (\<lambda>f w. (True, w)), win_associate = (\<lambda>f w. (True, w))\<rparr>"

theorem win_client_connects_witness:
  "\<forall>ssl app. \<exists>s' cn'. connect_done sample_reading ssl (sample_connectex 0) (\<lambda>_ _. Some ''1.2.3.4'') Little_Endian app sample_wclient = Some (Inr s') \<and>
    wl_status s' = kConnected \<and> win_conns s' 1 = Some cn' \<and> wc_bound cn' \<and> ref_count (read_status cn') = 1"
proof (intro allI)
  fix ssl and app :: "(unit, nat \<rightharpoonup> u32 \<times> u32, unit) wcli_app"
  obtain cn where cn: "win_conns sample_wclient 1 = Some cn" "\<not> wc_bound cn" "\<not> wc_shut_down cn" "Buffer_Empty (wc_read_buffer cn)" "FreeOfRef (read_status cn)"
    by (simp add: sample_wclient_def WinConnection_new_def set_win_def Buffer_Empty_def Buffer_new_def FreeOfRef_def SocketIocpStatus_new_def)
  have cl: "wl_connector sample_wclient = Some sample_wconnector" "wl_conn sample_wclient = Some 1" "wl_on_connection sample_wclient = None" "wtls_parts sample_wclient 1 = None"
    by (simp_all add: sample_wclient_def WinConnection_new_def set_win_def)
  show "\<exists>s' cn'. connect_done sample_reading ssl (sample_connectex 0) (\<lambda>_ _. Some ''1.2.3.4'') Little_Endian app sample_wclient = Some (Inr s') \<and>
    wl_status s' = kConnected \<and> win_conns s' 1 = Some cn' \<and> wc_bound cn' \<and> ref_count (read_status cn') = 1"
    using win_client_connects [OF cl(1) _ cl(2) cn cl(3,4), of "sample_connectex 0" _ _ _ _ "\<lambda>_ _. Some ''1.2.3.4''" Little_Endian _ sample_reading _ _ ssl app]
    by (fastforce simp: sample_connectex_def sample_reading_def sample_wconnector_def SocketAddr_of_sockaddr_def)
qed

end
