(* ===== verification/Http_Service.thy ===== *)
theory Http_Service
  imports Http_Server Tcp_Connection
begin

text \<open>
  The HTTP example as it is put together: \<^verbatim>\<open>examples/http/server.cpp\<close> reads its command line and starts an \<open>HttpServer\<close>, whose read callback is the codec's
  \<open>OnClientMessage\<close>, called with a connection and the connection's read buffer.
\<close>

section \<open>The command line\<close>

record http_setup =
  hs_root :: string
  hs_certs :: "(string \<times> string) option"
  hs_codec :: http_codec

text \<open>
  \<open>main\<close> until the server is started, or nothing when it returns with a failure. The server is encrypted when a certificate and a key
  are given.
\<close>

definition http_main :: "files \<Rightarrow> string list \<Rightarrow> http_setup option" where
  "http_main fs argv =
     (if length argv < 2 then None
      else
        let root = argv ! 1;
            cert_path = (if 2 < length argv then Some (argv ! 2) else None);
            key_path = (if 3 < length argv then Some (argv ! 3) else None) in
        Some \<lparr>hs_root = root, hs_certs = (case (cert_path, key_path) of (Some cert, Some key) \<Rightarrow> Some (cert, key) | _ \<Rightarrow> None),
              hs_codec = HttpServer_codec (cert_path = None \<or> key_path = None) (get_server fs root)\<rparr>)"

section \<open>The codec on a connection\<close>

fun conn_call_do :: "'w posix \<Rightarrow> addr \<Rightarrow> conn_call \<Rightarrow> ('u, 'w, 'z) net_scheme \<Rightarrow> ('u, 'w, 'z) net_scheme res option" where
  "conn_call_do os c (CallSend text) s = Connection_Send os c text s"
| "conn_call_do os c (CallSendFile head fname) s = SendFile os c head fname s"
| "conn_call_do os c CallShutDownWrite s = Some (Connection_ShutDownWrite os c s)"

fun conn_calls_do :: "'w posix \<Rightarrow> addr \<Rightarrow> conn_call list \<Rightarrow> ('u, 'w, 'z) net_scheme \<Rightarrow> ('u, 'w, 'z) net_scheme res option" where
  "conn_calls_do os c [] s = Some (Inr s)"
| "conn_calls_do os c (k # ks) s = obind (conn_call_do os c k s) (conn_calls_do os c ks)"

definition http_read_callback ::
  "'w posix \<Rightarrow> files \<Rightarrow> (string \<Rightarrow> string) \<Rightarrow> http_codec \<Rightarrow> addr \<Rightarrow> ('u, 'w, 'z) net_scheme \<Rightarrow> ('u, 'w, 'z) net_scheme res option" where
  "http_read_callback os fs DeflateFile codec c s =
     obind (Some (get_conn c s)) (\<lambda>cn.
     obind (Some (OnClientMessage fs DeflateFile codec (read_buffer cn))) (\<lambda>out.
       conn_calls_do os c (out_calls out) (set_conn c (cn\<lparr>read_buffer := http_outcome.out_buffer out\<rparr>) s)))"

lemma SendFile_conn:
  assumes "SendFile os c head fname s = Some (Inr s')" and "conns s c = Some cn"
  shows "\<exists>wb. conns s' c = Some (cn\<lparr>write_buffer := wb\<rparr>)"
proof (cases "shut_down cn \<or> \<not> conn_send_file cn")
  case True
  then show ?thesis using assms by (intro exI [of _ "write_buffer cn"]) (auto simp: SendFile_def)
next
  case False
  then obtain wb1 r s1 where s1: "Connection_WriteBuffer os c (set_conn c (cn\<lparr>write_buffer := wb1\<rparr>) s) = Some (Inr (r, s1))" "Connection_EnableWrite os c r s1 = Inr s'"
    using assms by (auto simp: SendFile_def obind_Inr split: out_buffer.splits)
  then obtain wb where wb: "conns s1 c = Some (cn\<lparr>write_buffer := wb\<rparr>)" by (auto simp: Connection_WriteBuffer_def obind_Inr)
  have "Channel_EnableWrite os (conn_channel cn) (case r of Err _ \<Rightarrow> True | Ret _ \<Rightarrow> False) s1 = Inr s'"
    using s1(2) wb by (simp add: Connection_EnableWrite_def)
  from Channel_EnableWrite_called [OF this] have "conns s' = conns s1" by (auto simp: poller_called_def)
  then show ?thesis using wb by auto
qed

lemma conn_ready_read:
  assumes "conn_ready os v c a f sf m s" and "conns s c = Some cn"
  shows "conn_ready os v c a f sf m (set_conn c (cn\<lparr>read_buffer := b\<rparr>) s)" "conn_stream v c (set_conn c (cn\<lparr>read_buffer := b\<rparr>) s) = conn_stream v c s"
    "write_armed v c f (set_conn c (cn\<lparr>read_buffer := b\<rparr>) s) = write_armed v c f s"
  using assms by (auto simp: conn_ready_def conn_stream_def write_armed_def)

section \<open>Properties\<close>

text \<open>
  Property C26. A request that has arrived on a connection is answered on the connection: when the read buffer of a plain connection begins with a \<open>GET\<close> request, of
  another version than HTTP/1.0 (after which writing is shut down), for a file that exists and is not sent compressed, the callback appends the head of the response and the file to what the socket has taken and what waits, takes exactly the request off the read
  buffer, and leaves the connection open, with write events asked for as long as something waits. The call returns or ends the process.
\<close>

theorem http_answers_on_connection:
  assumes cn: "conn_ready os v c a f True m s" "write_armed v c f s" "conns s c = Some cn"
    and rq: "buffer_ok (read_buffer cn)" "content (read_buffer cn) = http_text (request_line ''GET'' u ver) hs body @ rest" "request_ok ''GET'' u ver hs body encs"
      "length (content (read_buffer cn)) < 2 ^ 31 - 5" "ver \<noteq> ''HTTP/1.0''"
    and found: "kv_data v (root @ target u) = Some d" "length d < 2 ^ 31" "served_encoding (target u) (length d) (chosen_encoding encs) \<noteq> kGzip"
    and room: "length (response_head ver ''200 OK'' (mime_type (target u)) (length d)) \<le> m"
    and main: "http_main (kv_data v) [prog, root] = Some cfg"
  shows "exits_or (\<lambda>s'. kv_sent v (world s') @ conn_stream v c s' =
         kv_sent v (world s) @ conn_stream v c s @ response_head ver ''200 OK'' (mime_type (target u)) (length d) @ d \<and>
       write_armed v c f s' \<and> (\<exists>cn'. conns s' c = Some cn' \<and> \<not> shut_down cn' \<and> content (read_buffer cn') = rest))
     (http_read_callback os (kv_data v) z (hs_codec cfg) c s)"
proof -
  let ?h = "response_head ver ''200 OK'' (mime_type (target u)) (length d)"
  have codec: "hs_codec cfg = HttpServer_codec True (get_server (kv_data v) root)" using main by (auto simp: http_main_def Let_def)
  obtain out where out: "OnClientMessage (kv_data v) z (hs_codec cfg) (read_buffer cn) = Inr out" "out_calls out = [CallSendFile ?h (root @ target u)]"
    "content (http_outcome.out_buffer out) = rest"
    using OnClientMessage_serves [where fs = "kv_data v" and root = root and u = u and z = z and no_tls = True, OF rq(1-4) found] rq(5) unfolding codec by auto
  let ?cn = "cn\<lparr>read_buffer := http_outcome.out_buffer out\<rparr>"
  let ?s = "set_conn c ?cn s"
  note rd = conn_ready_read [OF cn(1,3), of "http_outcome.out_buffer out"]
  obtain m' where m: "m = length ?h + m'" using room by (metis le_add_diff_inverse)
  have ready: "conn_ready os v c a f True (length ?h + m') ?s" "write_armed v c f ?s" using rd cn(2) m by simp_all
  have "target u \<noteq> []" by (simp add: target_def)
  then have bytes: "op_bytes (kv_data v) True (SendFileOp ?h (root @ target u)) = ?h @ d" using found(1) by (simp add: entry_bytes_def)
  have run: "http_read_callback os (kv_data v) z (hs_codec cfg) c s = SendFile os c ?h (root @ target u) ?s"
    using cn(3) out(1,2) by (simp add: http_read_callback_def obind_def split: option.split sum.split)
  have "op_done os v c a f True m' (kv_sent v (world s) @ conn_stream v c s @ ?h @ d) (SendFile os c ?h (root @ target u) ?s)"
    using SendFile_done [OF ready, of "root @ target u"] found(1,2) rd(2) unfolding bytes by simp
  moreover have "\<exists>cn'. conns s' c = Some cn' \<and> \<not> shut_down cn' \<and> content (read_buffer cn') = rest"
    if "SendFile os c ?h (root @ target u) ?s = Some (Inr s')" for s'
  proof -
    have "conns ?s c = Some ?cn" by simp
    from SendFile_conn [OF that this] obtain wb where "conns s' c = Some (?cn\<lparr>write_buffer := wb\<rparr>)" by blast
    moreover have "\<not> shut_down cn" using cn(1,3) by (auto simp: conn_ready_def)
    ultimately show ?thesis using out(3) by simp
  qed
  ultimately show ?thesis unfolding run op_done_def exits_or_def by blast
qed

definition f_request :: string where
  "f_request = http_text (request_line ''GET'' ''f'' ''HTTP/1.1'') [] []"

definition f_buffer :: buffer where
  "f_buffer = \<lparr>read_index = 0, write_index = 19, vec = f_request\<rparr>"

lemma f_buffer_ok:
  "buffer_ok f_buffer" "content f_buffer = http_text (request_line ''GET'' ''f'' ''HTTP/1.1'') [] [] @ []"
  "request_ok ''GET'' ''f'' ''HTTP/1.1'' [] [] []" "length (content f_buffer) < 2 ^ 31 - 5" "''HTTP/1.1'' \<noteq> ''HTTP/1.0''"
  by (simp_all add: f_buffer_def f_request_def buffer_ok_def content_def http_text_def message_text_def request_line_def kHeaderBreak_def
      request_ok_def kHttpRequestMethods_def accepts_def header_map_def)

lemma f_served:
  "kv_data sample_view ([] @ target ''f'') = Some ''abcdef''" "length ''abcdef'' < 2 ^ 31"
  "served_encoding (target ''f'') (length ''abcdef'') (chosen_encoding []) \<noteq> kGzip"
  by (simp_all add: sample_view_def sample_data_def sample_file_def target_def served_encoding_def chosen_encoding_def kIdentity_def kGzip_def)

lemma f_head:
  "response_head ''HTTP/1.1'' ''200 OK'' (mime_type (target ''f'')) (length ''abcdef'') =
     ''HTTP/1.1 200 OK'' @ [CR, LF] @ ''Content-Type: '' @ kUnknownFileMimeType @ [CR, LF] @ ''Content-Length: 6'' @ [CR, LF, CR, LF]"
  by code_simp

theorem http_answers_on_connection_witness:
  "\<exists>s1 cn cfg. sample_init True [] 9 = Inr s1 \<and> conns s1 2 = Some cn \<and> http_main sample_data [''server'', []] = Some cfg \<and>
     exits_or (\<lambda>s'. accepted (world s') @ conn_stream sample_view 2 s' =
         ''HTTP/1.1 200 OK'' @ [CR, LF] @ ''Content-Type: '' @ kUnknownFileMimeType @ [CR, LF] @ ''Content-Length: 6'' @ [CR, LF, CR, LF] @ ''abcdef'' \<and>
         write_armed sample_view 2 4 s' \<and> (\<exists>cn'. conns s' 2 = Some cn' \<and> \<not> shut_down cn' \<and> content (read_buffer cn') = []))
       (http_read_callback sample_posix sample_data id (hs_codec cfg) 2 (set_conn 2 (cn\<lparr>read_buffer := f_buffer\<rparr>) s1))"
proof -
  obtain s1 where s1: "sample_init True [] 9 = Inr s1" by (simp add: sample_init_eval)
  have k: "conn_kernel sample_posix sample_view 4 (poll_fd (sample_loop :: nat net_cb event_loop))" by (rule sample_conn_kernel) simp_all
  have n: "loops (sample_net [] 9) 1 = Some sample_loop" "kv_iset sample_view (world (sample_net [] 9)) 4 = None"
    "kv_sent sample_view (world (sample_net [] 9)) = []"
    by (simp_all add: sample_net_def sample_view_def sample_world_def)
  note i = Connection_Init_ready [OF k n(1,2) s1 [unfolded sample_init_def], of 1000]
  then obtain cn where cn: "conns s1 2 = Some cn" by (auto simp: conn_ready_def)
  note rd = conn_ready_read [OF i(1) cn, of f_buffer]
  obtain cfg where cfg: "http_main sample_data [''server'', []] = Some cfg" by (simp add: http_main_def)
  have room: "length (response_head ''HTTP/1.1'' ''200 OK'' (mime_type (target ''f'')) (length ''abcdef'')) \<le> 1000"
    unfolding f_head by (simp add: kUnknownFileMimeType_def)
  have v: "kv_data sample_view = sample_data" "kv_sent sample_view = accepted" by (simp_all add: sample_view_def)
  let ?s = "set_conn 2 (cn\<lparr>read_buffer := f_buffer\<rparr>) s1"
  have "exits_or (\<lambda>s'. accepted (world s') @ conn_stream sample_view 2 s' = accepted (world ?s) @ conn_stream sample_view 2 ?s @
         response_head ''HTTP/1.1'' ''200 OK'' (mime_type (target ''f'')) (length ''abcdef'') @ ''abcdef'' \<and>
         write_armed sample_view 2 4 s' \<and> (\<exists>cn'. conns s' 2 = Some cn' \<and> \<not> shut_down cn' \<and> content (read_buffer cn') = []))
       (http_read_callback sample_posix sample_data id (hs_codec cfg) 2 ?s)"
    using http_answers_on_connection [where v = sample_view and root = "[]" and u = "''f''" and cn = "cn\<lparr>read_buffer := f_buffer\<rparr>" and os = sample_posix
        and c = 2 and a = 3 and f = 4 and m = 1000 and s = ?s and ver = "''HTTP/1.1''" and hs = "[]" and body = "[]" and encs = "[]" and rest = "[]"
        and d = "''abcdef''" and prog = "''server''" and cfg = cfg and z = id]
      rd i f_buffer_ok f_served room cfg v by simp
  then show ?thesis using s1 cn cfg rd(2) i(3,4) n(3) unfolding f_head v by auto
qed

end
