(* ===== verification/Log_Time.thy ===== *)
theory Log_Time
  imports Decimal_Text Logger_Service
begin

text \<open>
  The parts of \<^verbatim>\<open>Logging.cpp\<close> around the clock and the file: \<open>GetCurrentDateTime\<close>, and how the constructor opens the log file. The
  calls of the C library are arguments: \<open>strftime\<close> gives the text of the current time, or \<open>None\<close> when it does not fit in its buffer, whose
  content is then indeterminate, and \<open>fopen\<close> says whether a file can be opened.
\<close>

text \<open>The array of 40 characters ends with a zero byte, of which \<open>strncat\<close> takes care.\<close>

definition GetCurrentDateTime :: "(nat \<Rightarrow> string option) \<Rightarrow> nat \<Rightarrow> string res" where
  "GetCurrentDateTime strftime usec =
     (case strftime 40 of
        None \<Rightarrow> Inl (UB ''indeterminate buf'')
      | Some buf \<Rightarrow>
         let minor_buf = take (10 - 1) (zero_padded 6 usec) in Inr (buf @ take (40 - length buf - 1) minor_buf))"

text \<open>
  Without a file name the constructor makes one from the process's number in an array of an inner block, and uses the pointer to it
  after the block has ended.
\<close>

definition default_log_path :: "nat \<Rightarrow> string" where
  "default_log_path pid = take (20 - 1) (''ladder.'' @ nat_to_string pid @ ''.log'')"

datatype path_pointer = Argument string | EndedBlock string

definition log_path_pointer :: "nat \<Rightarrow> string \<Rightarrow> path_pointer" where
  "log_path_pointer pid filename = (if length filename = 0 then EndedBlock (default_log_path pid) else Argument filename)"

definition open_log :: "(string \<Rightarrow> bool) \<Rightarrow> path_pointer \<Rightarrow> unit res" where
  "open_log fopen p =
     (case p of EndedBlock _ \<Rightarrow> Inl (UB ''dangling log_path'') | Argument f \<Rightarrow> if fopen f then Inr () else Inl (EXIT ''[Logger] open''))"

definition Logger_open :: "(string \<Rightarrow> bool) \<Rightarrow> nat \<Rightarrow> string \<Rightarrow> nat \<Rightarrow> logger res" where
  "Logger_open fopen pid filename lev = sbind (open_log fopen (log_path_pointer pid filename)) (\<lambda>_. Inr (Logger_new lev))"

section \<open>Properties\<close>

text \<open>
  The time stamp of a log line is the text of \<open>strftime\<close> followed by exactly six digits, whose value are the microseconds, so that
  time stamps of the same second can be compared as texts.
\<close>

theorem time_stamp_digits:
  assumes "strftime 40 = Some date" and "length date \<le> 33" and "usec < 1000000"
  shows "\<exists>ds. GetCurrentDateTime strftime usec = Inr (date @ ds) \<and> length ds = 6 \<and> list_all isdigit ds \<and> digits_value ds = int usec"
proof -
  have "usec < 10 ^ Suc 5" using assms(3) by simp
  note z = zero_padded_ok [OF this]
  have six: "Suc 5 = 6" by simp
  have "GetCurrentDateTime strftime usec = Inr (date @ zero_padded 6 usec)"
    using assms(1,2) z(1) unfolding six by (simp add: GetCurrentDateTime_def Let_def)
  then show ?thesis using z unfolding six by blast
qed

text \<open>
  The logger that every log macro creates when there is none, without a file name, reads an array that does not exist any more.
\<close>

theorem default_logger_dangles: "Logger_open fopen pid [] lev = Inl (UB ''dangling log_path'')"
  by (simp add: Logger_open_def log_path_pointer_def open_log_def)

end
