(* ===== verification/Spec2Isabelle.thy ===== *)
theory Spec2Isabelle
  imports Byte_Buffer Substring Wire_Codec Protobuf_Codec File_Buffer Memory_Pool Argument_Parser
    Http_Message Http_Server Thread_Pool Logger_Service Socket_Calls Event_Channel Tcp_Connection
    Codec_Connection GZip_Stream Http_GZip Loop_Threads Tls_Connection Tls_Stream Tcp_Server Server_Run Tcp_Client Client_Ownership
    Kqueue_Poller Bsd_Calls Iocp_Types Iocp_Tls_Stream Iocp_Server Iocp_Client Http_Service Log_Time
begin

text \<open>
  A verification development for the network library \<^verbatim>\<open>ladder\<close>.

  \<^bold>\<open>The program.\<close> Ladder is a reactor library in C++. A server (\<^verbatim>\<open>TcpServer\<close>) accepts sockets in a loop of its
  own and sets up a \<^verbatim>\<open>Connection\<close> for each, in a thread of a pool. A connection belongs to one of
  several event loops, each of which runs in a thread, polls with \<^verbatim>\<open>epoll\<close> and calls the callbacks of
  its channels. Incoming bytes are collected in a buffer and given to the user's callback in a worker
  thread; outgoing bytes and files wait in a buffer until the socket takes them. A connection can be
  encrypted through OpenSSL. On top of connections there are packet codecs, a codec for protocol
  buffer messages, and an HTTP server as an example. Beside these there are a logger with a writing
  thread, a memory pool, an argument parser and a compressor. A client (\<^verbatim>\<open>TcpClient\<close>) connects through a
  connector, which tries again after a time when the peer refuses, and then uses a connection as the server does.

  \<^bold>\<open>How the code is modelled.\<close> Every C++ function is a function of the logic that takes and returns the state it
  reads and writes. It gives \<open>Inl\<close> of an abnormal end (\<open>EXIT\<close> for the macro that ends the process, \<open>Throw\<close> for an
  exception, \<open>UB\<close> for undefined behaviour) or \<open>Inr\<close> of its result; functions with loops that may not end,
  and all that call them, give an option, where \<open>None\<close> means that the call does not return. Such loops
  are \<open>partial_function (option)\<close>, so no bound or fuel is chosen anywhere. Sizes and indices that are 32
  bits wide in the code are 32-bit words or converted by \<open>to_i32\<close>. Objects that are shared or destroyed
  (channels, loops, connections) live at addresses in maps, and access to an address that is not there
  is undefined behaviour. Threads are modelled by step relations whose steps are critical sections or
  calls, so that interleavings are sequences of steps. What the program calls but does not contain is
  an argument: a value of the record \<open>posix\<close> has one function for each system call, over an arbitrary type
  of kernel states; \<open>openssl\<close> and \<open>zlib\<close> are records of functions over arbitrary states, and the protocol
  buffer library, the checksum, \<open>inet_ntop\<close> and the user's callbacks are functions. Their documented
  behaviour is stated as named predicates that the theorems take as hypotheses and the witnesses
  discharge on sample instances. The Linux branches of the sources are modelled throughout, and of the others the poller and the timer on
  \<open>kqueue\<close>, and on completion ports the connections, plain and encrypted, the acceptor, the server and the client.

  \<^bold>\<open>Theories.\<close>

  \<^item> \<open>Ladder_Prelude\<close>: machine types, results and their sequencing, predicates on results (\<open>exits_or\<close>, \<open>keeps\<close>), bytes of
    integers, lists. \<open>Posix_Interface\<close>: the system calls, what the manual pages promise of them, and a
    sample kernel.
  \<^item> \<open>Byte_Buffer\<close> (\<^verbatim>\<open>Buffer.cpp\<close>): the buffer with its indices, proved to refine a queue of bytes (locale
    \<open>byte_queue\<close>), and its reading and writing loops, proved to return and to lose nothing.
    \<open>File_Buffer\<close> (\<^verbatim>\<open>FileBuffer.cpp\<close>): headers and files in order; what goes wrong with files that shrink.
  \<^item> \<open>Substring\<close> (\<^verbatim>\<open>utils.cpp\<close>): Knuth-Morris-Pratt search in 32-bit integers, equal to the list of all occurrences for
    patterns without a zero byte and lengths that fit an \<open>int\<close>.
  \<^item> \<open>Wire_Codec\<close> (\<^verbatim>\<open>Codec.cpp\<close>), \<open>Protobuf_Codec\<close> (\<^verbatim>\<open>ProtobufCodec.cpp\<close>): packets survive any cutting of the stream;
    behaviour on damaged packets.
  \<^item> \<open>Memory_Pool\<close> (\<^verbatim>\<open>MemoryPool.cpp\<close>), \<open>Argument_Parser\<close> (\<^verbatim>\<open>ArgumentParser.cpp\<close>), \<open>GZip_Stream\<close> (\<^verbatim>\<open>GZip.cpp\<close>): conservation of
    blocks, exact acceptance of command lines, round trip of compression.
  \<^item> \<open>Thread_Pool\<close> (\<^verbatim>\<open>ThreadPool.cpp\<close>), \<open>Logger_Service\<close> (\<^verbatim>\<open>Logging.cpp\<close>): first-in first-out order (locale \<open>fifo_service\<close>) and
    clean shutdown over every interleaving. \<open>Log_Time\<close>: time stamps, and how the log file is opened. \<open>Decimal_Text\<close>: numbers as texts.
  \<^item> \<open>Socket_Calls\<close> (\<^verbatim>\<open>Socket.cpp\<close>), \<open>Event_Channel\<close> (\<^verbatim>\<open>Channel.cpp\<close>, \<^verbatim>\<open>EventPoller.cpp\<close>, \<^verbatim>\<open>EventLoop.cpp\<close>): the reactor.
    \<open>Loop_Threads\<close> (\<^verbatim>\<open>EventLoopThreadPool.cpp\<close>, \<^verbatim>\<open>EventLoopThread.cpp\<close>): round robin, and starting and stopping loops
    from two threads.
  \<^item> \<open>Tcp_Connection\<close> (\<^verbatim>\<open>Connection.cpp\<close>): connections over either class of output buffer (locale \<open>stream_buffer\<close>),
    which send in the order of the calls. \<open>Codec_Connection\<close>: a codec on both ends of a connection,
    end to end.
  \<^item> \<open>Tls_Connection\<close> (\<^verbatim>\<open>TlsConnection.cpp\<close>) and \<open>Tls_Stream\<close>: encrypted connections, and that they keep the order of the
    plain text and lose no record. What is assumed of OpenSSL (\<open>ssl_promise\<close>) allows \<open>SSL_write\<close> to fail, and bounds its output by a function of what it
    was given; runs are as long as that stays below the 4 gigabytes of a buffer.
  \<^item> \<open>Net_Shape\<close>: what sending, reading and arming a connection leave alone, and the locale \<open>handler_invariant\<close>, which lifts an
    invariant from callbacks to the handling of events. It is interpreted for servers and for clients.
  \<^item> \<open>Tcp_Server\<close> (\<^verbatim>\<open>TcpServer.cpp\<close>, \<^verbatim>\<open>Acceptor.cpp\<close>): the server, with counted pointers to connections. \<open>Server_Ownership\<close>: the
    invariant of ownership. \<open>Server_Run\<close>: a running server as a state machine that keeps the invariant.
  \<^item> \<open>Client_Timer\<close> (\<^verbatim>\<open>Timer.cpp\<close>), \<open>Tcp_Client\<close> (\<^verbatim>\<open>Connector.cpp\<close>, \<^verbatim>\<open>TcpClient.cpp\<close>): timers, attempts to connect with timeouts that double until the client gives up
    or the 16 bits of the timeout are all shifted out, and the client. \<open>Client_Ownership\<close>: a running client as a state machine that leaks no descriptor.
  \<^item> \<open>Kqueue_Poller\<close> (\<^verbatim>\<open>EventPoller.cpp\<close>, \<^verbatim>\<open>Channel.cpp\<close>): the poller of FreeBSD and macOS, which arms channels as the one on \<open>epoll\<close> does (locale
    \<open>write_arming\<close>, interpreted for both), and what goes wrong when a channel is listed twice. \<open>Bsd_Calls\<close> (\<^verbatim>\<open>Socket.cpp\<close>, \<^verbatim>\<open>EventPoller.cpp\<close>, \<^verbatim>\<open>Timer.cpp\<close>): the other
    branches for these systems, with a \<open>sendfile\<close> that repeats bytes.
  \<^item> \<open>Iocp_Connection\<close> (\<^verbatim>\<open>Connection.cpp\<close>, \<^verbatim>\<open>EventLoop.cpp\<close>), \<open>Iocp_Acceptor\<close> (\<^verbatim>\<open>Acceptor.cpp\<close>, \<^verbatim>\<open>TcpServer.cpp\<close>): connections and the acceptor of Windows. A connection sends in
    the order of the calls; where it stalls or leaks, and how first bytes are mixed up. \<open>Iocp_Types\<close>: a type of connection states that every call and
    completion of a connection that exists keeps, so that nothing is undefined. \<open>Iocp_Tls\<close> (\<^verbatim>\<open>TlsConnection.cpp\<close>) and \<open>Iocp_Tls_Stream\<close>: encrypted connections, which keep the order of the plain text
    on a server, and of which a client posts its first message twice. \<open>Iocp_Server\<close> (\<^verbatim>\<open>TcpServer.cpp\<close>, \<^verbatim>\<open>EventLoop.cpp\<close>, \<^verbatim>\<open>EventLoopThreadPool.cpp\<close>): starting and stopping of
    the server and its loops, and what stopping closes.
    \<open>Iocp_Client\<close> (\<^verbatim>\<open>Timer.cpp\<close>, \<^verbatim>\<open>Connector.cpp\<close>, \<^verbatim>\<open>TcpClient.cpp\<close>): the client of Windows, which stops trying after two attempts.
  \<^item> \<open>File_Utils\<close> (\<^verbatim>\<open>utils.cpp\<close>): sizes and contents of files. \<open>Http_Message\<close>, \<open>Http_Server\<close>, \<open>Http_GZip\<close> (\<^verbatim>\<open>examples/http\<close>): parsing of requests, the GET handler, and its composition
    with the compressor. \<open>Http_Service\<close>: the command line of the server, and its callback on a connection, which sends the answer
    behind what was sent before.

  \<^bold>\<open>Not modelled.\<close> The texts of the log messages and the handler that logs a signal; the main functions of the examples other than the HTTP server, the tests, and build
  files, which only call what is modelled. The
  mutexes of the server's tables are not separate objects: each critical section is part of one step.
\<close>

end
